(* ===== verification/Prelude.thy ===== *)
theory Prelude
  imports Main
begin

text \<open>
  Shared vocabulary of the development: the Rust types and standard-library operations that
  the components use. A Rust \<open>str\<close> is its UTF-8 byte string, so \<open>length\<close> is \<open>str::len\<close> and
  \<open>''...''\<close> literals read as in the source; \<open>u64\<close> and \<open>usize\<close> are natural numbers with the
  saturating and checked operations written out against \<open>u64_max\<close>; a fallible function
  returns a sum whose left side is either an error value or a panic.
\<close>

named_theorems rust_simps \<open>unfolding rules of the Rust standard-library model\<close>
named_theorems path_simps \<open>rules on slash-separated paths and their validation\<close>

section \<open>Results, errors and panics\<close>

datatype 'e fail = Fail 'e | Panic string

type_synonym ('e, 'a) rust = "'e fail + 'a"

definition rbind :: "('e, 'a) rust \<Rightarrow> ('a \<Rightarrow> ('e, 'b) rust) \<Rightarrow> ('e, 'b) rust" where
  "rbind m f = (case m of Inl e \<Rightarrow> Inl e | Inr x \<Rightarrow> f x)"

definition guard :: "bool \<Rightarrow> 'e \<Rightarrow> ('e, unit) rust" where
  "guard c e = (if c then Inr () else Inl (Fail e))"

definition no_panic :: "('e, 'a) rust \<Rightarrow> bool" where
  "no_panic r \<longleftrightarrow> (\<forall>m. r \<noteq> Inl (Panic m))"

lemma rbind_simps [simp]:
  "rbind (Inl e) f = Inl e"
  "rbind (Inr x) f = f x"
  by (simp_all add: rbind_def)

lemma rbind_Inr_iff: "rbind m f = Inr y \<longleftrightarrow> (\<exists>x. m = Inr x \<and> f x = Inr y)"
  by (cases m) auto

lemma rbind_InrE:
  assumes "rbind m f = Inr y"
  obtains x where "m = Inr x" and "f x = Inr y"
  using assms by (auto simp: rbind_Inr_iff)

lemma rbind_assoc: "rbind (rbind m f) g = rbind m (\<lambda>x. rbind (f x) g)"
  by (cases m) auto

lemma guard_Inr_iff [simp]: "guard c e = Inr u \<longleftrightarrow> c"
  by (simp add: guard_def)

lemma guard_simps [simp]: "guard True e = Inr ()" "guard False e = Inl (Fail e)"
  by (simp_all add: guard_def)

lemma no_panic_simps [simp]:
  "no_panic (Inr x)" "no_panic (Inl (Fail e))" "\<not> no_panic (Inl (Panic m))" "no_panic (guard c e)"
  by (auto simp: no_panic_def guard_def)

lemma no_panic_rbind [intro]:
  "no_panic m \<Longrightarrow> (\<And>x. m = Inr x \<Longrightarrow> no_panic (f x)) \<Longrightarrow> no_panic (rbind m f)"
  by (cases m) (auto simp: no_panic_def)

lemma no_panic_rbind_Inr [simp]: "no_panic (rbind m (\<lambda>x. Inr (g x))) = no_panic m"
  by (cases m) (auto simp: no_panic_def)

section \<open>Machine integers\<close>

definition u64_max :: nat where
  "u64_max = 18446744073709551615"

definition sat_add :: "nat \<Rightarrow> nat \<Rightarrow> nat" where
  "sat_add a b = min (a + b) u64_max"

definition checked_add :: "nat \<Rightarrow> nat \<Rightarrow> nat option" where
  "checked_add a b = (if a + b \<le> u64_max then Some (a + b) else None)"

definition checked_sub :: "nat \<Rightarrow> nat \<Rightarrow> nat option" where
  "checked_sub a b = (if b \<le> a then Some (a - b) else None)"

definition checked_mul :: "nat \<Rightarrow> nat \<Rightarrow> nat option" where
  "checked_mul a b = (if a * b \<le> u64_max then Some (a * b) else None)"

lemma sat_add_exact [simp]: "a + b \<le> u64_max \<Longrightarrow> sat_add a b = a + b"
  by (simp add: sat_add_def)

lemma sat_add_le: "sat_add a b \<le> a + b"
  by (simp add: sat_add_def)

lemma checked_Some_iff [simp]:
  "checked_add a b = Some c \<longleftrightarrow> c = a + b \<and> a + b \<le> u64_max"
  "checked_sub a b = Some c \<longleftrightarrow> c = a - b \<and> b \<le> a"
  "checked_mul a b = Some c \<longleftrightarrow> c = a * b \<and> a * b \<le> u64_max"
  by (auto simp: checked_add_def checked_sub_def checked_mul_def)

section \<open>Slices and strings\<close>

fun strip_prefix :: "'a list \<Rightarrow> 'a list \<Rightarrow> 'a list option" where
  "strip_prefix [] s = Some s"
| "strip_prefix (a # p) [] = None"
| "strip_prefix (a # p) (b # s) = (if a = b then strip_prefix p s else None)"

definition strip_suffix :: "'a list \<Rightarrow> 'a list \<Rightarrow> 'a list option" where
  "strip_suffix p s = map_option rev (strip_prefix (rev p) (rev s))"

definition starts_with :: "'a list \<Rightarrow> 'a list \<Rightarrow> bool" where
  "starts_with p s = (strip_prefix p s \<noteq> None)"

definition ends_with :: "'a list \<Rightarrow> 'a list \<Rightarrow> bool" where
  "ends_with p s = (strip_suffix p s \<noteq> None)"

lemma strip_prefix_Some_iff [simp]: "strip_prefix p s = Some r \<longleftrightarrow> s = p @ r"
  by (induction p s rule: strip_prefix.induct) auto

lemma strip_prefix_append [simp]: "strip_prefix p (p @ r) = Some r"
  by simp

lemma strip_prefix_None_iff: "strip_prefix p s = None \<longleftrightarrow> (\<nexists>r. s = p @ r)"
  by (metis not_None_eq strip_prefix_Some_iff)

lemma starts_with_iff: "starts_with p s \<longleftrightarrow> (\<exists>r. s = p @ r)"
  by (auto simp: starts_with_def strip_prefix_None_iff)

lemma strip_suffix_Some_iff [simp]: "strip_suffix p s = Some r \<longleftrightarrow> s = r @ p"
  by (auto simp: strip_suffix_def rev_swap)

lemma ends_with_iff: "ends_with p s \<longleftrightarrow> (\<exists>r. s = r @ p)"
  by (auto simp: ends_with_def)

fun split_char :: "'a \<Rightarrow> 'a list \<Rightarrow> 'a list list" where
  "split_char c [] = [[]]"
| "split_char c (x # xs) =
     (if x = c then [] # split_char c xs
      else (case split_char c xs of [] \<Rightarrow> [[x]] | h # t \<Rightarrow> (x # h) # t))"

fun join :: "'a list \<Rightarrow> 'a list list \<Rightarrow> 'a list" where
  "join sep [] = []"
| "join sep [x] = x"
| "join sep (x # y # zs) = x @ sep @ join sep (y # zs)"

lemma split_char_neq_Nil [simp]: "split_char c s \<noteq> []"
  by (cases s) (auto split: list.splits)

lemma split_char_free: "x \<in> set (split_char c s) \<Longrightarrow> c \<notin> set x"
  by (induction s arbitrary: x) (auto split: if_splits list.splits)

lemma join_Cons_Cons: "join sep ((x # y) # zs) = x # join sep (y # zs)"
  by (cases zs) auto

lemma join_Nil_Cons: "zs \<noteq> [] \<Longrightarrow> join sep (x # zs) = x @ sep @ join sep zs"
  by (cases zs) auto

lemma join_split_char [simp]: "join [c] (split_char c s) = s"
proof (induction s)
  case (Cons x xs)
  then show ?case
    by (cases "split_char c xs") (auto simp: join_Cons_Cons join_Nil_Cons)
qed simp

lemma split_char_noneed: "c \<notin> set s \<Longrightarrow> split_char c s = [s]"
  by (induction s) auto

lemma split_char_append: "c \<notin> set s \<Longrightarrow> split_char c (s @ c # t) = s # split_char c t"
  by (induction s) auto

lemma split_char_join:
  assumes "xs \<noteq> []" and "\<And>x. x \<in> set xs \<Longrightarrow> c \<notin> set x"
  shows "split_char c (join [c] xs) = xs"
  using assms
proof (induction "[c]" xs rule: join.induct)
  case (2 x)
  then show ?case by (simp add: split_char_noneed)
next
  case (3 x y zs)
  then show ?case by (simp add: split_char_append)
qed simp

abbreviation LF :: char where "LF \<equiv> CHR 0x0A"
abbreviation CR :: char where "CR \<equiv> CHR 0x0D"
abbreviation NUL :: char where "NUL \<equiv> CHR 0x00"
abbreviation SQUOTE :: char where "SQUOTE \<equiv> CHR 0x27"

text \<open>\<open>str::strip_suffix('\r').unwrap_or(line)\<close> and \<open>str::lines\<close>.\<close>

definition strip_cr :: "string \<Rightarrow> string" where
  "strip_cr s = (case strip_suffix [CR] s of Some r \<Rightarrow> r | None \<Rightarrow> s)"

definition str_lines :: "string \<Rightarrow> string list" where
  "str_lines s =
     (let ps = split_char LF s
      in map strip_cr (butlast ps) @ (if last ps = [] then [] else [last ps]))"

text \<open>
  \<open>str::trim\<close> and \<open>str::trim_end\<close> remove the characters with the Unicode property
  \<open>White_Space\<close>; \<open>white_space\<close> lists their UTF-8 encodings. On valid UTF-8 a byte sequence
  equal to one of these encodings is that character, because lead and continuation bytes
  are disjoint.
\<close>

definition white_space :: "string list" where
  "white_space =
     [[CHR 0x20], [CHR 0x09], [CHR 0x0A], [CHR 0x0B], [CHR 0x0C], [CHR 0x0D],
      [CHR 0xC2, CHR 0x85], [CHR 0xC2, CHR 0xA0], [CHR 0xE1, CHR 0x9A, CHR 0x80],
      [CHR 0xE2, CHR 0x80, CHR 0x80], [CHR 0xE2, CHR 0x80, CHR 0x81],
      [CHR 0xE2, CHR 0x80, CHR 0x82], [CHR 0xE2, CHR 0x80, CHR 0x83],
      [CHR 0xE2, CHR 0x80, CHR 0x84], [CHR 0xE2, CHR 0x80, CHR 0x85],
      [CHR 0xE2, CHR 0x80, CHR 0x86], [CHR 0xE2, CHR 0x80, CHR 0x87],
      [CHR 0xE2, CHR 0x80, CHR 0x88], [CHR 0xE2, CHR 0x80, CHR 0x89],
      [CHR 0xE2, CHR 0x80, CHR 0x8A], [CHR 0xE2, CHR 0x80, CHR 0xA8],
      [CHR 0xE2, CHR 0x80, CHR 0xA9], [CHR 0xE2, CHR 0x80, CHR 0xAF],
      [CHR 0xE2, CHR 0x81, CHR 0x9F], [CHR 0xE3, CHR 0x80, CHR 0x80]]"

lemma white_space_nonempty: "w \<in> set white_space \<Longrightarrow> w \<noteq> []"
  by (auto simp: white_space_def)

function trim_start :: "string \<Rightarrow> string" where
  "trim_start s = (case find (\<lambda>w. starts_with w s) white_space of
     None \<Rightarrow> s | Some w \<Rightarrow> trim_start (drop (length w) s))"
  by pat_completeness auto
termination
proof (relation "measure length", simp)
  fix s w assume f: "find (\<lambda>w. starts_with w s) white_space = Some w"
  then have "w \<in> set white_space" and "starts_with w s"
    by (auto simp: find_Some_iff)
  then show "(drop (length w) s, s) \<in> measure length"
    by (auto simp: starts_with_iff dest: white_space_nonempty)
qed

function trim_end :: "string \<Rightarrow> string" where
  "trim_end s = (case find (\<lambda>w. ends_with w s) white_space of
     None \<Rightarrow> s | Some w \<Rightarrow> trim_end (take (length s - length w) s))"
  by pat_completeness auto
termination
proof (relation "measure length", simp)
  fix s w assume f: "find (\<lambda>w. ends_with w s) white_space = Some w"
  then have "w \<in> set white_space" and "ends_with w s"
    by (auto simp: find_Some_iff)
  then show "(take (length s - length w) s, s) \<in> measure length"
    by (auto simp: ends_with_iff dest: white_space_nonempty)
qed

declare trim_start.simps [simp del] trim_end.simps [simp del]

definition trim :: "string \<Rightarrow> string" where
  "trim s = trim_end (trim_start s)"

text \<open>A string neither of whose ends is white space, so that trimming keeps it.\<close>

definition trimmed_start :: "string \<Rightarrow> bool" where
  "trimmed_start s = list_all (\<lambda>w. \<not> starts_with w s) white_space"

definition trimmed_end :: "string \<Rightarrow> bool" where
  "trimmed_end s = list_all (\<lambda>w. \<not> ends_with w s) white_space"

lemma find_None_list_all: "find P xs = None \<longleftrightarrow> list_all (\<lambda>x. \<not> P x) xs"
  by (induction xs) auto

lemma trim_start_id: "trimmed_start s \<Longrightarrow> trim_start s = s"
  by (subst trim_start.simps)
     (simp add: trimmed_start_def find_None_list_all [THEN iffD2])

lemma trim_end_id: "trimmed_end s \<Longrightarrow> trim_end s = s"
  by (subst trim_end.simps)
     (simp add: trimmed_end_def find_None_list_all [THEN iffD2])

lemma trim_id: "trimmed_start s \<Longrightarrow> trimmed_end s \<Longrightarrow> trim s = s"
  by (simp add: trim_def trim_start_id trim_end_id)

text \<open>Decimal rendering of an unsigned integer, as \<open>format!("{}")\<close> prints it.\<close>

definition digit_char :: "nat \<Rightarrow> char" where
  "digit_char d = char_of (48 + d)"

fun show_nat :: "nat \<Rightarrow> string" where
  "show_nat n = (if n < 10 then [digit_char n] else show_nat (n div 10) @ [digit_char (n mod 10)])"

declare show_nat.simps [simp del]

lemma digit_char_inj: "a < 10 \<Longrightarrow> b < 10 \<Longrightarrow> digit_char a = digit_char b \<longleftrightarrow> a = b"
  by (auto simp: digit_char_def char_of_eq_iff of_char_of take_bit_eq_mod
           dest!: arg_cong [where f = "of_char :: char \<Rightarrow> nat"])

lemma show_nat_neq_Nil [simp]: "show_nat n \<noteq> []"
  by (subst show_nat.simps) simp

lemma show_nat_inj: "show_nat a = show_nat b \<longleftrightarrow> a = b"
proof (induction a arbitrary: b rule: show_nat.induct)
  case (1 a)
  show ?case
  proof (cases "a < 10 \<or> b < 10")
    case True
    then show ?thesis
      by (subst show_nat.simps, subst (2) show_nat.simps)
         (auto simp: digit_char_inj append_eq_Cons_conv Cons_eq_append_conv)
  next
    case False
    then have "show_nat a = show_nat b \<longleftrightarrow> a div 10 = b div 10 \<and> a mod 10 = b mod 10"
      by (subst show_nat.simps, subst (2) show_nat.simps) (simp add: digit_char_inj "1.IH")
    then show ?thesis by (metis div_mult_mod_eq)
  qed
qed

section \<open>Vectors\<close>

text \<open>\<open>Vec::last\<close>, and \<open>Vec::last_mut\<close> as an update of the last element.\<close>

definition vec_last :: "'a list \<Rightarrow> 'a option" where
  "vec_last xs = (if xs = [] then None else Some (last xs))"

definition set_last :: "'a list \<Rightarrow> 'a \<Rightarrow> 'a list" where
  "set_last xs x = butlast xs @ [x]"

lemma vec_last_Some_iff: "vec_last xs = Some x \<longleftrightarrow> (\<exists>ys. xs = ys @ [x])"
  by (auto simp: vec_last_def) (metis append_butlast_last_id)

lemma vec_last_simps [simp]:
  "vec_last [] = None" "vec_last (xs @ [x]) = Some x"
  by (simp_all add: vec_last_def)

lemma vec_last_None_iff [simp]: "vec_last xs = None \<longleftrightarrow> xs = []"
  by (simp add: vec_last_def)

lemma set_last_snoc [simp]: "set_last (xs @ [x]) y = xs @ [y]"
  by (simp add: set_last_def)

lemma take_grow:
  "take (length xs) zs = xs \<Longrightarrow> take (length ys) (drop (length xs) zs) = ys \<Longrightarrow> take (length (xs @ ys)) zs = xs @ ys"
  by (simp add: take_add)

text \<open>Range indexing and unsigned subtraction, which panic outside their domain.\<close>

definition slice :: "'a list \<Rightarrow> nat \<Rightarrow> nat \<Rightarrow> ('e, 'a list) rust" where
  "slice xs a b =
     (if a \<le> b \<and> b \<le> length xs then Inr (take (b - a) (drop a xs))
      else Inl (Panic ''range out of bounds''))"

definition usub :: "nat \<Rightarrow> nat \<Rightarrow> ('e, nat) rust" where
  "usub a b = (if b \<le> a then Inr (a - b) else Inl (Panic ''attempt to subtract with overflow''))"

definition vec_insert :: "'a list \<Rightarrow> nat \<Rightarrow> 'a \<Rightarrow> ('e, 'a list) rust" where
  "vec_insert xs i x =
     (if i \<le> length xs then Inr (take i xs @ x # drop i xs)
      else Inl (Panic ''insertion index out of bounds''))"

definition vec_remove :: "'a list \<Rightarrow> nat \<Rightarrow> 'a list" where
  "vec_remove xs i = take i xs @ drop (Suc i) xs"

lemma slice_ok [simp]: "a \<le> b \<Longrightarrow> b \<le> length xs \<Longrightarrow> slice xs a b = Inr (take (b - a) (drop a xs))"
  by (simp add: slice_def)

lemma usub_ok [simp]: "b \<le> a \<Longrightarrow> usub a b = Inr (a - b)"
  by (simp add: usub_def)

lemma vec_insert_ok [simp]: "i \<le> length xs \<Longrightarrow> vec_insert xs i x = Inr (take i xs @ x # drop i xs)"
  by (simp add: vec_insert_def)

end
