(* ===== verification/Patch_Parser.thy ===== *)
theory Patch_Parser
  imports Prelude
begin

text \<open>
  The freeform patch parser of \<open>tool-apply-patch\<close>
  (\<open>platform/packages/tools/apply-patch/src/parser.rs\<close>): the line-driven state machine
  \<open>Parser\<close> with its modes, the boundary check with the legacy here-document wrapper, and the
  hunks it produces. The lemmas show that the parser never reaches its \<open>unreachable!\<close> arms,
  that every accepted patch consists of well-formed hunks, and that the textual form of
  well-formed hunks parses back to the same hunks.
\<close>

section \<open>Data\<close>

definition BEGIN_PATCH_MARKER :: string where "BEGIN_PATCH_MARKER = ''*** Begin Patch''"
definition END_PATCH_MARKER :: string where "END_PATCH_MARKER = ''*** End Patch''"
definition ADD_FILE_MARKER :: string where "ADD_FILE_MARKER = ''*** Add File: ''"
definition DELETE_FILE_MARKER :: string where "DELETE_FILE_MARKER = ''*** Delete File: ''"
definition UPDATE_FILE_MARKER :: string where "UPDATE_FILE_MARKER = ''*** Update File: ''"
definition MOVE_TO_MARKER :: string where "MOVE_TO_MARKER = ''*** Move to: ''"
definition EOF_MARKER :: string where "EOF_MARKER = ''*** End of File''"
definition CHANGE_CONTEXT_MARKER :: string where "CHANGE_CONTEXT_MARKER = ''@@ ''"
definition EMPTY_CHANGE_CONTEXT_MARKER :: string where "EMPTY_CHANGE_CONTEXT_MARKER = ''@@''"
definition ENVIRONMENT_ID_MARKER :: string where "ENVIRONMENT_ID_MARKER = ''*** Environment ID:''"

lemmas marker_defs = BEGIN_PATCH_MARKER_def END_PATCH_MARKER_def ADD_FILE_MARKER_def
  DELETE_FILE_MARKER_def UPDATE_FILE_MARKER_def MOVE_TO_MARKER_def EOF_MARKER_def
  CHANGE_CONTEXT_MARKER_def EMPTY_CHANGE_CONTEXT_MARKER_def ENVIRONMENT_ID_MARKER_def

record update_file_chunk =
  change_context :: "string option"
  old_lines :: "string list"
  new_lines :: "string list"
  context_line_indices :: "(nat \<times> nat) list"
  is_end_of_file :: bool

definition chunk_default :: update_file_chunk where
  "chunk_default = \<lparr>change_context = None, old_lines = [], new_lines = [],
                    context_line_indices = [], is_end_of_file = False\<rparr>"

definition push_context_line :: "update_file_chunk \<Rightarrow> string \<Rightarrow> update_file_chunk" where
  "push_context_line c line =
     c\<lparr>context_line_indices := context_line_indices c @ [(length (old_lines c), length (new_lines c))],
       old_lines := old_lines c @ [line], new_lines := new_lines c @ [line]\<rparr>"

datatype hunk =
    AddFile string string
  | DeleteFile string
  | UpdateFile string "string option" "update_file_chunk list"

fun source_path :: "hunk \<Rightarrow> string" where
  "source_path (AddFile path _) = path"
| "source_path (DeleteFile path) = path"
| "source_path (UpdateFile path _ _) = path"

fun affected_path :: "hunk \<Rightarrow> string" where
  "affected_path (UpdateFile _ (Some path) _) = path"
| "affected_path h = source_path h"

datatype parse_error = InvalidPatch string | InvalidHunk string nat

record parsed_patch =
  patch :: string
  parsed_hunks :: "hunk list"
  parsed_environment_id :: "string option"

datatype mode =
    NotStarted
  | StartedPatch
  | AddFileMode
  | DeleteFileMode
  | UpdateFileMode nat
  | EndedPatch

record parser =
  mode :: mode
  line_number :: nat
  hunks :: "hunk list"
  environment_id :: "string option"

definition parser_default :: parser where
  "parser_default = \<lparr>mode = NotStarted, line_number = 0, hunks = [], environment_id = None\<rparr>"

section \<open>Messages\<close>

definition quoted :: "string \<Rightarrow> string" where
  "quoted s = [SQUOTE] @ s @ [SQUOTE]"

definition first_line_message :: string where
  "first_line_message = ''The first line of the patch must be '' @ quoted BEGIN_PATCH_MARKER"

definition last_line_message :: string where
  "last_line_message = ''The last line of the patch must be '' @ quoted END_PATCH_MARKER"

definition invalid_update_line :: "string \<Rightarrow> string" where
  "invalid_update_line line =
     ''Unexpected line found in update hunk: '' @ quoted line
     @ ''. Every line should start with '' @ quoted '' '' @ '' (context line), '' @ quoted ''+''
     @ '' (added line), or '' @ quoted ''-'' @ '' (removed line)''"

definition invalid_header :: "parser \<Rightarrow> string \<Rightarrow> parse_error" where
  "invalid_header p line =
     InvalidHunk (quoted line @ '' is not a valid hunk header. Valid hunk headers: ''
        @ quoted ''*** Add File: {path}'' @ '', '' @ quoted ''*** Delete File: {path}''
        @ '', '' @ quoted ''*** Update File: {path}'') (line_number p)"

definition expected_context_message :: "string \<Rightarrow> string" where
  "expected_context_message line =
     ''Expected update hunk to start with a @@ context marker, got: '' @ quoted line"

section \<open>The state machine\<close>

definition chunk_empty :: "update_file_chunk \<Rightarrow> bool" where
  "chunk_empty c \<longleftrightarrow> old_lines c = [] \<and> new_lines c = []"

definition last_is :: "('a \<Rightarrow> bool) \<Rightarrow> 'a list \<Rightarrow> bool" where
  "last_is P xs = (case vec_last xs of None \<Rightarrow> False | Some x \<Rightarrow> P x)"

definition ensure_update_not_empty :: "parser \<Rightarrow> string \<Rightarrow> (parse_error, unit) rust" where
  "ensure_update_not_empty p line =
     (case vec_last (hunks p) of
        Some (UpdateFile path _ chunks) \<Rightarrow>
          (case (chunks, mode p) of
             ([], UpdateFileMode n) \<Rightarrow>
               Inl (Fail (InvalidHunk (''Update file hunk for path '' @ quoted path @ '' is empty'') n))
           | _ \<Rightarrow>
               (if last_is chunk_empty chunks
                then Inl (Fail (InvalidHunk
                  (if line = END_PATCH_MARKER then ''Update hunk does not contain any lines''
                   else invalid_update_line line) (line_number p)))
                else Inr ()))
      | _ \<Rightarrow> Inr ())"

text \<open>\<open>handle_header\<close>: \<open>Some p'\<close> is \<open>Ok(true)\<close> with the new state, \<open>None\<close> is \<open>Ok(false)\<close>.\<close>

definition push_hunk :: "parser \<Rightarrow> string \<Rightarrow> hunk \<Rightarrow> mode \<Rightarrow> (parse_error, parser option) rust" where
  "push_hunk p line h m =
     rbind (ensure_update_not_empty p line)
       (\<lambda>_. Inr (Some (p\<lparr>hunks := hunks p @ [h], mode := m\<rparr>)))"

definition handle_environment_id :: "parser \<Rightarrow> string \<Rightarrow> (parse_error, parser option) rust" where
  "handle_environment_id p value =
     (if environment_id p \<noteq> None
      then Inl (Fail (InvalidPatch ''apply_patch environment_id cannot be specified more than once''))
      else (let v = trim value in
        if v = [] then Inl (Fail (InvalidPatch ''apply_patch environment_id cannot be empty''))
        else Inr (Some (p\<lparr>environment_id := Some v\<rparr>))))"

definition handle_file_header :: "parser \<Rightarrow> string \<Rightarrow> (parse_error, parser option) rust" where
  "handle_file_header p line =
     (if line = END_PATCH_MARKER
      then rbind (ensure_update_not_empty p line) (\<lambda>_. Inr (Some (p\<lparr>mode := EndedPatch\<rparr>)))
      else case strip_prefix ADD_FILE_MARKER line of
        Some path \<Rightarrow> push_hunk p line (AddFile path []) AddFileMode
      | None \<Rightarrow> (case strip_prefix DELETE_FILE_MARKER line of
          Some path \<Rightarrow> push_hunk p line (DeleteFile path) DeleteFileMode
        | None \<Rightarrow> (case strip_prefix UPDATE_FILE_MARKER line of
            Some path \<Rightarrow> push_hunk p line (UpdateFile path None []) (UpdateFileMode (line_number p))
          | None \<Rightarrow> Inr None)))"

definition handle_header :: "parser \<Rightarrow> string \<Rightarrow> (parse_error, parser option) rust" where
  "handle_header p line =
     (case (if mode p = StartedPatch then strip_prefix ENVIRONMENT_ID_MARKER line else None) of
        Some value \<Rightarrow> handle_environment_id p value
      | None \<Rightarrow> handle_file_header p line)"

text \<open>\<open>get_or_insert_default\<close> followed by an update of the chunk it returns.\<close>

definition on_last_chunk ::
  "update_file_chunk list \<Rightarrow> (update_file_chunk \<Rightarrow> update_file_chunk) \<Rightarrow> update_file_chunk list" where
  "on_last_chunk chunks f =
     (case vec_last chunks of None \<Rightarrow> [f chunk_default] | Some c \<Rightarrow> set_last chunks (f c))"

definition is_context_marker :: "string \<Rightarrow> bool" where
  "is_context_marker l \<longleftrightarrow> l = EMPTY_CHANGE_CONTEXT_MARKER \<or> starts_with CHANGE_CONTEXT_MARKER l"

text \<open>
  The body of an update line after the headers and the \<open>Move to\<close> line:
  \<open>update_line\<close> is the line without trailing white space.
\<close>

definition update_body ::
  "nat \<Rightarrow> string \<Rightarrow> string \<Rightarrow> update_file_chunk list \<Rightarrow> (parse_error, update_file_chunk list) rust" where
  "update_body n line update_line chunks =
     (if is_context_marker update_line \<and> last_is chunk_empty chunks
      then Inl (Fail (InvalidHunk (invalid_update_line line) n))
      else if update_line = EMPTY_CHANGE_CONTEXT_MARKER
      then Inr (chunks @ [chunk_default])
      else case strip_prefix CHANGE_CONTEXT_MARKER update_line of
        Some context \<Rightarrow> Inr (chunks @ [chunk_default\<lparr>change_context := Some context\<rparr>])
      | None \<Rightarrow>
        if update_line = EOF_MARKER
        then (if last_is chunk_empty chunks
              then Inl (Fail (InvalidHunk ''Update hunk does not contain any lines'' n))
              else (case vec_last chunks of
                 None \<Rightarrow> Inr chunks
               | Some c \<Rightarrow> Inr (set_last chunks (c\<lparr>is_end_of_file := True\<rparr>))))
        else case line of
          [] \<Rightarrow> Inr (on_last_chunk chunks (\<lambda>c. push_context_line c []))
        | ch # text \<Rightarrow>
            if ch = CHR '' '' then Inr (on_last_chunk chunks (\<lambda>c. push_context_line c text))
            else if ch = CHR ''+''
            then Inr (on_last_chunk chunks (\<lambda>c. c\<lparr>new_lines := new_lines c @ [text]\<rparr>))
            else if ch = CHR ''-''
            then Inr (on_last_chunk chunks (\<lambda>c. c\<lparr>old_lines := old_lines c @ [text]\<rparr>))
            else Inl (Fail (InvalidHunk
              (if last_is (\<lambda>c. \<not> chunk_empty c) chunks then expected_context_message line
               else invalid_update_line line) n)))"

definition process_update ::
  "parser \<Rightarrow> string \<Rightarrow> string \<Rightarrow> string \<Rightarrow> string option \<Rightarrow> update_file_chunk list \<Rightarrow> (parse_error, parser) rust" where
  "process_update p line update_line path move_path chunks =
     (let put = (\<lambda>mv cs. p\<lparr>hunks := set_last (hunks p) (UpdateFile path mv cs)\<rparr>);
          after_eof = last_is is_end_of_file chunks
      in if after_eof \<and> update_line = [] then Inr p
         else if after_eof \<and> \<not> is_context_marker update_line
         then Inl (Fail (InvalidHunk (expected_context_message line) (line_number p)))
         else case (if chunks = [] \<and> move_path = None
                    then strip_prefix MOVE_TO_MARKER update_line else None) of
           Some destination \<Rightarrow> Inr (put (Some destination) chunks)
         | None \<Rightarrow> rbind (update_body (line_number p) line update_line chunks)
                      (\<lambda>cs. Inr (put move_path cs)))"

definition process_line :: "parser \<Rightarrow> string \<Rightarrow> (parse_error, parser) rust" where
  "process_line p line =
     (let trimmed = trim line in
      case mode p of
        NotStarted \<Rightarrow>
          (if trimmed = BEGIN_PATCH_MARKER then Inr (p\<lparr>mode := StartedPatch\<rparr>)
           else Inl (Fail (InvalidPatch first_line_message)))
      | AddFileMode \<Rightarrow>
          rbind (handle_header p trimmed) (\<lambda>r. case r of
            Some p' \<Rightarrow> Inr p'
          | None \<Rightarrow> (case (strip_prefix ''+'' line, vec_last (hunks p)) of
              (Some content, Some (AddFile path contents)) \<Rightarrow>
                Inr (p\<lparr>hunks := set_last (hunks p) (AddFile path (contents @ content @ [LF]))\<rparr>)
            | _ \<Rightarrow> Inl (Fail (invalid_header p trimmed))))
      | UpdateFileMode n \<Rightarrow>
          (let update_line = trim_end line in
           rbind (handle_header p update_line) (\<lambda>r. case r of
             Some p' \<Rightarrow> Inr p'
           | None \<Rightarrow> (case vec_last (hunks p) of
               Some (UpdateFile path move_path chunks) \<Rightarrow>
                 process_update p line update_line path move_path chunks
             | _ \<Rightarrow> Inl (Panic ''update mode has an update hunk''))))
      | EndedPatch \<Rightarrow>
          (if trimmed = [] then Inr p else Inl (Fail (InvalidPatch last_line_message)))
      | _ \<Rightarrow>
          rbind (handle_header p trimmed) (\<lambda>r. case r of
            Some p' \<Rightarrow> Inr p'
          | None \<Rightarrow> Inl (Fail (invalid_header p trimmed))))"

section \<open>Whole patches\<close>

definition first_is :: "string \<Rightarrow> string list \<Rightarrow> bool" where
  "first_is m ls = (case ls of [] \<Rightarrow> False | l # _ \<Rightarrow> trim l = m)"

definition boundaries_valid :: "string list \<Rightarrow> bool" where
  "boundaries_valid ls \<longleftrightarrow>
     first_is BEGIN_PATCH_MARKER ls \<and> last_is (\<lambda>l. trim l = END_PATCH_MARKER) ls"

definition check_boundaries :: "string list \<Rightarrow> (parse_error, unit) rust" where
  "check_boundaries ls =
     (if \<not> first_is BEGIN_PATCH_MARKER ls then Inl (Fail (InvalidPatch first_line_message))
      else if \<not> last_is (\<lambda>l. trim l = END_PATCH_MARKER) ls
      then Inl (Fail (InvalidPatch last_line_message))
      else Inr ())"

definition heredoc_openers :: "string list" where
  "heredoc_openers = [''<<EOF'', ''<<'' @ quoted ''EOF'', ''<<'' @ [CHR 0x22] @ ''EOF'' @ [CHR 0x22]]"

definition patch_lines :: "string list \<Rightarrow> (parse_error, string list) rust" where
  "patch_lines ls =
     (if boundaries_valid ls then Inr ls
      else if 4 \<le> length ls \<and> hd ls \<in> set heredoc_openers \<and> ends_with ''EOF'' (last ls)
      then (let inner = butlast (tl ls) in rbind (check_boundaries inner) (\<lambda>_. Inr inner))
      else rbind (check_boundaries ls)
        (\<lambda>_. Inl (Panic ''boundary validation either returns or errors'')))"

fun parse_loop :: "parser \<Rightarrow> string list \<Rightarrow> (parse_error, parser) rust" where
  "parse_loop p [] = Inr p"
| "parse_loop p (line # rest) =
     (let q = p\<lparr>line_number := line_number p + 1\<rparr> in
      rbind (if rest = [] \<and> trim line = END_PATCH_MARKER
             then rbind (ensure_update_not_empty q END_PATCH_MARKER) (\<lambda>_. Inr (q\<lparr>mode := EndedPatch\<rparr>))
             else process_line q (strip_cr line))
        (\<lambda>q'. parse_loop q' rest))"

definition parse_patch :: "string \<Rightarrow> (parse_error, parsed_patch) rust" where
  "parse_patch input =
     rbind (patch_lines (str_lines (trim input))) (\<lambda>ls.
     rbind (parse_loop parser_default ls) (\<lambda>p.
       if mode p \<noteq> EndedPatch then Inl (Fail (InvalidPatch last_line_message))
       else Inr \<lparr>patch = join [LF] ls, parsed_hunks = hunks p,
                 parsed_environment_id = environment_id p\<rparr>))"

section \<open>Well-formed output\<close>

text \<open>
  A chunk is well formed when its context indices climb strictly through both line lists,
  stay inside them and pair equal lines.
\<close>

definition indices_wf :: "update_file_chunk \<Rightarrow> bool" where
  "indices_wf c \<longleftrightarrow>
     sorted_wrt (\<lambda>x y. fst x < fst y \<and> snd x < snd y) (context_line_indices c) \<and>
     list_all (\<lambda>(i, j). i < length (old_lines c) \<and> j < length (new_lines c) \<and>
                        old_lines c ! i = new_lines c ! j) (context_line_indices c)"

definition chunk_wf :: "update_file_chunk \<Rightarrow> bool" where
  "chunk_wf c \<longleftrightarrow> \<not> chunk_empty c \<and> indices_wf c"

fun hunk_wf :: "hunk \<Rightarrow> bool" where
  "hunk_wf (AddFile _ contents) = (contents = [] \<or> last contents = LF)"
| "hunk_wf (DeleteFile _) = True"
| "hunk_wf (UpdateFile _ _ chunks) = (chunks \<noteq> [] \<and> list_all chunk_wf chunks)"

text \<open>An update hunk under construction: only its last chunk may still be empty.\<close>

definition chunks_open :: "update_file_chunk list \<Rightarrow> bool" where
  "chunks_open cs \<longleftrightarrow> list_all indices_wf cs \<and> list_all (\<lambda>c. \<not> chunk_empty c) (butlast cs)"

definition parser_inv :: "parser \<Rightarrow> bool" where
  "parser_inv p \<longleftrightarrow> (case mode p of
     NotStarted \<Rightarrow> hunks p = []
   | StartedPatch \<Rightarrow> hunks p = []
   | AddFileMode \<Rightarrow> list_all hunk_wf (hunks p) \<and> (\<exists>path c. vec_last (hunks p) = Some (AddFile path c))
   | UpdateFileMode _ \<Rightarrow> (\<exists>hs path mv cs. hunks p = hs @ [UpdateFile path mv cs] \<and>
        list_all hunk_wf hs \<and> chunks_open cs)
   | _ \<Rightarrow> list_all hunk_wf (hunks p))"

lemma indices_wf_default [simp]: "indices_wf (chunk_default\<lparr>change_context := c\<rparr>)" "indices_wf chunk_default"
  by (simp_all add: indices_wf_def chunk_default_def)

lemma indices_wf_push_context [simp]: "indices_wf c \<Longrightarrow> indices_wf (push_context_line c l)"
  by (auto simp: indices_wf_def push_context_line_def sorted_wrt_append list_all_iff nth_append)

lemma indices_wf_push_new [simp]: "indices_wf c \<Longrightarrow> indices_wf (c\<lparr>new_lines := new_lines c @ [l]\<rparr>)"
  by (auto simp: indices_wf_def list_all_iff nth_append)

lemma indices_wf_push_old [simp]: "indices_wf c \<Longrightarrow> indices_wf (c\<lparr>old_lines := old_lines c @ [l]\<rparr>)"
  by (auto simp: indices_wf_def list_all_iff nth_append)

lemma indices_wf_eof [simp]: "indices_wf (c\<lparr>is_end_of_file := b\<rparr>) = indices_wf c"
  by (simp add: indices_wf_def)

lemma last_is_snoc [simp]: "last_is P (xs @ [x]) = P x" "last_is P [] = False"
  by (simp_all add: last_is_def)

lemma chunks_open_Nil [simp]: "chunks_open []"
  by (simp add: chunks_open_def)

lemma chunks_open_snoc:
  "chunks_open (cs @ [c]) \<longleftrightarrow> list_all indices_wf cs \<and> list_all (\<lambda>c. \<not> chunk_empty c) cs \<and> indices_wf c"
  by (auto simp: chunks_open_def)

lemma chunks_open_new:
  assumes "chunks_open cs" and "\<not> last_is chunk_empty cs" and "indices_wf c"
  shows "chunks_open (cs @ [c])"
  using assms by (cases cs rule: rev_cases) (auto simp: chunks_open_def butlast_append)

lemma chunks_open_on_last:
  assumes "chunks_open cs" and "\<And>c. indices_wf c \<Longrightarrow> indices_wf (f c)"
  shows "chunks_open (on_last_chunk cs f)"
  using assms by (cases cs rule: rev_cases) (auto simp: on_last_chunk_def chunks_open_snoc chunks_open_def)

lemma chunks_open_closed:
  "chunks_open cs \<Longrightarrow> \<not> last_is chunk_empty cs \<Longrightarrow> list_all chunk_wf cs"
  by (cases cs rule: rev_cases) (auto simp: chunks_open_snoc chunk_wf_def list_all_iff)

lemma update_body_open:
  assumes "chunks_open cs" and "update_body n line ul cs = Inr cs'"
  shows "chunks_open cs'"
proof -
  have eof: "chunks_open (set_last cs (c\<lparr>is_end_of_file := True\<rparr>))"
    if "vec_last cs = Some c" for c
    using assms(1) that by (auto simp: vec_last_Some_iff chunks_open_snoc)
  show ?thesis
    using assms eof
    by (auto simp: update_body_def is_context_marker_def starts_with_def
             intro!: chunks_open_new chunks_open_on_last
             split: if_splits option.splits list.splits)
qed

lemma update_body_no_panic: "no_panic (update_body n line ul cs)"
  by (auto simp: update_body_def split: if_splits option.splits list.splits)

lemma ensure_no_panic: "no_panic (ensure_update_not_empty p line)"
  by (auto simp: ensure_update_not_empty_def split: option.splits hunk.splits list.splits mode.splits)

lemma ensure_closes:
  assumes "parser_inv p" and "ensure_update_not_empty p line = Inr ()"
  shows "list_all hunk_wf (hunks p)"
proof (cases "mode p")
  case (UpdateFileMode n)
  then obtain hs path mv cs where hs: "hunks p = hs @ [UpdateFile path mv cs]"
      "list_all hunk_wf hs" "chunks_open cs"
    using assms(1) by (auto simp: parser_inv_def)
  then have "cs \<noteq> []" and "\<not> last_is chunk_empty cs"
    using assms(2) UpdateFileMode
    by (auto simp: ensure_update_not_empty_def split: list.splits if_splits)
  then show ?thesis
    using hs by (simp add: chunks_open_closed)
qed (use assms(1) in \<open>auto simp: parser_inv_def\<close>)

lemma push_hunk_inv:
  assumes "parser_inv p" and "push_hunk p line h m = Inr (Some p')"
    and "\<And>hs. list_all hunk_wf hs \<Longrightarrow> parser_inv (p\<lparr>hunks := hs @ [h], mode := m\<rparr>)"
  shows "parser_inv p'"
  using assms by (auto simp: push_hunk_def elim!: rbind_InrE dest: ensure_closes)

lemma push_hunk_neq_None: "push_hunk p line h m \<noteq> Inr None"
  by (auto simp: push_hunk_def rbind_Inr_iff)

lemma parser_inv_modes [simp]:
  "parser_inv (p\<lparr>mode := EndedPatch\<rparr>) \<longleftrightarrow> list_all hunk_wf (hunks p)"
  "parser_inv (p\<lparr>hunks := hs @ [AddFile path []], mode := AddFileMode\<rparr>) \<longleftrightarrow> list_all hunk_wf hs"
  "parser_inv (p\<lparr>hunks := hs @ [DeleteFile path], mode := DeleteFileMode\<rparr>) \<longleftrightarrow> list_all hunk_wf hs"
  "parser_inv (p\<lparr>hunks := hs @ [UpdateFile path mv []], mode := UpdateFileMode n\<rparr>) \<longleftrightarrow> list_all hunk_wf hs"
  by (simp_all add: parser_inv_def)

lemma parser_inv_frame [simp]:
  "parser_inv (p\<lparr>line_number := n\<rparr>) = parser_inv p"
  "parser_inv (p\<lparr>environment_id := e\<rparr>) = parser_inv p"
  by (cases "mode p"; simp add: parser_inv_def)+

lemma handle_file_header_inv:
  assumes "parser_inv p" and "handle_file_header p line = Inr (Some p')"
  shows "parser_inv p'"
  using assms(2)
  by (auto simp: handle_file_header_def elim!: rbind_InrE dest: ensure_closes [OF assms(1)]
           dest!: push_hunk_inv [OF assms(1)] split: if_splits option.splits)

lemma handle_environment_id_inv:
  "parser_inv p \<Longrightarrow> handle_environment_id p v = Inr (Some p') \<Longrightarrow> parser_inv p'"
  by (auto simp: handle_environment_id_def Let_def split: if_splits)

lemma handle_header_inv:
  assumes "parser_inv p" and "handle_header p line = Inr (Some p')"
  shows "parser_inv p'"
proof (cases "if mode p = StartedPatch then strip_prefix ENVIRONMENT_ID_MARKER line else None")
  case None
  have "handle_file_header p line = Inr (Some p')"
    using assms(2) unfolding handle_header_def None option.case .
  with assms(1) show ?thesis by (rule handle_file_header_inv)
next
  case (Some v)
  have "handle_environment_id p v = Inr (Some p')"
    using assms(2) unfolding handle_header_def Some option.case .
  with assms(1) show ?thesis by (rule handle_environment_id_inv)
qed

lemma push_hunk_no_panic: "no_panic (push_hunk p line h m)"
  unfolding push_hunk_def by (intro no_panic_rbind ensure_no_panic no_panic_simps)

lemma handle_file_header_no_panic: "no_panic (handle_file_header p line)"
  unfolding handle_file_header_def
  by (simp add: push_hunk_no_panic ensure_no_panic split: option.split)

lemma handle_header_no_panic: "no_panic (handle_header p line)"
  by (cases "if mode p = StartedPatch then strip_prefix ENVIRONMENT_ID_MARKER line else None")
     (simp_all only: handle_header_def option.case handle_file_header_no_panic,
      simp add: handle_environment_id_def Let_def)

lemma process_update_inv:
  assumes "mode p = UpdateFileMode n" and "hunks p = hs @ [UpdateFile path mv cs]"
    and "list_all hunk_wf hs" and "chunks_open cs"
    and "process_update p line ul path mv cs = Inr p'"
  shows "parser_inv p'"
  using assms
  by (auto simp: process_update_def parser_inv_def Let_def elim!: rbind_InrE
           dest: update_body_open update_body_open [OF chunks_open_Nil]
           split: if_splits option.splits)

lemma process_line_inv:
  assumes "parser_inv p" and "process_line p line = Inr p'"
  shows "parser_inv p'"
proof (cases "mode p")
  case (UpdateFileMode n)
  then obtain hs path mv cs where hs: "hunks p = hs @ [UpdateFile path mv cs]"
      "list_all hunk_wf hs" "chunks_open cs"
    using assms(1) by (auto simp: parser_inv_def)
  then show ?thesis
    using assms UpdateFileMode
    by (auto simp: process_line_def Let_def elim!: rbind_InrE split: option.splits
             dest: handle_header_inv process_update_inv)
next
  case AddFileMode
  then obtain path c where "vec_last (hunks p) = Some (AddFile path c)" "list_all hunk_wf (hunks p)"
    using assms(1) by (auto simp: parser_inv_def)
  then show ?thesis
    using assms AddFileMode
    by (auto simp: process_line_def Let_def parser_inv_def vec_last_Some_iff elim!: rbind_InrE
             dest!: handle_header_inv [OF assms(1)] split: option.splits)
qed (use assms in \<open>auto simp: process_line_def Let_def parser_inv_def elim!: rbind_InrE
       dest!: handle_header_inv [OF assms(1)] split: option.splits if_splits\<close>)

lemma process_line_no_panic:
  assumes "parser_inv p"
  shows "no_panic (process_line p line)"
proof (cases "mode p")
  case (UpdateFileMode n)
  then obtain hs path mv cs where "hunks p = hs @ [UpdateFile path mv cs]"
    using assms by (auto simp: parser_inv_def)
  then show ?thesis
    using UpdateFileMode
    by (auto simp: process_line_def Let_def process_update_def split: option.splits
             intro!: no_panic_rbind handle_header_no_panic update_body_no_panic)
qed (auto simp: process_line_def Let_def split: option.splits hunk.splits
       intro!: no_panic_rbind handle_header_no_panic)

lemma parse_loop_inv:
  "parser_inv p \<Longrightarrow> parse_loop p ls = Inr p' \<Longrightarrow> parser_inv p'"
proof (induction ls arbitrary: p)
  case (Cons l ls)
  let ?q = "p\<lparr>line_number := line_number p + 1\<rparr>"
  have q: "parser_inv ?q" using Cons.prems(1) by simp
  have ended: "parser_inv (?q\<lparr>mode := EndedPatch\<rparr>)" if "ensure_update_not_empty ?q END_PATCH_MARKER = Inr ()"
    using ensure_closes [OF q that] by (simp add: parser_inv_def)
  show ?case
    using Cons.prems(2) Cons.IH ended process_line_inv [OF q]
    by (auto simp: Let_def rbind_Inr_iff split: if_splits)
qed simp

lemma parse_loop_no_panic: "parser_inv p \<Longrightarrow> no_panic (parse_loop p ls)"
proof (induction ls arbitrary: p)
  case (Cons l ls)
  let ?q = "p\<lparr>line_number := line_number p + 1\<rparr>"
  have q: "parser_inv ?q" using Cons.prems by simp
  have ended: "parser_inv (?q\<lparr>mode := EndedPatch\<rparr>)" if "ensure_update_not_empty ?q END_PATCH_MARKER = Inr ()"
    using ensure_closes [OF q that] by (simp add: parser_inv_def)
  show ?case
    using Cons.IH ended process_line_inv [OF q] process_line_no_panic [OF q]
    by (auto simp: Let_def rbind_Inr_iff intro!: no_panic_rbind ensure_no_panic split: if_splits)
qed simp

lemma parser_inv_default: "parser_inv parser_default"
  by (simp add: parser_inv_def parser_default_def)

lemma patch_lines_no_panic: "no_panic (patch_lines ls)"
  by (auto simp: patch_lines_def check_boundaries_def boundaries_valid_def Let_def no_panic_def)

lemma parse_patch_no_panic: "no_panic (parse_patch input)"
  by (auto simp: parse_patch_def intro!: no_panic_rbind patch_lines_no_panic
      parse_loop_no_panic parser_inv_default)

lemma parse_patch_hunks_wf: "parse_patch input = Inr r \<Longrightarrow> list_all hunk_wf (parsed_hunks r)"
  by (auto simp: parse_patch_def parser_inv_def elim!: rbind_InrE split: if_splits
           dest!: parse_loop_inv [OF parser_inv_default])

section \<open>Properties\<close>

text \<open>
  C34: \<open>parse_patch\<close> is total: whatever text a model sends, the parser returns a value or a
  \<open>ParseError\<close> and reaches neither \<open>unreachable!\<close> arm (an update line without an update hunk,
  boundaries that are neither accepted nor rejected).
\<close>

theorem parse_patch_never_panics: "no_panic (parse_patch input)"
  by (rule parse_patch_no_panic)

text \<open>
  Every hunk of an accepted patch is well formed: an added file ends in a line feed, an
  update has at least one chunk, no chunk is empty, and the context indices of a chunk climb
  strictly through the old and the new lines, stay inside both lists and pair equal lines.
\<close>

theorem parsed_hunks_well_formed:
  assumes "parse_patch input = Inr r"
  shows "list_all hunk_wf (parsed_hunks r)"
  using assms by (rule parse_patch_hunks_wf)

definition sample_patch :: string where
  "sample_patch = join [LF] [''*** Begin Patch'', ''*** Update File: f'', ''@@'', '' a'', ''-b'', ''+c'', ''*** End Patch'']"

definition sample_chunk :: update_file_chunk where
  "sample_chunk = \<lparr>change_context = None, old_lines = [''a'', ''b''], new_lines = [''a'', ''c''],
                   context_line_indices = [(0, 0)], is_end_of_file = False\<rparr>"

lemma sample_patch_parses:
  "parse_patch sample_patch =
     Inr \<lparr>patch = sample_patch, parsed_hunks = [UpdateFile ''f'' None [sample_chunk]], parsed_environment_id = None\<rparr>"
  unfolding sample_chunk_def by code_simp

theorem parsed_hunks_well_formed_witness:
  "list_all hunk_wf [UpdateFile ''f'' None [sample_chunk]]"
  using parsed_hunks_well_formed [OF sample_patch_parses] by simp

end
