(* ===== verification/Patch_Text.thy ===== *)
theory Patch_Text
  imports Patch_Parser
begin

text \<open>
  The textual form of a patch and the round trip through the parser of \<open>Patch_Parser\<close>: an
  abstract patch description is rendered line by line as the patch grammar prescribes, and
  \<open>parse_patch\<close> reads the text back as exactly the hunks described.
\<close>

section \<open>The textual form of a patch\<close>

text \<open>
  An abstract description of a patch, its textual form and the hunks it stands for.
\<close>

datatype diff_line = Context string | Removed string | Added string

record chunk_spec =
  spec_context :: "string option"
  spec_diff :: "diff_line list"
  spec_eof :: bool

datatype hunk_spec =
    Add string "string list"
  | Delete string
  | Update string "string option" "chunk_spec list"

fun render_diff :: "diff_line \<Rightarrow> string" where
  "render_diff (Context l) = CHR '' '' # l"
| "render_diff (Removed l) = CHR ''-'' # l"
| "render_diff (Added l) = CHR ''+'' # l"

definition render_chunk :: "chunk_spec \<Rightarrow> string list" where
  "render_chunk c =
     [case spec_context c of None \<Rightarrow> EMPTY_CHANGE_CONTEXT_MARKER | Some t \<Rightarrow> CHANGE_CONTEXT_MARKER @ t]
     @ map render_diff (spec_diff c) @ (if spec_eof c then [EOF_MARKER] else [])"

fun render_hunk :: "hunk_spec \<Rightarrow> string list" where
  "render_hunk (Add path ls) = (ADD_FILE_MARKER @ path) # map ((#) CHR ''+'') ls"
| "render_hunk (Delete path) = [DELETE_FILE_MARKER @ path]"
| "render_hunk (Update path mv cs) = (UPDATE_FILE_MARKER @ path)
     # (case mv of None \<Rightarrow> [] | Some d \<Rightarrow> [MOVE_TO_MARKER @ d]) @ concat (map render_chunk cs)"

definition render_patch :: "hunk_spec list \<Rightarrow> string list" where
  "render_patch hs = [BEGIN_PATCH_MARKER] @ concat (map render_hunk hs) @ [END_PATCH_MARKER]"

fun apply_diff :: "update_file_chunk \<Rightarrow> diff_line \<Rightarrow> update_file_chunk" where
  "apply_diff c (Context l) = push_context_line c l"
| "apply_diff c (Removed l) = c\<lparr>old_lines := old_lines c @ [l]\<rparr>"
| "apply_diff c (Added l) = c\<lparr>new_lines := new_lines c @ [l]\<rparr>"

definition chunk_of :: "chunk_spec \<Rightarrow> update_file_chunk" where
  "chunk_of c = (foldl apply_diff (chunk_default\<lparr>change_context := spec_context c\<rparr>) (spec_diff c))
     \<lparr>is_end_of_file := spec_eof c\<rparr>"

fun hunk_of :: "hunk_spec \<Rightarrow> hunk" where
  "hunk_of (Add path ls) = AddFile path (concat (map (\<lambda>l. l @ [LF]) ls))"
| "hunk_of (Delete path) = DeleteFile path"
| "hunk_of (Update path mv cs) = UpdateFile path mv (map chunk_of cs)"

text \<open>The descriptions with a textual form: names are trimmed, lines hold no line break.\<close>

definition line_ok :: "string \<Rightarrow> bool" where
  "line_ok l \<longleftrightarrow> LF \<notin> set l \<and> (l = [] \<or> last l \<noteq> CR)"

definition name_ok :: "string \<Rightarrow> bool" where
  "name_ok s \<longleftrightarrow> s \<noteq> [] \<and> trimmed_end s \<and> LF \<notin> set s"

fun diff_ok :: "diff_line \<Rightarrow> bool" where
  "diff_ok (Context l) = line_ok l"
| "diff_ok (Removed l) = line_ok l"
| "diff_ok (Added l) = line_ok l"

definition chunk_spec_ok :: "chunk_spec \<Rightarrow> bool" where
  "chunk_spec_ok c \<longleftrightarrow> pred_option name_ok (spec_context c) \<and> spec_diff c \<noteq> [] \<and>
     list_all diff_ok (spec_diff c)"

fun hunk_spec_ok :: "hunk_spec \<Rightarrow> bool" where
  "hunk_spec_ok (Add path ls) = (name_ok path \<and> list_all line_ok ls)"
| "hunk_spec_ok (Delete path) = name_ok path"
| "hunk_spec_ok (Update path mv cs) =
     (name_ok path \<and> pred_option name_ok mv \<and> cs \<noteq> [] \<and> list_all chunk_spec_ok cs)"

subsection \<open>Trimming a rendered line\<close>

lemma white_space_no_blank: "w \<in> set white_space \<Longrightarrow> CHR '' '' \<in> set w \<Longrightarrow> length w = 1"
  by (auto simp: white_space_def)

lemma trimmed_end_after_blank:
  assumes "trimmed_end p" and "p \<noteq> []"
  shows "trimmed_end (xs @ CHR '' '' # p)"
proof -
  have False if w: "w \<in> set white_space" and e: "xs @ CHR '' '' # p = r @ w" for w r
  proof -
    from e obtain us where "(xs @ [CHR '' '']) @ us = r \<and> p = us @ w \<or> xs @ [CHR '' ''] = r @ us \<and> us @ p = w"
      by (metis append.assoc append_Cons append_Nil append_eq_append_conv2)
    then show False
    proof
      assume "(xs @ [CHR '' '']) @ us = r \<and> p = us @ w"
      then show False using assms(1) w by (auto simp: trimmed_end_def list_all_iff ends_with_iff)
    next
      assume a: "xs @ [CHR '' ''] = r @ us \<and> us @ p = w"
      show False
      proof (cases us rule: rev_cases)
        case Nil
        then show False using a assms(1) w by (auto simp: trimmed_end_def list_all_iff ends_with_iff)
      next
        case (snoc ys y)
        then have "CHR '' '' \<in> set w" using a by auto
        then have "length w = 1" using w by (rule white_space_no_blank [rotated])
        then show False using a snoc assms(2) by auto
      qed
    qed
  qed
  then show ?thesis by (auto simp: trimmed_end_def list_all_iff ends_with_iff)
qed

lemma trim_end_prefix: "\<exists>r. s = trim_end s @ r"
proof (induction s rule: trim_end.induct)
  case (1 s)
  show ?case
  proof (cases "find (\<lambda>w. ends_with w s) white_space")
    case None
    then show ?thesis by (subst trim_end.simps) simp
  next
    case (Some w)
    from "1.IH" [OF Some] obtain r where "take (length s - length w) s = trim_end (take (length s - length w) s) @ r"
      by blast
    then have "s = trim_end (take (length s - length w) s) @ r @ drop (length s - length w) s"
      by (metis append.assoc append_take_drop_id)
    with Some show ?thesis by (subst trim_end.simps) auto
  qed
qed

lemma trim_end_Cons: "trim_end (c # s) = [] \<or> (\<exists>t. trim_end (c # s) = c # t)"
  using trim_end_prefix [of "c # s"] by (cases "trim_end (c # s)") auto

definition plain_start :: "string \<Rightarrow> bool" where
  "plain_start s \<longleftrightarrow> s \<noteq> [] \<and> hd s \<in> set ''*+-@''"

lemma trim_start_plain: "plain_start s \<Longrightarrow> trim_start s = s"
  by (rule trim_start_id) (auto simp: trimmed_start_def plain_start_def white_space_def starts_with_iff)

lemma trim_plain: "plain_start s \<Longrightarrow> trim s = trim_end s"
  by (simp add: trim_def trim_start_plain)

lemma trim_end_name [simp]: "name_ok p \<Longrightarrow> trim_end (xs @ CHR '' '' # p) = xs @ CHR '' '' # p"
  by (rule trim_end_id) (simp add: name_ok_def trimmed_end_after_blank)

lemma trim_end_marker [simp]:
  "name_ok p \<Longrightarrow> trim_end (ADD_FILE_MARKER @ p) = ADD_FILE_MARKER @ p"
  "name_ok p \<Longrightarrow> trim_end (DELETE_FILE_MARKER @ p) = DELETE_FILE_MARKER @ p"
  "name_ok p \<Longrightarrow> trim_end (UPDATE_FILE_MARKER @ p) = UPDATE_FILE_MARKER @ p"
  "name_ok p \<Longrightarrow> trim_end (MOVE_TO_MARKER @ p) = MOVE_TO_MARKER @ p"
  "name_ok p \<Longrightarrow> trim_end (CHANGE_CONTEXT_MARKER @ p) = CHANGE_CONTEXT_MARKER @ p"
  using trim_end_name [of p "''*** Add File:''"] trim_end_name [of p "''*** Delete File:''"]
    trim_end_name [of p "''*** Update File:''"] trim_end_name [of p "''*** Move to:''"]
    trim_end_name [of p "''@@''"]
  by (simp_all add: marker_defs)

lemma trim_end_fixed [simp]:
  "trim_end EMPTY_CHANGE_CONTEXT_MARKER = EMPTY_CHANGE_CONTEXT_MARKER"
  "trim_end EOF_MARKER = EOF_MARKER" "trim_end END_PATCH_MARKER = END_PATCH_MARKER"
  "trim_end BEGIN_PATCH_MARKER = BEGIN_PATCH_MARKER"
  by (rule trim_end_id; simp add: trimmed_end_def white_space_def marker_defs ends_with_def
      strip_suffix_def)+

lemma plain_marker [simp]:
  "plain_start (ADD_FILE_MARKER @ p)" "plain_start (DELETE_FILE_MARKER @ p)"
  "plain_start (UPDATE_FILE_MARKER @ p)" "plain_start END_PATCH_MARKER" "plain_start BEGIN_PATCH_MARKER"
  "plain_start (CHR ''+'' # l)"
  by (simp_all add: plain_start_def marker_defs)

lemma strip_cr_id: "s = [] \<or> last s \<noteq> CR \<Longrightarrow> strip_cr s = s"
  by (auto simp: strip_cr_def split: option.splits)

lemma name_last: "name_ok p \<Longrightarrow> last p \<noteq> CR"
proof
  assume "name_ok p" and "last p = CR"
  then have "p = butlast p @ [CR]" and "trimmed_end p"
    by (auto simp: name_ok_def) (metis append_butlast_last_id)
  then show False
    by (auto simp: trimmed_end_def white_space_def ends_with_iff)
qed

lemma name_nonempty: "name_ok p \<Longrightarrow> p \<noteq> []"
  by (simp add: name_ok_def)

subsection \<open>Running the parser over rendered lines\<close>

fun steps :: "parser \<Rightarrow> string list \<Rightarrow> (parse_error, parser) rust" where
  "steps p [] = Inr p"
| "steps p (l # ls) =
     rbind (process_line (p\<lparr>line_number := line_number p + 1\<rparr>) (strip_cr l)) (\<lambda>q. steps q ls)"

lemma steps_append: "steps p (xs @ ys) = rbind (steps p xs) (\<lambda>q. steps q ys)"
  by (induction xs arbitrary: p) (auto simp: rbind_assoc)

lemma parse_loop_append:
  "ys \<noteq> [] \<Longrightarrow> parse_loop p (xs @ ys) = rbind (steps p xs) (\<lambda>q. parse_loop q ys)"
  by (induction xs arbitrary: p) (auto simp: rbind_assoc Let_def)

lemma handle_header_other:
  assumes "l = [] \<or> hd l \<noteq> CHR ''*''"
  shows "handle_header p l = Inr None"
  using assms by (cases l) (auto simp: handle_header_def handle_file_header_def marker_defs)

lemma process_update_line:
  assumes "mode p = UpdateFileMode n" and "hunks p = hs @ [UpdateFile path mv cs]"
    and "trim_end line = [] \<or> hd (trim_end line) \<noteq> CHR ''*''"
  shows "process_line p line = process_update p line (trim_end line) path mv cs"
  using assms by (simp add: process_line_def Let_def handle_header_other)

lemma not_context_marker: "l = [] \<or> hd l \<noteq> CHR ''@'' \<Longrightarrow> \<not> is_context_marker l"
  by (cases l) (auto simp: is_context_marker_def marker_defs starts_with_iff)

lemma update_body_diff:
  assumes "ul = [] \<or> hd ul = hd (render_diff d)"
  shows "update_body n (render_diff d) ul (cs @ [c]) = Inr (cs @ [apply_diff c d])"
  using assms
  by (cases d; cases ul)
     (auto simp: update_body_def not_context_marker on_last_chunk_def marker_defs)

lemma process_diff:
  assumes "mode p = UpdateFileMode n" and "hunks p = hs @ [UpdateFile path mv (cs @ [c])]"
    and "\<not> is_end_of_file c"
  shows "process_line p (render_diff d)
    = Inr (p\<lparr>hunks := hs @ [UpdateFile path mv (cs @ [apply_diff c d])]\<rparr>)"
proof -
  have ul: "trim_end (render_diff d) = [] \<or> hd (trim_end (render_diff d)) = hd (render_diff d)"
    by (cases d) (use trim_end_Cons in fastforce)+
  moreover have "hd (render_diff d) \<noteq> CHR ''*''" by (cases d) auto
  ultimately show ?thesis
    using assms process_update_line [OF assms(1,2), of "render_diff d"]
    by (auto simp: process_update_def update_body_diff)
qed

lemma apply_diff_not_eof [simp]: "is_end_of_file (apply_diff c d) = is_end_of_file c"
  by (cases d) (auto simp: push_context_line_def)

lemma render_diff_strip_cr: "diff_ok d \<Longrightarrow> strip_cr (render_diff d) = render_diff d"
  by (cases d) (auto simp: line_ok_def intro!: strip_cr_id split: if_splits)

lemma steps_diffs:
  assumes "mode p = UpdateFileMode n" and "hunks p = hs @ [UpdateFile path mv (cs @ [c])]"
    and "\<not> is_end_of_file c" and "list_all diff_ok ds"
  shows "\<exists>k. steps p (map render_diff ds)
    = Inr (p\<lparr>line_number := k, hunks := hs @ [UpdateFile path mv (cs @ [foldl apply_diff c ds])]\<rparr>)"
  using assms
proof (induction ds arbitrary: p c)
  case Nil
  then show ?case by (auto intro!: exI [of _ "line_number p"])
next
  case (Cons d ds)
  let ?q = "p\<lparr>line_number := line_number p + 1, hunks := hs @ [UpdateFile path mv (cs @ [apply_diff c d])]\<rparr>"
  have "steps p (map render_diff (d # ds)) = steps ?q (map render_diff ds)"
    using Cons.prems process_diff [of "p\<lparr>line_number := line_number p + 1\<rparr>"]
    by (simp add: render_diff_strip_cr)
  then show ?case
    using Cons.IH [of ?q "apply_diff c d"] Cons.prems by simp
qed

lemma chunk_empty_foldl:
  "chunk_empty (foldl apply_diff c ds) \<longleftrightarrow> chunk_empty c \<and> ds = []"
proof (induction ds arbitrary: c)
  case (Cons d ds)
  then show ?case by (cases d) (auto simp: chunk_empty_def push_context_line_def)
qed simp

lemma is_end_of_file_foldl [simp]: "is_end_of_file (foldl apply_diff c ds) = is_end_of_file c"
  by (induction ds arbitrary: c) auto

lemma chunk_of_not_empty: "chunk_spec_ok c \<Longrightarrow> \<not> chunk_empty (chunk_of c)"
  using chunk_empty_foldl by (auto simp: chunk_of_def chunk_spec_ok_def chunk_empty_def)

definition chunk_head :: "chunk_spec \<Rightarrow> string" where
  "chunk_head c = (case spec_context c of None \<Rightarrow> EMPTY_CHANGE_CONTEXT_MARKER
     | Some t \<Rightarrow> CHANGE_CONTEXT_MARKER @ t)"

lemma process_chunk_head:
  assumes "mode p = UpdateFileMode n" and "hunks p = hs @ [UpdateFile path mv cs]"
    and "\<not> last_is chunk_empty cs" and "pred_option name_ok (spec_context c)"
  shows "process_line p (strip_cr (chunk_head c))
    = Inr (p\<lparr>hunks := hs @ [UpdateFile path mv (cs @ [chunk_default\<lparr>change_context := spec_context c\<rparr>])]\<rparr>)"
proof -
  have "last (chunk_head c) \<noteq> CR"
    using assms(4) by (cases "spec_context c")
      (auto simp: chunk_head_def EMPTY_CHANGE_CONTEXT_MARKER_def name_nonempty dest: name_last)
  then have head: "strip_cr (chunk_head c) = chunk_head c" "trim_end (chunk_head c) = chunk_head c"
    using assms(4) by (simp add: strip_cr_id, cases "spec_context c") (simp_all add: chunk_head_def)
  have star: "hd (chunk_head c) \<noteq> CHR ''*''" and ctx: "is_context_marker (chunk_head c)"
    and move: "strip_prefix MOVE_TO_MARKER (chunk_head c) = None" and "chunk_head c \<noteq> []"
    by (auto simp: chunk_head_def marker_defs is_context_marker_def starts_with_iff split: option.splits)
  then have "process_line p (chunk_head c) = process_update p (chunk_head c) (chunk_head c) path mv cs"
    using process_update_line [OF assms(1,2)] head by simp
  also have "update_body (line_number p) (chunk_head c) (chunk_head c) cs
      = Inr (cs @ [chunk_default\<lparr>change_context := spec_context c\<rparr>])"
    using assms(3)
    by (cases "spec_context c") (simp_all add: update_body_def chunk_head_def chunk_default_def
      EMPTY_CHANGE_CONTEXT_MARKER_def CHANGE_CONTEXT_MARKER_def)
  then have "process_update p (chunk_head c) (chunk_head c) path mv cs
    = Inr (p\<lparr>hunks := hs @ [UpdateFile path mv (cs @ [chunk_default\<lparr>change_context := spec_context c\<rparr>])]\<rparr>)"
    using assms(2) ctx move \<open>chunk_head c \<noteq> []\<close> by (auto simp: process_update_def)
  finally show ?thesis by (simp only: head)
qed

lemma render_chunk_alt:
  "render_chunk c = [chunk_head c] @ map render_diff (spec_diff c) @ (if spec_eof c then [EOF_MARKER] else [])"
  by (simp add: render_chunk_def chunk_head_def)

lemma process_eof:
  assumes "mode p = UpdateFileMode n" and "hunks p = hs @ [UpdateFile path mv (cs @ [c])]"
    and "\<not> is_end_of_file c" and "\<not> chunk_empty c"
  shows "process_line p (strip_cr EOF_MARKER)
    = Inr (p\<lparr>hunks := hs @ [UpdateFile path mv (cs @ [c\<lparr>is_end_of_file := True\<rparr>])]\<rparr>)"
proof -
  have cr: "strip_cr EOF_MARKER = EOF_MARKER" by (rule strip_cr_id) (simp add: marker_defs)
  have "handle_header p EOF_MARKER = Inr None"
    using assms(1) by (simp add: handle_header_def handle_file_header_def marker_defs)
  moreover have "update_body (line_number p) EOF_MARKER EOF_MARKER (cs @ [c])
      = Inr (cs @ [c\<lparr>is_end_of_file := True\<rparr>])"
    using assms(4) by (simp add: update_body_def marker_defs is_context_marker_def starts_with_def)
  ultimately show ?thesis
    using assms by (simp add: cr process_line_def Let_def process_update_def)
qed

lemma steps_chunk:
  assumes "mode p = UpdateFileMode n" and "hunks p = hs @ [UpdateFile path mv cs]"
    and "\<not> last_is chunk_empty cs" and "chunk_spec_ok c"
  shows "\<exists>k. steps p (render_chunk c)
    = Inr (p\<lparr>line_number := k, hunks := hs @ [UpdateFile path mv (cs @ [chunk_of c])]\<rparr>)"
proof -
  let ?c0 = "chunk_default\<lparr>change_context := spec_context c\<rparr>"
  let ?p1 = "p\<lparr>line_number := line_number p + 1, hunks := hs @ [UpdateFile path mv (cs @ [?c0])]\<rparr>"
  have ok: "pred_option name_ok (spec_context c)" "list_all diff_ok (spec_diff c)" "spec_diff c \<noteq> []"
    using assms(4) by (auto simp: chunk_spec_ok_def)
  have 1: "steps p [chunk_head c] = Inr ?p1"
    using process_chunk_head [of "p\<lparr>line_number := line_number p + 1\<rparr>" n hs path mv cs c] assms ok by simp
  have c0: "\<not> is_end_of_file ?c0" "is_end_of_file (foldl apply_diff ?c0 (spec_diff c)) = False"
    by (simp_all add: chunk_default_def)
  from steps_diffs [of ?p1 n hs path mv cs ?c0 "spec_diff c"] assms ok c0
  obtain k where 2: "steps ?p1 (map render_diff (spec_diff c))
    = Inr (p\<lparr>line_number := k, hunks := hs @ [UpdateFile path mv (cs @ [foldl apply_diff ?c0 (spec_diff c)])]\<rparr>)"
    by auto
  show ?thesis
  proof (cases "spec_eof c")
    case True
    let ?p2 = "p\<lparr>hunks := hs @ [UpdateFile path mv (cs @ [foldl apply_diff ?c0 (spec_diff c)])], line_number := k + 1\<rparr>"
    have "process_line ?p2 (strip_cr EOF_MARKER) = Inr (p\<lparr>line_number := k + 1,
        hunks := hs @ [UpdateFile path mv (cs @ [chunk_of c])]\<rparr>)"
      using process_eof [of ?p2 n hs path mv cs] assms(1) ok(3) c0 True
      by (simp add: chunk_of_def chunk_empty_foldl)
    then have "steps (p\<lparr>line_number := k, hunks := hs @ [UpdateFile path mv
        (cs @ [foldl apply_diff ?c0 (spec_diff c)])]\<rparr>) [EOF_MARKER]
      = Inr (p\<lparr>line_number := k + 1, hunks := hs @ [UpdateFile path mv (cs @ [chunk_of c])]\<rparr>)"
      by simp
    then show ?thesis
      by (simp only: render_chunk_alt steps_append 1 2 rbind_simps True if_True) blast
  next
    case False
    then have "chunk_of c = foldl apply_diff ?c0 (spec_diff c)"
      using c0(2) by (simp add: chunk_of_def)
    then show ?thesis
      by (simp only: render_chunk_alt steps_append 1 2 rbind_simps False if_False steps.simps(1)) blast
  qed
qed

lemma steps_chunks:
  assumes "mode p = UpdateFileMode n" and "hunks p = hs @ [UpdateFile path mv cs]"
    and "\<not> last_is chunk_empty cs" and "list_all chunk_spec_ok cks"
  shows "\<exists>k. steps p (concat (map render_chunk cks))
    = Inr (p\<lparr>line_number := k, hunks := hs @ [UpdateFile path mv (cs @ map chunk_of cks)]\<rparr>)"
  using assms
proof (induction cks arbitrary: p cs)
  case Nil
  then show ?case by (auto intro!: exI [of _ "line_number p"])
next
  case (Cons c cks)
  then obtain k where k: "steps p (render_chunk c)
      = Inr (p\<lparr>line_number := k, hunks := hs @ [UpdateFile path mv (cs @ [chunk_of c])]\<rparr>)"
    using steps_chunk by (metis list.pred_inject(2))
  let ?q = "p\<lparr>line_number := k, hunks := hs @ [UpdateFile path mv (cs @ [chunk_of c])]\<rparr>"
  have "\<not> last_is chunk_empty (cs @ [chunk_of c])"
    using Cons.prems(4) by (simp add: chunk_of_not_empty)
  then obtain k' where "steps ?q (concat (map render_chunk cks))
      = Inr (?q\<lparr>line_number := k', hunks := hs @ [UpdateFile path mv ((cs @ [chunk_of c]) @ map chunk_of cks)]\<rparr>)"
    using Cons.IH [of ?q "cs @ [chunk_of c]"] Cons.prems by auto
  then show ?case by (auto simp: steps_append k)
qed

text \<open>A state in which a file header is accepted: any open patch whose last hunk is complete.\<close>

definition closable :: "parser \<Rightarrow> bool" where
  "closable p \<longleftrightarrow> mode p \<noteq> NotStarted \<and> mode p \<noteq> EndedPatch \<and>
     (\<forall>line. ensure_update_not_empty p line = Inr ())"

lemma process_file_header:
  assumes "closable p" and "plain_start line" and "trim_end line = line" and "line = [] \<or> last line \<noteq> CR"
    and "handle_header p line = Inr (Some p')"
  shows "process_line p (strip_cr line) = Inr p'"
  using assms by (cases "mode p") (auto simp: process_line_def Let_def strip_cr_id trim_plain closable_def)

lemma ensure_line_number [simp]:
  "(ensure_update_not_empty (p\<lparr>line_number := k\<rparr>) line = Inr ()) = (ensure_update_not_empty p line = Inr ())"
  by (auto simp: ensure_update_not_empty_def split: option.splits hunk.splits list.splits mode.splits)

lemma closable_line_number [simp]: "closable (p\<lparr>line_number := k\<rparr>) = closable p"
  by (simp add: closable_def)

lemma handle_header_file:
  assumes "closable p"
  shows "handle_header p (ADD_FILE_MARKER @ path)
      = Inr (Some (p\<lparr>hunks := hunks p @ [AddFile path []], mode := AddFileMode\<rparr>))"
    and "handle_header p (DELETE_FILE_MARKER @ path)
      = Inr (Some (p\<lparr>hunks := hunks p @ [DeleteFile path], mode := DeleteFileMode\<rparr>))"
    and "handle_header p (UPDATE_FILE_MARKER @ path)
      = Inr (Some (p\<lparr>hunks := hunks p @ [UpdateFile path None []], mode := UpdateFileMode (line_number p)\<rparr>))"
  using assms
  by (simp_all add: handle_header_def handle_file_header_def push_hunk_def closable_def marker_defs)

lemma marker_last:
  assumes "name_ok path"
  shows "last (ADD_FILE_MARKER @ path) \<noteq> CR" "last (DELETE_FILE_MARKER @ path) \<noteq> CR"
    "last (UPDATE_FILE_MARKER @ path) \<noteq> CR" "last (MOVE_TO_MARKER @ path) \<noteq> CR"
  using assms by (simp_all add: name_nonempty name_last)

lemma process_move:
  assumes "mode p = UpdateFileMode n" and "hunks p = hs @ [UpdateFile path None []]" and "name_ok d"
  shows "process_line p (strip_cr (MOVE_TO_MARKER @ d))
    = Inr (p\<lparr>hunks := hs @ [UpdateFile path (Some d) []]\<rparr>)"
proof -
  have "handle_header p (MOVE_TO_MARKER @ d) = Inr None"
    using assms(1) by (simp add: handle_header_def handle_file_header_def marker_defs)
  then show ?thesis
    using assms by (simp add: strip_cr_id marker_last process_line_def Let_def process_update_def)
qed

lemma process_add_line:
  assumes "mode p = AddFileMode" and "hunks p = hs @ [AddFile path contents]" and "line_ok l"
  shows "process_line p (strip_cr (CHR ''+'' # l))
    = Inr (p\<lparr>hunks := hs @ [AddFile path (contents @ l @ [LF])]\<rparr>)"
proof -
  have "trim_end (CHR ''+'' # l) = [] \<or> hd (trim_end (CHR ''+'' # l)) \<noteq> CHR ''*''"
    using trim_end_Cons [of "CHR ''+''" l] by auto
  then show ?thesis
    using assms
    by (auto simp: strip_cr_id line_ok_def process_line_def Let_def trim_plain handle_header_other)
qed

lemma steps_add_lines:
  assumes "mode p = AddFileMode" and "hunks p = hs @ [AddFile path contents]" and "list_all line_ok ls"
  shows "\<exists>k. steps p (map ((#) CHR ''+'') ls)
    = Inr (p\<lparr>line_number := k, hunks := hs @ [AddFile path (contents @ concat (map (\<lambda>l. l @ [LF]) ls))]\<rparr>)"
  using assms
proof (induction ls arbitrary: p contents)
  case Nil
  then show ?case by (auto intro!: exI [of _ "line_number p"])
next
  case (Cons l ls)
  let ?q = "p\<lparr>line_number := line_number p + 1, hunks := hs @ [AddFile path (contents @ l @ [LF])]\<rparr>"
  have "steps p (map ((#) CHR ''+'') (l # ls)) = steps ?q (map ((#) CHR ''+'') ls)"
    using Cons.prems process_add_line [of "p\<lparr>line_number := line_number p + 1\<rparr>"] by simp
  then show ?case
    using Cons.IH [of ?q "contents @ l @ [LF]"] Cons.prems by simp
qed

lemma steps_header:
  assumes "closable p" and "plain_start line" and "trim_end line = line" and "last line \<noteq> CR"
    and "handle_header (p\<lparr>line_number := line_number p + 1\<rparr>) line = Inr (Some p')"
  shows "steps p (line # ls) = steps p' ls"
  using assms process_file_header [of "p\<lparr>line_number := line_number p + 1\<rparr>" line p'] by simp

lemma closable_update:
  assumes "mode p = UpdateFileMode n" and "hunks p = hs @ [UpdateFile path mv cs]"
    and "cs \<noteq> []" and "\<not> last_is chunk_empty cs"
  shows "closable p"
  using assms by (simp add: closable_def ensure_update_not_empty_def split: list.splits)

lemma steps_update:
  assumes "closable p" and "hunk_spec_ok (Update path mv cks)"
  shows "\<exists>q. steps p (render_hunk (Update path mv cks)) = Inr q \<and> closable q \<and>
    hunks q = hunks p @ [hunk_of (Update path mv cks)] \<and> environment_id q = environment_id p"
proof -
  let ?p1 = "p\<lparr>line_number := line_number p + 1\<rparr>"
  let ?p2 = "?p1\<lparr>hunks := hunks p @ [UpdateFile path None []], mode := UpdateFileMode (line_number ?p1)\<rparr>"
  have ok: "name_ok path" "pred_option name_ok mv" "cks \<noteq> []" "list_all chunk_spec_ok cks"
    using assms(2) by auto
  have 1: "steps p ((UPDATE_FILE_MARKER @ path) # ls) = steps ?p2 ls" for ls
    using assms(1) ok(1) handle_header_file(3) [of ?p1 path]
    by (intro steps_header) (simp_all add: marker_last)
  obtain k where 2: "steps ?p2 (case mv of None \<Rightarrow> [] | Some d \<Rightarrow> [MOVE_TO_MARKER @ d])
      = Inr (?p2\<lparr>line_number := k, hunks := hunks p @ [UpdateFile path mv []]\<rparr>)"
  proof (cases mv)
    case None
    then show thesis using that [of "line_number ?p2"] by simp
  next
    case (Some d)
    then show thesis
      using that [of "line_number ?p2 + 1"] ok(2)
        process_move [of "?p2\<lparr>line_number := line_number ?p2 + 1\<rparr>" "line_number ?p1" "hunks p" path d] by simp
  qed
  let ?p3 = "?p2\<lparr>line_number := k, hunks := hunks p @ [UpdateFile path mv []]\<rparr>"
  obtain k' where 3: "steps ?p3 (concat (map render_chunk cks))
      = Inr (?p3\<lparr>line_number := k', hunks := hunks p @ [UpdateFile path mv (map chunk_of cks)]\<rparr>)"
    using steps_chunks [of ?p3 "line_number ?p1" "hunks p" path mv "[]" cks] ok(4) by auto
  have "steps p (render_hunk (Update path mv cks))
      = Inr (?p3\<lparr>line_number := k', hunks := hunks p @ [UpdateFile path mv (map chunk_of cks)]\<rparr>)"
    by (simp only: render_hunk.simps 1 steps_append 2 3 rbind_simps)
  moreover have "\<not> last_is chunk_empty (map chunk_of cks)"
    using ok(3,4) by (cases cks rule: rev_cases) (auto simp: chunk_of_not_empty)
  ultimately show ?thesis
    using closable_update [of "?p3\<lparr>line_number := k', hunks := hunks p @ [UpdateFile path mv (map chunk_of cks)]\<rparr>"] ok(3)
    by auto
qed

lemma steps_hunk:
  assumes "closable p" and "hunk_spec_ok h"
  shows "\<exists>q. steps p (render_hunk h) = Inr q \<and> closable q \<and>
    hunks q = hunks p @ [hunk_of h] \<and> environment_id q = environment_id p"
proof (cases h)
  case (Add path ls)
  let ?p1 = "p\<lparr>line_number := line_number p + 1\<rparr>"
  let ?p2 = "?p1\<lparr>hunks := hunks p @ [AddFile path []], mode := AddFileMode\<rparr>"
  have "steps p (render_hunk h) = steps ?p2 (map ((#) CHR ''+'') ls)"
    using assms Add handle_header_file(1) [of ?p1 path]
    by (simp only: render_hunk.simps, intro steps_header) (simp_all add: marker_last)
  moreover obtain k where "steps ?p2 (map ((#) CHR ''+'') ls)
      = Inr (?p2\<lparr>line_number := k, hunks := hunks p @ [hunk_of h]\<rparr>)"
    using steps_add_lines [of ?p2 "hunks p" path "[]" ls] assms(2) Add by auto
  ultimately show ?thesis
    by (auto simp: closable_def ensure_update_not_empty_def Add)
next
  case (Delete path)
  let ?p1 = "p\<lparr>line_number := line_number p + 1\<rparr>"
  have "steps p (render_hunk h) = steps (?p1\<lparr>hunks := hunks p @ [DeleteFile path], mode := DeleteFileMode\<rparr>) []"
    using assms Delete handle_header_file(2) [of ?p1 path]
    by (simp only: render_hunk.simps, intro steps_header) (simp_all add: marker_last)
  then show ?thesis
    by (auto simp: closable_def ensure_update_not_empty_def Delete)
next
  case (Update path mv cks)
  then show ?thesis using steps_update assms by auto
qed

lemma steps_hunks:
  assumes "closable p" and "list_all hunk_spec_ok hs"
  shows "\<exists>q. steps p (concat (map render_hunk hs)) = Inr q \<and> closable q \<and>
    hunks q = hunks p @ map hunk_of hs \<and> environment_id q = environment_id p"
  using assms
proof (induction hs arbitrary: p)
  case (Cons h hs)
  then obtain q where "steps p (render_hunk h) = Inr q" "closable q"
      "hunks q = hunks p @ [hunk_of h]" "environment_id q = environment_id p"
    using steps_hunk by (metis list.pred_inject(2))
  then show ?case
    using Cons.IH [of q] Cons.prems by (auto simp: steps_append)
qed simp

lemma parse_loop_render:
  assumes "list_all hunk_spec_ok hs"
  shows "\<exists>q. parse_loop parser_default (render_patch hs) = Inr q \<and> mode q = EndedPatch \<and>
    hunks q = map hunk_of hs \<and> environment_id q = None"
proof -
  let ?p1 = "parser_default\<lparr>line_number := 1, mode := StartedPatch\<rparr>"
  have cr: "strip_cr BEGIN_PATCH_MARKER = BEGIN_PATCH_MARKER"
    by (rule strip_cr_id) (simp add: marker_defs)
  have 1: "steps parser_default [BEGIN_PATCH_MARKER] = Inr ?p1"
    by (simp add: cr process_line_def Let_def trim_plain parser_default_def)
  have "closable ?p1" by (simp add: closable_def ensure_update_not_empty_def parser_default_def)
  then obtain q where q: "steps ?p1 (concat (map render_hunk hs)) = Inr q" "closable q"
      "hunks q = map hunk_of hs" "environment_id q = None"
    using steps_hunks [OF _ assms, of ?p1] by (auto simp: parser_default_def)
  have "ensure_update_not_empty (q\<lparr>line_number := line_number q + 1\<rparr>) END_PATCH_MARKER = Inr ()"
    using q(2) by (simp add: closable_def)
  then have "parse_loop q [END_PATCH_MARKER] = Inr (q\<lparr>line_number := line_number q + 1, mode := EndedPatch\<rparr>)"
    by (simp add: trim_plain del: ensure_line_number)
  then have "parse_loop parser_default (render_patch hs)
      = Inr (q\<lparr>line_number := line_number q + 1, mode := EndedPatch\<rparr>)"
    using parse_loop_append [of "[END_PATCH_MARKER]" parser_default
        "[BEGIN_PATCH_MARKER] @ concat (map render_hunk hs)"]
    by (simp only: render_patch_def append.assoc steps_append 1 q(1) rbind_simps) simp
  with q show ?thesis by auto
qed

subsection \<open>Splitting the text back into its lines\<close>

lemma str_lines_join:
  assumes "ls \<noteq> []" and "last ls \<noteq> []" and "list_all line_ok ls"
  shows "str_lines (join [LF] ls) = ls"
proof -
  have "split_char LF (join [LF] ls) = ls"
    using assms by (intro split_char_join) (auto simp: list_all_iff line_ok_def)
  moreover have "map strip_cr (butlast ls) = butlast ls"
    using assms(3) by (intro map_idI) (auto simp: list_all_iff line_ok_def strip_cr_id dest: in_set_butlastD)
  ultimately show ?thesis using assms(1,2) by (simp add: str_lines_def Let_def)
qed

lemma name_line_ok: "name_ok p \<Longrightarrow> LF \<notin> set m \<Longrightarrow> line_ok (m @ p)"
  by (auto simp: line_ok_def name_nonempty name_last) (simp add: name_ok_def)

lemma diff_line_ok: "diff_ok d \<Longrightarrow> line_ok (render_diff d)"
  by (cases d) (auto simp: line_ok_def split: if_splits)

lemma fixed_line_ok [simp]:
  "line_ok EMPTY_CHANGE_CONTEXT_MARKER" "line_ok EOF_MARKER" "line_ok BEGIN_PATCH_MARKER"
  "line_ok END_PATCH_MARKER" "LF \<notin> set ADD_FILE_MARKER" "LF \<notin> set DELETE_FILE_MARKER"
  "LF \<notin> set UPDATE_FILE_MARKER" "LF \<notin> set MOVE_TO_MARKER" "LF \<notin> set CHANGE_CONTEXT_MARKER"
  by (simp_all add: line_ok_def marker_defs)

lemma render_chunk_line_ok: "chunk_spec_ok c \<Longrightarrow> list_all line_ok (render_chunk c)"
  by (auto simp: render_chunk_def chunk_spec_ok_def list_all_iff diff_line_ok name_line_ok
      split: option.splits)

lemma render_hunk_line_ok: "hunk_spec_ok h \<Longrightarrow> list_all line_ok (render_hunk h)"
proof (cases h)
  case (Add path ls)
  then show "hunk_spec_ok h \<Longrightarrow> ?thesis"
    using diff_line_ok [of "Added _"] by (auto simp: list_all_iff name_line_ok)
next
  case (Update path mv cks)
  then show "hunk_spec_ok h \<Longrightarrow> ?thesis"
    using render_chunk_line_ok by (auto simp: list_all_iff name_line_ok split: option.splits)
qed (auto simp: name_line_ok)

lemma render_patch_line_ok: "list_all hunk_spec_ok hs \<Longrightarrow> list_all line_ok (render_patch hs)"
  using render_hunk_line_ok by (auto simp: render_patch_def list_all_iff)

lemma white_space_last: "w \<in> set white_space \<Longrightarrow> last w \<noteq> CHR ''h''"
  by (auto simp: white_space_def)

lemma trimmed_end_h: "trimmed_end (s @ [CHR ''h''])"
  by (auto simp: trimmed_end_def list_all_iff ends_with_iff append_eq_append_conv2 append_eq_Cons_conv
      dest: white_space_last white_space_nonempty)
     (metis append_butlast_last_id append_is_Nil_conv last_appendR last_snoc white_space_last white_space_nonempty)+

lemma join_snoc: "xs \<noteq> [] \<Longrightarrow> join sep (xs @ [x]) = join sep xs @ sep @ x"
  by (induction sep xs rule: join.induct) auto

lemma trim_render: "trim (join [LF] (render_patch hs)) = join [LF] (render_patch hs)"
proof -
  let ?ls = "[BEGIN_PATCH_MARKER] @ concat (map render_hunk hs)"
  have "render_patch hs = ?ls @ [END_PATCH_MARKER]"
    by (simp add: render_patch_def)
  moreover have "join [LF] (?ls @ [END_PATCH_MARKER]) = join [LF] ?ls @ [LF] @ END_PATCH_MARKER"
    by (rule join_snoc) simp
  ultimately have j: "join [LF] (render_patch hs) = join [LF] ?ls @ [LF] @ ''*** End Patc'' @ [CHR ''h'']"
    by (simp only: END_PATCH_MARKER_def) simp
  have "\<exists>r. join [LF] (render_patch hs) = CHR ''*'' # r"
    by (simp add: render_patch_def BEGIN_PATCH_MARKER_def join_Cons_Cons)
  then have "plain_start (join [LF] (render_patch hs))"
    by (auto simp: plain_start_def)
  moreover have "trimmed_end (join [LF] (render_patch hs))"
    unfolding j append.assoc [symmetric] by (rule trimmed_end_h)
  ultimately show ?thesis by (simp add: trim_plain trim_end_id)
qed

lemma parse_render:
  assumes "list_all hunk_spec_ok hs"
  shows "parse_patch (join [LF] (render_patch hs))
    = Inr \<lparr>patch = join [LF] (render_patch hs), parsed_hunks = map hunk_of hs, parsed_environment_id = None\<rparr>"
proof -
  have lines: "str_lines (trim (join [LF] (render_patch hs))) = render_patch hs"
    unfolding trim_render using render_patch_line_ok [OF assms]
    by (intro str_lines_join) (auto simp: render_patch_def END_PATCH_MARKER_def)
  have "boundaries_valid (render_patch hs)"
    by (simp add: boundaries_valid_def first_is_def render_patch_def last_is_def vec_last_def trim_plain)
  then have "patch_lines (render_patch hs) = Inr (render_patch hs)"
    by (simp add: patch_lines_def)
  with lines parse_loop_render [OF assms] show ?thesis
    by (auto simp: parse_patch_def)
qed

section \<open>Properties\<close>


definition sample_specs :: "hunk_spec list" where
  "sample_specs = [Add ''n.txt'' [''one'', '''', ''+two''], Delete ''old'',
     Update ''f'' (Some ''g'') [\<lparr>spec_context = Some ''fn x'', spec_diff = [Context ''a'', Removed ''b'', Added ''c''],
                                spec_eof = True\<rparr>]]"


end
