(* ===== verification/Exec_Core.thy ===== *)
theory Exec_Core
  imports Prelude
begin

text \<open>
  The contract types of \<open>execution/packages/execution-core\<close>: identifiers (\<open>ids.rs\<close>), execution
  errors (\<open>error.rs\<close>), semantic validation (\<open>validation.rs\<close>), root-relative paths and the
  filesystem requests (\<open>filesystem.rs\<close>), process requests (\<open>process.rs\<close>) and the host
  descriptor (\<open>descriptor.rs\<close>). A \<open>BTreeMap\<close> or \<open>BTreeSet\<close> that is only iterated is the list
  of its entries in key order. The lemmas characterise exactly which paths, requests and
  descriptors pass validation.
\<close>

section \<open>Validation issues and errors\<close>

record validation_issue =
  issue_path :: string
  issue_message :: string

type_synonym validation_error = "validation_issue list"

definition single :: "string \<Rightarrow> string \<Rightarrow> validation_error" where
  "single p m = [\<lparr>issue_path = p, issue_message = m\<rparr>]"

text \<open>\<open>issue\<close> appends one entry; a validator is the concatenation of its guarded pushes.\<close>

definition issue_if :: "bool \<Rightarrow> string \<Rightarrow> string \<Rightarrow> validation_issue list" where
  "issue_if c p m = (if c then single p m else [])"

definition require_non_empty :: "string \<Rightarrow> string \<Rightarrow> validation_issue list" where
  "require_non_empty p value = issue_if (trim value = []) p ''must not be empty''"

definition finish :: "validation_issue list \<Rightarrow> validation_error + unit" where
  "finish issues = (if issues = [] then Inr () else Inl issues)"

definition append_nested :: "string \<Rightarrow> validation_error + unit \<Rightarrow> validation_issue list" where
  "append_nested parent r = (case r of
     Inl issues \<Rightarrow> map (\<lambda>i. i\<lparr>issue_path := parent @ ''.'' @ issue_path i\<rparr>) issues
   | Inr _ \<Rightarrow> [])"

datatype error_code =
    InvalidRequest | InvalidPath | PathOutsideRoot | RootNotFound | ReadOnlyRoot | Unsupported
  | PermissionDenied | NotFound | AlreadyExists | NotDirectory | IsDirectory | RevisionConflict
  | OperationConflict | ResourceExhausted | DeadlineExceeded | Cancelled | Unavailable
  | ExecutionNotFound | ExecutionLost | StdinClosed | Io | Internal

datatype detail = DText string | DNumber nat | DIssues "validation_issue list"

record exec_error =
  code :: error_code
  message :: string
  retryable :: bool
  details :: "(string \<times> detail) list"

type_synonym 'a exec_result = "(exec_error, 'a) rust"

definition exec_error_new :: "error_code \<Rightarrow> string \<Rightarrow> exec_error" where
  "exec_error_new c m = \<lparr>code = c, message = m, retryable = False, details = []\<rparr>"

text \<open>The \<open>BTreeMap\<close> of details is an association list with one entry per key.\<close>

fun detail_insert :: "string \<Rightarrow> detail \<Rightarrow> (string \<times> detail) list \<Rightarrow> (string \<times> detail) list" where
  "detail_insert k v [] = [(k, v)]"
| "detail_insert k v ((k', v') # ds) = (if k = k' then (k, v) # ds else (k', v') # detail_insert k v ds)"

definition with_detail :: "exec_error \<Rightarrow> string \<Rightarrow> detail \<Rightarrow> exec_error" where
  "with_detail e k v = e\<lparr>details := detail_insert k v (details e)\<rparr>"

definition cancelled_error :: exec_error where
  "cancelled_error = exec_error_new Cancelled ''operation was cancelled''"

definition deadline_exceeded_error :: exec_error where
  "deadline_exceeded_error = exec_error_new DeadlineExceeded ''operation deadline was exceeded''"

definition from_validation :: "validation_error \<Rightarrow> exec_error" where
  "from_validation issues =
     with_detail (exec_error_new InvalidRequest ''execution request failed validation'')
       ''issues'' (DIssues issues)"

text \<open>The \<open>?\<close> operator on a \<open>Result<_, ValidationError>\<close> inside an \<open>ExecutionResult\<close>.\<close>

definition validated :: "validation_error + 'a \<Rightarrow> 'a exec_result" where
  "validated r = (case r of Inl issues \<Rightarrow> Inl (Fail (from_validation issues)) | Inr x \<Rightarrow> Inr x)"

lemma issue_if_Nil [simp]: "issue_if c p m = [] \<longleftrightarrow> \<not> c"
  by (simp add: issue_if_def single_def)

lemma require_non_empty_Nil [simp]: "require_non_empty p v = [] \<longleftrightarrow> trim v \<noteq> []"
  by (simp add: require_non_empty_def)

lemma finish_Inr [simp]: "finish issues = Inr u \<longleftrightarrow> issues = []"
  by (simp add: finish_def)

lemma finish_never_empty: "finish issues = Inl e \<Longrightarrow> e \<noteq> []"
  by (auto simp: finish_def split: if_splits)

lemma append_nested_finish [simp]: "append_nested parent (finish issues) = [] \<longleftrightarrow> issues = []"
  by (simp add: append_nested_def finish_def)

lemma validated_Inr [simp]: "validated r = Inr x \<longleftrightarrow> r = Inr x"
  by (auto simp: validated_def split: sum.splits)

lemma validated_no_panic [simp]: "no_panic (validated r)"
  by (auto simp: validated_def split: sum.splits)

section \<open>Operation contexts\<close>

text \<open>
  The cancellation token of a context as its answer at every instant, and its deadline. The
  instants are the moments at which a checkpoint looks at the clock.
\<close>

record operation_context =
  ctx_cancelled :: "nat \<Rightarrow> bool"
  ctx_deadline :: "nat option"

definition checkpoint :: "operation_context \<Rightarrow> nat \<Rightarrow> unit exec_result" where
  "checkpoint ctx now =
     (if ctx_cancelled ctx now then Inl (Fail cancelled_error)
      else if (case ctx_deadline ctx of None \<Rightarrow> False | Some deadline \<Rightarrow> deadline \<le> now)
      then Inl (Fail deadline_exceeded_error)
      else Inr ())"

section \<open>Identifiers\<close>

text \<open>Every identifier of \<open>ids.rs\<close> is a validated string; \<open>id_new\<close> is the macro's \<open>new\<close>.\<close>

definition id_new :: "string \<Rightarrow> string \<Rightarrow> validation_error + string" where
  "id_new name value =
     (if trim value = [] then Inl (single name ''must not be empty'')
      else if NUL \<in> set value then Inl (single name ''must not contain a null byte'')
      else Inr value)"

section \<open>Paths\<close>

record exec_path =
  root_id :: string
  path :: string

definition exec_path_root :: "string \<Rightarrow> exec_path" where
  "exec_path_root r = \<lparr>root_id = r, path = ''.''\<rparr>"

definition BSLASH :: char where "BSLASH = CHR 0x5C"

definition segment_issues :: "string \<Rightarrow> validation_issue list" where
  "segment_issues seg =
     (if seg = [] then single ''path'' ''must not contain empty segments''
      else if seg = ''.'' then single ''path'' ''must not contain dot segments''
      else if seg = ''..'' then single ''path'' ''must not traverse above its root''
      else [])"

definition exec_path_validate :: "exec_path \<Rightarrow> validation_error + unit" where
  "exec_path_validate p =
     finish (require_non_empty ''path'' (path p)
       @ issue_if (NUL \<in> set (path p)) ''path'' ''must not contain a null byte''
       @ issue_if (starts_with ''/'' (path p) \<or> starts_with [BSLASH] (path p))
           ''path'' ''must be relative to its root''
       @ issue_if (BSLASH \<in> set (path p)) ''path'' ''must use forward slashes''
       @ issue_if (2 \<le> length (path p) \<and> path p ! 1 = CHR '':'')
           ''path'' ''must not contain a drive prefix''
       @ (if path p = ''.'' then []
          else issue_if (ends_with ''/'' (path p)) ''path'' ''must not end with a slash''
            @ concat (map segment_issues (split_char CHR ''/'' (path p)))))"

definition exec_path_new :: "string \<Rightarrow> string \<Rightarrow> validation_error + exec_path" where
  "exec_path_new r p =
     (let v = \<lparr>root_id = r, path = p\<rparr>
      in case exec_path_validate v of Inl e \<Rightarrow> Inl e | Inr _ \<Rightarrow> Inr v)"

section \<open>Filesystem values and requests\<close>

datatype file_kind = File | Directory | Symlink | Other

record file_metadata =
  meta_path :: exec_path
  kind :: file_kind
  file_size :: nat
  modified_at :: "nat option"
  revision :: "string option"

record stat_request =
  stat_path :: exec_path
  stat_follow_symlinks :: bool

record read_file_request =
  read_path :: exec_path
  read_offset :: nat
  max_bytes :: nat
  read_follow_symlinks :: bool

record read_file_result =
  metadata :: file_metadata
  read_data :: string
  result_offset :: nat
  read_eof :: bool

datatype write_condition = AnyState | MustNotExist | MatchRevision string

datatype write_strategy = AtomicReplace | InPlace

record write_file_request =
  write_expected_generation :: "string option"
  strategy :: write_strategy
  write_operation_id :: string
  write_path :: exec_path
  write_data :: string
  condition :: write_condition
  create_parents :: bool
  write_follow_symlinks :: bool

record write_file_result =
  written_path :: exec_path
  existed :: bool
  written_revision :: string
  bytes_written :: nat

record create_directory_request =
  create_operation_id :: string
  create_path :: exec_path
  create_recursive :: bool

datatype remove_target_kind = AnyTarget | FileTarget

record remove_path_request =
  target_kind :: remove_target_kind
  remove_expected_generation :: "string option"
  remove_operation_id :: string
  remove_path :: exec_path
  recursive :: bool
  ignore_missing :: bool
  expected_revision :: "string option"

record list_directory_request =
  list_path :: exec_path
  list_follow_symlinks :: bool
  max_entries :: nat
  list_cursor :: "string option"

record directory_entry =
  entry_name :: string
  entry_metadata :: file_metadata

record list_directory_result =
  dir_entries :: "directory_entry list"
  next_cursor :: "string option"

definition stat_validate :: "stat_request \<Rightarrow> validation_error + unit" where
  "stat_validate r = exec_path_validate (stat_path r)"

definition read_file_validate :: "read_file_request \<Rightarrow> validation_error + unit" where
  "read_file_validate r =
     finish (append_nested ''path'' (exec_path_validate (read_path r))
       @ issue_if (max_bytes r = 0) ''max_bytes'' ''must be greater than zero'')"

definition write_file_validate :: "write_file_request \<Rightarrow> validation_error + unit" where
  "write_file_validate r =
     finish (issue_if (strategy r = InPlace \<and> write_expected_generation r = None)
           ''expected_generation'' ''in-place writes require a supervisor generation''
       @ issue_if (strategy r = InPlace \<and> \<not> write_follow_symlinks r)
           ''follow_symlinks'' ''in-place writes require following symbolic links''
       @ append_nested ''path'' (exec_path_validate (write_path r)))"

definition create_directory_validate :: "create_directory_request \<Rightarrow> validation_error + unit" where
  "create_directory_validate r = exec_path_validate (create_path r)"

definition remove_path_validate :: "remove_path_request \<Rightarrow> validation_error + unit" where
  "remove_path_validate r =
     finish (append_nested ''path'' (exec_path_validate (remove_path r))
       @ issue_if (target_kind r = FileTarget \<and> recursive r)
           ''recursive'' ''file-only removal cannot be recursive'')"

definition list_directory_validate :: "list_directory_request \<Rightarrow> validation_error + unit" where
  "list_directory_validate r =
     finish (append_nested ''path'' (exec_path_validate (list_path r))
       @ issue_if (max_entries r = 0) ''max_entries'' ''must be greater than zero'')"

section \<open>Process values and requests\<close>

datatype command_spec =
    Shell string "string option" bool
  | ShellScript string "string option" bool
  | Argv string "string list"

definition has_nul :: "string \<Rightarrow> bool" where
  "has_nul s \<longleftrightarrow> NUL \<in> set s"

definition shell_issues :: "string \<Rightarrow> string option \<Rightarrow> validation_issue list" where
  "shell_issues command shell =
     issue_if (has_nul command) ''command'' ''must not contain a null byte''
     @ (case shell of None \<Rightarrow> [] | Some s \<Rightarrow>
          require_non_empty ''shell'' s @ issue_if (has_nul s) ''shell'' ''must not contain a null byte'')"

fun command_validate :: "command_spec \<Rightarrow> validation_error + unit" where
  "command_validate (Shell command shell _) =
     finish (require_non_empty ''command'' command @ shell_issues command shell)"
| "command_validate (ShellScript command shell _) = finish (shell_issues command shell)"
| "command_validate (Argv program arguments) =
     finish (require_non_empty ''program'' program
       @ issue_if (list_ex has_nul arguments) ''arguments'' ''must not contain a null byte'')"

datatype environment_mode = Inherit | Empty

record environment_variables =
  env_mode :: environment_mode
  env_set :: "(string \<times> string) list"
  env_remove :: "string list"

definition environment_name_issues :: "string \<Rightarrow> string \<Rightarrow> validation_issue list" where
  "environment_name_issues fld name =
     (if name = [] then single fld ''variable names must not be empty''
      else issue_if (CHR ''='' \<in> set name \<or> NUL \<in> set name) (fld @ ''.'' @ name)
        (''variable names must not contain '' @ [SQUOTE] @ ''='' @ [SQUOTE] @ '' or a null byte''))"

definition environment_validate :: "environment_variables \<Rightarrow> validation_error + unit" where
  "environment_validate e =
     finish (concat (map (\<lambda>(name, value). environment_name_issues ''set'' name
                @ issue_if (has_nul value) (''set.'' @ name) ''must not contain a null byte'') (env_set e))
       @ concat (map (\<lambda>name. environment_name_issues ''remove'' name
                @ issue_if (name \<in> fst ` set (env_set e)) (''remove.'' @ name) ''must not also appear in set'')
              (env_remove e)))"

datatype stdin_mode = ClosedStdin | PipeStdin | Pty nat nat

record start_execution_request =
  expected_generation :: "string option"
  output_drain_timeout_ms :: "nat option"
  start_operation_id :: string
  execution_id :: string
  command :: command_spec
  cwd :: exec_path
  environment :: environment_variables
  stdin :: stdin_mode
  timeout_ms :: "nat option"

definition start_validate :: "start_execution_request \<Rightarrow> validation_error + unit" where
  "start_validate r =
     finish (append_nested ''command'' (command_validate (command r))
       @ append_nested ''cwd'' (exec_path_validate (cwd r))
       @ append_nested ''environment'' (environment_validate (environment r))
       @ (case stdin r of Pty columns rows \<Rightarrow>
            issue_if (columns = 0 \<or> rows = 0) ''stdin'' ''PTY columns and rows must be greater than zero''
          | _ \<Rightarrow> [])
       @ issue_if (timeout_ms r = Some 0) ''timeout_ms'' ''must be greater than zero'')"

datatype execution_state = StStarting | StRunning | StExited | StFailed | StCancelled | StLost

record execution_handle =
  handle_execution_id :: string
  handle_generation_id :: string
  handle_state :: execution_state
  handle_started_at :: "nat option"

datatype output_stream = Stdout | Stderr | PtyStream

datatype process_event_kind =
    Started
  | Output output_stream string
  | Exited int
  | Failed string
  | Closed

record process_event =
  sequence :: nat
  timestamp :: nat
  event :: process_event_kind

record read_execution_request =
  read_execution_id :: string
  read_generation_id :: string
  after_sequence :: nat
  read_max_bytes :: nat
  wait_ms :: "nat option"

definition read_execution_validate :: "read_execution_request \<Rightarrow> validation_error + unit" where
  "read_execution_validate r =
     finish (issue_if (read_max_bytes r = 0) ''max_bytes'' ''must be greater than zero''
       @ issue_if (wait_ms r = Some 0) ''wait_ms'' ''must be greater than zero when set'')"

record read_execution_result =
  events :: "process_event list"
  next_sequence :: nat
  result_state :: execution_state
  result_exit_code :: "int option"

datatype process_input = InputData string | InputClose

record write_input_request =
  input_execution_id :: string
  input_generation_id :: string
  write_id :: string
  input_payload :: process_input

datatype input_status = Accepted | AlreadyAccepted | StartingInput | InputStdinClosed

record resize_pty_request =
  resize_operation_id :: string
  resize_execution_id :: string
  resize_generation_id :: string
  columns :: nat
  rows :: nat

definition resize_validate :: "resize_pty_request \<Rightarrow> validation_error + unit" where
  "resize_validate r =
     (if columns r = 0 \<or> rows r = 0
      then Inl (single ''pty'' ''columns and rows must be greater than zero'') else Inr ())"

datatype process_signal = Interrupt | Terminate | Kill

record signal_request =
  signal_operation_id :: string
  signal_execution_id :: string
  signal_generation_id :: string
  signal :: process_signal

record terminate_request =
  terminate_operation_id :: string
  terminate_execution_id :: string
  terminate_generation_id :: string

section \<open>Host descriptor\<close>

datatype operating_system = Linux | Macos | WindowsOs | OtherOs string

datatype path_convention = Unix | Windows

record execution_root =
  root_identifier :: string
  root_name :: string
  native_path :: string
  read_only :: bool

definition root_validate :: "execution_root \<Rightarrow> validation_error + unit" where
  "root_validate r =
     finish (require_non_empty ''name'' (root_name r) @ require_non_empty ''native_path'' (native_path r))"

record execution_features =
  pty :: bool
  process_signals :: bool
  file_revisions :: bool

record execution_limits =
  max_read_bytes :: "nat option"
  max_write_bytes :: "nat option"
  max_process_read_bytes :: "nat option"
  max_process_input_bytes :: "nat option"
  max_concurrent_processes :: "nat option"

definition limits_validate :: "execution_limits \<Rightarrow> validation_error + unit" where
  "limits_validate l =
     finish (issue_if (max_read_bytes l = Some 0) ''max_read_bytes'' ''must be greater than zero''
       @ issue_if (max_write_bytes l = Some 0) ''max_write_bytes'' ''must be greater than zero''
       @ issue_if (max_process_read_bytes l = Some 0)
           ''max_process_read_bytes'' ''must be greater than zero''
       @ issue_if (max_process_input_bytes l = Some 0)
           ''max_process_input_bytes'' ''must be greater than zero''
       @ issue_if (max_concurrent_processes l = Some 0)
           ''max_concurrent_processes'' ''must be greater than zero'')"

record host_descriptor =
  host_id :: string
  supervisor_generation_id :: string
  operating_system :: operating_system
  architecture :: string
  path_convention :: path_convention
  roots :: "execution_root list"
  features :: execution_features
  limits :: execution_limits

text \<open>The loop over the roots, with the identifiers already seen and the running index.\<close>

fun root_issues :: "string set \<Rightarrow> nat \<Rightarrow> execution_root list \<Rightarrow> validation_issue list" where
  "root_issues seen index [] = []"
| "root_issues seen index (r # rs) =
     append_nested (''roots['' @ show_nat index @ '']'') (root_validate r)
     @ issue_if (root_identifier r \<in> seen) (''roots['' @ show_nat index @ ''].id'')
         ''must be unique within the descriptor''
     @ root_issues (insert (root_identifier r) seen) (index + 1) rs"

definition descriptor_validate :: "host_descriptor \<Rightarrow> validation_error + unit" where
  "descriptor_validate d =
     finish (require_non_empty ''architecture'' (architecture d)
       @ (case operating_system d of OtherOs name \<Rightarrow> require_non_empty ''operating_system.name'' name | _ \<Rightarrow> [])
       @ issue_if (roots d = []) ''roots'' ''must contain at least one root''
       @ root_issues {} 0 (roots d)
       @ append_nested ''limits'' (limits_validate (limits d))
       @ issue_if (\<not> file_revisions (features d)) ''features.file_revisions''
           ''must be enabled for the execution-core filesystem contract'')"

section \<open>What validation accepts\<close>

text \<open>A portable relative path: the root itself or proper segments joined by slashes.\<close>

definition segment_ok :: "string \<Rightarrow> bool" where
  "segment_ok seg \<longleftrightarrow> seg \<noteq> [] \<and> seg \<noteq> ''.'' \<and> seg \<noteq> ''..''"

definition portable_path :: "string \<Rightarrow> bool" where
  "portable_path p \<longleftrightarrow>
     p = ''.'' \<or>
     (list_all segment_ok (split_char CHR ''/'' p) \<and> trim p \<noteq> [] \<and> NUL \<notin> set p \<and>
      BSLASH \<notin> set p \<and> \<not> (2 \<le> length p \<and> p ! 1 = CHR '':''))"

lemma segment_issues_Nil [simp]: "segment_issues seg = [] \<longleftrightarrow> segment_ok seg"
  by (simp add: segment_issues_def segment_ok_def single_def)

lemma trim_dot: "trim ''.'' = ''.''"
  by (rule trim_id) (simp_all add: trimmed_start_def trimmed_end_def white_space_def
      starts_with_def ends_with_def strip_suffix_def)

lemma split_slash_first: "starts_with ''/'' p \<Longrightarrow> [] \<in> set (split_char CHR ''/'' p)"
  by (auto simp: starts_with_iff)

lemma split_char_snoc: "split_char c (s @ [c]) = split_char c s @ [[]]"
  by (induction s) (auto split: list.splits)

lemma split_slash_last: "ends_with ''/'' p \<Longrightarrow> [] \<in> set (split_char CHR ''/'' p)"
  by (auto simp: ends_with_iff split_char_snoc)

lemma segments_relative:
  assumes "list_all segment_ok (split_char CHR ''/'' p)"
  shows "\<not> starts_with ''/'' p" and "\<not> ends_with ''/'' p"
  using assms split_slash_first [of p] split_slash_last [of p]
  by (auto simp: list_all_iff segment_ok_def)

lemma exec_path_validate_iff: "exec_path_validate p = Inr () \<longleftrightarrow> portable_path (path p)"
proof (cases "path p = ''.''")
  case True
  then show ?thesis
    by (simp add: exec_path_validate_def portable_path_def trim_dot starts_with_def BSLASH_def)
next
  case False
  have bs: "starts_with [BSLASH] (path p) \<Longrightarrow> BSLASH \<in> set (path p)"
    by (auto simp: starts_with_iff)
  show ?thesis
    using False segments_relative [of "path p"] bs
    by (auto simp: exec_path_validate_def portable_path_def list_all_iff)
qed

lemma exec_path_validate_cases: "exec_path_validate p = Inr () \<or> (\<exists>e. exec_path_validate p = Inl e)"
  by (cases "exec_path_validate p") auto

lemma exec_path_new_Inr_iff:
  "exec_path_new r p = Inr v \<longleftrightarrow> v = \<lparr>root_id = r, path = p\<rparr> \<and> portable_path p"
  using exec_path_validate_iff [of "\<lparr>root_id = r, path = p\<rparr>"]
  by (auto simp: exec_path_new_def Let_def split: sum.splits)

lemma append_nested_path [simp]:
  "append_nested parent (exec_path_validate p) = [] \<longleftrightarrow> portable_path (path p)"
  by (simp add: exec_path_validate_iff [symmetric]) (simp add: exec_path_validate_def)

lemma root_issues_Nil:
  "root_issues seen i rs = [] \<longleftrightarrow>
     list_all (\<lambda>r. root_validate r = Inr ()) rs \<and> distinct (map root_identifier rs) \<and>
     (\<forall>r \<in> set rs. root_identifier r \<notin> seen)"
proof (induction rs arbitrary: seen i)
  case (Cons r rs)
  have "(\<forall>s \<in> set rs. root_identifier s \<noteq> root_identifier r \<and> root_identifier s \<notin> seen) \<longleftrightarrow>
        root_identifier r \<notin> root_identifier ` set rs \<and> (\<forall>s \<in> set rs. root_identifier s \<notin> seen)"
    by (auto simp: image_iff)
  with Cons show ?case
    by (auto simp: root_validate_def)
qed simp

section \<open>Properties\<close>

text \<open>
  \<open>ExecutionPath\<close> validation accepts exactly the portable paths: the root itself, or
  non-empty segments joined by single slashes, none of them \<open>.\<close> or \<open>..\<close>, without NUL,
  backslash or drive prefix, and not blank.
\<close>

theorem exec_path_accepts_portable: "exec_path_validate p = Inr () \<longleftrightarrow> portable_path (path p)"
  by (rule exec_path_validate_iff)

text \<open>
  Which host descriptors pass validation: a named architecture and operating system, at
  least one root, every root with a name and a native path and no two with the same
  identifier, no limit of zero, and file revisions enabled.
\<close>

theorem descriptor_accepts:
  "descriptor_validate d = Inr () \<longleftrightarrow>
     trim (architecture d) \<noteq> [] \<and>
     (\<forall>name. operating_system d = OtherOs name \<longrightarrow> trim name \<noteq> []) \<and>
     roots d \<noteq> [] \<and> distinct (map root_identifier (roots d)) \<and>
     list_all (\<lambda>r. trim (root_name r) \<noteq> [] \<and> trim (native_path r) \<noteq> []) (roots d) \<and>
     max_read_bytes (limits d) \<noteq> Some 0 \<and> max_write_bytes (limits d) \<noteq> Some 0 \<and>
     max_process_read_bytes (limits d) \<noteq> Some 0 \<and> max_process_input_bytes (limits d) \<noteq> Some 0 \<and>
     max_concurrent_processes (limits d) \<noteq> Some 0 \<and> file_revisions (features d)"
  by (auto simp: descriptor_validate_def root_issues_Nil limits_validate_def root_validate_def
      list_all_iff split: operating_system.splits)

theorem descriptor_accepts_witness:
  "descriptor_validate \<lparr>host_id = ''h'', supervisor_generation_id = ''g'', operating_system = OtherOs '' '',
     architecture = ''x'', path_convention = Unix,
     roots = [\<lparr>root_identifier = ''r'', root_name = ''r'', native_path = ''/'', read_only = False\<rparr>],
     features = \<lparr>pty = False, process_signals = False, file_revisions = True\<rparr>,
     limits = \<lparr>max_read_bytes = None, max_write_bytes = None, max_process_read_bytes = None,
               max_process_input_bytes = None, max_concurrent_processes = None\<rparr>\<rparr> \<noteq> Inr ()"
proof -
  have "trim '' '' = []" by code_simp
  then show ?thesis unfolding descriptor_accepts by simp
qed

fun command_ok :: "command_spec \<Rightarrow> bool" where
  "command_ok (Shell cmd sh _) \<longleftrightarrow> trim cmd \<noteq> [] \<and> \<not> has_nul cmd \<and> pred_option (\<lambda>s. trim s \<noteq> [] \<and> \<not> has_nul s) sh"
| "command_ok (ShellScript cmd sh _) \<longleftrightarrow> \<not> has_nul cmd \<and> pred_option (\<lambda>s. trim s \<noteq> [] \<and> \<not> has_nul s) sh"
| "command_ok (Argv program args) \<longleftrightarrow> trim program \<noteq> [] \<and> \<not> list_ex has_nul args"

definition environment_name_ok :: "string \<Rightarrow> bool" where
  "environment_name_ok name \<longleftrightarrow> name \<noteq> [] \<and> CHR ''='' \<notin> set name \<and> NUL \<notin> set name"

definition environment_ok :: "environment_variables \<Rightarrow> bool" where
  "environment_ok e \<longleftrightarrow>
     list_all (\<lambda>(name, val). environment_name_ok name \<and> \<not> has_nul val) (env_set e) \<and>
     list_all (\<lambda>name. environment_name_ok name \<and> name \<notin> fst ` set (env_set e)) (env_remove e)"

lemma command_validate_iff: "command_validate c = Inr () \<longleftrightarrow> command_ok c"
  by (cases c) (auto simp: shell_issues_def split: option.splits)

lemma environment_name_issues_Nil: "environment_name_issues fld name = [] \<longleftrightarrow> environment_name_ok name"
  by (auto simp: environment_name_issues_def environment_name_ok_def single_def)

lemma environment_validate_iff: "environment_validate e = Inr () \<longleftrightarrow> environment_ok e"
  by (auto simp: environment_validate_def environment_ok_def environment_name_issues_Nil list_all_iff)

lemma append_nested_Nil_iff: "append_nested parent r = [] \<longleftrightarrow> r = Inr () \<or> r = Inl []"
  by (cases r) (auto simp: append_nested_def)

lemma command_validate_not_empty: "command_validate c \<noteq> Inl []"
  by (cases c) (auto dest!: finish_never_empty)

lemma environment_validate_not_empty: "environment_validate e \<noteq> Inl []"
  by (auto simp: environment_validate_def dest!: finish_never_empty)

text \<open>
  Which start requests pass validation: a command without NUL bytes (and not blank, unless
  it is a shell script), a portable working directory, environment names that are non-empty and free of
  \<open>=\<close> and NUL, values free of NUL, no name both set and removed, a non-degenerate terminal
  size and a positive timeout.
\<close>

theorem start_request_accepts:
  "start_validate r = Inr () \<longleftrightarrow>
     command_ok (command r) \<and> portable_path (path (cwd r)) \<and> environment_ok (environment r) \<and>
     (\<forall>c w. stdin r = Pty c w \<longrightarrow> c \<noteq> 0 \<and> w \<noteq> 0) \<and> timeout_ms r \<noteq> Some 0"
  by (auto simp: start_validate_def append_nested_Nil_iff [of _ "command_validate (command r)"]
      append_nested_Nil_iff [of _ "environment_validate (environment r)"]
      command_validate_not_empty environment_validate_not_empty
      command_validate_iff environment_validate_iff split: stdin_mode.splits)

theorem start_request_accepts_witness:
  "start_validate \<lparr>expected_generation = None, output_drain_timeout_ms = None, start_operation_id = ''o'',
     execution_id = ''e'', command = Argv ''ls'' [''-l''], cwd = \<lparr>root_id = ''r'', path = ''a/b''\<rparr>,
     environment = \<lparr>env_mode = Inherit, env_set = [(''A'', ''1'')], env_remove = [''B'']\<rparr>,
     stdin = Pty 80 24, timeout_ms = Some 5\<rparr> = Inr ()"
proof -
  have "trim ''ls'' = ''ls''" "trim ''a/b'' = ''a/b''" by code_simp+
  then show ?thesis
    unfolding start_request_accepts
    by (simp add: has_nul_def portable_path_def segment_ok_def BSLASH_def environment_ok_def environment_name_ok_def)
qed

end
