(* ===== verification/Journal.thy ===== *)
theory Journal
  imports Exec_Core
begin

text \<open>
  The event journal of a supervised process
  (\<open>execution/packages/execution-supervisor-core/src/process/journal.rs\<close>): an append-only file of
  JSON records with an index of entries, in which an output record of \<open>n\<close> bytes takes \<open>n\<close>
  sequence numbers, so that a reader can resume in the middle of a record. The operations run
  under the journal's mutex and are modelled as state transformers; the journal file is a byte
  string. JSON encoding and decoding (\<open>serde_json\<close>), the clock and the outcome of the file
  operations are arguments. \<open>usize\<close> has 64 bits, so the \<open>usize::try_from\<close> conversions
  are identities. The lemmas relate the journal to an abstract log of events and show that
  reads return exactly the part of the logged stream that follows the cursor.
\<close>

section \<open>State\<close>

record journal_entry =
  first_sequence :: nat
  last_sequence :: nat
  entry_offset :: nat
  entry_length :: nat
  output_bytes :: nat

record journal =
  j_file :: string
  j_next_sequence :: nat
  j_entries :: "journal_entry list"
  j_file_length :: nat
  j_state :: execution_state
  j_started_at :: "nat option"
  j_exit_code :: "int option"
  j_finished_at :: "nat option"
  j_closed :: bool

record selected_entry =
  sel_journal :: journal_entry
  output_offset :: nat
  output_length :: nat
  returned_sequence :: nat

definition journal_create :: journal where
  "journal_create = \<lparr>j_file = [], j_next_sequence = 1, j_entries = [], j_file_length = 0,
     j_state = StStarting, j_started_at = None, j_exit_code = None, j_finished_at = None,
     j_closed = False\<rparr>"

definition is_terminal :: "execution_state \<Rightarrow> bool" where
  "is_terminal s \<longleftrightarrow> s \<in> {StExited, StFailed, StCancelled, StLost}"

text \<open>
  How the append of one record ends: completely, or with an I/O error after some bytes
  reached the file (opening, writing the record, writing the newline or flushing failed).
\<close>

datatype append_io = AppendOk | AppendFails nat exec_error

type_synonym event_encoder = "process_event \<Rightarrow> string + string"
type_synonym event_decoder = "string \<Rightarrow> string + process_event"

section \<open>Appending\<close>

fun event_output_bytes :: "process_event_kind \<Rightarrow> nat" where
  "event_output_bytes (Output _ bytes) = length bytes"
| "event_output_bytes _ = 0"

definition append_locked ::
  "event_encoder \<Rightarrow> append_io \<Rightarrow> nat \<Rightarrow> process_event_kind \<Rightarrow> journal \<Rightarrow> unit exec_result \<times> journal" where
  "append_locked enc io now ev j =
     (let out = event_output_bytes ev;
          first = j_next_sequence j;
          span = max out 1;
          last = sat_add first (span - 1)
      in case enc \<lparr>sequence = last, timestamp = now, event = ev\<rparr> of
           Inl e \<Rightarrow> (Inl (Fail (exec_error_new Internal (''failed to encode process event: '' @ e))), j)
         | Inr encoded \<Rightarrow> (case io of
             AppendFails n e \<Rightarrow> (Inl (Fail e), j\<lparr>j_file := j_file j @ take n (encoded @ [LF])\<rparr>)
           | AppendOk \<Rightarrow>
               (Inr (), j\<lparr>j_file := j_file j @ encoded @ [LF],
                  j_entries := j_entries j @ [\<lparr>first_sequence = first, last_sequence = last,
                    entry_offset = j_file_length j, entry_length = length encoded, output_bytes = out\<rparr>],
                  j_file_length := sat_add (sat_add (j_file_length j) (length encoded)) 1,
                  j_next_sequence := sat_add last 1\<rparr>)))"

definition mark_started ::
  "event_encoder \<Rightarrow> append_io \<Rightarrow> nat \<Rightarrow> journal \<Rightarrow> nat exec_result \<times> journal" where
  "mark_started enc io now j =
     (case append_locked enc io now Started (j\<lparr>j_state := StRunning, j_started_at := Some now\<rparr>) of
        (Inl e, j') \<Rightarrow> (Inl e, j')
      | (Inr _, j') \<Rightarrow> (Inr now, j'))"

definition append_output ::
  "event_encoder \<Rightarrow> append_io \<Rightarrow> nat \<Rightarrow> output_stream \<Rightarrow> string \<Rightarrow> journal \<Rightarrow> unit exec_result \<times> journal" where
  "append_output enc io now stream bytes j =
     (if j_closed j then (Inr (), j) else append_locked enc io now (Output stream bytes) j)"

definition mark_exited ::
  "event_encoder \<Rightarrow> append_io \<Rightarrow> nat \<Rightarrow> int \<Rightarrow> execution_state \<Rightarrow> journal \<Rightarrow> unit exec_result \<times> journal" where
  "mark_exited enc io now exit_code final_state j =
     (if is_terminal (j_state j) then (Inr (), j)
      else append_locked enc io now (Exited exit_code)
             (j\<lparr>j_state := final_state, j_exit_code := Some exit_code\<rparr>))"

definition close_finished :: "nat \<Rightarrow> journal \<Rightarrow> journal" where
  "close_finished now j = j\<lparr>j_closed := True, j_finished_at := Some now\<rparr>"

definition close_journal ::
  "event_encoder \<Rightarrow> append_io \<Rightarrow> nat \<Rightarrow> journal \<Rightarrow> unit exec_result \<times> journal" where
  "close_journal enc io now j =
     (if j_closed j then (Inr (), j)
      else case append_locked enc io now Closed j of
        (Inl e, j') \<Rightarrow> (Inl e, j')
      | (Inr _, j') \<Rightarrow> (Inr (), close_finished now j'))"

definition finish_exited ::
  "event_encoder \<Rightarrow> append_io \<Rightarrow> append_io \<Rightarrow> nat \<Rightarrow> int \<Rightarrow> execution_state \<Rightarrow> journal \<Rightarrow> unit exec_result \<times> journal" where
  "finish_exited enc io1 io2 now exit_code final_state j =
     (case mark_exited enc io1 now exit_code final_state j of
        (Inl e, j') \<Rightarrow> (Inl e, j')
      | (Inr _, j') \<Rightarrow> close_journal enc io2 now j')"

definition finish_failed ::
  "event_encoder \<Rightarrow> append_io \<Rightarrow> append_io \<Rightarrow> nat \<Rightarrow> string \<Rightarrow> journal \<Rightarrow> unit exec_result \<times> journal" where
  "finish_failed enc io1 io2 now msg j =
     (if j_closed j then (Inr (), j)
      else case append_locked enc io1 now (Failed msg) (j\<lparr>j_state := StFailed\<rparr>) of
        (Inl e, j') \<Rightarrow> (Inl e, j')
      | (Inr _, j') \<Rightarrow> (case append_locked enc io2 now Closed j' of
          (Inl e, j'') \<Rightarrow> (Inl e, j'')
        | (Inr _, j'') \<Rightarrow> (Inr (), close_finished now j'')))"

definition journal_handle :: "journal \<Rightarrow> execution_state \<times> nat option" where
  "journal_handle j = (j_state j, j_started_at j)"

definition journal_is_running :: "journal \<Rightarrow> bool" where
  "journal_is_running j \<longleftrightarrow> \<not> is_terminal (j_state j)"

definition finished_for :: "nat \<Rightarrow> journal \<Rightarrow> nat option" where
  "finished_for now j = map_option (\<lambda>finished. now - finished) (j_finished_at j)"

section \<open>Reading\<close>

definition already_read :: "nat \<Rightarrow> journal_entry \<Rightarrow> nat" where
  "already_read after e =
     (if after < first_sequence e then 0
      else min (sat_add (after - first_sequence e) 1) (output_bytes e))"

fun select_entries :: "nat \<Rightarrow> nat \<Rightarrow> nat \<Rightarrow> journal_entry list \<Rightarrow> selected_entry list" where
  "select_entries after limit selected_bytes [] = []"
| "select_entries after limit selected_bytes (e # es) =
     (if \<not> after < last_sequence e then select_entries after limit selected_bytes es
      else if output_bytes e = 0
      then \<lparr>sel_journal = e, output_offset = 0, output_length = 0, returned_sequence = last_sequence e\<rparr>
             # select_entries after limit selected_bytes es
      else let read = already_read after e;
               available = output_bytes e - read;
               remaining = limit - selected_bytes;
               selected = min available remaining
           in if remaining = 0 then []
              else \<lparr>sel_journal = e, output_offset = read, output_length = selected,
                     returned_sequence = sat_add (sat_add (first_sequence e) read) selected - 1\<rparr>
                   # (if selected < available then []
                      else select_entries after limit (sat_add selected_bytes selected) es))"

definition trim_output :: "selected_entry \<Rightarrow> process_event_kind \<Rightarrow> process_event_kind exec_result" where
  "trim_output sel ev = (case ev of
     Output stream bytes \<Rightarrow>
       rbind (slice bytes (output_offset sel) (sat_add (output_offset sel) (output_length sel)))
         (\<lambda>part. Inr (Output stream part))
   | _ \<Rightarrow> Inr ev)"

text \<open>\<open>eof_error\<close> is the error of \<open>read_exact\<close> past the end of the file.\<close>

definition read_record ::
  "event_decoder \<Rightarrow> exec_error \<Rightarrow> string \<Rightarrow> selected_entry \<Rightarrow> process_event exec_result" where
  "read_record dec eof_error contents sel =
     (let e = sel_journal sel in
      if length contents < entry_offset e + entry_length e then Inl (Fail eof_error)
      else case dec (take (entry_length e) (drop (entry_offset e) contents)) of
        Inl m \<Rightarrow> Inl (Fail (exec_error_new Internal (''process journal is corrupt: '' @ m)))
      | Inr ev \<Rightarrow> rbind (trim_output sel (event ev))
          (\<lambda>k. Inr (ev\<lparr>event := k, sequence := returned_sequence sel\<rparr>)))"

fun read_records ::
  "event_decoder \<Rightarrow> exec_error \<Rightarrow> string \<Rightarrow> selected_entry list \<Rightarrow> process_event list exec_result" where
  "read_records dec eof_error contents [] = Inr []"
| "read_records dec eof_error contents (s # ss) =
     rbind (read_record dec eof_error contents s) (\<lambda>ev.
     rbind (read_records dec eof_error contents ss) (\<lambda>evs. Inr (ev # evs)))"

definition cursor_ahead_message :: "nat \<Rightarrow> nat \<Rightarrow> string" where
  "cursor_ahead_message after latest =
     ''process cursor '' @ show_nat after @ '' is ahead of latest sequence '' @ show_nat latest"

text \<open>\<open>open_error\<close> is the error of opening the journal file, when opening fails.\<close>

definition read_now ::
  "event_decoder \<Rightarrow> exec_error option \<Rightarrow> exec_error \<Rightarrow> journal \<Rightarrow> nat \<Rightarrow> nat \<Rightarrow> read_execution_result exec_result" where
  "read_now dec open_error eof_error j after limit =
     (let last_seq = j_next_sequence j - 1 in
      if last_seq < after
      then Inl (Fail (exec_error_new InvalidRequest (cursor_ahead_message after last_seq)))
      else let selected = select_entries after limit 0 (j_entries j) in
        rbind (if selected = [] then Inr []
               else case open_error of
                 Some e \<Rightarrow> Inl (Fail e)
               | None \<Rightarrow> read_records dec eof_error (j_file j) selected) (\<lambda>evs.
        Inr \<lparr>events = evs,
             next_sequence = (case vec_last evs of Some ev \<Rightarrow> sequence ev | None \<Rightarrow> after),
             result_state = j_state j, result_exit_code = j_exit_code j\<rparr>))"

text \<open>
  \<open>read\<close> takes the lock up to three times and waits at most once: \<open>before\<close> is the journal at the
  first look, \<open>checked\<close> the journal when its \<open>closed\<close> flag is read, and \<open>later\<close> the journal when
  the notification or the timeout ended the wait.
\<close>

definition journal_read ::
  "event_decoder \<Rightarrow> exec_error option \<Rightarrow> exec_error \<Rightarrow> journal \<Rightarrow> journal \<Rightarrow> journal \<Rightarrow> nat \<Rightarrow> nat \<Rightarrow> nat option
    \<Rightarrow> read_execution_result exec_result" where
  "journal_read dec open_error eof_error before checked later after limit wait =
     rbind (read_now dec open_error eof_error before after limit) (\<lambda>result.
       if events result \<noteq> [] \<or> j_closed checked \<or> wait = None then Inr result
       else read_now dec open_error eof_error later after limit)"

section \<open>The abstract log\<close>

text \<open>
  The log is the list of timestamped events; its stream has one unit per sequence number:
  every byte of an output, and one unit for any other event (and for an empty output).
\<close>

type_synonym logged = "nat \<times> process_event_kind"

datatype log_unit = UByte nat output_stream char | UEvent nat process_event_kind

fun units :: "logged \<Rightarrow> log_unit list" where
  "units (ts, Output s bytes) =
     (if bytes = [] then [UEvent ts (Output s [])] else map (UByte ts s) bytes)"
| "units (ts, k) = [UEvent ts k]"

definition log_stream :: "logged list \<Rightarrow> log_unit list" where
  "log_stream h = concat (map units h)"

definition ev_units :: "process_event \<Rightarrow> log_unit list" where
  "ev_units e = units (timestamp e, event e)"

definition span :: "process_event_kind \<Rightarrow> nat" where
  "span k = max (event_output_bytes k) 1"

definition returned_bytes :: "process_event list \<Rightarrow> nat" where
  "returned_bytes evs = sum_list (map (\<lambda>e. event_output_bytes (event e)) evs)"

fun indexed :: "event_encoder \<Rightarrow> nat \<Rightarrow> nat \<Rightarrow> logged list \<Rightarrow> journal_entry list \<Rightarrow> string \<Rightarrow> bool" where
  "indexed enc n off [] es f = (es = [] \<and> f = [])"
| "indexed enc n off ((ts, k) # h) es f =
     (\<exists>s es' f'. enc \<lparr>sequence = n + span k - 1, timestamp = ts, event = k\<rparr> = Inr s \<and>
        es = \<lparr>first_sequence = n, last_sequence = n + span k - 1, entry_offset = off,
              entry_length = length s, output_bytes = event_output_bytes k\<rparr> # es' \<and>
        f = s @ [LF] @ f' \<and> indexed enc (n + span k) (off + length s + 1) h es' f')"

definition journal_of :: "event_encoder \<Rightarrow> logged list \<Rightarrow> journal \<Rightarrow> bool" where
  "journal_of enc h j \<longleftrightarrow> indexed enc 1 0 h (j_entries j) (j_file j) \<and>
     j_next_sequence j = 1 + length (log_stream h) \<and> j_file_length j = length (j_file j) \<and>
     j_next_sequence j \<le> u64_max \<and> j_file_length j \<le> u64_max"

lemma length_units [simp]: "length (units (ts, k)) = span k"
  by (cases k) (auto simp: span_def max_def Suc_le_eq le_Suc_eq)

lemma units_neq_Nil [simp]: "units x \<noteq> []"
  by (cases x rule: units.cases) auto

lemma log_stream_simps [simp]:
  "log_stream [] = []" "log_stream (x # h) = units x @ log_stream h"
  "log_stream (h @ h') = log_stream h @ log_stream h'"
  by (simp_all add: log_stream_def)

lemma span_pos [simp]: "0 < span k" "Suc 0 \<le> span k"
  by (simp_all add: span_def)

lemma journal_of_create: "journal_of enc [] journal_create"
  by (simp add: journal_of_def journal_create_def u64_max_def)

lemma indexed_snoc:
  assumes "indexed enc n off h es f"
    and "enc \<lparr>sequence = n + length (log_stream h) + span k - 1, timestamp = ts, event = k\<rparr> = Inr s"
  shows "indexed enc n off (h @ [(ts, k)])
    (es @ [\<lparr>first_sequence = n + length (log_stream h),
            last_sequence = n + length (log_stream h) + span k - 1,
            entry_offset = off + length f, entry_length = length s,
            output_bytes = event_output_bytes k\<rparr>]) (f @ s @ [LF])"
  using assms
proof (induction enc n off h es f rule: indexed.induct)
  case (2 enc n off ts' k' h es f)
  then obtain s' es' f' where
      s': "enc \<lparr>sequence = n + span k' - 1, timestamp = ts', event = k'\<rparr> = Inr s'"
      "es = \<lparr>first_sequence = n, last_sequence = n + span k' - 1, entry_offset = off,
              entry_length = length s', output_bytes = event_output_bytes k'\<rparr> # es'"
      "f = s' @ [LF] @ f'" "indexed enc (n + span k') (off + length s' + 1) h es' f'"
    by auto
  from "2.IH" [OF s'(4)] "2.prems"(2) s' show ?case
    by (simp add: add.assoc)
qed simp

text \<open>Room for one more record: the sequence numbers and the file length stay below \<open>u64::MAX\<close>.\<close>

definition append_fits :: "journal \<Rightarrow> process_event_kind \<Rightarrow> string \<Rightarrow> bool" where
  "append_fits j k encoded \<longleftrightarrow>
     j_next_sequence j + span k \<le> u64_max \<and> j_file_length j + length encoded + 1 \<le> u64_max"

lemma append_locked_refines:
  assumes "journal_of enc h j"
    and "enc \<lparr>sequence = j_next_sequence j + span k - 1, timestamp = ts, event = k\<rparr> = Inr s"
    and "append_fits j k s"
  shows "\<exists>j'. append_locked enc AppendOk ts k j = (Inr (), j') \<and> journal_of enc (h @ [(ts, k)]) j' \<and>
     j_state j' = j_state j \<and> j_closed j' = j_closed j \<and> j_exit_code j' = j_exit_code j \<and>
     j_started_at j' = j_started_at j \<and> j_finished_at j' = j_finished_at j"
proof -
  have out: "append_locked enc AppendOk ts k j =
     (Inr (), j\<lparr>j_file := j_file j @ s @ [LF],
        j_entries := j_entries j @ [\<lparr>first_sequence = j_next_sequence j,
          last_sequence = j_next_sequence j + span k - 1, entry_offset = j_file_length j,
          entry_length = length s, output_bytes = event_output_bytes k\<rparr>],
        j_file_length := j_file_length j + length s + 1,
        j_next_sequence := j_next_sequence j + span k\<rparr>)"
  proof -
    have "sat_add (j_next_sequence j) (max (event_output_bytes k) 1 - 1) = j_next_sequence j + span k - 1"
      using assms(3) by (auto simp: append_fits_def span_def sat_add_def)
    then show ?thesis
      using assms(2,3) unfolding append_locked_def Let_def
      by (simp only: sum.case append_io.case) (simp add: append_fits_def)
  qed
  show ?thesis
    using assms(1,3) assms(2) indexed_snoc [of enc 1 0 h "j_entries j" "j_file j" k ts s]
    unfolding out by (simp add: journal_of_def append_fits_def)
qed

section \<open>Reads return the stream after the cursor\<close>

fun sequenced :: "nat \<Rightarrow> process_event list \<Rightarrow> bool" where
  "sequenced a [] = True"
| "sequenced a (e # es) = (sequence e = a + length (ev_units e) \<and> sequenced (a + length (ev_units e)) es)"

definition read_ok :: "nat \<Rightarrow> nat \<Rightarrow> nat \<Rightarrow> log_unit list \<Rightarrow> process_event list \<Rightarrow> bool" where
  "read_ok a limit used str evs \<longleftrightarrow> sequenced a evs \<and> used + returned_bytes evs \<le> limit \<and>
     (\<exists>rest. str = concat (map ev_units evs) @ rest \<and> (rest \<noteq> [] \<longrightarrow> used + returned_bytes evs = limit))"

lemma read_ok_Nil [simp]: "used \<le> limit \<Longrightarrow> read_ok a limit used [] []" "read_ok a limit limit str []"
  by (auto simp: read_ok_def returned_bytes_def)

lemma read_ok_Cons:
  assumes "sequence e = a + length (ev_units e)" and "n = event_output_bytes (event e)"
    and "read_ok (a + length (ev_units e)) limit (used + n) str evs"
  shows "read_ok a limit used (ev_units e @ str) (e # evs)"
  using assms by (auto simp: read_ok_def returned_bytes_def add.assoc)

definition codec_ok :: "event_encoder \<Rightarrow> event_decoder \<Rightarrow> bool" where
  "codec_ok enc dec \<longleftrightarrow> (\<forall>e s. enc e = Inr s \<longrightarrow> dec s = Inr e)"

lemma read_record_stored:
  assumes "codec_ok enc dec" and "enc ev = Inr s"
    and "sel_journal sel = \<lparr>first_sequence = n, last_sequence = m, entry_offset = length pre,
           entry_length = length s, output_bytes = out\<rparr>"
  shows "read_record dec eof_error (pre @ s @ post) sel =
     rbind (trim_output sel (event ev)) (\<lambda>k. Inr (ev\<lparr>event := k, sequence := returned_sequence sel\<rparr>))"
  using assms by (simp add: read_record_def codec_ok_def)

lemma trim_output_plain: "output_offset sel = 0 \<Longrightarrow> output_length sel = 0 \<Longrightarrow>
    event_output_bytes k = 0 \<Longrightarrow> trim_output sel k = Inr k"
  by (cases k) (simp_all add: trim_output_def)

lemma trim_output_part:
  assumes "output_offset sel + output_length sel \<le> length d" and "length d \<le> u64_max"
  shows "trim_output sel (Output st d) = Inr (Output st (take (output_length sel) (drop (output_offset sel) d)))"
  using assms by (simp add: trim_output_def)

lemma already_read_eq:
  assumes "after < n + length d - 1" and "1 \<le> n" and "n + length d \<le> u64_max"
  shows "already_read after \<lparr>first_sequence = n, last_sequence = m, entry_offset = off,
           entry_length = l, output_bytes = length d\<rparr> = after - (n - 1)"
  using assms by (auto simp: already_read_def sat_add_def)

lemma drop_take_split: "drop r d = take m (drop r d) @ drop (r + m) d"
  using append_take_drop_id [of m "drop r d"] by (simp add: add.commute)

lemma read_records_ok:
  assumes "indexed enc n (length pre) h es f" and "codec_ok enc dec"
    and "used \<le> limit" and "limit \<le> u64_max" and "1 \<le> n" and "n + length (log_stream h) \<le> u64_max"
  shows "\<exists>evs. read_records dec eof_error (pre @ f) (select_entries after limit used es) = Inr evs \<and>
     read_ok (max after (n - 1)) limit used (drop (after - (n - 1)) (log_stream h)) evs"
  using assms
proof (induction h arbitrary: n pre es f used)
  case Nil
  then show ?case by simp
next
  case (Cons x h)
  obtain ts k where x: "x = (ts, k)" by force
  let ?ev = "\<lparr>sequence = n + span k - 1, timestamp = ts, event = k\<rparr>"
  obtain s es' f' where enc: "enc ?ev = Inr s"
      and es: "es = \<lparr>first_sequence = n, last_sequence = n + span k - 1, entry_offset = length pre,
              entry_length = length s, output_bytes = event_output_bytes k\<rparr> # es'"
      and f: "f = s @ [LF] @ f'" and rest: "indexed enc (n + span k) (length (pre @ s @ [LF])) h es' f'"
    using Cons.prems(1) by (auto simp: x)
  have fit: "n + span k + length (log_stream h) \<le> u64_max" using Cons.prems(6) by (simp add: x)
  have IH: "\<exists>evs. read_records dec eof_error (pre @ f) (select_entries after limit u es') = Inr evs \<and>
     read_ok (max after (n + span k - 1)) limit u (drop (after - (n + span k - 1)) (log_stream h)) evs"
    if "u \<le> limit" for u
    using Cons.IH [OF rest Cons.prems(2) that Cons.prems(4) _ fit] Cons.prems(5) by (simp add: f)
  note stored = read_record_stored [OF Cons.prems(2) enc, where pre = pre and post = "LF # f'"]
  show ?case
  proof (cases "after < n + span k - 1")
    case False
    then have "drop (after - (n - 1)) (units x) = []" "after - (n - 1) - span k = after - (n + span k - 1)"
      using Cons.prems(5) by (auto simp: x)
    moreover have "max after (n - 1) = after" "max after (n + span k - 1) = after"
      using False span_pos(1) [of k] Cons.prems(5) by linarith+
    ultimately show ?thesis
      using False IH [OF Cons.prems(3)] by (simp add: x es)
  next
    case True
    note after = True
    show ?thesis
    proof (cases "event_output_bytes k = 0")
      case True
      then have sp: "span k = 1" by (simp add: span_def)
      obtain evs where evs: "read_records dec eof_error (pre @ f) (select_entries after limit used es') = Inr evs"
          "read_ok n limit used (log_stream h) evs"
        using IH [OF Cons.prems(3)] after sp by auto
      have "read_ok (n - 1) limit used (ev_units (?ev\<lparr>sequence := n\<rparr>) @ log_stream h) (?ev\<lparr>sequence := n\<rparr> # evs)"
        by (rule read_ok_Cons [of _ _ 0]) (use evs(2) Cons.prems(5) True sp in \<open>simp_all add: ev_units_def\<close>)
      then show ?thesis
        using evs(1) after sp True
        by (simp add: x es f stored trim_output_plain ev_units_def)
    next
      case False
      then obtain st d where k: "k = Output st d" and d: "d \<noteq> []" by (cases k) auto
      have sp: "span k = length d" and sp': "span (Output st d) = length d"
        using d by (simp_all add: k span_def Suc_le_eq)
      define r where "r = after - (n - 1)"
      have read: "already_read after \<lparr>first_sequence = n, last_sequence = q,
            entry_offset = length pre, entry_length = length s, output_bytes = length d\<rparr> = r" for q
        unfolding r_def
      proof (rule already_read_eq)
        show "after < n + length d - 1" and "1 \<le> n" using after Cons.prems(5) by (simp_all only: sp)
        show "n + length d \<le> u64_max" using fit sp by linarith
      qed
      have "0 < length d" using d by simp
      with after Cons.prems(5) sp have lt: "r < length d" unfolding r_def by linarith
      have mx: "max after (n - 1) = n - 1 + r" by (simp add: r_def)
      show ?thesis
      proof (cases "limit = used")
        case True
        then show ?thesis using after d by (simp add: x es k sp read)
      next
        case False
        note lim = False
        define m where "m = min (length d - r) (limit - used)"
        let ?ev' = "\<lparr>sequence = n + r + m - 1, timestamp = ts, event = Output st (take m (drop r d))\<rparr>"
        have sel: "0 < m" "r + m \<le> length d" "used + m \<le> limit"
          using lim Cons.prems(3) lt unfolding m_def by linarith+
        have bound: "n + length d \<le> u64_max" using fit sp by linarith
        have seq: "sat_add (sat_add n r) m - 1 = n + r + m - 1" and len: "length d \<le> u64_max"
            and used: "sat_add used m = used + m"
          using sel bound Cons.prems(4) by (simp_all add: sat_add_def)
        have evu: "ev_units ?ev' = map (UByte ts st) (take m (drop r d))"
          using sel lt by (simp add: ev_units_def)
        have unit: "drop r (units x) = ev_units ?ev' @ map (UByte ts st) (drop (r + m) d)"
        proof -
          have "drop r (units x) = map (UByte ts st) (drop r d)"
            using d by (simp add: x k drop_map)
          also have "\<dots> = map (UByte ts st) (take m (drop r d) @ drop (r + m) d)"
            by (rule arg_cong [OF drop_take_split])
          finally show ?thesis unfolding evu map_append .
        qed
        have head: "read_record dec eof_error (pre @ f) \<lparr>sel_journal = hd es, output_offset = r,
              output_length = m, returned_sequence = sat_add (sat_add n r) m - 1\<rparr> = Inr ?ev'"
          using sel(2) len unfolding seq by (simp add: es f k sp stored trim_output_part)
        have more: "\<exists>evs. read_records dec eof_error (pre @ f)
              (if m < length d - r then [] else select_entries after limit (used + m) es') = Inr evs \<and>
            read_ok (n - 1 + r + m) limit (used + m)
              (map (UByte ts st) (drop (r + m) d) @ log_stream h) evs"
        proof (cases "m < length d - r")
          case True
          then have "used + m = limit" using sel Cons.prems(3) unfolding m_def by linarith
          with True show ?thesis by simp
        next
          case False
          then have rm: "r + m = length d" using sel by linarith
          then have "n - 1 + r + m = n + length d - 1" using Cons.prems(5) by linarith
          with False rm IH [OF sel(3)] after Cons.prems(5) show ?thesis
            by (simp add: sp)
        qed
        then obtain evs where evs: "read_records dec eof_error (pre @ f)
              (if m < length d - r then [] else select_entries after limit (used + m) es') = Inr evs"
            "read_ok (n - 1 + r + m) limit (used + m)
              (map (UByte ts st) (drop (r + m) d) @ log_stream h) evs"
          by blast
        have "read_ok (n - 1 + r) limit used
            (ev_units ?ev' @ map (UByte ts st) (drop (r + m) d) @ log_stream h) (?ev' # evs)"
        proof (rule read_ok_Cons [of _ _ m])
          have len_u: "length (ev_units ?ev') = m" using sel(2) unfolding evu by simp
          show "sequence ?ev' = n - 1 + r + length (ev_units ?ev')"
            unfolding len_u using Cons.prems(5) by simp
          show "read_ok (n - 1 + r + length (ev_units ?ev')) limit (used + m)
              (map (UByte ts st) (drop (r + m) d) @ log_stream h) evs"
            unfolding len_u by (rule evs(2))
        qed (use sel(2) in simp)
        moreover have "drop r (log_stream (x # h)) =
            ev_units ?ev' @ map (UByte ts st) (drop (r + m) d) @ log_stream h"
        proof -
          have "drop r (log_stream (x # h)) = drop r (units x) @ log_stream h"
            using lt sp by (simp add: x)
          then show ?thesis unfolding unit append_assoc .
        qed
        moreover have "select_entries after limit used es = \<lparr>sel_journal = hd es, output_offset = r,
              output_length = m, returned_sequence = sat_add (sat_add n r) m - 1\<rparr> #
              (if m < length d - r then [] else select_entries after limit (used + m) es')"
          using after lim Cons.prems(3) d by (simp add: es k sp' read Let_def used flip: m_def)
        ultimately show ?thesis
          using head evs(1) unfolding mx r_def [symmetric] by (simp del: log_stream_simps)
      qed
    qed
  qed
qed

lemma sequenced_last:
  "sequenced a evs \<Longrightarrow> vec_last evs = Some e \<Longrightarrow> sequence e = a + length (concat (map ev_units evs))"
proof (induction evs arbitrary: a)
  case (Cons e' evs)
  then show ?case
    by (cases evs rule: rev_cases) (auto simp: vec_last_def split: if_splits)
qed simp

lemma read_now_ok:
  assumes "journal_of enc h j" and "codec_ok enc dec" and "limit \<le> u64_max" and "after \<le> length (log_stream h)"
  shows "\<exists>r. read_now dec None eof_error j after limit = Inr r \<and>
     read_ok after limit 0 (drop after (log_stream h)) (events r) \<and>
     next_sequence r = after + length (concat (map ev_units (events r))) \<and>
     result_state r = j_state j \<and> result_exit_code r = j_exit_code j"
proof -
  have fit: "1 + length (log_stream h) \<le> u64_max" using assms(1) by (simp add: journal_of_def)
  have idx: "indexed enc 1 (length []) h (j_entries j) (j_file j)" using assms(1) by (simp add: journal_of_def)
  obtain evs where evs: "read_records dec eof_error ([] @ j_file j) (select_entries after limit 0 (j_entries j)) = Inr evs"
      "read_ok (max after (1 - 1)) limit 0 (drop (after - (1 - 1)) (log_stream h)) evs"
    using read_records_ok [OF idx assms(2) _ assms(3) _ fit] by blast
  have seq: "(case vec_last evs of Some ev \<Rightarrow> sequence ev | None \<Rightarrow> after) =
      after + length (concat (map ev_units evs))"
    using evs(2) sequenced_last [of after evs] by (auto simp: read_ok_def split: option.splits)
  have "(if select_entries after limit 0 (j_entries j) = [] then Inr []
         else case None of Some e \<Rightarrow> Inl (Fail e)
              | None \<Rightarrow> read_records dec eof_error (j_file j) (select_entries after limit 0 (j_entries j))) = Inr evs"
    using evs(1) by (cases "select_entries after limit 0 (j_entries j)") simp_all
  then show ?thesis
    using assms(1,4) evs(2) seq by (simp add: read_now_def Let_def journal_of_def)
qed

lemma read_now_ahead:
  assumes "journal_of enc h j" and "length (log_stream h) < after"
  shows "\<exists>e. read_now dec open_error eof_error j after limit = Inl (Fail e) \<and> code e = InvalidRequest"
  using assms by (simp add: read_now_def journal_of_def exec_error_new_def)

text \<open>A reader that always continues at the cursor of the previous result.\<close>

inductive polls :: "event_decoder \<Rightarrow> exec_error \<Rightarrow> journal \<Rightarrow> nat \<Rightarrow> process_event list \<Rightarrow> nat \<Rightarrow> bool"
  for dec eof_error j where
  stop: "polls dec eof_error j after [] after"
| poll: "read_now dec None eof_error j after limit = Inr r \<Longrightarrow> limit \<le> u64_max \<Longrightarrow>
     polls dec eof_error j (next_sequence r) evs stop_at \<Longrightarrow>
     polls dec eof_error j after (events r @ evs) stop_at"

lemma polls_ok:
  assumes "polls dec eof_error j after evs stop_at" and "journal_of enc h j" and "codec_ok enc dec"
    and "after \<le> length (log_stream h)"
  shows "stop_at \<le> length (log_stream h) \<and> after \<le> stop_at \<and>
     concat (map ev_units evs) = take (stop_at - after) (drop after (log_stream h))"
  using assms
proof (induction rule: polls.induct)
  case (poll after limit r evs stop_at)
  let ?u = "concat (map ev_units (events r))"
  obtain rest where rest: "drop after (log_stream h) = ?u @ rest"
      and nxt: "next_sequence r = after + length ?u"
    using read_now_ok [OF poll.prems(1,2) poll.hyps(2) poll.prems(3), of eof_error] poll.hyps(1)
    by (auto simp: read_ok_def)
  have le: "next_sequence r \<le> length (log_stream h)"
    using arg_cong [OF rest, of length] nxt poll.prems(3) by simp
  have "drop (next_sequence r) (log_stream h) = rest"
    using arg_cong [OF rest, of "drop (length ?u)"] nxt by (simp add: add.commute)
  with poll.IH [OF poll.prems(1,2) le] rest nxt le show ?case
    by auto
qed simp

lemma read_progress:
  assumes "journal_of enc h j" and "codec_ok enc dec" and "0 < limit" and "limit \<le> u64_max"
    and "after < length (log_stream h)" and "read_now dec None eof_error j after limit = Inr r"
  shows "after < next_sequence r"
proof (rule ccontr)
  assume stuck: "\<not> after < next_sequence r"
  from read_now_ok [OF assms(1,2,4), of after eof_error] assms(5,6)
  have r: "read_ok after limit 0 (drop after (log_stream h)) (events r)"
      "next_sequence r = after + length (concat (map ev_units (events r)))" by auto
  then have "concat (map ev_units (events r)) = []" using stuck by simp
  moreover from this have "events r = []" by (cases "events r") (auto simp: ev_units_def)
  ultimately show False
    using r assms(3,5) by (auto simp: read_ok_def returned_bytes_def)
qed

section \<open>Operations refine the abstract log\<close>

record abstract_log =
  log_events :: "logged list"
  log_state :: execution_state
  log_exit_code :: "int option"
  log_closed :: bool

datatype journal_op =
    OpStarted nat
  | OpOutput nat output_stream string
  | OpExited nat int execution_state
  | OpClose nat
  | OpFinishExited nat int execution_state
  | OpFailed nat string

definition log_empty :: abstract_log where
  "log_empty = \<lparr>log_events = [], log_state = StStarting, log_exit_code = None, log_closed = False\<rparr>"

definition log_push :: "abstract_log \<Rightarrow> nat \<Rightarrow> process_event_kind \<Rightarrow> abstract_log" where
  "log_push a ts k = a\<lparr>log_events := log_events a @ [(ts, k)]\<rparr>"

definition log_exited :: "abstract_log \<Rightarrow> nat \<Rightarrow> int \<Rightarrow> execution_state \<Rightarrow> abstract_log" where
  "log_exited a ts c st =
     (if is_terminal (log_state a) then a
      else log_push (a\<lparr>log_state := st, log_exit_code := Some c\<rparr>) ts (Exited c))"

definition log_close :: "abstract_log \<Rightarrow> nat \<Rightarrow> abstract_log" where
  "log_close a ts = (if log_closed a then a else (log_push a ts Closed)\<lparr>log_closed := True\<rparr>)"

fun log_step :: "abstract_log \<Rightarrow> journal_op \<Rightarrow> abstract_log" where
  "log_step a (OpStarted ts) = log_push (a\<lparr>log_state := StRunning\<rparr>) ts Started"
| "log_step a (OpOutput ts s d) = (if log_closed a then a else log_push a ts (Output s d))"
| "log_step a (OpExited ts c st) = log_exited a ts c st"
| "log_step a (OpClose ts) = log_close a ts"
| "log_step a (OpFinishExited ts c st) = log_close (log_exited a ts c st) ts"
| "log_step a (OpFailed ts msg) =
     (if log_closed a then a
      else (log_push (log_push (a\<lparr>log_state := StFailed\<rparr>) ts (Failed msg)) ts Closed)\<lparr>log_closed := True\<rparr>)"

fun journal_apply :: "event_encoder \<Rightarrow> journal_op \<Rightarrow> journal \<Rightarrow> unit exec_result \<times> journal" where
  "journal_apply enc (OpStarted ts) j =
     (case mark_started enc AppendOk ts j of (r, j') \<Rightarrow> (rbind r (\<lambda>_. Inr ()), j'))"
| "journal_apply enc (OpOutput ts s d) j = append_output enc AppendOk ts s d j"
| "journal_apply enc (OpExited ts c st) j = mark_exited enc AppendOk ts c st j"
| "journal_apply enc (OpClose ts) j = close_journal enc AppendOk ts j"
| "journal_apply enc (OpFinishExited ts c st) j = finish_exited enc AppendOk AppendOk ts c st j"
| "journal_apply enc (OpFailed ts msg) j = finish_failed enc AppendOk AppendOk ts msg j"

inductive journal_run :: "event_encoder \<Rightarrow> journal_op list \<Rightarrow> journal \<Rightarrow> bool" for enc where
  created: "journal_run enc [] journal_create"
| operated: "journal_run enc ops j \<Longrightarrow> journal_apply enc op j = (Inr (), j') \<Longrightarrow> journal_run enc (ops @ [op]) j'"

definition log_refines :: "event_encoder \<Rightarrow> abstract_log \<Rightarrow> journal \<Rightarrow> bool" where
  "log_refines enc a j \<longleftrightarrow> journal_of enc (log_events a) j \<and> j_state j = log_state a \<and>
     j_exit_code j = log_exit_code a \<and> j_closed j = log_closed a"

text \<open>Counters that have not saturated.\<close>

definition unsaturated :: "journal \<Rightarrow> bool" where
  "unsaturated j \<longleftrightarrow> j_next_sequence j < u64_max \<and> j_file_length j < u64_max"

lemma sat_add_less: "sat_add a b < u64_max \<Longrightarrow> sat_add a b = a + b \<and> a + b < u64_max"
  by (auto simp: sat_add_def min_def split: if_splits)

lemma unsaturated_frame [simp]:
  "unsaturated (j\<lparr>j_state := s\<rparr>) = unsaturated j"
  "unsaturated (j\<lparr>j_exit_code := c\<rparr>) = unsaturated j"
  "unsaturated (j\<lparr>j_started_at := t\<rparr>) = unsaturated j"
  "unsaturated (close_finished now j) = unsaturated j"
  by (simp_all add: unsaturated_def close_finished_def)

lemma journal_of_frame [simp]:
  "journal_of enc h (j\<lparr>j_state := s\<rparr>) = journal_of enc h j"
  "journal_of enc h (j\<lparr>j_exit_code := c\<rparr>) = journal_of enc h j"
  "journal_of enc h (j\<lparr>j_started_at := t\<rparr>) = journal_of enc h j"
  "journal_of enc h (close_finished now j) = journal_of enc h j"
  by (simp_all add: journal_of_def close_finished_def)

lemma append_locked_frame:
  assumes "append_locked enc io ts k j = (r, j')"
  shows "j_state j' = j_state j" "j_closed j' = j_closed j" "j_exit_code j' = j_exit_code j"
  using assms by (auto simp: append_locked_def Let_def split: sum.splits append_io.splits)

lemma append_locked_unsaturated:
  assumes "append_locked enc AppendOk ts k j = (Inr (), j')" and "unsaturated j'"
  shows "unsaturated j" and "\<exists>s. enc \<lparr>sequence = j_next_sequence j + span k - 1, timestamp = ts, event = k\<rparr> = Inr s
     \<and> append_fits j k s"
proof -
  obtain s where s: "enc \<lparr>sequence = sat_add (j_next_sequence j) (max (event_output_bytes k) 1 - 1),
        timestamp = ts, event = k\<rparr> = Inr s"
      and j': "j_next_sequence j' = sat_add (sat_add (j_next_sequence j) (max (event_output_bytes k) 1 - 1)) 1"
        "j_file_length j' = sat_add (sat_add (j_file_length j) (length s)) 1"
    using assms(1) by (auto simp: append_locked_def Let_def split: sum.splits)
  have sat: "sat_add (sat_add (j_next_sequence j) (max (event_output_bytes k) 1 - 1)) 1 < u64_max"
      "sat_add (sat_add (j_file_length j) (length s)) 1 < u64_max"
    using assms(2) j' by (simp_all only: unsaturated_def)
  then have "sat_add (j_next_sequence j) (max (event_output_bytes k) 1 - 1) < u64_max"
      "sat_add (j_file_length j) (length s) < u64_max"
    using sat_add_less [OF sat(1)] sat_add_less [OF sat(2)] by linarith+
  from sat_add_less [OF this(1)] sat_add_less [OF this(2)]
  have eq: "sat_add (j_next_sequence j) (max (event_output_bytes k) 1 - 1) = j_next_sequence j + span k - 1"
      "j_next_sequence j + span k - 1 < u64_max" "j_file_length j + length s < u64_max"
    unfolding span_def by linarith+
  show "unsaturated j" unfolding unsaturated_def using eq span_pos(2) [of k] by linarith
  have "append_fits j k s" unfolding append_fits_def using eq span_pos(2) [of k] by linarith
  with s eq(1) show "\<exists>s. enc \<lparr>sequence = j_next_sequence j + span k - 1, timestamp = ts, event = k\<rparr> = Inr s
     \<and> append_fits j k s" by auto
qed

lemma append_locked_log:
  assumes "append_locked enc AppendOk ts k j = (Inr (), j')" and "unsaturated j'"
    and "log_refines enc a j"
  shows "log_refines enc (log_push a ts k) j'"
  using append_locked_unsaturated(2) [OF assms(1,2)] append_locked_refines [of enc "log_events a" j k ts] assms
  by (auto simp: log_refines_def log_push_def)

lemmas op_defs = mark_started_def append_output_def mark_exited_def close_journal_def
  finish_exited_def finish_failed_def

lemma journal_apply_unsaturated:
  assumes "journal_apply enc op j = (Inr (), j')" and "unsaturated j'"
  shows "unsaturated j"
  using assms
  by (cases op)
     (auto simp: op_defs rbind_Inr_iff split: prod.splits sum.splits if_splits dest!: append_locked_unsaturated(1))


lemma log_refines_frame:
  "log_refines enc a j \<Longrightarrow> log_refines enc (a\<lparr>log_state := s\<rparr>) (j\<lparr>j_state := s\<rparr>)"
  "log_refines enc a j \<Longrightarrow> log_refines enc a (j\<lparr>j_started_at := t\<rparr>)"
  "log_refines enc a j \<Longrightarrow> log_refines enc (a\<lparr>log_exit_code := c\<rparr>) (j\<lparr>j_exit_code := c\<rparr>)"
  "log_refines enc a j \<Longrightarrow> log_refines enc (a\<lparr>log_closed := True\<rparr>) (close_finished now j)"
  by (simp_all add: log_refines_def close_finished_def journal_of_def)

lemma mark_exited_log:
  assumes "mark_exited enc AppendOk ts c st j = (Inr (), j')" and "unsaturated j'" and "log_refines enc a j"
  shows "log_refines enc (log_exited a ts c st) j'"
proof (cases "is_terminal (j_state j)")
  case False
  then have "append_locked enc AppendOk ts (Exited c) (j\<lparr>j_state := st, j_exit_code := Some c\<rparr>) = (Inr (), j')"
    using assms(1) by (simp add: mark_exited_def)
  from append_locked_log [OF this assms(2) log_refines_frame(3) [OF log_refines_frame(1) [OF assms(3)]]] False assms(3)
  show ?thesis by (simp add: log_exited_def log_refines_def)
qed (use assms in \<open>simp add: mark_exited_def log_exited_def log_refines_def\<close>)

lemma close_journal_log:
  assumes "close_journal enc AppendOk ts j = (Inr (), j')" and "unsaturated j'" and "log_refines enc a j"
  shows "log_refines enc (log_close a ts) j'"
proof (cases "j_closed j")
  case False
  then obtain j1 where "append_locked enc AppendOk ts Closed j = (Inr (), j1)" "j' = close_finished ts j1"
    using assms(1) by (auto simp: close_journal_def split: prod.splits sum.splits)
  with append_locked_log [of enc ts Closed j j1 a] assms(2,3) False log_refines_frame(4) show ?thesis
    by (simp add: log_close_def log_refines_def [of enc a j])
qed (use assms in \<open>simp add: close_journal_def log_close_def log_refines_def\<close>)

lemma finish_failed_log:
  assumes "finish_failed enc AppendOk AppendOk ts msg j = (Inr (), j')" and "unsaturated j'" and "log_refines enc a j"
  shows "log_refines enc (log_step a (OpFailed ts msg)) j'"
proof (cases "j_closed j")
  case False
  then obtain j1 j2 where j1: "append_locked enc AppendOk ts (Failed msg) (j\<lparr>j_state := StFailed\<rparr>) = (Inr (), j1)"
      and j2: "append_locked enc AppendOk ts Closed j1 = (Inr (), j2)" and j': "j' = close_finished ts j2"
    using assms(1) by (auto simp: finish_failed_def split: prod.splits sum.splits)
  have un: "unsaturated j2" using assms(2) j' by simp
  from append_locked_log [OF j1 append_locked_unsaturated(1) [OF j2 un] log_refines_frame(1) [OF assms(3)]]
  have "log_refines enc (log_push (a\<lparr>log_state := StFailed\<rparr>) ts (Failed msg)) j1" .
  from log_refines_frame(4) [OF append_locked_log [OF j2 un this]] False assms(3) j' show ?thesis
    by (simp add: log_refines_def [of enc a j])
qed (use assms in \<open>simp add: finish_failed_def log_refines_def\<close>)

lemma journal_apply_refines:
  assumes "journal_apply enc op j = (Inr (), j')" and "unsaturated j'" and "log_refines enc a j"
  shows "log_refines enc (log_step a op) j'"
proof (cases op)
  case (OpStarted ts)
  then have "append_locked enc AppendOk ts Started (j\<lparr>j_state := StRunning, j_started_at := Some ts\<rparr>) = (Inr (), j')"
    using assms(1) by (auto simp: mark_started_def split: prod.splits sum.splits)
  from append_locked_log [OF this assms(2) log_refines_frame(2) [OF log_refines_frame(1) [OF assms(3)]]]
  show ?thesis by (simp add: OpStarted)
next
  case (OpOutput ts s d)
  have "j_closed j = log_closed a" using assms(3) by (simp add: log_refines_def)
  with OpOutput assms append_locked_log show ?thesis
    by (auto simp: append_output_def split: if_splits)
next
  case (OpFinishExited ts c st)
  then obtain j1 where j1: "mark_exited enc AppendOk ts c st j = (Inr (), j1)"
      "close_journal enc AppendOk ts j1 = (Inr (), j')"
    using assms(1) by (auto simp: finish_exited_def split: prod.splits sum.splits)
  have "unsaturated j1" using journal_apply_unsaturated [of enc "OpClose ts" j1] j1(2) assms(2) by simp
  with mark_exited_log [OF j1(1)] close_journal_log [OF j1(2) assms(2)] assms(3) show ?thesis
    by (simp add: OpFinishExited)
qed (use assms mark_exited_log close_journal_log finish_failed_log in simp_all)

lemma journal_run_refines:
  "journal_run enc ops j \<Longrightarrow> unsaturated j \<Longrightarrow> log_refines enc (foldl log_step log_empty ops) j"
proof (induction rule: journal_run.induct)
  case created
  show ?case
    using journal_of_create [of enc] by (simp add: log_refines_def log_empty_def journal_create_def)
next
  case (operated ops j op j')
  then show ?case
    using journal_apply_refines [OF operated.hyps(2) operated.prems] journal_apply_unsaturated by simp
qed

text \<open>Nothing but a late \<open>Started\<close> or \<open>Exited\<close> can follow the one \<open>Closed\<close> event.\<close>

definition after_closed :: "logged list \<Rightarrow> logged list" where
  "after_closed h = tl (dropWhile (\<lambda>(_, k). k \<noteq> Closed) h)"

fun late_ok :: "logged \<Rightarrow> bool" where
  "late_ok (_, Started) = True"
| "late_ok (_, Exited _) = True"
| "late_ok _ = False"

definition log_ok :: "abstract_log \<Rightarrow> bool" where
  "log_ok a \<longleftrightarrow> (log_closed a \<longleftrightarrow> Closed \<in> snd ` set (log_events a)) \<and>
     list_all late_ok (after_closed (log_events a)) \<and>
     (\<forall>c. log_exit_code a = Some c \<longrightarrow> Exited c \<in> snd ` set (log_events a))"

lemma after_closed_snoc:
  "after_closed (h @ [x]) = (if Closed \<in> snd ` set h then after_closed h @ [x] else [])"
proof (induction h)
  case (Cons y h)
  then show ?case by (cases y) (auto simp: after_closed_def)
qed (cases x; auto simp: after_closed_def)

lemma log_push_ok:
  assumes "log_ok a" and "log_closed a \<longrightarrow> late_ok (ts, k)" and "k \<noteq> Closed"
  shows "log_ok (log_push a ts k)"
  using assms by (auto simp: log_ok_def log_push_def after_closed_snoc)

lemma log_close_ok: "log_ok a \<Longrightarrow> \<not> log_closed a \<Longrightarrow> log_ok ((log_push a ts Closed)\<lparr>log_closed := True\<rparr>)"
  by (auto simp: log_ok_def log_push_def after_closed_snoc)

lemma log_ok_state [simp]: "log_ok (a\<lparr>log_state := s\<rparr>) = log_ok a"
  by (simp add: log_ok_def)

lemma log_exited_ok: "log_ok a \<Longrightarrow> log_ok (log_exited a ts c st)"
  by (auto simp: log_exited_def log_ok_def log_push_def after_closed_snoc)

lemma log_push_closed [simp]: "log_closed (log_push a ts k) = log_closed a"
  by (simp add: log_push_def)

lemma log_step_ok: "log_ok a \<Longrightarrow> log_ok (log_step a op)"
proof (cases op)
  case (OpFailed ts msg)
  then show "log_ok a \<Longrightarrow> ?thesis"
    by (simp add: log_close_ok log_push_ok)
qed (auto simp: log_push_ok log_close_ok log_exited_ok log_close_def)

lemma log_run_ok: "log_ok (foldl log_step log_empty ops)"
proof (induction ops rule: rev_induct)
  case Nil
  show ?case by (simp add: log_ok_def log_empty_def after_closed_def)
qed (simp add: log_step_ok)

section \<open>Properties\<close>

text \<open>
  C16: refinement. Whatever sequence of successful operations a journal has gone through, as long
  as its 64-bit counters have not saturated it represents exactly the abstract log that the
  specification machine builds from the same operations: the file and the index hold the
  events of the log in order with contiguous sequence numbers and offsets, and state, exit
  code and closed flag agree.
\<close>

theorem journal_refines_log:
  assumes "journal_run enc ops j" and "unsaturated j"
  shows "log_refines enc (foldl log_step log_empty ops) j"
  using assms by (rule journal_run_refines)

definition sample_event :: process_event where
  "sample_event = \<lparr>sequence = 3, timestamp = 7, event = Output Stdout ''abc''\<rparr>"

definition sample_enc :: event_encoder where
  "sample_enc e = (if e = sample_event then Inr ''{abc}'' else Inl ''unsupported'')"

definition sample_dec :: event_decoder where
  "sample_dec s = Inr sample_event"

definition sample_journal :: journal where
  "sample_journal = \<lparr>j_file = ''{abc}'' @ [LF], j_next_sequence = 4,
     j_entries = [\<lparr>first_sequence = 1, last_sequence = 3, entry_offset = 0, entry_length = 5, output_bytes = 3\<rparr>],
     j_file_length = 6, j_state = StStarting, j_started_at = None, j_exit_code = None,
     j_finished_at = None, j_closed = False\<rparr>"

lemma sample_run: "journal_run sample_enc [OpOutput 7 Stdout ''abc''] sample_journal"
proof -
  have "journal_apply sample_enc (OpOutput 7 Stdout ''abc'') journal_create = (Inr (), sample_journal)"
    by (simp add: append_output_def append_locked_def journal_create_def sample_enc_def sample_event_def
        sample_journal_def sat_add_def u64_max_def)
  from journal_run.operated [OF journal_run.created this] show ?thesis by simp
qed

lemmas sample_read_simps = read_now_def sample_journal_def already_read_def read_record_def sample_dec_def
  sample_event_def trim_output_def slice_def sat_add_def u64_max_def vec_last_def Let_def

lemma sample_unsaturated: "unsaturated sample_journal"
  by (simp add: unsaturated_def sample_journal_def u64_max_def)

lemma sample_codec: "codec_ok sample_enc sample_dec"
  by (simp add: codec_ok_def sample_enc_def sample_dec_def)

lemma sample_journal_of: "journal_of sample_enc [(7, Output Stdout ''abc'')] sample_journal"
  using journal_run_refines [OF sample_run sample_unsaturated]
  by (simp add: log_refines_def log_empty_def log_push_def)

theorem journal_refines_log_witness:
  "log_refines sample_enc (foldl log_step log_empty [OpOutput 7 Stdout ''abc'']) sample_journal"
  using journal_refines_log [OF sample_run sample_unsaturated] .

text \<open>
  The life cycle of a journal. At any time the journal is closed exactly when its log holds
  a \<open>Closed\<close> event; nothing but a late \<open>Started\<close> or \<open>Exited\<close> follows that event, so no output,
  failure or second \<open>Closed\<close> is ever logged after it; and a recorded exit code is backed by
  an \<open>Exited\<close> event.
\<close>

theorem journal_closed_once:
  assumes "journal_run enc ops j" and "unsaturated j"
  shows "\<exists>h. journal_of enc h j \<and> (j_closed j \<longleftrightarrow> Closed \<in> snd ` set h) \<and>
     list_all late_ok (after_closed h) \<and> (\<forall>c. j_exit_code j = Some c \<longrightarrow> Exited c \<in> snd ` set h)"
proof -
  have "log_refines enc (foldl log_step log_empty ops) j" by (rule journal_run_refines [OF assms])
  with log_run_ok [of ops] show ?thesis
    by (auto simp: log_refines_def log_ok_def)
qed

theorem journal_closed_once_witness:
  "\<exists>h. journal_of sample_enc h sample_journal \<and> (j_closed sample_journal \<longleftrightarrow> Closed \<in> snd ` set h) \<and>
     list_all late_ok (after_closed h) \<and> (\<forall>c. j_exit_code sample_journal = Some c \<longrightarrow> Exited c \<in> snd ` set h)"
  using journal_closed_once [OF sample_run sample_unsaturated] .

text \<open>
  A read returns exactly what follows the cursor. For a cursor inside the log, \<open>read_now\<close>
  succeeds; its events, expanded to one unit per sequence number, are a prefix of the logged
  stream after the cursor, cut inside a record when necessary; they hold at most \<open>max_bytes\<close>
  bytes of output, and if anything is left out exactly \<open>max_bytes\<close>; every event carries the
  sequence number of its last unit and \<open>next_sequence\<close> is the position reached. The JSON
  decoder inverts the encoder (\<open>codec_ok\<close>).
\<close>

theorem read_now_returns_stream:
  assumes "journal_of enc h j" and "codec_ok enc dec" and "limit \<le> u64_max" and "after \<le> length (log_stream h)"
  shows "\<exists>r. read_now dec None eof_error j after limit = Inr r \<and>
     read_ok after limit 0 (drop after (log_stream h)) (events r) \<and>
     next_sequence r = after + length (concat (map ev_units (events r))) \<and>
     result_state r = j_state j \<and> result_exit_code r = j_exit_code j"
  using assms by (rule read_now_ok)

theorem read_now_returns_stream_witness:
  "\<exists>r. read_now sample_dec None (exec_error_new Io ''eof'') sample_journal 1 1 = Inr r \<and>
     read_ok 1 1 0 (drop 1 (log_stream [(7, Output Stdout ''abc'')])) (events r) \<and>
     next_sequence r = 1 + length (concat (map ev_units (events r))) \<and>
     result_state r = j_state sample_journal \<and> result_exit_code r = j_exit_code sample_journal"
  by (rule read_now_returns_stream [OF sample_journal_of sample_codec]) (simp_all add: u64_max_def)

text \<open>
  C17: resumable reading loses and repeats nothing. The events that a reader collects by any
  number of reads, each starting at the cursor the previous one returned and each with its own
  byte limit, are exactly the part of the logged stream between the first and the last cursor.
\<close>

theorem polls_reconstruct_stream:
  assumes "polls dec eof_error j after evs stop_at" and "journal_of enc h j" and "codec_ok enc dec"
    and "after \<le> length (log_stream h)"
  shows "stop_at \<le> length (log_stream h) \<and> after \<le> stop_at \<and>
     concat (map ev_units evs) = take (stop_at - after) (drop after (log_stream h))"
  using assms by (rule polls_ok)

theorem polls_reconstruct_stream_witness:
  "\<exists>evs stop_at. polls sample_dec (exec_error_new Io ''eof'') sample_journal 0 evs stop_at \<and> evs \<noteq> [] \<and>
     concat (map ev_units evs) = take (stop_at - 0) (drop 0 (log_stream [(7, Output Stdout ''abc'')]))"
proof -
  have r1: "read_now sample_dec None (exec_error_new Io ''eof'') sample_journal 0 2 = Inr \<lparr>events =
      [\<lparr>sequence = 2, timestamp = 7, event = Output Stdout ''ab''\<rparr>], next_sequence = 2,
      result_state = StStarting, result_exit_code = None\<rparr>" by (simp add: sample_read_simps)
  have r2: "read_now sample_dec None (exec_error_new Io ''eof'') sample_journal 2 9 = Inr \<lparr>events =
      [\<lparr>sequence = 3, timestamp = 7, event = Output Stdout ''c''\<rparr>], next_sequence = 3,
      result_state = StStarting, result_exit_code = None\<rparr>" by (simp add: sample_read_simps)
  have l: "(2::nat) \<le> u64_max" "(9::nat) \<le> u64_max" by (simp_all add: u64_max_def)
  note p2 = polls.poll [OF r2 l(2) polls.stop]
  have p: "polls sample_dec (exec_error_new Io ''eof'') sample_journal 0
      [\<lparr>sequence = 2, timestamp = 7, event = Output Stdout ''ab''\<rparr>,
       \<lparr>sequence = 3, timestamp = 7, event = Output Stdout ''c''\<rparr>] 3"
    using polls.poll [OF r1 l(1)] p2 by fastforce
  from polls_reconstruct_stream [OF p sample_journal_of sample_codec] p show ?thesis by fastforce
qed

text \<open>
  Reading makes progress. While the log holds anything after the cursor, a read with a
  positive byte limit moves the cursor, so a polling reader reaches the end of the log.
\<close>

theorem read_now_progress:
  assumes "journal_of enc h j" and "codec_ok enc dec" and "0 < limit" and "limit \<le> u64_max"
    and "after < length (log_stream h)" and "read_now dec None eof_error j after limit = Inr r"
  shows "after < next_sequence r"
  using assms by (rule read_progress)

theorem read_now_progress_witness:
  "1 < next_sequence \<lparr>events = [\<lparr>sequence = 2, timestamp = 7, event = Output Stdout ''b''\<rparr>], next_sequence = 2,
      result_state = StStarting, result_exit_code = None\<rparr>"
proof (rule read_now_progress [OF sample_journal_of sample_codec])
  show "read_now sample_dec None (exec_error_new Io ''eof'') sample_journal 1 1 = Inr \<lparr>events =
      [\<lparr>sequence = 2, timestamp = 7, event = Output Stdout ''b''\<rparr>], next_sequence = 2,
      result_state = StStarting, result_exit_code = None\<rparr>" by (simp add: sample_read_simps)
qed (simp_all add: u64_max_def)

text \<open>
  C39: a failed append breaks the offsets of a journal. When an append fails after \<open>n\<close> bytes reached the
  file, the recorded length of the file is not adjusted; the next record that is appended starts
  \<open>n\<close> bytes after the offset under which it is indexed, so the bytes that a read decodes for
  it begin with the rest of the failed record.
\<close>

theorem partial_append_misplaces_record:
  assumes "journal_of enc h j" and "enc \<lparr>sequence = sat_add (j_next_sequence j) (max (event_output_bytes k1) 1 - 1), timestamp = t1, event = k1\<rparr> = Inr s1"
    and "append_locked enc (AppendFails n e) t1 k1 j = (r1, j1)"
    and "append_locked enc AppendOk t2 k2 j1 = (Inr (), j2)"
  shows "\<exists>s2. j_file j2 = j_file j @ take n (s1 @ [LF]) @ s2 @ [LF] \<and>
     entry_offset (last (j_entries j2)) = length (j_file j) \<and> entry_length (last (j_entries j2)) = length s2 \<and>
     take (length s2) (drop (entry_offset (last (j_entries j2))) (j_file j2)) = take (length s2) (take n (s1 @ [LF]) @ s2)"
proof -
  from assms(2,3) have j1: "j1 = j\<lparr>j_file := j_file j @ take n (s1 @ [LF])\<rparr>" by (simp add: append_locked_def Let_def)
  from assms(1) have l: "j_file_length j = length (j_file j)" by (simp add: journal_of_def)
  from assms(4) j1 l show ?thesis by (auto simp: append_locked_def Let_def split: sum.splits)
qed

definition lettered_enc :: event_encoder where
  "lettered_enc e = Inr (if event e = Closed then ''c'' else ''oo'')"

theorem partial_append_misplaces_record_witness:
  "\<exists>j1 j2. append_locked lettered_enc (AppendFails 1 (exec_error_new Io ''full'')) 7 Started journal_create =
       (Inl (Fail (exec_error_new Io ''full'')), j1) \<and> append_locked lettered_enc AppendOk 8 Closed j1 = (Inr (), j2) \<and>
     take 1 (drop (entry_offset (last (j_entries j2))) (j_file j2)) = ''o''"
proof -
  let ?j1 = "snd (append_locked lettered_enc (AppendFails 1 (exec_error_new Io ''full'')) 7 Started journal_create)"
  let ?j2 = "snd (append_locked lettered_enc AppendOk 8 Closed ?j1)"
  have a: "append_locked lettered_enc (AppendFails 1 (exec_error_new Io ''full'')) 7 Started journal_create =
      (Inl (Fail (exec_error_new Io ''full'')), ?j1)" by (simp add: append_locked_def lettered_enc_def Let_def)
  have b: "append_locked lettered_enc AppendOk 8 Closed ?j1 = (Inr (), ?j2)" by (simp add: append_locked_def lettered_enc_def Let_def)
  have l: "entry_length (last (j_entries ?j2)) = 1" by (simp add: append_locked_def lettered_enc_def Let_def)
  have "take 1 (drop (entry_offset (last (j_entries ?j2))) (j_file ?j2)) = ''o''"
  proof -
    have e: "lettered_enc \<lparr>sequence = sat_add (j_next_sequence journal_create) (max (event_output_bytes Started) 1 - 1),
        timestamp = 7, event = Started\<rparr> = Inr ''oo''" by (simp add: lettered_enc_def)
    obtain s2 where "entry_length (last (j_entries ?j2)) = length s2"
        "take (length s2) (drop (entry_offset (last (j_entries ?j2))) (j_file ?j2)) = take (length s2) (take 1 (''oo'' @ [LF]) @ s2)"
      using partial_append_misplaces_record [OF journal_of_create [of lettered_enc] e a b] by blast
    with l have "length s2 = 1"
        "take (length s2) (drop (entry_offset (last (j_entries ?j2))) (j_file ?j2)) = take (length s2) (take 1 (''oo'' @ [LF]) @ s2)"
      by (simp_all only:)
    then show ?thesis by (simp only:) simp
  qed
  with a b show ?thesis by blast
qed

end
