(* ===== verification/Rust_Text.thy ===== *)
theory Rust_Text
  imports Prelude
begin

text \<open>
  What the tools use of Rust's \<open>str\<close>, with texts as byte strings: well-formed UTF-8, the lengths
  and boundaries of characters, the search for a substring, and the lossy conversion of bytes.
\<close>

section \<open>UTF-8\<close>

text \<open>\<open>String::from_utf8\<close> accepts exactly well-formed UTF-8.\<close>

definition byte_in :: "nat \<Rightarrow> nat \<Rightarrow> char \<Rightarrow> bool" where
  "byte_in lo hi c \<longleftrightarrow> lo \<le> of_char c \<and> of_char c \<le> hi"

fun utf8_valid :: "string \<Rightarrow> bool" where
  "utf8_valid [] = True"
| "utf8_valid (a # s) =
     (if byte_in 0 127 a then utf8_valid s
      else case s of
        [] \<Rightarrow> False
      | b # s1 \<Rightarrow>
        if byte_in 194 223 a then byte_in 128 191 b \<and> utf8_valid s1
        else case s1 of
          [] \<Rightarrow> False
        | c # s2 \<Rightarrow>
          if byte_in 224 239 a
          then (if a = CHR 0xE0 then byte_in 160 191 b
                else if a = CHR 0xED then byte_in 128 159 b else byte_in 128 191 b)
               \<and> byte_in 128 191 c \<and> utf8_valid s2
          else case s2 of
            [] \<Rightarrow> False
          | d # s3 \<Rightarrow>
              byte_in 240 244 a
              \<and> (if a = CHR 0xF0 then byte_in 144 191 b
                 else if a = CHR 0xF4 then byte_in 128 143 b else byte_in 128 191 b)
              \<and> byte_in 128 191 c \<and> byte_in 128 191 d \<and> utf8_valid s3)"

section \<open>Searching\<close>

text \<open>\<open>str::find\<close>: the byte offset of the first occurrence.\<close>

fun str_find :: "string \<Rightarrow> string \<Rightarrow> nat option" where
  "str_find old s =
     (if starts_with old s then Some 0
      else case s of [] \<Rightarrow> None | _ # s' \<Rightarrow> map_option Suc (str_find old s'))"

declare str_find.simps [simp del]

text \<open>The number of bytes of the character that a lead byte announces (\<open>char::len_utf8\<close>).\<close>

definition len_utf8 :: "char \<Rightarrow> nat" where
  "len_utf8 c = (if byte_in 0 127 c then 1 else if byte_in 128 223 c then 2 else if byte_in 224 239 c then 3 else 4)"

lemma str_find_Some:
  assumes "str_find old s = Some i"
  shows "i + length old \<le> length s" and "take i s @ old @ drop (i + length old) s = s"
proof -
  have "i + length old \<le> length s \<and> take i s @ old @ drop (i + length old) s = s"
    using assms
  proof (induction old s arbitrary: i rule: str_find.induct)
    case (1 old s)
    show ?case
    proof (cases "starts_with old s")
      case True
      with "1.prems" show ?thesis by (auto simp: str_find.simps [of old s] starts_with_iff)
    next
      case False
      with "1.prems" obtain a s' j where "s = a # s'" "str_find old s' = Some j" "i = Suc j"
        by (auto simp: str_find.simps [of old s] split: list.splits)
      with "1.IH" [OF False, of a s'] show ?thesis by auto
    qed
  qed
  then show "i + length old \<le> length s" "take i s @ old @ drop (i + length old) s = s" by blast+
qed

definition occurs_at :: "string \<Rightarrow> string \<Rightarrow> nat \<Rightarrow> bool" where
  "occurs_at old s i \<longleftrightarrow> i \<le> length s \<and> starts_with old (drop i s)"

lemma starts_with_prefix: "starts_with old s \<longleftrightarrow> take (length old) s = old"
  by (metis append_eq_conv_conj append_take_drop_id starts_with_iff)

lemma occurs_at_0 [simp]: "occurs_at old s 0 \<longleftrightarrow> starts_with old s"
  by (simp add: occurs_at_def)

lemma occurs_at_Suc [simp]: "occurs_at old (a # s) (Suc i) \<longleftrightarrow> occurs_at old s i"
  by (simp add: occurs_at_def)

lemma occurs_at_Nil_iff: "occurs_at old [] i \<longleftrightarrow> old = [] \<and> i = 0"
  by (auto simp: occurs_at_def starts_with_iff)

lemma str_find_Nil: "str_find old [] = (if old = [] then Some 0 else None)"
  by (simp add: str_find.simps starts_with_iff)

lemma str_find_Cons: "str_find old (a # s) = (if starts_with old (a # s) then Some 0 else map_option Suc (str_find old s))"
  by (simp add: str_find.simps [of old "a # s"])

lemma str_find_None_iff: "str_find old s = None \<longleftrightarrow> (\<forall>i. \<not> occurs_at old s i)"
proof (induction s)
  case (Cons a s)
  have "(\<forall>i. \<not> occurs_at old (a # s) i) \<longleftrightarrow> \<not> starts_with old (a # s) \<and> (\<forall>i. \<not> occurs_at old s i)"
    by (metis not0_implies_Suc occurs_at_0 occurs_at_Suc)
  with Cons show ?case by (auto simp: str_find_Cons)
qed (simp add: str_find_Nil occurs_at_Nil_iff)

lemma str_find_Some_iff: "str_find old s = Some i \<longleftrightarrow> occurs_at old s i \<and> (\<forall>j<i. \<not> occurs_at old s j)"
proof (induction s arbitrary: i)
  case (Cons a s)
  show ?case
    using Cons.IH by (cases i) (auto simp: str_find_Cons less_Suc_eq_0_disj)
qed (auto simp: str_find_Nil occurs_at_Nil_iff)

section \<open>Characters\<close>

definition continuation :: "char \<Rightarrow> bool" where
  "continuation c \<longleftrightarrow> byte_in 128 191 c"

lemma byte_in_mono: "byte_in a b c \<Longrightarrow> a' \<le> a \<Longrightarrow> b \<le> b' \<Longrightarrow> byte_in a' b' c"
  by (simp add: byte_in_def)

lemma byte_in_disjoint: "byte_in a b c \<Longrightarrow> b < a' \<Longrightarrow> \<not> byte_in a' b' c"
  by (simp add: byte_in_def)

lemma utf8_char_cases:
  assumes "utf8_valid (a # s)"
  obtains "len_utf8 a = 1" "utf8_valid s"
  | b s' where "len_utf8 a = 2" "s = b # s'" "continuation b" "utf8_valid s'"
  | b c s' where "len_utf8 a = 3" "s = b # c # s'" "continuation b" "continuation c" "utf8_valid s'"
  | b c d s' where "len_utf8 a = 4" "s = b # c # d # s'" "continuation b" "continuation c" "continuation d" "utf8_valid s'"
proof -
  consider (1) "byte_in 0 127 a" | (2) "\<not> byte_in 0 127 a" "byte_in 194 223 a"
    | (3) "\<not> byte_in 0 127 a" "\<not> byte_in 194 223 a" "byte_in 224 239 a"
    | (4) "\<not> byte_in 0 127 a" "\<not> byte_in 194 223 a" "\<not> byte_in 224 239 a" by blast
  then show ?thesis
  proof cases
    case 1
    with assms that(1) show ?thesis by (simp add: len_utf8_def)
  next
    case 2
    from 2(2) have "byte_in 128 223 a" by (rule byte_in_mono) auto
    with 2 assms that(2) show ?thesis by (cases s) (auto simp: len_utf8_def continuation_def)
  next
    case 3
    from 3(3) have "\<not> byte_in 128 223 a" by (auto simp: byte_in_def)
    moreover from 3 assms obtain b c s' where s: "s = b # c # s'" and u: "utf8_valid s'" and c: "continuation c"
        and b: "if a = CHR 0xE0 then byte_in 160 191 b else if a = CHR 0xED then byte_in 128 159 b else byte_in 128 191 b"
      by (auto simp: continuation_def split: list.splits)
    moreover from b have "continuation b" by (auto simp: continuation_def split: if_splits elim: byte_in_mono)
    ultimately show ?thesis using 3 that(3) by (simp add: len_utf8_def)
  next
    case 4
    from 4 assms obtain b c d s' where s: "s = b # c # d # s'" and u: "utf8_valid s'" and c: "continuation c" "continuation d"
        and a: "byte_in 240 244 a"
        and b: "if a = CHR 0xF0 then byte_in 144 191 b else if a = CHR 0xF4 then byte_in 128 143 b else byte_in 128 191 b"
      by (auto simp: continuation_def split: list.splits)
    moreover from b have "continuation b" by (auto simp: continuation_def split: if_splits elim: byte_in_mono)
    moreover from a have "\<not> byte_in 128 223 a" by (auto simp: byte_in_def)
    ultimately show ?thesis using 4 that(4) by (simp add: len_utf8_def)
  qed
qed

lemma utf8_lead:
  assumes "utf8_valid (c # s)"
  shows "\<not> continuation c"
proof
  assume "continuation c"
  then have "\<not> byte_in 0 127 c" "\<not> byte_in 194 223 c" "\<not> byte_in 224 239 c" "\<not> byte_in 240 244 c"
    by (auto simp: continuation_def byte_in_def)
  with assms show False by (simp split: list.splits)
qed

text \<open>A valid text cut before a lead byte leaves a valid text.\<close>

lemma utf8_valid_drop:
  assumes "utf8_valid (a @ b)" and "b \<noteq> []" and "\<not> continuation (hd b)"
  shows "utf8_valid b"
  using assms
proof (induction "length a" arbitrary: a rule: less_induct)
  case less
  show ?case
  proof (cases a)
    case (Cons x a')
    have v: "utf8_valid (x # a' @ b)" using less.prems Cons by simp
    from v show ?thesis
    proof (cases rule: utf8_char_cases)
      case 1
      then show ?thesis using less.hyps [of a'] less.prems Cons by simp
    next
      case (2 y s')
      then obtain a2 where "a' = y # a2" "s' = a2 @ b" using less.prems(2,3) by (cases a') auto
      then show ?thesis using less.hyps [of a2] less.prems Cons 2 by simp
    next
      case (3 y z s')
      then obtain a2 where "a' = y # z # a2" "s' = a2 @ b" using less.prems(2,3)
        by (cases a' rule: remdups_adj.cases) auto
      then show ?thesis using less.hyps [of a2] less.prems Cons 3 by simp
    next
      case (4 y z w s')
      then obtain a1 where "a' = y # z # a1" using less.prems(2,3)
        by (cases a' rule: remdups_adj.cases) auto
      with 4 less.prems(2,3) obtain a2 where "a' = y # z # w # a2" "s' = a2 @ b" by (cases a1) auto
      then show ?thesis using less.hyps [of a2] less.prems Cons 4 by simp
    qed
  qed (use less.prems in simp)
qed

lemma occurs_at_drop: "i \<le> j \<Longrightarrow> j \<le> length s \<Longrightarrow> occurs_at old (drop i s) (j - i) \<longleftrightarrow> occurs_at old s j"
  by (auto simp: occurs_at_def)

lemma occurs_at_hd:
  assumes "occurs_at old s j" and "old \<noteq> []"
  shows "\<exists>r. drop j s = hd old # r"
  using assms by (cases old) (auto simp: occurs_at_def starts_with_iff)

lemma inside_char:
  assumes "utf8_valid (c # s)" and "0 < k" and "k < len_utf8 c"
  shows "continuation ((c # s) ! k)"
  using assms(1)
proof (cases rule: utf8_char_cases)
  case (3 a b s')
  with assms show ?thesis by (auto simp: less_Suc_eq numeral_3_eq_3)
next
  case (4 a b d s')
  with assms show ?thesis by (auto simp: less_Suc_eq numeral_eq_Suc)
qed (use assms in \<open>auto simp: less_Suc_eq numeral_2_eq_2\<close>)

section \<open>Lossy conversion\<close>

text \<open>
  \<open>String::from_utf8_lossy\<close>: a lead byte is followed by as many continuation bytes as it needs, the
  first of them in a range that excludes overlong forms, surrogates and values beyond
  U+10FFFF. Where that fails, the bytes read so far become one replacement character.
\<close>

definition REPLACEMENT :: string where
  "REPLACEMENT = [CHR 0xEF, CHR 0xBF, CHR 0xBD]"

definition follow_bytes :: "char \<Rightarrow> nat" where
  "follow_bytes a =
     (if byte_in 194 223 a then 1 else if byte_in 224 239 a then 2 else if byte_in 240 244 a then 3 else 0)"

definition second_byte_ok :: "char \<Rightarrow> char \<Rightarrow> bool" where
  "second_byte_ok a b =
     (if a = CHR 0xE0 then byte_in 160 191 b
      else if a = CHR 0xED then byte_in 128 159 b
      else if a = CHR 0xF0 then byte_in 144 191 b
      else if a = CHR 0xF4 then byte_in 128 143 b
      else byte_in 128 191 b)"

fun continuations :: "nat \<Rightarrow> string \<Rightarrow> nat" where
  "continuations (Suc n) (b # s) = (if byte_in 128 191 b then Suc (continuations n s) else 0)"
| "continuations _ _ = 0"

definition matched_bytes :: "char \<Rightarrow> string \<Rightarrow> nat" where
  "matched_bytes a s = (case s of
     [] \<Rightarrow> 0
   | b # s' \<Rightarrow> if 0 < follow_bytes a \<and> second_byte_ok a b then Suc (continuations (follow_bytes a - 1) s') else 0)"

definition valid_head :: "char \<Rightarrow> string \<Rightarrow> bool" where
  "valid_head a s \<longleftrightarrow> byte_in 0 127 a \<or> (0 < follow_bytes a \<and> matched_bytes a s = follow_bytes a)"

function utf8_lossy :: "string \<Rightarrow> string" where
  "utf8_lossy [] = []"
| "utf8_lossy (a # s) =
     (if valid_head a s then a # take (matched_bytes a s) s else REPLACEMENT)
     @ utf8_lossy (drop (matched_bytes a s) s)"
  by pat_completeness auto
termination by (relation "measure length") auto

declare utf8_lossy.simps(2) [simp del]

lemma follow_bytes_ascii: "byte_in 0 127 a \<Longrightarrow> follow_bytes a = 0"
  by (auto simp: follow_bytes_def byte_in_def)

lemma matched_ascii: "byte_in 0 127 a \<Longrightarrow> matched_bytes a s = 0"
  by (simp add: matched_bytes_def follow_bytes_ascii split: list.splits)

lemma continuations_le: "continuations n s \<le> n" "continuations n s \<le> length s"
  by (induction n s rule: continuations.induct) auto

lemma matched_le: "matched_bytes a s \<le> length s"
  using continuations_le by (auto simp: matched_bytes_def split: list.splits)

lemma utf8_valid_Cons_iff:
  "utf8_valid (a # s) \<longleftrightarrow> valid_head a s \<and> utf8_valid (drop (matched_bytes a s) s)"
proof -
  consider (1) "byte_in 0 127 a" | (2) "\<not> byte_in 0 127 a" "byte_in 194 223 a"
    | (3) "\<not> byte_in 0 127 a" "\<not> byte_in 194 223 a" "byte_in 224 239 a"
    | (4) "\<not> byte_in 0 127 a" "\<not> byte_in 194 223 a" "\<not> byte_in 224 239 a" "byte_in 240 244 a"
    | (5) "\<not> byte_in 0 127 a" "\<not> byte_in 194 223 a" "\<not> byte_in 224 239 a" "\<not> byte_in 240 244 a" by blast
  then show ?thesis
  proof cases
    case 1
    then show ?thesis by (simp add: valid_head_def matched_ascii)
  next
    case 2
    then have "a \<noteq> CHR 0xE0" "a \<noteq> CHR 0xED" "a \<noteq> CHR 0xF0" "a \<noteq> CHR 0xF4" by (auto simp: byte_in_def)
    with 2 show ?thesis
      by (auto simp: valid_head_def matched_bytes_def follow_bytes_def second_byte_ok_def split: list.splits)
  next
    case 3
    then have f: "follow_bytes a = Suc (Suc 0)" by (simp add: follow_bytes_def)
    from 3 have n: "a \<noteq> CHR 0xF0" "a \<noteq> CHR 0xF4" by (auto simp: byte_in_def)
    show ?thesis
    proof (cases "\<exists>b c r. s = b # c # r")
      case True
      then obtain b c r where s: "s = b # c # r" by blast
      have "utf8_valid (a # s) \<longleftrightarrow> second_byte_ok a b \<and> byte_in 128 191 c \<and> utf8_valid r"
        using 3 n s by (simp add: second_byte_ok_def)
      moreover have "matched_bytes a s = (if second_byte_ok a b then if byte_in 128 191 c then 2 else 1 else 0)"
        using f s by (simp add: matched_bytes_def)
      ultimately show ?thesis using 3(1) f s by (auto simp: valid_head_def)
    next
      case False
      then have "length s < 2" by (cases s rule: remdups_adj.cases) (auto simp: neq_Nil_conv)
      with matched_le [of a s] f have "\<not> valid_head a s" using 3(1) by (auto simp: valid_head_def)
      moreover from False 3 have "\<not> utf8_valid (a # s)" by (cases s rule: remdups_adj.cases) simp_all
      ultimately show ?thesis by simp
    qed
  next
    case 4
    then have f: "follow_bytes a = Suc (Suc (Suc 0))" by (simp add: follow_bytes_def)
    from 4 have n: "a \<noteq> CHR 0xE0" "a \<noteq> CHR 0xED" by (auto simp: byte_in_def)
    show ?thesis
    proof (cases "\<exists>b c d r. s = b # c # d # r")
      case True
      then obtain b c d r where s: "s = b # c # d # r" by blast
      have "utf8_valid (a # s) \<longleftrightarrow> second_byte_ok a b \<and> byte_in 128 191 c \<and> byte_in 128 191 d \<and> utf8_valid r"
        using 4 n s by (simp add: second_byte_ok_def)
      moreover have "matched_bytes a s = (if second_byte_ok a b
          then if byte_in 128 191 c then if byte_in 128 191 d then 3 else 2 else 1 else 0)"
        using f s by (simp add: matched_bytes_def)
      ultimately show ?thesis using 4(1) f s by (auto simp: valid_head_def)
    next
      case False
      then have "length s < 3" by (cases s rule: remdups_adj.cases) (auto, metis list.exhaust)
      with matched_le [of a s] f have "\<not> valid_head a s" using 4(1) by (auto simp: valid_head_def)
      moreover from False 4 have "\<not> utf8_valid (a # s)"
        by (cases s rule: remdups_adj.cases) (simp_all split: list.split)
      ultimately show ?thesis by simp
    qed
  next
    case 5
    then have "\<not> valid_head a s" by (simp add: valid_head_def follow_bytes_def)
    moreover from 5 have "\<not> utf8_valid (a # s)"
      by (cases s rule: remdups_adj.cases) (simp_all add: list.case_eq_if)
    ultimately show ?thesis by simp
  qed
qed

lemma continuations_append: "n \<le> length s \<Longrightarrow> continuations n s = n \<Longrightarrow> continuations n (s @ t) = n"
  by (induction n s rule: continuations.induct) (auto split: if_splits)

lemma continuations_take: "continuations n s = n \<Longrightarrow> continuations n (take n s @ t) = n"
  by (induction n s rule: continuations.induct) (auto split: if_splits)

lemma matched_take:
  assumes "matched_bytes a s = follow_bytes a" and "0 < follow_bytes a"
  shows "matched_bytes a (take (follow_bytes a) s @ t) = follow_bytes a"
proof (cases s)
  case (Cons b s')
  with assms have "second_byte_ok a b" "continuations (follow_bytes a - 1) s' = follow_bytes a - 1"
    by (auto simp: matched_bytes_def split: if_splits)
  with Cons assms(2) continuations_take [of "follow_bytes a - 1" s' t] show ?thesis
    by (auto simp: matched_bytes_def take_Cons')
qed (use assms in \<open>simp add: matched_bytes_def\<close>)

lemma utf8_valid_head_append:
  assumes "valid_head a s" and "utf8_valid t"
  shows "utf8_valid (a # take (matched_bytes a s) s @ t)"
proof (cases "byte_in 0 127 a")
  case True
  with assms show ?thesis by (simp add: matched_ascii)
next
  case False
  with assms(1) have m: "matched_bytes a s = follow_bytes a" "0 < follow_bytes a" by (auto simp: valid_head_def)
  have "length (take (follow_bytes a) s) = follow_bytes a" using matched_le [of a s] m by simp
  with matched_take [OF m, of t] m assms show ?thesis by (subst utf8_valid_Cons_iff) (simp add: valid_head_def)
qed

lemma utf8_valid_replacement: "utf8_valid s \<Longrightarrow> utf8_valid (REPLACEMENT @ s)"
  by (simp add: REPLACEMENT_def byte_in_def)

lemma utf8_valid_append:
  assumes "utf8_valid s" and "utf8_valid t"
  shows "utf8_valid (s @ t)"
  using assms
proof (induction "length s" arbitrary: s rule: less_induct)
  case less
  show ?case
  proof (cases s)
    case (Cons a r)
    let ?k = "matched_bytes a r"
    from less.prems Cons have h: "valid_head a r" "utf8_valid (drop ?k r)" by (simp_all add: utf8_valid_Cons_iff del: utf8_valid.simps)
    have "utf8_valid (drop ?k r @ t)" using less h Cons by simp
    from utf8_valid_head_append [OF h(1) this] show ?thesis using Cons
      by (metis append.assoc append_Cons append_take_drop_id)
  qed (use less in simp)
qed

lemma utf8_valid_lossy: "utf8_valid (utf8_lossy s)"
proof (induction s rule: utf8_lossy.induct)
  case (2 a s)
  then show ?case
    using utf8_valid_head_append [OF _ 2] utf8_valid_replacement [OF 2] by (simp add: utf8_lossy.simps(2) del: utf8_valid.simps)
qed simp

lemma utf8_lossy_valid: "utf8_valid s \<Longrightarrow> utf8_lossy s = s"
proof (induction s rule: utf8_lossy.induct)
  case (2 a s)
  then have "valid_head a s" "utf8_valid (drop (matched_bytes a s) s)" by (simp_all add: utf8_valid_Cons_iff del: utf8_valid.simps)
  with 2 show ?case by (simp add: utf8_lossy.simps(2))
qed simp

end
