(* ===== verification/Exec_Runtime.thy ===== *)
theory Exec_Runtime
  imports Exec_Core Rust_Text
begin

text \<open>
  The interface between tools and hosts (\<open>execution-core/src/runtime.rs\<close> and the \<open>FileSystem\<close>
  trait): a record of state-passing operations over a host state \<open>'h\<close>, with the cancellation
  checkpoint of the caller's context. The effects are functions from a host state to a
  result and the next state; a failing operation may still have changed the state.
\<close>

section \<open>Effects\<close>

type_synonym ('h, 'a) io = "'h \<Rightarrow> 'a exec_result \<times> 'h"

definition io_lift :: "'a exec_result \<Rightarrow> ('h, 'a) io" where
  "io_lift r h = (r, h)"

definition io_bind :: "('h, 'a) io \<Rightarrow> ('a \<Rightarrow> ('h, 'b) io) \<Rightarrow> ('h, 'b) io" where
  "io_bind m f h = (case m h of (Inl e, h') \<Rightarrow> (Inl e, h') | (Inr x, h') \<Rightarrow> f x h')"

lemma io_bind_Inr_iff:
  "io_bind m f h = (Inr y, h') \<longleftrightarrow> (\<exists>x h1. m h = (Inr x, h1) \<and> f x h1 = (Inr y, h'))"
  by (auto simp: io_bind_def split: prod.splits sum.splits)

lemma io_bindE:
  assumes "io_bind m f h = (r, h')"
  obtains (failed) e where "m h = (Inl e, h')" "r = Inl e" | (bound) x h1 where "m h = (Inr x, h1)" "f x h1 = (r, h')"
  using assms by (auto simp: io_bind_def split: prod.splits sum.splits)

lemma io_lift_Inr_iff [simp]: "io_lift r h = (x, h') \<longleftrightarrow> r = x \<and> h' = h"
  by (auto simp: io_lift_def)

text \<open>Predicates on the host state that an effect keeps.\<close>

definition preserves :: "('h \<Rightarrow> bool) \<Rightarrow> ('h, 'a) io \<Rightarrow> bool" where
  "preserves P m \<longleftrightarrow> (\<forall>h r h'. P h \<longrightarrow> m h = (r, h') \<longrightarrow> P h')"

lemma preserves_bind [intro!]:
  "preserves P m \<Longrightarrow> (\<And>x. preserves P (f x)) \<Longrightarrow> preserves P (io_bind m f)"
  unfolding preserves_def by (metis io_bindE)

lemma preserves_lift [simp, intro!]: "preserves P (io_lift r)"
  by (simp add: preserves_def)

lemma preservesD: "preserves P m \<Longrightarrow> P h \<Longrightarrow> m h = (r, h') \<Longrightarrow> P h'"
  by (auto simp: preserves_def)

section \<open>The runtime\<close>

record 'h runtime =
  rt_descriptor :: host_descriptor
  rt_checkpoint :: "('h, unit) io"
  rt_stat :: "stat_request \<Rightarrow> ('h, file_metadata) io"
  rt_read :: "read_file_request \<Rightarrow> ('h, read_file_result) io"
  rt_write :: "write_file_request \<Rightarrow> ('h, write_file_result) io"
  rt_remove :: "remove_path_request \<Rightarrow> ('h, bool) io"
  rt_create_directory :: "create_directory_request \<Rightarrow> ('h, unit) io"
  rt_list :: "list_directory_request \<Rightarrow> ('h, list_directory_result) io"

section \<open>Contracts of a host\<close>

text \<open>
  The contract a host offers to the tools: \<open>files\<close> are the regular files it holds, \<open>used\<close>
  the operation identifiers it has seen and \<open>ok\<close> its own invariant. Reads and cancellation
  checkpoints change neither; a mutation under a fresh identifier has exactly the requested
  effect, and one under a known identifier has none.
\<close>

locale file_host =
  fixes rt :: "'h runtime"
    and files :: "'h \<Rightarrow> exec_path \<Rightarrow> string option"
    and used :: "'h \<Rightarrow> string set"
    and ok :: "'h \<Rightarrow> bool"
  assumes checkpoint_frame: "ok h \<Longrightarrow> rt_checkpoint rt h = (x, h') \<Longrightarrow>
        ok h' \<and> files h' = files h \<and> used h' = used h"
    and stat_frame: "ok h \<Longrightarrow> rt_stat rt q h = (y, h') \<Longrightarrow> ok h' \<and> files h' = files h \<and> used h' = used h"
    and read_frame: "ok h \<Longrightarrow> rt_read rt rq h = (z, h') \<Longrightarrow> ok h' \<and> files h' = files h \<and> used h' = used h"
    and stat_file: "ok h \<Longrightarrow> rt_stat rt q h = (Inr m, h') \<Longrightarrow> stat_follow_symlinks q \<Longrightarrow> kind m = File \<Longrightarrow>
        \<exists>c. files h (stat_path q) = Some c \<and> file_size m = length c"
    and read_contents: "ok h \<Longrightarrow> rt_read rt rq h = (Inr reply, h') \<Longrightarrow> read_follow_symlinks rq \<Longrightarrow>
        \<exists>c. files h (read_path rq) = Some c \<and> read_data reply = take (max_bytes rq) (drop (read_offset rq) c)"
    and write_effect: "ok h \<Longrightarrow> rt_write rt wq h = (Inr w, h') \<Longrightarrow> strategy wq = InPlace \<Longrightarrow>
        condition wq = AnyState \<Longrightarrow> write_operation_id wq \<notin> used h \<Longrightarrow>
        ok h' \<and> files h' = (files h)(write_path wq \<mapsto> write_data wq) \<and>
        used h' = insert (write_operation_id wq) (used h)"
    and remove_effect: "ok h \<Longrightarrow> rt_remove rt dq h = (Inr True, h') \<Longrightarrow> target_kind dq = FileTarget \<Longrightarrow>
        remove_operation_id dq \<notin> used h \<Longrightarrow>
        ok h' \<and> files h' = (files h)(remove_path dq := None) \<and>
        used h' = insert (remove_operation_id dq) (used h)"
    and write_replay: "ok h \<Longrightarrow> write_operation_id wq \<in> used h \<Longrightarrow> rt_write rt wq h = (v, h') \<Longrightarrow>
        ok h' \<and> files h' = files h \<and> used h' = used h"
    and remove_replay: "ok h \<Longrightarrow> remove_operation_id dq \<in> used h \<Longrightarrow> rt_remove rt dq h = (u, h') \<Longrightarrow>
        ok h' \<and> files h' = files h \<and> used h' = used h"

text \<open>
  A host that also reports the revision \<open>rev\<close> of the contents of a file, and replaces a file only
  when the condition of the request holds at that moment.
\<close>

locale revision_host = file_host +
  fixes rev :: "string \<Rightarrow> string"
  assumes stat_revision: "ok h \<Longrightarrow> rt_stat rt q h = (Inr m, h') \<Longrightarrow> stat_follow_symlinks q \<Longrightarrow> kind m = File \<Longrightarrow>
        files h (stat_path q) = Some c \<Longrightarrow> revision m = Some (rev c)"
    and read_revision: "ok h \<Longrightarrow> rt_read rt rq h = (Inr reply, h') \<Longrightarrow> read_follow_symlinks rq \<Longrightarrow>
        files h (read_path rq) = Some c \<Longrightarrow> revision (metadata reply) = Some (rev c)"
    and replace_effect: "ok h \<Longrightarrow> rt_write rt wq h = (Inr w, h') \<Longrightarrow> strategy wq = AtomicReplace \<Longrightarrow>
        write_follow_symlinks wq \<Longrightarrow> write_operation_id wq \<notin> used h \<Longrightarrow>
        ok h' \<and> files h' = (files h)(write_path wq \<mapsto> write_data wq) \<and>
        used h' = insert (write_operation_id wq) (used h) \<and> written_revision w = rev (write_data wq)"
    and replace_condition: "ok h \<Longrightarrow> rt_write rt wq h = (Inr w, h') \<Longrightarrow> strategy wq = AtomicReplace \<Longrightarrow>
        write_follow_symlinks wq \<Longrightarrow> write_operation_id wq \<notin> used h \<Longrightarrow>
        (case condition wq of AnyState \<Rightarrow> True | MustNotExist \<Rightarrow> files h (write_path wq) = None
         | MatchRevision r \<Rightarrow> \<exists>c. files h (write_path wq) = Some c \<and> rev c = r)"

end
