(* ===== verification/Process_Runtime.thy ===== *)
theory Process_Runtime
  imports Exec_Runtime Journal "HOL-Library.Sublist"
begin

text \<open>
  The process half of the interface between tools and hosts (the \<open>ProcessRuntime\<close> trait of
  \<open>execution/packages/execution-core/src/process.rs\<close>): a record of state-passing operations, and the
  contract that tools rely on, stated over the log of events of an execution.
\<close>

section \<open>The runtime\<close>

record 'h process_runtime =
  pr_descriptor :: host_descriptor
  pr_checkpoint :: "('h, unit) io"
  pr_start :: "start_execution_request \<Rightarrow> ('h, execution_handle) io"
  pr_read :: "read_execution_request \<Rightarrow> ('h, read_execution_result) io"
  pr_write :: "write_input_request \<Rightarrow> ('h, input_status) io"
  pr_resize :: "resize_pty_request \<Rightarrow> ('h, unit) io"
  pr_signal :: "signal_request \<Rightarrow> ('h, unit) io"
  pr_terminate :: "terminate_request \<Rightarrow> ('h, bool) io"

section \<open>What a log holds\<close>

fun unit_bytes :: "log_unit \<Rightarrow> string" where
  "unit_bytes (UByte _ _ c) = [c]"
| "unit_bytes (UEvent _ _) = []"

definition stream_bytes :: "log_unit list \<Rightarrow> string" where
  "stream_bytes us = concat (map unit_bytes us)"

fun unit_failure :: "string option \<Rightarrow> log_unit \<Rightarrow> string option" where
  "unit_failure m (UEvent _ (Failed m')) = Some m'"
| "unit_failure m _ = m"

definition stream_failure :: "log_unit list \<Rightarrow> string option" where
  "stream_failure us = foldl unit_failure None us"

lemma stream_bytes_simps [simp]:
  "stream_bytes [] = []" "stream_bytes (u # us) = unit_bytes u @ stream_bytes us"
  "stream_bytes (us @ vs) = stream_bytes us @ stream_bytes vs"
  by (simp_all add: stream_bytes_def)

lemma stream_bytes_UByte [simp]: "stream_bytes (map (UByte ts s) d) = d"
  by (induction d) simp_all

lemma foldl_unit_failure_UByte [simp]: "foldl unit_failure m (map (UByte ts s) d) = m"
  by (induction d) simp_all

text \<open>A unit that may follow the end of a log.\<close>

fun late_unit :: "log_unit \<Rightarrow> bool" where
  "late_unit (UEvent _ Started) = True"
| "late_unit (UEvent _ (Exited _)) = True"
| "late_unit _ = False"

lemma late_units:
  assumes "list_all late_unit us"
  shows "stream_bytes us = []" and "foldl unit_failure m us = m"
proof -
  have "unit_bytes u = [] \<and> unit_failure m u = m" if "late_unit u" for u m
    using that by (cases u rule: late_unit.cases) auto
  with assms show "stream_bytes us = []" and "foldl unit_failure m us = m"
    by (induction us) (auto simp: stream_bytes_def)
qed

lemma late_ok_units: "late_ok x \<Longrightarrow> list_all late_unit (units x)"
  by (cases x rule: late_ok.cases) auto

lemma late_log: "list_all late_ok h \<Longrightarrow> list_all late_unit (log_stream h)"
  by (induction h) (auto simp: late_ok_units)

lemma closed_not_unit: "k \<noteq> Closed \<Longrightarrow> UEvent ts' Closed \<notin> set (units (ts, k))"
  by (cases k) auto

lemma after_closed_units:
  assumes "log_stream h = us @ rest" and "UEvent ts Closed \<in> set us" and "list_all late_ok (after_closed h)"
  shows "list_all late_unit rest"
  using assms
proof (induction h arbitrary: us)
  case (Cons x h)
  obtain t k where x: "x = (t, k)" by force
  show ?case
  proof (cases "k = Closed")
    case True
    with Cons.prems x have "list_all late_unit (log_stream h)" by (simp add: after_closed_def late_log)
    moreover from True Cons.prems(1,2) x obtain us' where "log_stream h = us' @ rest" by (cases us) auto
    ultimately show ?thesis by simp
  next
    case False
    with x Cons.prems(3) have l: "list_all late_ok (after_closed h)" by (simp add: after_closed_def)
    from Cons.prems(1) obtain vs where "units x @ vs = us \<and> log_stream h = vs @ rest \<or> units x = us @ vs \<and> vs @ log_stream h = rest"
      by (auto simp: append_eq_append_conv2)
    then show ?thesis
    proof (elim disjE conjE)
      assume a: "units x @ vs = us" "log_stream h = vs @ rest"
      with closed_not_unit [OF False] Cons.prems(2) x have "UEvent ts Closed \<in> set vs" by auto
      with a l show ?thesis by (intro Cons.IH)
    next
      assume "units x = us @ vs"
      with closed_not_unit [OF False, of ts t] Cons.prems(2) x show ?thesis by auto
    qed
  qed
qed simp

lemma log_stream_prefix: "prefix l l' \<Longrightarrow> prefix (log_stream l) (log_stream l')"
  by (auto simp: prefix_def)

section \<open>The contract of a host\<close>

text \<open>
  \<open>log h i\<close> is the log of the execution \<open>i\<close> and \<open>ok\<close> the invariant of the host. A read answers from a log
  that lies between the logs before and after it. \<open>prompt\<close> executions report a terminal
  state only when their log is \<open>final\<close>, that is, when it will not change any more; \<open>status\<close> is the
  state and the exit code of an execution.
\<close>

locale process_host =
  fixes pr :: "'h process_runtime"
    and log :: "'h \<Rightarrow> string \<Rightarrow> logged list"
    and ok :: "'h \<Rightarrow> bool"
    and prompt :: "'h \<Rightarrow> string \<Rightarrow> bool"
    and final :: "'h \<Rightarrow> string \<Rightarrow> bool"
    and status :: "'h \<Rightarrow> string \<Rightarrow> execution_state \<times> int option"
  assumes checkpoint_frame: "ok h \<Longrightarrow> pr_checkpoint pr h = (x, h') \<Longrightarrow> ok h' \<and> log h' = log h \<and> prompt h' = prompt h \<and> final h' = final h \<and> status h' = status h"
    and read_grows: "ok h \<Longrightarrow> pr_read pr q h = (y, h') \<Longrightarrow> ok h' \<and> prefix (log h i) (log h' i) \<and> prompt h' = prompt h \<and>
        (final h i \<longrightarrow> final h' i \<and> log h' i = log h i \<and> status h' i = status h i)"
    and read_events: "ok h \<Longrightarrow> pr_read pr q h = (Inr r, h') \<Longrightarrow>
        after_sequence q \<le> length (log_stream (log h (read_execution_id q))) \<Longrightarrow> read_max_bytes q \<le> u64_max \<Longrightarrow>
        \<exists>l. prefix (log h (read_execution_id q)) l \<and> prefix l (log h' (read_execution_id q)) \<and>
          read_ok (after_sequence q) (read_max_bytes q) 0 (drop (after_sequence q) (log_stream l)) (events r) \<and>
          next_sequence r = after_sequence q + length (concat (map ev_units (events r))) \<and>
          (prompt h (read_execution_id q) \<longrightarrow> is_terminal (result_state r) \<longrightarrow>
             final h' (read_execution_id q) \<and> l = log h' (read_execution_id q) \<and>
             status h' (read_execution_id q) = (result_state r, result_exit_code r))"
    and log_late: "ok h \<Longrightarrow> list_all late_ok (after_closed (log h i))"

text \<open>
  A host on which an execution \<open>ends\<close>: \<open>left\<close> counts down to its end, and from then on a
  waiting read makes progress or reports a terminal state.
\<close>

locale ending_host = process_host +
  fixes ends :: "'h \<Rightarrow> string \<Rightarrow> bool"
    and left :: "'h \<Rightarrow> string \<Rightarrow> nat"
  assumes checkpoint_ends: "ok h \<Longrightarrow> pr_checkpoint pr h = (x, h') \<Longrightarrow> ends h' = ends h \<and> left h' = left h"
    and read_ends: "ok h \<Longrightarrow> ends h (read_execution_id q) \<Longrightarrow> pr_read pr q h = (Inr r, h') \<Longrightarrow> wait_ms q \<noteq> None \<Longrightarrow>
        ends h' (read_execution_id q) \<and>
        (left h' (read_execution_id q) < left h (read_execution_id q) \<or>
         left h' (read_execution_id q) = left h (read_execution_id q) \<and>
         log h' (read_execution_id q) = log h (read_execution_id q) \<and> (events r \<noteq> [] \<or> is_terminal (result_state r)))"

end
