(* ===== verification/Output_Buffers.thy ===== *)
theory Output_Buffers
  imports Exec_Runtime "HOL-Library.Sublist"
begin

text \<open>
  The bounded buffers in which the shell tools collect the output of a process:
  the retained tail of \<open>bash-minimal\<close> (\<open>platform/packages/tools/bash-minimal/src/output.rs\<close>), and the
  head and tail of \<open>unified-exec\<close> (\<open>unified-exec/src/buffer.rs\<close>) with the token budget of its
  rendered result (\<open>unified-exec/src/output.rs\<close>). Output arrives in chunks of any size; the
  lemmas describe the contents of a buffer by the whole stream, however it was cut.
\<close>

section \<open>The retained tail\<close>

record tail_buffer =
  tb_bytes :: string
  tb_max_bytes :: nat
  tb_max_lines :: nat
  tb_total_bytes :: nat
  tb_truncated :: bool

definition tail_new :: "nat \<Rightarrow> nat \<Rightarrow> tail_buffer" where
  "tail_new byte_limit line_limit = \<lparr>tb_bytes = [], tb_max_bytes = byte_limit, tb_max_lines = line_limit,
     tb_total_bytes = 0, tb_truncated = False\<rparr>"

text \<open>
  The loop over \<open>bytes.iter().enumerate().rev()\<close>, on the reversed bytes: the index of a byte is the
  number of bytes that are still to come.
\<close>

fun line_start :: "nat \<Rightarrow> nat \<Rightarrow> string \<Rightarrow> nat" where
  "line_start line_limit seen [] = 0"
| "line_start line_limit seen (b # r) =
     (if b = LF
      then if line_limit < seen + 1 then length r + 1 else line_start line_limit (seen + 1) r
      else line_start line_limit seen r)"

definition open_line :: "string \<Rightarrow> nat" where
  "open_line s = (if s \<noteq> [] \<and> \<not> ends_with [LF] s then 1 else 0)"

definition tail_push :: "string \<Rightarrow> tail_buffer \<Rightarrow> tail_buffer" where
  "tail_push incoming t =
     (let previous = tb_bytes t;
          keep_incoming = min (length incoming) (tb_max_bytes t);
          keep_previous = min (length previous) (tb_max_bytes t - keep_incoming);
          bytes = drop (length previous - keep_previous) previous @ drop (length incoming - keep_incoming) incoming;
          first = line_start (tb_max_lines t) (open_line bytes) (rev bytes)
      in t\<lparr>tb_bytes := drop first bytes,
           tb_total_bytes := sat_add (tb_total_bytes t) (length incoming),
           tb_truncated := tb_truncated t \<or> keep_incoming < length incoming \<or> keep_previous < length previous \<or> 0 < first\<rparr>)"

definition tail_text :: "tail_buffer \<Rightarrow> string" where
  "tail_text t = utf8_lossy (if tb_truncated t then dropWhile continuation (tb_bytes t) else tb_bytes t)"

definition tail_pushes :: "tail_buffer \<Rightarrow> string list \<Rightarrow> tail_buffer" where
  "tail_pushes t chunks = foldl (\<lambda>t chunk. tail_push chunk t) t chunks"

subsection \<open>The longest suffix within the limits\<close>

definition line_count :: "string \<Rightarrow> nat" where
  "line_count s = length (filter ((=) LF) s) + open_line s"

definition tail_fits :: "nat \<Rightarrow> nat \<Rightarrow> string \<Rightarrow> bool" where
  "tail_fits byte_limit line_limit s \<longleftrightarrow> length s \<le> byte_limit \<and> line_count s \<le> line_limit"

definition retained :: "nat \<Rightarrow> nat \<Rightarrow> string \<Rightarrow> string \<Rightarrow> bool" where
  "retained byte_limit line_limit s t \<longleftrightarrow> suffix t s \<and> tail_fits byte_limit line_limit t \<and>
     (\<forall>t'. suffix t' s \<longrightarrow> tail_fits byte_limit line_limit t' \<longrightarrow> length t' \<le> length t)"

definition tail_keep :: "nat \<Rightarrow> nat \<Rightarrow> string \<Rightarrow> string" where
  "tail_keep byte_limit line_limit s =
     (let y = drop (length s - byte_limit) s in drop (line_start line_limit (open_line y) (rev y)) y)"

lemma open_line_Nil [simp]: "open_line [] = 0"
  by (simp add: open_line_def)

lemma open_line_le: "open_line s \<le> 1"
  by (simp add: open_line_def)

lemma open_line_append: "t \<noteq> [] \<Longrightarrow> open_line (s @ t) = open_line t"
  by (cases t rule: rev_cases) (auto simp: open_line_def ends_with_iff)

lemma line_start_cases:
  assumes "seen \<le> line_limit"
  shows "line_start line_limit seen (rev s) = 0 \<and> seen + length (filter ((=) LF) s) \<le> line_limit \<or>
     (\<exists>a b. s = a @ LF # b \<and> line_start line_limit seen (rev s) = length a + 1 \<and>
        seen + length (filter ((=) LF) b) = line_limit)"
  using assms
proof (induction s arbitrary: seen rule: rev_induct)
  case (snoc x s)
  show ?case
  proof (cases "x = LF")
    case True
    show ?thesis
    proof (cases "line_limit < seen + 1")
      case True
      with \<open>x = LF\<close> snoc.prems have "line_start line_limit seen (rev (s @ [x])) = length s + 1" "seen = line_limit" by auto
      with \<open>x = LF\<close> show ?thesis by (intro disjI2 exI [of _ s] exI [of _ "[]"]) simp
    next
      case False
      then have "seen + 1 \<le> line_limit" by simp
      from snoc.IH [OF this] False \<open>x = LF\<close> show ?thesis by fastforce
    qed
  next
    case False
    with snoc.IH [OF snoc.prems] show ?thesis by fastforce
  qed
qed simp

lemma line_count_append: "line_count (s @ t) = (if t = [] then line_count s else length (filter ((=) LF) s) + line_count t)"
  by (simp add: line_count_def open_line_append)

lemma line_count_pos: "s \<noteq> [] \<Longrightarrow> 0 < line_count s"
  by (cases s rule: rev_cases) (auto simp: line_count_def open_line_def ends_with_iff)

lemma line_count_mono: "line_count s \<le> line_count (s @ t)"
proof (cases "t = []")
  case False
  have "line_count s \<le> length (filter ((=) LF) s) + 1" using open_line_le [of s] by (simp add: line_count_def)
  with line_count_pos [OF False] False show ?thesis by (simp add: line_count_append)
qed simp

lemma line_count_suffix:
  assumes "suffix t s"
  shows "line_count t \<le> line_count s"
proof (cases "t = []")
  case False
  from assms obtain z where "s = z @ t" by (auto simp: suffix_def)
  with False show ?thesis by (simp add: line_count_append)
qed (simp add: line_count_def)

lemma line_trim:
  assumes "0 < line_limit"
  shows "suffix (drop (line_start line_limit (open_line s) (rev s)) s) s"
    and "line_count (drop (line_start line_limit (open_line s) (rev s)) s) \<le> line_limit"
    and "suffix t s \<Longrightarrow> line_count t \<le> line_limit \<Longrightarrow> length t \<le> length (drop (line_start line_limit (open_line s) (rev s)) s)"
proof -
  have le: "open_line s \<le> line_limit" using open_line_le [of s] assms by linarith
  note cs = line_start_cases [OF le, of s]
  show "suffix (drop (line_start line_limit (open_line s) (rev s)) s) s" by (rule suffix_drop)
  have cut: "b \<noteq> [] \<and> line_count b = line_limit" if s: "s = a @ LF # b"
      and n: "open_line s + length (filter ((=) LF) b) = line_limit" for a b
  proof -
    have "b \<noteq> []" using n s assms by (cases "b = []") (auto simp: open_line_append, simp add: open_line_def ends_with_iff)
    then show ?thesis using n s open_line_append [of b "a @ [LF]"] by (simp add: line_count_def)
  qed
  show "line_count (drop (line_start line_limit (open_line s) (rev s)) s) \<le> line_limit"
    using cs cut by (auto simp: line_count_def)
  show "length t \<le> length (drop (line_start line_limit (open_line s) (rev s)) s)"
    if t: "suffix t s" "line_count t \<le> line_limit"
  proof (rule ccontr)
    assume long: "\<not> ?thesis"
    from t(1) have "length t \<le> length s" by (rule suffix_length_le)
    with long cs obtain a b where s: "s = a @ LF # b"
        and k: "line_start line_limit (open_line s) (rev s) = length a + 1"
        and n: "open_line s + length (filter ((=) LF) b) = line_limit" by auto
    from long s k have "length (LF # b) \<le> length t" by simp
    moreover have "suffix (LF # b) s" using s by (simp add: suffix_def)
    ultimately have "suffix (LF # b) t" using t(1) by (blast intro: suffix_length_suffix)
    then have "line_count (LF # b) \<le> line_limit" using line_count_suffix t(2) by (blast intro: order_trans)
    moreover have "line_count (LF # b) = Suc (line_count b)"
      using line_count_append [of "[LF]" b] cut [OF s n] by simp
    ultimately show False using cut [OF s n] by simp
  qed
qed

lemma tail_keep_retained:
  assumes "0 < line_limit"
  shows "retained byte_limit line_limit s (tail_keep byte_limit line_limit s)"
proof -
  let ?y = "drop (length s - byte_limit) s"
  note trim = line_trim [OF assms, where s = ?y]
  have y: "suffix ?y s" by (rule suffix_drop)
  have "suffix (tail_keep byte_limit line_limit s) s"
    unfolding tail_keep_def Let_def using trim(1) y by (blast intro: suffix_order.trans)
  moreover have "tail_fits byte_limit line_limit (tail_keep byte_limit line_limit s)"
    using trim(2) by (simp add: tail_fits_def tail_keep_def Let_def)
  moreover have "length t \<le> length (tail_keep byte_limit line_limit s)"
    if "suffix t s" "tail_fits byte_limit line_limit t" for t
  proof -
    have "length t \<le> length ?y" using that(2) suffix_length_le [OF that(1)] by (auto simp: tail_fits_def)
    then have "suffix t ?y" using that(1) y by (blast intro: suffix_length_suffix)
    with trim(3) that(2) show ?thesis by (simp add: tail_fits_def tail_keep_def Let_def)
  qed
  ultimately show ?thesis by (simp add: retained_def)
qed

lemma retained_append:
  assumes "retained byte_limit line_limit s t" and "retained byte_limit line_limit (t @ c) u"
  shows "retained byte_limit line_limit (s @ c) u"
proof -
  from assms(1) obtain z where s: "s = z @ t" by (auto simp: retained_def suffix_def)
  have "suffix u (s @ c)" using assms(2) s by (auto simp: retained_def suffix_def)
  moreover have "length v \<le> length u" if v: "suffix v (s @ c)" "tail_fits byte_limit line_limit v" for v
  proof -
    have "suffix v (t @ c)"
    proof (cases "length v \<le> length c")
      case True
      then have "suffix v c" using v(1) by (metis suffix_appendI suffix_length_suffix suffix_order.refl)
      then show ?thesis by (rule suffix_appendI)
    next
      case False
      then have "suffix c v" using v(1) by (metis nle_le suffix_appendI suffix_length_suffix suffix_order.refl)
      then obtain w where w: "v = w @ c" by (auto simp: suffix_def)
      with v(1) have ws: "suffix w s" by simp
      have "tail_fits byte_limit line_limit w"
        using v(2) w line_count_mono [of w c] by (simp add: tail_fits_def)
      with assms(1) ws have "length w \<le> length t" by (simp add: retained_def)
      then have "suffix w t" using ws s by (metis suffix_length_suffix suffixI)
      with w show ?thesis by simp
    qed
    with assms(2) v(2) show ?thesis by (simp add: retained_def)
  qed
  ultimately show ?thesis using assms(2) by (simp add: retained_def)
qed

lemma tail_push_bytes: "tb_bytes (tail_push c t) = tail_keep (tb_max_bytes t) (tb_max_lines t) (tb_bytes t @ c)"
proof -
  have "drop (length p - min (length p) (b - min (length c) b)) p @ drop (length c - min (length c) b) c
      = drop (length (p @ c) - b) (p @ c)" for p b
  proof (cases "length c \<le> b")
    case True
    then have "min (length c) b = length c" by simp
    moreover have "length p - min (length p) (b - length c) = length (p @ c) - b" using True by auto
    moreover have "length (p @ c) - b \<le> length p" using True by simp
    ultimately show ?thesis by simp
  next
    case False
    then show ?thesis by (simp add: min_def)
  qed
  then show ?thesis by (simp only: tail_push_def tail_keep_def Let_def) simp
qed

lemma line_start_le: "line_start line_limit seen r \<le> length r"
  by (induction line_limit seen r rule: line_start.induct) auto

lemma tail_push_truncated:
  "tb_truncated (tail_push c t) \<longleftrightarrow> tb_truncated t \<or> length (tb_bytes (tail_push c t)) < length (tb_bytes t) + length c"
proof -
  let ?p = "tb_bytes t" and ?b = "tb_max_bytes t"
  define ki where "ki = min (length c) ?b"
  define kp where "kp = min (length ?p) (?b - ki)"
  define bytes where "bytes = drop (length ?p - kp) ?p @ drop (length c - ki) c"
  define k where "k = line_start (tb_max_lines t) (open_line bytes) (rev bytes)"
  have len: "length bytes = kp + ki" "ki \<le> length c" "kp \<le> length ?p" by (auto simp: bytes_def ki_def kp_def)
  have "k \<le> length bytes" using line_start_le [of _ _ "rev bytes"] by (simp add: k_def)
  moreover have "tail_push c t = t\<lparr>tb_bytes := drop k bytes, tb_total_bytes := sat_add (tb_total_bytes t) (length c),
      tb_truncated := tb_truncated t \<or> ki < length c \<or> kp < length ?p \<or> 0 < k\<rparr>"
    by (simp only: tail_push_def Let_def ki_def kp_def bytes_def k_def)
  ultimately show ?thesis using len by auto
qed

lemma tail_push_frame [simp]:
  "tb_max_bytes (tail_push c t) = tb_max_bytes t" "tb_max_lines (tail_push c t) = tb_max_lines t"
  "tb_total_bytes (tail_push c t) = sat_add (tb_total_bytes t) (length c)"
  by (simp_all add: tail_push_def Let_def)

lemma retained_length: "retained b l s t \<Longrightarrow> length t \<le> length s"
  by (auto simp: retained_def intro: suffix_length_le)

lemma tail_pushes_retained:
  assumes "0 < line_limit"
  shows "retained byte_limit line_limit (concat chunks) (tb_bytes (tail_pushes (tail_new byte_limit line_limit) chunks)) \<and>
     (tb_truncated (tail_pushes (tail_new byte_limit line_limit) chunks) \<longleftrightarrow>
        length (tb_bytes (tail_pushes (tail_new byte_limit line_limit) chunks)) < length (concat chunks)) \<and>
     tb_total_bytes (tail_pushes (tail_new byte_limit line_limit) chunks) = min (length (concat chunks)) u64_max \<and>
     tb_max_bytes (tail_pushes (tail_new byte_limit line_limit) chunks) = byte_limit \<and>
     tb_max_lines (tail_pushes (tail_new byte_limit line_limit) chunks) = line_limit"
proof (induction chunks rule: rev_induct)
  case Nil
  then show ?case by (simp add: tail_pushes_def tail_new_def retained_def tail_fits_def line_count_def)
next
  case (snoc c chunks)
  let ?t = "tail_pushes (tail_new byte_limit line_limit) chunks"
  have step: "tail_pushes (tail_new byte_limit line_limit) (chunks @ [c]) = tail_push c ?t" by (simp add: tail_pushes_def)
  have u: "tb_bytes (tail_push c ?t) = tail_keep byte_limit line_limit (tb_bytes ?t @ c)"
    using snoc by (simp add: tail_push_bytes)
  have r: "retained byte_limit line_limit (tb_bytes ?t @ c) (tb_bytes (tail_push c ?t))"
    unfolding u by (rule tail_keep_retained [OF assms])
  from snoc retained_append [OF _ r] have "retained byte_limit line_limit (concat (chunks @ [c])) (tb_bytes (tail_push c ?t))"
    by simp
  moreover have "tb_truncated (tail_push c ?t) \<longleftrightarrow> length (tb_bytes (tail_push c ?t)) < length (concat (chunks @ [c]))"
    using snoc retained_length [OF r] retained_length [of byte_limit line_limit "concat chunks" "tb_bytes ?t"]
    by (auto simp: tail_push_truncated)
  ultimately show ?case using snoc unfolding step by (simp add: sat_add_def)
qed

lemma tail_text_suffix:
  assumes "utf8_valid s" and "suffix (tb_bytes t) s" and "tb_truncated t \<longleftrightarrow> length (tb_bytes t) < length s"
  shows "tail_text t = (if tb_truncated t then dropWhile continuation (tb_bytes t) else s)"
proof (cases "tb_truncated t")
  case True
  let ?d = "dropWhile continuation (tb_bytes t)"
  have "suffix ?d s" using assms(2) suffix_dropWhile by (blast intro: suffix_order.trans)
  then obtain z where z: "s = z @ ?d" by (auto simp: suffix_def)
  have "utf8_valid ?d"
  proof (cases "?d = []")
    case False
    then have "\<not> continuation (hd ?d)" by (rule hd_dropWhile)
    with utf8_valid_drop [of z ?d] assms(1) z False show ?thesis by metis
  next
    case True
    then show ?thesis unfolding True by simp
  qed
  with True show ?thesis by (simp add: tail_text_def utf8_lossy_valid)
next
  case False
  then have "tb_bytes t = s" using assms(2,3) by (metis suffix_length_le le_neq_implies_less suffix_def append_Nil length_append add_cancel_left_left length_0_conv)
  with False assms(1) show ?thesis by (simp add: tail_text_def utf8_lossy_valid)
qed

section \<open>Head and tail\<close>

record head_tail_buffer =
  ht_head :: string
  ht_tail :: string
  ht_max_bytes :: nat
  ht_omitted_bytes :: nat

definition head_tail_new :: "nat \<Rightarrow> head_tail_buffer" where
  "head_tail_new limit = \<lparr>ht_head = [], ht_tail = [], ht_max_bytes = limit, ht_omitted_bytes = 0\<rparr>"

definition head_budget :: "head_tail_buffer \<Rightarrow> nat" where
  "head_budget b = ht_max_bytes b div 2"

definition tail_budget :: "head_tail_buffer \<Rightarrow> nat" where
  "tail_budget b = ht_max_bytes b - head_budget b"

definition retained_bytes :: "head_tail_buffer \<Rightarrow> nat" where
  "retained_bytes b = sat_add (length (ht_head b)) (length (ht_tail b))"

definition buffer_total_bytes :: "head_tail_buffer \<Rightarrow> nat" where
  "buffer_total_bytes b = sat_add (retained_bytes b) (ht_omitted_bytes b)"

definition push_tail :: "string \<Rightarrow> head_tail_buffer \<Rightarrow> head_tail_buffer" where
  "push_tail input b =
     (let previous = ht_tail b;
          combined_len = sat_add (length previous) (length input);
          omitted = combined_len - tail_budget b;
          keep_previous = length previous - min omitted (length previous);
          skipped_input = omitted - length previous
      in b\<lparr>ht_omitted_bytes := sat_add (ht_omitted_bytes b) omitted,
           ht_tail := drop (length previous - keep_previous) previous @ drop (min skipped_input (length input)) input\<rparr>)"

definition buffer_push :: "string \<Rightarrow> head_tail_buffer \<Rightarrow> head_tail_buffer" where
  "buffer_push input b =
     (let head_remaining = head_budget b - length (ht_head b);
          head_len = min (length input) head_remaining;
          b1 = (if 0 < head_len then b\<lparr>ht_head := ht_head b @ take head_len input\<rparr> else b);
          rest = drop head_len input
      in if rest = [] then b1 else push_tail rest b1)"

definition omission_marker :: "nat \<Rightarrow> string" where
  "omission_marker n = ''... '' @ show_nat n @ '' bytes omitted ...''"

definition buffer_text :: "head_tail_buffer \<Rightarrow> string" where
  "buffer_text b = utf8_lossy (ht_head b
     @ (if 0 < ht_omitted_bytes b then [LF] @ omission_marker (ht_omitted_bytes b) @ [LF] else [])
     @ ht_tail b)"

definition buffer_pushes :: "head_tail_buffer \<Rightarrow> string list \<Rightarrow> head_tail_buffer" where
  "buffer_pushes b chunks = foldl (\<lambda>b chunk. buffer_push chunk b) b chunks"

subsection \<open>The buffer of a stream\<close>

definition last_bytes :: "nat \<Rightarrow> string \<Rightarrow> string" where
  "last_bytes n s = drop (length s - n) s"

definition buffer_of :: "nat \<Rightarrow> string \<Rightarrow> head_tail_buffer" where
  "buffer_of limit s =
     (let rest = drop (limit div 2) s; budget = limit - limit div 2
      in \<lparr>ht_head = take (limit div 2) s, ht_tail = last_bytes budget rest,
          ht_max_bytes = limit, ht_omitted_bytes = length rest - budget\<rparr>)"

lemma last_bytes_last: "last_bytes n (last_bytes n s @ t) = last_bytes n (s @ t)"
proof (cases "length s \<le> n")
  case False
  then have "length (last_bytes n s @ t) - n = length t" by (simp add: last_bytes_def)
  with False show ?thesis by (simp add: last_bytes_def add.commute)
qed (simp add: last_bytes_def)

lemma length_last_bytes [simp]: "length (last_bytes n s) = min n (length s)"
  by (simp add: last_bytes_def min_def)

lemma push_tail_eq:
  assumes "length (ht_tail b) + length input \<le> u64_max"
  shows "push_tail input b = b\<lparr>
     ht_tail := last_bytes (tail_budget b) (ht_tail b @ input),
     ht_omitted_bytes := sat_add (ht_omitted_bytes b) (length (ht_tail b @ input) - tail_budget b)\<rparr>"
proof -
  let ?p = "ht_tail b"
  define om where "om = length ?p + length input - tail_budget b"
  have "drop (length ?p - (length ?p - min om (length ?p))) ?p @ drop (min (om - length ?p) (length input)) input
      = drop om (?p @ input)"
    by (cases "om \<le> length ?p") (auto simp: min_def)
  with assms show ?thesis
    by (simp only: push_tail_def Let_def sat_add_exact last_bytes_def length_append flip: om_def) simp
qed

lemma buffer_push_of:
  assumes "length (s @ c) \<le> u64_max"
  shows "buffer_push c (buffer_of limit s) = buffer_of limit (s @ c)"
proof -
  let ?h = "limit div 2"
  let ?r = "drop ?h s" and ?b = "limit - limit div 2"
  define n where "n = min (length c) (?h - length s)"
  have n: "head_budget (buffer_of limit s) - length (ht_head (buffer_of limit s)) = ?h - length s"
    by (simp add: head_budget_def buffer_of_def Let_def min_def)
  have head: "take ?h (s @ c) = take ?h s @ take n c" by (simp add: n_def min_def)
  have rest: "drop ?h (s @ c) = ?r @ drop n c" by (simp add: n_def min_def)
  define b1 where "b1 = (buffer_of limit s)\<lparr>ht_head := take ?h (s @ c)\<rparr>"
  have b1: "(if 0 < n then (buffer_of limit s)\<lparr>ht_head := ht_head (buffer_of limit s) @ take n c\<rparr> else buffer_of limit s) = b1"
    using head by (auto simp: b1_def buffer_of_def Let_def)
  have push: "buffer_push c (buffer_of limit s) = (if drop n c = [] then b1 else push_tail (drop n c) b1)"
    unfolding buffer_push_def Let_def n unfolding n_def [symmetric] b1 ..
  show ?thesis
  proof (cases "drop n c = []")
    case True
    then have "buffer_push c (buffer_of limit s) = b1" by (simp add: push)
    moreover have "drop ?h (s @ c) = ?r" using rest True by simp
    ultimately show ?thesis by (simp only: b1_def buffer_of_def Let_def) simp
  next
    case False
    have tb: "tail_budget b1 = ?b" by (simp add: tail_budget_def head_budget_def b1_def buffer_of_def Let_def)
    have tl: "ht_tail b1 = last_bytes ?b ?r" by (simp add: b1_def buffer_of_def Let_def)
    have om: "ht_omitted_bytes b1 = length ?r - ?b" by (simp add: b1_def buffer_of_def Let_def)
    have "length (ht_tail b1) + length (drop n c) \<le> u64_max" using assms by (auto simp: tl)
    note eq = push_tail_eq [OF this]
    have om': "sat_add (ht_omitted_bytes b1) (length (ht_tail b1 @ drop n c) - ?b) = length (?r @ drop n c) - ?b"
      using assms by (subst sat_add_exact) (auto simp: om tl min_def)
    have "push_tail (drop n c) b1 =
        b1\<lparr>ht_tail := last_bytes ?b (?r @ drop n c), ht_omitted_bytes := length (?r @ drop n c) - ?b\<rparr>"
      unfolding eq tb om' by (simp only: tl last_bytes_last)
    also have "\<dots> = buffer_of limit (s @ c)" by (simp only: b1_def buffer_of_def Let_def rest) simp
    finally show ?thesis using False by (simp only: push if_False)
  qed
qed

lemma buffer_pushes_of:
  assumes "length (concat chunks) \<le> u64_max"
  shows "buffer_pushes (head_tail_new limit) chunks = buffer_of limit (concat chunks)"
  using assms
proof (induction chunks rule: rev_induct)
  case Nil
  show ?case by (simp add: buffer_pushes_def head_tail_new_def buffer_of_def last_bytes_def Let_def)
next
  case (snoc c chunks)
  then have "buffer_pushes (head_tail_new limit) chunks = buffer_of limit (concat chunks)" by simp
  then have "buffer_pushes (head_tail_new limit) (chunks @ [c]) = buffer_push c (buffer_of limit (concat chunks))"
    by (simp add: buffer_pushes_def)
  also have "\<dots> = buffer_of limit (concat (chunks @ [c]))" using buffer_push_of [of "concat chunks" c] snoc.prems by simp
  finally show ?case .
qed

lemma buffer_of_total:
  assumes "length s \<le> u64_max"
  shows "buffer_total_bytes (buffer_of limit s) = length s"
proof -
  have "sat_add (length (take (limit div 2) s)) (min (limit - limit div 2) (length s - limit div 2))
      = length (take (limit div 2) s) + min (limit - limit div 2) (length s - limit div 2)"
    using assms by (intro sat_add_exact) auto
  then show ?thesis using assms
    by (simp add: buffer_total_bytes_def retained_bytes_def buffer_of_def Let_def) (subst sat_add_exact; auto simp: min_def)
qed

section \<open>Token budgets\<close>

definition sat_mul :: "nat \<Rightarrow> nat \<Rightarrow> nat" where
  "sat_mul a b = min (a * b) u64_max"

definition APPROX_BYTES_PER_TOKEN :: nat where
  "APPROX_BYTES_PER_TOKEN = 4"

definition approximate_tokens :: "nat \<Rightarrow> nat" where
  "approximate_tokens bytes = sat_add bytes (APPROX_BYTES_PER_TOKEN - 1) div APPROX_BYTES_PER_TOKEN"

text \<open>The two loops over \<open>char_indices\<close>: \<open>index\<close> is the offset of the text that is left.\<close>

function prefix_end :: "nat \<Rightarrow> nat \<Rightarrow> string \<Rightarrow> nat" where
  "prefix_end budget index [] = index"
| "prefix_end budget index (c # s) =
     (if budget < index + len_utf8 c then index
      else prefix_end budget (index + len_utf8 c) (drop (len_utf8 c) (c # s)))"
  by pat_completeness auto
termination by (relation "measure (\<lambda>(_, _, s). length s)") (auto simp: len_utf8_def)

function first_index_from :: "nat \<Rightarrow> nat \<Rightarrow> string \<Rightarrow> nat option" where
  "first_index_from target index [] = None"
| "first_index_from target index (c # s) =
     (if target \<le> index then Some index
      else first_index_from target (index + len_utf8 c) (drop (len_utf8 c) (c # s)))"
  by pat_completeness auto
termination by (relation "measure (\<lambda>(_, _, s). length s)") (auto simp: len_utf8_def)

declare prefix_end.simps(2) [simp del] first_index_from.simps(2) [simp del]

definition ELLIPSIS :: string where
  "ELLIPSIS = [CHR 0xE2, CHR 0x80, CHR 0xA6]"

definition truncation_marker :: "nat \<Rightarrow> string" where
  "truncation_marker tokens = ELLIPSIS @ show_nat tokens @ '' tokens truncated'' @ ELLIPSIS"

definition truncate_to_tokens :: "string \<Rightarrow> nat \<Rightarrow> string" where
  "truncate_to_tokens txt max_tokens =
     (let byte_limit = sat_mul max_tokens APPROX_BYTES_PER_TOKEN in
      if txt \<noteq> [] \<and> length txt \<le> byte_limit then txt
      else if txt = [] then []
      else let left_budget = byte_limit div 2;
               right_budget = byte_limit - left_budget;
               prefix = prefix_end left_budget 0 txt;
               target = length txt - right_budget;
               suffix_start = max (case first_index_from target 0 txt of Some i \<Rightarrow> i | None \<Rightarrow> length txt) prefix;
               removed = length txt - byte_limit
           in take prefix txt @ truncation_marker (approximate_tokens removed) @ drop suffix_start txt)"

definition formatted_truncate :: "string \<Rightarrow> nat \<Rightarrow> string" where
  "formatted_truncate txt budget =
     (if length txt \<le> sat_mul budget APPROX_BYTES_PER_TOKEN then txt
      else ''Warning: truncated output (original token count: '' @ show_nat (approximate_tokens (length txt)) @ '')''
        @ [LF] @ ''Total output lines: '' @ show_nat (length (str_lines txt)) @ [LF, LF]
        @ truncate_to_tokens txt budget)"

text \<open>
  The result of a call. \<open>uo_wall_time\<close> is the wall time in milliseconds; its rendering as seconds
  with four decimals (\<open>f64\<close> formatting) is a parameter of \<open>output_to_text\<close>.
\<close>

record unified_exec_output =
  uo_chunk_id :: "string option"
  uo_wall_time :: nat
  uo_exit_code :: "int option"
  uo_session_id :: "int option"
  uo_original_token_count :: "nat option"
  uo_output :: string
  uo_max_output_tokens :: "nat option"
  uo_model_output_tokens :: nat
  uo_history_output_tokens :: nat
  uo_omitted_bytes :: nat

definition truncated_output :: "unified_exec_output \<Rightarrow> nat \<Rightarrow> string" where
  "truncated_output u budget =
     (if uo_omitted_bytes u = 0 then formatted_truncate (uo_output u) budget
      else let marker = omission_marker (uo_omitted_bytes u) in
        if length (uo_output u) \<le> sat_mul budget 4
        then if str_find marker (uo_output u) \<noteq> None then uo_output u else marker @ [LF] @ uo_output u
        else let truncated = truncate_to_tokens (uo_output u) budget;
                 notice = (if str_find marker truncated \<noteq> None then [] else marker @ [LF])
             in ''Warning: truncated output (original token count: ''
                @ show_nat (case uo_original_token_count u of Some n \<Rightarrow> n
                    | None \<Rightarrow> approximate_tokens (length (uo_output u))) @ '')'' @ [LF] @ notice @ [LF] @ truncated)"

definition show_int :: "int \<Rightarrow> string" where
  "show_int i = (if i < 0 then ''-'' @ show_nat (nat (- i)) else show_nat (nat i))"

definition optional_section :: "string \<Rightarrow> string option \<Rightarrow> string list" where
  "optional_section label field = (case field of None \<Rightarrow> [] | Some x \<Rightarrow> [label @ x])"

definition output_header :: "(nat \<Rightarrow> string) \<Rightarrow> unified_exec_output \<Rightarrow> string" where
  "output_header seconds u = join [LF]
     (optional_section ''Chunk ID: '' (uo_chunk_id u)
      @ [''Wall time: '' @ seconds (uo_wall_time u) @ '' seconds'']
      @ optional_section ''Process exited with code '' (map_option show_int (uo_exit_code u))
      @ optional_section ''Process running with session ID '' (map_option show_int (uo_session_id u))
      @ optional_section ''Original token count: '' (map_option show_nat (uo_original_token_count u))
      @ [''Output:'']) @ [LF]"

definition history_bytes :: "unified_exec_output \<Rightarrow> nat" where
  "history_bytes u =
     (let n = sat_mul (uo_history_output_tokens u) 4 in sat_add n (n div 5))"

lemma approximate_tokens_pos: "0 < n \<Longrightarrow> 0 < approximate_tokens n"
  by (auto simp: approximate_tokens_def APPROX_BYTES_PER_TOKEN_def sat_add_def min_def u64_max_def)

text \<open>The loop that shrinks the budget until the result fits into the history.\<close>

function fit_output :: "unified_exec_output \<Rightarrow> nat \<Rightarrow> nat \<Rightarrow> string" where
  "fit_output u available budget =
     (let out = truncated_output u budget in
      if available < length out \<and> 0 < budget
      then fit_output u available (budget - approximate_tokens (length out - available))
      else out)"
  by pat_completeness auto
termination
proof (relation "measure (\<lambda>(_, _, budget). budget)")
  fix u available budget out
  assume "out = truncated_output u budget" and big: "available < length out \<and> 0 < budget"
  then have "0 < approximate_tokens (length out - available)" by (simp add: approximate_tokens_pos)
  with big show "((u, available, budget - approximate_tokens (length out - available)), u, available, budget)
      \<in> measure (\<lambda>(_, _, budget). budget)" by simp
qed simp

declare fit_output.simps [simp del]

definition output_to_text :: "(nat \<Rightarrow> string) \<Rightarrow> unified_exec_output \<Rightarrow> string" where
  "output_to_text seconds u =
     (let header = output_header seconds u;
          available = history_bytes u - length header
      in header @ fit_output u available (uo_model_output_tokens u))"

text \<open>The \<open>output\<close> field of \<open>code_mode_result\<close>; the other fields are copied.\<close>

definition code_mode_output :: "unified_exec_output \<Rightarrow> string" where
  "code_mode_output u = (case uo_max_output_tokens u of
     None \<Rightarrow> uo_output u | Some budget \<Rightarrow> truncated_output u budget)"

subsection \<open>What is kept\<close>

lemma len_utf8_bounds: "1 \<le> len_utf8 c" "len_utf8 c \<le> 4"
  by (auto simp: len_utf8_def)

lemma char_cut:
  assumes "utf8_valid (c # s)"
  shows "len_utf8 c \<le> length (c # s)" and "utf8_valid (take (len_utf8 c) (c # s))" and "utf8_valid (drop (len_utf8 c) (c # s))"
proof -
  from assms show "len_utf8 c \<le> length (c # s)" "utf8_valid (drop (len_utf8 c) (c # s))"
    by (cases rule: utf8_char_cases; simp del: utf8_valid.simps)+
  have k: "len_utf8 c = Suc (matched_bytes c s)"
  proof (cases "byte_in 0 127 c")
    case False
    from assms have h: "valid_head c s" by (simp add: utf8_valid_Cons_iff del: utf8_valid.simps)
    with False have "matched_bytes c s = follow_bytes c" "0 < follow_bytes c" by (auto simp: valid_head_def)
    moreover from this(2) False have "len_utf8 c = Suc (follow_bytes c)"
      by (auto simp: follow_bytes_def len_utf8_def byte_in_def split: if_splits)
    ultimately show ?thesis by simp
  qed (simp add: matched_ascii len_utf8_def)
  have "valid_head c s" using assms by (simp add: utf8_valid_Cons_iff del: utf8_valid.simps)
  from utf8_valid_head_append [OF this, of "[]"] k show "utf8_valid (take (len_utf8 c) (c # s))"
    by (simp del: utf8_valid.simps(2))
qed

text \<open>The largest boundary within the budget, counted from the start.\<close>

lemma prefix_end_spec:
  assumes "utf8_valid s" and "index \<le> budget"
  shows "\<exists>k. prefix_end budget index s = index + k \<and> k \<le> length s \<and> index + k \<le> budget \<and>
     utf8_valid (take k s) \<and> utf8_valid (drop k s) \<and> (length s = k \<or> budget < index + k + 4)"
  using assms
proof (induction budget index s rule: prefix_end.induct)
  case (2 budget index c s)
  let ?n = "len_utf8 c"
  note cut = char_cut [OF "2.prems"(1)]
  show ?case
  proof (cases "budget < index + ?n")
    case True
    with len_utf8_bounds(2) [of c] 2 show ?thesis
      by (intro exI [of _ 0]) (simp add: prefix_end.simps(2) del: utf8_valid.simps(2))
  next
    case False
    then obtain k where k: "prefix_end budget (index + ?n) (drop ?n (c # s)) = index + ?n + k"
        "k \<le> length (drop ?n (c # s))" "index + ?n + k \<le> budget"
        "utf8_valid (take k (drop ?n (c # s)))" "utf8_valid (drop k (drop ?n (c # s)))"
        "length (drop ?n (c # s)) = k \<or> budget < index + ?n + k + 4"
      using "2.IH" [OF False cut(3)] by auto
    have "take (?n + k) (c # s) = take ?n (c # s) @ take k (drop ?n (c # s))" by (rule take_add)
    then have "utf8_valid (take (?n + k) (c # s))" using utf8_valid_append [OF cut(2) k(4)] by metis
    moreover have "utf8_valid (drop (?n + k) (c # s))" using k(5) by (simp only: drop_drop add.commute)
    moreover have "prefix_end budget index (c # s) = index + (?n + k)" using False k(1) by (simp add: prefix_end.simps(2))
    moreover have "?n + k \<le> length (c # s)" using k(2) cut(1) by simp
    moreover have "length (c # s) = ?n + k \<or> budget < index + (?n + k) + 4" using k(6) cut(1) by auto
    ultimately show ?thesis using k(3) by (intro exI [of _ "?n + k"]) (simp del: utf8_valid.simps take_Suc_Cons drop_Suc_Cons)
  qed
qed simp

lemma first_index_spec:
  assumes "utf8_valid s" and "target \<le> index + length s"
  shows "\<exists>k. (case first_index_from target index s of Some i \<Rightarrow> i | None \<Rightarrow> index + length s) = index + k \<and> k \<le> length s \<and>
     target \<le> index + k \<and> utf8_valid (drop k s) \<and> (k = 0 \<or> index + k < target + 4)"
  using assms
proof (induction target index s rule: first_index_from.induct)
  case (2 target index c s)
  let ?n = "len_utf8 c"
  note cut = char_cut [OF "2.prems"(1)]
  show ?case
  proof (cases "target \<le> index")
    case True
    with 2 show ?thesis by (intro exI [of _ 0]) (simp add: first_index_from.simps(2) del: utf8_valid.simps(2))
  next
    case False
    have len: "index + ?n + length (drop ?n (c # s)) = index + length (c # s)" using cut(1) by simp
    obtain k where k: "(case first_index_from target (index + ?n) (drop ?n (c # s)) of Some i \<Rightarrow> i
          | None \<Rightarrow> index + ?n + length (drop ?n (c # s))) = index + ?n + k"
        "k \<le> length (drop ?n (c # s))" "target \<le> index + ?n + k" "utf8_valid (drop k (drop ?n (c # s)))"
        "k = 0 \<or> index + ?n + k < target + 4"
      using "2.IH" [OF False cut(3)] "2.prems"(2) len by auto
    have "(case first_index_from target index (c # s) of Some i \<Rightarrow> i | None \<Rightarrow> index + length (c # s)) = index + (?n + k)"
      using False k(1) [unfolded len] by (simp add: first_index_from.simps(2))
    moreover have "utf8_valid (drop (?n + k) (c # s))" using k(4) by (simp only: drop_drop add.commute)
    moreover have "?n + k \<le> length (c # s)" using k(2) cut(1) by simp
    moreover have "index + (?n + k) < target + 4" using k(5) False len_utf8_bounds(2) [of c] by auto
    ultimately show ?thesis using k(3) by (intro exI [of _ "?n + k"]) (simp del: utf8_valid.simps drop_Suc_Cons)
  qed
qed simp

lemma truncate_parts:
  assumes "utf8_valid s" and "sat_mul tokens 4 < length s"
  shows "\<exists>p q. truncate_to_tokens s tokens =
        p @ truncation_marker (approximate_tokens (length s - sat_mul tokens 4)) @ q \<and>
      prefix p s \<and> suffix q s \<and> utf8_valid p \<and> utf8_valid q \<and>
      length p \<le> sat_mul tokens 4 div 2 \<and> sat_mul tokens 4 div 2 < length p + 4 \<and>
      length q \<le> sat_mul tokens 4 - sat_mul tokens 4 div 2 \<and> sat_mul tokens 4 - sat_mul tokens 4 div 2 < length q + 4"
proof -
  define n where "n = sat_mul tokens 4"
  define l where "l = n div 2"
  define r where "r = n - l"
  define target where "target = length s - r"
  have s: "s \<noteq> []" "n < length s" using assms(2) by (auto simp: n_def)
  have arith: "l + r = n" "0 < target" "l < target" "target \<le> length s" "length s - target = r"
    using s(2) by (auto simp: l_def r_def target_def)
  obtain k where k: "prefix_end l 0 s = k" "k \<le> length s" "k \<le> l" "utf8_valid (take k s)" "length s = k \<or> l < k + 4"
    using prefix_end_spec [OF assms(1), of 0 l] by auto
  obtain m where m: "(case first_index_from target 0 s of Some i \<Rightarrow> i | None \<Rightarrow> length s) = m" "m \<le> length s"
      "target \<le> m" "utf8_valid (drop m s)" "m = 0 \<or> m < target + 4"
    using first_index_spec [OF assms(1), of target 0, unfolded add_0] arith(4) by metis
  have "truncate_to_tokens s tokens = take k s @ truncation_marker (approximate_tokens (length s - n)) @ drop m s"
  proof -
    have "max m k = m" using k(3) m(3) arith(3) by simp
    with s k(1) m(1) show ?thesis
      by (simp add: truncate_to_tokens_def APPROX_BYTES_PER_TOKEN_def Let_def flip: n_def l_def r_def target_def)
  qed
  moreover have "prefix (take k s) s" "suffix (drop m s) s" by (simp_all add: take_is_prefix suffix_drop)
  moreover have "length (take k s) = k" "length (drop m s) \<le> r" "r < length (drop m s) + 4" "l < k + 4"
    using k(2,3,5) m(2,3,5) arith s(2) by auto
  ultimately show ?thesis using k(3,4) m(4) unfolding n_def [symmetric] l_def [symmetric] r_def [symmetric]
    by (intro exI [of _ "take k s"] exI [of _ "drop m s"]) (simp del: utf8_valid.simps(2))
qed

lemma fit_output_result:
  "\<exists>b\<le>budget. fit_output u available budget = truncated_output u b \<and>
     (length (truncated_output u b) \<le> available \<or> b = 0) \<and>
     (length (truncated_output u budget) \<le> available \<longrightarrow> b = budget)"
proof (induction u available budget rule: fit_output.induct)
  case (1 u available budget)
  let ?out = "truncated_output u budget"
  show ?case
  proof (cases "available < length ?out \<and> 0 < budget")
    case True
    from 1 [OF refl True] obtain b where "b \<le> budget - approximate_tokens (length ?out - available)"
        "fit_output u available (budget - approximate_tokens (length ?out - available)) = truncated_output u b"
        "length (truncated_output u b) \<le> available \<or> b = 0" by blast
    with True show ?thesis
      by (intro exI [of _ b]) (simp add: fit_output.simps [of u available budget] Let_def)
  next
    case False
    then show ?thesis
      by (intro exI [of _ budget]) (auto simp: fit_output.simps [of u available budget] Let_def)
  qed
qed

section \<open>Properties\<close>

text \<open>
  The tail buffer of the shell tool keeps the longest suffix of the output that has at most
  \<open>max_bytes\<close> bytes and \<open>max_lines\<close> lines, however the output was cut into chunks; it is marked as
  truncated exactly when something was dropped, and it counts all bytes (saturating). For UTF-8
  output the rendered text is the whole output, or that suffix without the rest of a character
  that the byte limit cut through: no replacement character is invented.
\<close>

theorem tail_keeps_longest_suffix:
  assumes "0 < line_limit" and "t = tail_pushes (tail_new byte_limit line_limit) chunks"
  shows "retained byte_limit line_limit (concat chunks) (tb_bytes t) \<and>
     (tb_truncated t \<longleftrightarrow> tb_bytes t \<noteq> concat chunks) \<and>
     tb_total_bytes t = min (length (concat chunks)) u64_max \<and>
     (utf8_valid (concat chunks) \<longrightarrow>
        tail_text t = (if tb_truncated t then dropWhile continuation (tb_bytes t) else concat chunks))"
proof -
  note r = tail_pushes_retained [OF assms(1), of byte_limit chunks, folded assms(2)]
  then have sfx: "suffix (tb_bytes t) (concat chunks)" by (simp add: retained_def)
  then have "tb_truncated t \<longleftrightarrow> tb_bytes t \<noteq> concat chunks" using r suffix_length_le [OF sfx]
    by (metis nat_neq_iff order.strict_iff_not suffix_length_suffix suffix_order.antisym suffix_order.refl)
  with r tail_text_suffix [OF _ sfx] show ?thesis by blast
qed

theorem tail_keeps_longest_suffix_witness:
  "tb_bytes (tail_pushes (tail_new 100 2) [''a'' @ [LF] @ ''b'' @ [LF] @ ''c'' @ [LF], ''d'']) = ''c'' @ [LF] @ ''d'' \<and>
   retained 100 2 (concat [''a'' @ [LF] @ ''b'' @ [LF] @ ''c'' @ [LF], ''d'']) (''c'' @ [LF] @ ''d'')"
proof -
  have "tb_bytes (tail_pushes (tail_new 100 2) [''a'' @ [LF] @ ''b'' @ [LF] @ ''c'' @ [LF], ''d'']) = ''c'' @ [LF] @ ''d''"
  proof -
    have "tail_keep 100 2 (''a'' @ [LF] @ ''b'' @ [LF] @ ''c'' @ [LF]) = ''b'' @ [LF] @ ''c'' @ [LF]" by code_simp
    moreover have "tail_keep 100 2 ((''b'' @ [LF] @ ''c'' @ [LF]) @ ''d'') = ''c'' @ [LF] @ ''d''" by code_simp
    ultimately show ?thesis by (simp add: tail_pushes_def tail_push_bytes tail_new_def)
  qed
  then show ?thesis
    using tail_keeps_longest_suffix [of 2 _ 100 "[''a'' @ [LF] @ ''b'' @ [LF] @ ''c'' @ [LF], ''d'']"] by (metis zero_less_numeral)
qed

text \<open>
  The head-and-tail buffer depends only on the output and not on the chunks in which it
  arrived. It holds the first half of its capacity from the start of the output and
  the rest of the capacity from its end; the omitted bytes are counted exactly, and the total is the length
  of the output. Outputs longer than \<open>u64::MAX\<close> bytes are outside the statement.
\<close>

theorem buffer_depends_on_stream:
  assumes "length (concat chunks) \<le> u64_max"
  shows "buffer_pushes (head_tail_new limit) chunks = buffer_of limit (concat chunks) \<and>
     buffer_total_bytes (buffer_pushes (head_tail_new limit) chunks) = length (concat chunks)"
  using buffer_pushes_of [OF assms, of limit] buffer_of_total [OF assms, of limit] by simp

theorem buffer_depends_on_stream_witness:
  "buffer_pushes (head_tail_new 10) [''0123'', ''456789abcdef''] =
     \<lparr>ht_head = ''01234'', ht_tail = ''bcdef'', ht_max_bytes = 10, ht_omitted_bytes = 6\<rparr> \<and>
   buffer_total_bytes (buffer_pushes (head_tail_new 10) [''0123'', ''456789abcdef'']) = 16"
proof -
  have l: "length (concat [''0123'', ''456789abcdef'']) = 16" by simp
  have b: "buffer_of 10 (concat [''0123'', ''456789abcdef'']) =
      \<lparr>ht_head = ''01234'', ht_tail = ''bcdef'', ht_max_bytes = 10, ht_omitted_bytes = 6\<rparr>"
    by (simp add: buffer_of_def last_bytes_def Let_def)
  have "(16::nat) \<le> u64_max" by (simp add: u64_max_def)
  with buffer_depends_on_stream [of "[''0123'', ''456789abcdef'']" 10, unfolded l b] show ?thesis by blast
qed

text \<open>
  A text that exceeds the token budget of four bytes per token is cut to a prefix and a suffix
  of itself around a marker. Both are valid UTF-8, so no slice is taken inside a
  character; each stays within its half of the budget and uses it up to less than one
  character; and the marker names the tokens by which the text exceeds the budget.
\<close>

theorem truncation_keeps_both_ends:
  assumes "utf8_valid s" and "sat_mul tokens 4 < length s"
  shows "\<exists>p q. truncate_to_tokens s tokens =
        p @ truncation_marker (approximate_tokens (length s - sat_mul tokens 4)) @ q \<and>
      prefix p s \<and> suffix q s \<and> utf8_valid p \<and> utf8_valid q \<and>
      length p \<le> sat_mul tokens 4 div 2 \<and> sat_mul tokens 4 div 2 < length p + 4 \<and>
      length q \<le> sat_mul tokens 4 - sat_mul tokens 4 div 2 \<and> sat_mul tokens 4 - sat_mul tokens 4 div 2 < length q + 4"
  using assms by (rule truncate_parts)

theorem truncation_keeps_both_ends_witness:
  "\<exists>p q. truncate_to_tokens ''abcdefghijkl'' 2 = p @ truncation_marker 1 @ q \<and>
      prefix p ''abcdefghijkl'' \<and> suffix q ''abcdefghijkl'' \<and> length p \<le> 4 \<and> length q \<le> 4"
proof -
  have v: "utf8_valid ''abcdefghijkl''" by (simp add: byte_in_def)
  have m: "sat_mul 2 4 = 8" by (simp add: sat_mul_def u64_max_def)
  have l: "length ''abcdefghijkl'' = 12" by simp
  have t: "approximate_tokens (12 - 8) = 1"
    by (simp add: approximate_tokens_def APPROX_BYTES_PER_TOKEN_def sat_add_def u64_max_def)
  from truncation_keeps_both_ends [OF v, of 2, unfolded m l t] show ?thesis by auto
qed

text \<open>
  Rendering the result of a call terminates. The loop that lowers the token budget until the
  text fits into the history always ends: with a text that fits into the bytes left by
  the header, or with the budget at zero; the budget never grows, and a text that fits at
  once is not shortened.
\<close>

theorem rendering_terminates_within_budget:
  "\<exists>b. b \<le> uo_model_output_tokens u \<and>
     output_to_text seconds u = output_header seconds u @ truncated_output u b \<and>
     (length (output_to_text seconds u) \<le> max (history_bytes u) (length (output_header seconds u)) \<or> b = 0) \<and>
     (length (output_header seconds u) + length (truncated_output u (uo_model_output_tokens u)) \<le> history_bytes u
        \<longrightarrow> b = uo_model_output_tokens u)"
proof -
  let ?h = "output_header seconds u"
  obtain b where "b \<le> uo_model_output_tokens u"
      "fit_output u (history_bytes u - length ?h) (uo_model_output_tokens u) = truncated_output u b"
      "length (truncated_output u b) \<le> history_bytes u - length ?h \<or> b = 0"
      "length (truncated_output u (uo_model_output_tokens u)) \<le> history_bytes u - length ?h \<longrightarrow> b = uo_model_output_tokens u"
    using fit_output_result [of "uo_model_output_tokens u" u "history_bytes u - length ?h"] by blast
  then show ?thesis by (intro exI [of _ b]) (auto simp: output_to_text_def Let_def)
qed

definition sample_output :: unified_exec_output where
  "sample_output = \<lparr>uo_chunk_id = None, uo_wall_time = 0, uo_exit_code = Some 0, uo_session_id = None,
     uo_original_token_count = None, uo_output = ''hello'', uo_max_output_tokens = None,
     uo_model_output_tokens = 1, uo_history_output_tokens = 1, uo_omitted_bytes = 0\<rparr>"

theorem rendering_terminates_within_budget_witness:
  "\<exists>b. b \<le> 1 \<and> output_to_text (\<lambda>_. ''0.0000'') sample_output =
     output_header (\<lambda>_. ''0.0000'') sample_output @ truncated_output sample_output b"
proof -
  have "uo_model_output_tokens sample_output = 1" by (simp add: sample_output_def)
  with rendering_terminates_within_budget [of sample_output "\<lambda>_. ''0.0000''"] show ?thesis by metis
qed

end
