(* ===== verification/Tool_Paths.thy ===== *)
theory Tool_Paths
  imports Exec_Core
begin

text \<open>
  Path resolution of the filesystem tools
  (\<open>platform/packages/tools/filesystem/src/lib.rs\<close> and \<open>normalized.rs\<close>): a path written by the
  model, in the path convention of the remote host, becomes a path below one of the host's
  registered roots. The strict resolver rejects parent segments, the normalising one collapses
  them first. The lemmas show that a resolved path is always portable and below a registered
  root, that a relative path stays below the working directory, and that an absolute path
  selects the unique root with the longest matching prefix.
\<close>

definition fs_error :: "error_code \<Rightarrow> string \<Rightarrow> exec_error" where
  "fs_error c m = with_detail (exec_error_new c m) ''source'' (DText ''tool-filesystem'')"

section \<open>Splitting a native path\<close>

datatype parent_segments = RejectParents | PreserveParents

definition ascii_lower :: "char \<Rightarrow> char" where
  "ascii_lower c = (if 65 \<le> (of_char c :: nat) \<and> (of_char c :: nat) \<le> 90
                    then char_of ((of_char c :: nat) + 32) else c)"

definition is_ascii_alphabetic :: "char \<Rightarrow> bool" where
  "is_ascii_alphabetic c \<longleftrightarrow> (let n = (of_char (ascii_lower c) :: nat) in 97 \<le> n \<and> n \<le> 122)"

definition eq_ignore_ascii_case :: "string \<Rightarrow> string \<Rightarrow> bool" where
  "eq_ignore_ascii_case a b \<longleftrightarrow> map ascii_lower a = map ascii_lower b"

definition to_slashes :: "bool \<Rightarrow> string \<Rightarrow> string" where
  "to_slashes windows s = (if windows then map (\<lambda>c. if c = BSLASH then CHR ''/'' else c) s else s)"

text \<open>\<open>as_bytes().get(i)\<close>.\<close>

definition byte_at :: "string \<Rightarrow> nat \<Rightarrow> char option" where
  "byte_at s i = (if i < length s then Some (s ! i) else None)"

definition strip_verbatim :: "bool \<Rightarrow> string \<Rightarrow> string exec_result" where
  "strip_verbatim windows value =
     (case (if windows then strip_prefix ''//?/'' value else None) of
        None \<Rightarrow> Inr value
      | Some tail \<Rightarrow>
          if 4 \<le> length tail \<and> eq_ignore_ascii_case (take 4 tail) ''UNC/''
          then Inr (''//'' @ drop 4 tail)
          else if tail \<noteq> [] \<and> is_ascii_alphabetic (hd tail) \<and> byte_at tail 1 = Some (CHR '':'')
                  \<and> byte_at tail 2 = Some (CHR ''/'')
          then Inr tail
          else Inl (Fail (fs_error InvalidPath ''unsupported Windows device path'')))"

definition unc_name_bad :: "string \<Rightarrow> bool" where
  "unc_name_bad s \<longleftrightarrow> s \<in> {''.'', ''..'', ''?''} \<or> CHR '':'' \<in> set s"

text \<open>\<open>splitn(3, '/')\<close>: the server, the share (when there is one) and the rest.\<close>

definition split_unc :: "string \<Rightarrow> string \<times> string \<times> string" where
  "split_unc tail = (case split_char CHR ''/'' tail of
     [] \<Rightarrow> ([], [], [])
   | [server] \<Rightarrow> (server, [], [])
   | server # share # rest \<Rightarrow> (server, share, join ''/'' rest))"

definition split_prefix :: "bool \<Rightarrow> string \<Rightarrow> (string \<times> string) exec_result" where
  "split_prefix windows value =
     (if windows \<and> starts_with ''//'' value
      then (let (server, share, rest) = split_unc (drop 2 value) in
            if server = [] \<or> share = [] \<or> unc_name_bad server \<or> unc_name_bad share
            then Inl (Fail (fs_error InvalidPath ''invalid UNC path or unsupported Windows device path''))
            else Inr (''//'' @ server @ ''/'' @ share, rest))
      else if windows \<and> byte_at value 1 = Some (CHR '':'')
      then (if \<not> is_ascii_alphabetic (hd value) \<or> byte_at value 2 \<noteq> Some (CHR ''/'')
            then Inl (Fail (fs_error InvalidPath ''use a fully qualified Windows drive path''))
            else Inr (take 2 value, drop 3 value))
      else case strip_prefix ''/'' value of
        Some tail \<Rightarrow>
          if windows
          then Inl (Fail (fs_error InvalidPath ''Windows absolute paths must include a drive or UNC share''))
          else Inr (''/'', tail)
      | None \<Rightarrow> Inr ([], value))"

definition windows_part_bad :: "string \<Rightarrow> bool" where
  "windows_part_bad part \<longleftrightarrow>
     part \<noteq> ''..'' \<and> (CHR '':'' \<in> set part \<or> ends_with ''.'' part \<or> ends_with '' '' part)"

fun collect_parts :: "bool \<Rightarrow> parent_segments \<Rightarrow> string list \<Rightarrow> string list exec_result" where
  "collect_parts windows parents [] = Inr []"
| "collect_parts windows parents (part # rest) =
     (if part = ''..'' \<and> parents = RejectParents
      then Inl (Fail (fs_error InvalidPath
        ''parent (..) segments are unsupported; use an absolute path inside a registered root''))
      else if part = [] \<or> part = ''.'' then collect_parts windows parents rest
      else if windows \<and> windows_part_bad part
      then Inl (Fail (fs_error InvalidPath ''unsupported Windows path component''))
      else rbind (collect_parts windows parents rest) (\<lambda>ps. Inr (part # ps)))"

definition split_parts :: "string \<Rightarrow> bool \<Rightarrow> parent_segments \<Rightarrow> (string \<times> string list) exec_result" where
  "split_parts value windows parents =
     (if value = [] \<or> NUL \<in> set value
      then Inl (Fail (fs_error InvalidPath ''file_path must be nonempty and contain no NUL bytes''))
      else rbind (strip_verbatim windows (to_slashes windows value)) (\<lambda>value.
           rbind (split_prefix windows value) (\<lambda>(prefix, tail).
           rbind (collect_parts windows parents (split_char CHR ''/'' tail)) (\<lambda>result.
           Inr (prefix, result)))))"

section \<open>Resolving below a registered root\<close>

definition validate_cwd :: "host_descriptor \<Rightarrow> exec_path \<Rightarrow> unit exec_result" where
  "validate_cwd host wd =
     rbind (validated (exec_path_validate wd)) (\<lambda>_.
       guard (list_ex (\<lambda>r. root_identifier r = root_id wd) (roots host))
         (fs_error RootNotFound ''working directory root is not advertised by the host''))"

definition path_components :: "string \<Rightarrow> string list" where
  "path_components p = (if p = ''.'' then [] else split_char CHR ''/'' p)"

definition components_path :: "string list \<Rightarrow> string" where
  "components_path parts = (if parts = [] then ''.'' else join ''/'' parts)"

definition same_prefix :: "bool \<Rightarrow> string \<Rightarrow> string \<Rightarrow> bool" where
  "same_prefix windows a b = (if windows then eq_ignore_ascii_case a b else a = b)"

fun root_candidates ::
  "bool \<Rightarrow> string \<Rightarrow> string list \<Rightarrow> execution_root list \<Rightarrow> (execution_root \<times> nat) list exec_result" where
  "root_candidates windows prefix components [] = Inr []"
| "root_candidates windows prefix components (r # rs) =
     rbind (split_parts (native_path r) windows RejectParents) (\<lambda>(root_prefix, root_parts).
     rbind (root_candidates windows prefix components rs) (\<lambda>rest.
       Inr (if same_prefix windows prefix root_prefix \<and> starts_with root_parts components
            then (r, length root_parts) # rest else rest)))"

definition sort_candidates :: "(execution_root \<times> nat) list \<Rightarrow> (execution_root \<times> nat) list" where
  "sort_candidates = sort_key (\<lambda>(_, len). - int len)"

definition select_root :: "(execution_root \<times> nat) list \<Rightarrow> (execution_root \<times> nat) exec_result" where
  "select_root candidates = (case sort_candidates candidates of
     [] \<Rightarrow> Inl (Fail (fs_error PathOutsideRoot
        (''absolute path is outside the host'' @ [SQUOTE]
           @ ''s registered roots (use the advertised root spelling)'')))
   | [c] \<Rightarrow> Inr c
   | c # c' # _ \<Rightarrow>
       if snd c' = snd c
       then Inl (Fail (fs_error InvalidPath
         ''absolute path matches multiple registered roots; use a relative path in the selected root''))
       else Inr c)"

definition relative_path :: "string list \<Rightarrow> string" where
  "relative_path rest = (let relative = join ''/'' rest in if relative = [] then ''.'' else relative)"

definition resolve_path :: "host_descriptor \<Rightarrow> exec_path \<Rightarrow> string \<Rightarrow> exec_path exec_result" where
  "resolve_path host wd value =
     rbind (validate_cwd host wd) (\<lambda>_.
     let windows = (path_convention host = Windows) in
     rbind (split_parts value windows RejectParents) (\<lambda>(prefix, components).
       if prefix = []
       then validated (exec_path_new (root_id wd) (components_path (path_components (path wd) @ components)))
       else rbind (root_candidates windows prefix components (roots host)) (\<lambda>candidates.
            rbind (select_root candidates) (\<lambda>(root, len).
            rbind (slice components len (length components)) (\<lambda>rest.
            validated (exec_path_new (root_identifier root) (relative_path rest)))))))"

section \<open>Resolving with parent segments\<close>

fun apply_component :: "string list \<Rightarrow> string \<Rightarrow> string list" where
  "apply_component resolved c = (if c = ''..'' then butlast resolved else resolved @ [c])"

text \<open>A Windows path relative to the drive of the working directory.\<close>

definition qualify :: "bool \<Rightarrow> string \<Rightarrow> string \<Rightarrow> string exec_result" where
  "qualify windows base_prefix value =
     (if windows \<and> starts_with ''/'' value \<and> \<not> starts_with ''//'' value then Inr (base_prefix @ value)
      else if windows \<and> byte_at value 1 = Some (CHR '':'') \<and> byte_at value 2 \<noteq> Some (CHR ''/'')
      then (if \<not> eq_ignore_ascii_case (take 2 value) base_prefix
            then Inl (Fail (fs_error InvalidPath ''relative path belongs to another Windows drive''))
            else Inr (if length value = 2 then ''.'' else drop 2 value))
      else Inr value)"

definition resolve_path_normalized :: "host_descriptor \<Rightarrow> exec_path \<Rightarrow> string \<Rightarrow> exec_path exec_result" where
  "resolve_path_normalized host wd value =
     rbind (validate_cwd host wd) (\<lambda>_.
     let windows = (path_convention host = Windows) in
     case find (\<lambda>r. root_identifier r = root_id wd) (roots host) of
       None \<Rightarrow> Inl (Fail (fs_error RootNotFound ''working directory root is unavailable''))
     | Some root \<Rightarrow>
         rbind (split_parts (native_path root) windows PreserveParents) (\<lambda>(base_prefix, native).
         let base = native @ path_components (path wd);
             slashed = to_slashes windows value
         in rbind (qualify windows base_prefix (if slashed = [] then ''.'' else slashed)) (\<lambda>value.
            rbind (split_parts value windows PreserveParents) (\<lambda>(prefix, components).
            let (prefix, start) = (if prefix = [] then (base_prefix, base) else (prefix, []));
                resolved = foldl apply_component start components;
                absolute = (if prefix = ''/'' then ''/'' @ join ''/'' resolved
                            else prefix @ ''/'' @ join ''/'' resolved)
            in resolve_path host wd absolute))))"

section \<open>What splitting returns\<close>

definition part_ok :: "string \<Rightarrow> bool" where
  "part_ok p \<longleftrightarrow> p \<noteq> [] \<and> p \<noteq> ''.'' \<and> CHR ''/'' \<notin> set p"

lemma collect_parts_Inr:
  assumes "collect_parts windows parents parts = Inr ps"
  shows "ps = filter (\<lambda>p. p \<noteq> [] \<and> p \<noteq> ''.'') parts"
    and "parents = RejectParents \<Longrightarrow> ''..'' \<notin> set parts"
  using assms
  by (induction windows parents parts arbitrary: ps rule: collect_parts.induct)
     (auto simp: rbind_Inr_iff split: if_splits)

lemma collect_parts_no_panic: "no_panic (collect_parts windows parents parts)"
  by (induction windows parents parts rule: collect_parts.induct) (auto intro!: no_panic_rbind)

lemma strip_verbatim_no_panic: "no_panic (strip_verbatim windows value)"
  by (simp add: strip_verbatim_def split: option.split)

lemma split_prefix_no_panic: "no_panic (split_prefix windows value)"
  by (simp add: split_prefix_def split: option.split prod.split)

lemma split_parts_no_panic: "no_panic (split_parts value windows parents)"
  unfolding split_parts_def
  by (auto intro!: no_panic_rbind collect_parts_no_panic strip_verbatim_no_panic split_prefix_no_panic)

lemma split_parts_ok:
  assumes "split_parts value windows parents = Inr (prefix, ps)"
  shows "list_all part_ok ps" and "parents = RejectParents \<Longrightarrow> list_all segment_ok ps"
proof -
  obtain tail where c: "collect_parts windows parents (split_char CHR ''/'' tail) = Inr ps"
    using assms by (auto simp: split_parts_def rbind_Inr_iff split: if_splits)
  show "list_all part_ok ps"
    using collect_parts_Inr(1) [OF c] by (auto simp: list_all_iff part_ok_def dest: split_char_free)
  show "list_all segment_ok ps" if "parents = RejectParents"
    using collect_parts_Inr [OF c] that by (auto simp: list_all_iff segment_ok_def)
qed

lemma validate_cwd_Inr_iff [simp]:
  "validate_cwd host wd = Inr u \<longleftrightarrow>
     portable_path (path wd) \<and> root_id wd \<in> root_identifier ` set (roots host)"
  by (auto simp: validate_cwd_def rbind_Inr_iff exec_path_validate_iff list_ex_iff image_iff) metis

lemma validate_cwd_no_panic [simp]: "no_panic (validate_cwd host wd)"
  by (auto simp: validate_cwd_def intro!: no_panic_rbind)

lemma portable_components:
  assumes "portable_path p"
  shows "list_all part_ok (path_components p)" and "components_path (path_components p) = p"
    and "list_all segment_ok (path_components p)"
  using assms
  by (auto simp: portable_path_def path_components_def components_path_def list_all_iff part_ok_def
           segment_ok_def dest: split_char_free)

lemma components_path_inverse:
  assumes "list_all part_ok ps"
  shows "path_components (components_path ps) = ps"
proof (cases ps)
  case (Cons q qs)
  have "split_char CHR ''/'' (join ''/'' ps) = ps"
    using assms Cons by (intro split_char_join) (auto simp: list_all_iff part_ok_def)
  moreover from this have "join ''/'' ps \<noteq> ''.''"
    using assms Cons by (auto simp: part_ok_def)
  ultimately show ?thesis by (simp add: components_path_def path_components_def Cons)
qed (simp add: components_path_def path_components_def)

lemma join_Nil_iff:
  assumes "list_all part_ok ps"
  shows "join ''/'' ps = [] \<longleftrightarrow> ps = []"
  using assms by (cases ps; cases "tl ps") (auto simp: part_ok_def)

section \<open>What resolution returns\<close>

text \<open>\<open>root_matches\<close>: the native path of a root is a prefix of the absolute path.\<close>

definition root_matches ::
  "host_descriptor \<Rightarrow> string \<Rightarrow> string list \<Rightarrow> execution_root \<Rightarrow> string list \<Rightarrow> bool" where
  "root_matches host prefix components r parts \<longleftrightarrow> r \<in> set (roots host) \<and>
     (\<exists>root_prefix. split_parts (native_path r) (path_convention host = Windows) RejectParents
          = Inr (root_prefix, parts) \<and>
        same_prefix (path_convention host = Windows) prefix root_prefix) \<and>
     starts_with parts components"

lemma root_candidates_no_panic: "no_panic (root_candidates windows prefix components rs)"
  by (induction rs) (auto intro!: no_panic_rbind split_parts_no_panic)

lemma root_candidates_mem:
  assumes "root_candidates windows prefix components rs = Inr cs"
  shows "(r, len) \<in> set cs \<longleftrightarrow> r \<in> set rs \<and>
     (\<exists>root_prefix parts. split_parts (native_path r) windows RejectParents = Inr (root_prefix, parts) \<and>
        same_prefix windows prefix root_prefix \<and> starts_with parts components \<and> len = length parts)"
  using assms
proof (induction rs arbitrary: cs)
  case (Cons x rs)
  then show ?case by (auto simp: rbind_Inr_iff split: if_splits)
qed simp

lemma root_candidates_iff:
  assumes "root_candidates (path_convention host = Windows) prefix components (roots host) = Inr cs"
  shows "(r, len) \<in> set cs \<longleftrightarrow> (\<exists>parts. root_matches host prefix components r parts \<and> len = length parts)"
  using root_candidates_mem [OF assms, of r len] by (auto simp: root_matches_def)

lemma select_root_no_panic: "no_panic (select_root cs)"
  by (auto simp: select_root_def split: list.splits)

lemma select_root_Inr:
  assumes "select_root cs = Inr (r, len)"
  shows "(r, len) \<in> set cs" and "\<forall>(r', len') \<in> set cs. len' \<le> len"
    and "\<forall>(r', len') \<in> set cs. len' = len \<longrightarrow> r' = r"
proof -
  let ?s = "sort_candidates cs"
  have st: "set ?s = set cs" and srt: "sorted (map (\<lambda>(_, len). - int len) ?s)"
    by (simp_all add: sort_candidates_def)
  have "\<exists>rest. ?s = (r, len) # rest \<and> (\<forall>c \<in> set rest. snd c < len)"
    using assms srt by (fastforce simp: select_root_def split: list.splits if_splits)
  then obtain rest where rest: "?s = (r, len) # rest" "\<forall>c \<in> set rest. snd c < len" by blast
  have "set cs = insert (r, len) (set rest)" using st rest(1) by simp
  then show "(r, len) \<in> set cs" and "\<forall>(r', len') \<in> set cs. len' \<le> len"
    and "\<forall>(r', len') \<in> set cs. len' = len \<longrightarrow> r' = r"
    using rest(2) by fastforce+
qed

declare exec_path_new_Inr_iff [simp]

lemma resolve_path_relative:
  assumes "split_parts value (path_convention host = Windows) RejectParents = Inr ([], ps)"
    and "resolve_path host wd value = Inr p"
  shows "root_id p = root_id wd \<and> path_components (path p) = path_components (path wd) @ ps"
proof -
  have wd: "portable_path (path wd)"
      and p: "p = \<lparr>root_id = root_id wd, path = components_path (path_components (path wd) @ ps)\<rparr>"
    using assms by (auto simp: resolve_path_def rbind_Inr_iff)
  have "list_all part_ok (path_components (path wd) @ ps)"
    using portable_components(1) [OF wd] split_parts_ok(1) [OF assms(1)] by simp
  with p show ?thesis by (simp add: components_path_inverse)
qed

lemma resolve_path_absolute:
  assumes "split_parts value (path_convention host = Windows) RejectParents = Inr (prefix, ps)"
    and "prefix \<noteq> []" and "resolve_path host wd value = Inr p"
  shows "\<exists>r parts. root_matches host prefix ps r parts \<and> root_identifier r = root_id p \<and>
     ps = parts @ path_components (path p) \<and>
     (\<forall>r' parts'. root_matches host prefix ps r' parts' \<longrightarrow>
        length parts' \<le> length parts \<and> (length parts' = length parts \<longrightarrow> r' = r))"
proof -
  obtain cs r len rest where cs: "root_candidates (path_convention host = Windows) prefix ps (roots host) = Inr cs"
      and sel: "select_root cs = Inr (r, len)" and rest: "(slice ps len (length ps) :: string list exec_result) = Inr rest"
      and p: "p = \<lparr>root_id = root_identifier r, path = relative_path rest\<rparr>"
    using assms(2,3) unfolding resolve_path_def Let_def assms(1) rbind_Inr_iff
    by (simp add: rbind_Inr_iff split_paired_Ex) blast
  obtain parts where parts: "root_matches host prefix ps r parts" "len = length parts"
    using select_root_Inr(1) [OF sel] root_candidates_iff [OF cs] by blast
  then have ps: "ps = parts @ rest" using rest by (auto simp: root_matches_def starts_with_iff)
  then have "list_all part_ok rest" using split_parts_ok(1) [OF assms(1)] by simp
  then have "path_components (path p) = rest"
    using components_path_inverse [of rest] join_Nil_iff [of rest]
    by (simp add: p relative_path_def components_path_def path_components_def split: if_splits)
  moreover have "length parts' \<le> length parts \<and> (length parts' = length parts \<longrightarrow> r' = r)"
    if "root_matches host prefix ps r' parts'" for r' parts'
    using select_root_Inr(2,3) [OF sel] root_candidates_iff [OF cs] that parts(2) by blast
  moreover have "root_identifier r = root_id p" by (simp add: p)
  ultimately show ?thesis using parts(1) ps by blast
qed

lemma resolve_path_no_panic: "no_panic (resolve_path host wd value)"
  unfolding resolve_path_def Let_def
proof (intro no_panic_rbind validate_cwd_no_panic split_parts_no_panic, clarify)
  fix prefix ps
  show "no_panic (if prefix = []
       then validated (exec_path_new (root_id wd) (components_path (path_components (path wd) @ ps)))
       else rbind (root_candidates (path_convention host = Windows) prefix ps (roots host)) (\<lambda>candidates.
            rbind (select_root candidates) (\<lambda>(root, len).
            rbind (slice ps len (length ps)) (\<lambda>rest.
            validated (exec_path_new (root_identifier root) (relative_path rest))))))"
    by (auto intro!: no_panic_rbind root_candidates_no_panic select_root_no_panic
             dest!: select_root_Inr(1) simp: root_candidates_iff root_matches_def starts_with_iff)
qed

lemma resolve_path_portable:
  assumes "resolve_path host wd value = Inr p"
  shows "portable_path (path p) \<and> root_id p \<in> root_identifier ` set (roots host)"
proof -
  have wd: "root_id wd \<in> root_identifier ` set (roots host)"
    using assms by (auto simp: resolve_path_def rbind_Inr_iff)
  obtain prefix ps where sp: "split_parts value (path_convention host = Windows) RejectParents = Inr (prefix, ps)"
    using assms by (auto simp: resolve_path_def rbind_Inr_iff Let_def)
  have "portable_path (path p)"
    using assms by (auto simp: resolve_path_def rbind_Inr_iff Let_def split: if_splits)
  moreover have "root_id p \<in> root_identifier ` set (roots host)"
  proof (cases "prefix = []")
    case True
    with resolve_path_relative [of "value" host ps wd p] sp assms wd show ?thesis by simp
  next
    case False
    with resolve_path_absolute [OF sp _ assms] show ?thesis by (metis root_matches_def image_eqI)
  qed
  ultimately show ?thesis by simp
qed

section \<open>Parent segments\<close>

text \<open>Lexical normalisation of the components, starting from the working directory.\<close>

definition lexical :: "string list \<Rightarrow> string list \<Rightarrow> string list" where
  "lexical start components = foldl apply_component start components"

lemma apply_component_ok: "list_all part_ok resolved \<Longrightarrow> part_ok c \<Longrightarrow> list_all part_ok (apply_component resolved c)"
  by (auto simp: list_all_iff dest: in_set_butlastD)

lemma lexical_ok: "list_all part_ok start \<Longrightarrow> list_all part_ok cs \<Longrightarrow> list_all part_ok (lexical start cs)"
  unfolding lexical_def
  by (induction cs arbitrary: start) (simp_all add: apply_component_ok del: apply_component.simps)

lemma split_absolute:
  assumes "list_all part_ok rs" and "split_parts (''/'' @ join ''/'' rs) False RejectParents = Inr (prefix, ps)"
  shows "prefix = ''/'' \<and> ps = rs"
proof -
  have c: "prefix = ''/''" "collect_parts False RejectParents (split_char CHR ''/'' (join ''/'' rs)) = Inr ps"
    using assms(2)
    by (auto simp: split_parts_def to_slashes_def strip_verbatim_def split_prefix_def rbind_Inr_iff
             split: if_splits)
  have "filter (\<lambda>p. p \<noteq> [] \<and> p \<noteq> ''.'') (split_char CHR ''/'' (join ''/'' rs)) = rs"
  proof (cases "rs = []")
    case False
    then have "split_char CHR ''/'' (join ''/'' rs) = rs"
      using assms(1) by (intro split_char_join) (auto simp: list_all_iff part_ok_def)
    then show ?thesis using assms(1) by (simp add: filter_id_conv list_all_iff part_ok_def)
  qed simp
  with collect_parts_Inr(1) [OF c(2)] c(1) show ?thesis by simp
qed

lemma resolve_normalized_unix:
  assumes "path_convention host = Unix"
    and "find (\<lambda>r. root_identifier r = root_id wd) (roots host) = Some root"
    and "split_parts (native_path root) False PreserveParents = Inr (''/'', native)"
    and "split_parts value False PreserveParents = Inr (prefix, cs)" and "prefix = [] \<or> prefix = ''/''"
    and "resolve_path_normalized host wd value = Inr p"
  shows "\<exists>r parts. root_matches host ''/'' (parts @ path_components (path p)) r parts \<and>
     root_identifier r = root_id p \<and>
     parts @ path_components (path p) =
       lexical (if prefix = [] then native @ path_components (path wd) else []) cs"
proof -
  define rs where "rs = lexical (if prefix = [] then native @ path_components (path wd) else []) cs"
  have wd: "portable_path (path wd)" using assms(6) by (auto simp: resolve_path_normalized_def rbind_Inr_iff)
  have nonempty: "value \<noteq> []" using assms(4) by (auto simp: split_parts_def)
  have res: "resolve_path host wd (''/'' @ join ''/'' rs) = Inr p"
    using assms wd nonempty
    by (auto simp: resolve_path_normalized_def rbind_Inr_iff Let_def to_slashes_def qualify_def
          lexical_def rs_def)
  have ok: "list_all part_ok rs"
    unfolding rs_def
    using split_parts_ok(1) [OF assms(3)] split_parts_ok(1) [OF assms(4)] portable_components(1) [OF wd]
    by (intro lexical_ok) simp_all
  obtain pre ps where sp: "split_parts (''/'' @ join ''/'' rs) False RejectParents = Inr (pre, ps)"
    using res assms(1) by (auto simp: resolve_path_def rbind_Inr_iff Let_def)
  have "split_parts (''/'' @ join ''/'' rs) (path_convention host = Windows) RejectParents = Inr (''/'', rs)"
    using split_absolute [OF ok sp] sp assms(1) by simp
  from resolve_path_absolute [OF this _ res]
  obtain r parts where r: "root_matches host ''/'' rs r parts" "root_identifier r = root_id p"
      and eq: "rs = parts @ path_components (path p)" by blast
  have "root_matches host ''/'' (parts @ path_components (path p)) r parts"
    using r(1) unfolding eq .
  moreover have "parts @ path_components (path p) =
      lexical (if prefix = [] then native @ path_components (path wd) else []) cs"
    using eq unfolding rs_def by (rule sym)
  ultimately show ?thesis using r(2) by blast
qed

lemma resolve_normalized_portable:
  assumes "resolve_path_normalized host wd value = Inr p"
  shows "portable_path (path p) \<and> root_id p \<in> root_identifier ` set (roots host)"
  using assms
  by (auto simp: resolve_path_normalized_def rbind_Inr_iff Let_def case_prod_unfold split: option.splits
           dest!: resolve_path_portable)

lemma qualify_no_panic: "no_panic (qualify windows base_prefix value)"
  by (simp add: qualify_def)

lemma resolve_normalized_no_panic: "no_panic (resolve_path_normalized host wd value)"
  unfolding resolve_path_normalized_def Let_def
  by (auto intro!: no_panic_rbind split_parts_no_panic qualify_no_panic resolve_path_no_panic
           split: option.splits)

section \<open>Properties\<close>

text \<open>
  C25: a path that the normalising resolver returns is always portable (relative, no parent, dot
  or empty segment, no backslash, drive prefix or NUL) and below a root that the host
  advertises, whatever the model wrote.
\<close>

theorem resolved_path_in_root:
  assumes "resolve_path_normalized host wd value = Inr p"
  shows "portable_path (path p) \<and> root_id p \<in> root_identifier ` set (roots host)"
  using assms by (rule resolve_normalized_portable)

definition sample_host :: host_descriptor where
  "sample_host = \<lparr>host_id = ''h'', supervisor_generation_id = ''g'', operating_system = Linux,
     architecture = ''x86_64'', path_convention = Unix,
     roots = [\<lparr>root_identifier = ''work'', root_name = ''work'', native_path = ''/work'', read_only = False\<rparr>,
              \<lparr>root_identifier = ''nested'', root_name = ''n'', native_path = ''/work/nested'', read_only = False\<rparr>],
     features = \<lparr>pty = False, process_signals = False, file_revisions = True\<rparr>,
     limits = \<lparr>max_read_bytes = None, max_write_bytes = None, max_process_read_bytes = None,
               max_process_input_bytes = None, max_concurrent_processes = None\<rparr>\<rparr>"

definition sample_wd :: exec_path where
  "sample_wd = \<lparr>root_id = ''work'', path = ''a''\<rparr>"

theorem resolved_path_in_root_witness:
  "portable_path (path \<lparr>root_id = ''work'', path = ''a/f''\<rparr>) \<and>
   root_id \<lparr>root_id = ''work'', path = ''a/f''\<rparr> \<in> root_identifier ` set (roots sample_host)"
proof (rule resolved_path_in_root)
  show "resolve_path_normalized sample_host sample_wd ''x/../f'' = Inr \<lparr>root_id = ''work'', path = ''a/f''\<rparr>"
    by code_simp
qed

text \<open>
  Neither resolver panics, for any host descriptor, working directory and input: every
  string slice and the slice of the path components after the root's is in range.
\<close>

theorem resolvers_never_panic:
  "no_panic (resolve_path host wd value) \<and> no_panic (resolve_path_normalized host wd value)"
  by (simp add: resolve_path_no_panic resolve_normalized_no_panic)

text \<open>
  The strict resolver appends a relative path to the working directory: the result keeps
  the root of the working directory and its components are those of the working directory
  followed by those of the input, so it can never leave the working directory.
\<close>

theorem relative_path_stays_below:
  assumes "split_parts value (path_convention host = Windows) RejectParents = Inr ([], ps)"
    and "resolve_path host wd value = Inr p"
  shows "root_id p = root_id wd \<and> path_components (path p) = path_components (path wd) @ ps"
  using assms by (rule resolve_path_relative)

theorem relative_path_stays_below_witness:
  "root_id \<lparr>root_id = ''work'', path = ''a/b/c''\<rparr> = root_id sample_wd \<and>
   path_components (path \<lparr>root_id = ''work'', path = ''a/b/c''\<rparr>) = path_components (path sample_wd) @ [''b'', ''c'']"
proof (rule relative_path_stays_below)
  show "split_parts ''./b//c'' (path_convention sample_host = Windows) RejectParents = Inr ([], [''b'', ''c''])"
    by code_simp
  show "resolve_path sample_host sample_wd ''./b//c'' = Inr \<lparr>root_id = ''work'', path = ''a/b/c''\<rparr>"
    by code_simp
qed

text \<open>
  An absolute path selects the most specific root. The native components of the chosen root
  followed by the returned components are the components of the input; every other root
  whose native path is a prefix of the input is strictly shorter.
\<close>

theorem absolute_path_longest_root:
  assumes "split_parts value (path_convention host = Windows) RejectParents = Inr (prefix, ps)"
    and "prefix \<noteq> []" and "resolve_path host wd value = Inr p"
  shows "\<exists>r parts. root_matches host prefix ps r parts \<and> root_identifier r = root_id p \<and>
     ps = parts @ path_components (path p) \<and>
     (\<forall>r' parts'. root_matches host prefix ps r' parts' \<longrightarrow>
        length parts' \<le> length parts \<and> (length parts' = length parts \<longrightarrow> r' = r))"
  using assms by (rule resolve_path_absolute)

theorem absolute_path_longest_root_witness:
  "\<exists>r parts. root_matches sample_host ''/'' [''work'', ''nested'', ''f''] r parts \<and>
     root_identifier r = root_id \<lparr>root_id = ''nested'', path = ''f''\<rparr> \<and>
     [''work'', ''nested'', ''f''] = parts @ path_components (path \<lparr>root_id = ''nested'', path = ''f''\<rparr>) \<and>
     (\<forall>r' parts'. root_matches sample_host ''/'' [''work'', ''nested'', ''f''] r' parts' \<longrightarrow>
        length parts' \<le> length parts \<and> (length parts' = length parts \<longrightarrow> r' = r))"
proof (rule absolute_path_longest_root)
  show "split_parts ''/work/nested/f'' (path_convention sample_host = Windows) RejectParents =
      Inr (''/'', [''work'', ''nested'', ''f''])" by code_simp
  show "resolve_path sample_host sample_wd ''/work/nested/f'' = Inr \<lparr>root_id = ''nested'', path = ''f''\<rparr>"
    by code_simp
qed simp

text \<open>
  On a Unix host the normalising resolver computes lexical normalisation: the native
  components of the returned root followed by the returned path are what remains after every
  parent segment has removed the component before it (stopping at the filesystem root),
  starting from the working directory for a relative input and from the root for an
  absolute one.
\<close>

theorem normalized_path_is_lexical:
  assumes "path_convention host = Unix"
    and "find (\<lambda>r. root_identifier r = root_id wd) (roots host) = Some root"
    and "split_parts (native_path root) False PreserveParents = Inr (''/'', native)"
    and "split_parts value False PreserveParents = Inr (prefix, cs)" and "prefix = [] \<or> prefix = ''/''"
    and "resolve_path_normalized host wd value = Inr p"
  shows "\<exists>r parts. root_matches host ''/'' (parts @ path_components (path p)) r parts \<and>
     root_identifier r = root_id p \<and>
     parts @ path_components (path p) =
       lexical (if prefix = [] then native @ path_components (path wd) else []) cs"
  using assms by (rule resolve_normalized_unix)

theorem normalized_path_is_lexical_witness:
  "\<exists>r parts. root_matches sample_host ''/'' (parts @ path_components (path \<lparr>root_id = ''work'', path = ''f''\<rparr>)) r parts \<and>
     root_identifier r = root_id \<lparr>root_id = ''work'', path = ''f''\<rparr> \<and>
     parts @ path_components (path \<lparr>root_id = ''work'', path = ''f''\<rparr>) =
       lexical (if [] = ([] :: string) then [''work''] @ path_components (path sample_wd) else []) [''..'', ''f'']"
proof (rule normalized_path_is_lexical)
  show "path_convention sample_host = Unix" by (simp add: sample_host_def)
  show "find (\<lambda>r. root_identifier r = root_id sample_wd) (roots sample_host) = Some
      \<lparr>root_identifier = ''work'', root_name = ''work'', native_path = ''/work'', read_only = False\<rparr>"
    by (simp add: sample_host_def sample_wd_def)
  show "split_parts (native_path \<lparr>root_identifier = ''work'', root_name = ''work'', native_path = ''/work'',
      read_only = False\<rparr>) False PreserveParents = Inr (''/'', [''work''])" by code_simp
  show "split_parts ''../f'' False PreserveParents = Inr ([], [''..'', ''f''])" by code_simp
  show "resolve_path_normalized sample_host sample_wd ''../f'' = Inr \<lparr>root_id = ''work'', path = ''f''\<rparr>" by code_simp
qed simp

end
