(* ===== verification/Patch_Update.thy ===== *)
theory Patch_Update
  imports Patch_Parser Exec_Core
begin

text \<open>
  The text update of \<open>tool-apply-patch\<close>
  (\<open>platform/packages/tools/apply-patch/src/update.rs\<close>): locating the chunks of an update hunk
  in a file with progressively weaker line matchers, computing the replacements, and applying
  them either to LF-normalised lines (in reverse, in place) or to source lines that keep their
  line endings. Slice indexing, \<open>Vec::insert\<close> and unsigned subtraction are modelled with their
  panics. The lemmas show that no patch the parser accepts can make the update panic, that the
  search returns the first match of the strongest matcher, and that both ways of applying
  replacements compute the same splice.
\<close>

section \<open>Locating lines\<close>

datatype update_mode = NormalizeToLf | PreserveLineEndings

type_synonym replacement = "nat \<times> nat \<times> string list"

definition unicode_table :: "(string \<times> char) list" where
  "unicode_table =
     map (\<lambda>w. (w, CHR ''-''))
       [[CHR 0xE2, CHR 0x80, CHR 0x90], [CHR 0xE2, CHR 0x80, CHR 0x91], [CHR 0xE2, CHR 0x80, CHR 0x92],
        [CHR 0xE2, CHR 0x80, CHR 0x93], [CHR 0xE2, CHR 0x80, CHR 0x94], [CHR 0xE2, CHR 0x80, CHR 0x95],
        [CHR 0xE2, CHR 0x88, CHR 0x92]]
     @ map (\<lambda>w. (w, SQUOTE))
       [[CHR 0xE2, CHR 0x80, CHR 0x98], [CHR 0xE2, CHR 0x80, CHR 0x99], [CHR 0xE2, CHR 0x80, CHR 0x9A],
        [CHR 0xE2, CHR 0x80, CHR 0x9B]]
     @ map (\<lambda>w. (w, CHR 0x22))
       [[CHR 0xE2, CHR 0x80, CHR 0x9C], [CHR 0xE2, CHR 0x80, CHR 0x9D], [CHR 0xE2, CHR 0x80, CHR 0x9E],
        [CHR 0xE2, CHR 0x80, CHR 0x9F]]
     @ map (\<lambda>w. (w, CHR '' ''))
       [[CHR 0xC2, CHR 0xA0], [CHR 0xE2, CHR 0x80, CHR 0x82], [CHR 0xE2, CHR 0x80, CHR 0x83],
        [CHR 0xE2, CHR 0x80, CHR 0x84], [CHR 0xE2, CHR 0x80, CHR 0x85], [CHR 0xE2, CHR 0x80, CHR 0x86],
        [CHR 0xE2, CHR 0x80, CHR 0x87], [CHR 0xE2, CHR 0x80, CHR 0x88], [CHR 0xE2, CHR 0x80, CHR 0x89],
        [CHR 0xE2, CHR 0x80, CHR 0x8A], [CHR 0xE2, CHR 0x80, CHR 0xAF], [CHR 0xE2, CHR 0x81, CHR 0x9F],
        [CHR 0xE3, CHR 0x80, CHR 0x80]]"

text \<open>The character map over UTF-8 bytes; a character outside the table is copied byte by byte.\<close>

function map_unicode :: "string \<Rightarrow> string" where
  "map_unicode [] = []"
| "map_unicode (b # s) = (case find (\<lambda>(w, _). starts_with w (b # s)) unicode_table of
     Some (w, c) \<Rightarrow> c # map_unicode (drop (length w - 1) s)
   | None \<Rightarrow> b # map_unicode s)"
  by pat_completeness auto
termination by (relation "measure length") auto

definition normalize_unicode :: "string \<Rightarrow> string" where
  "normalize_unicode value = map_unicode (trim value)"

definition matches_at :: "(string \<Rightarrow> string) \<Rightarrow> string list \<Rightarrow> string list \<Rightarrow> nat \<Rightarrow> bool" where
  "matches_at normalise lines pattern index =
     list_all (\<lambda>(actual, expected). normalise actual = normalise expected)
       (zip (take (length pattern) (drop index lines)) pattern)"

fun first_match ::
  "(string \<Rightarrow> string) list \<Rightarrow> string list \<Rightarrow> string list \<Rightarrow> nat list \<Rightarrow> nat option" where
  "first_match [] lines pattern candidates = None"
| "first_match (normalise # rest) lines pattern candidates =
     (case find (matches_at normalise lines pattern) candidates of
        Some index \<Rightarrow> Some index
      | None \<Rightarrow> first_match rest lines pattern candidates)"

definition matchers :: "(string \<Rightarrow> string) list" where
  "matchers = [\<lambda>s. s, trim_end, trim, normalize_unicode]"

definition search_start :: "update_mode \<Rightarrow> bool \<Rightarrow> nat \<Rightarrow> nat \<Rightarrow> nat" where
  "search_start um eof start end =
     (if eof then (case um of NormalizeToLf \<Rightarrow> end | PreserveLineEndings \<Rightarrow> max end start) else start)"

definition seek_sequence ::
  "string list \<Rightarrow> string list \<Rightarrow> nat \<Rightarrow> bool \<Rightarrow> update_mode \<Rightarrow> nat option" where
  "seek_sequence lines pattern start eof um =
     (if pattern = [] then Some start
      else if length lines < length pattern then None
      else let end = length lines - length pattern; ss = search_start um eof start end
           in if end < ss then None
              else first_match matchers lines pattern [ss..<Suc end])"

section \<open>Computing the replacements\<close>

text \<open>The crate's \<open>error\<close> helper of \<open>lib.rs\<close>.\<close>

definition patch_error :: "error_code \<Rightarrow> string \<Rightarrow> exec_error" where
  "patch_error c m = with_detail (exec_error_new c m) ''source'' (DText ''tool-apply-patch'')"

definition context_index ::
  "string list \<Rightarrow> string \<Rightarrow> update_mode \<Rightarrow> nat \<Rightarrow> string option \<Rightarrow> nat exec_result" where
  "context_index lines fname um line_index ctx = (case ctx of
     None \<Rightarrow> Inr line_index
   | Some c \<Rightarrow> (case seek_sequence lines [c] line_index False um of
       Some index \<Rightarrow> Inr (index + 1)
     | None \<Rightarrow> Inl (Fail (patch_error InvalidRequest
         (''Failed to find context '' @ quoted c @ '' in '' @ fname)))))"

definition insertion_index :: "string list \<Rightarrow> update_mode \<Rightarrow> nat" where
  "insertion_index lines um =
     (if um = NormalizeToLf \<and> last_is (\<lambda>l. l = []) lines then length lines - 1 else length lines)"

text \<open>The match of a chunk's old lines, retried without a trailing empty line.\<close>

definition locate_chunk ::
  "string list \<Rightarrow> update_mode \<Rightarrow> nat \<Rightarrow> update_file_chunk \<Rightarrow> string list \<times> string list \<times> nat option" where
  "locate_chunk lines um line_index c =
     (let found = seek_sequence lines (old_lines c) line_index (is_end_of_file c) um
      in if found = None \<and> last_is (\<lambda>l. l = []) (old_lines c)
         then let pattern = butlast (old_lines c);
                  replacement = (if last_is (\<lambda>l. l = []) (new_lines c) then butlast (new_lines c)
                                 else new_lines c)
              in (pattern, replacement, seek_sequence lines pattern line_index (is_end_of_file c) um)
         else (old_lines c, new_lines c, found))"

text \<open>The runs between context lines, as the line-ending preserving um replaces them.\<close>

fun preserve_pieces ::
  "nat \<Rightarrow> string list \<Rightarrow> string list \<Rightarrow> nat \<Rightarrow> nat \<Rightarrow> (nat \<times> nat) list \<Rightarrow> replacement list exec_result" where
  "preserve_pieces start pattern replacement old_start new_start [] =
     (if old_start \<noteq> length pattern \<or> new_start \<noteq> length replacement
      then rbind (usub (length pattern) old_start) (\<lambda>old_len.
           rbind (slice replacement new_start (length replacement)) (\<lambda>segment.
           Inr [(start + old_start, old_len, segment)]))
      else Inr [])"
| "preserve_pieces start pattern replacement old_start new_start ((old_context, new_context) # rest) =
     (if length pattern \<le> old_context \<or> length replacement \<le> new_context
      then preserve_pieces start pattern replacement old_start new_start []
      else rbind (if old_start \<noteq> old_context \<or> new_start \<noteq> new_context
             then rbind (usub old_context old_start) (\<lambda>old_len.
                  rbind (slice replacement new_start new_context) (\<lambda>segment.
                  Inr [(start + old_start, old_len, segment)]))
             else Inr [])
           (\<lambda>piece. rbind (preserve_pieces start pattern replacement
                            (old_context + 1) (new_context + 1) rest)
             (\<lambda>pieces. Inr (piece @ pieces))))"

definition chunk_replacements ::
  "update_mode \<Rightarrow> nat \<Rightarrow> string list \<Rightarrow> string list \<Rightarrow> update_file_chunk \<Rightarrow> replacement list exec_result" where
  "chunk_replacements um start pattern replacement c = (case um of
     NormalizeToLf \<Rightarrow> Inr [(start, length pattern, replacement)]
   | PreserveLineEndings \<Rightarrow> preserve_pieces start pattern replacement 0 0 (context_line_indices c))"

text \<open>One iteration of the loop over the chunks: the replacements pushed and the next \<open>line_index\<close>.\<close>

definition chunk_step ::
  "string list \<Rightarrow> string \<Rightarrow> update_mode \<Rightarrow> nat \<Rightarrow> update_file_chunk \<Rightarrow> (replacement list \<times> nat) exec_result" where
  "chunk_step lines fname um line_index c =
     rbind (context_index lines fname um line_index (change_context c)) (\<lambda>line_index.
       if old_lines c = [] then Inr ([(insertion_index lines um, 0, new_lines c)], line_index)
       else case locate_chunk lines um line_index c of
         (pattern, replacement, None) \<Rightarrow>
           Inl (Fail (patch_error InvalidRequest
             (''Failed to find expected lines in '' @ fname @ '':'' @ [LF] @ join [LF] (old_lines c))))
       | (pattern, replacement, Some start) \<Rightarrow>
           rbind (chunk_replacements um start pattern replacement c)
             (\<lambda>pieces. Inr (pieces, start + length pattern)))"

fun compute_loop ::
  "string list \<Rightarrow> string \<Rightarrow> update_mode \<Rightarrow> replacement list \<Rightarrow> nat \<Rightarrow> update_file_chunk list
    \<Rightarrow> replacement list exec_result" where
  "compute_loop lines fname um replacements line_index [] = Inr replacements"
| "compute_loop lines fname um replacements line_index (c # cs) =
     rbind (chunk_step lines fname um line_index c) (\<lambda>(pieces, next_index).
       compute_loop lines fname um (replacements @ pieces) next_index cs)"

definition compute_replacements ::
  "string list \<Rightarrow> string \<Rightarrow> update_file_chunk list \<Rightarrow> update_mode \<Rightarrow> replacement list exec_result" where
  "compute_replacements lines fname chunks um =
     rbind (compute_loop lines fname um [] 0 chunks) (\<lambda>reps. Inr (sort_key fst reps))"

section \<open>Applying them to normalised lines\<close>

fun remove_lines :: "string list \<Rightarrow> nat \<Rightarrow> nat \<Rightarrow> string list" where
  "remove_lines lines start 0 = lines"
| "remove_lines lines start (Suc n) =
     remove_lines (if start < length lines then vec_remove lines start else lines) start n"

fun insert_lines :: "string list \<Rightarrow> nat \<Rightarrow> string list \<Rightarrow> string list exec_result" where
  "insert_lines lines position [] = Inr lines"
| "insert_lines lines position (l # ls) =
     rbind (vec_insert lines position l) (\<lambda>lines'. insert_lines lines' (position + 1) ls)"

fun apply_reversed :: "string list \<Rightarrow> replacement list \<Rightarrow> string list exec_result" where
  "apply_reversed lines [] = Inr lines"
| "apply_reversed lines ((start, old_len, new) # rest) =
     rbind (insert_lines (remove_lines lines start old_len) start new)
       (\<lambda>lines'. apply_reversed lines' rest)"

definition apply_replacements :: "string list \<Rightarrow> replacement list \<Rightarrow> string list exec_result" where
  "apply_replacements lines replacements = apply_reversed lines (rev replacements)"

section \<open>Source files that keep their line endings\<close>

datatype line_ending = EndLf | EndCrLf | EndCr

fun as_str :: "line_ending \<Rightarrow> string" where
  "as_str EndLf = [LF]"
| "as_str EndCrLf = [CR, LF]"
| "as_str EndCr = [CR]"

record source_line =
  sl_text :: string
  sl_ending :: "line_ending option"

record source_file =
  sf_lines :: "source_line list"
  preferred_ending :: line_ending

definition get_or_insert :: "'a option \<Rightarrow> 'a \<Rightarrow> 'a" where
  "get_or_insert opt x = (case opt of Some y \<Rightarrow> y | None \<Rightarrow> x)"

text \<open>
  The scan of \<open>SourceFile::parse\<close>: \<open>current\<close> is \<open>contents[line_start..cursor]\<close> and the last
  argument \<open>contents[cursor..]\<close>.
\<close>

definition ending_at :: "char \<Rightarrow> string \<Rightarrow> (line_ending \<times> string) option" where
  "ending_at b s =
     (if b = CR then (case strip_prefix [LF] s of Some s' \<Rightarrow> Some (EndCrLf, s') | None \<Rightarrow> Some (EndCr, s))
      else if b = LF then Some (EndLf, s) else None)"

lemma ending_at_Some: "ending_at b s = Some (e, s') \<Longrightarrow> b # s = as_str e @ s'"
  by (auto simp: ending_at_def split: if_splits option.splits)

function parse_source :: "line_ending option \<Rightarrow> string \<Rightarrow> string \<Rightarrow> source_line list \<times> line_ending option" where
  "parse_source preferred current [] =
     (if current = [] then [] else [\<lparr>sl_text = current, sl_ending = None\<rparr>], preferred)"
| "parse_source preferred current (b # s) = (case ending_at b s of
     Some (e, s') \<Rightarrow>
       (let (ls, p) = parse_source (Some (get_or_insert preferred e)) [] s'
        in (\<lparr>sl_text = current, sl_ending = Some e\<rparr> # ls, p))
   | None \<Rightarrow> parse_source preferred (current @ [b]) s)"
  by pat_completeness auto
termination
proof (relation "measure (\<lambda>(_, _, s). length s)")
  fix preferred :: "line_ending option" and current b s and ls e s'
  assume "ending_at b s = Some ls" and "(e, s') = ls"
  then have "b # s = as_str e @ s'" by (simp add: ending_at_Some)
  from arg_cong [OF this, of length]
  show "((Some (get_or_insert preferred e), [], s'), preferred, current, b # s)
          \<in> measure (\<lambda>(_, _, s). length s)"
    by (cases e) simp_all
qed simp_all

definition source_parse :: "string \<Rightarrow> source_file" where
  "source_parse contents =
     (let (ls, preferred) = parse_source None [] contents
      in \<lparr>sf_lines = ls, preferred_ending = get_or_insert preferred EndLf\<rparr>)"

definition line_texts :: "source_file \<Rightarrow> string list" where
  "line_texts f = map sl_text (sf_lines f)"

fun splice_source ::
  "line_ending \<Rightarrow> source_line list \<Rightarrow> nat \<Rightarrow> replacement list \<Rightarrow> source_line list exec_result" where
  "splice_source preferred source index [] = Inr source"
| "splice_source preferred source index ((start, old_len, segment) # rest) =
     rbind (usub start index) (\<lambda>kept.
     rbind (splice_source preferred (drop old_len (drop kept source)) (start + old_len) rest)
       (\<lambda>tail. Inr (take kept source @ map (\<lambda>t. \<lparr>sl_text = t, sl_ending = Some preferred\<rparr>) segment @ tail)))"

definition source_apply_replacements :: "source_file \<Rightarrow> replacement list \<Rightarrow> source_file exec_result" where
  "source_apply_replacements f replacements =
     rbind (splice_source (preferred_ending f) (sf_lines f) 0 replacements) (\<lambda>ls.
       Inr (f\<lparr>sf_lines := map (\<lambda>l. l\<lparr>sl_ending := Some (get_or_insert (sl_ending l) (preferred_ending f))\<rparr>) ls\<rparr>))"

definition line_contents :: "source_line \<Rightarrow> string" where
  "line_contents l = sl_text l @ (case sl_ending l of Some e \<Rightarrow> as_str e | None \<Rightarrow> [])"

definition into_contents :: "source_file \<Rightarrow> string" where
  "into_contents f = concat (map line_contents (sf_lines f))"

section \<open>The update of one file\<close>

definition original_lines_lf :: "string \<Rightarrow> string list" where
  "original_lines_lf original =
     (let ls = split_char LF original in if last_is (\<lambda>l. l = []) ls then butlast ls else ls)"

definition finish_lines_lf :: "string list \<Rightarrow> string" where
  "finish_lines_lf ls = join [LF] (if last_is (\<lambda>l. l = []) ls then ls else ls @ [[]])"

definition derive_new_contents ::
  "string \<Rightarrow> string \<Rightarrow> update_file_chunk list \<Rightarrow> update_mode \<Rightarrow> string exec_result" where
  "derive_new_contents fname original chunks um = (case um of
     NormalizeToLf \<Rightarrow>
       (let original_lines = original_lines_lf original in
        rbind (compute_replacements original_lines fname chunks um) (\<lambda>replacements.
        rbind (apply_replacements original_lines replacements) (\<lambda>new_lines.
        Inr (finish_lines_lf new_lines))))
   | PreserveLineEndings \<Rightarrow>
       (let source = source_parse original in
        rbind (compute_replacements (line_texts source) fname chunks um) (\<lambda>replacements.
        rbind (source_apply_replacements source replacements) (\<lambda>source'.
        Inr (into_contents source')))))"

section \<open>What the search returns\<close>

lemma find_SomeD: "find P xs = Some x \<Longrightarrow> P x \<and> x \<in> set xs"
  by (induction xs) (auto split: if_splits)

lemma find_upt_Some_first: "find P [a..<b] = Some i \<Longrightarrow> a \<le> j \<Longrightarrow> j < i \<Longrightarrow> \<not> P j"
proof (induction "b - a" arbitrary: a)
  case (Suc n)
  then have "a < b" by simp
  then have "\<not> P a" if "a < i"
    using Suc.prems that by (auto simp: upt_conv_Cons split: if_splits)
  moreover have "find P [Suc a..<b] = Some i" if "a < i"
    using Suc.prems that \<open>a < b\<close> by (auto simp: upt_conv_Cons split: if_splits)
  ultimately show ?case
    using Suc.hyps(1) [of "Suc a"] Suc.hyps(2) Suc.prems by (cases "a = j") auto
qed simp

text \<open>The match of strongest matcher first, and of lowest index first for that matcher.\<close>

definition best_match ::
  "(string \<Rightarrow> string) list \<Rightarrow> string list \<Rightarrow> string list \<Rightarrow> nat set \<Rightarrow> nat \<Rightarrow> bool" where
  "best_match ms ls pat C i \<longleftrightarrow> i \<in> C \<and> (\<exists>before m after. ms = before @ m # after \<and> matches_at m ls pat i \<and>
     (\<forall>j \<in> C. j < i \<longrightarrow> \<not> matches_at m ls pat j) \<and>
     (\<forall>m' \<in> set before. \<forall>j \<in> C. \<not> matches_at m' ls pat j))"

lemma first_match_Some:
  "first_match ms ls pat [a..<b] = Some i \<Longrightarrow> best_match ms ls pat {a..<b} i"
proof (induction ms)
  case (Cons m ms)
  show ?case
  proof (cases "find (matches_at m ls pat) [a..<b]")
    case None
    with Cons have "best_match ms ls pat {a..<b} i" by simp
    then obtain before m' after where i: "i \<in> {a..<b}" and "ms = before @ m' # after" "matches_at m' ls pat i"
        "\<forall>j \<in> {a..<b}. j < i \<longrightarrow> \<not> matches_at m' ls pat j"
        "\<forall>m' \<in> set before. \<forall>j \<in> {a..<b}. \<not> matches_at m' ls pat j"
      unfolding best_match_def by blast
    moreover have "\<forall>j \<in> {a..<b}. \<not> matches_at m ls pat j"
      using None by (simp add: find_None_iff)
    ultimately have "m # ms = (m # before) @ m' # after \<and> matches_at m' ls pat i \<and>
        (\<forall>j \<in> {a..<b}. j < i \<longrightarrow> \<not> matches_at m' ls pat j) \<and>
        (\<forall>m'' \<in> set (m # before). \<forall>j \<in> {a..<b}. \<not> matches_at m'' ls pat j)"
      by simp
    with i show ?thesis unfolding best_match_def by blast
  next
    case (Some x)
    then have "x = i" using Cons.prems by simp
    with Some have "m # ms = [] @ m # ms \<and> matches_at m ls pat i \<and>
        (\<forall>j \<in> {a..<b}. j < i \<longrightarrow> \<not> matches_at m ls pat j)" and "i \<in> {a..<b}"
      by (auto dest: find_SomeD find_upt_Some_first)
    then show ?thesis unfolding best_match_def by (metis empty_iff empty_set)
  qed
qed simp

lemma first_match_None:
  "first_match ms ls pat cs = None \<longleftrightarrow> (\<forall>m \<in> set ms. \<forall>i \<in> set cs. \<not> matches_at m ls pat i)"
  by (induction ms) (auto simp: find_None_iff split: option.splits dest: find_SomeD)

text \<open>The positions a search may return, after the end-of-file adjustment.\<close>

definition search_range :: "update_mode \<Rightarrow> bool \<Rightarrow> nat \<Rightarrow> string list \<Rightarrow> string list \<Rightarrow> nat set" where
  "search_range um at_eof start ls pat =
     (if length ls < length pat then {}
      else {search_start um at_eof start (length ls - length pat) ..< Suc (length ls - length pat)})"

lemma seek_sequence_SomeD:
  assumes "pat \<noteq> []" and "seek_sequence ls pat start at_eof um = Some i"
  shows "best_match matchers ls pat (search_range um at_eof start ls pat) i"
  using assms
  by (auto simp: seek_sequence_def search_range_def Let_def simp del: upt_Suc split: if_splits
           dest: first_match_Some)

lemma seek_sequence_None_iff:
  assumes "pat \<noteq> []"
  shows "seek_sequence ls pat start at_eof um = None \<longleftrightarrow>
     (\<forall>m \<in> set matchers. \<forall>i \<in> search_range um at_eof start ls pat. \<not> matches_at m ls pat i)"
  using assms
  by (simp add: seek_sequence_def search_range_def Let_def first_match_None del: upt_Suc)

lemma seek_bounds:
  assumes "seek_sequence ls pat start at_eof um = Some i" and "start \<le> length ls"
  shows "i + length pat \<le> length ls" and "um = PreserveLineEndings \<Longrightarrow> start \<le> i"
    and "\<not> at_eof \<Longrightarrow> start \<le> i"
proof -
  consider "pat = []" | "pat \<noteq> []" "i \<in> search_range um at_eof start ls pat"
    using assms(1) seek_sequence_SomeD unfolding best_match_def by blast
  then have "i + length pat \<le> length ls \<and> (um = PreserveLineEndings \<longrightarrow> start \<le> i) \<and> (\<not> at_eof \<longrightarrow> start \<le> i)"
    using assms
    by cases (auto simp: seek_sequence_def search_range_def search_start_def split: if_splits update_mode.splits)
  then show "i + length pat \<le> length ls" and "um = PreserveLineEndings \<Longrightarrow> start \<le> i"
    and "\<not> at_eof \<Longrightarrow> start \<le> i" by blast+
qed

section \<open>Replacements stay inside the file\<close>

text \<open>
  \<open>rep_ok n\<close>: the replaced range lies in a file of \<open>n\<close> lines. \<open>rep_before\<close>: one range ends
  before another starts. \<open>rep_pushed n\<close> relates replacements in the order the loop pushes
  them: only insertions at the end of the file may be followed by an earlier range.
\<close>

fun rep_ok :: "nat \<Rightarrow> replacement \<Rightarrow> bool" where
  "rep_ok n (s, l, _) = (s + l \<le> n)"

fun rep_before :: "replacement \<Rightarrow> replacement \<Rightarrow> bool" where
  "rep_before (s, l, _) (s', _, _) = (s + l \<le> s')"

fun rep_pushed :: "nat \<Rightarrow> replacement \<Rightarrow> replacement \<Rightarrow> bool" where
  "rep_pushed n (s, l, _) (s', _, _) = (s + l \<le> s' \<or> s = n)"

fun rep_upto :: "nat \<Rightarrow> nat \<Rightarrow> replacement \<Rightarrow> bool" where
  "rep_upto n k (s, l, _) = (s + l \<le> k \<or> s = n)"

lemma preserve_pieces_ok:
  assumes "sorted_wrt (\<lambda>x y. fst x < fst y \<and> snd x < snd y) idx"
    and "\<forall>(i, j) \<in> set idx. old \<le> i \<and> new \<le> j" and "old \<le> length pat" and "new \<le> length rep"
  shows "\<exists>ps. preserve_pieces start pat rep old new idx = Inr ps \<and> sorted_wrt rep_before ps \<and>
     (\<forall>(s, l, _) \<in> set ps. start + old \<le> s \<and> s + l \<le> start + length pat)"
  using assms
proof (induction idx arbitrary: old new)
  case (Cons ij idx)
  obtain i j where ij: "ij = (i, j)" by force
  show ?case
  proof (cases "length pat \<le> i \<or> length rep \<le> j")
    case True
    then show ?thesis using Cons.prems by (auto simp: ij)
  next
    case False
    obtain ps where ps: "preserve_pieces start pat rep (i + 1) (j + 1) idx = Inr ps"
        "sorted_wrt rep_before ps"
        "\<forall>(s, l, _) \<in> set ps. start + (i + 1) \<le> s \<and> s + l \<le> start + length pat"
      using Cons.IH [of "i + 1" "j + 1"] Cons.prems False by (fastforce simp: ij)
    moreover have "old \<le> i" "new \<le> j" using Cons.prems by (auto simp: ij)
    ultimately show ?thesis
      using False by (cases "old = i \<and> new = j") (fastforce simp: ij)+
  qed
qed auto

lemma chunk_replacements_ok:
  assumes "indices_wf c" and "rep = new_lines c \<or> rep = butlast (new_lines c)"
    and "start + length pat \<le> n"
  shows "\<exists>ps. chunk_replacements um start pat rep c = Inr ps \<and> sorted_wrt rep_before ps \<and>
     (\<forall>(s, l, _) \<in> set ps. start \<le> s \<and> s + l \<le> start + length pat)"
  using assms preserve_pieces_ok [of "context_line_indices c" 0 0 pat rep start]
  by (cases um) (auto simp: chunk_replacements_def indices_wf_def)

lemma locate_chunk_Some:
  assumes "locate_chunk ls um k c = (pat, rep, Some start)"
  shows "seek_sequence ls pat k (is_end_of_file c) um = Some start"
    and "rep = new_lines c \<or> rep = butlast (new_lines c)"
  using assms by (auto simp: locate_chunk_def Let_def split: if_splits)

lemma context_index_bounds:
  assumes "context_index ls fname um k ctx = Inr k'" and "k \<le> length ls"
  shows "k \<le> k' \<and> k' \<le> length ls"
  using assms seek_bounds(1,3) [of ls "[the ctx]" k False um]
  by (fastforce simp: context_index_def split: option.splits)

lemma context_index_no_panic: "no_panic (context_index ls fname um k ctx)"
  by (auto simp: context_index_def split: option.splits)

lemma insertion_index_le: "insertion_index ls um \<le> length ls"
  by (simp add: insertion_index_def)

lemma insertion_index_preserve: "insertion_index ls PreserveLineEndings = length ls"
  by (simp add: insertion_index_def)

text \<open>What one chunk contributes: ranges of the fname, in order, never before the line index.\<close>

definition step_ok :: "nat \<Rightarrow> update_mode \<Rightarrow> nat \<Rightarrow> replacement list \<Rightarrow> nat \<Rightarrow> bool" where
  "step_ok n um k ps k' \<longleftrightarrow> k' \<le> n \<and> list_all (rep_ok n) ps \<and>
     (um = PreserveLineEndings \<longrightarrow> k \<le> k' \<and> sorted_wrt rep_before ps \<and>
        (\<forall>(s, l, _) \<in> set ps. k \<le> s \<and> (s + l \<le> k' \<or> s = n)))"

lemma chunk_step_ok:
  assumes "indices_wf c" and "k \<le> length ls" and "chunk_step ls fname um k c = Inr (ps, k')"
  shows "step_ok (length ls) um k ps k'"
proof -
  obtain k1 where k1: "context_index ls fname um k (change_context c) = Inr k1"
    using assms(3) by (auto simp: chunk_step_def rbind_Inr_iff)
  note b = context_index_bounds [OF k1 assms(2)]
  show ?thesis
  proof (cases "old_lines c = []")
    case True
    with assms(3) k1 b insertion_index_le [of ls um] show ?thesis
      by (cases um) (auto simp: chunk_step_def step_ok_def insertion_index_preserve)
  next
    case False
    obtain pat rep start where l: "locate_chunk ls um k1 c = (pat, rep, Some start)"
      using assms(3) k1 False
      by (cases "locate_chunk ls um k1 c") (auto simp: chunk_step_def split: option.splits)
    note sb = seek_bounds [OF locate_chunk_Some(1) [OF l]]
    have fit: "start + length pat \<le> length ls" using b sb(1) by blast
    from chunk_replacements_ok [OF assms(1) locate_chunk_Some(2) [OF l] fit]
    obtain qs where qs: "chunk_replacements um start pat rep c = Inr qs" "sorted_wrt rep_before qs"
        "\<forall>(s, l, _) \<in> set qs. start \<le> s \<and> s + l \<le> start + length pat" by blast
    have "ps = qs" "k' = start + length pat"
      using assms(3) k1 False l qs(1) by (auto simp: chunk_step_def)
    with qs fit b sb(2) show ?thesis
      by (fastforce simp: step_ok_def list_all_iff)
  qed
qed

lemma chunk_step_no_panic:
  assumes "indices_wf c" and "k \<le> length ls"
  shows "no_panic (chunk_step ls fname um k c)"
proof (cases "context_index ls fname um k (change_context c)")
  case (Inl e)
  then show ?thesis
    using context_index_no_panic [of ls fname um k "change_context c"]
    by (cases e) (simp_all add: chunk_step_def)
next
  case (Inr k1)
  note b = context_index_bounds [OF Inr assms(2)]
  obtain pat rep found where l: "locate_chunk ls um k1 c = (pat, rep, found)" by (cases "locate_chunk ls um k1 c")
  have "\<exists>ps. chunk_replacements um start pat rep c = Inr ps" if "found = Some start" for start
    using seek_bounds(1) [OF locate_chunk_Some(1)] locate_chunk_Some(2) b l that
      chunk_replacements_ok [OF assms(1), of rep start pat "length ls" um] by blast
  then show ?thesis
    using Inr l by (cases found) (auto simp: chunk_step_def)
qed

definition pushed_ok :: "nat \<Rightarrow> update_mode \<Rightarrow> nat \<Rightarrow> replacement list \<Rightarrow> bool" where
  "pushed_ok n um k reps \<longleftrightarrow> k \<le> n \<and> list_all (rep_ok n) reps \<and>
     (um = PreserveLineEndings \<longrightarrow> sorted_wrt (rep_pushed n) reps \<and> list_all (rep_upto n k) reps)"

lemma pushed_ok_step:
  assumes "pushed_ok n um k reps" and "step_ok n um k ps k'"
  shows "pushed_ok n um k' (reps @ ps)"
proof -
  have "sorted_wrt (rep_pushed n) (reps @ ps) \<and> list_all (rep_upto n k') (reps @ ps)"
    if um: "um = PreserveLineEndings"
  proof -
    have "sorted_wrt (rep_pushed n) ps"
      using assms(2) um by (auto simp: step_ok_def intro: sorted_wrt_mono_rel [of ps rep_before])
    then show ?thesis
      using assms um by (fastforce simp: pushed_ok_def step_ok_def sorted_wrt_append list_all_iff)
  qed
  then show ?thesis
    using assms by (auto simp: pushed_ok_def step_ok_def)
qed

lemma compute_loop_ok:
  assumes "list_all indices_wf cs" and "pushed_ok (length ls) um k reps"
  shows "no_panic (compute_loop ls fname um reps k cs) \<and>
     (\<forall>out. compute_loop ls fname um reps k cs = Inr out \<longrightarrow> (\<exists>k'. pushed_ok (length ls) um k' out))"
  using assms
proof (induction cs arbitrary: reps k)
  case (Cons c cs)
  have k: "k \<le> length ls" and c: "indices_wf c" using Cons.prems by (auto simp: pushed_ok_def)
  show ?case
  proof (cases "chunk_step ls fname um k c")
    case (Inl e)
    then show ?thesis using chunk_step_no_panic [OF c k, where fname = fname and um = um] by (auto simp: no_panic_def)
  next
    case (Inr r)
    obtain ps k' where r: "r = (ps, k')" by force
    from Inr chunk_step_ok [OF c k] pushed_ok_step [OF Cons.prems(2)] Cons.IH [of k' "reps @ ps"] Cons.prems(1)
    show ?thesis by (simp add: r)
  qed
qed auto

lemma insort_before:
  assumes "sorted_wrt rep_before ys" and "\<forall>y \<in> set ys. rep_pushed n x y"
    and "rep_ok n x" and "\<forall>y \<in> set ys. rep_ok n y"
  shows "sorted_wrt rep_before (insort_key fst x ys)"
  using assms
proof (induction ys)
  case (Cons y ys)
  obtain s l t where x: "x = (s, l, t)" by (cases x)
  obtain s' l' t' where y: "y = (s', l', t')" by (cases y)
  show ?case
  proof (cases "s \<le> s'")
    case True
    have "rep_before x z" if "z \<in> set (y # ys)" for z
    proof -
      have "rep_pushed n x z" and "z = y \<or> rep_before y z"
        using that Cons.prems by auto
      moreover from this(2) have "s' \<le> fst z" by (cases z) (auto simp: y)
      ultimately show ?thesis
        using Cons.prems(3) True by (cases z) (auto simp: x)
    qed
    with Cons.prems True show ?thesis by (simp add: x y)
  next
    case False
    then have "s = n" and "rep_before y x" using Cons.prems by (auto simp: x y)
    with Cons False show ?thesis by (simp add: set_insort_key) (simp add: x y)
  qed
qed simp

lemma sort_before:
  assumes "sorted_wrt (rep_pushed n) reps" and "list_all (rep_ok n) reps"
  shows "sorted_wrt rep_before (sort_key fst reps)"
  using assms
proof (induction reps)
  case (Cons r reps)
  then show ?case
    using insort_before [of "sort_key fst reps" n r] by (simp add: list_all_iff)
qed simp

lemma compute_replacements_ok:
  assumes "list_all indices_wf cs"
  shows "no_panic (compute_replacements ls fname cs um)"
    and "compute_replacements ls fname cs um = Inr reps \<Longrightarrow> list_all (rep_ok (length ls)) reps"
    and "compute_replacements ls fname cs um = Inr reps \<Longrightarrow> sorted (map fst reps)"
    and "compute_replacements ls fname cs um = Inr reps \<Longrightarrow> um = PreserveLineEndings \<Longrightarrow>
           sorted_wrt rep_before reps"
proof -
  have base: "pushed_ok (length ls) um 0 []" for um by (simp add: pushed_ok_def)
  note ok = compute_loop_ok [OF assms base, where fname = fname]
  show "no_panic (compute_replacements ls fname cs um)"
    using ok by (simp add: compute_replacements_def)
  show "sorted (map fst reps)" if "compute_replacements ls fname cs um = Inr reps"
    using that by (auto simp: compute_replacements_def rbind_Inr_iff)
  fix reps um assume "compute_replacements ls fname cs um = Inr reps"
  then obtain raw where raw: "compute_loop ls fname um [] 0 cs = Inr raw" "reps = sort_key fst raw"
    by (auto simp: compute_replacements_def rbind_Inr_iff)
  then obtain k where k: "pushed_ok (length ls) um k raw" using ok [of um] by blast
  then have "list_all (rep_ok (length ls)) reps \<and> (um = PreserveLineEndings \<longrightarrow> sorted_wrt rep_before reps)"
    using raw(2) sort_before [of "length ls" raw] by (simp add: pushed_ok_def list.pred_set)
  then show "list_all (rep_ok (length ls)) reps" and "um = PreserveLineEndings \<Longrightarrow> sorted_wrt rep_before reps"
    by blast+
qed

section \<open>Applying replacements is splicing\<close>

text \<open>
  The reference: walk through the lines once, keeping what lies between the ranges.
  \<open>splice1\<close> is the single in-place edit that the reverse application performs.
\<close>

fun splice_ranges :: "nat \<Rightarrow> 'a list \<Rightarrow> (nat \<times> nat \<times> 'a list) list \<Rightarrow> 'a list" where
  "splice_ranges k xs [] = xs"
| "splice_ranges k xs ((s, l, new) # rs) = take (s - k) xs @ new @ splice_ranges (s + l) (drop (s - k + l) xs) rs"

fun splice1 :: "'a list \<Rightarrow> (nat \<times> nat \<times> 'a list) \<Rightarrow> 'a list" where
  "splice1 xs (s, l, new) = take s xs @ new @ drop (s + l) xs"

lemma remove_lines_eq: "s \<le> length ls \<Longrightarrow> remove_lines ls s n = take s ls @ drop (s + n) ls"
  by (induction n arbitrary: ls) (auto simp: vec_remove_def add.commute)

lemma insert_lines_eq: "s \<le> length ls \<Longrightarrow> insert_lines ls s new = Inr (take s ls @ new @ drop s ls)"
  by (induction new arbitrary: ls s) auto

lemma apply_step_eq:
  "s \<le> length ls \<Longrightarrow> insert_lines (remove_lines ls s l) s new = Inr (splice1 ls (s, l, new))"
  by (simp add: remove_lines_eq insert_lines_eq)

lemma apply_reversed_eq:
  assumes "sorted (rev (map fst rs))" and "\<forall>r \<in> set rs. fst r \<le> length ls"
  shows "apply_reversed ls rs = Inr (foldl splice1 ls rs)"
  using assms
proof (induction rs arbitrary: ls)
  case (Cons r rs)
  obtain s l new where r: "r = (s, l, new)" by (cases r)
  have "\<forall>r \<in> set rs. fst r \<le> length (splice1 ls (s, l, new))"
    using Cons.prems by (fastforce simp: r sorted_append)
  with Cons.prems Cons.IH [of "splice1 ls (s, l, new)"] show ?case
    by (simp add: r apply_step_eq sorted_append del: splice1.simps)
qed simp

lemma apply_replacements_eq:
  assumes "sorted (map fst rs)" and "list_all (rep_ok (length ls)) rs"
  shows "apply_replacements ls rs = Inr (foldr (\<lambda>r xs. splice1 xs r) rs ls)"
proof -
  have "\<forall>r \<in> set (rev rs). fst r \<le> length ls" using assms(2) by (fastforce simp: list_all_iff)
  with apply_reversed_eq [of "rev rs" ls] assms(1) show ?thesis
    by (simp add: apply_replacements_def rev_map foldl_conv_foldr)
qed

lemma splice_split:
  assumes "\<forall>r \<in> set rs. m \<le> fst r" and "k \<le> m" and "m \<le> k + length xs"
  shows "splice_ranges k xs rs = take (m - k) xs @ splice_ranges m (drop (m - k) xs) rs"
proof (cases rs)
  case (Cons r rs')
  obtain s l new where "r = (s, l, new)" by (cases r)
  with assms Cons show ?thesis
    by (simp add: take_add [symmetric] drop_drop [symmetric] ac_simps)
qed simp

lemma splice_foldr:
  assumes "sorted_wrt rep_before rs" and "list_all (rep_ok (length ls)) rs"
  shows "foldr (\<lambda>r xs. splice1 xs r) rs ls = splice_ranges 0 ls rs"
  using assms
proof (induction rs)
  case (Cons r rs)
  obtain s l new where r: "r = (s, l, new)" by (cases r)
  have after: "\<forall>r \<in> set rs. s + l \<le> fst r" and fit: "s + l \<le> length ls"
    using Cons.prems by (fastforce simp: r)+
  from splice_split [OF after, of 0 ls] fit Cons show ?case
    by (simp add: r)
qed simp

lemma splice_map:
  "map f (splice_ranges k xs rs) = splice_ranges k (map f xs) (map (\<lambda>(s, l, new). (s, l, map f new)) rs)"
  by (induction rs arbitrary: k xs) (auto simp: take_map drop_map)

text \<open>The replacements as source lines, the new lines with the preferred ending.\<close>

definition source_replacements :: "line_ending \<Rightarrow> replacement list \<Rightarrow> (nat \<times> nat \<times> source_line list) list" where
  "source_replacements e = map (\<lambda>(s, l, new). (s, l, map (\<lambda>t. \<lparr>sl_text = t, sl_ending = Some e\<rparr>) new))"

lemma splice_source_eq:
  assumes "sorted_wrt rep_before rs" and "\<forall>r \<in> set rs. k \<le> fst r"
  shows "splice_source e src k rs = Inr (splice_ranges k src (source_replacements e rs))"
  using assms
proof (induction rs arbitrary: k src)
  case (Cons r rs)
  obtain s l new where r: "r = (s, l, new)" by (cases r)
  have "\<forall>r \<in> set rs. s + l \<le> fst r" using Cons.prems by (fastforce simp: r)
  with Cons.prems Cons.IH [of "s + l" "drop (s - k + l) src"] show ?case
    by (simp add: r source_replacements_def add.commute)
qed (simp add: source_replacements_def)

definition with_ending :: "line_ending \<Rightarrow> source_line \<Rightarrow> source_line" where
  "with_ending e l = l\<lparr>sl_ending := Some (get_or_insert (sl_ending l) e)\<rparr>"

lemma source_apply_eq:
  assumes "sorted_wrt rep_before rs"
  shows "source_apply_replacements f rs =
     Inr (f\<lparr>sf_lines := map (with_ending (preferred_ending f))
             (splice_ranges 0 (sf_lines f) (source_replacements (preferred_ending f) rs))\<rparr>)"
  using splice_source_eq [OF assms, of 0]
  by (simp add: source_apply_replacements_def with_ending_def [abs_def])

lemma source_replacements_text:
  "map (\<lambda>(s, l, new). (s, l, map sl_text new)) (source_replacements e rs) = rs"
  by (induction rs) (auto simp: source_replacements_def comp_def)

lemma source_apply_texts:
  assumes "sorted_wrt rep_before rs"
  shows "\<exists>f'. source_apply_replacements f rs = Inr f' \<and> line_texts f' = splice_ranges 0 (line_texts f) rs"
proof -
  have t: "map sl_text (map (with_ending e) ls) = map sl_text ls" for e ls by (simp add: with_ending_def)
  have "map sl_text (splice_ranges 0 ls (source_replacements e rs)) = splice_ranges 0 (map sl_text ls) rs" for e ls
    by (simp only: splice_map source_replacements_text)
  then show ?thesis
    unfolding source_apply_eq [OF assms] line_texts_def by (simp add: t del: map_map)
qed

lemma compute_starts_sorted: "sorted_wrt rep_before rs \<Longrightarrow> sorted (map fst rs)"
  by (induction rs) fastforce+

lemma derive_new_contents_no_panic:
  assumes "list_all indices_wf chunks"
  shows "no_panic (derive_new_contents fname original chunks um)"
proof (cases um)
  case NormalizeToLf
  have "no_panic (apply_replacements ls reps)"
    if "compute_replacements ls fname chunks NormalizeToLf = Inr reps" for ls reps
    using compute_replacements_ok(2,3) [OF assms that] by (simp add: apply_replacements_eq)
  then show ?thesis
    using compute_replacements_ok(1) [OF assms]
    by (auto simp: NormalizeToLf derive_new_contents_def Let_def intro!: no_panic_rbind)
next
  case PreserveLineEndings
  have "no_panic (source_apply_replacements f reps)"
    if "compute_replacements ls fname chunks PreserveLineEndings = Inr reps" for f ls reps
    using compute_replacements_ok(4) [OF assms that refl] by (simp add: source_apply_eq)
  then show ?thesis
    using compute_replacements_ok(1) [OF assms]
    by (auto simp: PreserveLineEndings derive_new_contents_def Let_def intro!: no_panic_rbind)
qed

section \<open>Source files\<close>

lemma parse_source_contents:
  "parse_source p cur s = (ls, p') \<Longrightarrow> concat (map line_contents ls) = cur @ s"
proof (induction p cur s arbitrary: ls p' rule: parse_source.induct)
  case (2 p cur b s)
  show ?case
  proof (cases "ending_at b s")
    case None
    with 2 show ?thesis by auto
  next
    case (Some r)
    obtain e s' where r: "r = (e, s')" by force
    obtain ls' q where rec: "parse_source (Some (get_or_insert p e)) [] s' = (ls', q)" by force
    have "ls = \<lparr>sl_text = cur, sl_ending = Some e\<rparr> # ls'"
      using 2(3) by (simp add: Some r rec)
    moreover have "concat (map line_contents ls') = s'"
      using 2(2) [OF Some r [symmetric] rec] by simp
    moreover have "b # s = as_str e @ s'"
      using ending_at_Some Some r by blast
    moreover have "line_contents \<lparr>sl_text = cur, sl_ending = Some e\<rparr> = cur @ as_str e"
      by (simp add: line_contents_def)
    ultimately show ?thesis by simp
  qed
qed (auto simp: line_contents_def)

lemma into_contents_source_parse: "into_contents (source_parse s) = s"
  using parse_source_contents [of None "[]" s]
  by (auto simp: source_parse_def into_contents_def split: prod.splits)

lemma parse_source_texts:
  assumes "parse_source p cur s = (ls, p')" and "CR \<notin> set cur" and "LF \<notin> set cur"
  shows "list_all (\<lambda>l. CR \<notin> set (sl_text l) \<and> LF \<notin> set (sl_text l)) ls"
  using assms
proof (induction p cur s arbitrary: ls p' rule: parse_source.induct)
  case (2 p cur b s)
  then show ?case
    by (fastforce simp: ending_at_def split: option.splits prod.splits if_splits)
qed auto

section \<open>Patches whose chunks are found where they were made\<close>

text \<open>
  A file seen as unchanged runs of lines alternating with the old lines of chunks;
  \<open>placed\<close> says that no chunk matches exactly before its own place.
\<close>

fun before_lines :: "(string list \<times> update_file_chunk) list \<Rightarrow> string list \<Rightarrow> string list" where
  "before_lines [] post = post"
| "before_lines ((pre, c) # segs) post = pre @ old_lines c @ before_lines segs post"

fun after_lines :: "(string list \<times> update_file_chunk) list \<Rightarrow> string list \<Rightarrow> string list" where
  "after_lines [] post = post"
| "after_lines ((pre, c) # segs) post = pre @ new_lines c @ after_lines segs post"

fun placed :: "(string list \<times> update_file_chunk) list \<Rightarrow> string list \<Rightarrow> bool" where
  "placed [] post = True"
| "placed ((pre, c) # segs) post =
     (change_context c = None \<and> \<not> is_end_of_file c \<and> old_lines c \<noteq> [] \<and>
      list_all (\<lambda>j. \<not> matches_at (\<lambda>l. l) (pre @ old_lines c @ before_lines segs post) (old_lines c) j)
        [0..<length pre] \<and>
      placed segs post)"

fun seg_replacements :: "nat \<Rightarrow> (string list \<times> update_file_chunk) list \<Rightarrow> replacement list" where
  "seg_replacements k [] = []"
| "seg_replacements k ((pre, c) # segs) =
     (k + length pre, length (old_lines c), new_lines c)
       # seg_replacements (k + length pre + length (old_lines c)) segs"

lemma matches_at_drop: "matches_at m (done @ ls) pat (length done + j) = matches_at m ls pat j"
  by (simp add: matches_at_def)

lemma matches_at_here: "matches_at m (pre @ pat @ post) pat (length pre)"
  by (auto simp: matches_at_def list_all_iff zip_same)

lemma best_match_unique:
  assumes "best_match ms ls pat C i" and "best_match ms ls pat C j"
  shows "i = j"
proof -
  obtain b m a where 1: "i \<in> C" "ms = b @ m # a" "matches_at m ls pat i"
      "\<forall>j \<in> C. j < i \<longrightarrow> \<not> matches_at m ls pat j" "\<forall>m' \<in> set b. \<forall>j \<in> C. \<not> matches_at m' ls pat j"
    using assms(1) unfolding best_match_def by blast
  obtain b' m' a' where 2: "j \<in> C" "ms = b' @ m' # a'" "matches_at m' ls pat j"
      "\<forall>j' \<in> C. j' < j \<longrightarrow> \<not> matches_at m' ls pat j'" "\<forall>m' \<in> set b'. \<forall>j \<in> C. \<not> matches_at m' ls pat j"
    using assms(2) unfolding best_match_def by blast
  have "b = b' \<and> m = m'"
    using 1(2,3,5) 2(2,3,5) 1(1) 2(1)
    by (auto simp: append_eq_append_conv2 Cons_eq_append_conv append_eq_Cons_conv)
  with 1 2 show ?thesis by (metis linorder_neqE_nat)
qed

lemma seek_exact_first:
  assumes "pat \<noteq> []" and "\<forall>j < length pre. \<not> matches_at (\<lambda>l. l) (pre @ pat @ post) pat j"
  shows "seek_sequence (done @ pre @ pat @ post) pat (length done) False um = Some (length done + length pre)"
proof -
  let ?ls = "done @ pre @ pat @ post" and ?i = "length done + length pre"
  let ?C = "search_range um False (length done) ?ls pat"
  have C: "?C = {length done ..< Suc (length done + length pre + length post)}"
    by (auto simp: search_range_def search_start_def)
  have "best_match matchers ?ls pat ?C ?i"
    unfolding best_match_def
  proof (intro conjI exI)
    show "?i \<in> ?C" by (simp add: C)
    show "matchers = [] @ (\<lambda>l. l) # [trim_end, trim, normalize_unicode]" by (simp add: matchers_def)
    show "matches_at (\<lambda>l. l) ?ls pat ?i" by (simp only: matches_at_drop matches_at_here)
    show "\<forall>j \<in> ?C. j < ?i \<longrightarrow> \<not> matches_at (\<lambda>l. l) ?ls pat j"
    proof (intro ballI impI)
      fix j assume "j \<in> ?C" and "j < ?i"
      then obtain d where "j = length done + d" "d < length pre"
        by (auto simp: C) (metis add_less_cancel_left le_Suc_ex)
      with assms(2) show "\<not> matches_at (\<lambda>l. l) ?ls pat j" by (simp add: matches_at_drop)
    qed
  qed simp
  moreover have "seek_sequence ?ls pat (length done) False um \<noteq> None"
    using calculation unfolding seek_sequence_None_iff [OF assms(1)] best_match_def
    by (metis in_set_conv_decomp)
  ultimately show ?thesis
    using seek_sequence_SomeD [OF assms(1)] best_match_unique by (metis not_None_eq)
qed

lemma compute_loop_placed:
  assumes "placed segs post"
  shows "compute_loop (done @ before_lines segs post) fname NormalizeToLf reps (length done) (map snd segs) =
     Inr (reps @ seg_replacements (length done) segs)"
  using assms
proof (induction segs arbitrary: "done" reps)
  case (Cons seg segs)
  obtain pre c where seg: "seg = (pre, c)" by force
  let ?ls = "done @ pre @ old_lines c @ before_lines segs post"
  have "seek_sequence ?ls (old_lines c) (length done) False NormalizeToLf = Some (length done + length pre)"
    using Cons.prems by (intro seek_exact_first) (auto simp: seg list_all_iff)
  then have step: "chunk_step ?ls fname NormalizeToLf (length done) c =
      Inr ([(length done + length pre, length (old_lines c), new_lines c)],
           length done + length pre + length (old_lines c))"
    using Cons.prems
    by (simp add: seg chunk_step_def context_index_def locate_chunk_def Let_def chunk_replacements_def)
  from Cons.IH [of "done @ pre @ old_lines c"] Cons.prems step show ?case
    by (simp add: seg add.assoc)
qed simp

lemma seg_replacements_sorted:
  "sorted_wrt rep_before (seg_replacements k segs) \<and> (\<forall>r \<in> set (seg_replacements k segs). k \<le> fst r)"
proof (induction k segs rule: seg_replacements.induct)
  case (2 k pre c segs)
  then show ?case by fastforce
qed simp

lemma splice_seg_replacements:
  "splice_ranges k (before_lines segs post) (seg_replacements k segs) = after_lines segs post"
  by (induction segs arbitrary: k) auto

lemma seg_replacements_ok:
  "length (before_lines segs post) + k \<le> n \<Longrightarrow> list_all (rep_ok n) (seg_replacements k segs)"
  by (induction k segs rule: seg_replacements.induct) auto

lemma derive_placed:
  assumes "original_lines_lf original = before_lines segs post" and "placed segs post"
  shows "derive_new_contents fname original (map snd segs) NormalizeToLf =
     Inr (finish_lines_lf (after_lines segs post))"
proof -
  let ?rs = "seg_replacements 0 segs"
  have srt: "sorted (map fst ?rs)" by (intro compute_starts_sorted) (simp add: seg_replacements_sorted)
  have "compute_replacements (before_lines segs post) fname (map snd segs) NormalizeToLf = Inr ?rs"
    using compute_loop_placed [OF assms(2), of "[]" fname "[]"] srt
    by (simp add: compute_replacements_def sort_key_id_if_sorted)
  moreover have "apply_replacements (before_lines segs post) ?rs = Inr (after_lines segs post)"
    using seg_replacements_ok [of segs post 0] seg_replacements_sorted [of 0 segs] srt
    by (simp add: apply_replacements_eq splice_foldr splice_seg_replacements)
  ultimately show ?thesis
    by (simp add: derive_new_contents_def assms(1))
qed

section \<open>The lines of an updated file\<close>

lemma original_lines_lf_set: "\<forall>l \<in> set (original_lines_lf original). LF \<notin> set l"
  by (auto simp: original_lines_lf_def Let_def dest: in_set_butlastD split_char_free split: if_splits)

lemma locate_chunk_new:
  "locate_chunk ls um k c = (pattern, replacement, found) \<Longrightarrow> set replacement \<subseteq> set (new_lines c)"
  by (auto simp: locate_chunk_def Let_def dest: in_set_butlastD split: if_splits option.splits)

lemma chunk_step_new:
  "chunk_step ls fname NormalizeToLf k c = Inr (pieces, k') \<Longrightarrow> r \<in> set pieces \<Longrightarrow> set (snd (snd r)) \<subseteq> set (new_lines c)"
  using locate_chunk_new
  by (fastforce simp: chunk_step_def rbind_Inr_iff chunk_replacements_def split: if_splits prod.splits option.splits)

lemma compute_loop_new:
  assumes "compute_loop ls fname NormalizeToLf reps k chunks = Inr reps'" and "r \<in> set reps'"
  shows "r \<in> set reps \<or> (\<exists>c \<in> set chunks. set (snd (snd r)) \<subseteq> set (new_lines c))"
  using assms
proof (induction chunks arbitrary: reps k)
  case (Cons c chunks)
  then obtain pieces k' where st: "chunk_step ls fname NormalizeToLf k c = Inr (pieces, k')"
      and "compute_loop ls fname NormalizeToLf (reps @ pieces) k' chunks = Inr reps'"
    by (auto simp: rbind_Inr_iff)
  from Cons.IH [OF this(2) Cons.prems(2)] chunk_step_new [OF st, of r] show ?case by auto
qed simp

lemma compute_replacements_new:
  "compute_replacements ls fname chunks NormalizeToLf = Inr reps \<Longrightarrow> r \<in> set reps \<Longrightarrow>
     \<exists>c \<in> set chunks. set (snd (snd r)) \<subseteq> set (new_lines c)"
  using compute_loop_new [of ls fname "[]" 0 chunks _ r] by (auto simp: compute_replacements_def rbind_Inr_iff)

lemma remove_lines_set: "l \<in> set (remove_lines ls start n) \<Longrightarrow> l \<in> set ls"
  by (induction ls start n rule: remove_lines.induct)
     (auto simp: vec_remove_def dest: in_set_takeD in_set_dropD split: if_splits)

lemma insert_lines_set: "insert_lines ls start new = Inr ls' \<Longrightarrow> set ls' \<subseteq> set ls \<union> set new"
proof (induction ls start new arbitrary: ls' rule: insert_lines.induct)
  case (2 ls start new news)
  from "2.prems" obtain ls1 where v: "(vec_insert ls start new :: string list exec_result) = Inr ls1" and i: "insert_lines ls1 (start + 1) news = Inr ls'"
    unfolding insert_lines.simps rbind_Inr_iff by blast
  have "set ls1 \<subseteq> insert new (set ls)"
    using v by (auto simp: vec_insert_def dest: in_set_takeD in_set_dropD split: if_splits)
  with "2.IH" [OF i] show ?case by auto
qed simp

lemma apply_reversed_set:
  "apply_reversed ls reps = Inr ls' \<Longrightarrow> set ls' \<subseteq> set ls \<union> (\<Union>r \<in> set reps. set (snd (snd r)))"
proof (induction ls reps arbitrary: ls' rule: apply_reversed.induct)
  case (2 ls start n new reps)
  then obtain ls1 where i: "insert_lines (remove_lines ls start n) start new = Inr ls1"
      and a: "apply_reversed ls1 reps = Inr ls'"
    by (auto simp: rbind_Inr_iff)
  have "set ls1 \<subseteq> set ls \<union> set new" using insert_lines_set [OF i] remove_lines_set by fast
  with "2.IH" [OF a] show ?case by auto
qed simp

lemma apply_replacements_set:
  "apply_replacements ls reps = Inr ls' \<Longrightarrow> l \<in> set ls' \<Longrightarrow> l \<in> set ls \<or> (\<exists>r \<in> set reps. l \<in> set (snd (snd r)))"
  using apply_reversed_set [of ls "rev reps" ls'] by (auto simp: apply_replacements_def)

lemma last_is_Nil: "last_is (\<lambda>l. l = []) ls \<longleftrightarrow> (\<exists>ls'. ls = ls' @ [[]])"
  by (cases ls rule: rev_cases) (auto simp: last_is_def vec_last_def)

lemma original_lines_join:
  assumes "\<forall>l \<in> set ls. LF \<notin> set l"
  shows "original_lines_lf (join [LF] (ls @ [[]])) = ls"
proof -
  have "split_char LF (join [LF] (ls @ [[]])) = ls @ [[]]" by (rule split_char_join) (use assms in auto)
  then show ?thesis by (simp add: original_lines_lf_def last_is_Nil)
qed

text \<open>Reading the text of an update again gives its lines back, but not an empty last one.\<close>

lemma original_lines_finish:
  assumes "\<forall>l \<in> set ls. LF \<notin> set l"
  shows "original_lines_lf (finish_lines_lf ls) = (if last_is (\<lambda>l. l = []) ls then butlast ls else ls)"
proof (cases "last_is (\<lambda>l. l = []) ls")
  case True
  then obtain ls' where "ls = ls' @ [[]]" by (auto simp: last_is_Nil)
  with assms True original_lines_join [of ls'] show ?thesis by (simp add: finish_lines_lf_def)
qed (use assms original_lines_join in \<open>simp add: finish_lines_lf_def\<close>)

section \<open>Properties\<close>

text \<open>
  C26: no patch that the parser accepts can make the update of a file panic, in either mode and
  for any file: every slice, \<open>Vec::insert\<close> and unsigned subtraction of \<open>update.rs\<close> stays in
  range, including the legacy end-of-file match that may overlap an earlier chunk.
\<close>

theorem accepted_update_never_panics:
  assumes "parse_patch input = Inr r" and "UpdateFile fname mv chunks \<in> set (parsed_hunks r)"
  shows "no_panic (derive_new_contents fname original chunks um)"
proof -
  have "list_all indices_wf chunks"
    using parse_patch_hunks_wf [OF assms(1)] assms(2) by (fastforce simp: list_all_iff chunk_wf_def)
  then show ?thesis by (rule derive_new_contents_no_panic)
qed

theorem accepted_update_never_panics_witness:
  "no_panic (derive_new_contents ''f'' ''a'' [sample_chunk] PreserveLineEndings)"
  using accepted_update_never_panics [OF sample_patch_parses] by simp

text \<open>
  A located chunk is the best match: a non-empty pattern is found at a position inside the
  search range at which it matches under one of the four matchers (exact, without trailing
  white space, trimmed, trimmed with typographic characters mapped to ASCII); no stronger matcher matches
  anywhere in the range and the same matcher matches nowhere earlier.
\<close>

theorem seek_sequence_best_match:
  assumes "pat \<noteq> []" and "seek_sequence ls pat k at_eof um = Some i"
  shows "best_match matchers ls pat (search_range um at_eof k ls pat) i"
  using assms by (rule seek_sequence_SomeD)

theorem seek_sequence_best_match_witness:
  "seek_sequence [''a '', ''b'', ''a''] [''a''] 0 False NormalizeToLf = Some 2 \<and>
   best_match matchers [''a '', ''b'', ''a''] [''a''] (search_range NormalizeToLf False 0 [''a '', ''b'', ''a''] [''a'']) 2"
proof -
  have s: "seek_sequence [''a '', ''b'', ''a''] [''a''] 0 False NormalizeToLf = Some 2" by code_simp
  from seek_sequence_best_match [OF _ s] s show ?thesis by simp
qed

text \<open>
  The search fails only when nothing matches: \<open>None\<close> is returned for a non-empty pattern
  exactly when none of the four matchers matches at any position of the search range.
\<close>

theorem seek_sequence_complete:
  assumes "pat \<noteq> []"
  shows "seek_sequence ls pat k at_eof um = None \<longleftrightarrow>
     (\<forall>m \<in> set matchers. \<forall>i \<in> search_range um at_eof k ls pat. \<not> matches_at m ls pat i)"
  using assms by (rule seek_sequence_None_iff)

theorem seek_sequence_complete_witness:
  "seek_sequence [''x''] [''a''] 0 False PreserveLineEndings = None \<and> \<not> matches_at trim [''x''] [''a''] 0"
proof -
  have s: "seek_sequence [''x''] [''a''] 0 False PreserveLineEndings = None" by code_simp
  from seek_sequence_complete [of "[''a'']" "[''x'']" 0 False PreserveLineEndings] s
  show ?thesis by (simp add: matchers_def search_range_def search_start_def)
qed

text \<open>
  C14: applying a patch does what the patch says. Let the lines of a file be unchanged runs of lines
  alternating with the old lines of the chunks, where every chunk has old lines, no context line
  and no end-of-file mark, and matches exactly nowhere before its own place. Then the update in
  \<open>NormalizeToLf\<close> mode succeeds, and its lines are those of the file with the old lines of every
  chunk replaced by its new lines. The text returned is \<open>finish_lines_lf\<close> of these lines: each of them is
  followed by a line feed, and a last line that is empty is not written as a line of its own.
\<close>

theorem derive_replaces_chunks:
  assumes "original_lines_lf original = before_lines segs post" and "placed segs post"
  shows "derive_new_contents fname original (map snd segs) NormalizeToLf =
     Inr (finish_lines_lf (after_lines segs post))"
  using assms by (rule derive_placed)

theorem derive_replaces_chunks_witness:
  "derive_new_contents ''f'' (join [LF] [''x'', ''a'', ''b'', ''y'', '''']) [sample_chunk] NormalizeToLf =
     Inr (join [LF] [''x'', ''a'', ''c'', ''y'', ''''])"
proof -
  let ?segs = "[([''x''], sample_chunk)]" and ?orig = "join [LF] [''x'', ''a'', ''b'', ''y'', '''']"
  have a: "original_lines_lf ?orig = before_lines ?segs [''y'']" by code_simp
  have b: "placed ?segs [''y'']" by code_simp
  have c: "finish_lines_lf (after_lines ?segs [''y'']) = join [LF] [''x'', ''a'', ''c'', ''y'', '''']" by code_simp
  from derive_replaces_chunks [OF a b, of "''f''"] show ?thesis unfolding c by simp
qed

text \<open>
  The two ways of applying replacements agree. For any replacements that
  \<open>compute_replacements\<close> returns in the line-ending preserving mode, the reverse in-place
  application and the forward application to source lines both succeed and leave the same
  lines of text, namely the reference splice.
\<close>

theorem applications_agree:
  assumes "list_all indices_wf chunks"
    and "compute_replacements (line_texts f) fname chunks PreserveLineEndings = Inr reps"
  shows "\<exists>f'. source_apply_replacements f reps = Inr f' \<and>
     apply_replacements (line_texts f) reps = Inr (line_texts f') \<and>
     line_texts f' = splice_ranges 0 (line_texts f) reps"
proof -
  note ok = compute_replacements_ok(2,3) [OF assms] compute_replacements_ok(4) [OF assms refl]
  from source_apply_texts [OF ok(3)] obtain f' where
      "source_apply_replacements f reps = Inr f'" "line_texts f' = splice_ranges 0 (line_texts f) reps" by blast
  moreover have "apply_replacements (line_texts f) reps = Inr (splice_ranges 0 (line_texts f) reps)"
    using apply_replacements_eq [OF ok(2,1)] splice_foldr [OF ok(3,1)] by simp
  ultimately show ?thesis by simp
qed

theorem applications_agree_witness:
  "\<exists>f'. source_apply_replacements (source_parse ''a'') [(1, 0, [''z''])] = Inr f' \<and>
     apply_replacements (line_texts (source_parse ''a'')) [(1, 0, [''z''])] = Inr (line_texts f') \<and>
     line_texts f' = splice_ranges 0 (line_texts (source_parse ''a'')) [(1, 0, [''z''])]"
proof -
  let ?c = "\<lparr>change_context = None, old_lines = [], new_lines = [''z''], context_line_indices = [],
             is_end_of_file = False\<rparr>"
  have a: "list_all indices_wf [?c]" by (simp add: indices_wf_def)
  have b: "compute_replacements (line_texts (source_parse ''a'')) ''f'' [?c] PreserveLineEndings = Inr [(1, 0, [''z''])]"
    by code_simp
  from applications_agree [OF a b] show ?thesis .
qed

text \<open>
  \<open>SourceFile::parse\<close> and \<open>into_contents\<close> are inverse: splitting a file into lines with their
  LF, CRLF or CR endings and printing them returns the file byte for byte.
\<close>

theorem source_file_round_trip: "into_contents (source_parse contents) = contents"
  by (rule into_contents_source_parse)

text \<open>
  What the line-ending preserving mode returns. The result consists of the source lines
  spliced with the replacements: every line outside the replaced ranges keeps its text and its
  own ending, every new line gets the preferred (first) ending of the file, and a last line
  without ending gets the preferred one.
\<close>

theorem derive_preserves_endings:
  assumes "list_all indices_wf chunks"
    and "derive_new_contents fname original chunks PreserveLineEndings = Inr out"
  shows "\<exists>reps. compute_replacements (line_texts (source_parse original)) fname chunks PreserveLineEndings = Inr reps \<and>
     sorted_wrt rep_before reps \<and>
     out = concat (map (line_contents \<circ> with_ending (preferred_ending (source_parse original)))
       (splice_ranges 0 (sf_lines (source_parse original))
          (source_replacements (preferred_ending (source_parse original)) reps)))"
proof -
  let ?f = "source_parse original"
  obtain reps where reps: "compute_replacements (line_texts ?f) fname chunks PreserveLineEndings = Inr reps"
      and out: "rbind (source_apply_replacements ?f reps) (\<lambda>f'. Inr (into_contents f')) = Inr out"
    using assms(2) by (auto simp: derive_new_contents_def Let_def rbind_Inr_iff)
  have srt: "sorted_wrt rep_before reps" by (rule compute_replacements_ok(4) [OF assms(1) reps refl])
  show ?thesis
    using out reps srt by (simp add: source_apply_eq [OF srt] into_contents_def)
qed

theorem derive_preserves_endings_witness:
  "\<exists>reps. compute_replacements (line_texts (source_parse ([CHR ''x'', CR, LF] @ ''a'' @ [LF] @ ''b''))) ''f'' [sample_chunk]
       PreserveLineEndings = Inr reps \<and>
     sorted_wrt rep_before reps \<and>
     [CHR ''x'', CR, LF] @ ''a'' @ [LF] @ ''c'' @ [CR, LF] =
       concat (map (line_contents \<circ> with_ending (preferred_ending (source_parse ([CHR ''x'', CR, LF] @ ''a'' @ [LF] @ ''b''))))
       (splice_ranges 0 (sf_lines (source_parse ([CHR ''x'', CR, LF] @ ''a'' @ [LF] @ ''b'')))
          (source_replacements (preferred_ending (source_parse ([CHR ''x'', CR, LF] @ ''a'' @ [LF] @ ''b''))) reps)))"
proof (rule derive_preserves_endings)
  show "list_all indices_wf [sample_chunk]" by code_simp
  show "derive_new_contents ''f'' ([CHR ''x'', CR, LF] @ ''a'' @ [LF] @ ''b'') [sample_chunk] PreserveLineEndings
      = Inr ([CHR ''x'', CR, LF] @ ''a'' @ [LF] @ ''c'' @ [CR, LF])" by code_simp
qed

text \<open>
  C35: the \<open>NormalizeToLf\<close> mode loses a trailing blank line. For every update that succeeds in this mode,
  whatever its chunks are (their new lines hold no line feed, as those of a parsed patch),
  reading the returned text again gives exactly the lines of the file after the replacements, except that
  an empty last line of these is missing, also when no chunk touches it.
\<close>

theorem normalize_drops_trailing_blank_line:
  assumes "derive_new_contents fname original chunks NormalizeToLf = Inr out"
    and "\<forall>c \<in> set chunks. \<forall>l \<in> set (new_lines c). LF \<notin> set l"
  shows "\<exists>reps ls. compute_replacements (original_lines_lf original) fname chunks NormalizeToLf = Inr reps \<and>
     apply_replacements (original_lines_lf original) reps = Inr ls \<and>
     original_lines_lf out = (if last_is (\<lambda>l. l = []) ls then butlast ls else ls)"
proof -
  obtain reps ls where r: "compute_replacements (original_lines_lf original) fname chunks NormalizeToLf = Inr reps"
      "apply_replacements (original_lines_lf original) reps = Inr ls" and out: "out = finish_lines_lf ls"
    using assms(1) by (auto simp: derive_new_contents_def Let_def rbind_Inr_iff)
  have "\<forall>l \<in> set ls. LF \<notin> set l"
    using apply_replacements_set [OF r(2)] compute_replacements_new [OF r(1)] assms(2) original_lines_lf_set [of original]
    by blast
  with r out original_lines_finish show ?thesis by blast
qed

theorem normalize_drops_trailing_blank_line_witness:
  "\<exists>out. derive_new_contents ''f'' [CHR ''a'', LF, LF] [\<lparr>change_context = None, old_lines = [''a''], new_lines = [''c''],
       context_line_indices = [], is_end_of_file = False\<rparr>] NormalizeToLf = Inr out \<and>
     original_lines_lf [CHR ''a'', LF, LF] = [''a'', []] \<and> original_lines_lf out = [''c'']"
proof -
  let ?c = "\<lparr>change_context = None, old_lines = [''a''], new_lines = [''c''], context_line_indices = [],
       is_end_of_file = False\<rparr>"
  have d: "derive_new_contents ''f'' [CHR ''a'', LF, LF] [?c] NormalizeToLf = Inr [CHR ''c'', LF]" by code_simp
  have o: "original_lines_lf [CHR ''a'', LF, LF] = [''a'', []]" by code_simp
  have c: "compute_replacements [''a'', []] ''f'' [?c] NormalizeToLf = Inr [(0, 1, [''c''])]" by code_simp
  have a: "apply_replacements [''a'', []] [(0, 1, [''c''])] = Inr [''c'', []]" by code_simp
  have "\<forall>c \<in> set [?c]. \<forall>l \<in> set (new_lines c). LF \<notin> set l" by simp
  from normalize_drops_trailing_blank_line [OF d this] d o c a show ?thesis by (auto simp: last_is_def vec_last_def)
qed

end
