(* ===== verification/Patch_Apply.thy ===== *)
theory Patch_Apply
  imports Patch_Update Tool_Paths Exec_Runtime
begin

text \<open>
  The \<open>apply_patch\<close> tool over an execution runtime
  (\<open>platform/packages/tools/apply-patch/src/{lib,prepare,apply,filesystem}.rs\<close>): verification
  of a patch against the current files, the checkpointed state machine that stages and
  dispatches one mutation per step, and the loop that drives it. The runtime is a record of
  state-passing operations over a host state \<open>'h\<close>, so that one model serves every host; the
  host supplies the descriptor, the cancellation checkpoint and the filesystem calls.
  Allocation is assumed to succeed (\<open>try_reserve\<close>).
\<close>

section \<open>The tool and its data\<close>

record patch_config =
  max_patch_bytes :: nat
  max_file_bytes :: nat
  chunk_bytes :: nat
  max_operations :: nat
  update_file_mode :: update_mode

definition patch_config_default :: patch_config where
  "patch_config_default = \<lparr>max_patch_bytes = u64_max, max_file_bytes = u64_max,
     chunk_bytes = 1024 * 1024, max_operations = u64_max, update_file_mode = NormalizeToLf\<rparr>"

text \<open>\<open>debug_path\<close> renders a path as \<open>{path:?}\<close> does in error messages.\<close>

record 'h patch_tool =
  runtime :: "'h runtime"
  tool_cwd :: exec_path
  config :: patch_config
  debug_path :: "exec_path \<Rightarrow> string"

datatype change_kind = Add | Modify | Delete

record patch_change =
  change_kind :: change_kind
  change_path :: string

datatype prepared_operation = OpWrite write_file_request | OpRemove remove_path_request

record prepared_hunk =
  source :: exec_path
  destination :: "exec_path option"
  prepared :: hunk

record prepared_patch =
  version :: nat
  prep_host_id :: string
  generation :: string
  operation_id :: string
  prep_mode :: update_mode
  prep_hunks :: "prepared_hunk list"
  changes :: "patch_change list"

record running_patch =
  run_prepared :: prepared_patch
  hunk_index :: nat
  applied_operations :: nat
  pending :: "prepared_operation list"
  next_operation :: nat

record patch_output =
  out_host_id :: string
  out_changes :: "patch_change list"

datatype patch_progress = CheckpointRequired | Complete patch_output

definition is_complete :: "running_patch \<Rightarrow> bool" where
  "is_complete r \<longleftrightarrow> hunk_index r = length (prep_hunks (run_prepared r))"

definition hunk_operations :: "prepared_hunk \<Rightarrow> nat" where
  "hunk_operations h = (if destination h \<noteq> None then 2 else 1)"

definition operation_count :: "prepared_patch \<Rightarrow> nat" where
  "operation_count p = sum_list (map hunk_operations (prep_hunks p))"

definition kind_letter :: "change_kind \<Rightarrow> char" where
  "kind_letter k = (case k of Add \<Rightarrow> CHR ''A'' | Modify \<Rightarrow> CHR ''M'' | Delete \<Rightarrow> CHR ''D'')"

definition to_text :: "patch_output \<Rightarrow> string" where
  "to_text out =
     ''Success. Updated the following files:'' @ [LF]
     @ concat (map (\<lambda>k. concat (map (\<lambda>c. kind_letter k # '' '' @ change_path c @ [LF])
                              (filter (\<lambda>c. change_kind c = k) (out_changes out))))
         [Add, Modify, Delete])"

definition tool_new :: "'h runtime \<Rightarrow> exec_path \<Rightarrow> patch_config \<Rightarrow> (exec_path \<Rightarrow> string) \<Rightarrow> 'h patch_tool exec_result" where
  "tool_new rt wd cfg dbg =
     rbind (validate_cwd (rt_descriptor rt) wd) (\<lambda>_.
       if max_patch_bytes cfg = 0 \<or> max_file_bytes cfg = 0 \<or> chunk_bytes cfg = 0 \<or> max_operations cfg = 0
       then Inl (Fail (patch_error InvalidRequest
              ''apply_patch size, chunk, and operation limits must be positive''))
       else Inr \<lparr>runtime = rt, tool_cwd = wd, config = cfg, debug_path = dbg\<rparr>)"

definition tool_resolve_path :: "'h patch_tool \<Rightarrow> string \<Rightarrow> exec_path exec_result" where
  "tool_resolve_path tool p = resolve_path_normalized (rt_descriptor (runtime tool)) (tool_cwd tool) p"

definition validate_target :: "'h patch_tool \<Rightarrow> exec_path \<Rightarrow> unit exec_result" where
  "validate_target tool p =
     rbind (validate_cwd (rt_descriptor (runtime tool)) p) (\<lambda>_.
       if path p = ''.'' then Inl (Fail (patch_error IsDirectory ''cannot patch an execution root''))
       else if list_ex (\<lambda>r. root_identifier r = root_id p \<and> read_only r) (roots (rt_descriptor (runtime tool)))
       then Inl (Fail (patch_error ReadOnlyRoot ''the selected execution root is read-only''))
       else Inr ())"

section \<open>Reading a file\<close>

definition stat_optional :: "'h runtime \<Rightarrow> exec_path \<Rightarrow> ('h, file_metadata option) io" where
  "stat_optional rt p h =
     (case rt_stat rt \<lparr>stat_path = p, stat_follow_symlinks = True\<rparr> h of
        (Inl (Fail e), h') \<Rightarrow> (if code e = NotFound then (Inr None, h') else (Inl (Fail e), h'))
      | (Inl (Panic m), h') \<Rightarrow> (Inl (Panic m), h')
      | (Inr m, h') \<Rightarrow>
          io_bind (rt_checkpoint rt) (\<lambda>_. io_lift
            (if meta_path m \<noteq> p
             then Inl (Fail (patch_error Internal ''host returned metadata for a different patch path''))
             else if kind m \<noteq> File
             then Inl (Fail (patch_error (if kind m = Directory then IsDirectory else Unsupported)
                    ''apply_patch targets must be regular files''))
             else Inr (Some m))) h')"

text \<open>The checks on one reply: the data to append and whether the file ended.\<close>

definition accept_chunk ::
  "exec_path \<Rightarrow> file_metadata \<Rightarrow> string \<Rightarrow> nat \<Rightarrow> nat \<Rightarrow> read_file_result \<Rightarrow> (string \<times> bool) exec_result" where
  "accept_chunk p meta rev_id off limit reply =
     (if revision (metadata reply) \<noteq> Some rev_id \<or> file_size (metadata reply) \<noteq> file_size meta
      then Inl (Fail (patch_error RevisionConflict
             ''file changed while verifying the patch; retry apply_patch''))
      else if result_offset reply \<noteq> off \<or> meta_path (metadata reply) \<noteq> p
              \<or> kind (metadata reply) \<noteq> File \<or> limit < length (read_data reply)
              \<or> (read_data reply = [] \<and> \<not> read_eof reply)
      then Inl (Fail (patch_error Internal ''host returned an invalid patch file-read response''))
      else case checked_add off (length (read_data reply)) of
        None \<Rightarrow> Inl (Fail (patch_error Internal ''patch file offset overflow''))
      | Some end \<Rightarrow>
          if file_size meta < end \<or> read_eof reply \<noteq> (end = file_size meta)
          then Inl (Fail (patch_error RevisionConflict
                 ''file size changed or host returned an inconsistent EOF''))
          else Inr (read_data reply, read_eof reply))"


lemma accept_chunk_Inr:
  assumes "accept_chunk p meta rev_id off limit reply = Inr (bytes, ended)"
  shows "bytes = read_data reply" and "ended = read_eof reply" and "off + length bytes \<le> file_size meta"
    and "ended \<longleftrightarrow> off + length bytes = file_size meta" and "\<not> ended \<Longrightarrow> bytes \<noteq> []"
    and "length bytes \<le> limit"
  using assms by (auto simp: accept_chunk_def split: if_splits option.splits)

definition read_limit :: "nat \<Rightarrow> nat \<Rightarrow> nat \<Rightarrow> nat" where
  "read_limit request_bytes size_bytes off = min request_bytes (max (size_bytes - off) 1)"

text \<open>One iteration of the read loop: checkpoint, read, checkpoint, checks.\<close>

definition read_chunk ::
  "'h runtime \<Rightarrow> exec_path \<Rightarrow> file_metadata \<Rightarrow> string \<Rightarrow> nat \<Rightarrow> nat \<Rightarrow> ('h, string \<times> bool) io" where
  "read_chunk rt p meta rev_id request_bytes off =
     (let limit = read_limit request_bytes (file_size meta) off in
      io_bind (rt_checkpoint rt) (\<lambda>_.
      io_bind (rt_read rt \<lparr>read_path = p, read_offset = off, max_bytes = limit, read_follow_symlinks = True\<rparr>) (\<lambda>reply.
      io_bind (rt_checkpoint rt) (\<lambda>_.
      io_lift (accept_chunk p meta rev_id off limit reply)))))"

lemma read_chunk_Inr:
  assumes "read_chunk rt p meta rev_id request_bytes off h = (Inr (bytes, ended), h')"
  shows "\<exists>reply. accept_chunk p meta rev_id off (read_limit request_bytes (file_size meta) off) reply = Inr (bytes, ended)"
  using assms by (auto simp: read_chunk_def Let_def io_bind_Inr_iff)

function read_loop ::
  "'h runtime \<Rightarrow> exec_path \<Rightarrow> file_metadata \<Rightarrow> string \<Rightarrow> nat \<Rightarrow> string \<Rightarrow> ('h, string) io" where
  "read_loop rt p meta rev_id request_bytes bytes h =
     (case read_chunk rt p meta rev_id request_bytes (length bytes) h of
        (Inl e, h') \<Rightarrow> (Inl e, h')
      | (Inr (piece, ended), h') \<Rightarrow>
          (if ended then (Inr (bytes @ piece), h')
           else read_loop rt p meta rev_id request_bytes (bytes @ piece) h'))"
  by pat_completeness auto
termination
proof (relation "measure (\<lambda>(_, _, meta, _, _, bytes, _). file_size meta - length bytes)")
  fix rt :: "'h runtime" and p meta rev_id request_bytes and bytes :: string and h h' :: 'h and r x piece ended
  assume "(r, h') = read_chunk rt p meta rev_id request_bytes (length bytes) h"
    and "r = Inr x" and "(piece, ended) = x" and "\<not> ended"
  then have "read_chunk rt p meta rev_id request_bytes (length bytes) h = (Inr (piece, False), h')" by simp
  from read_chunk_Inr [OF this] obtain reply where "accept_chunk p meta rev_id (length bytes)
      (read_limit request_bytes (file_size meta) (length bytes)) reply = Inr (piece, False)" ..
  from accept_chunk_Inr(3,4,5) [OF this] have "length bytes < file_size meta \<and> piece \<noteq> []"
    by auto
  then show "((rt, p, meta, rev_id, request_bytes, bytes @ piece, h'), rt, p, meta, rev_id, request_bytes, bytes, h)
      \<in> measure (\<lambda>(_, _, meta, _, _, bytes, _). file_size meta - length bytes)"
    by (simp add: diff_less_mono2)
qed simp

declare read_loop.simps [simp del]

definition file_limit_message :: "exec_path \<Rightarrow> nat \<Rightarrow> nat \<Rightarrow> string" where
  "file_limit_message p size_bytes limit =
     ''file '' @ path p @ '' contains '' @ show_nat size_bytes @ '' bytes; apply_patch file limit is '' @ show_nat limit"

definition read_found :: "'h patch_tool \<Rightarrow> exec_path \<Rightarrow> file_metadata \<Rightarrow> ('h, string \<times> file_metadata) io" where
  "read_found tool p meta =
     (if max_file_bytes (config tool) < file_size meta
      then io_lift (Inl (Fail (patch_error ResourceExhausted
             (file_limit_message p (file_size meta) (max_file_bytes (config tool))))))
      else case revision meta of
        None \<Rightarrow> io_lift (Inl (Fail (patch_error Unsupported
           ''host did not provide a file revision for patch verification'')))
      | Some rev_id \<Rightarrow>
          (let request_bytes = min (chunk_bytes (config tool))
                 (case max_read_bytes (limits (rt_descriptor (runtime tool))) of Some n \<Rightarrow> n | None \<Rightarrow> u64_max)
           in if request_bytes = 0
              then io_lift (Inl (Fail (patch_error Unsupported ''host advertised a zero read limit'')))
              else io_bind (read_loop (runtime tool) p meta rev_id request_bytes []) (\<lambda>bytes.
                     io_lift (if utf8_valid bytes then Inr (bytes, meta)
                       else Inl (Fail (patch_error Unsupported
                              ''apply_patch supports UTF-8 text files only''))))))"

definition read_text :: "'h patch_tool \<Rightarrow> exec_path \<Rightarrow> ('h, string \<times> file_metadata) io" where
  "read_text tool p =
     io_bind (stat_optional (runtime tool) p) (\<lambda>found. case found of
       None \<Rightarrow> io_lift (Inl (Fail (patch_error NotFound
          (''Failed to read '' @ debug_path tool p @ '': file not found''))))
     | Some meta \<Rightarrow> read_found tool p meta)"

section \<open>Verification\<close>

text \<open>One hunk during \<open>prepare\<close>: what it is reported as and where it moves to.\<close>

definition verify_hunk :: "'h patch_tool \<Rightarrow> exec_path \<Rightarrow> hunk \<Rightarrow> ('h, change_kind \<times> exec_path option) io" where
  "verify_hunk tool src hk = (case hk of
     AddFile _ _ \<Rightarrow> io_lift (Inr (Add, None))
   | DeleteFile _ \<Rightarrow> io_bind (read_text tool src) (\<lambda>_. io_lift (Inr (Delete, None)))
   | UpdateFile p move_path chunks \<Rightarrow>
       io_bind (read_text tool src) (\<lambda>(original, _).
       io_bind (io_lift (derive_new_contents p original chunks (update_file_mode (config tool)))) (\<lambda>_.
       case move_path of
         None \<Rightarrow> io_lift (Inr (Modify, None))
       | Some m \<Rightarrow> io_bind (io_lift (tool_resolve_path tool m)) (\<lambda>d. io_lift (Inr (Modify, Some d))))))"

definition count_operations :: "'h patch_tool \<Rightarrow> nat \<Rightarrow> exec_path option \<Rightarrow> nat exec_result" where
  "count_operations tool count dest =
     (case checked_add count (if dest \<noteq> None then 2 else 1) of
        Some n \<Rightarrow> (if n \<le> max_operations (config tool) then Inr n
          else Inl (Fail (patch_error ResourceExhausted ''patch exceeds the configured operation limit'')))
      | None \<Rightarrow> Inl (Fail (patch_error ResourceExhausted ''patch exceeds the configured operation limit'')))"

fun prepare_hunks ::
  "'h patch_tool \<Rightarrow> exec_path set \<Rightarrow> nat \<Rightarrow> hunk list \<Rightarrow> ('h, (prepared_hunk \<times> patch_change) list) io" where
  "prepare_hunks tool sources count [] = io_lift (Inr [])"
| "prepare_hunks tool sources count (hk # hks) =
     io_bind (rt_checkpoint (runtime tool)) (\<lambda>_.
     io_bind (io_lift (tool_resolve_path tool (source_path hk))) (\<lambda>src.
     if src \<in> sources
     then io_lift (Inl (Fail (patch_error InvalidRequest
       (''apply_patch verification failed: invalid patch: multiple operations target '' @ source_path hk))))
     else io_bind (verify_hunk tool src hk) (\<lambda>(k, dest).
          io_bind (io_lift (count_operations tool count dest)) (\<lambda>n.
          io_bind (prepare_hunks tool (insert src sources) n hks) (\<lambda>rest.
          io_lift (Inr ((\<lparr>source = src, destination = dest, prepared = hk\<rparr>,
                         \<lparr>change_kind = k, change_path = affected_path hk\<rparr>) # rest)))))))"

fun show_parse_error :: "parse_error \<Rightarrow> string" where
  "show_parse_error (InvalidPatch m) = ''invalid patch: '' @ m"
| "show_parse_error (InvalidHunk m n) = ''invalid hunk at line '' @ show_nat n @ '', '' @ m"

definition parse_for_tool :: "string \<Rightarrow> parsed_patch exec_result" where
  "parse_for_tool p = (case parse_patch p of
     Inl (Fail e) \<Rightarrow> Inl (Fail (patch_error InvalidRequest
       (''apply_patch verification failed: '' @ show_parse_error e)))
   | Inl (Panic m) \<Rightarrow> Inl (Panic m)
   | Inr r \<Rightarrow> Inr r)"

definition prepare :: "'h patch_tool \<Rightarrow> string \<Rightarrow> string \<Rightarrow> ('h, prepared_patch) io" where
  "prepare tool input op_id =
     io_bind (rt_checkpoint (runtime tool)) (\<lambda>_.
     if max_patch_bytes (config tool) < length input
     then io_lift (Inl (Fail (patch_error ResourceExhausted ''patch exceeds the configured input limit'')))
     else io_bind (io_lift (parse_for_tool input)) (\<lambda>parsed.
       if parsed_environment_id parsed \<noteq> None
       then io_lift (Inl (Fail (patch_error InvalidRequest
         ''select the execution environment before calling this host-bound apply_patch tool'')))
       else if parsed_hunks parsed = []
       then io_lift (Inl (Fail (patch_error InvalidRequest ''No files were modified.'')))
       else io_bind (prepare_hunks tool {} 0 (parsed_hunks parsed)) (\<lambda>pairs.
         io_lift (Inr \<lparr>version = 2, prep_host_id = host_id (rt_descriptor (runtime tool)),
           generation = supervisor_generation_id (rt_descriptor (runtime tool)),
           operation_id = op_id, prep_mode = update_file_mode (config tool),
           prep_hunks = map fst pairs, changes = map snd pairs\<rparr>))))"

section \<open>Application\<close>

definition validate_prepared :: "'h patch_tool \<Rightarrow> prepared_patch \<Rightarrow> unit exec_result" where
  "validate_prepared tool p =
     (if version p \<noteq> 2 \<or> prep_hunks p = [] \<or> length (changes p) \<noteq> length (prep_hunks p)
      then Inl (Fail (patch_error InvalidRequest ''invalid or unsupported prepared patch state''))
      else if prep_host_id p \<noteq> host_id (rt_descriptor (runtime tool))
      then Inl (Fail (patch_error InvalidRequest ''prepared patch belongs to another execution host''))
      else if generation p \<noteq> supervisor_generation_id (rt_descriptor (runtime tool))
      then Inl (Fail (patch_error ExecutionLost
        ''patch belongs to an earlier supervisor generation; inspect its outcome before retrying''))
      else if max_operations (config tool) < operation_count p
      then Inl (Fail (patch_error ResourceExhausted
        (''prepared patch exceeds this tool'' @ [SQUOTE] @ ''s operation limit'')))
      else Inr ())"

definition start :: "'h patch_tool \<Rightarrow> prepared_patch \<Rightarrow> running_patch exec_result" where
  "start tool p = rbind (validate_prepared tool p) (\<lambda>_.
     Inr \<lparr>run_prepared = p, hunk_index = 0, applied_operations = 0, pending = [], next_operation = 0\<rparr>)"

definition derived_id :: "string \<Rightarrow> nat \<Rightarrow> string exec_result" where
  "derived_id base index = validated (id_new ''OperationId'' (base @ '':apply_patch:'' @ show_nat index))"

definition annotate :: "exec_error \<Rightarrow> nat \<Rightarrow> nat \<Rightarrow> exec_error" where
  "annotate e applied all_ops =
     (let with_source = (if map_of (details e) ''source'' = None
                         then with_detail e ''source'' (DText ''tool-apply-patch'') else e)
      in with_detail (with_detail with_source ''applied_operations'' (DNumber applied))
           ''total_operations'' (DNumber all_ops))"

definition new_content :: "'h patch_tool \<Rightarrow> update_mode \<Rightarrow> prepared_hunk \<Rightarrow> ('h, string option) io" where
  "new_content tool um ph = (case prepared ph of
     AddFile _ contents \<Rightarrow> io_lift (Inr (Some contents))
   | DeleteFile _ \<Rightarrow> io_lift (Inr None)
   | UpdateFile p _ chunks \<Rightarrow>
       io_bind (read_text tool (source ph)) (\<lambda>(original, _).
       io_bind (io_lift (derive_new_contents p original chunks um)) (\<lambda>c. io_lift (Inr (Some c)))))"

fun is_add :: "hunk \<Rightarrow> bool" where
  "is_add (AddFile _ _) = True"
| "is_add _ = False"

fun is_delete :: "hunk \<Rightarrow> bool" where
  "is_delete (DeleteFile _) = True"
| "is_delete _ = False"

definition write_operations ::
  "'h patch_tool \<Rightarrow> prepared_patch \<Rightarrow> prepared_hunk \<Rightarrow> nat \<Rightarrow> string option \<Rightarrow> prepared_operation list exec_result" where
  "write_operations tool p ph applied content = (case content of
     None \<Rightarrow> Inr []
   | Some c \<Rightarrow>
       (let limit = min (max_file_bytes (config tool))
              (case max_write_bytes (limits (rt_descriptor (runtime tool))) of Some n \<Rightarrow> n | None \<Rightarrow> u64_max)
        in if limit < length c
           then Inl (Fail (patch_error ResourceExhausted
                  (''patched file exceeds write limit of '' @ show_nat limit @ '' bytes'')))
           else rbind (derived_id (operation_id p) applied) (\<lambda>op_id.
             Inr [OpWrite \<lparr>write_expected_generation = Some (generation p), strategy = InPlace,
                    write_operation_id = op_id,
                    write_path = (case destination ph of Some d \<Rightarrow> d | None \<Rightarrow> source ph),
                    write_data = c, condition = AnyState,
                    create_parents = (is_add (prepared ph) \<or> destination ph \<noteq> None),
                    write_follow_symlinks = True\<rparr>])))"

definition remove_operations ::
  "prepared_patch \<Rightarrow> prepared_hunk \<Rightarrow> nat \<Rightarrow> prepared_operation list exec_result" where
  "remove_operations p ph index =
     (if is_delete (prepared ph) \<or> destination ph \<noteq> None
      then rbind (derived_id (operation_id p) index) (\<lambda>op_id.
        Inr [OpRemove \<lparr>target_kind = FileTarget, remove_expected_generation = Some (generation p),
               remove_operation_id = op_id, remove_path = source ph, recursive = False,
               ignore_missing = False, expected_revision = None\<rparr>])
      else Inr [])"

definition stage_hunk :: "'h patch_tool \<Rightarrow> running_patch \<Rightarrow> ('h, prepared_operation list) io" where
  "stage_hunk tool r =
     (let p = run_prepared r; ph = prep_hunks p ! hunk_index r in
      io_bind (new_content tool (prep_mode p) ph) (\<lambda>content.
      io_bind (io_lift (write_operations tool p ph (applied_operations r) content)) (\<lambda>writes.
      io_bind (io_lift (remove_operations p ph (applied_operations r + length writes))) (\<lambda>removes.
      io_lift (Inr (writes @ removes))))))"

definition dispatch :: "'h patch_tool \<Rightarrow> prepared_operation \<Rightarrow> ('h, unit) io" where
  "dispatch tool operation = (case operation of
     OpWrite rq \<Rightarrow>
       io_bind (io_lift (validate_target tool (write_path rq))) (\<lambda>_.
       io_bind (rt_write (runtime tool) rq) (\<lambda>reply. io_lift
         (if written_path reply \<noteq> write_path rq \<or> bytes_written reply \<noteq> length (write_data rq)
          then Inl (Fail (patch_error Internal
                 ''host returned an inconsistent patch write result; outcome is uncertain''))
          else Inr ())))
   | OpRemove rq \<Rightarrow>
       io_bind (io_lift (validate_target tool (remove_path rq))) (\<lambda>_.
       io_bind (rt_remove (runtime tool) rq) (\<lambda>removed. io_lift
         (if \<not> removed
          then Inl (Fail (patch_error Internal
                 ''host reported that a required patch target was not removed''))
          else Inr ()))))"

definition progress_invalid :: "running_patch \<Rightarrow> bool" where
  "progress_invalid r \<longleftrightarrow>
     (hunk_index r = length (prep_hunks (run_prepared r)) \<and> pending r \<noteq> [])
     \<or> length (prep_hunks (run_prepared r)) < hunk_index r
     \<or> (pending r = [] \<and> next_operation r \<noteq> 0)
     \<or> (pending r \<noteq> [] \<and> length (pending r) \<le> next_operation r)"

definition acknowledge :: "running_patch \<Rightarrow> running_patch" where
  "acknowledge r =
     (let r1 = r\<lparr>applied_operations := applied_operations r + 1, next_operation := next_operation r + 1\<rparr>
      in if next_operation r1 = length (pending r1)
         then r1\<lparr>hunk_index := hunk_index r1 + 1, next_operation := 0, pending := []\<rparr>
         else r1)"

text \<open>\<open>advance\<close> is the staging or dispatching part of \<open>step\<close>: the next running value.\<close>

definition advance :: "'h patch_tool \<Rightarrow> running_patch \<Rightarrow> ('h, running_patch) io" where
  "advance tool r =
     (if pending r = []
      then io_bind (stage_hunk tool r) (\<lambda>ops. io_lift (Inr (r\<lparr>pending := ops\<rparr>)))
      else io_bind (dispatch tool (pending r ! next_operation r)) (\<lambda>_. io_lift (Inr (acknowledge r))))"

definition step ::
  "'h patch_tool \<Rightarrow> running_patch \<Rightarrow> 'h \<Rightarrow> patch_progress exec_result \<times> running_patch \<times> 'h" where
  "step tool r h =
     (case rbind (validate_prepared tool (run_prepared r)) (\<lambda>_.
             if progress_invalid r then Inl (Fail (patch_error InvalidRequest ''invalid patch progress''))
             else Inr ()) of
        Inl e \<Rightarrow> (Inl e, r, h)
      | Inr _ \<Rightarrow>
          (case rt_checkpoint (runtime tool) h of
             (Inl e, h1) \<Rightarrow> (Inl e, r, h1)
           | (Inr _, h1) \<Rightarrow>
               if is_complete r
               then (Inr (Complete \<lparr>out_host_id = prep_host_id (run_prepared r),
                                    out_changes = changes (run_prepared r)\<rparr>), r, h1)
               else (case advance tool r h1 of
                  (Inl (Fail e), h2) \<Rightarrow>
                    (Inl (Fail (annotate e (applied_operations r) (operation_count (run_prepared r)))), r, h2)
                | (Inl (Panic m), h2) \<Rightarrow> (Inl (Panic m), r, h2)
                | (Inr r', h2) \<Rightarrow> (Inr CheckpointRequired, r', h2))))"

section \<open>The loop terminates\<close>

lemma write_operations_length:
  "write_operations tool p ph n content = Inr ops \<Longrightarrow> length ops = (if content = None then 0 else 1)"
  by (auto simp: write_operations_def Let_def rbind_Inr_iff split: option.splits if_splits)

lemma remove_operations_length:
  "remove_operations p ph n = Inr ops \<Longrightarrow>
     length ops = (if is_delete (prepared ph) \<or> destination ph \<noteq> None then 1 else 0)"
  by (auto simp: remove_operations_def rbind_Inr_iff split: if_splits)

lemma new_content_None:
  "new_content tool um ph h = (Inr content, h') \<Longrightarrow> content = None \<longleftrightarrow> is_delete (prepared ph)"
  by (cases "prepared ph") (auto simp: new_content_def io_bind_Inr_iff)

lemma stage_hunk_length:
  assumes "stage_hunk tool r h = (Inr ops, h')"
  shows "length ops = (let ph = prep_hunks (run_prepared r) ! hunk_index r in
     if destination ph = None \<or> is_delete (prepared ph) then 1 else 2)"
  using assms
  by (auto simp: stage_hunk_def io_bind_Inr_iff Let_def
      dest!: new_content_None write_operations_length remove_operations_length split: if_splits)

definition remaining_steps :: "running_patch \<Rightarrow> nat \<times> nat" where
  "remaining_steps r =
     (length (prep_hunks (run_prepared r)) - hunk_index r,
      if pending r = [] then 3 else length (pending r) - next_operation r)"

lemma advance_decreases:
  assumes "advance tool r h = (Inr r', h')" and "\<not> progress_invalid r" and "\<not> is_complete r"
  shows "(remaining_steps r', remaining_steps r) \<in> less_than <*lex*> less_than"
proof (cases "pending r = []")
  case True
  then obtain ops where "stage_hunk tool r h = (Inr ops, h')" "r' = r\<lparr>pending := ops\<rparr>"
    using assms(1) by (auto simp: advance_def io_bind_Inr_iff)
  moreover from stage_hunk_length [OF this(1)] have "0 < length ops" "length ops \<le> 2"
    by (auto simp: Let_def split: if_splits)
  ultimately show ?thesis
    using True by (auto simp: remaining_steps_def)
next
  case False
  then have "r' = acknowledge r" using assms(1) by (auto simp: advance_def io_bind_Inr_iff)
  with False assms(2,3) show ?thesis
    by (auto simp: remaining_steps_def acknowledge_def progress_invalid_def is_complete_def Let_def)
qed

lemma step_checkpoint:
  assumes "step tool r h = (Inr CheckpointRequired, r', h')"
  shows "\<exists>h1. rt_checkpoint (runtime tool) h = (Inr (), h1) \<and> advance tool r h1 = (Inr r', h') \<and>
     \<not> progress_invalid r \<and> \<not> is_complete r \<and> validate_prepared tool (run_prepared r) = Inr ()"
  using assms
  by (auto simp: step_def rbind_Inr_iff split: sum.splits prod.splits if_splits fail.splits)

lemma step_complete:
  assumes "step tool r h = (Inr (Complete out), r', h')"
  shows "rt_checkpoint (runtime tool) h = (Inr (), h') \<and> is_complete r \<and> \<not> progress_invalid r \<and> r' = r \<and>
     out = \<lparr>out_host_id = prep_host_id (run_prepared r), out_changes = changes (run_prepared r)\<rparr> \<and>
     validate_prepared tool (run_prepared r) = Inr ()"
  using assms
  by (auto simp: step_def rbind_Inr_iff split: sum.splits prod.splits if_splits fail.splits)

function apply_loop ::
  "'h patch_tool \<Rightarrow> running_patch \<Rightarrow> 'h \<Rightarrow> patch_output exec_result \<times> running_patch \<times> 'h" where
  "apply_loop tool r h = (case step tool r h of
     (Inl e, r', h') \<Rightarrow> (Inl e, r', h')
   | (Inr progress, r', h') \<Rightarrow> (case progress of
       CheckpointRequired \<Rightarrow> apply_loop tool r' h'
     | Complete out \<Rightarrow> (Inr out, r', h')))"
  by pat_completeness auto
termination
proof (relation "inv_image (less_than <*lex*> less_than) (\<lambda>(tool, r, h). remaining_steps r)")
  fix tool :: "'h patch_tool" and r r' and h h' :: 'h and x y progress
  assume "(x, y) = step tool r h" and "(r', h') = y" and "x = Inr progress" and "progress = CheckpointRequired"
  then have "step tool r h = (Inr CheckpointRequired, r', h')" by simp
  from step_checkpoint [OF this] advance_decreases
  show "((tool, r', h'), tool, r, h) \<in> inv_image (less_than <*lex*> less_than) (\<lambda>(tool, r, h). remaining_steps r)"
    by fastforce
qed auto

declare apply_loop.simps [simp del]

section \<open>Progress accounting and operation identities\<close>

text \<open>Only an update can have a move destination, as \<open>prepare\<close> guarantees.\<close>

definition prepared_hunk_wf :: "prepared_hunk \<Rightarrow> bool" where
  "prepared_hunk_wf ph \<longleftrightarrow>
     (destination ph \<noteq> None \<longrightarrow> \<not> is_delete (prepared ph) \<and> \<not> is_add (prepared ph)) \<and> hunk_wf (prepared ph)"

definition operations_before :: "running_patch \<Rightarrow> nat" where
  "operations_before r = sum_list (map hunk_operations (take (hunk_index r) (prep_hunks (run_prepared r))))"

definition operation_name :: "string \<Rightarrow> nat \<Rightarrow> string" where
  "operation_name base i = base @ '':apply_patch:'' @ show_nat i"

fun operation_name_of :: "prepared_operation \<Rightarrow> string" where
  "operation_name_of (OpWrite rq) = write_operation_id rq"
| "operation_name_of (OpRemove rq) = remove_operation_id rq"

lemma hunk_operations_pos [simp]: "0 < hunk_operations ph"
  by (simp add: hunk_operations_def)

lemma operation_name_inj: "operation_name base i = operation_name base j \<longleftrightarrow> i = j"
  by (simp add: operation_name_def show_nat_inj)

lemma derived_id_Inr: "derived_id base i = Inr s \<Longrightarrow> s = operation_name base i"
  by (auto simp: derived_id_def id_new_def operation_name_def split: if_splits)

definition running_inv :: "running_patch \<Rightarrow> bool" where
  "running_inv r \<longleftrightarrow> \<not> progress_invalid r \<and> list_all prepared_hunk_wf (prep_hunks (run_prepared r)) \<and>
     applied_operations r = operations_before r + next_operation r \<and>
     (pending r \<noteq> [] \<longrightarrow>
        length (pending r) = hunk_operations (prep_hunks (run_prepared r) ! hunk_index r)) \<and>
     (\<forall>k < length (pending r). operation_name_of (pending r ! k) =
        operation_name (operation_id (run_prepared r)) (operations_before r + k))"

lemma running_inv_start:
  assumes "start tool p = Inr r" and "list_all prepared_hunk_wf (prep_hunks p)"
  shows "running_inv r" and "run_prepared r = p" and "hunk_index r = 0" and "applied_operations r = 0"
    and "pending r = []" and "next_operation r = 0"
  using assms
  by (auto simp: start_def rbind_Inr_iff running_inv_def progress_invalid_def operations_before_def
      validate_prepared_def split: if_splits)

lemma write_operations_names:
  "write_operations tool p ph n content = Inr ops \<Longrightarrow> k < length ops \<Longrightarrow>
     operation_name_of (ops ! k) = operation_name (operation_id p) (n + k)"
  by (auto simp: write_operations_def Let_def rbind_Inr_iff split: option.splits if_splits dest: derived_id_Inr)

lemma remove_operations_names:
  "remove_operations p ph n = Inr ops \<Longrightarrow> k < length ops \<Longrightarrow>
     operation_name_of (ops ! k) = operation_name (operation_id p) (n + k)"
  by (auto simp: remove_operations_def rbind_Inr_iff split: if_splits dest: derived_id_Inr)

lemma stage_hunk_names:
  assumes "stage_hunk tool r h = (Inr ops, h')" and "k < length ops"
  shows "operation_name_of (ops ! k) = operation_name (operation_id (run_prepared r)) (applied_operations r + k)"
proof -
  obtain content writes removes where
      w: "write_operations tool (run_prepared r) (prep_hunks (run_prepared r) ! hunk_index r)
            (applied_operations r) content = Inr writes"
      and rm: "remove_operations (run_prepared r) (prep_hunks (run_prepared r) ! hunk_index r)
            (applied_operations r + length writes) = Inr removes"
      and ops: "ops = writes @ removes"
    using assms(1) by (auto simp: stage_hunk_def Let_def io_bind_Inr_iff)
  show ?thesis
    using write_operations_names [OF w, of k] remove_operations_names [OF rm, of "k - length writes"] assms(2)
    by (auto simp: ops nth_append)
qed

lemma operations_before_Suc:
  "hunk_index r < length (prep_hunks (run_prepared r)) \<Longrightarrow>
     operations_before (r\<lparr>hunk_index := hunk_index r + 1, next_operation := n, pending := ps, applied_operations := a\<rparr>)
       = operations_before r + hunk_operations (prep_hunks (run_prepared r) ! hunk_index r)"
  by (simp add: operations_before_def take_Suc_conv_app_nth)

lemma advance_inv:
  assumes "advance tool r h = (Inr r', h')" and "running_inv r" and "\<not> is_complete r"
  shows "running_inv r'" and "run_prepared r' = run_prepared r"
proof -
  have lt: "hunk_index r < length (prep_hunks (run_prepared r))"
    using assms(2,3) by (auto simp: running_inv_def progress_invalid_def is_complete_def)
  have "running_inv r' \<and> run_prepared r' = run_prepared r"
  proof (cases "pending r = []")
    case True
    then obtain ops where ops: "stage_hunk tool r h = (Inr ops, h')" "r' = r\<lparr>pending := ops\<rparr>"
      using assms(1) by (auto simp: advance_def io_bind_Inr_iff)
    have wf: "prepared_hunk_wf (prep_hunks (run_prepared r) ! hunk_index r)"
      using assms(2) lt by (simp add: running_inv_def list_all_length)
    then have "length ops = hunk_operations (prep_hunks (run_prepared r) ! hunk_index r)"
      using stage_hunk_length [OF ops(1)]
      by (auto simp: Let_def hunk_operations_def prepared_hunk_wf_def split: if_splits)
    moreover from this have "ops \<noteq> []" by (auto simp: hunk_operations_def split: if_splits)
    ultimately show ?thesis
      using assms(2) True lt stage_hunk_names [OF ops(1)]
      by (auto simp: ops(2) running_inv_def progress_invalid_def operations_before_def)
  next
    case False
    then have "r' = acknowledge r" using assms(1) by (auto simp: advance_def io_bind_Inr_iff)
    with False assms(2) lt show ?thesis
      by (auto simp: running_inv_def acknowledge_def progress_invalid_def operations_before_def Let_def
               take_Suc_conv_app_nth)
  qed
  then show "running_inv r'" and "run_prepared r' = run_prepared r" by simp_all
qed

lemma dispatched_name:
  assumes "running_inv r" and "pending r \<noteq> []"
  shows "operation_name_of (pending r ! next_operation r) =
     operation_name (operation_id (run_prepared r)) (applied_operations r)"
  using assms by (auto simp: running_inv_def progress_invalid_def)

lemma running_complete:
  assumes "running_inv r" and "is_complete r"
  shows "applied_operations r = operation_count (run_prepared r)"
  using assms
  by (auto simp: running_inv_def is_complete_def progress_invalid_def operations_before_def operation_count_def)

lemma apply_loop_Inr_induct [consumes 1, case_names complete advance]:
  assumes "apply_loop tool r h = (Inr out, r', h')"
    and "\<And>r h h'. step tool r h = (Inr (Complete out), r, h') \<Longrightarrow> P r h r h'"
    and "\<And>r h r1 h1 r' h'. step tool r h = (Inr CheckpointRequired, r1, h1) \<Longrightarrow>
           apply_loop tool r1 h1 = (Inr out, r', h') \<Longrightarrow> P r1 h1 r' h' \<Longrightarrow> P r h r' h'"
  shows "P r h r' h'"
  using assms
proof (induction tool r h rule: apply_loop.induct)
  case (1 tool r h)
  obtain x r1 h1 where st: "step tool r h = (x, r1, h1)" by (cases "step tool r h")
  show ?case
  proof (cases x)
    case (Inl e)
    with "1.prems"(1) st show ?thesis by (simp add: apply_loop.simps [of tool r h])
  next
    case (Inr progress)
    show ?thesis
    proof (cases progress)
      case CheckpointRequired
      then have rest: "apply_loop tool r1 h1 = (Inr out, r', h')"
        using "1.prems"(1) st Inr by (simp add: apply_loop.simps [of tool r h])
      have "P r1 h1 r' h'"
        by (rule "1.IH" [OF st [symmetric] Inr refl CheckpointRequired rest])
           (rule "1.prems"(2), assumption, rule "1.prems"(3), assumption+)
      with "1.prems"(3) st Inr CheckpointRequired rest show ?thesis by blast
    next
      case (Complete o')
      then have "o' = out" "r' = r1" "h' = h1"
        using "1.prems"(1) st Inr by (simp_all add: apply_loop.simps [of tool r h])
      moreover have "r1 = r" using step_complete [of tool r h o' r1 h1] st Inr Complete by simp
      ultimately have fin: "step tool r h = (Inr (Complete out), r, h')" and "r' = r"
        using st Inr Complete by simp_all
      show ?thesis unfolding \<open>r' = r\<close> by (rule "1.prems"(2) [OF fin])
    qed
  qed
qed

lemma apply_loop_accounting:
  assumes "apply_loop tool r h = (Inr out, r', h')" and "running_inv r"
  shows "is_complete r' \<and> running_inv r' \<and> run_prepared r' = run_prepared r \<and>
     applied_operations r' = operation_count (run_prepared r) \<and> out_changes out = changes (run_prepared r)"
  using assms
proof (induction rule: apply_loop_Inr_induct)
  case (complete r h h')
  with step_complete [OF complete(1)] running_complete show ?case by simp
next
  case (advance r h r1 h1 r' h')
  from step_checkpoint [OF advance(1)] advance_inv advance(3,4) show ?case by metis
qed

section \<open>What an applied patch does to the files of a host\<close>

text \<open>The meaning of prepared hunks on a map from paths to contents.\<close>

definition hunk_content :: "update_mode \<Rightarrow> prepared_hunk \<Rightarrow> (exec_path \<rightharpoonup> string) \<Rightarrow> string option option" where
  "hunk_content um ph fs = (case prepared ph of
     AddFile _ contents \<Rightarrow> Some (Some contents)
   | DeleteFile _ \<Rightarrow> Some None
   | UpdateFile p _ chunks \<Rightarrow> (case fs (source ph) of
       None \<Rightarrow> None
     | Some original \<Rightarrow> (case derive_new_contents p original chunks um of
         Inl _ \<Rightarrow> None
       | Inr c \<Rightarrow> Some (Some c))))"

definition hunk_effect :: "update_mode \<Rightarrow> prepared_hunk \<Rightarrow> (exec_path \<rightharpoonup> string) \<Rightarrow> (exec_path \<rightharpoonup> string) option" where
  "hunk_effect um ph fs = (case hunk_content um ph fs of
     None \<Rightarrow> None
   | Some content \<Rightarrow>
       (let written = (case content of
              None \<Rightarrow> fs
            | Some c \<Rightarrow> fs((case destination ph of Some d \<Rightarrow> d | None \<Rightarrow> source ph) \<mapsto> c))
        in Some (if is_delete (prepared ph) \<or> destination ph \<noteq> None
                 then written(source ph := None) else written)))"

fun patch_effect :: "update_mode \<Rightarrow> prepared_hunk list \<Rightarrow> (exec_path \<rightharpoonup> string) \<Rightarrow> (exec_path \<rightharpoonup> string) option" where
  "patch_effect um [] fs = Some fs"
| "patch_effect um (ph # phs) fs = Option.bind (hunk_effect um ph fs) (patch_effect um phs)"

fun operation_effect :: "prepared_operation \<Rightarrow> (exec_path \<rightharpoonup> string) \<Rightarrow> (exec_path \<rightharpoonup> string)" where
  "operation_effect (OpWrite rq) fs = fs(write_path rq \<mapsto> write_data rq)"
| "operation_effect (OpRemove rq) fs = fs(remove_path rq := None)"

fun tool_operation :: "prepared_operation \<Rightarrow> bool" where
  "tool_operation (OpWrite rq) = (strategy rq = InPlace \<and> condition rq = AnyState)"
| "tool_operation (OpRemove rq) = (target_kind rq = FileTarget)"

lemma staged_effect:
  assumes "write_operations tool p ph n content = Inr writes"
    and "remove_operations p ph m = Inr removes"
    and "hunk_content um ph fs = Some content"
  shows "hunk_effect um ph fs = Some (fold operation_effect (writes @ removes) fs)"
    and "list_all tool_operation (writes @ removes)"
  using assms
  by (auto simp: hunk_effect_def write_operations_def remove_operations_def Let_def rbind_Inr_iff
           split: option.splits if_splits)


context file_host
begin

lemma stat_optional_file:
  assumes "ok h" and "stat_optional rt p h = (Inr found, h')"
  shows "ok h' \<and> files h' = files h \<and> used h' = used h \<and>
     (\<forall>m. found = Some m \<longrightarrow> (\<exists>c. files h p = Some c \<and> file_size m = length c))"
proof -
  obtain x h1 where st: "rt_stat rt \<lparr>stat_path = p, stat_follow_symlinks = True\<rparr> h = (x, h1)" by force
  note fr = stat_frame [OF assms(1) st]
  show ?thesis
  proof (cases x)
    case (Inl e)
    with assms(2) st fr show ?thesis
      by (auto simp: stat_optional_def split: fail.splits if_splits)
  next
    case (Inr m)
    then obtain h2 where "rt_checkpoint rt h1 = (Inr (), h2)" "h' = h2" "kind m = File" "found = Some m"
      using assms(2) st by (auto simp: stat_optional_def io_bind_Inr_iff split: if_splits)
    with fr checkpoint_frame [of h1] stat_file [OF assms(1)] st Inr show ?thesis by force
  qed
qed

lemma read_chunk_frame:
  assumes "ok h" and "read_chunk rt p meta rev_id n off h = (Inr (bytes, ended), h')"
  shows "ok h' \<and> files h' = files h \<and> used h' = used h \<and>
     (\<exists>c k. files h p = Some c \<and> bytes = take k (drop off c))"
proof -
  define rq where "rq = \<lparr>read_path = p, read_offset = off,
     max_bytes = read_limit n (file_size meta) off, read_follow_symlinks = True\<rparr>"
  obtain h1 h2 reply where 1: "rt_checkpoint rt h = (Inr (), h1)" and 2: "rt_read rt rq h1 = (Inr reply, h2)"
      and 3: "rt_checkpoint rt h2 = (Inr (), h')"
      and 4: "accept_chunk p meta rev_id off (read_limit n (file_size meta) off) reply = Inr (bytes, ended)"
    using assms(2) by (auto simp: read_chunk_def Let_def io_bind_Inr_iff rq_def)
  note f1 = checkpoint_frame [OF assms(1) 1]
  then have ok1: "ok h1" by simp
  note f2 = read_frame [OF ok1 2]
  then have ok2: "ok h2" by simp
  note f3 = checkpoint_frame [OF ok2 3]
  show ?thesis
    using f1 f2 f3 read_contents [OF ok1 2] accept_chunk_Inr(1) [OF 4] by (auto simp: rq_def)
qed

lemma read_loop_contents:
  assumes "read_loop rt p meta rev_id n bytes h = (Inr content, h')" and "ok h"
    and "files h p = Some c" and "bytes = take (length bytes) c" and "file_size meta = length c"
  shows "ok h' \<and> files h' = files h \<and> used h' = used h \<and> content = c"
  using assms
proof (induction "file_size meta - length bytes" arbitrary: bytes h rule: less_induct)
  case less
  obtain x h1 where rc: "read_chunk rt p meta rev_id n (length bytes) h = (x, h1)" by force
  note eq = read_loop.simps [of rt p meta rev_id n bytes h, unfolded rc]
  obtain piece ended where x: "x = Inr (piece, ended)"
    using less.prems(1) unfolding eq by (cases x) auto
  from read_chunk_frame [OF less.prems(2) rc [unfolded x]] less.prems(3)
  obtain k where fr: "ok h1" "files h1 = files h" "used h1 = used h" and k: "piece = take k (drop (length bytes) c)"
    by auto
  obtain reply where a: "accept_chunk p meta rev_id (length bytes)
      (read_limit n (file_size meta) (length bytes)) reply = Inr (piece, ended)"
    using read_chunk_Inr [OF rc [unfolded x]] by blast
  have "piece = take (length piece) (drop (length bytes) c)" unfolding k by (simp add: min_def)
  then have grown: "bytes @ piece = take (length (bytes @ piece)) c"
    by (rule take_grow [OF less.prems(4) [symmetric] sym, symmetric])
  show ?case
  proof (cases ended)
    case True
    then have "length (bytes @ piece) = length c"
      using accept_chunk_Inr(4) [OF a] less.prems(5) by simp
    with True less.prems(1) fr grown show ?thesis unfolding eq x by simp
  next
    case False
    have "file_size meta - length (bytes @ piece) < file_size meta - length bytes"
    proof -
      have "0 < length piece" using accept_chunk_Inr(5) [OF a] False by simp
      then show ?thesis using accept_chunk_Inr(3) [OF a] unfolding length_append by linarith
    qed
    moreover have "read_loop rt p meta rev_id n (bytes @ piece) h1 = (Inr content, h')"
      using less.prems(1) False unfolding eq x by simp
    ultimately show ?thesis
      using less.hyps [of "bytes @ piece" h1] fr less.prems(3,5) grown by simp
  qed
qed

lemma read_text_contents:
  assumes "ok h" and "runtime tool = rt" and "read_text tool p h = (Inr (content, meta), h')"
  shows "ok h' \<and> files h' = files h \<and> used h' = used h \<and> files h p = Some content"
proof -
  obtain m h1 rev_id n where st: "stat_optional rt p h = (Inr (Some m), h1)"
      and lp: "read_loop rt p m rev_id n [] h1 = (Inr content, h')"
  proof -
    obtain found h1 where "stat_optional rt p h = (Inr found, h1)"
        and rest: "(case found of
           None \<Rightarrow> io_lift (Inl (Fail (patch_error NotFound (''Failed to read '' @ debug_path tool p @ '': file not found''))))
         | Some meta \<Rightarrow> read_found tool p meta) h1 = (Inr (content, meta), h')"
      using assms(2,3) by (auto simp: read_text_def io_bind_Inr_iff)
    then show ?thesis
      using that assms(2)
      by (cases found) (auto simp: read_found_def io_bind_Inr_iff Let_def split: option.splits if_splits)
  qed
  from stat_optional_file [OF assms(1) st] obtain c where
      c: "ok h1" "files h1 = files h" "used h1 = used h" "files h p = Some c" "file_size m = length c" by auto
  with read_loop_contents [OF lp] show ?thesis by simp
qed

lemma new_content_effect:
  assumes "ok h" and "runtime tool = rt" and "new_content tool um ph h = (Inr content, h')"
  shows "ok h' \<and> files h' = files h \<and> used h' = used h \<and> hunk_content um ph (files h) = Some content"
  using assms(3)
proof (cases "prepared ph")
  case (UpdateFile p mv chunks)
  then obtain original meta c where rd: "read_text tool (source ph) h = (Inr (original, meta), h')"
      and "derive_new_contents p original chunks um = Inr c" "content = Some c"
    using assms(3) by (auto simp: new_content_def io_bind_Inr_iff)
  with read_text_contents [OF assms(1,2) rd] show ?thesis
    by (simp add: hunk_content_def UpdateFile)
qed (use assms in \<open>auto simp: new_content_def hunk_content_def\<close>)

lemma dispatch_effect:
  assumes "ok h" and "runtime tool = rt" and "dispatch tool op h = (Inr (), h')"
    and "tool_operation op" and "operation_name_of op \<notin> used h"
  shows "ok h' \<and> files h' = operation_effect op (files h) \<and> used h' = insert (operation_name_of op) (used h)"
proof (cases op)
  case (OpWrite rq)
  then obtain w where "rt_write rt rq h = (Inr w, h')"
    using assms(2,3) by (auto simp: dispatch_def io_bind_Inr_iff split: if_splits)
  with write_effect [OF assms(1)] assms(4,5) OpWrite show ?thesis by simp
next
  case (OpRemove rq)
  then have "rt_remove rt rq h = (Inr True, h')"
    using assms(2,3) by (auto simp: dispatch_def io_bind_Inr_iff split: if_splits)
  with remove_effect [OF assms(1)] assms(4,5) OpRemove show ?thesis by simp
qed

text \<open>
  The state of the host during a run that started on the files \<open>fs\<close> with the identifiers
  \<open>seen\<close>: the hunks before the current one are done, the staged operations are those of the
  current hunk and the first \<open>next_operation\<close> of them have taken effect.
\<close>

definition run_rel :: "(exec_path \<rightharpoonup> string) \<Rightarrow> string set \<Rightarrow> running_patch \<Rightarrow> 'h \<Rightarrow> bool" where
  "run_rel fs seen r h \<longleftrightarrow> ok h \<and>
     used h = seen \<union> operation_name (operation_id (run_prepared r)) ` {..<applied_operations r} \<and>
     (\<exists>base. patch_effect (prep_mode (run_prepared r)) (take (hunk_index r) (prep_hunks (run_prepared r))) fs = Some base \<and>
        files h = fold operation_effect (take (next_operation r) (pending r)) base \<and>
        list_all tool_operation (pending r) \<and>
        (pending r \<noteq> [] \<longrightarrow> hunk_effect (prep_mode (run_prepared r))
           (prep_hunks (run_prepared r) ! hunk_index r) base = Some (fold operation_effect (pending r) base)))"

lemma stage_hunk_effect:
  assumes "ok h" and "runtime tool = rt" and "stage_hunk tool r h = (Inr ops, h')"
  shows "ok h' \<and> files h' = files h \<and> used h' = used h \<and> list_all tool_operation ops \<and>
     hunk_effect (prep_mode (run_prepared r)) (prep_hunks (run_prepared r) ! hunk_index r) (files h)
       = Some (fold operation_effect ops (files h))"
proof -
  let ?p = "run_prepared r" and ?ph = "prep_hunks (run_prepared r) ! hunk_index r"
  obtain content writes removes where nc: "new_content tool (prep_mode ?p) ?ph h = (Inr content, h')"
      and w: "write_operations tool ?p ?ph (applied_operations r) content = Inr writes"
      and rm: "remove_operations ?p ?ph (applied_operations r + length writes) = Inr removes"
      and ops: "ops = writes @ removes"
    using assms(3) by (auto simp: stage_hunk_def Let_def io_bind_Inr_iff)
  note c = new_content_effect [OF assms(1,2) nc]
  from c have "hunk_content (prep_mode ?p) ?ph (files h) = Some content" by simp
  from c staged_effect [OF w rm this] show ?thesis
    by (simp add: ops)
qed

lemma run_rel_stage:
  assumes "run_rel fs seen r h" and "runtime tool = rt" and "pending r = []" and "next_operation r = 0"
    and "stage_hunk tool r h = (Inr ops, h')"
  shows "run_rel fs seen (r\<lparr>pending := ops\<rparr>) h'"
  using stage_hunk_effect [OF _ assms(2,5)] assms(1,3,4) by (auto simp: run_rel_def)

lemma patch_effect_snoc:
  "patch_effect um (phs @ [ph]) fs = Option.bind (patch_effect um phs fs) (hunk_effect um ph)"
  by (induction phs arbitrary: fs) (auto split: bind_split)

lemma run_rel_dispatch:
  assumes "run_rel fs seen r h" and "runtime tool = rt" and "running_inv r" and "pending r \<noteq> []"
    and "\<not> is_complete r" and "\<forall>i. operation_name (operation_id (run_prepared r)) i \<notin> seen"
    and "dispatch tool (pending r ! next_operation r) h = (Inr (), h')"
  shows "run_rel fs seen (acknowledge r) h'"
proof -
  let ?p = "run_prepared r" and ?op = "pending r ! next_operation r"
  have idx: "next_operation r < length (pending r)" and hi: "hunk_index r < length (prep_hunks ?p)"
    using assms(3,4,5) by (auto simp: running_inv_def progress_invalid_def is_complete_def)
  have name: "operation_name_of ?op = operation_name (operation_id ?p) (applied_operations r)"
    by (rule dispatched_name [OF assms(3,4)])
  obtain base where base: "patch_effect (prep_mode ?p) (take (hunk_index r) (prep_hunks ?p)) fs = Some base"
      "files h = fold operation_effect (take (next_operation r) (pending r)) base"
      "hunk_effect (prep_mode ?p) (prep_hunks ?p ! hunk_index r) base = Some (fold operation_effect (pending r) base)"
      and all: "list_all tool_operation (pending r)"
    using assms(1,4) by (auto simp: run_rel_def)
  have "ok h" and us: "used h = seen \<union> operation_name (operation_id ?p) ` {..<applied_operations r}"
    using assms(1) by (auto simp: run_rel_def)
  moreover have "operation_name_of ?op \<notin> used h"
    using assms(6) us by (auto simp: name operation_name_inj)
  moreover have "tool_operation ?op" using all idx by (simp add: list_all_length)
  ultimately have eff: "ok h' \<and> files h' = operation_effect ?op (files h) \<and>
      used h' = insert (operation_name_of ?op) (used h)"
    using dispatch_effect [OF _ assms(2,7)] by blast
  have files': "files h' = fold operation_effect (take (Suc (next_operation r)) (pending r)) base"
    using eff base(2) idx by (simp add: take_Suc_conv_app_nth)
  have used': "used h' = seen \<union> operation_name (operation_id ?p) ` {..<Suc (applied_operations r)}"
    using eff us name by (simp add: lessThan_Suc)
  show ?thesis
  proof (cases "Suc (next_operation r) = length (pending r)")
    case True
    then show ?thesis
      using eff files' used' base hi
      by (auto simp: run_rel_def acknowledge_def Let_def take_Suc_conv_app_nth patch_effect_snoc)
  next
    case False
    then show ?thesis
      using eff files' used' base all assms(4)
      by (auto simp: run_rel_def acknowledge_def Let_def)
  qed
qed

lemma run_rel_step:
  assumes "step tool r h = (Inr CheckpointRequired, r', h')" and "run_rel fs seen r h"
    and "runtime tool = rt" and "running_inv r"
    and "\<forall>i. operation_name (operation_id (run_prepared r)) i \<notin> seen"
  shows "run_rel fs seen r' h'"
proof -
  obtain h1 where cp: "rt_checkpoint rt h = (Inr (), h1)" and adv: "advance tool r h1 = (Inr r', h')"
      and nc: "\<not> is_complete r"
    using step_checkpoint [OF assms(1)] assms(3) by auto
  have rel: "run_rel fs seen r h1"
    using assms(2) checkpoint_frame [OF _ cp] by (auto simp: run_rel_def)
  show ?thesis
  proof (cases "pending r = []")
    case True
    moreover from this have "next_operation r = 0" using assms(4) by (auto simp: running_inv_def progress_invalid_def)
    ultimately show ?thesis
      using run_rel_stage [OF rel assms(3)] adv by (auto simp: advance_def io_bind_Inr_iff)
  next
    case False
    then show ?thesis
      using run_rel_dispatch [OF rel assms(3,4) False nc assms(5)] adv by (auto simp: advance_def io_bind_Inr_iff)
  qed
qed

lemma apply_loop_rel:
  assumes "apply_loop tool r h = (Inr out, r', h')" and "run_rel fs seen r h"
    and "runtime tool = rt" and "running_inv r"
    and "\<forall>i. operation_name (operation_id (run_prepared r)) i \<notin> seen"
  shows "run_rel fs seen r' h'"
  using assms(1,2,4,5)
proof (induction rule: apply_loop_Inr_induct)
  case (complete r h h')
  have "rt_checkpoint rt h = (Inr (), h')" using step_complete [OF complete(1)] assms(3) by simp
  with complete(2) checkpoint_frame show ?case by (auto simp: run_rel_def)
next
  case (advance r h r1 h1 r' h')
  obtain h2 where adv: "advance tool r h2 = (Inr r1, h1)" and nc: "\<not> is_complete r"
    using step_checkpoint [OF advance(1)] by blast
  note inv = advance_inv [OF adv advance.prems(2) nc]
  show ?case
    using advance.IH run_rel_step [OF advance(1) advance.prems(1) assms(3) advance.prems(2,3)] inv advance.prems(3)
    by simp
qed

lemma apply_loop_files:
  assumes "start tool p = Inr r" and "runtime tool = rt" and "list_all prepared_hunk_wf (prep_hunks p)"
    and "ok h" and "\<forall>i. operation_name (operation_id p) i \<notin> used h"
    and "apply_loop tool r h = (Inr out, r', h')"
  shows "patch_effect (prep_mode p) (prep_hunks p) (files h) = Some (files h')"
proof -
  note r = running_inv_start [OF assms(1,3)]
  have "run_rel (files h) (used h) r h"
    using r assms(4) by (simp add: run_rel_def)
  from apply_loop_rel [OF assms(6) this assms(2) r(1)] r(2) assms(5)
  have "run_rel (files h) (used h) r' h'" by simp
  moreover from apply_loop_accounting [OF assms(6) r(1)] r(2)
  have "hunk_index r' = length (prep_hunks p)" "run_prepared r' = p" "pending r' = []"
    by (auto simp: is_complete_def running_inv_def progress_invalid_def)
  ultimately show ?thesis by (auto simp: run_rel_def)
qed

lemma verify_hunk_frame:
  assumes "ok h" and "runtime tool = rt" and "verify_hunk tool src hk h = (Inr x, h')"
  shows "ok h' \<and> files h' = files h \<and> used h' = used h"
proof (cases "is_add hk")
  case True
  with assms show ?thesis by (cases hk) (auto simp: verify_hunk_def)
next
  case False
  with assms(3) obtain content meta where "read_text tool src h = (Inr (content, meta), h')"
    by (cases hk) (auto simp: verify_hunk_def io_bind_Inr_iff split: option.split_asm)
  from read_text_contents [OF assms(1,2) this] show ?thesis by simp
qed

lemma prepare_hunks_frame:
  "prepare_hunks tool sources n hks h = (Inr pairs, h') \<Longrightarrow> ok h \<Longrightarrow> runtime tool = rt \<Longrightarrow>
     ok h' \<and> files h' = files h \<and> used h' = used h"
proof (induction tool sources n hks arbitrary: h pairs rule: prepare_hunks.induct)
  case (2 tool sources n hk hks)
  from "2.prems"(1) obtain h1 h2 src x m rest where cp: "rt_checkpoint rt h = (Inr (), h1)" and src: "src \<notin> sources"
      and vh: "verify_hunk tool src hk h1 = (Inr x, h2)"
      and rest: "prepare_hunks tool (insert src sources) m hks h2 = (Inr rest, h')"
    using "2.prems"(3) by (auto simp: io_bind_Inr_iff split: if_splits)
  note fr = checkpoint_frame [OF "2.prems"(2) cp]
  with verify_hunk_frame [OF _ "2.prems"(3) vh] "2.IH" [OF src rest] "2.prems"(3) show ?case by simp
qed simp

lemma prepare_frame:
  assumes "ok h" and "runtime tool = rt" and "prepare tool input op_id h = (Inr p, h')"
  shows "ok h' \<and> files h' = files h \<and> used h' = used h"
proof -
  obtain h1 hks pairs where cp: "rt_checkpoint rt h = (Inr (), h1)"
      and ph: "prepare_hunks tool {} 0 hks h1 = (Inr pairs, h')"
    using assms(3) by (auto simp: prepare_def io_bind_Inr_iff assms(2) split: if_splits)
  from checkpoint_frame [OF assms(1) cp] prepare_hunks_frame [OF ph _ assms(2)] show ?thesis by simp
qed

end

section \<open>What verification guarantees\<close>

lemma count_operations_Inr:
  "count_operations tool n dest = Inr m \<Longrightarrow>
     m = n + (if dest \<noteq> None then 2 else 1) \<and> m \<le> max_operations (config tool)"
  by (auto simp: count_operations_def split: option.splits if_splits)

lemma verify_hunk_Inr:
  assumes "verify_hunk tool src hk h = (Inr (k, dest), h')"
  shows "dest \<noteq> None \<Longrightarrow> \<not> is_delete hk \<and> \<not> is_add hk"
  using assms by (cases hk) (auto simp: verify_hunk_def io_bind_Inr_iff)

lemma prepare_hunks_ok:
  assumes "prepare_hunks tool sources n hks h = (Inr pairs, h')" and "list_all hunk_wf hks"
  shows "list_all prepared_hunk_wf (map fst pairs) \<and> length pairs = length hks \<and>
     distinct (map (\<lambda>x. source (fst x)) pairs) \<and> (\<lambda>x. source (fst x)) ` set pairs \<inter> sources = {} \<and>
     (hks \<noteq> [] \<longrightarrow> n + sum_list (map (\<lambda>x. hunk_operations (fst x)) pairs) \<le> max_operations (config tool))"
  using assms
proof (induction tool sources n hks arbitrary: h pairs rule: prepare_hunks.induct)
  case (2 tool sources n hk hks)
  obtain h1 h2 src k dest m rest where
      src: "src \<notin> sources" and vh: "verify_hunk tool src hk h1 = (Inr (k, dest), h2)"
      and m: "count_operations tool n dest = Inr m"
      and rest: "prepare_hunks tool (insert src sources) m hks h2 = (Inr rest, h')"
      and pairs: "pairs = (\<lparr>source = src, destination = dest, prepared = hk\<rparr>,
                           \<lparr>change_kind = k, change_path = affected_path hk\<rparr>) # rest"
    using "2.prems"(1) by (auto simp: io_bind_Inr_iff split: if_splits)
  have ih: "list_all prepared_hunk_wf (map fst rest) \<and> length rest = length hks \<and>
     distinct (map (\<lambda>x. source (fst x)) rest) \<and> (\<lambda>x. source (fst x)) ` set rest \<inter> insert src sources = {} \<and>
     (hks \<noteq> [] \<longrightarrow> m + sum_list (map (\<lambda>x. hunk_operations (fst x)) rest) \<le> max_operations (config tool))"
    using "2.prems"(2) by (intro "2.IH" [OF src rest]) simp
  have "hunk_operations \<lparr>source = src, destination = dest, prepared = hk\<rparr> = m - n"
    using count_operations_Inr [OF m] by (auto simp: hunk_operations_def)
  moreover have "prepared_hunk_wf \<lparr>source = src, destination = dest, prepared = hk\<rparr>"
    using verify_hunk_Inr [OF vh] "2.prems"(2) by (simp add: prepared_hunk_wf_def)
  ultimately show ?case
    using ih src count_operations_Inr [OF m] by (cases "rest = []") (auto simp: pairs)
qed simp

lemma parse_for_tool_Inr: "parse_for_tool input = Inr r \<longleftrightarrow> parse_patch input = Inr r"
  by (auto simp: parse_for_tool_def split: sum.splits fail.splits)

lemma prepare_ok:
  assumes "prepare tool input op_id h = (Inr p, h')"
  shows "list_all prepared_hunk_wf (prep_hunks p)" and "distinct (map source (prep_hunks p))"
    and "operation_count p \<le> max_operations (config tool)" and "\<exists>r. start tool p = Inr r"
    and "operation_id p = op_id"
proof -
  obtain parsed pairs h1 where parsed: "parse_patch input = Inr parsed" "parsed_hunks parsed \<noteq> []"
      and pairs: "prepare_hunks tool {} 0 (parsed_hunks parsed) h1 = (Inr pairs, h')"
      and p: "p = \<lparr>version = 2, prep_host_id = host_id (rt_descriptor (runtime tool)),
           generation = supervisor_generation_id (rt_descriptor (runtime tool)),
           operation_id = op_id, prep_mode = update_file_mode (config tool),
           prep_hunks = map fst pairs, changes = map snd pairs\<rparr>"
    using assms by (auto simp: prepare_def io_bind_Inr_iff parse_for_tool_Inr split: if_splits)
  note ok = prepare_hunks_ok [OF pairs parse_patch_hunks_wf [OF parsed(1)]]
  show "list_all prepared_hunk_wf (prep_hunks p)" and "distinct (map source (prep_hunks p))"
    and "operation_id p = op_id"
    using ok by (simp_all add: p comp_def)
  show count: "operation_count p \<le> max_operations (config tool)"
    using ok parsed(2) by (simp add: p operation_count_def comp_def)
  then show "\<exists>r. start tool p = Inr r"
    using ok parsed(2) by (auto simp: start_def validate_prepared_def p)
qed

section \<open>Properties\<close>

definition sample_runtime :: "unit runtime" where
  "sample_runtime = \<lparr>rt_descriptor = sample_host,
     rt_checkpoint = io_lift (Inr ()),
     rt_stat = (\<lambda>q. io_lift (Inl (Fail (exec_error_new NotFound ''absent'')))),
     rt_read = (\<lambda>q. io_lift (Inl (Fail (exec_error_new NotFound ''absent'')))),
     rt_write = (\<lambda>q. io_lift (Inr \<lparr>written_path = write_path q, existed = False, written_revision = ''r'',
                                   bytes_written = length (write_data q)\<rparr>)),
     rt_remove = (\<lambda>q. io_lift (Inr True)),
     rt_create_directory = (\<lambda>q. io_lift (Inr ())),
     rt_list = (\<lambda>q. io_lift (Inr \<lparr>dir_entries = [], next_cursor = None\<rparr>))\<rparr>"

definition sample_tool :: "unit patch_tool" where
  "sample_tool = \<lparr>runtime = sample_runtime, tool_cwd = sample_wd,
     config = \<lparr>max_patch_bytes = 1000, max_file_bytes = 100, chunk_bytes = 10, max_operations = 9,
               update_file_mode = NormalizeToLf\<rparr>, debug_path = path\<rparr>"

definition sample_prepared :: prepared_patch where
  "sample_prepared = \<lparr>version = 2, prep_host_id = ''h'', generation = ''g'', operation_id = ''op'',
     prep_mode = NormalizeToLf,
     prep_hunks = [\<lparr>source = \<lparr>root_id = ''work'', path = ''a/n''\<rparr>, destination = None, prepared = AddFile ''n'' [CHR ''x'', LF]\<rparr>],
     changes = [\<lparr>change_kind = Add, change_path = ''n''\<rparr>]\<rparr>"

definition sample_running :: running_patch where
  "sample_running = \<lparr>run_prepared = sample_prepared, hunk_index = 0, applied_operations = 0, pending = [], next_operation = 0\<rparr>"

definition sample_add_patch :: string where
  "sample_add_patch = join [LF] [''*** Begin Patch'', ''*** Add File: n'', ''+x'', ''*** End Patch'']"

text \<open>
  C27: what a verified patch guarantees. When \<open>prepare\<close> succeeds, no two hunks have the same
  source, only updates have a move destination, every hunk is well formed, the number of
  mutations respects the configured limit, and \<open>start\<close> accepts the result on the same tool.
\<close>

theorem prepare_guarantees:
  assumes "prepare tool input op_id h = (Inr p, h')"
  shows "distinct (map source (prep_hunks p)) \<and> list_all prepared_hunk_wf (prep_hunks p) \<and>
     operation_count p \<le> max_operations (config tool) \<and> (\<exists>r. start tool p = Inr r) \<and> operation_id p = op_id"
  using prepare_ok [OF assms] by simp

lemma u64_small: "n \<le> 1000 \<Longrightarrow> n \<le> u64_max"
  by (simp add: u64_max_def)

lemma sample_prepares: "prepare sample_tool sample_add_patch ''op'' () = (Inr sample_prepared, ())"
proof -
  have p: "parse_patch sample_add_patch = Inr \<lparr>patch = sample_add_patch,
      parsed_hunks = [AddFile ''n'' [CHR ''x'', LF]], parsed_environment_id = None\<rparr>" by code_simp
  have r: "resolve_path_normalized sample_host sample_wd ''n'' = Inr \<lparr>root_id = ''work'', path = ''a/n''\<rparr>" by code_simp
  have l: "\<not> 1000 < length sample_add_patch" by code_simp
  show ?thesis
    using p r l
    by (simp add: prepare_def sample_tool_def sample_runtime_def io_bind_def io_lift_def parse_for_tool_def
        tool_resolve_path_def verify_hunk_def count_operations_def checked_add_def u64_small
        sample_prepared_def) (simp add: sample_host_def)
qed

theorem prepare_guarantees_witness:
  "distinct (map source (prep_hunks sample_prepared)) \<and> list_all prepared_hunk_wf (prep_hunks sample_prepared) \<and>
     operation_count sample_prepared \<le> max_operations (config sample_tool) \<and>
     (\<exists>r. start sample_tool sample_prepared = Inr r) \<and> operation_id sample_prepared = ''op''"
  by (rule prepare_guarantees [OF sample_prepares])

text \<open>
  C15: \<open>apply\<close> ends with every operation accounted for. The loop over \<open>step\<close> always returns (it is
  a total function, by the number of hunks left and the operations pending); when it reports
  success, the running value is complete, the number of acknowledged mutations is
  the operation count of the patch, and the reported changes are those of the verified patch.
\<close>

theorem apply_accounts_for_every_operation:
  assumes "start tool p = Inr r" and "list_all prepared_hunk_wf (prep_hunks p)"
    and "apply_loop tool r h = (Inr out, r', h')"
  shows "is_complete r' \<and> applied_operations r' = operation_count p \<and> out_changes out = changes p"
  using apply_loop_accounting [OF assms(3) running_inv_start(1) [OF assms(1,2)]] running_inv_start(2) [OF assms(1,2)]
  by simp

lemma sample_starts: "start sample_tool sample_prepared = Inr sample_running"
  by (simp add: start_def validate_prepared_def sample_prepared_def sample_tool_def sample_runtime_def
      sample_host_def sample_running_def operation_count_def hunk_operations_def)

lemma sample_prepared_wf: "list_all prepared_hunk_wf (prep_hunks sample_prepared)"
  by (simp add: sample_prepared_def prepared_hunk_wf_def)

lemma sample_applies:
  "\<exists>r'. apply_loop sample_tool sample_running () =
     (Inr \<lparr>out_host_id = ''h'', out_changes = changes sample_prepared\<rparr>, r', ())"
proof -
  have v: "validate_target sample_tool \<lparr>root_id = ''work'', path = ''a/n''\<rparr> = Inr ()" by code_simp
  have i: "derived_id ''op'' 0 = Inr ''op:apply_patch:0''" by code_simp
  note defs = step_def validate_prepared_def sample_prepared_def sample_host_def
    operation_count_def hunk_operations_def progress_invalid_def is_complete_def advance_def stage_hunk_def
    new_content_def write_operations_def remove_operations_def io_bind_def io_lift_def dispatch_def acknowledge_def
    u64_max_def Let_def
  show ?thesis
    using v i
    by (simp add: apply_loop.simps sample_running_def defs) (simp add: sample_tool_def sample_runtime_def apply_loop.simps defs)
qed

theorem apply_accounts_for_every_operation_witness:
  "\<exists>out r'. apply_loop sample_tool sample_running () = (Inr out, r', ()) \<and> is_complete r' \<and>
     applied_operations r' = operation_count sample_prepared \<and> out_changes out = changes sample_prepared"
proof -
  obtain r' where r': "apply_loop sample_tool sample_running () =
     (Inr \<lparr>out_host_id = ''h'', out_changes = changes sample_prepared\<rparr>, r', ())" using sample_applies by blast
  from apply_accounts_for_every_operation [OF sample_starts sample_prepared_wf r'] r' show ?thesis by blast
qed

text \<open>
  Operation identities are stable and unique. In every state that a run can be in, the
  mutation about to be dispatched carries the identifier derived from the caller's identifier and
  the number of mutations acknowledged so far; so two states of a run dispatch under the same
  identifier only if they are at the same mutation, and a retry reuses it.
\<close>

theorem operation_identities:
  assumes "running_inv r" and "running_inv r'" and "run_prepared r' = run_prepared r"
    and "pending r \<noteq> []" and "pending r' \<noteq> []"
  shows "operation_name_of (pending r ! next_operation r) = operation_name_of (pending r' ! next_operation r') \<longleftrightarrow>
     applied_operations r = applied_operations r'"
  using dispatched_name [OF assms(1,4)] dispatched_name [OF assms(2,5)] assms(3)
  by (simp add: operation_name_inj)

definition sample_staged :: running_patch where
  "sample_staged = sample_running\<lparr>pending := [OpRemove \<lparr>target_kind = FileTarget, remove_expected_generation = None,
     remove_operation_id = operation_name ''op'' 0, remove_path = sample_wd, recursive = False,
     ignore_missing = False, expected_revision = None\<rparr>]\<rparr>"

theorem operation_identities_witness:
  "operation_name_of (pending sample_staged ! next_operation sample_staged) =
     operation_name_of (pending sample_staged ! next_operation sample_staged) \<longleftrightarrow>
   applied_operations sample_staged = applied_operations sample_staged"
proof (rule operation_identities)
  show "running_inv sample_staged"
    by (simp add: sample_staged_def sample_running_def sample_prepared_def running_inv_def progress_invalid_def
        prepared_hunk_wf_def operations_before_def hunk_operations_def)
  then show "running_inv sample_staged" .
qed (simp_all add: sample_staged_def)

text \<open>
  One step keeps the bookkeeping of a run: hunk index, acknowledged operations, pending
  operations with their identifiers and the patch itself stay consistent across every staging and every dispatch.
\<close>

theorem step_keeps_invariant:
  assumes "step tool r h = (Inr CheckpointRequired, r', h')" and "running_inv r"
  shows "running_inv r' \<and> run_prepared r' = run_prepared r"
  using step_checkpoint [OF assms(1)] advance_inv assms(2) by metis

theorem step_keeps_invariant_witness:
  "\<exists>r'. step sample_tool sample_running () = (Inr CheckpointRequired, r', ()) \<and> running_inv r' \<and>
     run_prepared r' = run_prepared sample_running"
proof -
  have i: "derived_id ''op'' 0 = Inr ''op:apply_patch:0''" by code_simp
  obtain r' where st: "step sample_tool sample_running () = (Inr CheckpointRequired, r', ())"
    using i
    by (simp add: step_def validate_prepared_def sample_running_def sample_prepared_def sample_host_def
        operation_count_def hunk_operations_def progress_invalid_def is_complete_def advance_def stage_hunk_def
        new_content_def write_operations_def remove_operations_def io_bind_def io_lift_def
        u64_max_def Let_def sample_tool_def sample_runtime_def)
  from step_keeps_invariant [OF st running_inv_start(1) [OF sample_starts sample_prepared_wf]] st
  show ?thesis by blast
qed

end
