(* ===== verification/Unified_Exec.thy ===== *)
theory Unified_Exec
  imports Process_Runtime Output_Buffers Tool_Paths Patch_Apply
begin

text \<open>
  The interactive execution tool (\<open>platform/packages/tools/unified-exec/src/lib.rs\<close> and
  \<open>patch.rs\<close>): \<open>exec_command\<close> starts a process, or applies a patch when the script is an \<open>apply_patch\<close>
  heredoc; \<open>write_stdin\<close> sends input to a running session or only polls it. Every call collects
  output into a buffer of its own until the process has ended or the time of the call is up, and returns
  the session for the next call while the process runs. The clock, the shell grammar and random
  chunk identifiers are arguments.
\<close>

section \<open>Data\<close>

definition DEFAULT_EXEC_YIELD_TIME_MS :: nat where "DEFAULT_EXEC_YIELD_TIME_MS = 10000"

definition DEFAULT_WRITE_YIELD_TIME_MS :: nat where "DEFAULT_WRITE_YIELD_TIME_MS = 250"

definition MIN_YIELD_TIME_MS :: nat where "MIN_YIELD_TIME_MS = 250"

definition MAX_YIELD_TIME_MS :: nat where "MAX_YIELD_TIME_MS = 30000"

definition MIN_EMPTY_YIELD_TIME_MS :: nat where "MIN_EMPTY_YIELD_TIME_MS = 5000"

definition DEFAULT_MAX_EMPTY_YIELD_TIME_MS :: nat where "DEFAULT_MAX_EMPTY_YIELD_TIME_MS = 300000"

definition DEFAULT_MAX_OUTPUT_TOKENS :: nat where "DEFAULT_MAX_OUTPUT_TOKENS = 10000"

definition DEFAULT_OUTPUT_MAX_BYTES :: nat where "DEFAULT_OUTPUT_MAX_BYTES = 1024 * 1024"

definition SESSION_STATE_SCHEMA_VERSION :: nat where "SESSION_STATE_SCHEMA_VERSION = 1"

record exec_command_input =
  ei_cmd :: string
  ei_workdir :: "string option"
  ei_shell :: "string option"
  ei_login :: "bool option"
  ei_tty :: bool
  ei_yield_time_ms :: nat
  ei_max_output_tokens :: "nat option"

record write_stdin_input =
  wi_session_id :: int
  wi_chars :: string
  wi_yield_time_ms :: nat
  wi_max_output_tokens :: "nat option"

record unified_exec_config =
  uc_intercept_apply_patch :: bool
  uc_patch_config :: patch_config
  uc_shell :: "string option"
  uc_default_login :: bool
  uc_allow_shell_override :: bool
  uc_allow_login_shell :: bool
  uc_environment :: environment_variables
  uc_pty_columns :: nat
  uc_pty_rows :: nat
  uc_process_timeout_ms :: "nat option"
  uc_max_output_bytes :: nat
  uc_default_max_output_tokens :: nat
  uc_max_output_tokens :: nat
  uc_read_bytes :: nat
  uc_max_poll_wait_ms :: nat
  uc_max_empty_yield_time_ms :: nat

definition unified_exec_config_default :: unified_exec_config where
  "unified_exec_config_default = \<lparr>uc_intercept_apply_patch = True, uc_patch_config = patch_config_default,
     uc_shell = None, uc_default_login = True, uc_allow_shell_override = True, uc_allow_login_shell = True,
     uc_environment = \<lparr>env_mode = Inherit, env_set = [], env_remove = []\<rparr>, uc_pty_columns = 80, uc_pty_rows = 24,
     uc_process_timeout_ms = None, uc_max_output_bytes = DEFAULT_OUTPUT_MAX_BYTES,
     uc_default_max_output_tokens = DEFAULT_MAX_OUTPUT_TOKENS, uc_max_output_tokens = u64_max,
     uc_read_bytes = 64 * 1024, uc_max_poll_wait_ms = 1000,
     uc_max_empty_yield_time_ms = DEFAULT_MAX_EMPTY_YIELD_TIME_MS\<rparr>"

record exec_command_ids =
  xi_session_id :: int
  xi_operation_id :: string
  xi_execution_id :: string
  xi_terminate_operation_id :: string

record write_stdin_ids =
  wd_write_id :: string
  wd_interrupt_operation_id :: string

record exec_session =
  es_schema_version :: nat
  es_session_id :: int
  es_host_id :: string
  es_handle :: execution_handle
  es_cwd :: exec_path
  es_tty :: bool
  es_cursor :: nat
  es_terminate_operation_id :: string

definition ue_terminal :: "execution_state \<Rightarrow> bool" where
  "ue_terminal st \<longleftrightarrow> st \<noteq> StStarting \<and> st \<noteq> StRunning"

definition session_running :: "exec_session \<Rightarrow> bool" where
  "session_running s \<longleftrightarrow> \<not> ue_terminal (handle_state (es_handle s))"

record invocation =
  iv_body :: string
  iv_cwd :: exec_path

record prepared_exec =
  px_patch_config :: patch_config
  px_host_id :: string
  px_generation :: string
  px_session_id :: int
  px_request :: start_execution_request
  px_terminate_operation_id :: string
  px_yield_time_ms :: nat
  px_max_output_bytes :: nat
  px_max_output_tokens :: "nat option"
  px_model_output_tokens :: nat
  px_history_output_tokens :: nat
  px_chunk_id :: string
  px_patch :: "invocation option"

record output_collection =
  oc_started_at_ms :: nat
  oc_deadline_at_ms :: nat
  oc_finished_at_ms :: "nat option"
  oc_chunk_id :: string
  oc_buffer :: head_tail_buffer
  oc_max_output_tokens :: "nat option"
  oc_model_output_tokens :: nat
  oc_history_output_tokens :: nat
  oc_failure :: "string option"
  oc_closed :: bool
  oc_ready :: bool

definition collection_new ::
  "nat \<Rightarrow> nat \<Rightarrow> nat \<Rightarrow> nat option \<Rightarrow> nat \<Rightarrow> nat \<Rightarrow> string \<Rightarrow> output_collection" where
  "collection_new started_at yield_ms byte_limit requested_tokens model_tokens history_tokens chunk =
     \<lparr>oc_started_at_ms = started_at, oc_deadline_at_ms = sat_add started_at yield_ms, oc_finished_at_ms = None,
      oc_chunk_id = chunk, oc_buffer = head_tail_new byte_limit, oc_max_output_tokens = requested_tokens,
      oc_model_output_tokens = model_tokens, oc_history_output_tokens = history_tokens,
      oc_failure = None, oc_closed = False, oc_ready = False\<rparr>"

definition collection_finish :: "nat \<Rightarrow> output_collection \<Rightarrow> output_collection" where
  "collection_finish at_ms c = c\<lparr>oc_ready := True,
     oc_finished_at_ms := Some (case oc_finished_at_ms c of Some t \<Rightarrow> t | None \<Rightarrow> at_ms)\<rparr>"

text \<open>Wall time is in milliseconds; \<open>finished_at\<close> comes from the clock when the collection has no end yet.\<close>

definition collection_output :: "nat \<Rightarrow> output_collection \<Rightarrow> exec_session \<Rightarrow> unified_exec_output" where
  "collection_output finished_at c s =
     (let raw = buffer_text (oc_buffer c);
          shown = (case oc_failure c of
            None \<Rightarrow> raw
          | Some m \<Rightarrow> raw @ (if raw \<noteq> [] \<and> \<not> ends_with [LF] raw then [LF] else []) @ ''[Execution failed: '' @ m @ '']'')
      in \<lparr>uo_chunk_id = Some (oc_chunk_id c), uo_wall_time = finished_at - oc_started_at_ms c, uo_exit_code = None,
          uo_session_id = (if session_running s then Some (es_session_id s) else None),
          uo_original_token_count = Some (approximate_tokens (buffer_total_bytes (oc_buffer c))), uo_output = shown,
          uo_max_output_tokens = oc_max_output_tokens c, uo_model_output_tokens = oc_model_output_tokens c,
          uo_history_output_tokens = oc_history_output_tokens c, uo_omitted_bytes = ht_omitted_bytes (oc_buffer c)\<rparr>)"

record running_exec =
  rx_prepared :: prepared_exec
  rx_session :: "exec_session option"
  rx_patch :: "running_patch option"
  rx_collection :: output_collection
  rx_exit_code :: "int option"

datatype stdin_action = PollAction | WriteAction write_input_request | InterruptAction signal_request

record prepared_stdin =
  pw_host_id :: string
  pw_session :: exec_session
  pw_action :: stdin_action
  pw_collection :: output_collection

definition effective_yield_time_ms :: "prepared_stdin \<Rightarrow> nat" where
  "effective_yield_time_ms p = oc_deadline_at_ms (pw_collection p) - oc_started_at_ms (pw_collection p)"

record running_stdin =
  rw_prepared :: prepared_stdin
  rw_session :: exec_session
  rw_collection :: output_collection
  rw_input_status :: "input_status option"
  rw_exit_code :: "int option"

record unified_exec_poll =
  up_events :: "process_event list"
  up_ready :: bool

record call_result =
  ur_output :: unified_exec_output
  ur_session :: "exec_session option"

text \<open>What the recognition of a heredoc with the shell grammar may report.\<close>

datatype heredoc_error = NotApplyPatch | GrammarNotLoaded string | HeredocNotUtf8 string | ScriptNotParsed

record 'h unified_exec_tool =
  ut_files :: "'h runtime"
  ut_processes :: "'h process_runtime"
  ut_now :: "'h \<Rightarrow> nat \<times> 'h"
  ut_extract :: "string \<Rightarrow> heredoc_error + (string \<times> string option)"
  ut_debug_path :: "exec_path \<Rightarrow> string"
  ut_cwd :: exec_path
  ut_config :: unified_exec_config

definition ut_descriptor :: "'h unified_exec_tool \<Rightarrow> host_descriptor" where
  "ut_descriptor tool = pr_descriptor (ut_processes tool)"

definition ue_error :: "error_code \<Rightarrow> string \<Rightarrow> exec_error" where
  "ue_error c m = with_detail (exec_error_new c m) ''source'' (DText ''tool-unified-exec'')"

definition io_now :: "'h unified_exec_tool \<Rightarrow> ('h, nat) io" where
  "io_now tool h = (case ut_now tool h of (t, h') \<Rightarrow> (Inr t, h'))"

text \<open>\<open>Ord::clamp\<close> panics on an empty range.\<close>

definition clamp :: "nat \<Rightarrow> nat \<Rightarrow> nat \<Rightarrow> nat exec_result" where
  "clamp lo hi x = (if hi < lo then Inl (Panic ''assertion failed: min <= max'') else Inr (max lo (min x hi)))"

section \<open>Preparing a command\<close>

definition unified_exec_new :: "'h unified_exec_tool \<Rightarrow> 'h unified_exec_tool exec_result" where
  "unified_exec_new tool =
     (let cfg = ut_config tool in
      rbind (validate_cwd (ut_descriptor tool) (ut_cwd tool)) (\<lambda>_.
      rbind (validated (environment_validate (uc_environment cfg))) (\<lambda>_.
      if uc_pty_columns cfg = 0 \<or> uc_pty_rows cfg = 0 \<or> uc_max_output_bytes cfg = 0 \<or> uc_default_max_output_tokens cfg = 0 \<or>
         uc_max_output_tokens cfg = 0 \<or> uc_max_output_tokens cfg < uc_default_max_output_tokens cfg \<or> uc_read_bytes cfg = 0 \<or>
         uc_max_poll_wait_ms cfg = 0 \<or> uc_max_empty_yield_time_ms cfg < MIN_EMPTY_YIELD_TIME_MS \<or>
         uc_process_timeout_ms cfg = Some 0 \<or> max_process_read_bytes (limits (ut_descriptor tool)) = Some 0
      then Inl (Fail (ue_error InvalidRequest
        ''unified exec limits, PTY size, token budgets, and optional timeout must be positive and internally consistent''))
      else Inr tool)))"

definition extract_patch :: "'h unified_exec_tool \<Rightarrow> string \<Rightarrow> (string \<times> string option) option exec_result" where
  "extract_patch tool script = (case parse_patch script of
     Inr _ \<Rightarrow> Inl (Fail (ue_error InvalidRequest
       ''apply_patch verification failed: patch detected without an explicit apply_patch invocation''))
   | Inl (Panic m) \<Rightarrow> Inl (Panic m)
   | Inl (Fail _) \<Rightarrow> (case ut_extract tool script of
       Inr (body, wd) \<Rightarrow> (case parse_patch body of
         Inr _ \<Rightarrow> Inr (Some (body, wd))
       | Inl (Panic m) \<Rightarrow> Inl (Panic m)
       | Inl (Fail e) \<Rightarrow> Inl (Fail (ue_error InvalidRequest (''apply_patch verification failed: '' @ show_parse_error e))))
     | Inl NotApplyPatch \<Rightarrow> Inr None
     | Inl ScriptNotParsed \<Rightarrow> Inr None
     | Inl (GrammarNotLoaded m) \<Rightarrow> Inl (Fail (ue_error Internal m))
     | Inl (HeredocNotUtf8 m) \<Rightarrow> Inl (Fail (ue_error Internal m))))"

definition resolve_max_output_tokens :: "'h unified_exec_tool \<Rightarrow> nat option \<Rightarrow> nat" where
  "resolve_max_output_tokens tool requested =
     min (case requested of Some n \<Rightarrow> n | None \<Rightarrow> uc_default_max_output_tokens (ut_config tool))
       (uc_max_output_tokens (ut_config tool))"

definition exec_command_checks :: "'h unified_exec_tool \<Rightarrow> exec_command_input \<Rightarrow> exec_command_ids \<Rightarrow> unit exec_result" where
  "exec_command_checks tool inp ids =
     rbind (guard (0 < xi_session_id ids) (ue_error InvalidRequest ''session_id must be a positive integer'')) (\<lambda>_.
     rbind (guard (ei_tty inp \<longrightarrow> pty (features (ut_descriptor tool)))
       (ue_error Unsupported ''the selected execution host does not support PTYs'')) (\<lambda>_.
     rbind (guard (ei_shell inp \<noteq> None \<longrightarrow> uc_allow_shell_override (ut_config tool))
       (ue_error InvalidRequest ''shell overrides are disabled by the harness'')) (\<lambda>_.
     guard (ei_login inp = Some True \<longrightarrow> uc_allow_login_shell (ut_config tool))
       (ue_error InvalidRequest ''login shells are disabled by the harness''))))"

definition exec_working_directory :: "'h unified_exec_tool \<Rightarrow> string option \<Rightarrow> exec_path exec_result" where
  "exec_working_directory tool workdir = (case workdir of
     None \<Rightarrow> Inr (ut_cwd tool)
   | Some d \<Rightarrow> if d = [] then Inr (ut_cwd tool) else resolve_path_normalized (ut_descriptor tool) (ut_cwd tool) d)"

definition exec_invocation :: "'h unified_exec_tool \<Rightarrow> exec_path \<Rightarrow> string \<Rightarrow> invocation option exec_result" where
  "exec_invocation tool wd script =
     (if \<not> uc_intercept_apply_patch (ut_config tool) then Inr None
      else rbind (extract_patch tool script) (\<lambda>found. case found of
        None \<Rightarrow> Inr None
      | Some (body, dir) \<Rightarrow>
          rbind (case dir of None \<Rightarrow> Inr wd | Some d \<Rightarrow> resolve_path_normalized (ut_descriptor tool) wd d) (\<lambda>p.
          Inr (Some \<lparr>iv_body = body, iv_cwd = p\<rparr>))))"

definition exec_request :: "'h unified_exec_tool \<Rightarrow> exec_path \<Rightarrow> exec_command_input \<Rightarrow> exec_command_ids \<Rightarrow> start_execution_request" where
  "exec_request tool wd inp ids =
     (let cfg = ut_config tool in
      \<lparr>expected_generation = Some (supervisor_generation_id (ut_descriptor tool)), output_drain_timeout_ms = Some 50,
       start_operation_id = xi_operation_id ids, execution_id = xi_execution_id ids,
       command = ShellScript (ei_cmd inp) (case ei_shell inp of Some sh \<Rightarrow> Some sh | None \<Rightarrow> uc_shell cfg)
         (case ei_login inp of Some l \<Rightarrow> l | None \<Rightarrow> uc_default_login cfg \<and> uc_allow_login_shell cfg),
       cwd = wd, environment = uc_environment cfg,
       stdin = (if ei_tty inp then Pty (uc_pty_columns cfg) (uc_pty_rows cfg) else ClosedStdin),
       timeout_ms = uc_process_timeout_ms cfg\<rparr>)"

definition prepare_exec_command ::
  "'h unified_exec_tool \<Rightarrow> string \<Rightarrow> exec_command_input \<Rightarrow> exec_command_ids \<Rightarrow> prepared_exec exec_result" where
  "prepare_exec_command tool chunk inp ids =
     (let d = ut_descriptor tool; cfg = ut_config tool in
      rbind (exec_command_checks tool inp ids) (\<lambda>_.
      rbind (exec_working_directory tool (ei_workdir inp)) (\<lambda>wd.
      rbind (exec_invocation tool wd (ei_cmd inp)) (\<lambda>ivc.
      let req = exec_request tool wd inp ids in
      rbind (validated (start_validate req)) (\<lambda>_.
      rbind (clamp MIN_YIELD_TIME_MS MAX_YIELD_TIME_MS (ei_yield_time_ms inp)) (\<lambda>y.
      Inr \<lparr>px_patch_config = uc_patch_config cfg, px_host_id = host_id d, px_generation = supervisor_generation_id d,
        px_session_id = xi_session_id ids, px_request = req, px_terminate_operation_id = xi_terminate_operation_id ids,
        px_yield_time_ms = (if operating_system d = WindowsOs then max y DEFAULT_EXEC_YIELD_TIME_MS else y),
        px_max_output_bytes = uc_max_output_bytes cfg, px_max_output_tokens = ei_max_output_tokens inp,
        px_model_output_tokens = resolve_max_output_tokens tool (ei_max_output_tokens inp),
        px_history_output_tokens = uc_max_output_tokens cfg, px_chunk_id = chunk, px_patch = ivc\<rparr>))))))"

section \<open>Starting a command\<close>

definition ue_validate_prepared :: "'h unified_exec_tool \<Rightarrow> string \<Rightarrow> string \<Rightarrow> unit exec_result" where
  "ue_validate_prepared tool hst gen =
     rbind (guard (hst = host_id (ut_descriptor tool))
       (ue_error InvalidRequest ''unified exec state belongs to another execution host'')) (\<lambda>_.
     guard (gen = supervisor_generation_id (ut_descriptor tool))
       (ue_error ExecutionLost ''the execution supervisor restarted and the unified exec session was lost''))"

definition validate_session :: "'h unified_exec_tool \<Rightarrow> exec_session \<Rightarrow> unit exec_result" where
  "validate_session tool s =
     rbind (guard (es_schema_version s = SESSION_STATE_SCHEMA_VERSION \<and> 0 < es_session_id s)
       (ue_error InvalidRequest ''invalid or unsupported unified exec session state'')) (\<lambda>_.
     ue_validate_prepared tool (es_host_id s) (handle_generation_id (es_handle s)))"

definition exec_collection :: "nat \<Rightarrow> prepared_exec \<Rightarrow> output_collection" where
  "exec_collection started_at p =
     collection_new started_at (px_yield_time_ms p) (px_max_output_bytes p) (px_max_output_tokens p)
       (px_model_output_tokens p) (px_history_output_tokens p) (px_chunk_id p)"

definition patch_tool_for :: "'h unified_exec_tool \<Rightarrow> invocation \<Rightarrow> prepared_exec \<Rightarrow> 'h patch_tool exec_result" where
  "patch_tool_for tool ivc p = tool_new (ut_files tool) (iv_cwd ivc) (px_patch_config p) (ut_debug_path tool)"

definition start_patch :: "'h unified_exec_tool \<Rightarrow> prepared_exec \<Rightarrow> nat \<Rightarrow> invocation \<Rightarrow> ('h, running_exec) io" where
  "start_patch tool p started_at ivc =
     io_bind (io_lift (patch_tool_for tool ivc p)) (\<lambda>pt.
     io_bind (prepare pt (iv_body ivc) (start_operation_id (px_request p))) (\<lambda>verified.
     io_bind (io_lift (start pt verified)) (\<lambda>running.
     io_lift (Inr \<lparr>rx_prepared = p, rx_session = None, rx_patch = Some running,
       rx_collection = exec_collection started_at p, rx_exit_code = None\<rparr>))))"

fun is_pty :: "stdin_mode \<Rightarrow> bool" where
  "is_pty (Pty _ _) = True"
| "is_pty _ = False"

definition new_session :: "prepared_exec \<Rightarrow> execution_handle \<Rightarrow> exec_session" where
  "new_session p hdl = \<lparr>es_schema_version = SESSION_STATE_SCHEMA_VERSION, es_session_id = px_session_id p,
     es_host_id = px_host_id p, es_handle = hdl, es_cwd = cwd (px_request p), es_tty = is_pty (stdin (px_request p)),
     es_cursor = 0, es_terminate_operation_id = px_terminate_operation_id p\<rparr>"

definition start_process :: "'h unified_exec_tool \<Rightarrow> prepared_exec \<Rightarrow> nat \<Rightarrow> ('h, running_exec) io" where
  "start_process tool p started_at =
     io_bind (pr_start (ut_processes tool) (px_request p)) (\<lambda>hdl.
     io_bind (io_lift (guard (handle_execution_id hdl = execution_id (px_request p) \<and> handle_generation_id hdl = px_generation p)
       (ue_error Internal ''process start returned a different execution identity; outcome is uncertain''))) (\<lambda>_.
     io_lift (Inr \<lparr>rx_prepared = p, rx_session = Some (new_session p hdl), rx_patch = None,
       rx_collection = exec_collection started_at p, rx_exit_code = None\<rparr>)))"

definition start_exec_command :: "'h unified_exec_tool \<Rightarrow> prepared_exec \<Rightarrow> ('h, running_exec) io" where
  "start_exec_command tool p =
     io_bind (pr_checkpoint (ut_processes tool)) (\<lambda>_.
     io_bind (io_lift (ue_validate_prepared tool (px_host_id p) (px_generation p))) (\<lambda>_.
     io_bind (io_lift (validated (start_validate (px_request p)))) (\<lambda>_.
     io_bind (io_now tool) (\<lambda>started_at.
     case px_patch p of
       Some ivc \<Rightarrow> start_patch tool p started_at ivc
     | None \<Rightarrow> start_process tool p started_at))))"

section \<open>Polling a session\<close>

definition poll_wait_ms :: "'h unified_exec_tool \<Rightarrow> nat \<Rightarrow> exec_session \<Rightarrow> output_collection \<Rightarrow> nat option" where
  "poll_wait_ms tool now s c =
     (let remaining = oc_deadline_at_ms c - now; ended = ue_terminal (handle_state (es_handle s))
      in if remaining = 0 \<and> \<not> ended then None
         else Some (if ended then 50 else max (min remaining (uc_max_poll_wait_ms (ut_config tool))) 1))"

definition poll_request :: "'h unified_exec_tool \<Rightarrow> nat \<Rightarrow> exec_session \<Rightarrow> output_collection \<Rightarrow> read_execution_request" where
  "poll_request tool now s c =
     \<lparr>read_execution_id = handle_execution_id (es_handle s), read_generation_id = handle_generation_id (es_handle s),
      after_sequence = es_cursor s,
      read_max_bytes = min (uc_read_bytes (ut_config tool))
        (case max_process_read_bytes (limits (ut_descriptor tool)) of Some n \<Rightarrow> n | None \<Rightarrow> u64_max),
      wait_ms = poll_wait_ms tool now s c\<rparr>"

fun ue_advance_cursor :: "nat \<Rightarrow> process_event list \<Rightarrow> nat exec_result" where
  "ue_advance_cursor cursor [] = Inr cursor"
| "ue_advance_cursor cursor (e # es) =
     (if sequence e \<le> cursor
      then Inl (Fail (ue_error Internal ''process events did not advance in sequence''))
      else ue_advance_cursor (sequence e) es)"

definition collect_event :: "output_collection \<Rightarrow> process_event \<Rightarrow> output_collection" where
  "collect_event c e = (case event e of
     Output _ bytes \<Rightarrow> c\<lparr>oc_buffer := buffer_push bytes (oc_buffer c)\<rparr>
   | Failed m \<Rightarrow> c\<lparr>oc_failure := Some m\<rparr>
   | Closed \<Rightarrow> c\<lparr>oc_closed := True\<rparr>
   | Started \<Rightarrow> c
   | Exited _ \<Rightarrow> c)"

definition collect_reply ::
  "read_execution_result \<Rightarrow> exec_session \<Rightarrow> output_collection \<Rightarrow> (exec_session \<times> output_collection) exec_result" where
  "collect_reply reply s c =
     rbind (ue_advance_cursor (es_cursor s) (events reply)) (\<lambda>cursor.
     rbind (guard (next_sequence reply = cursor)
       (ue_error Internal ''process cursor does not match returned events'')) (\<lambda>_.
     Inr (s\<lparr>es_cursor := cursor, es_handle := (es_handle s)\<lparr>handle_state := result_state reply\<rparr>\<rparr>,
       foldl collect_event c (events reply))))"

definition settle_collection :: "nat \<Rightarrow> execution_state \<Rightarrow> output_collection \<Rightarrow> output_collection" where
  "settle_collection now st c =
     (if ue_terminal st \<and> oc_closed c \<or> \<not> ue_terminal st \<and> oc_deadline_at_ms c \<le> now then collection_finish now c else c)"

type_synonym poll_state = "exec_session \<times> output_collection \<times> int option"

text \<open>The private \<open>poll\<close>: the session, the collection and the exit code change only when it succeeds.\<close>

definition session_poll :: "'h unified_exec_tool \<Rightarrow> poll_state \<Rightarrow> ('h, unified_exec_poll \<times> poll_state) io" where
  "session_poll tool st = (case st of (s, c, exit_code) \<Rightarrow>
     if oc_ready c then io_lift (Inr (\<lparr>up_events = [], up_ready = True\<rparr>, st))
     else
       io_bind (pr_checkpoint (ut_processes tool)) (\<lambda>_.
       io_bind (io_now tool) (\<lambda>now.
       io_bind (pr_read (ut_processes tool) (poll_request tool now s c)) (\<lambda>reply.
       io_bind (io_lift (collect_reply reply s c)) (\<lambda>(s', c').
       io_bind (io_now tool) (\<lambda>later.
       let c'' = settle_collection later (result_state reply) c' in
       io_lift (Inr (\<lparr>up_events = events reply, up_ready = oc_ready c''\<rparr>, s', c'', result_exit_code reply))))))))"

definition finish_time :: "'h unified_exec_tool \<Rightarrow> output_collection \<Rightarrow> ('h, nat) io" where
  "finish_time tool c = (case oc_finished_at_ms c of Some t \<Rightarrow> io_lift (Inr t) | None \<Rightarrow> io_now tool)"

definition session_finish :: "'h unified_exec_tool \<Rightarrow> poll_state \<Rightarrow> ('h, call_result) io" where
  "session_finish tool st = (case st of (s, c, exit_code) \<Rightarrow>
     io_bind (io_lift (guard (oc_ready c)
       (ue_error InvalidRequest ''the unified exec call is not ready; poll and persist it before finishing''))) (\<lambda>_.
     io_bind (finish_time tool c) (\<lambda>finished_at.
     let out = collection_output finished_at c s in
     io_lift (Inr \<lparr>ur_output = (if session_running s then out else out\<lparr>uo_exit_code := exit_code\<rparr>),
       ur_session = (if session_running s then Some s else None)\<rparr>))))"

section \<open>The exec call\<close>

definition poll_patch ::
  "'h unified_exec_tool \<Rightarrow> running_exec \<Rightarrow> running_patch \<Rightarrow> 'h \<Rightarrow> unified_exec_poll exec_result \<times> running_exec \<times> 'h" where
  "poll_patch tool r rp h = (case px_patch (rx_prepared r) of
     None \<Rightarrow> (Inl (Panic ''patch invocation''), r, h)
   | Some ivc \<Rightarrow> (case patch_tool_for tool ivc (rx_prepared r) of
       Inl e \<Rightarrow> (Inl e, r, h)
     | Inr pt \<Rightarrow> (case step pt rp h of
         (Inl e, rp', h1) \<Rightarrow> (Inl e, r\<lparr>rx_patch := Some rp'\<rparr>, h1)
       | (Inr CheckpointRequired, rp', h1) \<Rightarrow>
           (Inr \<lparr>up_events = [], up_ready = oc_ready (rx_collection r)\<rparr>, r\<lparr>rx_patch := Some rp'\<rparr>, h1)
       | (Inr (Complete out), rp', h1) \<Rightarrow>
           if oc_ready (rx_collection r)
           then (Inr \<lparr>up_events = [], up_ready = True\<rparr>, r\<lparr>rx_patch := Some rp'\<rparr>, h1)
           else (case ut_now tool h1 of (now, h2) \<Rightarrow>
             let c = rx_collection r;
                 c' = collection_finish now (c\<lparr>oc_buffer := buffer_push (to_text out) (oc_buffer c)\<rparr>)
             in (Inr \<lparr>up_events = [], up_ready = True\<rparr>, r\<lparr>rx_patch := Some rp', rx_collection := c'\<rparr>, h2)))))"

definition poll_exec_command ::
  "'h unified_exec_tool \<Rightarrow> running_exec \<Rightarrow> 'h \<Rightarrow> unified_exec_poll exec_result \<times> running_exec \<times> 'h" where
  "poll_exec_command tool r h =
     (case ue_validate_prepared tool (px_host_id (rx_prepared r)) (px_generation (rx_prepared r)) of
        Inl e \<Rightarrow> (Inl e, r, h)
      | Inr _ \<Rightarrow> (case rx_patch r of
          Some rp \<Rightarrow> poll_patch tool r rp h
        | None \<Rightarrow> (case rx_session r of
            None \<Rightarrow> (Inl (Panic ''process session''), r, h)
          | Some s \<Rightarrow> (case session_poll tool (s, rx_collection r, rx_exit_code r) h of
              (Inl e, h1) \<Rightarrow> (Inl e, r, h1)
            | (Inr (page, s', c', x'), h1) \<Rightarrow>
                (Inr page, r\<lparr>rx_session := Some s', rx_collection := c', rx_exit_code := x'\<rparr>, h1)))))"

definition finish_exec_command :: "'h unified_exec_tool \<Rightarrow> running_exec \<Rightarrow> ('h, call_result) io" where
  "finish_exec_command tool r =
     (let c = rx_collection r in
      if rx_patch r \<noteq> None
      then io_lift (rbind (guard (oc_ready c) (ue_error InvalidRequest ''persist and poll the patch before finishing'')) (\<lambda>_.
        Inr \<lparr>ur_output = \<lparr>uo_chunk_id = None, uo_wall_time = 0, uo_exit_code = None, uo_session_id = None,
            uo_original_token_count = None, uo_output = buffer_text (oc_buffer c), uo_max_output_tokens = oc_max_output_tokens c,
            uo_model_output_tokens = oc_model_output_tokens c, uo_history_output_tokens = oc_history_output_tokens c,
            uo_omitted_bytes = ht_omitted_bytes (oc_buffer c)\<rparr>, ur_session = None\<rparr>))
      else case rx_session r of
        None \<Rightarrow> io_lift (Inl (Panic ''process session''))
      | Some s \<Rightarrow> session_finish tool (s, c, rx_exit_code r))"

text \<open>\<open>None\<close> is a wait that does not return.\<close>

partial_function (option) wait_exec_command ::
  "'h unified_exec_tool \<Rightarrow> running_exec \<Rightarrow> 'h \<Rightarrow> (call_result exec_result \<times> running_exec \<times> 'h) option" where
  "wait_exec_command tool r h =
     (if oc_ready (rx_collection r)
      then (case finish_exec_command tool r h of (res, h1) \<Rightarrow> Some (res, r, h1))
      else case poll_exec_command tool r h of
        (Inl e, r', h1) \<Rightarrow> Some (Inl e, r', h1)
      | (Inr _, r', h1) \<Rightarrow> wait_exec_command tool r' h1)"

section \<open>The stdin call\<close>

definition stdin_action_for ::
  "'h unified_exec_tool \<Rightarrow> exec_session \<Rightarrow> string \<Rightarrow> write_stdin_ids \<Rightarrow> stdin_action exec_result" where
  "stdin_action_for tool s chars ids =
     (if chars = [] then Inr PollAction
      else if es_tty s
      then if (case max_process_input_bytes (limits (ut_descriptor tool)) of Some n \<Rightarrow> n | None \<Rightarrow> u64_max) < length chars
        then Inl (Fail (ue_error ResourceExhausted ''terminal input exceeds the execution host limit''))
        else Inr (WriteAction \<lparr>input_execution_id = handle_execution_id (es_handle s),
          input_generation_id = handle_generation_id (es_handle s), write_id = wd_write_id ids, input_payload = InputData chars\<rparr>)
      else if chars = [CHR 0x03]
      then if \<not> process_signals (features (ut_descriptor tool))
        then Inl (Fail (ue_error Unsupported ''the selected execution host does not support process signals''))
        else Inr (InterruptAction \<lparr>signal_operation_id = wd_interrupt_operation_id ids,
          signal_execution_id = handle_execution_id (es_handle s), signal_generation_id = handle_generation_id (es_handle s),
          signal = Interrupt\<rparr>)
      else Inl (Fail (ue_error StdinClosed
        ''stdin is closed for this session; rerun exec_command with tty=true to keep stdin open'')))"

definition prepare_write_stdin ::
  "'h unified_exec_tool \<Rightarrow> string \<Rightarrow> write_stdin_input \<Rightarrow> exec_session \<Rightarrow> write_stdin_ids \<Rightarrow> prepared_stdin exec_result" where
  "prepare_write_stdin tool chunk inp s ids =
     (let cfg = ut_config tool in
      rbind (validate_session tool s) (\<lambda>_.
      rbind (guard (wi_session_id inp = es_session_id s)
        (ue_error InvalidRequest ''write_stdin session_id does not match the loaded session'')) (\<lambda>_.
      rbind (guard (session_running s) (ue_error ExecutionNotFound ''the unified exec session has already completed'')) (\<lambda>_.
      rbind (stdin_action_for tool s (wi_chars inp) ids) (\<lambda>act.
      rbind (if act = PollAction then clamp MIN_EMPTY_YIELD_TIME_MS (uc_max_empty_yield_time_ms cfg) (wi_yield_time_ms inp)
             else clamp MIN_YIELD_TIME_MS MAX_YIELD_TIME_MS (wi_yield_time_ms inp)) (\<lambda>y.
      Inr \<lparr>pw_host_id = host_id (ut_descriptor tool), pw_session = s, pw_action = act,
        pw_collection = collection_new 0 y (uc_max_output_bytes cfg) (wi_max_output_tokens inp)
          (resolve_max_output_tokens tool (wi_max_output_tokens inp)) (uc_max_output_tokens cfg) chunk\<rparr>))))))"

text \<open>An interrupt that finds no running execution is not an error.\<close>

definition stdin_dispatch :: "'h unified_exec_tool \<Rightarrow> stdin_action \<Rightarrow> ('h, input_status option) io" where
  "stdin_dispatch tool act h = (case act of
     PollAction \<Rightarrow> (Inr None, h)
   | WriteAction q \<Rightarrow> (case pr_write (ut_processes tool) q h of
       (Inl e, h1) \<Rightarrow> (Inl e, h1) | (Inr st, h1) \<Rightarrow> (Inr (Some st), h1))
   | InterruptAction q \<Rightarrow> (case pr_signal (ut_processes tool) q h of
       (Inl (Panic m), h1) \<Rightarrow> (Inl (Panic m), h1)
     | (Inl (Fail e), h1) \<Rightarrow> (if code e \<noteq> ExecutionNotFound then Inl (Fail e) else Inr None, h1)
     | (Inr _, h1) \<Rightarrow> (Inr None, h1)))"

definition restarted_collection :: "nat \<Rightarrow> prepared_stdin \<Rightarrow> output_collection" where
  "restarted_collection now p = (pw_collection p)\<lparr>oc_started_at_ms := now,
     oc_deadline_at_ms := sat_add now (effective_yield_time_ms p)\<rparr>"

definition start_write_stdin :: "'h unified_exec_tool \<Rightarrow> prepared_stdin \<Rightarrow> ('h, running_stdin) io" where
  "start_write_stdin tool p =
     io_bind (pr_checkpoint (ut_processes tool)) (\<lambda>_.
     io_bind (io_lift (validate_session tool (pw_session p))) (\<lambda>_.
     io_bind (stdin_dispatch tool (pw_action p)) (\<lambda>status.
     io_bind (if status \<in> {Some Accepted, Some AlreadyAccepted} then pr_checkpoint (ut_processes tool) else io_lift (Inr ())) (\<lambda>_.
     io_bind (io_now tool) (\<lambda>now.
     io_lift (Inr \<lparr>rw_prepared = p, rw_session = pw_session p, rw_collection = restarted_collection now p,
       rw_input_status = status, rw_exit_code = None\<rparr>))))))"

definition poll_write_stdin ::
  "'h unified_exec_tool \<Rightarrow> running_stdin \<Rightarrow> 'h \<Rightarrow> unified_exec_poll exec_result \<times> running_stdin \<times> 'h" where
  "poll_write_stdin tool r h = (case validate_session tool (rw_session r) of
     Inl e \<Rightarrow> (Inl e, r, h)
   | Inr _ \<Rightarrow> (case session_poll tool (rw_session r, rw_collection r, rw_exit_code r) h of
       (Inl e, h1) \<Rightarrow> (Inl e, r, h1)
     | (Inr (page, s', c', x'), h1) \<Rightarrow> (Inr page, r\<lparr>rw_session := s', rw_collection := c', rw_exit_code := x'\<rparr>, h1)))"

definition finish_write_stdin :: "'h unified_exec_tool \<Rightarrow> running_stdin \<Rightarrow> ('h, call_result) io" where
  "finish_write_stdin tool r =
     io_bind (io_lift (guard (\<not> (rw_input_status r = Some InputStdinClosed \<and> session_running (rw_session r)))
       (ue_error StdinClosed ''stdin closed before the terminal input could be accepted''))) (\<lambda>_.
     session_finish tool (rw_session r, rw_collection r, rw_exit_code r))"

partial_function (option) wait_write_stdin ::
  "'h unified_exec_tool \<Rightarrow> running_stdin \<Rightarrow> 'h \<Rightarrow> (call_result exec_result \<times> running_stdin \<times> 'h) option" where
  "wait_write_stdin tool r h =
     (if oc_ready (rw_collection r)
      then (case finish_write_stdin tool r h of (res, h1) \<Rightarrow> Some (res, r, h1))
      else case poll_write_stdin tool r h of
        (Inl e, r', h1) \<Rightarrow> Some (Inl e, r', h1)
      | (Inr _, r', h1) \<Rightarrow> wait_write_stdin tool r' h1)"

definition terminate_session :: "'h unified_exec_tool \<Rightarrow> exec_session \<Rightarrow> ('h, bool) io" where
  "terminate_session tool s =
     io_bind (io_lift (validate_session tool s)) (\<lambda>_.
     pr_terminate (ut_processes tool) \<lparr>terminate_operation_id = es_terminate_operation_id s,
       terminate_execution_id = handle_execution_id (es_handle s),
       terminate_generation_id = handle_generation_id (es_handle s)\<rparr>)"

end
