(* ===== verification/Unified_Session.thy ===== *)
theory Unified_Session
  imports Unified_Exec
begin

text \<open>
  What the calls of the interactive tool show of an execution, for every host that keeps the process
  contract: each call collects the part of the log that lies between the cursor it found and
  the cursor it leaves.
\<close>

section \<open>What a call has collected\<close>

definition has_closed :: "log_unit list \<Rightarrow> bool" where
  "has_closed us \<longleftrightarrow> (\<exists>ts. UEvent ts Closed \<in> set us)"

lemma has_closed_simps [simp]: "\<not> has_closed []" "has_closed (us @ vs) \<longleftrightarrow> has_closed us \<or> has_closed vs"
  by (auto simp: has_closed_def)

lemma has_closed_ev [simp]: "has_closed (ev_units e) \<longleftrightarrow> event e = Closed"
  by (cases "event e") (auto simp: has_closed_def ev_units_def)

definition gathered :: "nat \<Rightarrow> log_unit list \<Rightarrow> output_collection \<Rightarrow> bool" where
  "gathered limit us c \<longleftrightarrow> oc_failure c = stream_failure us \<and> (oc_closed c \<longleftrightarrow> has_closed us) \<and>
     (\<exists>chunks. concat chunks = stream_bytes us \<and> oc_buffer c = buffer_pushes (head_tail_new limit) chunks)"

lemma gathered_new [simp]: "gathered limit [] (collection_new t y limit a b d n)"
  by (auto simp: gathered_def collection_new_def stream_failure_def buffer_pushes_def intro!: exI [of _ "[]"])

lemma gathered_frame [simp]:
  "gathered limit us (c\<lparr>oc_started_at_ms := t\<rparr>) = gathered limit us c" "gathered limit us (c\<lparr>oc_deadline_at_ms := t\<rparr>) = gathered limit us c"
  "gathered limit us (c\<lparr>oc_ready := b\<rparr>) = gathered limit us c" "gathered limit us (c\<lparr>oc_finished_at_ms := f\<rparr>) = gathered limit us c"
  by (simp_all add: gathered_def)

lemma collect_event_frame [simp]:
  "oc_ready (collect_event c e) = oc_ready c" "oc_deadline_at_ms (collect_event c e) = oc_deadline_at_ms c"
  "oc_finished_at_ms (collect_event c e) = oc_finished_at_ms c"
  by (cases "event e"; simp add: collect_event_def)+

lemma foldl_collect_frame [simp]:
  "oc_ready (foldl collect_event c evs) = oc_ready c" "oc_deadline_at_ms (foldl collect_event c evs) = oc_deadline_at_ms c"
  "oc_finished_at_ms (foldl collect_event c evs) = oc_finished_at_ms c"
  by (induction evs arbitrary: c) simp_all

lemma gathered_event:
  assumes "gathered limit us c"
  shows "gathered limit (us @ ev_units e) (collect_event c e)"
proof -
  from assms obtain chunks where c: "concat chunks = stream_bytes us" "oc_buffer c = buffer_pushes (head_tail_new limit) chunks"
    and r: "oc_failure c = stream_failure us" "oc_closed c \<longleftrightarrow> has_closed us" by (auto simp: gathered_def)
  show ?thesis
  proof (cases "event e")
    case (Output st d)
    have "concat (chunks @ [d]) = stream_bytes (us @ ev_units e)" "stream_failure (us @ ev_units e) = stream_failure us"
      using Output c(1) by (simp_all add: ev_units_def stream_failure_def)
    with r c(2) Output show ?thesis unfolding gathered_def collect_event_def
      by (intro conjI exI [of _ "chunks @ [d]"]) (simp_all add: buffer_pushes_def)
  qed (use r c in \<open>auto simp: gathered_def collect_event_def ev_units_def stream_failure_def has_closed_def\<close>)
qed

lemma gathered_events: "gathered limit us c \<Longrightarrow> gathered limit (us @ concat (map ev_units evs)) (foldl collect_event c evs)"
  by (induction evs arbitrary: us c) (auto dest: gathered_event simp flip: append_assoc)

lemma ue_terminal_iff: "ue_terminal st \<longleftrightarrow> is_terminal st"
  by (cases st) (simp_all add: ue_terminal_def is_terminal_def)

lemma ue_advance_sequenced: "sequenced a evs \<Longrightarrow> ue_advance_cursor a evs = Inr (a + length (concat (map ev_units evs)))"
  by (induction evs arbitrary: a) (auto simp: add.assoc ev_units_def)

lemma collect_reply_ok:
  assumes "gathered limit us c" and "read_ok (es_cursor s) n 0 str (events reply)"
    and "next_sequence reply = es_cursor s + length (concat (map ev_units (events reply)))"
  shows "collect_reply reply s c = Inr (s\<lparr>es_cursor := next_sequence reply, es_handle := (es_handle s)\<lparr>handle_state := result_state reply\<rparr>\<rparr>,
      foldl collect_event c (events reply))"
    and "gathered limit (us @ concat (map ev_units (events reply))) (foldl collect_event c (events reply))"
  using assms gathered_events [OF assms(1)] by (simp_all add: collect_reply_def read_ok_def ue_advance_sequenced)

section \<open>Hosts for interactive tools\<close>

text \<open>What happens to a host while an operation runs: logs grow, and final ones stay as they are.\<close>

definition host_grew ::
  "('h \<Rightarrow> bool) \<Rightarrow> ('h \<Rightarrow> string \<Rightarrow> logged list) \<Rightarrow> ('h \<Rightarrow> string \<Rightarrow> bool) \<Rightarrow>
   ('h \<Rightarrow> string \<Rightarrow> execution_state \<times> int option) \<Rightarrow> 'h \<Rightarrow> 'h \<Rightarrow> bool" where
  "host_grew ok log final status h h' \<longleftrightarrow> ok h' \<and>
     (\<forall>i. prefix (log h i) (log h' i) \<and> (final h i \<longrightarrow> final h' i \<and> log h' i = log h i \<and> status h' i = status h i))"

lemma host_grew_refl: "ok h \<Longrightarrow> host_grew ok log final status h h"
  by (simp add: host_grew_def)

lemma host_grew_trans:
  assumes "host_grew ok log final status h1 h2" and "host_grew ok log final status h2 h3"
  shows "host_grew ok log final status h1 h3"
  using assms unfolding host_grew_def by (metis prefix_order.trans)

locale interactive_host = process_host +
  fixes clock :: "'a \<Rightarrow> nat \<times> 'a"
  assumes closed_read: "ok h \<Longrightarrow> pr_read pr q h = (Inr r, h') \<Longrightarrow>
        after_sequence q \<le> length (log_stream (log h (read_execution_id q))) \<Longrightarrow> read_max_bytes q \<le> u64_max \<Longrightarrow>
        e \<in> set (events r) \<Longrightarrow> event e = Closed \<Longrightarrow>
        is_terminal (result_state r) \<and> final h' (read_execution_id q) \<and>
        status h' (read_execution_id q) = (result_state r, result_exit_code r)"
    and log_bounded: "ok h \<Longrightarrow> length (log_stream (log h i)) \<le> u64_max"
    and start_grows: "ok h \<Longrightarrow> pr_start pr rq h = (x, h') \<Longrightarrow> host_grew ok log final status h h'"
    and write_grows: "ok h \<Longrightarrow> pr_write pr wq h = (y, h') \<Longrightarrow> host_grew ok log final status h h'"
    and signal_grows: "ok h \<Longrightarrow> pr_signal pr sq h = (z, h') \<Longrightarrow> host_grew ok log final status h h'"
    and clock_grows: "ok h \<Longrightarrow> clock h = (t, h') \<Longrightarrow> host_grew ok log final status h h'"
begin

abbreviation grew :: "'a \<Rightarrow> 'a \<Rightarrow> bool" where
  "grew \<equiv> host_grew ok log final status"

lemma grew_ok: "grew h h' \<Longrightarrow> ok h'"
  by (simp add: host_grew_def)

lemma checkpoint_grew: "ok h \<Longrightarrow> pr_checkpoint pr h = (u, h') \<Longrightarrow> grew h h'"
  using checkpoint_frame by (simp add: host_grew_def)

lemma read_grew: "ok h \<Longrightarrow> pr_read pr q h = (v, h') \<Longrightarrow> grew h h'"
  using read_grows by (simp add: host_grew_def)

end

definition ue_tool_ok :: "'h process_runtime \<Rightarrow> ('h \<Rightarrow> nat \<times> 'h) \<Rightarrow> 'h unified_exec_tool \<Rightarrow> bool" where
  "ue_tool_ok pr clock tool \<longleftrightarrow> ut_processes tool = pr \<and> ut_now tool = clock \<and>
     0 < uc_read_bytes (ut_config tool) \<and> uc_read_bytes (ut_config tool) \<le> u64_max \<and>
     max_process_read_bytes (limits (pr_descriptor pr)) \<noteq> Some 0"

lemma poll_read_bounds:
  assumes "ue_tool_ok pr clock tool"
  shows "0 < read_max_bytes (poll_request tool now s c)" and "read_max_bytes (poll_request tool now s c) \<le> u64_max"
  using assms by (auto simp: ue_tool_ok_def poll_request_def ut_descriptor_def min_def split: option.splits)

text \<open>
  The state of a call that began after the units \<open>pre\<close> of the log. When it is ready and its execution has
  ended, the log is final and nothing is left of it but units without output or failure.
\<close>

definition collected ::
  "('h \<Rightarrow> string \<Rightarrow> logged list) \<Rightarrow> ('h \<Rightarrow> string \<Rightarrow> bool) \<Rightarrow> ('h \<Rightarrow> string \<Rightarrow> execution_state \<times> int option) \<Rightarrow>
   nat \<Rightarrow> log_unit list \<Rightarrow> 'h \<Rightarrow> poll_state \<Rightarrow> bool" where
  "collected log final status limit pre h st \<longleftrightarrow> (case st of (s, c, exit_code) \<Rightarrow>
     let i = handle_execution_id (es_handle s) in
     \<exists>us rest. log_stream (log h i) = pre @ us @ rest \<and> es_cursor s = length (pre @ us) \<and> gathered limit us c \<and> \<not> has_closed pre \<and>
       (oc_closed c \<longrightarrow> oc_ready c \<and> \<not> session_running s) \<and>
       (oc_ready c \<longrightarrow> \<not> session_running s \<longrightarrow>
          final h i \<and> list_all late_unit rest \<and> status h i = (handle_state (es_handle s), exit_code)))"

lemma collected_grew:
  assumes "collected log final status limit pre h st" and "host_grew ok log final status h h'"
  shows "collected log final status limit pre h' st"
proof -
  obtain s c x where st: "st = (s, c, x)" by (metis prod_cases3)
  let ?i = "handle_execution_id (es_handle s)"
  from assms(1) obtain us rest where a: "log_stream (log h ?i) = pre @ us @ rest" "es_cursor s = length (pre @ us)" "gathered limit us c"
      "\<not> has_closed pre" "oc_closed c \<longrightarrow> oc_ready c \<and> \<not> session_running s"
      "oc_ready c \<longrightarrow> \<not> session_running s \<longrightarrow> final h ?i \<and> list_all late_unit rest \<and> status h ?i = (handle_state (es_handle s), x)"
    unfolding st collected_def Let_def prod.case by blast
  from assms(2) have g: "prefix (log h ?i) (log h' ?i)" "final h ?i \<longrightarrow> final h' ?i \<and> log h' ?i = log h ?i \<and> status h' ?i = status h ?i"
    by (simp_all add: host_grew_def)
  obtain rest' where m: "log_stream (log h' ?i) = log_stream (log h ?i) @ rest'" using log_stream_prefix [OF g(1)] by (auto simp: prefix_def)
  have r: "rest' = []" if "final h ?i" using g(2) that m by simp
  show ?thesis unfolding st collected_def Let_def prod.case
    by (rule exI [of _ us], rule exI [of _ "rest @ rest'"]) (use a g(2) m r in auto)
qed

context interactive_host
begin

lemma page_collected:
  assumes "ok h" and "ok h'" and "collected log final status limit pre h (s, c, x)" and "\<not> oc_ready c"
    and "pr_read pr q h = (Inr reply, h')" and "q = poll_request tool now s c" and "read_max_bytes q \<le> u64_max"
  shows "\<exists>s' c'. collect_reply reply s c = Inr (s', c') \<and>
     s' = s\<lparr>es_cursor := next_sequence reply, es_handle := (es_handle s)\<lparr>handle_state := result_state reply\<rparr>\<rparr> \<and>
     es_cursor s' = es_cursor s + length (concat (map ev_units (events reply))) \<and> oc_deadline_at_ms c' = oc_deadline_at_ms c \<and>
     (\<forall>later. collected log final status limit pre h' (s', settle_collection later (result_state reply) c', result_exit_code reply))"
proof -
  let ?i = "handle_execution_id (es_handle s)" and ?page = "concat (map ev_units (events reply))"
  from assms(3) obtain us rest where s: "log_stream (log h ?i) = pre @ us @ rest" "es_cursor s = length (pre @ us)" "gathered limit us c"
      "\<not> has_closed pre" "oc_closed c \<longrightarrow> oc_ready c \<and> \<not> session_running s"
    unfolding collected_def Let_def prod.case by blast
  have q: "read_execution_id q = ?i" "after_sequence q = es_cursor s" using assms(6) by (simp_all add: poll_request_def)
  have le: "after_sequence q \<le> length (log_stream (log h (read_execution_id q)))" using q s(1,2) by simp
  obtain l where l: "prefix (log h ?i) l" "prefix l (log h' ?i)"
      "read_ok (es_cursor s) (read_max_bytes q) 0 (drop (es_cursor s) (log_stream l)) (events reply)"
      "next_sequence reply = es_cursor s + length ?page"
    using read_events [OF assms(1,5) le assms(7)] unfolding q by blast
  note acc = collect_reply_ok [OF s(3) l(3,4)]
  let ?s' = "s\<lparr>es_cursor := next_sequence reply, es_handle := (es_handle s)\<lparr>handle_state := result_state reply\<rparr>\<rparr>"
  let ?c' = "foldl collect_event c (events reply)"
  from l(3) obtain rest' where rest': "drop (es_cursor s) (log_stream l) = ?page @ rest'" by (auto simp: read_ok_def)
  have "take (es_cursor s) (log_stream l) = pre @ us" using log_stream_prefix [OF l(1)] s(1,2) by (auto simp: prefix_def)
  then have "log_stream l = (pre @ us) @ ?page @ rest'" using rest' by (metis append_take_drop_id)
  moreover obtain m where "log_stream (log h' ?i) = log_stream l @ m" using log_stream_prefix [OF l(2)] by (auto simp: prefix_def)
  ultimately have st: "log_stream (log h' ?i) = (pre @ us @ ?page) @ (rest' @ m)" by simp
  have nu: "\<not> has_closed us" using s(3,5) assms(4) by (simp add: gathered_def)
  have fin: "is_terminal (result_state reply) \<and> final h' ?i \<and> list_all late_unit (rest' @ m) \<and> status h' ?i = (result_state reply, result_exit_code reply)"
    if cl: "oc_closed ?c'"
  proof -
    have hc: "has_closed ?page" using cl acc(2) nu by (simp add: gathered_def)
    then obtain ts where ts: "UEvent ts Closed \<in> set ?page" by (auto simp: has_closed_def)
    then obtain e where e: "e \<in> set (events reply)" "UEvent ts Closed \<in> set (ev_units e)" by auto
    then have "event e = Closed" using has_closed_ev [of e] by (auto simp: has_closed_def)
    note f = closed_read [OF assms(1,5) le assms(7) e(1) this, unfolded q]
    have "UEvent ts Closed \<in> set (pre @ us @ ?page)" using ts by simp
    from after_closed_units [OF st this log_late [OF assms(2)]] f show ?thesis by simp
  qed
  have "collected log final status limit pre h' (?s', settle_collection later (result_state reply) ?c', result_exit_code reply)" for later
    unfolding collected_def Let_def prod.case
    by (rule exI [of _ "us @ ?page"], rule exI [of _ "rest' @ m"])
      (use st acc(2) s(2,4) l(4) fin assms(4) in \<open>auto simp: settle_collection_def collection_finish_def ue_terminal_iff session_running_def\<close>)
  with acc(1) l(4) show ?thesis by simp
qed

lemma now_grew: "ok h \<Longrightarrow> ut_now tool = clock \<Longrightarrow> io_now tool h = (t, h') \<Longrightarrow> grew h h'"
  using clock_grows by (auto simp: io_now_def split: prod.splits)

lemma poll_collected:
  assumes "ok h" and "collected log final status limit pre h (s, c, x)" and "ue_tool_ok pr clock tool"
    and "session_poll tool (s, c, x) h = (res, h')"
  shows "grew h h' \<and> (case res of
     Inl _ \<Rightarrow> collected log final status limit pre h' (s, c, x)
   | Inr (page, s', c', x') \<Rightarrow> collected log final status limit pre h' (s', c', x') \<and>
       (\<exists>n d. s' = s\<lparr>es_cursor := n, es_handle := (es_handle s)\<lparr>handle_state := d\<rparr>\<rparr>))"
proof (cases "oc_ready c")
  case True
  have "\<exists>n d. s = s\<lparr>es_cursor := n, es_handle := (es_handle s)\<lparr>handle_state := d\<rparr>\<rparr>"
    by (rule exI [of _ "es_cursor s"], rule exI [of _ "handle_state (es_handle s)"]) simp
  moreover have "res = Inr (\<lparr>up_events = [], up_ready = True\<rparr>, s, c, x)" "h' = h"
    using True assms(4) by (simp_all add: session_poll_def)
  ultimately show ?thesis using assms(1,2) by (simp add: host_grew_refl)
next
  case False
  have t: "ut_processes tool = pr" "ut_now tool = clock" using assms(3) by (simp_all add: ue_tool_ok_def)
  have err: "grew h h' \<and> collected log final status limit pre h' (s, c, x)" if "grew h h'" using that collected_grew [OF assms(2)] by blast
  from assms(4) False have p: "io_bind (pr_checkpoint pr) (\<lambda>_.
       io_bind (io_now tool) (\<lambda>now.
       io_bind (pr_read pr (poll_request tool now s c)) (\<lambda>reply.
       io_bind (io_lift (collect_reply reply s c)) (\<lambda>(s', c').
       io_bind (io_now tool) (\<lambda>later.
       let c'' = settle_collection later (result_state reply) c' in
       io_lift (Inr (\<lparr>up_events = events reply, up_ready = oc_ready c''\<rparr>, s', c'', result_exit_code reply))))))) h = (res, h')"
    by (simp add: session_poll_def t)
  from p show ?thesis
  proof (cases rule: io_bindE)
    case (failed e)
    with err checkpoint_grew [OF assms(1) failed(1)] show ?thesis by simp
  next
    case (bound u h1)
    note g1 = checkpoint_grew [OF assms(1) bound(1)]
    from bound(2) show ?thesis
    proof (cases rule: io_bindE)
      case (failed e)
      with err host_grew_trans [OF g1 now_grew [OF grew_ok [OF g1] t(2) failed(1)]] show ?thesis by simp
    next
      case (bound now h2)
      note g2 = host_grew_trans [OF g1 now_grew [OF grew_ok [OF g1] t(2) bound(1)]]
      note a2 = collected_grew [OF assms(2) g2]
      from bound(2) show ?thesis
      proof (cases rule: io_bindE)
        case (failed e)
        with err host_grew_trans [OF g2 read_grew [OF grew_ok [OF g2] failed(1)]] show ?thesis by simp
      next
        case (bound reply h3)
        note g3 = host_grew_trans [OF g2 read_grew [OF grew_ok [OF g2] bound(1)]]
        obtain s' c' where r: "collect_reply reply s c = Inr (s', c')"
            "s' = s\<lparr>es_cursor := next_sequence reply, es_handle := (es_handle s)\<lparr>handle_state := result_state reply\<rparr>\<rparr>"
            "\<And>later. collected log final status limit pre h3 (s', settle_collection later (result_state reply) c', result_exit_code reply)"
          using page_collected [OF grew_ok [OF g2] grew_ok [OF g3] a2 False bound(1) refl poll_read_bounds(2) [OF assms(3)]] by blast
        obtain later h4 where n: "io_now tool h3 = (Inr later, h4)" by (cases "ut_now tool h3") (simp add: io_now_def)
        note g4 = now_grew [OF grew_ok [OF g3] t(2) n]
        from bound(2) r(1) n have "res = Inr (\<lparr>up_events = events reply, up_ready = oc_ready (settle_collection later (result_state reply) c')\<rparr>,
            s', settle_collection later (result_state reply) c', result_exit_code reply)" "h' = h4"
          by (auto simp: io_bind_def io_lift_def Let_def)
        with collected_grew [OF r(3) g4] host_grew_trans [OF g3 g4] r(2) show ?thesis by auto
      qed
    qed
  qed
qed

end

section \<open>Calls of a session\<close>

text \<open>
  Any number of polls of a call, failed ones included. A failed poll leaves the call as it was.
\<close>

inductive exec_polls :: "'h unified_exec_tool \<Rightarrow> running_exec \<Rightarrow> 'h \<Rightarrow> running_exec \<Rightarrow> 'h \<Rightarrow> bool" for tool r h where
  none: "exec_polls tool r h r h"
| polled: "exec_polls tool r h r1 h1 \<Longrightarrow> poll_exec_command tool r1 h1 = (x, r2, h2) \<Longrightarrow> exec_polls tool r h r2 h2"

inductive stdin_polls :: "'h unified_exec_tool \<Rightarrow> running_stdin \<Rightarrow> 'h \<Rightarrow> running_stdin \<Rightarrow> 'h \<Rightarrow> bool" for tool r h where
  none: "stdin_polls tool r h r h"
| polled: "stdin_polls tool r h r1 h1 \<Longrightarrow> poll_write_stdin tool r1 h1 = (x, r2, h2) \<Longrightarrow> stdin_polls tool r h r2 h2"

text \<open>
  A command and the calls on its session, one after the other: the outputs returned, the session record and the
  host. A stdin call may fail to start, and a call may be given up after some of its polls: the
  record of the session then stays as it was.
\<close>

inductive session_calls ::
  "'h unified_exec_tool \<Rightarrow> running_exec \<Rightarrow> 'h \<Rightarrow> unified_exec_output list \<Rightarrow> exec_session option \<Rightarrow> 'h \<Rightarrow> bool" for tool r0 h0 where
  executed: "exec_polls tool r0 h0 r h \<Longrightarrow> finish_exec_command tool r h = (Inr res, h') \<Longrightarrow>
     session_calls tool r0 h0 [ur_output res] (ur_session res) h'"
| continued: "session_calls tool r0 h0 outs (Some s) h \<Longrightarrow> prepare_write_stdin tool chunk inp s ids = Inr p \<Longrightarrow>
     start_write_stdin tool p h = (Inr w, h1) \<Longrightarrow> stdin_polls tool w h1 w' h2 \<Longrightarrow> finish_write_stdin tool w' h2 = (Inr res, h3) \<Longrightarrow>
     session_calls tool r0 h0 (outs @ [ur_output res]) (ur_session res) h3"
| refused: "session_calls tool r0 h0 outs (Some s) h \<Longrightarrow> prepare_write_stdin tool chunk inp s ids = Inr p \<Longrightarrow>
     start_write_stdin tool p h = (Inl e, h1) \<Longrightarrow> session_calls tool r0 h0 outs (Some s) h1"
| abandoned: "session_calls tool r0 h0 outs (Some s) h \<Longrightarrow> prepare_write_stdin tool chunk inp s ids = Inr p \<Longrightarrow>
     start_write_stdin tool p h = (Inr w, h1) \<Longrightarrow> stdin_polls tool w h1 w' h2 \<Longrightarrow> session_calls tool r0 h0 outs (Some s) h2"

text \<open>What the output of a call says of the units that the call has read.\<close>

definition shows_units :: "nat \<Rightarrow> log_unit list \<Rightarrow> unified_exec_output \<Rightarrow> bool" where
  "shows_units limit us out \<longleftrightarrow>
     (let b = buffer_of limit (stream_bytes us); raw = buffer_text b in
      uo_output out = (case stream_failure us of
        None \<Rightarrow> raw
      | Some m \<Rightarrow> raw @ (if raw \<noteq> [] \<and> \<not> ends_with [LF] raw then [LF] else []) @ ''[Execution failed: '' @ m @ '']'') \<and>
      uo_original_token_count out = Some (approximate_tokens (length (stream_bytes us))) \<and>
      uo_omitted_bytes out = ht_omitted_bytes b)"

lemma stream_bytes_length: "length (stream_bytes us) \<le> length us"
proof -
  have u: "length (unit_bytes u) \<le> 1" for u by (cases u) simp_all
  show ?thesis
  proof (induction us)
    case (Cons v us)
    with u [of v] show ?case by simp
  qed simp
qed

lemma gathered_output:
  assumes "gathered limit us c" and "length us \<le> u64_max"
  shows "shows_units limit us (collection_output t c s)"
proof -
  have l: "length (stream_bytes us) \<le> u64_max" using stream_bytes_length [of us] assms(2) by simp
  have b: "oc_buffer c = buffer_of limit (stream_bytes us)" "oc_failure c = stream_failure us"
    using assms(1) buffer_pushes_of [of _ limit] l by (auto simp: gathered_def)
  show ?thesis
    by (simp add: shows_units_def collection_output_def Let_def b buffer_of_total [OF l])
qed

lemma shows_units_exit_code [simp]: "shows_units limit us (out\<lparr>uo_exit_code := x\<rparr>) = shows_units limit us out"
  by (simp add: shows_units_def)

text \<open>
  The outputs of a session so far, and what follows: while the process runs, its next call begins where the
  last one ended; when there is no session any more, nothing of the log remains.
\<close>

definition accounted ::
  "('h \<Rightarrow> string \<Rightarrow> logged list) \<Rightarrow> ('h \<Rightarrow> string \<Rightarrow> bool) \<Rightarrow> ('h \<Rightarrow> string \<Rightarrow> execution_state \<times> int option) \<Rightarrow>
   nat \<Rightarrow> string \<Rightarrow> log_unit list list \<Rightarrow> unified_exec_output list \<Rightarrow> exec_session option \<Rightarrow> 'h \<Rightarrow> bool" where
  "accounted log final status limit i segs outs ses h \<longleftrightarrow> outs \<noteq> [] \<and> list_all2 (shows_units limit) segs outs \<and>
     (\<exists>rest. log_stream (log h i) = concat segs @ rest \<and> (case ses of
        Some s \<Rightarrow> handle_execution_id (es_handle s) = i \<and> es_cursor s = length (concat segs) \<and> session_running s \<and>
          \<not> has_closed (concat segs) \<and> uo_session_id (last outs) = Some (es_session_id s)
      | None \<Rightarrow> final h i \<and> list_all late_unit rest \<and> uo_session_id (last outs) = None \<and>
          is_terminal (fst (status h i)) \<and> uo_exit_code (last outs) = snd (status h i)))"

lemma accounted_grew:
  assumes "accounted log final status limit i segs outs (Some s) h" and "host_grew ok log final status h h'"
  shows "accounted log final status limit i segs outs (Some s) h'"
proof -
  have "prefix (log_stream (log h i)) (log_stream (log h' i))" using assms(2) by (simp add: host_grew_def log_stream_prefix)
  then obtain more where "log_stream (log h' i) = log_stream (log h i) @ more" by (auto simp: prefix_def)
  with assms(1) show ?thesis by (auto simp: accounted_def)
qed

context interactive_host
begin

lemma finish_accounted:
  assumes "ok h" and "collected log final status limit (concat segs) h (s, c, x)" and "ut_now tool = clock"
    and "session_finish tool (s, c, x) h = (Inr res, h')" and "list_all2 (shows_units limit) segs outs"
  shows "grew h h' \<and> (\<exists>seg. accounted log final status limit (handle_execution_id (es_handle s)) (segs @ [seg]) (outs @ [ur_output res]) (ur_session res) h')"
proof -
  let ?i = "handle_execution_id (es_handle s)"
  from assms(4) obtain t where r: "oc_ready c" and t: "finish_time tool c h = (Inr t, h')"
      and res: "res = \<lparr>ur_output = (if session_running s then collection_output t c s else (collection_output t c s)\<lparr>uo_exit_code := x\<rparr>),
        ur_session = (if session_running s then Some s else None)\<rparr>"
    by (auto simp: session_finish_def io_bind_Inr_iff Let_def)
  have g: "grew h h'" using t now_grew [OF assms(1,3)] host_grew_refl [of ok, OF assms(1)]
    by (auto simp: finish_time_def split: option.splits)
  from collected_grew [OF assms(2) g] obtain us rest where a: "log_stream (log h' ?i) = concat segs @ us @ rest"
      "es_cursor s = length (concat segs @ us)" "gathered limit us c" "\<not> has_closed (concat segs)" "oc_closed c \<longrightarrow> oc_ready c \<and> \<not> session_running s"
      "\<not> session_running s \<longrightarrow> final h' ?i \<and> list_all late_unit rest \<and> status h' ?i = (handle_state (es_handle s), x)"
    using r unfolding collected_def Let_def prod.case by blast
  have "length us \<le> u64_max" using log_bounded [OF grew_ok [OF g], of ?i] a(1) by simp
  note sh = gathered_output [OF a(3) this, of t s]
  have "uo_session_id (collection_output t c s) = (if session_running s then Some (es_session_id s) else None)"
    by (simp add: collection_output_def Let_def)
  then have "accounted log final status limit ?i (segs @ [us]) (outs @ [ur_output res]) (ur_session res) h'"
    unfolding accounted_def using a sh assms(5)
    by (auto simp: res list_all2_appendI session_running_def ue_terminal_iff gathered_def)
  with g show ?thesis by blast
qed

end

lemma prepared_stdin_call:
  assumes "prepare_write_stdin tool chunk inp s ids = Inr p"
  shows "pw_session p = s" and "gathered (uc_max_output_bytes (ut_config tool)) [] (restarted_collection t p)"
    and "\<not> oc_closed (restarted_collection t p)" and "\<not> oc_ready (restarted_collection t p)"
proof -
  from assms obtain y a b d n where p: "pw_session p = s" "pw_collection p = collection_new 0 y (uc_max_output_bytes (ut_config tool)) a b d n"
    by (auto simp: prepare_write_stdin_def rbind_Inr_iff Let_def)
  then show "pw_session p = s" and "gathered (uc_max_output_bytes (ut_config tool)) [] (restarted_collection t p)"
    and "\<not> oc_closed (restarted_collection t p)" and "\<not> oc_ready (restarted_collection t p)"
    by (simp_all add: restarted_collection_def) (simp_all add: collection_new_def)
qed

context interactive_host
begin

lemma exec_polls_collected:
  assumes "exec_polls tool r0 h0 r h" and "ok h0" and "ue_tool_ok pr clock tool" and "rx_patch r0 = None" and "rx_session r0 = Some s0"
    and "collected log final status limit pre h0 (s0, rx_collection r0, rx_exit_code r0)"
  shows "grew h0 h \<and> rx_patch r = None \<and> (\<exists>s. rx_session r = Some s \<and> handle_execution_id (es_handle s) = handle_execution_id (es_handle s0) \<and>
     collected log final status limit pre h (s, rx_collection r, rx_exit_code r))"
  using assms(1)
proof induction
  case none
  with assms host_grew_refl [of ok, OF assms(2)] show ?case by auto
next
  case (polled r1 h1 x r2 h2)
  then obtain s where s: "rx_session r1 = Some s" "handle_execution_id (es_handle s) = handle_execution_id (es_handle s0)"
      "collected log final status limit pre h1 (s, rx_collection r1, rx_exit_code r1)" and g: "grew h0 h1" and p: "rx_patch r1 = None" by blast
  obtain res h3 where q: "session_poll tool (s, rx_collection r1, rx_exit_code r1) h1 = (res, h3)" by force
  note c = poll_collected [OF grew_ok [OF g] s(3) assms(3) q]
  show ?case
  proof (cases "ue_validate_prepared tool (px_host_id (rx_prepared r1)) (px_generation (rx_prepared r1))")
    case (Inl e)
    with polled(2) g p s show ?thesis by (auto simp: poll_exec_command_def)
  next
    case (Inr u)
    note g3 = host_grew_trans [OF g conjunct1 [OF c]]
    show ?thesis
    proof (cases res)
      case (Inl e)
      with Inr polled(2) p s q c g3 show ?thesis by (auto simp: poll_exec_command_def)
    next
      case (Inr z)
      obtain page s' c' x' where z: "z = (page, s', c', x')" by (metis prod_cases4)
      have "r2 = r1\<lparr>rx_session := Some s', rx_collection := c', rx_exit_code := x'\<rparr>" "h2 = h3"
        using \<open>ue_validate_prepared _ _ _ = Inr u\<close> Inr z polled(2) p s q by (auto simp: poll_exec_command_def)
      with Inr z c p s(2) g3 show ?thesis by auto
    qed
  qed
qed

lemma stdin_polls_collected:
  assumes "stdin_polls tool r0 h0 r h" and "ok h0" and "ue_tool_ok pr clock tool"
    and "collected log final status limit pre h0 (rw_session r0, rw_collection r0, rw_exit_code r0)"
  shows "grew h0 h \<and> handle_execution_id (es_handle (rw_session r)) = handle_execution_id (es_handle (rw_session r0)) \<and>
     collected log final status limit pre h (rw_session r, rw_collection r, rw_exit_code r)"
  using assms(1)
proof induction
  case none
  with assms host_grew_refl [of ok, OF assms(2)] show ?case by auto
next
  case (polled r1 h1 x r2 h2)
  then have s: "handle_execution_id (es_handle (rw_session r1)) = handle_execution_id (es_handle (rw_session r0))"
      "collected log final status limit pre h1 (rw_session r1, rw_collection r1, rw_exit_code r1)" and g: "grew h0 h1" by blast+
  obtain res h3 where q: "session_poll tool (rw_session r1, rw_collection r1, rw_exit_code r1) h1 = (res, h3)" by force
  note c = poll_collected [OF grew_ok [OF g] s(2) assms(3) q]
  show ?case
  proof (cases "validate_session tool (rw_session r1)")
    case (Inl e)
    with polled(2) g s show ?thesis by (auto simp: poll_write_stdin_def)
  next
    case (Inr u)
    with polled(2) s(1) q c host_grew_trans [OF g conjunct1 [OF c]] show ?thesis
      by (auto simp: poll_write_stdin_def split: sum.splits prod.splits)
  qed
qed

lemma dispatch_grew:
  assumes "ok h" and "ut_processes tool = pr" and "stdin_dispatch tool act h = (x, h')"
  shows "grew h h'"
proof (cases act)
  case PollAction
  with assms host_grew_refl [of ok, OF assms(1)] show ?thesis by (simp add: stdin_dispatch_def)
next
  case (WriteAction q)
  with assms write_grows show ?thesis by (auto simp: stdin_dispatch_def split: prod.splits sum.splits)
next
  case (InterruptAction q)
  with assms signal_grows show ?thesis by (auto simp: stdin_dispatch_def split: prod.splits sum.splits fail.splits)
qed

lemma start_stdin_grew:
  assumes "ok h" and "ue_tool_ok pr clock tool" and "start_write_stdin tool p h = (x, h')"
  shows "grew h h'" and "x = Inr w \<Longrightarrow> \<exists>t. rw_session w = pw_session p \<and> rw_collection w = restarted_collection t p"
proof -
  have t: "ut_processes tool = pr" "ut_now tool = clock" using assms(2) by (simp_all add: ue_tool_ok_def)
  have "preserves (grew h) (pr_checkpoint pr)" "preserves (grew h) (stdin_dispatch tool act)" "preserves (grew h) (io_now tool)" for act
    using checkpoint_grew dispatch_grew [OF _ t(1)] now_grew [OF _ t(2)] unfolding preserves_def by (meson grew_ok host_grew_trans)+
  then have "preserves (grew h) (start_write_stdin tool p)" unfolding start_write_stdin_def t
    by (intro preserves_bind) auto
  from preservesD [OF this host_grew_refl [of ok, OF assms(1)] assms(3)] show "grew h h'" .
  show "\<exists>t. rw_session w = pw_session p \<and> rw_collection w = restarted_collection t p" if "x = Inr w"
    using assms(3) that by (auto simp: start_write_stdin_def io_bind_Inr_iff)
qed

lemma continued_collected:
  assumes "accounted log final status limit i segs outs (Some s) h" and "ok h" and "ue_tool_ok pr clock tool"
    and "limit = uc_max_output_bytes (ut_config tool)" and "prepare_write_stdin tool chunk inp s ids = Inr p"
    and "start_write_stdin tool p h = (Inr w, h1)" and "stdin_polls tool w h1 w' h2"
  shows "grew h h2 \<and> handle_execution_id (es_handle (rw_session w')) = i \<and>
     collected log final status limit (concat segs) h2 (rw_session w', rw_collection w', rw_exit_code w')"
proof -
  note g = start_stdin_grew(1) [OF assms(2,3,6)]
  obtain t where w: "rw_session w = s" "rw_collection w = restarted_collection t p"
    using start_stdin_grew(2) [OF assms(2,3,6) refl] prepared_stdin_call(1) [OF assms(5)] by auto
  from accounted_grew [OF assms(1) g] obtain rest where "log_stream (log h1 i) = concat segs @ rest"
      "handle_execution_id (es_handle s) = i" "es_cursor s = length (concat segs)" "session_running s" "\<not> has_closed (concat segs)"
    by (auto simp: accounted_def)
  then have "collected log final status limit (concat segs) h1 (rw_session w, rw_collection w, rw_exit_code w)"
    unfolding collected_def Let_def prod.case w
    by (intro exI [of _ "[]"] exI [of _ rest]) (use prepared_stdin_call(2-4) [OF assms(5), of t] assms(4) in simp)
  from stdin_polls_collected [OF assms(7) grew_ok [OF g] assms(3) this] host_grew_trans [OF g] w(1)
    \<open>handle_execution_id (es_handle s) = i\<close> show ?thesis by auto
qed

lemma calls_accounted:
  assumes "session_calls tool r0 h0 outs ses h" and "ok h0" and "ue_tool_ok pr clock tool" and "rx_patch r0 = None" and "rx_session r0 = Some s0"
    and "collected log final status limit [] h0 (s0, rx_collection r0, rx_exit_code r0)" and "limit = uc_max_output_bytes (ut_config tool)"
    and "i = handle_execution_id (es_handle s0)"
  shows "grew h0 h \<and> (\<exists>segs. accounted log final status limit i segs outs ses h)"
  using assms(1)
proof induction
  case (executed r h res h')
  have t: "ut_now tool = clock" using assms(3) by (simp add: ue_tool_ok_def)
  obtain s where s: "rx_session r = Some s" "handle_execution_id (es_handle s) = i" "rx_patch r = None" "grew h0 h"
      "collected log final status limit (concat []) h (s, rx_collection r, rx_exit_code r)"
    using exec_polls_collected [OF executed(1) assms(2-6)] assms(8) by auto
  have "session_finish tool (s, rx_collection r, rx_exit_code r) h = (Inr res, h')"
    using executed(2) s by (simp add: finish_exec_command_def)
  from finish_accounted [OF grew_ok [OF s(4)] s(5) t this, of "[]"] s(2) host_grew_trans [OF s(4)] show ?case by auto
next
  case (continued outs s h chunk inp ids p w h1 w' h2 res h3)
  have t: "ut_now tool = clock" using assms(3) by (simp add: ue_tool_ok_def)
  from continued.IH obtain segs where a: "accounted log final status limit i segs outs (Some s) h" and g: "grew h0 h" by blast
  from continued_collected [OF a grew_ok [OF g] assms(3,7) continued(2-4)] have c: "grew h h2" "handle_execution_id (es_handle (rw_session w')) = i"
    "collected log final status limit (concat segs) h2 (rw_session w', rw_collection w', rw_exit_code w')" by blast+
  have f: "session_finish tool (rw_session w', rw_collection w', rw_exit_code w') h2 = (Inr res, h3)"
    using continued(5) by (auto simp: finish_write_stdin_def io_bind_Inr_iff)
  have "list_all2 (shows_units limit) segs outs" using a by (simp add: accounted_def)
  from finish_accounted [OF grew_ok [OF c(1)] c(3) t f this] c(2) host_grew_trans [OF host_grew_trans [OF g c(1)]] show ?case by auto
next
  case (refused outs s h chunk inp ids p e h1)
  then obtain segs where a: "accounted log final status limit i segs outs (Some s) h" and g: "grew h0 h" by blast
  note g1 = start_stdin_grew(1) [OF grew_ok [OF g] assms(3) refused(3)]
  from accounted_grew [OF a g1] host_grew_trans [OF g g1] show ?case by blast
next
  case (abandoned outs s h chunk inp ids p w h1 w' h2)
  then obtain segs where a: "accounted log final status limit i segs outs (Some s) h" and g: "grew h0 h" by blast
  have g1: "grew h h2" using continued_collected [OF a grew_ok [OF g] assms(3,7) abandoned(2-4)] by blast
  from accounted_grew [OF a g1] host_grew_trans [OF g g1] show ?case by blast
qed

lemma started_collected:
  assumes "ok h" and "ue_tool_ok pr clock tool" and "prepare_exec_command tool chunk inp ids = Inr p" and "px_patch p = None"
    and "start_exec_command tool p h = (Inr r, h')"
  shows "grew h h' \<and> rx_patch r = None \<and> (\<exists>s. rx_session r = Some s \<and> handle_execution_id (es_handle s) = xi_execution_id ids \<and>
     collected log final status (uc_max_output_bytes (ut_config tool)) [] h' (s, rx_collection r, rx_exit_code r))"
proof -
  have t: "ut_processes tool = pr" "ut_now tool = clock" using assms(2) by (simp_all add: ue_tool_ok_def)
  have p: "px_max_output_bytes p = uc_max_output_bytes (ut_config tool)" "execution_id (px_request p) = xi_execution_id ids"
    using assms(3) by (auto simp: prepare_exec_command_def rbind_Inr_iff Let_def exec_request_def)
  from assms(4,5) t obtain u h1 at h2 hdl where e: "pr_checkpoint pr h = (Inr u, h1)" "io_now tool h1 = (Inr at, h2)"
      "pr_start pr (px_request p) h2 = (Inr hdl, h')" "handle_execution_id hdl = execution_id (px_request p)"
      and r: "r = \<lparr>rx_prepared = p, rx_session = Some (new_session p hdl), rx_patch = None,
        rx_collection = exec_collection at p, rx_exit_code = None\<rparr>"
    by (auto simp: start_exec_command_def start_process_def io_bind_Inr_iff)
  note g1 = checkpoint_grew [OF assms(1) e(1)]
  note g2 = host_grew_trans [OF g1 now_grew [OF grew_ok [OF g1] t(2) e(2)]]
  note g3 = host_grew_trans [OF g2 start_grows [OF grew_ok [OF g2] e(3)]]
  have "collected log final status (uc_max_output_bytes (ut_config tool)) [] h' (new_session p hdl, exec_collection at p, None)"
    unfolding collected_def Let_def prod.case
    by (rule exI [of _ "[]"]) (simp add: new_session_def exec_collection_def p, simp add: collection_new_def)
  with g3 r e(4) p(2) show ?thesis by (simp add: new_session_def)
qed

end

end
