(* ===== verification/Bash_Tool.thy ===== *)
theory Bash_Tool
  imports Process_Runtime Output_Buffers Tool_Paths
begin

text \<open>
  The shell tool (\<open>platform/packages/tools/bash-minimal/src\<close>): preparing a command, starting it,
  consuming its events page by page into a bounded tail, waiting for it and terminating it. The tool
  owns no state between calls: a running command is a value that the caller stores.
\<close>

section \<open>Data\<close>

definition DEFAULT_TIMEOUT_MS :: nat where "DEFAULT_TIMEOUT_MS = 120000"

definition MAX_TIMEOUT_MS :: nat where "MAX_TIMEOUT_MS = 1800000"

record bash_input =
  bi_command :: string
  bi_timeout :: "nat option"
  bi_workdir :: "string option"

record bash_config =
  bc_shell :: "string option"
  bc_login :: bool
  bc_environment :: environment_variables
  bc_max_output_bytes :: nat
  bc_max_output_lines :: nat
  bc_read_bytes :: nat

definition bash_config_default :: bash_config where
  "bash_config_default = \<lparr>bc_shell = None, bc_login = False,
     bc_environment = \<lparr>env_mode = Inherit, env_set = [], env_remove = []\<rparr>,
     bc_max_output_bytes = 50 * 1024, bc_max_output_lines = 2000, bc_read_bytes = 64 * 1024\<rparr>"

record bash_ids =
  id_operation :: string
  id_execution :: string
  id_terminate :: string

record prepared_bash =
  pb_host_id :: string
  pb_generation :: string
  pb_request :: start_execution_request
  pb_terminate_operation_id :: string
  pb_max_output_bytes :: nat
  pb_max_output_lines :: nat

record running_bash =
  rb_prepared :: prepared_bash
  rb_handle :: execution_handle
  rb_cursor :: nat
  rb_tail :: tail_buffer
  rb_exit_code :: "int option"
  rb_failure :: "string option"
  rb_complete :: bool

record bash_output =
  bo_host_id :: string
  bo_handle :: execution_handle
  bo_cwd :: exec_path
  bo_output :: string
  bo_truncated :: bool
  bo_output_bytes :: nat
  bo_exit_code :: "int option"
  bo_failure :: "string option"
  bo_complete :: bool

record bash_page =
  bp_events :: "process_event list"
  bp_complete :: bool

record 'h bash_tool =
  bt_runtime :: "'h process_runtime"
  bt_cwd :: exec_path
  bt_config :: bash_config

definition bash_error :: "error_code \<Rightarrow> string \<Rightarrow> exec_error" where
  "bash_error c m = with_detail (exec_error_new c m) ''source'' (DText ''tool-bash-minimal'')"

definition running_output :: "running_bash \<Rightarrow> bash_output" where
  "running_output r = \<lparr>bo_host_id = pb_host_id (rb_prepared r), bo_handle = rb_handle r,
     bo_cwd = cwd (pb_request (rb_prepared r)), bo_output = tail_text (rb_tail r),
     bo_truncated = tb_truncated (rb_tail r), bo_output_bytes = tb_total_bytes (rb_tail r),
     bo_exit_code = rb_exit_code r, bo_failure = rb_failure r, bo_complete = rb_complete r\<rparr>"

subsection \<open>Rendering\<close>

definition bash_is_error :: "bash_output \<Rightarrow> bool" where
  "bash_is_error out \<longleftrightarrow> bo_complete out \<and> (handle_state (bo_handle out) \<noteq> StExited \<or> bo_exit_code out \<noteq> Some 0)"

fun show_state :: "execution_state \<Rightarrow> string" where
  "show_state StStarting = ''Starting''"
| "show_state StRunning = ''Running''"
| "show_state StExited = ''Exited''"
| "show_state StFailed = ''Failed''"
| "show_state StCancelled = ''Cancelled''"
| "show_state StLost = ''Lost''"

definition show_bool :: "bool \<Rightarrow> string" where
  "show_bool b = (if b then ''true'' else ''false'')"

definition bash_output_text :: "bash_output \<Rightarrow> string" where
  "bash_output_text out = bo_output out
     @ (if bo_output out \<noteq> [] \<and> \<not> ends_with [LF] (bo_output out) then [LF] else [])
     @ (if bo_truncated out
        then ''[Output truncated to the retained tail; earlier output is not included.]'' @ [LF] else [])
     @ ''[State: '' @ show_state (handle_state (bo_handle out)) @ ''; exit code: ''
     @ (case bo_exit_code out of Some c \<Rightarrow> show_int c | None \<Rightarrow> ''unavailable'')
     @ ''; complete: '' @ show_bool (bo_complete out) @ '']''
     @ (case bo_failure out of Some m \<Rightarrow> [LF] @ ''[Execution failed: '' @ m @ '']'' | None \<Rightarrow> [])"

section \<open>Preparing and starting\<close>

definition shell_command :: "operating_system \<Rightarrow> bash_config \<Rightarrow> string \<Rightarrow> command_spec" where
  "shell_command os cfg script =
     (if os = WindowsOs \<and> bc_shell cfg = None
      then Argv ''powershell.exe'' [''-NoLogo'', ''-NoProfile'', ''-NonInteractive'', ''-Command'', script]
      else Shell script (bc_shell cfg) (bc_login cfg))"

definition bash_tool_new :: "'h process_runtime \<Rightarrow> exec_path \<Rightarrow> bash_config \<Rightarrow> 'h bash_tool exec_result" where
  "bash_tool_new rt wd cfg =
     rbind (validate_cwd (pr_descriptor rt) wd) (\<lambda>_.
     rbind (validated (environment_validate (bc_environment cfg))) (\<lambda>_.
     if bc_max_output_bytes cfg = 0 \<or> bc_max_output_lines cfg = 0 \<or> bc_read_bytes cfg = 0 \<or>
        max_process_read_bytes (limits (pr_descriptor rt)) = Some 0
     then Inl (Fail (bash_error InvalidRequest ''output and read limits must be positive''))
     else Inr \<lparr>bt_runtime = rt, bt_cwd = wd, bt_config = cfg\<rparr>))"

definition bash_request :: "'h bash_tool \<Rightarrow> exec_path \<Rightarrow> nat \<Rightarrow> bash_input \<Rightarrow> bash_ids \<Rightarrow> start_execution_request" where
  "bash_request tool wd t inp ids =
     (let d = pr_descriptor (bt_runtime tool) in
      \<lparr>expected_generation = Some (supervisor_generation_id d), output_drain_timeout_ms = None,
       start_operation_id = id_operation ids, execution_id = id_execution ids,
       command = shell_command (operating_system d) (bt_config tool) (bi_command inp), cwd = wd,
       environment = bc_environment (bt_config tool), stdin = ClosedStdin, timeout_ms = Some t\<rparr>)"

definition bash_prepare :: "'h bash_tool \<Rightarrow> bash_input \<Rightarrow> bash_ids \<Rightarrow> prepared_bash exec_result" where
  "bash_prepare tool inp ids =
     (let d = pr_descriptor (bt_runtime tool);
          t = (case bi_timeout inp of Some t \<Rightarrow> t | None \<Rightarrow> DEFAULT_TIMEOUT_MS)
      in if trim (bi_command inp) = [] then Inl (Fail (bash_error InvalidRequest ''command must be nonempty''))
         else if t = 0 \<or> MAX_TIMEOUT_MS < t
         then Inl (Fail (bash_error InvalidRequest ''timeout must be between 1 and 1800000 milliseconds''))
         else if id_operation ids = id_terminate ids
         then Inl (Fail (bash_error InvalidRequest ''start and terminate require different operation IDs''))
         else rbind (case bi_workdir inp of Some p \<Rightarrow> resolve_path d (bt_cwd tool) p | None \<Rightarrow> Inr (bt_cwd tool)) (\<lambda>wd.
           let req = bash_request tool wd t inp ids in
           rbind (validated (start_validate req)) (\<lambda>_.
           Inr \<lparr>pb_host_id = host_id d, pb_generation = supervisor_generation_id d, pb_request = req,
             pb_terminate_operation_id = id_terminate ids, pb_max_output_bytes = bc_max_output_bytes (bt_config tool),
             pb_max_output_lines = bc_max_output_lines (bt_config tool)\<rparr>)))"

definition bash_validate_host :: "'h bash_tool \<Rightarrow> prepared_bash \<Rightarrow> unit exec_result" where
  "bash_validate_host tool p =
     guard (pb_host_id p = host_id (pr_descriptor (bt_runtime tool)))
       (bash_error InvalidRequest ''execution belongs to another host'')"

definition handle_matches :: "prepared_bash \<Rightarrow> execution_handle \<Rightarrow> bool" where
  "handle_matches p hdl \<longleftrightarrow> handle_execution_id hdl = execution_id (pb_request p) \<and> handle_generation_id hdl = pb_generation p"

definition bash_recover :: "'h bash_tool \<Rightarrow> prepared_bash \<Rightarrow> execution_handle \<Rightarrow> running_bash exec_result" where
  "bash_recover tool p hdl =
     rbind (bash_validate_host tool p) (\<lambda>_.
     rbind (guard (handle_matches p hdl)
              (bash_error InvalidRequest ''execution identity does not match prepared command'')) (\<lambda>_.
     Inr \<lparr>rb_prepared = p, rb_handle = hdl, rb_cursor = 0,
       rb_tail = tail_new (pb_max_output_bytes p) (pb_max_output_lines p),
       rb_exit_code = None, rb_failure = None, rb_complete = False\<rparr>))"

definition bash_start :: "'h bash_tool \<Rightarrow> prepared_bash \<Rightarrow> ('h, running_bash) io" where
  "bash_start tool p =
     io_bind (pr_checkpoint (bt_runtime tool)) (\<lambda>_.
     io_bind (io_lift (bash_validate_host tool p)) (\<lambda>_.
     io_bind (io_lift (guard (pb_generation p = supervisor_generation_id (pr_descriptor (bt_runtime tool)))
       (bash_error ExecutionLost
          ''supervisor generation changed; reconcile the old execution before starting again''))) (\<lambda>_.
     io_bind (io_lift (validated (start_validate (pb_request p)))) (\<lambda>_.
     io_bind (pr_start (bt_runtime tool) (pb_request p)) (\<lambda>hdl.
     io_bind (io_lift (guard (handle_matches p hdl)
       (bash_error Internal ''start returned another execution ID; command outcome is uncertain''))) (\<lambda>_.
     io_lift (bash_recover tool p hdl)))))))"

section \<open>Polling\<close>

definition bash_read_request :: "'h bash_tool \<Rightarrow> running_bash \<Rightarrow> read_execution_request" where
  "bash_read_request tool r =
     \<lparr>read_execution_id = handle_execution_id (rb_handle r), read_generation_id = handle_generation_id (rb_handle r),
      after_sequence = rb_cursor r,
      read_max_bytes = min (bc_read_bytes (bt_config tool))
        (case max_process_read_bytes (limits (pr_descriptor (bt_runtime tool))) of Some n \<Rightarrow> n | None \<Rightarrow> u64_max),
      wait_ms = Some 1000\<rparr>"

fun advance_cursor :: "nat \<Rightarrow> process_event list \<Rightarrow> nat exec_result" where
  "advance_cursor cursor [] = Inr cursor"
| "advance_cursor cursor (e # es) =
     (if sequence e \<le> cursor
      then Inl (Fail (bash_error Internal ''process events did not advance in sequence''))
      else advance_cursor (sequence e) es)"

definition consume_event :: "running_bash \<Rightarrow> process_event \<Rightarrow> running_bash" where
  "consume_event r e = (case event e of
     Output _ bytes \<Rightarrow> r\<lparr>rb_tail := tail_push bytes (rb_tail r)\<rparr>
   | Failed m \<Rightarrow> r\<lparr>rb_failure := Some m\<rparr>
   | _ \<Rightarrow> r)"

text \<open>\<open>bash_terminal\<close> is the \<open>is_terminal\<close> of the tool: any state but \<open>Starting\<close> and \<open>Running\<close>.\<close>

definition bash_terminal :: "execution_state \<Rightarrow> bool" where
  "bash_terminal st \<longleftrightarrow> st \<noteq> StStarting \<and> st \<noteq> StRunning"

definition accept_reply :: "read_execution_result \<Rightarrow> running_bash \<Rightarrow> running_bash exec_result" where
  "accept_reply reply r =
     rbind (advance_cursor (rb_cursor r) (events reply)) (\<lambda>cursor.
     rbind (guard (next_sequence reply = cursor)
              (bash_error Internal ''process cursor does not match returned events'')) (\<lambda>_.
     Inr ((foldl consume_event r (events reply))\<lparr>rb_cursor := cursor,
       rb_handle := (rb_handle r)\<lparr>handle_state := result_state reply\<rparr>, rb_exit_code := result_exit_code reply,
       rb_complete := bash_terminal (result_state reply) \<and>
         (events reply = [] \<or> list_ex (\<lambda>e. event e = Closed) (events reply))\<rparr>)))"

text \<open>A poll returns the page and the running command, which it changes only when it succeeds.\<close>

definition bash_poll :: "'h bash_tool \<Rightarrow> running_bash \<Rightarrow> ('h, bash_page \<times> running_bash) io" where
  "bash_poll tool r =
     io_bind (io_lift (bash_validate_host tool (rb_prepared r))) (\<lambda>_.
     if rb_complete r then io_lift (Inr (\<lparr>bp_events = [], bp_complete = True\<rparr>, r))
     else io_bind (pr_checkpoint (bt_runtime tool)) (\<lambda>_.
       io_bind (pr_read (bt_runtime tool) (bash_read_request tool r)) (\<lambda>reply.
       io_bind (io_lift (accept_reply reply r)) (\<lambda>r'.
       io_lift (Inr (\<lparr>bp_events = events reply, bp_complete = rb_complete r'\<rparr>, r'))))))"

definition bash_terminate :: "'h bash_tool \<Rightarrow> (terminate_request \<Rightarrow> ('h, bool) io) \<Rightarrow> running_bash \<Rightarrow> ('h, bool) io" where
  "bash_terminate tool stop r =
     io_bind (io_lift (bash_validate_host tool (rb_prepared r))) (\<lambda>_.
     stop \<lparr>terminate_operation_id = pb_terminate_operation_id (rb_prepared r),
       terminate_execution_id = handle_execution_id (rb_handle r),
       terminate_generation_id = handle_generation_id (rb_handle r)\<rparr>)"

section \<open>Waiting\<close>

text \<open>
  What \<open>wait\<close> does with the error of a poll: when the context is cancelled or has expired it
  terminates the command under a context of its own, \<open>stop\<close>, and notes the error of that. \<open>json\<close> is
  the JSON form of an error.
\<close>

definition bash_abandon ::
  "'h bash_tool \<Rightarrow> (terminate_request \<Rightarrow> ('h, bool) io) \<Rightarrow> (exec_error \<Rightarrow> detail) \<Rightarrow> exec_error fail \<Rightarrow> running_bash \<Rightarrow> ('h, bash_output) io" where
  "bash_abandon tool stop json e r h = (case e of
     Panic _ \<Rightarrow> (Inl e, h)
   | Fail err \<Rightarrow> (case pr_checkpoint (bt_runtime tool) h of
       (Inr _, h1) \<Rightarrow> (Inl e, h1)
     | (Inl _, h1) \<Rightarrow> (case bash_terminate tool stop r h1 of
         (Inr _, h2) \<Rightarrow> (Inl e, h2)
       | (Inl (Panic m), h2) \<Rightarrow> (Inl (Panic m), h2)
       | (Inl (Fail stop_error), h2) \<Rightarrow> (Inl (Fail (with_detail err ''termination_error'' (json stop_error))), h2))))"

text \<open>\<open>None\<close> is a wait that does not return.\<close>

partial_function (option) bash_wait ::
  "'h bash_tool \<Rightarrow> (terminate_request \<Rightarrow> ('h, bool) io) \<Rightarrow> (exec_error \<Rightarrow> detail) \<Rightarrow> running_bash \<Rightarrow> 'h
    \<Rightarrow> (bash_output exec_result \<times> running_bash \<times> 'h) option" where
  "bash_wait tool stop json r h = (case bash_poll tool r h of
     (Inr (page, r'), h1) \<Rightarrow>
       if bp_complete page then Some (Inr (running_output r'), r', h1) else bash_wait tool stop json r' h1
   | (Inl e, h1) \<Rightarrow> (case bash_abandon tool stop json e r h1 of (res, h2) \<Rightarrow> Some (res, r, h2)))"

section \<open>What a poll consumes\<close>

lemma bash_terminal_iff: "bash_terminal st \<longleftrightarrow> is_terminal st"
  by (cases st) (simp_all add: bash_terminal_def is_terminal_def)

text \<open>The state of a command that has consumed a stream.\<close>

definition consumed :: "log_unit list \<Rightarrow> running_bash \<Rightarrow> bool" where
  "consumed us r \<longleftrightarrow> rb_cursor r = length us \<and> rb_failure r = stream_failure us \<and>
     (\<exists>chunks. concat chunks = stream_bytes us \<and>
        rb_tail r = tail_pushes (tail_new (pb_max_output_bytes (rb_prepared r)) (pb_max_output_lines (rb_prepared r))) chunks)"

lemma consume_event_frame [simp]:
  "rb_cursor (consume_event r e) = rb_cursor r" "rb_prepared (consume_event r e) = rb_prepared r"
  "rb_handle (consume_event r e) = rb_handle r" "rb_complete (consume_event r e) = rb_complete r"
  by (cases "event e"; simp add: consume_event_def)+

lemma foldl_consume_frame [simp]:
  "rb_prepared (foldl consume_event r evs) = rb_prepared r" "rb_handle (foldl consume_event r evs) = rb_handle r"
  by (induction evs arbitrary: r) simp_all

lemma tail_pushes_snoc: "tail_push c (tail_pushes t chunks) = tail_pushes t (chunks @ [c])"
  by (simp add: tail_pushes_def)

lemma consumed_event:
  assumes "consumed us r"
  shows "consumed (us @ ev_units e) ((consume_event r e)\<lparr>rb_cursor := rb_cursor r + length (ev_units e)\<rparr>)"
proof -
  from assms obtain chunks where c: "concat chunks = stream_bytes us"
      "rb_tail r = tail_pushes (tail_new (pb_max_output_bytes (rb_prepared r)) (pb_max_output_lines (rb_prepared r))) chunks"
    and r: "rb_cursor r = length us" "rb_failure r = stream_failure us" by (auto simp: consumed_def)
  show ?thesis
  proof (cases "event e")
    case (Output st d)
    have "concat (chunks @ [d]) = stream_bytes (us @ ev_units e)" "stream_failure (us @ ev_units e) = stream_failure us"
      using Output c(1) by (simp_all add: ev_units_def stream_failure_def)
    with r c(2) Output tail_pushes_snoc show ?thesis unfolding consumed_def consume_event_def
      by (intro conjI exI [of _ "chunks @ [d]"]) simp_all
  qed (use r c in \<open>auto simp: consumed_def consume_event_def ev_units_def stream_failure_def\<close>)
qed

lemma consumed_frame [simp]:
  "consumed us (r\<lparr>rb_handle := x\<rparr>) = consumed us r" "consumed us (r\<lparr>rb_exit_code := y\<rparr>) = consumed us r"
  "consumed us (r\<lparr>rb_complete := z\<rparr>) = consumed us r"
  by (simp_all add: consumed_def)

lemma consume_event_cursor [simp]:
  "consume_event (r\<lparr>rb_cursor := n\<rparr>) e = (consume_event r e)\<lparr>rb_cursor := n\<rparr>"
  by (cases "event e") (simp_all add: consume_event_def)

lemma foldl_consume_cursor [simp]:
  "foldl consume_event (r\<lparr>rb_cursor := n\<rparr>) evs = (foldl consume_event r evs)\<lparr>rb_cursor := n\<rparr>"
  by (induction evs arbitrary: r) simp_all

lemma consumed_events:
  assumes "consumed us r"
  shows "consumed (us @ concat (map ev_units evs))
    ((foldl consume_event r evs)\<lparr>rb_cursor := rb_cursor r + length (concat (map ev_units evs))\<rparr>)"
  using assms
proof (induction evs arbitrary: us r)
  case Nil
  then show ?case by (simp add: consumed_def)
next
  case (Cons e evs)
  from Cons.IH [OF consumed_event [OF Cons.prems, of e]] show ?case by (simp add: add.assoc)
qed

lemma ev_units_pos: "0 < length (ev_units e)"
  by (simp add: ev_units_def)

lemma advance_sequenced: "sequenced a evs \<Longrightarrow> advance_cursor a evs = Inr (a + length (concat (map ev_units evs)))"
  by (induction evs arbitrary: a) (use ev_units_pos in \<open>auto simp: add.assoc\<close>)

text \<open>A reply that a host may give is accepted.\<close>

lemma accept_reply_ok:
  assumes "consumed us r" and "read_ok (rb_cursor r) limit 0 str (events reply)"
    and "next_sequence reply = rb_cursor r + length (concat (map ev_units (events reply)))"
  shows "\<exists>r'. accept_reply reply r = Inr r' \<and> consumed (us @ concat (map ev_units (events reply))) r' \<and>
     rb_prepared r' = rb_prepared r \<and> rb_handle r' = (rb_handle r)\<lparr>handle_state := result_state reply\<rparr> \<and>
     rb_exit_code r' = result_exit_code reply \<and>
     (rb_complete r' \<longleftrightarrow> is_terminal (result_state reply) \<and> (events reply = [] \<or> (\<exists>e \<in> set (events reply). event e = Closed)))"
proof -
  have "advance_cursor (rb_cursor r) (events reply) = Inr (rb_cursor r + length (concat (map ev_units (events reply))))"
    using assms(2) by (simp add: read_ok_def advance_sequenced)
  with assms(3) consumed_events [OF assms(1), of "events reply"] show ?thesis
    by (simp add: accept_reply_def bash_terminal_iff list_ex_iff)
qed

section \<open>Clients of a process host\<close>

definition bash_tool_ok :: "'h bash_tool \<Rightarrow> bool" where
  "bash_tool_ok tool \<longleftrightarrow> 0 < bc_read_bytes (bt_config tool) \<and> bc_read_bytes (bt_config tool) \<le> u64_max \<and>
     max_process_read_bytes (limits (pr_descriptor (bt_runtime tool))) \<noteq> Some 0"

lemma bash_read_bounds:
  assumes "bash_tool_ok tool"
  shows "0 < read_max_bytes (bash_read_request tool r)" and "read_max_bytes (bash_read_request tool r) \<le> u64_max"
  using assms by (auto simp: bash_tool_ok_def bash_read_request_def min_def split: option.splits)

text \<open>
  A command that has consumed a prefix of the log of its execution; when it is complete the log is
  final and what is left of it holds no output and no failure.
\<close>

definition attached ::
  "('h \<Rightarrow> string \<Rightarrow> logged list) \<Rightarrow> ('h \<Rightarrow> string \<Rightarrow> bool) \<Rightarrow> ('h \<Rightarrow> string \<Rightarrow> execution_state \<times> int option) \<Rightarrow> 'h \<Rightarrow> running_bash \<Rightarrow> bool" where
  "attached log final status h r \<longleftrightarrow>
     (let i = handle_execution_id (rb_handle r) in
      \<exists>us rest. log_stream (log h i) = us @ rest \<and> consumed us r \<and>
        (rb_complete r \<longrightarrow> final h i \<and> list_all late_unit rest \<and> status h i = (handle_state (rb_handle r), rb_exit_code r)))"

lemma attached_log:
  "attached log final status h r \<Longrightarrow> log h' = log h \<Longrightarrow> final h' = final h \<Longrightarrow> status h' = status h \<Longrightarrow> attached log final status h' r"
  by (simp add: attached_def)

lemma attached_complete:
  assumes "attached log final status h r" and "rb_complete r" and "i = handle_execution_id (rb_handle r)"
  shows "rb_failure r = stream_failure (log_stream (log h i)) \<and> final h i \<and> status h i = (handle_state (rb_handle r), rb_exit_code r) \<and>
     (\<exists>chunks. concat chunks = stream_bytes (log_stream (log h i)) \<and>
        rb_tail r = tail_pushes (tail_new (pb_max_output_bytes (rb_prepared r)) (pb_max_output_lines (rb_prepared r))) chunks)"
proof -
  from assms obtain us rest where s: "log_stream (log h i) = us @ rest" "consumed us r" and f: "final h i" "list_all late_unit rest"
      "status h i = (handle_state (rb_handle r), rb_exit_code r)"
    by (auto simp: attached_def Let_def)
  have "stream_bytes (us @ rest) = stream_bytes us" "stream_failure (us @ rest) = stream_failure us"
    using late_units [OF f(2)] by (simp_all add: stream_failure_def)
  with s f show ?thesis by (simp add: consumed_def)
qed

context process_host
begin

lemma attached_grows:
  assumes "attached log final status h r" and "\<not> rb_complete r" and "prefix (log h (handle_execution_id (rb_handle r))) (log h' (handle_execution_id (rb_handle r)))"
  shows "attached log final status h' r"
proof -
  from assms(1) obtain us rest where "log_stream (log h (handle_execution_id (rb_handle r))) = us @ rest" "consumed us r"
    by (auto simp: attached_def Let_def)
  moreover obtain more where "log_stream (log h' (handle_execution_id (rb_handle r))) = log_stream (log h (handle_execution_id (rb_handle r))) @ more"
    using log_stream_prefix [OF assms(3)] by (auto simp: prefix_def)
  ultimately show ?thesis using assms(2) unfolding attached_def Let_def by auto
qed

lemma accepted_page:
  assumes "ok h" and "ok h'" and "attached log final status h r" and "prompt h (handle_execution_id (rb_handle r))"
    and "pr_read pr q h = (Inr reply, h')" and "q = bash_read_request tool r" and "0 < read_max_bytes q" and "read_max_bytes q \<le> u64_max"
  shows "\<exists>r'. accept_reply reply r = Inr r' \<and> attached log final status h' r' \<and> rb_prepared r' = rb_prepared r \<and>
     rb_handle r' = (rb_handle r)\<lparr>handle_state := result_state reply\<rparr> \<and> rb_exit_code r' = result_exit_code reply \<and>
     rb_cursor r' = rb_cursor r + length (concat (map ev_units (events reply))) \<and>
     (is_terminal (result_state reply) \<longrightarrow> events reply = [] \<longrightarrow> rb_complete r')"
proof -
  let ?i = "handle_execution_id (rb_handle r)"
  from assms(3) obtain us rest where s: "log_stream (log h ?i) = us @ rest" "consumed us r" by (auto simp: attached_def Let_def)
  have q: "read_execution_id q = ?i" "after_sequence q = rb_cursor r" and c: "rb_cursor r = length us"
    using assms(6) s(2) by (simp_all add: bash_read_request_def consumed_def)
  have le: "after_sequence q \<le> length (log_stream (log h (read_execution_id q)))" using q c s(1) by simp
  obtain l where l: "prefix (log h ?i) l" "prefix l (log h' ?i)"
      "read_ok (rb_cursor r) (read_max_bytes q) 0 (drop (rb_cursor r) (log_stream l)) (events reply)"
      "next_sequence reply = rb_cursor r + length (concat (map ev_units (events reply)))"
      "is_terminal (result_state reply) \<longrightarrow> final h' ?i \<and> l = log h' ?i \<and> status h' ?i = (result_state reply, result_exit_code reply)"
    using read_events [OF assms(1,5) le assms(8)] assms(4) unfolding q by blast
  from accept_reply_ok [OF s(2) l(3,4)] obtain r' where
    r': "accept_reply reply r = Inr r'" "consumed (us @ concat (map ev_units (events reply))) r'" "rb_prepared r' = rb_prepared r"
      "rb_handle r' = (rb_handle r)\<lparr>handle_state := result_state reply\<rparr>" "rb_exit_code r' = result_exit_code reply"
      "rb_complete r' \<longleftrightarrow> is_terminal (result_state reply) \<and> (events reply = [] \<or> (\<exists>e \<in> set (events reply). event e = Closed))"
    by blast
  from l(3) obtain rest' where rest': "drop (rb_cursor r) (log_stream l) = concat (map ev_units (events reply)) @ rest'"
      "rest' \<noteq> [] \<longrightarrow> returned_bytes (events reply) = read_max_bytes q" by (auto simp: read_ok_def)
  have "take (rb_cursor r) (log_stream l) = us" using log_stream_prefix [OF l(1)] s(1) c by (auto simp: prefix_def)
  then have sl: "log_stream l = (us @ concat (map ev_units (events reply))) @ rest'"
    using rest'(1) by (metis append_assoc append_take_drop_id)
  obtain more where more: "log_stream (log h' ?i) = log_stream l @ more" using log_stream_prefix [OF l(2)] by (auto simp: prefix_def)
  have fin: "final h' ?i \<and> list_all late_unit (rest' @ more) \<and> status h' ?i = (result_state reply, result_exit_code reply)" if "rb_complete r'"
  proof -
    from that r'(6) l(5) have f: "final h' ?i" "l = log h' ?i" "status h' ?i = (result_state reply, result_exit_code reply)" by simp_all
    with more have "more = []" by simp
    moreover have "list_all late_unit rest'"
    proof (cases "events reply = []")
      case True
      with rest'(2) assms(7) show ?thesis by (auto simp: returned_bytes_def)
    next
      case False
      with that r'(6) obtain e where e: "e \<in> set (events reply)" "event e = Closed" by auto
      then have "UEvent (timestamp e) Closed \<in> set (us @ concat (map ev_units (events reply)))" by (force simp: ev_units_def)
      from after_closed_units [OF sl this] log_late [OF assms(2)] f(2) show ?thesis by simp
    qed
    ultimately show ?thesis using f(1,3) by simp
  qed
  have "attached log final status h' r'" unfolding attached_def Let_def r'(4)
    by (rule exI [of _ "us @ concat (map ev_units (events reply))"], rule exI [of _ "rest' @ more"]) (use r'(2,5) fin sl more in auto)
  moreover have "rb_cursor r' = rb_cursor r + length (concat (map ev_units (events reply)))" using r'(2) c by (simp add: consumed_def)
  ultimately show ?thesis using r' by auto
qed

lemma poll_attached:
  assumes "ok h" and "attached log final status h r" and "prompt h (handle_execution_id (rb_handle r))"
    and "bt_runtime tool = pr" and "bash_tool_ok tool" and "bash_poll tool r h = (res, h')"
  shows "ok h' \<and> prompt h' = prompt h \<and> (case res of
     Inl _ \<Rightarrow> attached log final status h' r
   | Inr (page, r') \<Rightarrow> attached log final status h' r' \<and> rb_prepared r' = rb_prepared r \<and>
       handle_execution_id (rb_handle r') = handle_execution_id (rb_handle r) \<and> bp_complete page = rb_complete r')"
proof (cases "rb_complete r \<or> bash_validate_host tool (rb_prepared r) \<noteq> Inr ()")
  case True
  with assms(1,2,6) show ?thesis
    by (cases "bash_validate_host tool (rb_prepared r)") (auto simp: bash_poll_def io_bind_def io_lift_def)
next
  case False
  obtain x h1 where c: "pr_checkpoint pr h = (x, h1)" by force
  note f1 = checkpoint_frame [OF assms(1) c]
  have a1: "attached log final status h1 r" using f1 assms(2) by (blast intro: attached_log)
  show ?thesis
  proof (cases x)
    case (Inl e)
    with False c assms(4,6) f1 a1 show ?thesis by (auto simp: bash_poll_def io_bind_def io_lift_def)
  next
    case (Inr u)
    obtain y h2 where rd: "pr_read pr (bash_read_request tool r) h1 = (y, h2)" by force
    note f2 = read_grows [OF conjunct1 [OF f1] rd]
    have a2: "attached log final status h2 r" using attached_grows [OF a1] f2 False by blast
    show ?thesis
    proof (cases y)
      case (Inl e)
      with False Inr c rd assms(4,6) f1 f2 a2 show ?thesis by (auto simp: bash_poll_def io_bind_def io_lift_def)
    next
      case (Inr reply)
      have p1: "prompt h1 (handle_execution_id (rb_handle r))" using f1 assms(3) by simp
      obtain r' where r': "accept_reply reply r = Inr r'" "attached log final status h2 r'" "rb_prepared r' = rb_prepared r"
          "rb_handle r' = (rb_handle r)\<lparr>handle_state := result_state reply\<rparr>"
        using accepted_page [OF conjunct1 [OF f1] conjunct1 [OF f2] a1 p1 rd [unfolded Inr] refl bash_read_bounds [OF assms(5)]] by blast
      have "res = Inr (\<lparr>bp_events = events reply, bp_complete = rb_complete r'\<rparr>, r')" "h' = h2"
        using False \<open>x = Inr u\<close> Inr c rd r'(1) assms(4,6) by (auto simp: bash_poll_def io_bind_def io_lift_def)
      with r' f1 f2 show ?thesis by simp
    qed
  qed
qed

end

text \<open>Any number of polls, failed ones included, by a caller that keeps the command.\<close>

inductive bash_polls :: "'h bash_tool \<Rightarrow> running_bash \<Rightarrow> 'h \<Rightarrow> running_bash \<Rightarrow> 'h \<Rightarrow> bool" for tool r h where
  none: "bash_polls tool r h r h"
| polled: "bash_polls tool r h r1 h1 \<Longrightarrow> bash_poll tool r1 h1 = (Inr (page, r2), h2) \<Longrightarrow> bash_polls tool r h r2 h2"
| failed: "bash_polls tool r h r1 h1 \<Longrightarrow> bash_poll tool r1 h1 = (Inl e, h2) \<Longrightarrow> bash_polls tool r h r1 h2"

context process_host
begin

lemma polls_attached:
  assumes "bash_polls tool r h r' h'" and "ok h" and "attached log final status h r" and "prompt h (handle_execution_id (rb_handle r))"
    and "bt_runtime tool = pr" and "bash_tool_ok tool"
  shows "ok h' \<and> prompt h' = prompt h \<and> attached log final status h' r' \<and> rb_prepared r' = rb_prepared r \<and>
     handle_execution_id (rb_handle r') = handle_execution_id (rb_handle r)"
  using assms(1)
proof induction
  case none
  with assms(2,3) show ?case by simp
next
  case (polled r1 h1 page r2 h2)
  with assms(4) poll_attached [OF _ _ _ assms(5,6) polled(2)] show ?case by simp
next
  case (failed r1 h1 e h2)
  with assms(4) poll_attached [OF _ _ _ assms(5,6) failed(2)] show ?case by simp
qed

end

lemma bash_polls_first:
  assumes "bash_polls tool r1 h1 r' h'" and "bash_poll tool r h = (Inr (page, r1), h1)"
  shows "bash_polls tool r h r' h'"
  using assms(1) by induction (use assms(2) in \<open>blast intro: bash_polls.intros\<close>)+

context ending_host
begin

text \<open>A successful poll that does not complete the command gets closer to the end.\<close>

lemma poll_measure:
  assumes "ok h" and "attached log final status h r" and "prompt h (handle_execution_id (rb_handle r))"
    and "bt_runtime tool = pr" and "bash_tool_ok tool" and "bash_poll tool r h = (Inr (page, r'), h')"
    and "\<not> bp_complete page" and "ends h (handle_execution_id (rb_handle r))"
  shows "ends h' (handle_execution_id (rb_handle r)) \<and>
    (left h' (handle_execution_id (rb_handle r)) < left h (handle_execution_id (rb_handle r)) \<or>
     left h' (handle_execution_id (rb_handle r)) = left h (handle_execution_id (rb_handle r)) \<and>
     log h' (handle_execution_id (rb_handle r)) = log h (handle_execution_id (rb_handle r)) \<and> rb_cursor r < rb_cursor r')"
proof -
  let ?i = "handle_execution_id (rb_handle r)"
  have nc: "\<not> rb_complete r" using assms(6,7) by (auto simp: bash_poll_def io_bind_Inr_iff)
  with assms(4,6) obtain u h1 reply where c: "pr_checkpoint pr h = (Inr u, h1)"
      and rd: "pr_read pr (bash_read_request tool r) h1 = (Inr reply, h')" and acc: "accept_reply reply r = Inr r'"
      and pg: "bp_complete page = rb_complete r'"
    by (auto simp: bash_poll_def io_bind_Inr_iff)
  note f1 = checkpoint_frame [OF assms(1) c] and e1 = checkpoint_ends [OF assms(1) c]
  have a1: "attached log final status h1 r" using f1 assms(2) by (blast intro: attached_log)
  have p1: "prompt h1 ?i" using f1 assms(3) by simp
  note f2 = read_grows [OF conjunct1 [OF f1] rd]
  have r': "rb_cursor r' = rb_cursor r + length (concat (map ev_units (events reply)))"
      "is_terminal (result_state reply) \<longrightarrow> events reply = [] \<longrightarrow> rb_complete r'"
    using accepted_page [OF conjunct1 [OF f1] conjunct1 [OF f2] a1 p1 rd refl bash_read_bounds [OF assms(5)]] acc by auto
  have q: "read_execution_id (bash_read_request tool r) = ?i" "wait_ms (bash_read_request tool r) \<noteq> None"
    by (simp_all add: bash_read_request_def)
  have "ends h1 (read_execution_id (bash_read_request tool r))" using e1 assms(8) q(1) by simp
  note e2 = read_ends [OF conjunct1 [OF f1] this rd q(2), unfolded q(1)]
  show ?thesis
  proof (cases "events reply")
    case Nil
    with r'(2) pg assms(7) e2 e1 show ?thesis by simp
  next
    case (Cons e es)
    then have "rb_cursor r < rb_cursor r'" using r'(1) ev_units_pos [of e] by simp
    with e2 e1 f1 show ?thesis by auto
  qed
qed

lemma wait_returns:
  assumes "ok h" and "attached log final status h r" and "prompt h (handle_execution_id (rb_handle r))"
    and "bt_runtime tool = pr" and "bash_tool_ok tool" and "ends h (handle_execution_id (rb_handle r))"
  shows "\<exists>res r' h'. bash_wait tool stop json r h = Some (res, r', h') \<and> rb_prepared r' = rb_prepared r \<and>
     handle_execution_id (rb_handle r') = handle_execution_id (rb_handle r) \<and>
     (\<forall>out. res = Inr out \<longrightarrow> out = running_output r' \<and> rb_complete r' \<and> bash_polls tool r h r' h' \<and> ok h' \<and> attached log final status h' r')"
  using assms(1-3,6)
proof (induction "(h, r)" arbitrary: h r rule: wf_induct_rule
    [OF wf_inv_image [OF wf_lex_prod [OF wf_less_than wf_less_than],
      where f = "\<lambda>(h, r). (left h (handle_execution_id (rb_handle r)),
        length (log_stream (log h (handle_execution_id (rb_handle r)))) - rb_cursor r)"]])
  case 1
  let ?i = "handle_execution_id (rb_handle r)"
  obtain x h1 where p: "bash_poll tool r h = (x, h1)" by force
  note k = poll_attached [OF 1(2-4) assms(4,5) p]
  show ?case
  proof (cases x)
    case (Inl e)
    obtain res h2 where "bash_abandon tool stop json e r h1 = (res, h2)" by force
    moreover have "isl (fst (bash_abandon tool stop json e r h1))"
      by (auto simp: bash_abandon_def split: fail.splits prod.splits sum.splits)
    ultimately show ?thesis using p Inl by (auto simp: bash_wait.simps)
  next
    case (Inr y)
    obtain page r' where y: "y = (page, r')" by force
    note k' = k [unfolded Inr y, simplified]
    show ?thesis
    proof (cases "bp_complete page")
      case True
      with p Inr y k' bash_polls.polled [OF bash_polls.none p [unfolded Inr y]] show ?thesis by (subst bash_wait.simps) simp
    next
      case False
      note m = poll_measure [OF 1(2-4) assms(4,5) p [unfolded Inr y] False 1(5)]
      have "rb_cursor r' \<le> length (log_stream (log h1 ?i))" using k' by (auto simp: attached_def Let_def consumed_def)
      with m k' have "((h1, r'), (h, r)) \<in> inv_image (less_than <*lex*> less_than) (\<lambda>(h, r). (left h (handle_execution_id (rb_handle r)),
        length (log_stream (log h (handle_execution_id (rb_handle r)))) - rb_cursor r))" by auto
      from 1(1) [OF this] k' 1(4) m have "\<exists>res r'' h'. bash_wait tool stop json r' h1 = Some (res, r'', h') \<and> rb_prepared r'' = rb_prepared r' \<and>
         handle_execution_id (rb_handle r'') = handle_execution_id (rb_handle r') \<and>
         (\<forall>out. res = Inr out \<longrightarrow> out = running_output r'' \<and> rb_complete r'' \<and> bash_polls tool r' h1 r'' h' \<and> ok h' \<and> attached log final status h' r'')" by simp
      moreover have "bash_wait tool stop json r h = bash_wait tool stop json r' h1"
        using p Inr y False by (subst bash_wait.simps) simp
      ultimately show ?thesis using k' bash_polls_first [OF _ p [unfolded Inr y]] by auto
    qed
  qed
qed

end

end
