(* ===== verification/Native_Fs.thy ===== *)
theory Native_Fs
  imports Prelude "HOL-Library.AList" "HOL-Library.Sublist"
begin

text \<open>
  The part of the operating system's file tree that the supervisor uses through
  \<open>std::fs\<close>/\<open>tokio::fs\<close>: files, directories and symbolic links in one tree, resolution of paths
  with a budget of 40 links, and the calls \<open>symlink_metadata\<close>, \<open>metadata\<close>, \<open>canonicalize\<close>,
  \<open>read_link\<close>, \<open>write\<close>, \<open>create_dir\<close>, \<open>create_dir_all\<close>, \<open>remove_file\<close>, \<open>remove_dir\<close>,
  \<open>remove_dir_all\<close>, \<open>rename\<close> and \<open>read_dir\<close> with the error kinds they report. Native paths are the
  lists of their components below the root directory; a component is a name or \<open>..\<close>. Device files,
  permission bits and concurrent changes by other processes are not modelled. The operations here fail
  for what they find in the tree; \<open>KWriteFailed\<close> stands for the faults of an open file (a full or
  failing disk), which their callers add where they leave a trace.
\<close>

section \<open>The tree\<close>

type_synonym npath = "string list"

datatype node = NFile string | NDir | NLink string

type_synonym nfs = "(npath \<times> node) list"

datatype io_kind =
  KNotFound | KAlreadyExists | KPermissionDenied | KInvalidInput | KInvalidData | KTimedOut
| KNotADirectory | KIsADirectory | KDirectoryNotEmpty | KFilesystemLoop | KWriteFailed

type_synonym 'a io_result = "io_kind + 'a"

definition node_at :: "nfs \<Rightarrow> npath \<Rightarrow> node option" where
  "node_at fs p = (if p = [] then Some NDir else map_of fs p)"

lemma node_at_Nil [simp]: "node_at fs [] = Some NDir"
  by (simp add: node_at_def)

definition is_absolute :: "string \<Rightarrow> bool" where
  "is_absolute t = starts_with ''/'' t"

text \<open>The components of a link target: empty and \<open>.\<close> components disappear, \<open>..\<close> stays.\<close>

definition link_components :: "string \<Rightarrow> npath" where
  "link_components t = filter (\<lambda>c. c \<noteq> [] \<and> c \<noteq> ''.'') (split_char CHR ''/'' t)"

section \<open>Path resolution\<close>

text \<open>
  \<open>walk fs create n cur rest\<close> continues at the directory \<open>cur\<close> with the components \<open>rest\<close>, following at
  most \<open>n\<close> links. With \<open>create\<close> the last component may be missing, as for \<open>O_CREAT\<close>.
\<close>

function walk :: "nfs \<Rightarrow> bool \<Rightarrow> nat \<Rightarrow> npath \<Rightarrow> string list \<Rightarrow> npath io_result" where
  "walk fs create n cur [] = Inr cur"
| "walk fs create n cur (c # rest) =
     (if c = ''..'' then walk fs create n (butlast cur) rest
      else case node_at fs (cur @ [c]) of
        None \<Rightarrow> (if create \<and> rest = [] then Inr (cur @ [c]) else Inl KNotFound)
      | Some NDir \<Rightarrow> walk fs create n (cur @ [c]) rest
      | Some (NFile _) \<Rightarrow> (if rest = [] then Inr (cur @ [c]) else Inl KNotADirectory)
      | Some (NLink t) \<Rightarrow>
          (if n = 0 then Inl KFilesystemLoop
           else walk fs create (n - 1) (if is_absolute t then [] else cur) (link_components t @ rest)))"
  by pat_completeness auto
termination by (relation "measures [\<lambda>(_, _, n, _, _). n, \<lambda>(_, _, _, _, rest). length rest]") auto

definition max_links :: nat where "max_links = 40"

definition canonicalize :: "nfs \<Rightarrow> npath \<Rightarrow> npath io_result" where
  "canonicalize fs p = walk fs False max_links [] p"

definition metadata_of :: "nfs \<Rightarrow> npath \<Rightarrow> node io_result" where
  "metadata_of fs p = (case canonicalize fs p of
     Inl e \<Rightarrow> Inl e
   | Inr q \<Rightarrow> (case node_at fs q of None \<Rightarrow> Inl KNotFound | Some n \<Rightarrow> Inr n))"

definition directory_of :: "nfs \<Rightarrow> npath \<Rightarrow> npath io_result" where
  "directory_of fs p = (case canonicalize fs p of
     Inl e \<Rightarrow> Inl e
   | Inr q \<Rightarrow> if node_at fs q = Some NDir then Inr q else Inl KNotADirectory)"

text \<open>The entry a path names, without following a link at its end.\<close>

definition entry_of :: "nfs \<Rightarrow> npath \<Rightarrow> npath io_result" where
  "entry_of fs p =
     (if p = [] \<or> last p = ''..'' then canonicalize fs p
      else case directory_of fs (butlast p) of Inl e \<Rightarrow> Inl e | Inr d \<Rightarrow> Inr (d @ [last p]))"

definition symlink_metadata :: "nfs \<Rightarrow> npath \<Rightarrow> node io_result" where
  "symlink_metadata fs p = (case entry_of fs p of
     Inl e \<Rightarrow> Inl e
   | Inr q \<Rightarrow> (case node_at fs q of None \<Rightarrow> Inl KNotFound | Some n \<Rightarrow> Inr n))"

definition read_link :: "nfs \<Rightarrow> npath \<Rightarrow> string io_result" where
  "read_link fs p = (case symlink_metadata fs p of
     Inl e \<Rightarrow> Inl e
   | Inr (NLink t) \<Rightarrow> Inr t
   | Inr _ \<Rightarrow> Inl KInvalidInput)"

definition read_contents_of :: "nfs \<Rightarrow> npath \<Rightarrow> string io_result" where
  "read_contents_of fs p = (case metadata_of fs p of
     Inl e \<Rightarrow> Inl e
   | Inr (NFile c) \<Rightarrow> Inr c
   | Inr _ \<Rightarrow> Inl KIsADirectory)"

section \<open>Changes\<close>

definition fs_put :: "npath \<Rightarrow> node \<Rightarrow> nfs \<Rightarrow> nfs" where
  "fs_put q n fs = AList.update q n fs"

definition fs_del :: "npath \<Rightarrow> nfs \<Rightarrow> nfs" where
  "fs_del q fs = AList.delete q fs"

definition fs_write :: "nfs \<Rightarrow> npath \<Rightarrow> string \<Rightarrow> nfs io_result" where
  "fs_write fs p bytes = (case walk fs True max_links [] p of
     Inl e \<Rightarrow> Inl e
   | Inr q \<Rightarrow> if node_at fs q = Some NDir then Inl KIsADirectory else Inr (fs_put q (NFile bytes) fs))"

definition fs_create_new :: "nfs \<Rightarrow> npath \<Rightarrow> string \<Rightarrow> nfs io_result" where
  "fs_create_new fs p bytes = (case entry_of fs p of
     Inl e \<Rightarrow> Inl e
   | Inr q \<Rightarrow> if node_at fs q \<noteq> None then Inl KAlreadyExists else Inr (fs_put q (NFile bytes) fs))"

definition create_dir :: "nfs \<Rightarrow> npath \<Rightarrow> nfs io_result" where
  "create_dir fs p = (case entry_of fs p of
     Inl e \<Rightarrow> Inl e
   | Inr q \<Rightarrow> if node_at fs q \<noteq> None then Inl KAlreadyExists else Inr (fs_put q NDir fs))"

definition is_dir :: "nfs \<Rightarrow> npath \<Rightarrow> bool" where
  "is_dir fs p \<longleftrightarrow> metadata_of fs p = Inr NDir"

text \<open>\<open>DirBuilder\<close> with \<open>recursive(true)\<close>: create, else the parents and create again.\<close>

function create_dir_all :: "nfs \<Rightarrow> npath \<Rightarrow> io_kind option \<times> nfs" where
  "create_dir_all fs p = (case create_dir fs p of
     Inr fs' \<Rightarrow> (None, fs')
   | Inl e \<Rightarrow>
       if e \<noteq> KNotFound then (if is_dir fs p then None else Some e, fs)
       else if p = [] then (Some KInvalidInput, fs)
       else case create_dir_all fs (butlast p) of
         (Some e', fs') \<Rightarrow> (Some e', fs')
       | (None, fs') \<Rightarrow> (case create_dir fs' p of
           Inr fs'' \<Rightarrow> (None, fs'')
         | Inl e'' \<Rightarrow> (if is_dir fs' p then None else Some e'', fs')))"
  by pat_completeness auto
termination by (relation "measure (\<lambda>(_, p). length p)") auto

declare create_dir_all.simps [simp del]

definition children :: "nfs \<Rightarrow> npath \<Rightarrow> string list" where
  "children fs d = map (\<lambda>(q, _). last q) (filter (\<lambda>(q, _). q \<noteq> [] \<and> butlast q = d) (AList.clearjunk fs))"

definition remove_file :: "nfs \<Rightarrow> npath \<Rightarrow> nfs io_result" where
  "remove_file fs p = (case entry_of fs p of
     Inl e \<Rightarrow> Inl e
   | Inr q \<Rightarrow> (case node_at fs q of
       None \<Rightarrow> Inl KNotFound
     | Some NDir \<Rightarrow> Inl KIsADirectory
     | Some _ \<Rightarrow> Inr (fs_del q fs)))"

definition remove_dir :: "nfs \<Rightarrow> npath \<Rightarrow> nfs io_result" where
  "remove_dir fs p = (case entry_of fs p of
     Inl e \<Rightarrow> Inl e
   | Inr q \<Rightarrow> (case node_at fs q of
       None \<Rightarrow> Inl KNotFound
     | Some NDir \<Rightarrow> if children fs q \<noteq> [] then Inl KDirectoryNotEmpty else Inr (fs_del q fs)
     | Some _ \<Rightarrow> Inl KNotADirectory))"

definition remove_dir_all :: "nfs \<Rightarrow> npath \<Rightarrow> nfs io_result" where
  "remove_dir_all fs p = (case entry_of fs p of
     Inl e \<Rightarrow> Inl e
   | Inr q \<Rightarrow> (case node_at fs q of
       None \<Rightarrow> Inl KNotFound
     | Some NDir \<Rightarrow> Inr (filter (\<lambda>(k, _). \<not> prefix q k) fs)
     | Some (NLink _) \<Rightarrow> Inr (fs_del q fs)
     | Some (NFile _) \<Rightarrow> Inl KNotADirectory))"

text \<open>\<open>rename\<close> of a file onto a path that is absent or not a directory.\<close>

definition rename_file :: "nfs \<Rightarrow> npath \<Rightarrow> npath \<Rightarrow> nfs io_result" where
  "rename_file fs p p' = (case (entry_of fs p, entry_of fs p') of
     (Inr q, Inr q') \<Rightarrow> (case node_at fs q of
         None \<Rightarrow> Inl KNotFound
       | Some n \<Rightarrow> if node_at fs q' = Some NDir then Inl KIsADirectory
                   else Inr (fs_put q' n (fs_del q fs)))
   | (Inl e, _) \<Rightarrow> Inl e
   | (_, Inl e) \<Rightarrow> Inl e)"

definition read_dir :: "nfs \<Rightarrow> npath \<Rightarrow> string list io_result" where
  "read_dir fs p = (case directory_of fs p of Inl e \<Rightarrow> Inl e | Inr d \<Rightarrow> Inr (children fs d))"

section \<open>Resolution without a budget\<close>

inductive resolves :: "nfs \<Rightarrow> npath \<Rightarrow> string list \<Rightarrow> npath \<Rightarrow> bool" for fs where
  at_end: "resolves fs cur [] cur"
| up: "resolves fs (butlast cur) rest q \<Longrightarrow> resolves fs cur (''..'' # rest) q"
| into: "c \<noteq> ''..'' \<Longrightarrow> node_at fs (cur @ [c]) = Some NDir \<Longrightarrow> resolves fs (cur @ [c]) rest q
    \<Longrightarrow> resolves fs cur (c # rest) q"
| at_file: "c \<noteq> ''..'' \<Longrightarrow> node_at fs (cur @ [c]) = Some (NFile x) \<Longrightarrow> resolves fs cur [c] (cur @ [c])"
| link: "c \<noteq> ''..'' \<Longrightarrow> node_at fs (cur @ [c]) = Some (NLink t)
    \<Longrightarrow> resolves fs (if is_absolute t then [] else cur) (link_components t @ rest) q
    \<Longrightarrow> resolves fs cur (c # rest) q"

inductive_simps resolves_Nil_iff [simp]: "resolves fs cur [] q"
inductive_simps resolves_Cons_iff: "resolves fs cur (c # rest) q"

lemma walk_resolves: "walk fs False n cur p = Inr q \<Longrightarrow> resolves fs cur p q"
proof (induction fs "False" n cur p rule: walk.induct)
  case (2 fs n cur c rest)
  then show ?case
    by (auto simp: resolves_Cons_iff split: if_splits option.splits node.splits)
qed simp

lemma resolves_walk:
  "resolves fs cur p q \<Longrightarrow> walk fs False n cur p = Inr q \<or> walk fs False n cur p = Inl KFilesystemLoop"
proof (induction arbitrary: n rule: resolves.induct)
  case (link c cur t rest q)
  then show ?case by (cases n) auto
qed auto

lemma resolves_det: "resolves fs cur p q \<Longrightarrow> resolves fs cur p q' \<Longrightarrow> q' = q"
  by (induction arbitrary: q' rule: resolves.induct) (simp_all add: resolves_Cons_iff)

lemma resolves_append:
  assumes "resolves fs cur p d" and "node_at fs d = Some NDir"
  shows "resolves fs cur (p @ rest) q \<longleftrightarrow> resolves fs d rest q"
  using assms by (induction rule: resolves.induct) (simp_all add: resolves_Cons_iff)

text \<open>Every entry lies in a directory.\<close>

definition fs_wf :: "nfs \<Rightarrow> bool" where
  "fs_wf fs \<longleftrightarrow> (\<forall>q. node_at fs q \<noteq> None \<longrightarrow> node_at fs (butlast q) = Some NDir)"

lemma fs_wf_butlast: "fs_wf fs \<Longrightarrow> node_at fs q = Some n \<Longrightarrow> node_at fs (butlast q) = Some NDir"
  by (auto simp: fs_wf_def)

lemma resolves_prefix:
  assumes "fs_wf fs" and "resolves fs cur (p @ c # rest) q" and "node_at fs cur = Some NDir"
  shows "\<exists>d. resolves fs cur p d \<and> node_at fs d = Some NDir"
proof -
  have "resolves fs cur s q \<Longrightarrow> s = p @ c # rest \<Longrightarrow> node_at fs cur = Some NDir \<Longrightarrow>
     \<exists>d. resolves fs cur p d \<and> node_at fs d = Some NDir" for s
  proof (induction arbitrary: p rule: resolves.induct)
    case (up cur r q)
    show ?case
    proof (cases p)
      case Nil
      with up show ?thesis by auto
    next
      case (Cons x p')
      with up show ?thesis using fs_wf_butlast [OF assms(1)] by (auto simp: resolves_Cons_iff)
    qed
  next
    case (into e cur r q)
    then show ?case by (cases p) (auto simp: resolves_Cons_iff)
  next
    case (at_file e cur x)
    then show ?case by (cases p) auto
  next
    case (link e cur t r q)
    show ?case
    proof (cases p)
      case Nil
      with link show ?thesis by auto
    next
      case (Cons x p')
      then have "link_components t @ r = (link_components t @ p') @ c # rest" and x: "x = e"
        using link.prems(1) by simp_all
      moreover have "node_at fs (if is_absolute t then [] else cur) = Some NDir"
        using link.prems(2) by simp
      ultimately obtain d where "resolves fs (if is_absolute t then [] else cur) (link_components t @ p') d"
          and "node_at fs d = Some NDir"
        using link.IH by blast
      then show ?thesis using resolves.link [OF link.hyps(1,2)] Cons x by blast
    qed
  qed auto
  with assms(2,3) show ?thesis by blast
qed


section \<open>Directories, canonical paths and paths ready for creation\<close>

definition dir_path :: "nfs \<Rightarrow> npath \<Rightarrow> bool" where
  "dir_path fs d \<longleftrightarrow> ''..'' \<notin> set d \<and> (\<forall>q. prefix q d \<longrightarrow> node_at fs q = Some NDir)"

definition canonical :: "nfs \<Rightarrow> npath \<Rightarrow> bool" where
  "canonical fs q \<longleftrightarrow> dir_path fs q \<or>
     (\<exists>d c x. q = d @ [c] \<and> dir_path fs d \<and> c \<noteq> ''..'' \<and> node_at fs q = Some (NFile x))"

lemma dir_path_Nil [simp]: "dir_path fs []"
  by (simp add: dir_path_def)

lemma dir_path_snoc: "dir_path fs (d @ [c]) \<longleftrightarrow> dir_path fs d \<and> c \<noteq> ''..'' \<and> node_at fs (d @ [c]) = Some NDir"
  by (auto simp: dir_path_def)

lemma dir_path_node: "dir_path fs d \<Longrightarrow> node_at fs d = Some NDir"
  by (simp add: dir_path_def)

lemma dir_path_prefix: "dir_path fs d \<Longrightarrow> prefix q d \<Longrightarrow> dir_path fs q"
  unfolding dir_path_def by (metis prefix_order.trans set_mono_prefix subsetD)

lemma dir_path_butlast: "dir_path fs d \<Longrightarrow> dir_path fs (butlast d)"
  by (rule dir_path_prefix) (auto simp: prefixeq_butlast)

lemma canonical_node: "canonical fs q \<Longrightarrow> node_at fs q = Some NDir \<or> (\<exists>x. node_at fs q = Some (NFile x))"
  by (auto simp: canonical_def dir_path_node)

lemma canonical_dir: "canonical fs q \<Longrightarrow> node_at fs q = Some NDir \<Longrightarrow> dir_path fs q"
  by (auto simp: canonical_def)

lemma resolves_canonical: "resolves fs cur p q \<Longrightarrow> dir_path fs cur \<Longrightarrow> canonical fs q"
proof (induction rule: resolves.induct)
  case (at_file c cur x)
  then show ?case unfolding canonical_def by blast
qed (auto simp: canonical_def dir_path_butlast dir_path_snoc)

lemma resolves_dir_path: "dir_path fs (cur @ p) \<Longrightarrow> resolves fs cur p (cur @ p)"
proof (induction p arbitrary: cur)
  case (Cons c p)
  have "dir_path fs (cur @ [c])" using dir_path_prefix [OF Cons.prems] by simp
  then show ?case using Cons.IH [of "cur @ [c]"] Cons.prems by (simp add: resolves_Cons_iff dir_path_snoc)
qed simp

lemma walk_dir_path: "dir_path fs (cur @ p) \<Longrightarrow> walk fs create n cur (p @ rest) = walk fs create n (cur @ p) rest"
proof (induction p arbitrary: cur)
  case (Cons c p)
  have "dir_path fs (cur @ [c])" using dir_path_prefix [OF Cons.prems] by simp
  then show ?case using Cons.IH [of "cur @ [c]"] Cons.prems by (simp add: dir_path_snoc)
qed simp

lemma resolves_root: "dir_path fs d \<Longrightarrow> resolves fs [] (d @ p) q \<longleftrightarrow> resolves fs d p q"
  using resolves_append [OF resolves_dir_path [of fs "[]" d]] dir_path_node by simp

lemma canonicalize_resolves: "canonicalize fs p = Inr q \<Longrightarrow> resolves fs [] p q"
  unfolding canonicalize_def by (rule walk_resolves)

lemma resolves_canonicalize:
  "resolves fs [] p q \<Longrightarrow> canonicalize fs p = Inr q \<or> canonicalize fs p = Inl KFilesystemLoop"
  unfolding canonicalize_def by (rule resolves_walk)

lemma canonicalize_canonical: "canonicalize fs p = Inr q \<Longrightarrow> canonical fs q"
  using resolves_canonical [OF canonicalize_resolves] by simp

lemma walk_canonical: "canonical fs q \<Longrightarrow> walk fs create n [] q = Inr q"
  using walk_dir_path [of fs "[]" q create n "[]"] walk_dir_path [of fs "[]" _ create n "[_]"]
  by (auto simp: canonical_def)

lemma canonicalize_fixed: "canonical fs q \<Longrightarrow> canonicalize fs q = Inr q"
  by (simp add: canonicalize_def walk_canonical)

lemma metadata_canonical: "canonical fs q \<Longrightarrow> node_at fs q = Some n \<Longrightarrow> metadata_of fs q = Inr n"
  by (simp add: metadata_of_def canonicalize_fixed)

lemma directory_of_Inr: "directory_of fs p = Inr d \<longleftrightarrow> canonicalize fs p = Inr d \<and> dir_path fs d"
  by (auto simp: directory_of_def dir_path_node split: sum.splits if_splits
           dest: canonicalize_canonical canonical_dir)

text \<open>
  A path is settled when it can be used for creation as it is spelled: no proper prefix of
  it is a link or a file.
\<close>

definition settled :: "nfs \<Rightarrow> npath \<Rightarrow> bool" where
  "settled fs r \<longleftrightarrow> ''..'' \<notin> set r \<and>
     (\<forall>q. strict_prefix q r \<longrightarrow> node_at fs q = Some NDir \<or> node_at fs q = None)"

lemma settled_snoc:
  "settled fs (r @ [c]) \<longleftrightarrow> settled fs r \<and> c \<noteq> ''..'' \<and> (node_at fs r = Some NDir \<or> node_at fs r = None)"
  by (auto simp: settled_def strict_prefix_def)

lemma settled_Nil [simp]: "settled fs []"
  by (simp add: settled_def)

lemma settled_butlast: "settled fs r \<Longrightarrow> settled fs (butlast r)"
  by (cases r rule: rev_cases) (auto simp: settled_snoc)

lemma dir_path_settled: "dir_path fs d \<Longrightarrow> settled fs d"
  by (auto simp: dir_path_def settled_def strict_prefix_def)

lemma canonical_settled: "canonical fs q \<Longrightarrow> settled fs q"
  by (auto simp: canonical_def dir_path_settled settled_snoc dir_path_node)

lemma settled_dir: "fs_wf fs \<Longrightarrow> settled fs r \<Longrightarrow> node_at fs r = Some NDir \<Longrightarrow> dir_path fs r"
proof (induction r rule: rev_induct)
  case (snoc c r)
  then show ?case using fs_wf_butlast [OF snoc.prems(1,3)] by (auto simp: settled_snoc dir_path_snoc)
qed simp

text \<open>The first missing directory of a settled path whose parent does not exist.\<close>

lemma settled_walk_missing:
  assumes "fs_wf fs" and "settled fs r" and "node_at fs r = None" and "rest \<noteq> []"
  shows "walk fs create n [] (r @ rest) = Inl KNotFound"
  using assms(2-4)
proof (induction r arbitrary: rest rule: rev_induct)
  case (snoc c r)
  show ?case
  proof (cases "node_at fs r = None")
    case True
    with snoc show ?thesis by (simp add: settled_snoc)
  next
    case False
    with snoc.prems have "dir_path fs r" "c \<noteq> ''..''" by (auto simp: settled_snoc intro: settled_dir [OF assms(1)])
    with snoc.prems show ?thesis
      using walk_dir_path [of fs "[]" r create n "c # rest"] by (cases rest) simp_all
  qed
qed simp

lemma settled_entry:
  assumes "fs_wf fs" and "settled fs r"
  shows "entry_of fs r = (if r = [] \<or> node_at fs (butlast r) = Some NDir then Inr r else Inl KNotFound)"
proof (cases r rule: rev_cases)
  case (snoc d c)
  show ?thesis
  proof (cases "node_at fs d = Some NDir")
    case True
    with assms snoc have "dir_path fs d" by (auto simp: settled_snoc intro: settled_dir)
    with snoc assms(2) show ?thesis
      using walk_dir_path [of fs "[]" d False max_links "[]"]
      by (auto simp: entry_of_def directory_of_def canonicalize_def settled_snoc dir_path_node)
  next
    case False
    with assms snoc have n: "node_at fs d = None" "settled fs d" "d \<noteq> []" by (auto simp: settled_snoc)
    then obtain d' c' where d: "d = d' @ [c']" by (cases d rule: rev_cases) auto
    have "walk fs False max_links [] d = Inl KNotFound"
    proof (cases "node_at fs d' = None")
      case True
      then show ?thesis using settled_walk_missing [OF assms(1), of d' "[c']"] n d by (simp add: settled_snoc)
    next
      case False
      then have "dir_path fs d'" using n d by (auto simp: settled_snoc intro: settled_dir [OF assms(1)])
      then show ?thesis using walk_dir_path [of fs "[]" d' False max_links "[c']"] n d by (auto simp: settled_snoc)
    qed
    with snoc assms(2) False show ?thesis
      by (auto simp: entry_of_def directory_of_def canonicalize_def settled_snoc)
  qed
qed (simp add: entry_of_def canonicalize_def)


section \<open>Where a path would be created\<close>

text \<open>
  \<open>creates fs p r\<close>: following links also when their targets are missing, \<open>p\<close> names the entry \<open>r\<close>.
\<close>

inductive creates :: "nfs \<Rightarrow> npath \<Rightarrow> npath \<Rightarrow> bool" for fs where
  here: "resolves fs [] p r \<Longrightarrow> creates fs p r"
| missing: "x \<noteq> ''..'' \<Longrightarrow> creates fs p r \<Longrightarrow> symlink_metadata fs (p @ [x]) = Inl KNotFound
    \<Longrightarrow> creates fs (p @ [x]) (r @ [x])"
| through: "symlink_metadata fs p = Inr (NLink t)
    \<Longrightarrow> creates fs ((if is_absolute t then [] else butlast p) @ link_components t) r \<Longrightarrow> creates fs p r"

lemma symlink_metadata_snoc:
  "x \<noteq> ''..'' \<Longrightarrow> symlink_metadata fs (p @ [x]) = (case directory_of fs p of
     Inl e \<Rightarrow> Inl e
   | Inr d \<Rightarrow> (case node_at fs (d @ [x]) of None \<Rightarrow> Inl KNotFound | Some n \<Rightarrow> Inr n))"
  by (auto simp: symlink_metadata_def entry_of_def split: sum.splits)

lemma symlink_metadata_link:
  assumes "symlink_metadata fs p = Inr (NLink t)"
  obtains p' x d where "p = p' @ [x]" "x \<noteq> ''..''" "directory_of fs p' = Inr d" "node_at fs (d @ [x]) = Some (NLink t)"
proof -
  have "\<not> (p = [] \<or> last p = ''..'')"
    using assms canonicalize_canonical canonical_node
    by (fastforce simp: symlink_metadata_def entry_of_def split: sum.splits option.splits)
  then obtain p' x where "p = p' @ [x]" "x \<noteq> ''..''" by (cases p rule: rev_cases) auto
  with assms that show thesis by (auto simp: symlink_metadata_snoc split: sum.splits option.splits)
qed

lemma link_resolves:
  assumes "symlink_metadata fs p = Inr (NLink t)"
  shows "resolves fs [] p q \<longleftrightarrow> resolves fs [] ((if is_absolute t then [] else butlast p) @ link_components t) q"
proof -
  from assms obtain p' x d where p: "p = p' @ [x]" "x \<noteq> ''..''" and d: "directory_of fs p' = Inr d"
      and n: "node_at fs (d @ [x]) = Some (NLink t)" by (rule symlink_metadata_link)
  from d have r: "resolves fs [] p' d" "node_at fs d = Some NDir"
    by (auto simp: directory_of_Inr dir_path_node intro: canonicalize_resolves)
  have "resolves fs [] p q \<longleftrightarrow> resolves fs d [x] q" by (simp add: p resolves_append [OF r])
  also have "\<dots> \<longleftrightarrow> resolves fs (if is_absolute t then [] else d) (link_components t) q"
    using n p(2) by (simp add: resolves_Cons_iff)
  finally show ?thesis by (simp add: p resolves_append [OF r])
qed

lemma missing_not_resolved:
  assumes "fs_wf fs" and "symlink_metadata fs (p @ [x]) = Inl KNotFound" and "x \<noteq> ''..''"
  shows "\<not> resolves fs [] (p @ [x]) q"
proof
  assume r: "resolves fs [] (p @ [x]) q"
  from resolves_prefix [OF assms(1) r] obtain d where d: "resolves fs [] p d" "node_at fs d = Some NDir" by auto
  then have "directory_of fs p = Inr d \<or> directory_of fs p = Inl KFilesystemLoop"
    using resolves_canonicalize [OF d(1)] by (auto simp: directory_of_def)
  with assms(2,3) have "node_at fs (d @ [x]) = None"
    by (auto simp: symlink_metadata_snoc split: option.splits)
  moreover from r have "resolves fs d [x] q" by (simp add: resolves_append [OF d])
  ultimately show False using assms(3) by (auto simp: resolves_Cons_iff)
qed

lemma creates_resolved:
  assumes "fs_wf fs" and "creates fs p r"
  shows "resolves fs [] p d \<Longrightarrow> r = d"
  using assms(2)
proof (induction arbitrary: d rule: creates.induct)
  case (here p r)
  then show ?case by (auto dest: resolves_det)
next
  case (missing x p r)
  then show ?case using missing_not_resolved [OF assms(1)] by blast
next
  case (through p t r)
  then show ?case using link_resolves [OF through.hyps(1)] by blast
qed

lemma creates_shape:
  assumes "fs_wf fs" and "creates fs p r"
  shows "settled fs r \<and> (node_at fs r \<noteq> None \<longrightarrow> resolves fs [] p r)"
  using assms(2)
proof (induction rule: creates.induct)
  case (here p r)
  then show ?case using canonical_settled [OF resolves_canonical [OF here]] by simp
next
  case (missing x p r)
  have "node_at fs r = Some NDir \<or> node_at fs r = None" and "node_at fs (r @ [x]) = None"
  proof -
    show "node_at fs r = Some NDir \<or> node_at fs r = None"
    proof (rule ccontr)
      assume c: "\<not> ?thesis"
      with missing.IH have rs: "resolves fs [] p r" by blast
      with c have "directory_of fs p \<in> {Inl KNotADirectory, Inl KFilesystemLoop}"
        using resolves_canonicalize [OF rs] by (auto simp: directory_of_def)
      with missing.hyps show False by (auto simp: symlink_metadata_snoc)
    qed
    show "node_at fs (r @ [x]) = None"
    proof (rule ccontr)
      assume c: "\<not> ?thesis"
      with fs_wf_butlast [OF assms(1), of "r @ [x]"] have "node_at fs r = Some NDir" by auto
      moreover from this missing.IH have rs: "resolves fs [] p r" by blast
      ultimately have "directory_of fs p \<in> {Inr r, Inl KFilesystemLoop}"
        using resolves_canonicalize [OF rs] by (auto simp: directory_of_def)
      with missing.hyps c show False by (auto simp: symlink_metadata_snoc)
    qed
  qed
  with missing show ?case by (simp add: settled_snoc)
next
  case (through p t r)
  then show ?case using link_resolves [OF through.hyps(1)] by blast
qed

lemma settled_creates: "fs_wf fs \<Longrightarrow> settled fs r \<Longrightarrow> (\<And>t. node_at fs r \<noteq> Some (NLink t)) \<Longrightarrow> creates fs r r"
proof (induction r rule: rev_induct)
  case Nil
  then show ?case by (intro creates.here) simp
next
  case (snoc x r)
  have r: "settled fs r" "x \<noteq> ''..''" "node_at fs r = Some NDir \<or> node_at fs r = None"
    using snoc.prems(2) by (auto simp: settled_snoc)
  show ?case
  proof (cases "node_at fs (r @ [x])")
    case None
    have "symlink_metadata fs (r @ [x]) = Inl KNotFound"
      using settled_entry [OF snoc.prems(1,2)] None by (simp add: symlink_metadata_def)
    with snoc r show ?thesis by (intro creates.missing) auto
  next
    case (Some n)
    then have "dir_path fs r" using fs_wf_butlast [OF snoc.prems(1) Some] r(1) settled_dir [OF snoc.prems(1)] by simp
    then have "resolves fs [] (r @ [x]) (r @ [x])"
      using Some snoc.prems(3) r(2) by (cases n) (auto simp: resolves_root resolves_Cons_iff)
    then show ?thesis by (rule creates.here)
  qed
qed


section \<open>What the calls change\<close>

lemma node_at_put [simp]: "q \<noteq> [] \<Longrightarrow> node_at (fs_put q n fs) p = (if p = q then Some n else node_at fs p)"
  by (simp add: node_at_def fs_put_def update_conv)

lemma node_at_del [simp]: "q \<noteq> [] \<Longrightarrow> node_at (fs_del q fs) p = (if p = q then None else node_at fs p)"
  by (simp add: node_at_def fs_del_def delete_conv)

lemma map_of_filter_key: "map_of (filter (\<lambda>(k, _). P k) al) q = (if P q then map_of al q else None)"
  by (induction al) auto

lemma node_at_prune: "node_at (filter (\<lambda>(k, _). \<not> prefix q k) fs) p = (if p \<noteq> [] \<and> prefix q p then None else node_at fs p)"
  by (auto simp: node_at_def map_of_filter_key)

lemma fs_wf_put:
  assumes "fs_wf fs" and "q \<noteq> []" and "node_at fs (butlast q) = Some NDir" and "node_at fs q \<noteq> Some NDir \<or> n = NDir"
  shows "fs_wf (fs_put q n fs)"
  unfolding fs_wf_def
proof (intro allI impI)
  fix p assume p: "node_at (fs_put q n fs) p \<noteq> None"
  show "node_at (fs_put q n fs) (butlast p) = Some NDir"
  proof (cases "p = q")
    case True
    have "butlast q \<noteq> q" using assms(2) by (metis append_butlast_last_id not_Cons_self2 append_self_conv)
    with True assms show ?thesis by simp
  next
    case False
    with p assms have "node_at fs (butlast p) = Some NDir" by (auto simp: fs_wf_def)
    with assms show ?thesis by auto
  qed
qed

lemma fs_wf_del:
  assumes "fs_wf fs" and "q \<noteq> []" and "\<And>p. p \<noteq> [] \<Longrightarrow> butlast p = q \<Longrightarrow> node_at fs p = None"
  shows "fs_wf (fs_del q fs)"
  unfolding fs_wf_def
proof (intro allI impI)
  fix p assume p: "node_at (fs_del q fs) p \<noteq> None"
  then have n: "node_at fs p \<noteq> None" using assms(2) by (auto split: if_splits)
  then have "node_at fs (butlast p) = Some NDir" using assms(1) by (simp add: fs_wf_def)
  moreover have "butlast p \<noteq> q" using assms(3) [of p] assms(2) n by (cases p) auto
  ultimately show "node_at (fs_del q fs) (butlast p) = Some NDir" using assms(2) by simp
qed

lemma file_no_children:
  assumes "fs_wf fs" and "node_at fs q \<noteq> Some NDir" and "p \<noteq> []" and "butlast p = q"
  shows "node_at fs p = None"
  using assms by (auto simp: fs_wf_def)

lemma children_mem: "x \<in> set (children fs d) \<longleftrightarrow> map_of fs (d @ [x]) \<noteq> None"
proof -
  have "x \<in> set (children fs d) \<longleftrightarrow> d @ [x] \<in> fst ` set (AList.clearjunk fs)"
    unfolding children_def by (auto simp: image_iff) (metis append_butlast_last_id fst_conv snoc_eq_iff_butlast)+
  also have "\<dots> \<longleftrightarrow> map_of fs (d @ [x]) \<noteq> None"
    by (simp add: dom_clearjunk map_of_eq_None_iff)
  finally show ?thesis .
qed

lemma fs_wf_prune:
  assumes "fs_wf fs" and "q \<noteq> []"
  shows "fs_wf (filter (\<lambda>(k, _). \<not> prefix q k) fs)"
  unfolding fs_wf_def
proof (intro allI impI)
  fix p assume p: "node_at (filter (\<lambda>(k, _). \<not> prefix q k) fs) p \<noteq> None"
  then have n: "p = [] \<or> \<not> prefix q p" "node_at fs p \<noteq> None" by (auto simp: node_at_prune split: if_splits)
  then have "butlast p = [] \<or> \<not> prefix q (butlast p)"
    by (metis butlast.simps(1) prefix_order.trans prefixeq_butlast)
  with n assms(1) show "node_at (filter (\<lambda>(k, _). \<not> prefix q k) fs) (butlast p) = Some NDir"
    by (auto simp: node_at_prune fs_wf_def)
qed

text \<open>
  New directories on the way to \<open>r\<close>, all inside \<open>b\<close>, and nothing else.
\<close>

definition grows :: "npath \<Rightarrow> npath \<Rightarrow> nfs \<Rightarrow> nfs \<Rightarrow> bool" where
  "grows b r fs fs' \<longleftrightarrow> (\<forall>q. node_at fs' q = node_at fs q \<or>
     (prefix b q \<and> prefix q r \<and> node_at fs q = None \<and> node_at fs' q = Some NDir))"

lemma grows_refl [simp]: "grows b r fs fs"
  by (simp add: grows_def)

lemma grows_trans: "grows b r fs fs' \<Longrightarrow> grows b r' fs' fs'' \<Longrightarrow> prefix r r' \<Longrightarrow> grows b r' fs fs''"
  unfolding grows_def by (metis option.distinct(1) prefix_order.trans)

lemma grows_put: "q \<noteq> [] \<Longrightarrow> prefix b q \<Longrightarrow> node_at fs q = None \<Longrightarrow> grows b q fs (fs_put q NDir fs)"
  by (simp add: grows_def)

lemma resolves_mono:
  assumes "resolves fs cur p q" and "grows b r fs fs'"
  shows "resolves fs' cur p q"
  using assms
proof (induction rule: resolves.induct)
  case (into c cur rest q)
  then have "node_at fs' (cur @ [c]) = Some NDir" unfolding grows_def by (metis option.distinct(1))
  with into show ?case by (auto intro: resolves.into)
next
  case (at_file c cur x)
  then have "node_at fs' (cur @ [c]) = Some (NFile x)" unfolding grows_def by (metis option.distinct(1))
  with at_file show ?case by (auto intro: resolves.at_file)
next
  case (link c cur t rest q)
  then have "node_at fs' (cur @ [c]) = Some (NLink t)" unfolding grows_def by (metis option.distinct(1))
  with link show ?case by (auto intro: resolves.link)
qed (auto intro: resolves.intros)

lemma dir_path_mono: "dir_path fs d \<Longrightarrow> grows b r fs fs' \<Longrightarrow> dir_path fs' d"
  unfolding dir_path_def grows_def by (metis option.distinct(1))


lemma create_dir_Inr:
  "create_dir fs p = Inr fs' \<longleftrightarrow> (\<exists>q. entry_of fs p = Inr q \<and> node_at fs q = None \<and> fs' = fs_put q NDir fs)"
  by (auto simp: create_dir_def split: sum.splits)

lemma create_dir_NotFound: "create_dir fs p = Inl KNotFound \<Longrightarrow> symlink_metadata fs p = Inl KNotFound"
  by (auto simp: create_dir_def symlink_metadata_def split: sum.splits if_splits)

lemma creates_missingE:
  assumes "creates fs p r" and "symlink_metadata fs p = Inl KNotFound"
  shows "resolves fs [] p r \<or> (\<exists>p' x r'. p = p' @ [x] \<and> r = r' @ [x] \<and> x \<noteq> ''..'' \<and> creates fs p' r')"
  using assms by (auto elim: creates.cases)

lemma entry_of_snoc:
  "x \<noteq> ''..'' \<Longrightarrow> entry_of fs (p @ [x]) = Inr q \<longleftrightarrow> (\<exists>d. directory_of fs p = Inr d \<and> q = d @ [x])"
  by (auto simp: entry_of_def split: sum.splits)

lemma symlink_metadata_Nil: "symlink_metadata fs [] = Inr NDir"
  by (simp add: symlink_metadata_def entry_of_def canonicalize_def)

lemma creates_absent:
  assumes "fs_wf fs" and "creates fs p r" and "symlink_metadata fs p = Inl KNotFound"
  obtains p' x r' where "p = p' @ [x]" "r = r' @ [x]" "x \<noteq> ''..''" "creates fs p' r'" "node_at fs r = None"
proof -
  have nr: "\<not> resolves fs [] p q" for q
  proof
    assume rs: "resolves fs [] p q"
    show False
    proof (cases "p = [] \<or> last p = ''..''")
      case True
      with assms(3) resolves_canonicalize [OF rs] canonical_node [OF resolves_canonical [OF rs]]
      show False by (auto simp: symlink_metadata_def entry_of_def)
    next
      case False
      then obtain p' x where "p = p' @ [x]" "x \<noteq> ''..''" by (cases p rule: rev_cases) auto
      with assms(3) rs missing_not_resolved [OF assms(1)] show False by blast
    qed
  qed
  moreover from this creates_shape [OF assms(1,2)] have "node_at fs r = None" by blast
  ultimately show thesis using that creates_missingE [OF assms(2,3)] by blast
qed

text \<open>One \<open>mkdir\<close> at a path whose place of creation is known.\<close>

lemma create_dir_creates:
  assumes "fs_wf fs" and "creates fs p r" and "create_dir fs p = Inr fs'" and "prefix b r"
  shows "fs' = fs_put r NDir fs \<and> node_at fs r = None \<and> grows b r fs fs' \<and> fs_wf fs' \<and>
     resolves fs' [] p r \<and> node_at fs' r = Some NDir"
proof -
  from assms(3) obtain q where q: "entry_of fs p = Inr q" "node_at fs q = None" "fs' = fs_put q NDir fs"
    by (auto simp: create_dir_Inr)
  then have nf: "symlink_metadata fs p = Inl KNotFound" by (simp add: symlink_metadata_def)
  obtain p' x r' where p: "p = p' @ [x]" "r = r' @ [x]" "x \<noteq> ''..''" and c: "creates fs p' r'"
    by (rule creates_absent [OF assms(1,2) nf])
  from q(1) p obtain d where d: "directory_of fs p' = Inr d" and qd: "q = d @ [x]" by (auto simp: entry_of_snoc)
  from d have dr: "resolves fs [] p' d" "dir_path fs d" by (auto simp: directory_of_Inr intro: canonicalize_resolves)
  with creates_resolved [OF assms(1) c] have "r' = d" by blast
  then have qr: "q = r" using p qd by simp
  have wf: "fs_wf fs'" unfolding q(3) using fs_wf_put [OF assms(1), of q NDir] dr(2) qd dir_path_node by simp
  have gr: "grows b r fs fs'" unfolding q(3) qr using assms(4) q(2) p(2) qr by (simp add: grows_put)
  have "resolves fs' [] p' d" by (rule resolves_mono [OF dr(1) gr])
  moreover have "node_at fs' d = Some NDir" using dir_path_node [OF dir_path_mono [OF dr(2) gr]] .
  ultimately have "resolves fs' [] p r"
    using p q(3) qd qr by (simp add: resolves_append resolves_Cons_iff)
  with q qr wf gr p(2) show ?thesis by simp
qed

text \<open>The second attempt of \<open>create_dir_all\<close>, after the parent has been created.\<close>

lemma create_dir_retry:
  assumes "fs_wf fs" and "resolves fs [] p r" and "node_at fs r = Some NDir" and "node_at fs (r @ [x]) = None"
    and "x \<noteq> ''..''" and "prefix b (r @ [x])"
  shows "\<not> is_dir fs (p @ [x])"
    and "create_dir fs (p @ [x]) = Inr fs' \<Longrightarrow> grows b (r @ [x]) fs fs' \<and> fs_wf fs' \<and>
       resolves fs' [] (p @ [x]) (r @ [x]) \<and> node_at fs' (r @ [x]) = Some NDir"
proof -
  show "\<not> is_dir fs (p @ [x])"
    using assms(2-5) canonicalize_resolves [of fs "p @ [x]"]
    by (auto simp: is_dir_def metadata_of_def resolves_append resolves_Cons_iff split: sum.splits)
  assume c: "create_dir fs (p @ [x]) = Inr fs'"
  then have "symlink_metadata fs (p @ [x]) = Inl KNotFound"
    by (auto simp: create_dir_Inr symlink_metadata_def)
  then have "creates fs (p @ [x]) (r @ [x])"
    using creates.missing [OF assms(5) creates.here [OF assms(2)]] by simp
  from create_dir_creates [OF assms(1) this c assms(6)]
  show "grows b (r @ [x]) fs fs' \<and> fs_wf fs' \<and>
       resolves fs' [] (p @ [x]) (r @ [x]) \<and> node_at fs' (r @ [x]) = Some NDir" by blast
qed

lemma is_dir_creates:
  assumes "fs_wf fs" and "creates fs p r" and "is_dir fs p"
  shows "resolves fs [] p r \<and> node_at fs r = Some NDir"
  using assms(3) creates_resolved [OF assms(1,2)] canonicalize_resolves
  by (fastforce simp: is_dir_def metadata_of_def split: sum.splits option.splits)

lemma grows_beside: "grows b r fs fs' \<Longrightarrow> node_at fs (r @ [x]) = None \<Longrightarrow> node_at fs' (r @ [x]) = None"
  unfolding grows_def by (metis append_Nil2 not_Cons_self2 prefixI prefix_order.antisym same_append_eq)

lemma create_dir_all_creates:
  assumes "fs_wf fs" and "creates fs p r" and "dir_path fs b" and "prefix b r"
    and "create_dir_all fs p = (res, fs')"
  shows "grows b r fs fs' \<and> fs_wf fs' \<and> (res = None \<longrightarrow> resolves fs' [] p r \<and> node_at fs' r = Some NDir)"
  using assms
proof (induction fs p arbitrary: r res fs' rule: create_dir_all.induct)
  case (1 fs p)
  note unf = create_dir_all.simps [of fs p]
  consider (made) fs1 where "create_dir fs p = Inr fs1" | (other) e where "create_dir fs p = Inl e" "e \<noteq> KNotFound"
    | (parent) "create_dir fs p = Inl KNotFound"
    by (cases "create_dir fs p") auto
  then show ?case
  proof cases
    case made
    with create_dir_creates [OF "1.prems"(1,2) _ "1.prems"(4)] "1.prems"(5) show ?thesis by (auto simp: unf)
  next
    case (other e)
    with "1.prems"(5) have "fs' = fs" "res = None \<Longrightarrow> is_dir fs p" by (auto simp: unf split: if_splits)
    with is_dir_creates [OF "1.prems"(1,2)] "1.prems"(1) show ?thesis by auto
  next
    case parent
    then have "symlink_metadata fs p = Inl KNotFound" by (rule create_dir_NotFound)
    then obtain p' x r' where p: "p = p' @ [x]" "r = r' @ [x]" "x \<noteq> ''..''" and c: "creates fs p' r'"
        and none: "node_at fs r = None"
      by (rule creates_absent [OF "1.prems"(1,2)])
    have b: "prefix b r'" using "1.prems"(4) none dir_path_node [OF "1.prems"(3)] p(2) by (auto simp: prefix_snoc)
    note unfp = create_dir_all.simps [of fs "p' @ [x]"]
    obtain res1 fs1 where rec: "create_dir_all fs p' = (res1, fs1)" by force
    have ih: "grows b r' fs fs1 \<and> fs_wf fs1 \<and> (res1 = None \<longrightarrow> resolves fs1 [] p' r' \<and> node_at fs1 r' = Some NDir)"
      using "1.IH" [OF parent, of r' res1 fs1] p c "1.prems"(1,3) b rec by simp
    have g: "grows b r fs fs1" using ih p(2) grows_trans [of b r' fs fs1 r fs1] by simp
    show ?thesis
    proof (cases res1)
      case (Some e')
      with parent rec p(1) "1.prems"(5) have "res = Some e'" "fs' = fs1" by (auto simp: unfp)
      with g ih show ?thesis by simp
    next
      case None
      have none1: "node_at fs1 (r' @ [x]) = None" using grows_beside ih none p(2) by blast
      have r1: "fs_wf fs1" "resolves fs1 [] p' r'" "node_at fs1 r' = Some NDir" using ih None by auto
      have px: "prefix b (r' @ [x])" using "1.prems"(4) p(2) by simp
      note retry = create_dir_retry [OF r1 none1 p(3) px]
      show ?thesis
      proof (cases "create_dir fs1 p")
        case (Inl e')
        with parent rec None p(1) retry(1) "1.prems"(5) have "res = Some e'" "fs' = fs1" by (auto simp: unfp)
        with g r1(1) show ?thesis by simp
      next
        case (Inr fs2)
        with parent rec None p(1) "1.prems"(5) have "fs' = fs2" by (auto simp: unfp)
        with retry(2) Inr p g show ?thesis by (auto intro: grows_trans)
      qed
    qed
  qed
qed


section \<open>Changes below a directory\<close>

definition only_below :: "npath \<Rightarrow> nfs \<Rightarrow> nfs \<Rightarrow> bool" where
  "only_below b fs fs' \<longleftrightarrow> (\<forall>q. \<not> strict_prefix b q \<longrightarrow> node_at fs' q = node_at fs q)"

lemma only_below_refl [simp]: "only_below b fs fs"
  by (simp add: only_below_def)

lemma only_below_trans: "only_below b fs fs' \<Longrightarrow> only_below b fs' fs'' \<Longrightarrow> only_below b fs fs''"
  by (simp add: only_below_def)

lemma grows_only_below: "grows b r fs fs' \<Longrightarrow> node_at fs b \<noteq> None \<Longrightarrow> only_below b fs fs'"
  unfolding grows_def only_below_def by (metis prefix_order.le_imp_less_or_eq)

lemma only_below_put: "strict_prefix b q \<Longrightarrow> only_below b fs (fs_put q n fs)"
  by (cases "q = []") (auto simp: only_below_def)

lemma only_below_del: "strict_prefix b q \<Longrightarrow> only_below b fs (fs_del q fs)"
  by (cases "q = []") (auto simp: only_below_def)

lemma only_below_prune: "strict_prefix b q \<Longrightarrow> only_below b fs (filter (\<lambda>(k, _). \<not> prefix q k) fs)"
  by (auto simp: only_below_def node_at_prune dest: prefix_order.less_le_trans)

lemma only_below_dir: "only_below b fs fs' \<Longrightarrow> dir_path fs d \<Longrightarrow> \<not> strict_prefix b d \<Longrightarrow> dir_path fs' d"
  unfolding only_below_def dir_path_def by (metis prefix_order.less_le_trans)

lemma settled_write:
  assumes "fs_wf fs" and "settled fs r" and "\<And>t. node_at fs r \<noteq> Some (NLink t)"
  shows "fs_write fs r bytes =
     (if r = [] \<or> node_at fs r = Some NDir then Inl KIsADirectory
      else if node_at fs (butlast r) = Some NDir then Inr (fs_put r (NFile bytes) fs)
      else Inl KNotFound)"
proof (cases r rule: rev_cases)
  case (snoc d x)
  show ?thesis
  proof (cases "node_at fs d = Some NDir")
    case True
    with assms snoc have d: "dir_path fs d" "x \<noteq> ''..''" by (auto simp: settled_snoc intro: settled_dir)
    have "walk fs True max_links [] r = Inr r"
      using walk_dir_path [of fs "[]" d True max_links "[x]"] d assms(3) snoc
      by (auto split: option.splits node.splits)
    with True snoc show ?thesis by (simp add: fs_write_def)
  next
    case False
    with assms snoc have "node_at fs d = None" "settled fs d" by (auto simp: settled_snoc)
    with settled_walk_missing [OF assms(1), of d "[x]"] snoc
    have "fs_write fs r bytes = Inl KNotFound" by (simp add: fs_write_def)
    moreover have "node_at fs r \<noteq> Some NDir" using fs_wf_butlast [OF assms(1), of r NDir] False snoc by auto
    ultimately show ?thesis using False snoc by simp
  qed
qed (simp add: fs_write_def)

lemma settled_entry_Inr:
  assumes "fs_wf fs" and "settled fs r" and "entry_of fs r = Inr q"
  shows "q = r" and "node_at fs (butlast r) = Some NDir"
  using assms(3) settled_entry [OF assms(1,2)] by (auto split: if_splits)

lemma remove_file_settled:
  assumes "fs_wf fs" and "settled fs r" and "remove_file fs r = Inr fs'" and "strict_prefix b r"
  shows "r \<noteq> [] \<and> node_at fs r \<noteq> Some NDir \<and> fs' = fs_del r fs \<and> fs_wf fs' \<and> only_below b fs fs'"
proof -
  from assms(3) have r: "r \<noteq> []" "node_at fs r \<noteq> Some NDir" "fs' = fs_del r fs"
    using settled_entry_Inr [OF assms(1,2)]
    by (auto simp: remove_file_def split: sum.splits option.splits node.splits)
  then show ?thesis
    using fs_wf_del [OF assms(1) r(1)] file_no_children [OF assms(1) r(2)] only_below_del [OF assms(4)] by auto
qed

lemma remove_dir_settled:
  assumes "fs_wf fs" and "settled fs r" and "r \<noteq> []" and "remove_dir fs r = Inr fs'" and "strict_prefix b r"
  shows "fs' = fs_del r fs \<and> node_at fs r = Some NDir \<and> fs_wf fs' \<and> only_below b fs fs'"
proof -
  from assms(4) have r: "children fs r = []" "fs' = fs_del r fs" "node_at fs r = Some NDir"
    using settled_entry_Inr [OF assms(1,2)]
    by (auto simp: remove_dir_def split: sum.splits option.splits node.splits if_splits)
  have "node_at fs p = None" if "p \<noteq> []" "butlast p = r" for p
  proof -
    have "last p \<notin> set (children fs r)" using r(1) by simp
    with that show ?thesis by (auto simp: children_mem node_at_def)
  qed
  with r assms(3) show ?thesis
    using fs_wf_del [OF assms(1) assms(3)] only_below_del [OF assms(5)] by simp
qed

lemma remove_dir_all_settled:
  assumes "fs_wf fs" and "settled fs r" and "r \<noteq> []" and "node_at fs r = Some NDir"
    and "remove_dir_all fs r = Inr fs'" and "strict_prefix b r"
  shows "fs' = filter (\<lambda>(k, _). \<not> prefix r k) fs \<and> fs_wf fs' \<and> only_below b fs fs'"
proof -
  from assms(4,5) have "fs' = filter (\<lambda>(k, _). \<not> prefix r k) fs"
    using settled_entry_Inr [OF assms(1,2)]
    by (auto simp: remove_dir_all_def split: sum.splits option.splits node.splits)
  then show ?thesis using fs_wf_prune [OF assms(1,3)] only_below_prune [OF assms(6)] by simp
qed

end
