(* ===== verification/Supervisor_Paths.thy ===== *)
theory Supervisor_Paths
  imports Native_Fs Tool_Paths Rust_Text "HOL-Library.Char_ord" "HOL-Library.List_Lexorder"
begin

text \<open>
  The supervisor's path resolver (\<open>path_resolver.rs\<close>) with its errors (\<open>error.rs\<close>) and
  configuration (\<open>config.rs\<close>): execution paths are mapped below the canonical path of their root,
  links are followed by the operating system or, for creation, step by step, and every result
  is checked to lie below the root.
\<close>

section \<open>Configuration and errors\<close>

record supervisor_root =
  sr_id :: string
  sr_name :: string
  sr_path :: npath
  sr_read_only :: bool

record supervisor_limits =
  lim_read_bytes :: nat
  lim_write_bytes :: nat
  lim_process_read_bytes :: nat
  lim_process_input_bytes :: nat
  lim_concurrent_processes :: nat
  lim_output_chunk_bytes :: nat
  lim_retention_ms :: nat
  lim_grace_ms :: nat

definition supervisor_limits_default :: supervisor_limits where
  "supervisor_limits_default = \<lparr>lim_read_bytes = 16 * 1024 * 1024, lim_write_bytes = 16 * 1024 * 1024,
     lim_process_read_bytes = 4 * 1024 * 1024, lim_process_input_bytes = 1024 * 1024,
     lim_concurrent_processes = 64, lim_output_chunk_bytes = 16 * 1024,
     lim_retention_ms = 15 * 60 * 1000, lim_grace_ms = 2 * 1000\<rparr>"

datatype init_error = InvalidConfiguration string | InitIo io_kind

record root_entry =
  entry_descriptor :: execution_root
  canonical_path :: npath

text \<open>
  The resolver with what its messages need: \<open>io_text\<close> is the text of an operating system
  error and \<open>issues_text\<close> the text of a validation error.
\<close>

record path_resolver =
  resolver_roots :: "(string \<times> root_entry) list"
  io_text :: "io_kind \<Rightarrow> string"
  issues_text :: "validation_error \<Rightarrow> string"

text \<open>\<open>Path::display\<close> and \<open>to_string_lossy\<close>: a native path is bytes, its text is UTF-8.\<close>

definition display_path :: "npath \<Rightarrow> string" where
  "display_path p = utf8_lossy (''/'' @ join ''/'' p)"

fun io_code :: "io_kind \<Rightarrow> error_code" where
  "io_code KNotFound = NotFound"
| "io_code KAlreadyExists = AlreadyExists"
| "io_code KPermissionDenied = PermissionDenied"
| "io_code KInvalidInput = InvalidRequest"
| "io_code KInvalidData = InvalidRequest"
| "io_code KTimedOut = DeadlineExceeded"
| "io_code _ = Io"

definition io_error :: "path_resolver \<Rightarrow> npath \<Rightarrow> io_kind \<Rightarrow> exec_error" where
  "io_error rs p k = exec_error_new (io_code k) (display_path p @ '': '' @ io_text rs k)"

definition invalid_request :: "string \<Rightarrow> exec_error" where
  "invalid_request m = exec_error_new InvalidRequest m"

definition operation_conflict :: "string \<Rightarrow> exec_error" where
  "operation_conflict m = exec_error_new OperationConflict m"

text \<open>\<open>map_err(|source| io_error(path, source))\<close>.\<close>

definition native :: "path_resolver \<Rightarrow> npath \<Rightarrow> 'a io_result \<Rightarrow> 'a exec_result" where
  "native rs p r = (case r of Inl k \<Rightarrow> Inl (Fail (io_error rs p k)) | Inr x \<Rightarrow> Inr x)"

section \<open>Roots\<close>

definition resolver_entry :: "nfs \<Rightarrow> supervisor_root \<Rightarrow> init_error + root_entry" where
  "resolver_entry fs root =
     (if trim (sr_name root) = []
      then Inl (InvalidConfiguration (''execution root `'' @ sr_id root @ ''` has an empty name''))
      else case canonicalize fs (sr_path root) of
        Inl k \<Rightarrow> Inl (InitIo k)
      | Inr canon \<Rightarrow> (case metadata_of fs canon of
          Inl k \<Rightarrow> Inl (InitIo k)
        | Inr n \<Rightarrow>
            if n \<noteq> NDir
            then Inl (InvalidConfiguration
                   (''execution root '' @ display_path (sr_path root) @ '' is not a directory''))
            else Inr \<lparr>entry_descriptor = \<lparr>root_identifier = sr_id root, root_name = sr_name root,
                        native_path = display_path canon, read_only = sr_read_only root\<rparr>,
                      canonical_path = canon\<rparr>))"

fun resolver_entries ::
  "nfs \<Rightarrow> (string \<times> root_entry) list \<Rightarrow> supervisor_root list \<Rightarrow> init_error + (string \<times> root_entry) list" where
  "resolver_entries fs entries [] = Inr entries"
| "resolver_entries fs entries (root # rest) = (case resolver_entry fs root of
     Inl e \<Rightarrow> Inl e
   | Inr entry \<Rightarrow>
       if map_of entries (sr_id root) \<noteq> None
       then Inl (InvalidConfiguration ''execution root identifiers must be unique'')
       else resolver_entries fs (entries @ [(sr_id root, entry)]) rest)"

definition resolver_new ::
  "(io_kind \<Rightarrow> string) \<Rightarrow> (validation_error \<Rightarrow> string) \<Rightarrow> nfs \<Rightarrow> supervisor_root list \<Rightarrow> init_error + path_resolver" where
  "resolver_new io_texts issues_texts fs rts =
     (if rts = [] then Inl (InvalidConfiguration ''at least one execution root is required'')
      else case resolver_entries fs [] rts of
        Inl e \<Rightarrow> Inl e
      | Inr entries \<Rightarrow> Inr \<lparr>resolver_roots = entries, io_text = io_texts, issues_text = issues_texts\<rparr>)"

definition descriptors :: "path_resolver \<Rightarrow> execution_root list" where
  "descriptors rs = sort_key root_identifier (map (\<lambda>(_, e). entry_descriptor e) (resolver_roots rs))"

section \<open>Resolution\<close>

definition ensure_contained :: "npath \<Rightarrow> npath \<Rightarrow> unit exec_result" where
  "ensure_contained p boundary =
     (if prefix boundary p then Inr ()
      else Inl (Fail (exec_error_new PathOutsideRoot
             (''resolved path '' @ display_path p @ '' escapes execution root '' @ display_path boundary))))"

definition candidate :: "path_resolver \<Rightarrow> exec_path \<Rightarrow> (npath \<times> npath \<times> bool) exec_result" where
  "candidate rs spec = (case exec_path_validate spec of
     Inl issues \<Rightarrow> Inl (Fail (exec_error_new InvalidPath (''invalid execution path: '' @ issues_text rs issues)))
   | Inr _ \<Rightarrow> (case map_of (resolver_roots rs) (root_id spec) of
       None \<Rightarrow> Inl (Fail (exec_error_new RootNotFound
                 (''execution root `'' @ root_id spec @ ''` was not found'')))
     | Some root \<Rightarrow>
         Inr (canonical_path root @ path_components (path spec), canonical_path root,
              read_only (entry_descriptor root))))"

text \<open>The canonical parent of a path, checked, joined with the name of the path.\<close>

definition below_parent :: "path_resolver \<Rightarrow> nfs \<Rightarrow> npath \<Rightarrow> npath \<Rightarrow> npath exec_result" where
  "below_parent rs fs cand boundary =
     (if cand = [] then Inl (Fail (exec_error_new InvalidPath ''path has no parent''))
      else rbind (native rs (butlast cand) (canonicalize fs (butlast cand))) (\<lambda>parent.
           rbind (ensure_contained parent boundary) (\<lambda>_.
           if last cand = ''..'' then Inl (Fail (exec_error_new InvalidPath ''path has no file name''))
           else Inr (parent @ [last cand]))))"

definition resolve_existing :: "path_resolver \<Rightarrow> nfs \<Rightarrow> exec_path \<Rightarrow> bool \<Rightarrow> npath exec_result" where
  "resolve_existing rs fs spec follow_final =
     rbind (candidate rs spec) (\<lambda>(cand, boundary, _).
     rbind (if follow_final \<or> cand = boundary then native rs cand (canonicalize fs cand)
            else rbind (below_parent rs fs cand boundary) (\<lambda>p.
                 rbind (native rs p (symlink_metadata fs p)) (\<lambda>_. Inr p))) (\<lambda>p.
     rbind (ensure_contained p boundary) (\<lambda>_. Inr p)))"

function existing_ancestor :: "nfs \<Rightarrow> npath \<Rightarrow> string list \<Rightarrow> (npath \<times> string list) exec_result" where
  "existing_ancestor fs ancestor missing = (case symlink_metadata fs ancestor of
     Inr _ \<Rightarrow> Inr (ancestor, missing)
   | Inl _ \<Rightarrow>
       if ancestor = [] \<or> last ancestor = ''..''
       then Inl (Fail (exec_error_new InvalidPath ''path has no existing ancestor''))
       else existing_ancestor fs (butlast ancestor) (last ancestor # missing))"
  by pat_completeness auto
termination by (relation "measure (\<lambda>(_, p, _). length p)") auto

declare existing_ancestor.simps [simp del]

definition resolve_through_existing_ancestor ::
  "path_resolver \<Rightarrow> nfs \<Rightarrow> npath \<Rightarrow> npath \<Rightarrow> npath exec_result" where
  "resolve_through_existing_ancestor rs fs cand boundary =
     rbind (existing_ancestor fs cand []) (\<lambda>(ancestor, missing).
     rbind (native rs ancestor (canonicalize fs ancestor)) (\<lambda>resolved.
     rbind (ensure_contained resolved boundary) (\<lambda>_. Inr (resolved @ missing))))"

definition read_only_error :: "exec_path \<Rightarrow> exec_error" where
  "read_only_error spec = exec_error_new ReadOnlyRoot (''execution root `'' @ root_id spec @ ''` is read-only'')"

definition resolve_for_write :: "path_resolver \<Rightarrow> nfs \<Rightarrow> exec_path \<Rightarrow> bool \<Rightarrow> npath exec_result" where
  "resolve_for_write rs fs spec follow_final =
     rbind (candidate rs spec) (\<lambda>(cand, boundary, ro).
     if ro then Inl (Fail (read_only_error spec))
     else rbind (case symlink_metadata fs cand of
         Inr _ \<Rightarrow> (if follow_final then native rs cand (canonicalize fs cand)
                   else below_parent rs fs cand boundary)
       | Inl k \<Rightarrow> (if k = KNotFound then resolve_through_existing_ancestor rs fs cand boundary
                   else Inl (Fail (io_error rs cand k)))) (\<lambda>p.
     rbind (ensure_contained p boundary) (\<lambda>_. Inr p)))"

function resolve_for_creation ::
  "path_resolver \<Rightarrow> nfs \<Rightarrow> npath \<Rightarrow> npath \<Rightarrow> nat \<Rightarrow> npath exec_result" where
  "resolve_for_creation rs fs cand boundary links =
     (if 40 < links
      then Inl (Fail (exec_error_new InvalidPath ''too many symbolic links in write path''))
      else rbind (case symlink_metadata fs cand of
          Inr (NLink t) \<Rightarrow>
            (if cand = [] then Inl (Fail (exec_error_new InvalidPath ''link has no parent''))
             else resolve_for_creation rs fs
                    ((if is_absolute t then [] else butlast cand) @ link_components t) boundary (links + 1))
        | Inr _ \<Rightarrow> native rs cand (canonicalize fs cand)
        | Inl k \<Rightarrow>
            if k \<noteq> KNotFound then Inl (Fail (io_error rs cand k))
            else if cand = [] then Inl (Fail (exec_error_new InvalidPath ''path has no existing ancestor''))
            else if last cand = ''..'' then Inl (Fail (exec_error_new InvalidPath ''path has no file name''))
            else rbind (resolve_for_creation rs fs (butlast cand) boundary links)
                   (\<lambda>parent. Inr (parent @ [last cand]))) (\<lambda>resolved.
        rbind (ensure_contained resolved boundary) (\<lambda>_. Inr resolved)))"
  by pat_completeness auto
termination
  by (relation "measures [\<lambda>(_, _, _, _, links). 41 - links, \<lambda>(_, _, cand, _, _). length cand]") auto

declare resolve_for_creation.simps [simp del]

definition resolve_for_in_place_write :: "path_resolver \<Rightarrow> nfs \<Rightarrow> exec_path \<Rightarrow> npath exec_result" where
  "resolve_for_in_place_write rs fs spec =
     rbind (candidate rs spec) (\<lambda>(cand, boundary, ro).
     if ro then Inl (Fail (read_only_error spec))
     else resolve_for_creation rs fs cand boundary 0)"

definition resolve_for_directory_creation :: "path_resolver \<Rightarrow> nfs \<Rightarrow> exec_path \<Rightarrow> npath exec_result" where
  "resolve_for_directory_creation rs fs spec =
     rbind (resolve_for_in_place_write rs fs spec) (\<lambda>_.
     rbind (candidate rs spec) (\<lambda>(p, _, _). Inr p))"


section \<open>Where resolved paths lie\<close>

lemma walk_error_append: "walk fs False n cur p = Inl k \<Longrightarrow> walk fs False n cur (p @ rest) = Inl k"
proof (induction fs "False" n cur p rule: walk.induct)
  case (2 fs n cur c r)
  then show ?case by (auto split: if_splits option.splits node.splits)
qed simp

lemma walk_file_append:
  "walk fs False n cur p = Inr q \<Longrightarrow> fs_wf fs \<Longrightarrow> node_at fs cur = Some NDir \<Longrightarrow> node_at fs q = Some (NFile x) \<Longrightarrow>
     rest \<noteq> [] \<Longrightarrow> walk fs False n cur (p @ rest) = Inl KNotADirectory"
proof (induction fs "False" n cur p rule: walk.induct)
  case (2 fs n cur c r)
  then show ?case
    by (auto split: if_splits option.splits node.splits dest: fs_wf_butlast)
qed simp

lemma absent_parent:
  assumes wf: "fs_wf fs" and y: "symlink_metadata fs ((a @ [x]) @ [y]) = Inl KNotFound" "y \<noteq> ''..''"
    and k: "symlink_metadata fs (a @ [x]) = Inl k" "x \<noteq> ''..''"
  shows "k = KNotFound"
proof (cases "directory_of fs a")
  case (Inr d)
  with k show ?thesis by (auto simp: symlink_metadata_snoc split: option.splits)
next
  case (Inl k')
  with k have "directory_of fs a = Inl k" by (simp add: symlink_metadata_snoc)
  then have "canonicalize fs (a @ [x]) = Inl k"
    using walk_error_append [of fs max_links "[]" a k "[x]"] walk_file_append [of fs max_links "[]" a _ _ "[x]"] wf
      canonical_node [OF canonicalize_canonical, of fs a]
    by (auto simp: directory_of_def canonicalize_def split: sum.splits if_splits)
  then have "directory_of fs (a @ [x]) = Inl k" by (simp add: directory_of_def)
  with symlink_metadata_snoc [OF y(2), of fs "a @ [x]"] y(1) show ?thesis by simp
qed

lemma native_Inr [simp]: "native rs p r = Inr x \<longleftrightarrow> r = Inr x"
  by (auto simp: native_def split: sum.splits)

lemma ensure_contained_Inr [simp]: "ensure_contained p b = Inr u \<longleftrightarrow> prefix b p"
  by (simp add: ensure_contained_def)

lemma canonicalize_creates: "canonicalize fs p = Inr q \<Longrightarrow> creates fs p q"
  by (intro creates.here canonicalize_resolves)

lemma existing_ancestor_creates:
  "existing_ancestor fs p missing = Inr (anc, m) \<Longrightarrow> fs_wf fs \<Longrightarrow> canonicalize fs anc = Inr r \<Longrightarrow>
     ''..'' \<notin> set p \<Longrightarrow> symlink_metadata fs p = Inl KNotFound \<Longrightarrow>
     \<exists>ys. m = ys @ missing \<and> ys \<noteq> [] \<and> creates fs p (r @ ys)"
proof (induction fs p missing rule: existing_ancestor.induct)
  case (1 fs p missing)
  then obtain a x where p: "p = a @ [x]" by (cases p rule: rev_cases) (auto simp: symlink_metadata_Nil)
  have x: "x \<noteq> ''..''" "''..'' \<notin> set a" using "1.prems"(4) p by auto
  have rec: "existing_ancestor fs a (x # missing) = Inr (anc, m)"
    using "1.prems"(1,5) p x by (simp add: existing_ancestor.simps [of fs "a @ [x]"])
  show ?case
  proof (cases "symlink_metadata fs a")
    case (Inr n)
    with rec have "anc = a" "m = x # missing" by (auto simp: existing_ancestor.simps [of fs a])
    moreover from this have "creates fs p (r @ [x])"
      using creates.missing [OF x(1) canonicalize_creates] "1.prems"(3,5) p by simp
    ultimately show ?thesis by (intro exI [of _ "[x]"]) simp
  next
    case (Inl k)
    then obtain a' x' where a: "a = a' @ [x']" by (cases a rule: rev_cases) (auto simp: symlink_metadata_Nil)
    then have "k = KNotFound" using absent_parent "1.prems"(2,5) p x Inl by auto
    with "1.IH" [OF "1.prems"(5), of] p x rec "1.prems"(2,3) Inl obtain ys where
      "m = ys @ x # missing" "ys \<noteq> []" "creates fs a (r @ ys)" by auto
    then show ?thesis
      using creates.missing [OF x(1) \<open>creates fs a (r @ ys)\<close>] "1.prems"(5) p by (intro exI [of _ "ys @ [x]"]) simp
  qed
qed

lemma resolve_for_creation_creates:
  "resolve_for_creation rs fs cand b links = Inr r \<Longrightarrow> creates fs cand r \<and> prefix b r"
proof (induction rs fs cand b links arbitrary: r rule: resolve_for_creation.induct)
  case (1 rs fs cand b links)
  note unf = resolve_for_creation.simps [of rs fs cand b links]
  from "1.prems" have l: "\<not> 40 < links" and b: "prefix b r"
    by (auto simp: unf rbind_Inr_iff split: if_splits)
  show ?case
  proof (cases "symlink_metadata fs cand")
    case (Inl k)
    with "1.prems" l have "k = KNotFound" "cand \<noteq> []" "last cand \<noteq> ''..''"
      by (auto simp: unf rbind_Inr_iff split: if_splits)
    moreover from this Inl "1.prems" l obtain parent where
        rec: "resolve_for_creation rs fs (butlast cand) b links = Inr parent" and r: "r = parent @ [last cand]"
      by (auto simp: unf rbind_Inr_iff)
    ultimately have "creates fs (butlast cand) parent" using "1.IH"(1) [OF l Inl] by simp
    from creates.missing [OF _ this, of "last cand"] show ?thesis
      using Inl \<open>k = KNotFound\<close> \<open>cand \<noteq> []\<close> \<open>last cand \<noteq> ''..''\<close> r b by simp
  next
    case (Inr n)
    show ?thesis
    proof (cases n)
      case (NLink t)
      with Inr "1.prems" l have "cand \<noteq> []" and
          rec: "resolve_for_creation rs fs ((if is_absolute t then [] else butlast cand) @ link_components t) b (links + 1) = Inr r"
        by (auto simp: unf rbind_Inr_iff split: if_splits)
      with "1.IH"(2) [OF l Inr NLink] have "creates fs ((if is_absolute t then [] else butlast cand) @ link_components t) r" by simp
      with Inr NLink b show ?thesis by (auto intro: creates.through)
    qed (use Inr "1.prems" l b in \<open>auto simp: unf rbind_Inr_iff intro: canonicalize_creates\<close>)
  qed
qed


lemma candidate_Inr:
  "candidate rs spec = Inr (cand, b, ro) \<longleftrightarrow>
     (\<exists>e. exec_path_validate spec = Inr () \<and> map_of (resolver_roots rs) (root_id spec) = Some e \<and>
        cand = canonical_path e @ path_components (path spec) \<and> b = canonical_path e \<and>
        ro = read_only (entry_descriptor e))"
  by (auto simp: candidate_def split: sum.splits option.splits)

lemma valid_components:
  assumes "exec_path_validate spec = Inr ()"
  shows "''..'' \<notin> set (path_components (path spec))"
  using assms by (auto simp: exec_path_validate_iff portable_path_def path_components_def segment_ok_def list_all_iff)

text \<open>Every root is a directory with a canonical path.\<close>

definition roots_ok :: "path_resolver \<Rightarrow> nfs \<Rightarrow> bool" where
  "roots_ok rs fs \<longleftrightarrow> (\<forall>(_, e) \<in> set (resolver_roots rs). dir_path fs (canonical_path e))"

lemma roots_okD: "roots_ok rs fs \<Longrightarrow> map_of (resolver_roots rs) i = Some e \<Longrightarrow> dir_path fs (canonical_path e)"
  by (auto simp: roots_ok_def dest: map_of_SomeD)

lemma below_parent_Inr:
  assumes "below_parent rs fs cand b = Inr p"
  shows "\<exists>d. canonicalize fs (butlast cand) = Inr d \<and> prefix b d \<and> p = d @ [last cand] \<and> cand \<noteq> [] \<and> last cand \<noteq> ''..''"
  using assms by (auto simp: below_parent_def rbind_Inr_iff split: if_splits)

lemma existing_parent_dir:
  assumes "symlink_metadata fs (a @ [x]) = Inr n" and "x \<noteq> ''..''" and "canonicalize fs a = Inr d"
  shows "dir_path fs d \<and> node_at fs (d @ [x]) = Some n"
  using assms by (auto simp: symlink_metadata_snoc directory_of_def split: sum.splits option.splits if_splits
      intro: canonical_dir canonicalize_canonical)

lemma resolve_existing_Inr:
  assumes "resolve_existing rs fs spec fol = Inr p"
  shows "\<exists>e. map_of (resolver_roots rs) (root_id spec) = Some e \<and> prefix (canonical_path e) p \<and>
     (fol \<longrightarrow> canonical fs p \<and> canonicalize fs (canonical_path e @ path_components (path spec)) = Inr p)"
  using assms by (auto simp: resolve_existing_def rbind_Inr_iff candidate_Inr intro: canonicalize_canonical split: if_splits)

lemma resolve_for_write_Inr:
  assumes wf: "fs_wf fs" "roots_ok rs fs" and "resolve_for_write rs fs spec fol = Inr p"
  shows "\<exists>e. map_of (resolver_roots rs) (root_id spec) = Some e \<and> \<not> read_only (entry_descriptor e) \<and>
     prefix (canonical_path e) p \<and> settled fs p \<and> (\<not> fol \<longrightarrow> p \<noteq> canonical_path e)"
proof -
  from assms(3) obtain cand b where c: "candidate rs spec = Inr (cand, b, False)" and pb: "prefix b p"
      and sel: "(case symlink_metadata fs cand of
         Inr _ \<Rightarrow> (if fol then native rs cand (canonicalize fs cand) else below_parent rs fs cand b)
       | Inl k \<Rightarrow> (if k = KNotFound then resolve_through_existing_ancestor rs fs cand b
                   else Inl (Fail (io_error rs cand k)))) = Inr p"
    by (auto simp: resolve_for_write_def rbind_Inr_iff split: if_splits)
  from c obtain e where e: "map_of (resolver_roots rs) (root_id spec) = Some e" "\<not> read_only (entry_descriptor e)"
      "cand = b @ path_components (path spec)" "b = canonical_path e" and v: "exec_path_validate spec = Inr ()"
    by (auto simp: candidate_Inr)
  have nd: "''..'' \<notin> set cand"
    using valid_components [OF v] roots_okD [OF wf(2) e(1)] e(3,4) by (auto simp: dir_path_def)
  have "settled fs p \<and> (\<not> fol \<longrightarrow> p \<noteq> b)"
  proof (cases "symlink_metadata fs cand")
    case (Inl k)
    with sel have k: "k = KNotFound" by (auto split: if_splits)
    with Inl sel obtain anc m r where anc: "existing_ancestor fs cand [] = Inr (anc, m)"
        "canonicalize fs anc = Inr r" "prefix b r" "p = r @ m"
      by (auto simp: resolve_through_existing_ancestor_def rbind_Inr_iff)
    from existing_ancestor_creates [OF anc(1) wf(1) anc(2) nd] Inl k obtain ys where
        ys: "m = ys" "ys \<noteq> []" "creates fs cand (r @ ys)" by auto
    then show ?thesis using creates_shape [OF wf(1)] anc(3,4) by (auto dest: prefix_length_le)
  next
    case (Inr n)
    show ?thesis
    proof (cases fol)
      case True
      with Inr sel show ?thesis by (auto intro: canonical_settled canonicalize_canonical)
    next
      case False
      with Inr sel obtain d where d: "canonicalize fs (butlast cand) = Inr d" "prefix b d"
          "p = d @ [last cand]" "cand \<noteq> []" "last cand \<noteq> ''..''"
        using below_parent_Inr by fastforce
      with existing_parent_dir [of fs "butlast cand" "last cand" n d] Inr have "dir_path fs d" by simp
      with d show ?thesis by (auto simp: settled_snoc dir_path_settled dir_path_node dest: prefix_length_le)
    qed
  qed
  with e pb show ?thesis by blast
qed

lemma resolve_for_in_place_write_Inr:
  assumes "resolve_for_in_place_write rs fs spec = Inr r"
  shows "\<exists>e. map_of (resolver_roots rs) (root_id spec) = Some e \<and> \<not> read_only (entry_descriptor e) \<and>
     prefix (canonical_path e) r \<and> creates fs (canonical_path e @ path_components (path spec)) r"
  using assms resolve_for_creation_creates
  by (fastforce simp: resolve_for_in_place_write_def rbind_Inr_iff candidate_Inr split: if_splits)

lemma resolver_entries_ok:
  assumes "resolver_entries fs es rts = Inr es'" and "\<forall>(_, e) \<in> set es. dir_path fs (canonical_path e)"
  shows "\<forall>(_, e) \<in> set es'. dir_path fs (canonical_path e)"
  using assms
proof (induction fs es rts rule: resolver_entries.induct)
  case (2 fs es root rest)
  from "2.prems"(1) obtain e where e: "resolver_entry fs root = Inr e" by (auto split: sum.splits)
  then have "canonicalize fs (sr_path root) = Inr (canonical_path e)"
      "metadata_of fs (canonical_path e) = Inr NDir"
    by (auto simp: resolver_entry_def split: sum.splits if_splits)
  then have "dir_path fs (canonical_path e)"
    using canonicalize_canonical [of fs] canonical_dir [of fs] canonical_node [of fs] metadata_canonical [of fs]
    by (metis (no_types) sum.inject(2) node.distinct(1))
  with 2 e show ?case by (auto split: if_splits)
qed simp

end
