(* ===== verification/Process_Manager.thy ===== *)
theory Process_Manager
  imports Journal Supervisor_Paths
begin

text \<open>
  The process manager of the supervisor
  (\<open>execution/packages/execution-supervisor-core/src/process/manager.rs\<close>): sessions by execution
  identifier, a quota of live processes, idempotency records for input and control requests,
  and the tasks that record output, exits and timeouts in the journal of a session. A request
  that runs under a lock is one transition; \<open>terminate\<close>, which holds the lock of the control records
  while it looks at the journal, marks and signals the session and waits for the process to end, is three. The
  tasks are transitions of their own, so that a run interleaves them with requests in any
  order: the timer looks at the journal and fires later, and the completion flag may be loaded before the
  append it selects the state for. Two places are coarser than the code. A start inserts
  the session, counts it and appends \<open>Started\<close> in one transition, so that no other request meets a
  session that is still starting; and closing the journal and \<open>fetch_sub\<close> are one, so that the count
  falls when the session ends and not just after it. Spawning, signalling, writing to the
  child, the clock and the outcome of appends to the journal are arguments.
\<close>

section \<open>Data\<close>

datatype completion = CompletionNormal | CompletionTerminated | CompletionTimedOut

record input_record =
  ir_fingerprint :: string
  ir_status :: input_status

datatype control_result = ControlUnit | ControlTerminate bool

record control_record =
  cr_fingerprint :: string
  cr_result :: control_result

text \<open>Which ends are still held: the pipe to the child, or the master and the writer of its PTY.\<close>

datatype process_control = Piped bool | PtyControl bool bool

text \<open>The completion task of a session: waiting for the child, joining its output, done.\<close>

datatype task_phase = TaskRunning | TaskDraining "exec_error + int" | TaskFinished

text \<open>
  \<open>ps_timer\<close> says that the timer has expired and found the session running. \<open>ps_loaded\<close> is the value of
  the completion flag that the completion task has loaded and not yet used. \<open>ps_terminating\<close> is the
  termination that holds the lock of the control records, with its fingerprint and, once it is sent, the error
  of its first signal. \<open>ps_delivered\<close> and \<open>ps_signals\<close> are what has reached the child.
\<close>

record process_session =
  ps_request :: start_execution_request
  ps_journal :: journal
  ps_control :: process_control
  ps_input_records :: "(string \<times> input_record) list"
  ps_control_records :: "(string \<times> control_record) list"
  ps_completion :: completion
  ps_timer :: bool
  ps_loaded :: "completion option"
  ps_output_stop :: bool
  ps_terminating :: "(string \<times> string \<times> exec_error option option) option"
  ps_task :: task_phase
  ps_delivered :: string
  ps_signals :: "process_signal list"

record manager =
  pm_sessions :: "(string \<times> process_session) list"
  pm_retired :: "string list"
  pm_active :: nat
  pm_shutdown :: bool

record manager_env =
  me_resolver :: path_resolver
  me_generation :: string
  me_limits :: supervisor_limits
  me_encode :: event_encoder
  me_sha :: "string \<Rightarrow> string"
  me_input_json :: "write_input_request \<Rightarrow> string + string"
  me_resize_json :: "resize_pty_request \<Rightarrow> string + string"
  me_signal_json :: "signal_request \<Rightarrow> string + string"
  me_terminate_json :: "terminate_request \<Rightarrow> string + string"

definition manager_new :: manager where
  "manager_new = \<lparr>pm_sessions = [], pm_retired = [], pm_active = 0, pm_shutdown = False\<rparr>"

text \<open>\<open>AtomicU32::fetch_add\<close> and \<open>fetch_sub\<close> wrap around.\<close>

definition u32_inc :: "nat \<Rightarrow> nat" where
  "u32_inc n = (n + 1) mod 2 ^ 32"

definition u32_dec :: "nat \<Rightarrow> nat" where
  "u32_dec n = (n + (2 ^ 32 - 1)) mod 2 ^ 32"

definition on_session :: "string \<Rightarrow> (process_session \<Rightarrow> process_session) \<Rightarrow> manager \<Rightarrow> manager" where
  "on_session i f m = m\<lparr>pm_sessions := map (\<lambda>(k, s). (k, if k = i then f s else s)) (pm_sessions m)\<rparr>"

definition session_entry :: "string \<Rightarrow> manager \<Rightarrow> process_session exec_result" where
  "session_entry i m = (case map_of (pm_sessions m) i of
     Some s \<Rightarrow> Inr s
   | None \<Rightarrow> Inl (Fail (exec_error_new ExecutionNotFound (''execution `'' @ i @ ''` was not found''))))"

definition validate_generation :: "manager_env \<Rightarrow> string \<Rightarrow> unit exec_result" where
  "validate_generation env g =
     guard (g = me_generation env)
       (exec_error_new ExecutionLost (''execution belongs to supervisor generation `'' @ g
          @ ''`, but the current generation is `'' @ me_generation env @ ''`''))"

definition session_handle :: "manager_env \<Rightarrow> process_session \<Rightarrow> execution_handle" where
  "session_handle env s =
     (case journal_handle (ps_journal s) of (st, started) \<Rightarrow>
       \<lparr>handle_execution_id = execution_id (ps_request s), handle_generation_id = me_generation env,
        handle_state = st, handle_started_at = started\<rparr>)"

definition request_fingerprint :: "manager_env \<Rightarrow> string + string \<Rightarrow> string exec_result" where
  "request_fingerprint env encoded = (case encoded of
     Inl e \<Rightarrow> Inl (Fail (exec_error_new Internal (''failed to fingerprint process operation: '' @ e)))
   | Inr bytes \<Rightarrow> Inr (me_sha env bytes))"

section \<open>Starting\<close>

text \<open>
  The outcomes of one start: the two checkpoints of the context, the first error of preparing the
  directory, the journal file, the metadata and the child (after which no session exists), and
  the append of the \<open>Started\<close> event.
\<close>

record start_os =
  so_entered :: "unit exec_result"
  so_resolving :: "unit exec_result"
  so_launch :: "exec_error option"
  so_append :: append_io
  so_now :: nat

definition start_cwd :: "manager_env \<Rightarrow> nfs \<Rightarrow> exec_path \<Rightarrow> unit exec_result" where
  "start_cwd env fs p =
     rbind (resolve_existing (me_resolver env) fs p True) (\<lambda>q.
     rbind (native (me_resolver env) q (metadata_of fs q)) (\<lambda>n.
     guard (n = NDir) (exec_error_new NotDirectory ''process working directory is not a directory'')))"

text \<open>\<open>Some\<close> is the handle of the session that an earlier start with the same request created.\<close>

definition start_checks ::
  "manager_env \<Rightarrow> nfs \<Rightarrow> unit exec_result \<Rightarrow> start_execution_request \<Rightarrow> manager \<Rightarrow> execution_handle option exec_result" where
  "start_checks env fs resolving req m = (case map_of (pm_sessions m) (execution_id req) of
     Some s \<Rightarrow>
       if ps_request s \<noteq> req
       then Inl (Fail (operation_conflict (''execution ID `'' @ execution_id req
              @ ''` was reused with a different start request'')))
       else Inr (Some (session_handle env s))
   | None \<Rightarrow>
       if execution_id req \<in> set (pm_retired m)
       then Inl (Fail (operation_conflict (''execution ID `'' @ execution_id req
              @ ''` was already used by this supervisor generation'')))
       else if list_ex (\<lambda>(_, s). start_operation_id (ps_request s) = start_operation_id req) (pm_sessions m)
       then Inl (Fail (operation_conflict (''start operation ID `'' @ start_operation_id req
              @ ''` was reused for a different execution'')))
       else if lim_concurrent_processes (me_limits env) \<le> pm_active m
       then Inl (Fail (exec_error_new ResourceExhausted
              ''the execution host has reached its concurrent process limit''))
       else rbind resolving (\<lambda>_. rbind (start_cwd env fs (cwd req)) (\<lambda>_. Inr None)))"

fun initial_control :: "stdin_mode \<Rightarrow> process_control" where
  "initial_control ClosedStdin = Piped False"
| "initial_control PipeStdin = Piped True"
| "initial_control (Pty _ _) = PtyControl True True"

definition session_new :: "start_execution_request \<Rightarrow> process_session" where
  "session_new req = \<lparr>ps_request = req, ps_journal = journal_create, ps_control = initial_control (stdin req),
     ps_input_records = [], ps_control_records = [], ps_completion = CompletionNormal, ps_timer = False, ps_loaded = None,
     ps_output_stop = False, ps_terminating = None, ps_task = TaskRunning, ps_delivered = [], ps_signals = []\<rparr>"

definition install_session ::
  "manager_env \<Rightarrow> append_io \<Rightarrow> nat \<Rightarrow> start_execution_request \<Rightarrow> manager \<Rightarrow> execution_handle exec_result \<times> manager" where
  "install_session env io now req m =
     (case mark_started (me_encode env) io now journal_create of
        (Inl e, _) \<Rightarrow> (Inl e, m\<lparr>pm_active := u32_dec (u32_inc (pm_active m))\<rparr>)
      | (Inr _, j) \<Rightarrow>
          let s = (session_new req)\<lparr>ps_journal := j\<rparr>
          in (Inr (session_handle env s),
              m\<lparr>pm_sessions := (execution_id req, s) # pm_sessions m, pm_active := u32_inc (pm_active m)\<rparr>))"

definition pm_start ::
  "manager_env \<Rightarrow> nfs \<Rightarrow> start_os \<Rightarrow> start_execution_request \<Rightarrow> manager \<Rightarrow> execution_handle exec_result \<times> manager" where
  "pm_start env fs os req m =
     (case rbind (so_entered os) (\<lambda>_.
           rbind (validated (start_validate req)) (\<lambda>_.
           rbind (case expected_generation req of None \<Rightarrow> Inr () | Some g \<Rightarrow> validate_generation env g) (\<lambda>_.
           start_checks env fs (so_resolving os) req m))) of
        Inl e \<Rightarrow> (Inl e, m)
      | Inr (Some handle) \<Rightarrow> (Inr handle, m)
      | Inr None \<Rightarrow> (case so_launch os of
          Some e \<Rightarrow> (Inl (Fail e), m)
        | None \<Rightarrow> install_session env (so_append os) (so_now os) req m))"

section \<open>Reading\<close>

text \<open>
  The session is found once; its journal is looked at again after the wait, \<open>checked\<close> and \<open>later\<close>,
  unless the context was cancelled meanwhile.
\<close>

record read_os =
  ro_entered :: "unit exec_result"
  ro_open_error :: "exec_error option"
  ro_eof_error :: exec_error
  ro_checked :: journal
  ro_later :: journal
  ro_cancelled :: bool

definition pm_read ::
  "manager_env \<Rightarrow> event_decoder \<Rightarrow> read_os \<Rightarrow> read_execution_request \<Rightarrow> manager \<Rightarrow> read_execution_result exec_result" where
  "pm_read env dec os req m =
     rbind (ro_entered os) (\<lambda>_.
     rbind (validated (read_execution_validate req)) (\<lambda>_.
     rbind (validate_generation env (read_generation_id req)) (\<lambda>_.
     rbind (guard (read_max_bytes req \<le> lim_process_read_bytes (me_limits env))
              (exec_error_new ResourceExhausted (''process read requested '' @ show_nat (read_max_bytes req)
                 @ '' bytes but the host limit is '' @ show_nat (lim_process_read_bytes (me_limits env))))) (\<lambda>_.
     rbind (session_entry (read_execution_id req) m) (\<lambda>s.
     if wait_ms req \<noteq> None \<and> ro_cancelled os then Inl (Fail cancelled_error)
     else journal_read dec (ro_open_error os) (ro_eof_error os) (ps_journal s) (ro_checked os) (ro_later os)
            (after_sequence req) (read_max_bytes req) (wait_ms req))))))"

section \<open>Input\<close>

datatype write_outcome = WriteDone | WriteFails nat exec_error

fun input_open :: "process_control \<Rightarrow> bool" where
  "input_open (Piped held) = held"
| "input_open (PtyControl _ writer) = writer"

fun close_input :: "process_control \<Rightarrow> process_control" where
  "close_input (Piped _) = Piped False"
| "close_input (PtyControl master _) = PtyControl master False"

text \<open>The status, the control afterwards and the bytes that reached the child.\<close>

fun control_write ::
  "write_outcome \<Rightarrow> process_control \<Rightarrow> process_input \<Rightarrow> input_status exec_result \<times> process_control \<times> string" where
  "control_write out c (InputData bytes) =
     (if \<not> input_open c then (Inr InputStdinClosed, c, [])
      else case out of
        WriteDone \<Rightarrow> (Inr Accepted, c, bytes)
      | WriteFails n e \<Rightarrow> (Inl (Fail e), c, take n bytes))"
| "control_write out c InputClose = (Inr Accepted, close_input c, [])"

fun input_size :: "process_input \<Rightarrow> nat" where
  "input_size (InputData bytes) = length bytes"
| "input_size InputClose = 0"

definition repeated_status :: "input_status \<Rightarrow> input_status" where
  "repeated_status st = (if st = Accepted then AlreadyAccepted else st)"

definition session_write ::
  "write_outcome \<Rightarrow> string \<Rightarrow> write_input_request \<Rightarrow> process_session \<Rightarrow> input_status exec_result \<times> process_session" where
  "session_write out fp req s = (case map_of (ps_input_records s) (write_id req) of
     Some rc \<Rightarrow>
       (if ir_fingerprint rc \<noteq> fp
        then Inl (Fail (operation_conflict (''write ID `'' @ write_id req @ ''` was reused with different process input'')))
        else Inr (repeated_status (ir_status rc)), s)
   | None \<Rightarrow>
       if \<not> journal_is_running (ps_journal s) then (Inr InputStdinClosed, s)
       else case control_write out (ps_control s) (input_payload req) of
         (r, c, bytes) \<Rightarrow>
           let s' = s\<lparr>ps_control := c, ps_delivered := ps_delivered s @ bytes\<rparr>
           in case r of
             Inl e \<Rightarrow> (Inl e, s')
           | Inr st \<Rightarrow> (Inr st, s'\<lparr>ps_input_records :=
               (write_id req, \<lparr>ir_fingerprint = fp, ir_status = st\<rparr>) # ps_input_records s\<rparr>))"

text \<open>The session, the fingerprint of the request, and the action under the lock of its records.\<close>

definition with_session ::
  "string exec_result \<Rightarrow> string \<Rightarrow> (string \<Rightarrow> process_session \<Rightarrow> 'a exec_result \<times> process_session) \<Rightarrow> manager
    \<Rightarrow> 'a exec_result \<times> manager" where
  "with_session fingerprinted i act m =
     (case rbind (session_entry i m) (\<lambda>s. rbind fingerprinted (\<lambda>fp. Inr (s, fp))) of
        Inl e \<Rightarrow> (Inl e, m)
      | Inr (s, fp) \<Rightarrow> (case act fp s of (r, s') \<Rightarrow> (r, on_session i (\<lambda>_. s') m)))"

definition pm_write ::
  "manager_env \<Rightarrow> unit exec_result \<Rightarrow> write_outcome \<Rightarrow> write_input_request \<Rightarrow> manager \<Rightarrow> input_status exec_result \<times> manager" where
  "pm_write env entered out req m =
     (case rbind entered (\<lambda>_.
           rbind (validate_generation env (input_generation_id req)) (\<lambda>_.
           guard (input_size (input_payload req) \<le> lim_process_input_bytes (me_limits env))
             (exec_error_new ResourceExhausted (''process input contains '' @ show_nat (input_size (input_payload req))
                @ '' bytes but the host limit is '' @ show_nat (lim_process_input_bytes (me_limits env)))))) of
        Inl e \<Rightarrow> (Inl e, m)
      | Inr _ \<Rightarrow> with_session (request_fingerprint env (me_input_json env req)) (input_execution_id req)
          (\<lambda>fp. session_write out fp req) m)"

section \<open>Control\<close>

definition ensure_control_record :: "control_record \<Rightarrow> string \<Rightarrow> string \<Rightarrow> unit exec_result" where
  "ensure_control_record rc fp i =
     guard (cr_fingerprint rc = fp)
       (operation_conflict (''operation ID `'' @ i @ ''` was reused with a different process-control request''))"

text \<open>
  A signal goes to the process group; for a PTY on Unix a failing \<open>Kill\<close> falls back to the
  child's own handle.
\<close>

record signal_os =
  sg_group :: "exec_error option"
  sg_killer :: "exec_error option"

definition signal_outcome :: "signal_os \<Rightarrow> process_control \<Rightarrow> process_signal \<Rightarrow> exec_error option" where
  "signal_outcome os c sig = (case (c, sg_group os) of
     (_, None) \<Rightarrow> None
   | (Piped _, Some e) \<Rightarrow> Some e
   | (PtyControl _ _, Some e) \<Rightarrow> if sig = Kill then sg_killer os else Some e)"

definition send_signal :: "signal_os \<Rightarrow> process_signal \<Rightarrow> process_session \<Rightarrow> exec_error option \<times> process_session" where
  "send_signal os sig s = (case signal_outcome os (ps_control s) sig of
     None \<Rightarrow> (None, s\<lparr>ps_signals := ps_signals s @ [sig]\<rparr>)
   | Some e \<Rightarrow> (Some e, s))"

definition put_control :: "string \<Rightarrow> string \<Rightarrow> control_result \<Rightarrow> process_session \<Rightarrow> process_session" where
  "put_control i fp r s = s\<lparr>ps_control_records :=
     (i, \<lparr>cr_fingerprint = fp, cr_result = r\<rparr>) # ps_control_records s\<rparr>"

definition control_resize :: "exec_error option \<Rightarrow> process_control \<Rightarrow> unit exec_result" where
  "control_resize out c = (case c of
     Piped _ \<Rightarrow> Inl (Fail (exec_error_new Unsupported ''cannot resize a process without a PTY''))
   | PtyControl master _ \<Rightarrow>
       if \<not> master then Inl (Fail (exec_error_new ExecutionNotFound ''cannot resize a completed PTY execution''))
       else case out of None \<Rightarrow> Inr () | Some e \<Rightarrow> Inl (Fail e))"

text \<open>\<open>act\<close> runs when the session is still running and no record answers the request.\<close>

definition unit_control ::
  "(process_session \<Rightarrow> unit exec_result \<times> process_session) \<Rightarrow> string \<Rightarrow> string \<Rightarrow> string \<Rightarrow> process_session
    \<Rightarrow> unit exec_result \<times> process_session" where
  "unit_control act completed i fp s = (case map_of (ps_control_records s) i of
     Some rc \<Rightarrow>
       (rbind (ensure_control_record rc fp i) (\<lambda>_. case cr_result rc of
          ControlUnit \<Rightarrow> Inr ()
        | ControlTerminate _ \<Rightarrow> Inl (Fail (operation_conflict ''operation ID was already used for termination''))), s)
   | None \<Rightarrow>
       if \<not> journal_is_running (ps_journal s) then (Inl (Fail (exec_error_new ExecutionNotFound completed)), s)
       else case act s of
         (Inl e, s') \<Rightarrow> (Inl e, s')
       | (Inr _, s') \<Rightarrow> (Inr (), put_control i fp ControlUnit s'))"

definition pm_resize ::
  "manager_env \<Rightarrow> unit exec_result \<Rightarrow> exec_error option \<Rightarrow> resize_pty_request \<Rightarrow> manager \<Rightarrow> unit exec_result \<times> manager" where
  "pm_resize env entered out req m =
     (case rbind entered (\<lambda>_. rbind (validated (resize_validate req)) (\<lambda>_. validate_generation env (resize_generation_id req))) of
        Inl e \<Rightarrow> (Inl e, m)
      | Inr _ \<Rightarrow> with_session (request_fingerprint env (me_resize_json env req)) (resize_execution_id req)
          (unit_control (\<lambda>s. (control_resize out (ps_control s), s)) ''cannot resize a completed execution''
             (resize_operation_id req)) m)"

definition pm_signal ::
  "manager_env \<Rightarrow> unit exec_result \<Rightarrow> signal_os \<Rightarrow> signal_request \<Rightarrow> manager \<Rightarrow> unit exec_result \<times> manager" where
  "pm_signal env entered os req m =
     (case rbind entered (\<lambda>_. validate_generation env (signal_generation_id req)) of
        Inl e \<Rightarrow> (Inl e, m)
      | Inr _ \<Rightarrow> with_session (request_fingerprint env (me_signal_json env req)) (signal_execution_id req)
          (unit_control (\<lambda>s. case send_signal os (signal req) s of
               (None, s') \<Rightarrow> (Inr (), s') | (Some e, s') \<Rightarrow> (Inl (Fail e), s')) ''cannot signal a completed execution''
             (signal_operation_id req)) m)"

text \<open>
  Termination in three parts. The first answers from a record, or for a session that is not
  running, or goes on with the lock (\<open>Inr None\<close>). The second marks the session and sends \<open>Terminate\<close>.
  The third, after the grace period or when the session has finished, sends \<open>Kill\<close> if it must and
  records the result.
\<close>

definition cas_completion :: "completion \<Rightarrow> process_session \<Rightarrow> process_session" where
  "cas_completion c s = (if ps_completion s = CompletionNormal then s\<lparr>ps_completion := c\<rparr> else s)"

definition terminate_begin ::
  "string \<Rightarrow> string \<Rightarrow> process_session \<Rightarrow> bool option exec_result \<times> process_session" where
  "terminate_begin i fp s = (case map_of (ps_control_records s) i of
     Some rc \<Rightarrow>
       (rbind (ensure_control_record rc fp i) (\<lambda>_. case cr_result rc of
          ControlTerminate was_running \<Rightarrow> Inr (Some was_running)
        | ControlUnit \<Rightarrow> Inl (Fail (operation_conflict
            ''operation ID was already used for another process-control operation''))), s)
   | None \<Rightarrow>
       if \<not> journal_is_running (ps_journal s) then (Inr (Some False), put_control i fp (ControlTerminate False) s)
       else (Inr None, s\<lparr>ps_terminating := Some (i, fp, None)\<rparr>))"

definition terminate_signal :: "signal_os \<Rightarrow> process_session \<Rightarrow> process_session" where
  "terminate_signal os s = (case ps_terminating s of
     Some (i, fp, None) \<Rightarrow> (case send_signal os Terminate (cas_completion CompletionTerminated s) of
       (failed, s') \<Rightarrow> s'\<lparr>ps_terminating := Some (i, fp, Some failed)\<rparr>)
   | _ \<Rightarrow> s)"

definition terminate_end :: "signal_os \<Rightarrow> process_session \<Rightarrow> bool exec_result \<times> process_session" where
  "terminate_end os s = (case ps_terminating s of
     None \<Rightarrow> (Inl (Panic ''no termination in progress''), s)
   | Some (i, fp, None) \<Rightarrow> (Inl (Panic ''no signal sent''), s)
   | Some (i, fp, Some failed) \<Rightarrow>
       let s1 = s\<lparr>ps_terminating := None\<rparr> in
       if \<not> journal_is_running (ps_journal s) then (Inr True, put_control i fp (ControlTerminate True) s1)
       else case send_signal os Kill s1 of
         (None, s2) \<Rightarrow> (Inr True, put_control i fp (ControlTerminate True) s2)
       | (Some e, s2) \<Rightarrow> (Inl (Fail (case failed of Some first \<Rightarrow> first | None \<Rightarrow> e)), s2))"

definition pm_terminate ::
  "manager_env \<Rightarrow> unit exec_result \<Rightarrow> terminate_request \<Rightarrow> manager \<Rightarrow> bool option exec_result \<times> manager" where
  "pm_terminate env entered req m =
     (case rbind entered (\<lambda>_. validate_generation env (terminate_generation_id req)) of
        Inl e \<Rightarrow> (Inl e, m)
      | Inr _ \<Rightarrow> with_session (request_fingerprint env (me_terminate_json env req)) (terminate_execution_id req)
          (terminate_begin (terminate_operation_id req)) m)"

definition pm_terminate_signal :: "signal_os \<Rightarrow> string \<Rightarrow> manager \<Rightarrow> manager" where
  "pm_terminate_signal os i m = on_session i (terminate_signal os) m"

definition pm_terminate_end :: "signal_os \<Rightarrow> string \<Rightarrow> manager \<Rightarrow> manager" where
  "pm_terminate_end os i m = on_session i (\<lambda>s. snd (terminate_end os s)) m"

text \<open>A dropped request releases the lock without a record.\<close>

definition pm_terminate_drop :: "string \<Rightarrow> manager \<Rightarrow> manager" where
  "pm_terminate_drop i m = on_session i (\<lambda>s. s\<lparr>ps_terminating := None\<rparr>) m"

section \<open>Tasks\<close>

definition final_state :: "completion \<Rightarrow> execution_state" where
  "final_state c = (case c of
     CompletionTerminated \<Rightarrow> StCancelled | CompletionTimedOut \<Rightarrow> StFailed | CompletionNormal \<Rightarrow> StExited)"

text \<open>
  The timer of a session with a timeout: it looks at the journal, marks and signals the session, and
  sends \<open>Kill\<close> after the grace period.
\<close>

definition session_timer :: "process_session \<Rightarrow> process_session" where
  "session_timer s = s\<lparr>ps_timer := journal_is_running (ps_journal s)\<rparr>"

definition session_timeout :: "signal_os \<Rightarrow> process_session \<Rightarrow> process_session" where
  "session_timeout os s =
     (if \<not> ps_timer s \<or> ps_completion s \<noteq> CompletionNormal then s
      else snd (send_signal os Terminate (cas_completion CompletionTimedOut s)))"

definition session_timeout_kill :: "signal_os \<Rightarrow> process_session \<Rightarrow> process_session" where
  "session_timeout_kill os s =
     (if journal_is_running (ps_journal s) then snd (send_signal os Kill s) else s)"

definition session_output :: "manager_env \<Rightarrow> append_io \<Rightarrow> nat \<Rightarrow> output_stream \<Rightarrow> string \<Rightarrow> process_session \<Rightarrow> process_session" where
  "session_output env io now stream bytes s =
     s\<lparr>ps_journal := snd (append_output (me_encode env) io now stream bytes (ps_journal s))\<rparr>"

fun close_pty :: "process_control \<Rightarrow> process_control" where
  "close_pty (Piped held) = Piped held"
| "close_pty (PtyControl _ _) = PtyControl False False"

text \<open>
  The completion flag selects the final state. It is loaded before the append of that state; a load right
  before the append needs no transition of its own.
\<close>

definition session_load :: "process_session \<Rightarrow> process_session" where
  "session_load s = s\<lparr>ps_loaded := Some (ps_completion s)\<rparr>"

definition loaded_completion :: "process_session \<Rightarrow> completion" where
  "loaded_completion s = (case ps_loaded s of Some c \<Rightarrow> c | None \<Rightarrow> ps_completion s)"

text \<open>The child has ended: \<open>begin_output_drain\<close>, and on Unix the PTY is kept open for a drain.\<close>

definition session_exit :: "manager_env \<Rightarrow> append_io \<Rightarrow> nat \<Rightarrow> exec_error + int \<Rightarrow> process_session \<Rightarrow> process_session" where
  "session_exit env io now exit_status s =
     (case output_drain_timeout_ms (ps_request s) of
        None \<Rightarrow> s\<lparr>ps_task := TaskDraining exit_status, ps_control := close_pty (ps_control s)\<rparr>
      | Some _ \<Rightarrow> (case exit_status of
          Inl _ \<Rightarrow> s\<lparr>ps_task := TaskDraining exit_status\<rparr>
        | Inr c \<Rightarrow> s\<lparr>ps_task := TaskDraining exit_status, ps_loaded := None,
            ps_journal := snd (mark_exited (me_encode env) io now c (final_state (loaded_completion s)) (ps_journal s))\<rparr>))"

text \<open>\<open>complete_session\<close>; \<open>io n\<close> is the outcome of the \<open>n\<close>-th append.\<close>

definition complete_journal ::
  "event_encoder \<Rightarrow> (nat \<Rightarrow> append_io) \<Rightarrow> nat \<Rightarrow> completion \<Rightarrow> exec_error + int \<Rightarrow> exec_error option \<Rightarrow> journal \<Rightarrow> journal" where
  "complete_journal enc io now c exit_status failure j =
     (case (case (exit_status, failure) of
              (Inl e, _) \<Rightarrow> finish_failed enc (io 0) (io 1) now (message e) j
            | (Inr _, Some e) \<Rightarrow> finish_failed enc (io 0) (io 1) now (message e) j
            | (Inr n, None) \<Rightarrow> finish_exited enc (io 0) (io 1) now n (final_state c) j) of
        (Inr _, j1) \<Rightarrow> snd (close_journal enc (io 4) now j1)
      | (Inl _, j1) \<Rightarrow>
          snd (close_journal enc (io 4) now
                (snd (finish_failed enc (io 2) (io 3) now ''failed to finalize process journal'' j1))))"

definition session_complete ::
  "manager_env \<Rightarrow> (nat \<Rightarrow> append_io) \<Rightarrow> nat \<Rightarrow> exec_error option \<Rightarrow> process_session \<Rightarrow> process_session" where
  "session_complete env io now failure s = (case ps_task s of
     TaskDraining exit_status \<Rightarrow>
       s\<lparr>ps_task := TaskFinished, ps_control := close_pty (ps_control s),
         ps_journal := complete_journal (me_encode env) io now (loaded_completion s) exit_status failure (ps_journal s)\<rparr>
   | _ \<Rightarrow> s)"

definition pm_complete ::
  "manager_env \<Rightarrow> (nat \<Rightarrow> append_io) \<Rightarrow> nat \<Rightarrow> exec_error option \<Rightarrow> string \<Rightarrow> manager \<Rightarrow> manager" where
  "pm_complete env io now failure i m =
     (on_session i (session_complete env io now failure) m)\<lparr>pm_active := u32_dec (pm_active m)\<rparr>"

definition pm_cleanup :: "manager_env \<Rightarrow> nat \<Rightarrow> string \<Rightarrow> manager \<Rightarrow> manager" where
  "pm_cleanup env now i m = (case map_of (pm_sessions m) i of
     None \<Rightarrow> m
   | Some s \<Rightarrow> (case finished_for now (ps_journal s) of
       None \<Rightarrow> m
     | Some elapsed \<Rightarrow>
         if lim_retention_ms (me_limits env) \<le> elapsed
         then m\<lparr>pm_retired := i # pm_retired m, pm_sessions := filter (\<lambda>(k, _). k \<noteq> i) (pm_sessions m)\<rparr>
         else m))"

definition pm_shut_down :: "signal_os \<Rightarrow> manager \<Rightarrow> manager" where
  "pm_shut_down os m = m\<lparr>pm_shutdown := True, pm_sessions := map (\<lambda>(k, s). (k,
     if journal_is_running (ps_journal s) then snd (send_signal os Kill s) else s)) (pm_sessions m)\<rparr>"

section \<open>Runs\<close>

text \<open>
  The transitions of a manager, with the execution identifiers that they install. A request that
  changes control records waits while a termination holds their lock.
\<close>

definition control_free :: "string \<Rightarrow> manager \<Rightarrow> bool" where
  "control_free i m \<longleftrightarrow> (case map_of (pm_sessions m) i of None \<Rightarrow> True | Some s \<Rightarrow> ps_terminating s = None)"

inductive pm_step :: "manager_env \<Rightarrow> manager \<Rightarrow> string list \<Rightarrow> manager \<Rightarrow> bool" for env m where
  start: "pm_start env fs os req m = (r, m') \<Longrightarrow>
    pm_step env m (if pm_sessions m' = pm_sessions m then [] else [execution_id req]) m'"
| input: "pm_write env entered out req m = (r, m') \<Longrightarrow> pm_step env m [] m'"
| resize: "pm_resize env entered failed req m = (r, m') \<Longrightarrow> control_free (resize_execution_id req) m \<Longrightarrow> pm_step env m [] m'"
| signal: "pm_signal env entered sig req m = (r, m') \<Longrightarrow> control_free (signal_execution_id req) m \<Longrightarrow> pm_step env m [] m'"
| terminate: "pm_terminate env entered req m = (r', m') \<Longrightarrow> control_free (terminate_execution_id req) m \<Longrightarrow>
    pm_step env m [] m'"
| terminate_signal: "map_of (pm_sessions m) i = Some s \<Longrightarrow> pm_step env m [] (pm_terminate_signal sig i m)"
| terminate_end: "map_of (pm_sessions m) i = Some s \<Longrightarrow> ps_terminating s = Some (op_id, fp, Some failed) \<Longrightarrow>
    pm_step env m [] (pm_terminate_end sig i m)"
| terminate_drop: "map_of (pm_sessions m) i = Some s \<Longrightarrow> pm_step env m [] (pm_terminate_drop i m)"
| timer: "map_of (pm_sessions m) i = Some s \<Longrightarrow> timeout_ms (ps_request s) \<noteq> None \<Longrightarrow>
    pm_step env m [] (on_session i session_timer m)"
| timeout: "map_of (pm_sessions m) i = Some s \<Longrightarrow> timeout_ms (ps_request s) \<noteq> None \<Longrightarrow>
    pm_step env m [] (on_session i (session_timeout sig) m)"
| timeout_kill: "map_of (pm_sessions m) i = Some s \<Longrightarrow> ps_completion s = CompletionTimedOut \<Longrightarrow>
    pm_step env m [] (on_session i (session_timeout_kill sig) m)"
| output_chunk: "map_of (pm_sessions m) i = Some s \<Longrightarrow> ps_task s \<noteq> TaskFinished \<Longrightarrow> \<not> ps_output_stop s \<Longrightarrow>
    pm_step env m [] (on_session i (session_output env io now stream bytes) m)"
| load: "map_of (pm_sessions m) i = Some s \<Longrightarrow> ps_loaded s = None \<Longrightarrow>
    (ps_task s = TaskRunning \<and> output_drain_timeout_ms (ps_request s) \<noteq> None) \<or> (\<exists>exit_status. ps_task s = TaskDraining exit_status) \<Longrightarrow>
    pm_step env m [] (on_session i session_load m)"
| exit: "map_of (pm_sessions m) i = Some s \<Longrightarrow> ps_task s = TaskRunning \<Longrightarrow>
    pm_step env m [] (on_session i (session_exit env io now exit_status) m)"
| drain_stop: "map_of (pm_sessions m) i = Some s \<Longrightarrow> output_drain_timeout_ms (ps_request s) \<noteq> None \<Longrightarrow>
    ps_task s \<noteq> TaskRunning \<Longrightarrow> pm_step env m [] (on_session i (\<lambda>s. s\<lparr>ps_output_stop := True\<rparr>) m)"
| complete: "map_of (pm_sessions m) i = Some s \<Longrightarrow> ps_task s = TaskDraining exit_status \<Longrightarrow>
    pm_step env m [] (pm_complete env ios now failure i m)"
| cleanup: "pm_step env m [] (pm_cleanup env now i m)"
| shut_down: "pm_step env m [] (pm_shut_down sig m)"

inductive pm_run :: "manager_env \<Rightarrow> string list \<Rightarrow> manager \<Rightarrow> bool" for env where
  new: "pm_run env [] manager_new"
| stepped: "pm_run env installed m \<Longrightarrow> pm_step env m fresh m' \<Longrightarrow> pm_run env (installed @ fresh) m'"

section \<open>The invariant\<close>

definition session_ok :: "string \<Rightarrow> process_session \<Rightarrow> bool" where
  "session_ok i s \<longleftrightarrow> execution_id (ps_request s) = i \<and>
     (j_finished_at (ps_journal s) \<noteq> None \<longrightarrow> j_closed (ps_journal s)) \<and>
     (j_closed (ps_journal s) \<longrightarrow> ps_task s = TaskFinished \<and> is_terminal (j_state (ps_journal s))) \<and>
     (ps_task s = TaskRunning \<longrightarrow> j_state (ps_journal s) = StRunning) \<and>
     (output_drain_timeout_ms (ps_request s) = None \<longrightarrow> is_terminal (j_state (ps_journal s)) \<longrightarrow> ps_task s = TaskFinished) \<and>
     j_state (ps_journal s) \<in> {StRunning, StExited, StCancelled, StFailed}"

definition live_sessions :: "manager \<Rightarrow> nat" where
  "live_sessions m = length (filter (\<lambda>(i, s). ps_task s \<noteq> TaskFinished) (pm_sessions m))"

definition manager_inv :: "manager_env \<Rightarrow> manager \<Rightarrow> bool" where
  "manager_inv env m \<longleftrightarrow> distinct (map fst (pm_sessions m)) \<and>
     (\<forall>(i, s) \<in> set (pm_sessions m). session_ok i s) \<and>
     pm_active m = live_sessions m \<and> live_sessions m \<le> lim_concurrent_processes (me_limits env) \<and>
     set (pm_retired m) \<inter> fst ` set (pm_sessions m) = {} \<and>
     distinct (map (\<lambda>(i, s). start_operation_id (ps_request s)) (pm_sessions m))"

lemma session_split:
  assumes "distinct (map fst (pm_sessions m))" and "map_of (pm_sessions m) i = Some s"
  obtains xs ys where "pm_sessions m = xs @ (i, s) # ys"
    and "pm_sessions (on_session i f m) = xs @ (i, f s) # ys"
proof -
  from assms(2) obtain xs ys where e: "pm_sessions m = xs @ (i, s) # ys" by (meson map_of_SomeD split_list)
  with assms(1) have n: "i \<notin> fst ` set xs" "i \<notin> fst ` set ys" by auto
  have "map (\<lambda>(k, s). (k, if k = i then f s else s)) zs = zs" if "i \<notin> fst ` set zs" for zs
    using that by (induction zs) auto
  with n e that show ?thesis by (simp add: on_session_def)
qed

lemma on_session_keys [simp]: "map fst (pm_sessions (on_session i f m)) = map fst (pm_sessions m)"
  by (simp add: on_session_def comp_def case_prod_unfold)

lemma on_session_frame [simp]:
  "pm_active (on_session i f m) = pm_active m" "pm_retired (on_session i f m) = pm_retired m"
  "pm_shutdown (on_session i f m) = pm_shutdown m"
  by (simp_all add: on_session_def)

lemma on_session_key_set [simp]: "fst ` set (pm_sessions (on_session i f m)) = fst ` set (pm_sessions m)"
  by (metis on_session_keys set_map)

lemma manager_inv_session:
  assumes "manager_inv env m" and "map_of (pm_sessions m) i = Some s"
  shows "session_ok i s"
  using assms by (auto simp: manager_inv_def dest!: map_of_SomeD)

text \<open>A transition of one session that keeps its request and its place in the count.\<close>

lemma inv_on_session:
  assumes "manager_inv env m" and "map_of (pm_sessions m) i = Some s"
    and "ps_request (f s) = ps_request s" and "session_ok i (f s)"
    and "ps_task (f s) = TaskFinished \<longleftrightarrow> ps_task s = TaskFinished"
  shows "manager_inv env (on_session i f m)"
proof -
  from assms(1) have "distinct (map fst (pm_sessions m))" by (simp add: manager_inv_def)
  then obtain xs ys where "pm_sessions m = xs @ (i, s) # ys" "pm_sessions (on_session i f m) = xs @ (i, f s) # ys"
    using assms(2) by (rule session_split)
  with assms(1,3-5) show ?thesis by (auto simp: manager_inv_def live_sessions_def)
qed

lemma inv_complete:
  assumes "manager_inv env m" and "map_of (pm_sessions m) i = Some s"
    and "ps_request (f s) = ps_request s" and "session_ok i (f s)"
    and "ps_task s \<noteq> TaskFinished" and "ps_task (f s) = TaskFinished"
    and "lim_concurrent_processes (me_limits env) < 2 ^ 32"
  shows "manager_inv env ((on_session i f m)\<lparr>pm_active := u32_dec (pm_active m)\<rparr>)"
    and "pm_active m = Suc (u32_dec (pm_active m))"
proof -
  from assms(1) have "distinct (map fst (pm_sessions m))" by (simp add: manager_inv_def)
  then obtain xs ys where sp: "pm_sessions m = xs @ (i, s) # ys" "pm_sessions (on_session i f m) = xs @ (i, f s) # ys"
    using assms(2) by (rule session_split)
  with assms(5,6) have n: "live_sessions m = Suc (live_sessions (on_session i f m))" by (simp add: live_sessions_def)
  have a: "pm_active m = live_sessions m" "live_sessions m < 2 ^ 32" using assms(1,7) by (auto simp: manager_inv_def)
  with n have d: "u32_dec (pm_active m) = live_sessions (on_session i f m)" by (simp add: u32_dec_def)
  then show "pm_active m = Suc (u32_dec (pm_active m))" using a n by simp
  show "manager_inv env ((on_session i f m)\<lparr>pm_active := u32_dec (pm_active m)\<rparr>)"
    using assms(1,3,4) sp n d by (auto simp: manager_inv_def live_sessions_def)
qed

subsection \<open>Journals\<close>

lemma append_locked_keeps:
  assumes "append_locked enc io now ev j = (r, j')"
  shows "j_state j' = j_state j \<and> j_closed j' = j_closed j \<and> j_finished_at j' = j_finished_at j \<and> j_exit_code j' = j_exit_code j"
  using assms by (auto simp: append_locked_def Let_def split: sum.splits append_io.splits)

lemma append_output_keeps:
  assumes "append_output enc io now stream bytes j = (r, j')"
  shows "j_state j' = j_state j \<and> j_closed j' = j_closed j \<and> j_finished_at j' = j_finished_at j"
  using assms append_locked_keeps by (fastforce simp: append_output_def split: if_splits)

lemma mark_exited_keeps:
  assumes "mark_exited enc io now c st j = (r, j')"
  shows "j_closed j' = j_closed j \<and> j_finished_at j' = j_finished_at j \<and>
     j_state j' = (if is_terminal (j_state j) then j_state j else st)"
  using assms append_locked_keeps by (fastforce simp: mark_exited_def split: if_splits)

lemma close_journal_keeps:
  assumes "close_journal enc io now j = (r, j')"
  shows "j_state j' = j_state j \<and> ((j_finished_at j \<noteq> None \<longrightarrow> j_closed j) \<longrightarrow> (j_finished_at j' \<noteq> None \<longrightarrow> j_closed j'))"
  using assms append_locked_keeps
  by (fastforce simp: close_journal_def close_finished_def split: if_splits prod.splits sum.splits)

lemma finish_failed_keeps:
  assumes "finish_failed enc io1 io2 now msg j = (r, j')"
  shows "(j_state j' = j_state j \<or> j_state j' = StFailed) \<and>
     ((j_finished_at j \<noteq> None \<longrightarrow> j_closed j) \<longrightarrow> (j_finished_at j' \<noteq> None \<longrightarrow> j_closed j'))"
proof (cases "j_closed j")
  case True
  with assms show ?thesis by (simp add: finish_failed_def)
next
  case False
  obtain r1 j1 where a: "append_locked enc io1 now (Failed msg) (j\<lparr>j_state := StFailed\<rparr>) = (r1, j1)" by force
  obtain r2 j2 where b: "append_locked enc io2 now Closed j1 = (r2, j2)" by force
  from append_locked_keeps [OF a] append_locked_keeps [OF b] assms False a b show ?thesis
    by (auto simp: finish_failed_def close_finished_def split: sum.splits)
qed

lemma finish_failed_state:
  assumes "finish_failed enc io1 io2 now msg j = (r, j')"
  shows "j_state j' = (if j_closed j then j_state j else StFailed)"
proof (cases "j_closed j")
  case False
  obtain r1 j1 where a: "append_locked enc io1 now (Failed msg) (j\<lparr>j_state := StFailed\<rparr>) = (r1, j1)" by force
  obtain r2 j2 where b: "append_locked enc io2 now Closed j1 = (r2, j2)" by force
  from append_locked_keeps [OF a] append_locked_keeps [OF b] assms False a b show ?thesis
    by (auto simp: finish_failed_def close_finished_def split: sum.splits)
qed (use assms in \<open>simp add: finish_failed_def\<close>)

lemma finish_exited_keeps:
  assumes "finish_exited enc io1 io2 now c st j = (r, j')"
  shows "j_state j' = (if is_terminal (j_state j) then j_state j else st) \<and>
     ((j_finished_at j \<noteq> None \<longrightarrow> j_closed j) \<longrightarrow> (j_finished_at j' \<noteq> None \<longrightarrow> j_closed j'))"
proof -
  obtain r1 j1 where a: "mark_exited enc io1 now c st j = (r1, j1)" by force
  obtain r2 j2 where b: "close_journal enc io2 now j1 = (r2, j2)" by force
  from mark_exited_keeps [OF a] close_journal_keeps [OF b] assms a b show ?thesis
    by (auto simp: finish_exited_def split: sum.splits)
qed

text \<open>Appends only ever add to the entries and to the file.\<close>

definition grown :: "journal \<Rightarrow> journal \<Rightarrow> bool" where
  "grown j j' \<longleftrightarrow> (\<exists>es f. j_entries j' = j_entries j @ es \<and> j_file j' = j_file j @ f)"

lemma grown_refl [simp]: "grown j j"
  by (simp add: grown_def)

lemma grown_trans [trans]: "grown j j' \<Longrightarrow> grown j' j'' \<Longrightarrow> grown j j''"
  by (force simp: grown_def)

lemma grown_frame [simp]:
  "grown (j\<lparr>j_state := st\<rparr>) j' = grown j j'" "grown (j\<lparr>j_exit_code := c\<rparr>) j' = grown j j'"
  "grown j (close_finished now j') = grown j j'"
  by (simp_all add: grown_def close_finished_def)

lemma append_locked_grown: "append_locked enc io now ev j = (r, j') \<Longrightarrow> grown j j'"
  by (auto simp: append_locked_def grown_def Let_def split: sum.splits append_io.splits)

lemma append_output_grown: "append_output enc io now stream bytes j = (r, j') \<Longrightarrow> grown j j' \<and> (j_closed j \<longrightarrow> j' = j)"
  by (auto simp: append_output_def intro: append_locked_grown split: if_splits)

lemma mark_exited_grown: "mark_exited enc io now c st j = (r, j') \<Longrightarrow> grown j j'"
  using append_locked_grown [of enc io now "Exited c" "j\<lparr>j_state := st, j_exit_code := Some c\<rparr>"]
  by (auto simp: mark_exited_def split: if_splits)

lemma close_journal_grown: "close_journal enc io now j = (r, j') \<Longrightarrow> grown j j'"
  by (auto simp: close_journal_def intro: append_locked_grown split: if_splits prod.splits sum.splits)

lemma finish_failed_grown:
  assumes "finish_failed enc io1 io2 now msg j = (r, j')"
  shows "grown j j'"
proof (cases "j_closed j")
  case False
  obtain r1 j1 where a: "append_locked enc io1 now (Failed msg) (j\<lparr>j_state := StFailed\<rparr>) = (r1, j1)" by force
  obtain r2 j2 where b: "append_locked enc io2 now Closed j1 = (r2, j2)" by force
  have "grown j j1" "grown j j2" using append_locked_grown [OF a] append_locked_grown [OF b] by (auto intro: grown_trans)
  with False assms a b show ?thesis by (auto simp: finish_failed_def split: sum.splits)
qed (use assms in \<open>simp add: finish_failed_def\<close>)

lemma finish_exited_grown:
  assumes "finish_exited enc io1 io2 now c st j = (r, j')"
  shows "grown j j'"
proof -
  obtain r1 j1 where a: "mark_exited enc io1 now c st j = (r1, j1)" by force
  obtain r2 j2 where b: "close_journal enc io2 now j1 = (r2, j2)" by force
  from mark_exited_grown [OF a] close_journal_grown [OF b] assms a b show ?thesis
    by (auto simp: finish_exited_def intro: grown_trans split: sum.splits)
qed

lemma is_terminal_simps [simp]:
  "is_terminal StExited" "is_terminal StFailed" "is_terminal StCancelled" "\<not> is_terminal StRunning" "\<not> is_terminal StStarting"
  by (simp_all add: is_terminal_def)

lemma final_state_simps [simp]:
  "final_state c \<noteq> StRunning" "final_state c \<noteq> StStarting" "final_state c \<in> {StExited, StCancelled, StFailed}"
  "final_state c = StExited \<longleftrightarrow> c = CompletionNormal" "final_state c = StCancelled \<longleftrightarrow> c = CompletionTerminated"
  "final_state c = StFailed \<longleftrightarrow> c = CompletionTimedOut" "is_terminal (final_state c)"
  by (auto simp: final_state_def split: completion.splits)

text \<open>The journal that \<open>complete_journal\<close> closes at the end.\<close>

lemma complete_journal_cases:
  obtains j1 j2 j3 r1 r2 r3 where
    "(\<exists>msg. finish_failed enc (io 0) (io 1) now msg j = (r1, j1)) \<or> (\<exists>n. finish_exited enc (io 0) (io 1) now n (final_state c) j = (r1, j1))"
    "finish_failed enc (io 2) (io 3) now ''failed to finalize process journal'' j1 = (r2, j2)"
    "close_journal enc (io 4) now (if isl r1 then j2 else j1) = (r3, j3)"
    "complete_journal enc io now c exit_status failure j = j3"
proof -
  define first where "first = (case (exit_status, failure) of
              (Inl e, _) \<Rightarrow> finish_failed enc (io 0) (io 1) now (message e) j
            | (Inr _, Some e) \<Rightarrow> finish_failed enc (io 0) (io 1) now (message e) j
            | (Inr n, None) \<Rightarrow> finish_exited enc (io 0) (io 1) now n (final_state c) j)"
  obtain r1 j1 where f: "first = (r1, j1)" by force
  obtain r2 j2 where g: "finish_failed enc (io 2) (io 3) now ''failed to finalize process journal'' j1 = (r2, j2)" by force
  obtain r3 j3 where h: "close_journal enc (io 4) now (if isl r1 then j2 else j1) = (r3, j3)" by force
  have a: "(\<exists>msg. finish_failed enc (io 0) (io 1) now msg j = (r1, j1)) \<or> (\<exists>n. finish_exited enc (io 0) (io 1) now n (final_state c) j = (r1, j1))"
    using f by (cases exit_status; cases failure) (auto simp: first_def)
  have "complete_journal enc io now c exit_status failure j = j3"
    using f g h by (auto simp: complete_journal_def first_def split: sum.splits)
  with a g h show thesis by (rule that)
qed

lemma complete_journal_keeps:
  assumes "j_finished_at j \<noteq> None \<longrightarrow> j_closed j"
  shows "j_finished_at (complete_journal enc io now c exit_status failure j) \<noteq> None \<longrightarrow>
      j_closed (complete_journal enc io now c exit_status failure j)"
    and "j_state (complete_journal enc io now c exit_status failure j) \<in> {StFailed, if is_terminal (j_state j) then j_state j else final_state c}
       \<or> j_state (complete_journal enc io now c exit_status failure j) = j_state j"
    and "j_closed j \<longrightarrow> is_terminal (j_state j) \<Longrightarrow> is_terminal (j_state (complete_journal enc io now c exit_status failure j))"
    and "grown j (complete_journal enc io now c exit_status failure j)"
proof -
  obtain j1 j2 j3 r1 r2 r3 where f:
      "(\<exists>msg. finish_failed enc (io 0) (io 1) now msg j = (r1, j1)) \<or> (\<exists>n. finish_exited enc (io 0) (io 1) now n (final_state c) j = (r1, j1))"
    and g: "finish_failed enc (io 2) (io 3) now ''failed to finalize process journal'' j1 = (r2, j2)"
    and h: "close_journal enc (io 4) now (if isl r1 then j2 else j1) = (r3, j3)"
    and e: "complete_journal enc io now c exit_status failure j = j3"
    by (rule complete_journal_cases)
  have k1: "(j_state j1 = j_state j \<or> j_state j1 = StFailed \<or> j_state j1 = (if is_terminal (j_state j) then j_state j else final_state c)) \<and>
      (j_finished_at j1 \<noteq> None \<longrightarrow> j_closed j1)"
    using f assms finish_failed_keeps [of enc "io 0" "io 1" now _ j r1 j1] finish_exited_keeps [of enc "io 0" "io 1" now _ "final_state c" j r1 j1]
    by blast
  have t1: "j_closed j \<longrightarrow> is_terminal (j_state j) \<Longrightarrow> is_terminal (j_state j1)"
    using f finish_failed_state [of enc "io 0" "io 1" now _ j r1 j1] finish_exited_keeps [of enc "io 0" "io 1" now _ "final_state c" j r1 j1]
    by auto
  note k2 = finish_failed_keeps [OF g]
  note k3 = close_journal_keeps [OF h]
  show "j_finished_at (complete_journal enc io now c exit_status failure j) \<noteq> None \<longrightarrow>
      j_closed (complete_journal enc io now c exit_status failure j)"
    using k1 k2 k3 unfolding e by auto
  show "j_state (complete_journal enc io now c exit_status failure j) \<in> {StFailed, if is_terminal (j_state j) then j_state j else final_state c}
       \<or> j_state (complete_journal enc io now c exit_status failure j) = j_state j"
    using k1 k2 k3 unfolding e by (auto split: if_splits)
  show "is_terminal (j_state (complete_journal enc io now c exit_status failure j))" if "j_closed j \<longrightarrow> is_terminal (j_state j)"
    using t1 [OF that] k2 k3 unfolding e by (auto split: if_splits)
  have "grown j j1" using f finish_failed_grown finish_exited_grown by blast
  moreover have "grown j1 (if isl r1 then j2 else j1)" using finish_failed_grown [OF g] by simp
  ultimately show "grown j (complete_journal enc io now c exit_status failure j)"
    using close_journal_grown [OF h] unfolding e by (blast intro: grown_trans)
qed

subsection \<open>Requests\<close>

text \<open>
  What a request may change of a session: nothing that the tasks record, and no record of an
  earlier input.
\<close>

definition records_kept :: "process_session \<Rightarrow> process_session \<Rightarrow> bool" where
  "records_kept s s' \<longleftrightarrow> ps_request s' = ps_request s \<and>
     map_of (ps_input_records s) \<subseteq>\<^sub>m map_of (ps_input_records s') \<and>
     grown (ps_journal s) (ps_journal s') \<and>
     (ps_task s = TaskFinished \<longrightarrow> ps_task s' = TaskFinished \<and> ps_journal s' = ps_journal s)"

lemma records_kept_refl [simp]: "records_kept s s"
  by (simp add: records_kept_def)

lemma records_kept_trans: "records_kept s s' \<Longrightarrow> records_kept s' s'' \<Longrightarrow> records_kept s s''"
  by (auto simp: records_kept_def intro: map_le_trans grown_trans)

definition quiet :: "process_session \<Rightarrow> process_session \<Rightarrow> bool" where
  "quiet s s' \<longleftrightarrow> records_kept s s' \<and> ps_journal s' = ps_journal s \<and> ps_task s' = ps_task s"

lemma quiet_refl [simp]: "quiet s s"
  by (simp add: quiet_def)

lemma quiet_trans: "quiet s s' \<Longrightarrow> quiet s' s'' \<Longrightarrow> quiet s s''"
  by (auto simp: quiet_def intro: records_kept_trans)

lemma quiet_request: "quiet s s' \<Longrightarrow> ps_request s' = ps_request s"
  by (simp add: quiet_def records_kept_def)

lemma quiet_ok: "quiet s s' \<Longrightarrow> session_ok i s \<Longrightarrow> session_ok i s'"
  by (auto simp: quiet_def records_kept_def session_ok_def)

lemma send_signal_quiet: "quiet s (snd (send_signal os sig s))"
  by (auto simp: send_signal_def quiet_def records_kept_def split: option.splits)

lemma put_control_quiet: "quiet s (put_control i fp r s)"
  by (simp add: put_control_def quiet_def records_kept_def)

lemma cas_quiet: "quiet s (cas_completion c s)"
  by (simp add: cas_completion_def quiet_def records_kept_def)

lemma terminating_quiet: "quiet s (s\<lparr>ps_terminating := t\<rparr>)"
  by (simp add: quiet_def records_kept_def)

lemma timer_quiet: "quiet s (session_timer s)" "quiet s (session_load s)"
  by (simp_all add: session_timer_def session_load_def quiet_def records_kept_def)

lemma session_write_quiet: "quiet s (snd (session_write out fp req s))"
  by (auto simp: session_write_def quiet_def records_kept_def map_le_def Let_def split: option.splits prod.splits sum.splits)

lemma unit_control_quiet:
  assumes "\<And>s. quiet s (snd (act s))"
  shows "quiet s (snd (unit_control act completed i fp s))"
proof -
  obtain r s' where a: "act s = (r, s')" by force
  with assms [of s] have "quiet s s'" by simp
  then show ?thesis using a quiet_trans [OF _ put_control_quiet]
    by (auto simp: unit_control_def split: option.splits sum.splits)
qed

lemma terminate_begin_quiet: "quiet s (snd (terminate_begin i fp s))"
  using terminating_quiet put_control_quiet by (simp add: terminate_begin_def split: option.splits)

lemma terminate_signal_quiet: "quiet s (terminate_signal os s)"
proof -
  obtain f s' where a: "send_signal os Terminate (cas_completion CompletionTerminated s) = (f, s')" by force
  have "quiet s s'"
    using send_signal_quiet [of "cas_completion CompletionTerminated s" os Terminate] a cas_quiet quiet_trans by (metis snd_conv)
  then show ?thesis using a quiet_trans [OF _ terminating_quiet] by (auto simp: terminate_signal_def split: option.splits)
qed

lemma terminate_end_quiet: "quiet s (snd (terminate_end os s))"
proof -
  let ?s = "s\<lparr>ps_terminating := None\<rparr>"
  obtain f s' where a: "send_signal os Kill ?s = (f, s')" by force
  have s': "quiet s s'"
    using send_signal_quiet [of ?s os Kill] a quiet_trans [OF terminating_quiet] by (metis snd_conv)
  then show ?thesis using a quiet_trans [OF s' put_control_quiet] quiet_trans [OF terminating_quiet put_control_quiet]
    by (auto simp: terminate_end_def Let_def split: option.splits)
qed

lemma timeout_quiet: "quiet s (session_timeout os s)" "quiet s (session_timeout_kill os s)"
  using quiet_trans [OF cas_quiet send_signal_quiet] send_signal_quiet
  by (auto simp: session_timeout_def session_timeout_kill_def)

lemma inv_quiet:
  assumes "manager_inv env m" and "map_of (pm_sessions m) i = Some s" and "quiet s (f s)"
  shows "manager_inv env (on_session i f m)"
  using assms(3) quiet_ok [OF assms(3) manager_inv_session [OF assms(1,2)]]
  by (intro inv_on_session [OF assms(1,2)]) (auto simp: quiet_def records_kept_def)

lemma session_entry_Inr: "session_entry i m = Inr s \<longleftrightarrow> map_of (pm_sessions m) i = Some s"
  by (auto simp: session_entry_def split: option.splits)

lemma with_session_inv:
  assumes "manager_inv env m" and "with_session fp i act m = (r, m')" and "\<And>f s. quiet s (snd (act f s))"
  shows "manager_inv env m'"
proof (cases "rbind (session_entry i m) (\<lambda>s. rbind fp (\<lambda>fp. Inr (s, fp)))")
  case (Inl e)
  with assms(1,2) show ?thesis by (simp add: with_session_def)
next
  case (Inr x)
  then obtain s f where x: "map_of (pm_sessions m) i = Some s" "x = (s, f)"
    by (auto simp: rbind_Inr_iff session_entry_Inr)
  with Inr assms(2) have "m' = on_session i (\<lambda>_. snd (act f s)) m" by (auto simp: with_session_def split: prod.splits)
  with inv_quiet [OF assms(1) x(1), of "\<lambda>_. snd (act f s)"] assms(3) show ?thesis by simp
qed

lemma control_inv:
  assumes "manager_inv env m" and "(case checked of Inl e \<Rightarrow> (Inl e, m) | Inr _ \<Rightarrow> with_session fp i act m) = (r, m')"
    and "\<And>f s. quiet s (snd (act f s))"
  shows "manager_inv env m'"
  using assms(1,2) with_session_inv [OF assms(1) _ assms(3)] by (cases checked) auto

lemma pm_write_inv:
  assumes "manager_inv env m" and "pm_write env entered out req m = (r, m')"
  shows "manager_inv env m'"
  using assms(2) unfolding pm_write_def by (rule control_inv [OF assms(1)]) (rule session_write_quiet)

lemma resize_act_quiet: "quiet s (snd (unit_control (\<lambda>s. (control_resize failed (ps_control s), s)) completed i fp s))"
  by (rule unit_control_quiet) simp

lemma pm_resize_inv:
  assumes "manager_inv env m" and "pm_resize env entered failed req m = (r, m')"
  shows "manager_inv env m'"
  using assms(2) unfolding pm_resize_def by (rule control_inv [OF assms(1)]) (rule resize_act_quiet)

lemma signal_act_quiet:
  "quiet s (snd (unit_control (\<lambda>s. case send_signal os sig s of (None, s') \<Rightarrow> (Inr (), s') | (Some e, s') \<Rightarrow> (Inl (Fail e), s'))
     completed i fp s))"
proof (rule unit_control_quiet)
  show "quiet s (snd (case send_signal os sig s of (None, s') \<Rightarrow> (Inr (), s') | (Some e, s') \<Rightarrow> (Inl (Fail e), s')))" for s
    using send_signal_quiet [of s os sig] by (auto split: prod.splits option.splits)
qed

lemma pm_signal_inv:
  assumes "manager_inv env m" and "pm_signal env entered sig req m = (r, m')"
  shows "manager_inv env m'"
  using assms(2) unfolding pm_signal_def by (rule control_inv [OF assms(1)]) (rule signal_act_quiet)

lemma pm_terminate_inv:
  assumes "manager_inv env m" and "pm_terminate env entered req m = (r, m')"
  shows "manager_inv env m'"
  using assms(2) unfolding pm_terminate_def by (rule control_inv [OF assms(1)]) (rule terminate_begin_quiet)

subsection \<open>Starting\<close>

lemma mark_started_new:
  assumes "mark_started enc io now journal_create = (Inr t, j)"
  shows "j_state j = StRunning \<and> \<not> j_closed j \<and> j_finished_at j = None"
  using assms append_locked_keeps [of enc io now Started "journal_create\<lparr>j_state := StRunning, j_started_at := Some now\<rparr>"]
  by (fastforce simp: mark_started_def journal_create_def split: prod.splits sum.splits)

lemma start_checks_None:
  assumes "start_checks env fs resolving req m = Inr None"
  shows "execution_id req \<notin> fst ` set (pm_sessions m)" and "execution_id req \<notin> set (pm_retired m)"
    and "start_operation_id req \<notin> (\<lambda>(i, s). start_operation_id (ps_request s)) ` set (pm_sessions m)"
    and "pm_active m < lim_concurrent_processes (me_limits env)"
  using assms by (auto simp: start_checks_def map_of_eq_None_iff list_ex_iff split: option.splits if_splits)

lemma pm_start_cases:
  assumes "pm_start env fs os req m = (r, m')" and "lim_concurrent_processes (me_limits env) < 2 ^ 32"
    and "manager_inv env m"
  obtains "pm_sessions m' = pm_sessions m" and "m' = m"
  | j where "start_checks env fs (so_resolving os) req m = Inr None"
    and "m' = m\<lparr>pm_sessions := (execution_id req, (session_new req)\<lparr>ps_journal := j\<rparr>) # pm_sessions m,
           pm_active := Suc (pm_active m)\<rparr>"
    and "j_state j = StRunning \<and> \<not> j_closed j \<and> j_finished_at j = None"
proof -
  consider (same) "m' = m" | (installed) "start_checks env fs (so_resolving os) req m = Inr None"
      "install_session env (so_append os) (so_now os) req m = (r, m')"
    using assms(1) by (auto simp: pm_start_def rbind_Inr_iff split: sum.splits option.splits)
  then show ?thesis
  proof cases
    case same
    with that(1) show ?thesis by simp
  next
    case installed
    have "pm_active m < 2 ^ 32 - 1" using start_checks_None(4) [OF installed(1)] assms(2) by simp
    then have u: "u32_inc (pm_active m) = Suc (pm_active m)" "u32_dec (Suc (pm_active m)) = pm_active m"
      by (simp_all add: u32_inc_def u32_dec_def)
    show ?thesis
    proof (cases "mark_started (me_encode env) (so_append os) (so_now os) journal_create")
      case (Pair r1 j)
      show ?thesis
      proof (cases r1)
        case (Inl e)
        with Pair installed(2) u have "m' = m" by (simp add: install_session_def)
        with that(1) show ?thesis by simp
      next
        case (Inr t)
        with Pair installed(2) u have "m' = m\<lparr>pm_sessions := (execution_id req, (session_new req)\<lparr>ps_journal := j\<rparr>) # pm_sessions m,
           pm_active := Suc (pm_active m)\<rparr>" by (simp add: install_session_def Let_def)
        with that(2) installed(1) mark_started_new Pair Inr show ?thesis by blast
      qed
    qed
  qed
qed

lemma pm_start_inv:
  assumes "manager_inv env m" and "pm_start env fs os req m = (r, m')"
    and "lim_concurrent_processes (me_limits env) < 2 ^ 32"
  shows "manager_inv env m'"
  using assms(2,3,1)
proof (cases rule: pm_start_cases)
  case (2 j)
  have "session_ok (execution_id req) ((session_new req)\<lparr>ps_journal := j\<rparr>)"
    using 2(3) by (auto simp: session_ok_def session_new_def)
  with start_checks_None [OF 2(1)] assms(1) 2(2) show ?thesis
    by (auto simp: manager_inv_def live_sessions_def session_new_def)
qed (use assms(1) in simp)

subsection \<open>Tasks\<close>

lemma session_output_ok:
  assumes "session_ok i s"
  shows "session_ok i (session_output env io now stream bytes s)"
  using assms append_output_keeps [of "me_encode env" io now stream bytes "ps_journal s"]
  by (cases "append_output (me_encode env) io now stream bytes (ps_journal s)") (auto simp: session_ok_def session_output_def)

lemma session_exit_ok:
  assumes "session_ok i s" and "ps_task s = TaskRunning"
  shows "session_ok i (session_exit env io now exit_status s)"
proof (cases "output_drain_timeout_ms (ps_request s) = None \<or> isl exit_status")
  case True
  with assms show ?thesis by (auto simp: session_ok_def session_exit_def split: option.splits sum.splits)
next
  case False
  then obtain d c where d: "output_drain_timeout_ms (ps_request s) = Some d" "exit_status = Inr c"
    by (cases exit_status) auto
  obtain r j where m: "mark_exited (me_encode env) io now c (final_state (loaded_completion s)) (ps_journal s) = (r, j)" by force
  have "j_state j = final_state (loaded_completion s)" "j_closed j = j_closed (ps_journal s)" "j_finished_at j = j_finished_at (ps_journal s)"
    using mark_exited_keeps [OF m] assms by (auto simp: session_ok_def)
  with d m assms show ?thesis by (cases "loaded_completion s") (auto simp: session_ok_def session_exit_def final_state_def)
qed

lemma completed_state:
  assumes "st' \<in> {StFailed, if is_terminal st then st else final_state c} \<or> st' = st"
    and "st \<in> {StRunning, StExited, StCancelled, StFailed}"
  shows "st' \<in> {StRunning, StExited, StCancelled, StFailed}"
  using assms by (cases c) (auto simp: final_state_def)

lemma session_complete_ok:
  assumes "session_ok i s" and "ps_task s = TaskDraining exit_status"
  shows "session_ok i (session_complete env io now failure s)"
proof -
  let ?j = "complete_journal (me_encode env) io now (loaded_completion s) exit_status failure (ps_journal s)"
  have f: "j_finished_at (ps_journal s) \<noteq> None \<longrightarrow> j_closed (ps_journal s)" using assms(1) by (simp add: session_ok_def)
  note k = complete_journal_keeps [OF f, of "me_encode env" io now "loaded_completion s" exit_status failure]
  have a: "j_state (ps_journal s) \<in> {StRunning, StExited, StCancelled, StFailed}"
    using assms(1) unfolding session_ok_def by blast
  note st = completed_state [OF k(2) a]
  define j where "j = ?j"
  have "session_complete env io now failure s = s\<lparr>ps_task := TaskFinished, ps_control := close_pty (ps_control s), ps_journal := j\<rparr>"
    using assms(2) by (simp add: session_complete_def j_def)
  moreover have "j_closed (ps_journal s) \<longrightarrow> is_terminal (j_state (ps_journal s))" using assms(1) by (simp add: session_ok_def)
  ultimately show ?thesis using assms(1) k(1) [folded j_def] k(3) [folded j_def] st [folded j_def] by (simp add: session_ok_def)
qed

lemma pm_cleanup_cases:
  assumes "manager_inv env m"
  obtains "pm_cleanup env now i m = m"
  | s where "map_of (pm_sessions m) i = Some s" and "ps_task s = TaskFinished"
    and "pm_cleanup env now i m = m\<lparr>pm_retired := i # pm_retired m, pm_sessions := filter (\<lambda>(k, _). k \<noteq> i) (pm_sessions m)\<rparr>"
proof (cases "map_of (pm_sessions m) i")
  case (Some s)
  have "finished_for now (ps_journal s) \<noteq> None \<Longrightarrow> ps_task s = TaskFinished"
    using manager_inv_session [OF assms Some] by (auto simp: session_ok_def finished_for_def)
  with Some that show ?thesis
    by (cases "finished_for now (ps_journal s)"; cases "lim_retention_ms (me_limits env) \<le> the (finished_for now (ps_journal s))")
       (auto simp: pm_cleanup_def)
qed (use that in \<open>simp add: pm_cleanup_def\<close>)

lemma filter_keys_frame:
  "i \<notin> fst ` set xs \<Longrightarrow> filter (\<lambda>(k, _). k \<noteq> i) xs = xs"
  by (induction xs) auto

lemma pm_cleanup_inv:
  assumes "manager_inv env m"
  shows "manager_inv env (pm_cleanup env now i m)"
  using assms
proof (cases rule: pm_cleanup_cases [where now = now and i = i])
  case (2 s)
  from assms have d: "distinct (map fst (pm_sessions m))" by (simp add: manager_inv_def)
  from session_split [OF d 2(1)] obtain xs ys where sp: "pm_sessions m = xs @ (i, s) # ys" by blast
  with d have "i \<notin> fst ` set xs" "i \<notin> fst ` set ys" by auto
  then have "filter (\<lambda>(k, _). k \<noteq> i) (pm_sessions m) = xs @ ys" using sp by (simp add: filter_keys_frame)
  with 2 sp assms show ?thesis by (auto simp: manager_inv_def live_sessions_def)
qed (use assms in simp)

lemma inv_map_quiet:
  assumes "manager_inv env m" and q: "\<And>s. quiet s (f s)"
  shows "manager_inv env (m\<lparr>pm_sessions := map (\<lambda>(k, s). (k, f s)) (pm_sessions m)\<rparr>)"
proof -
  define ys where "ys = map (\<lambda>(k, s). (k, f s)) (pm_sessions m)"
  have "map (\<lambda>(i, s). start_operation_id (ps_request s)) ys = map (\<lambda>(i, s). start_operation_id (ps_request s)) (pm_sessions m)"
    using quiet_request [OF q] by (auto simp: ys_def)
  moreover have "length (filter (\<lambda>(i, s). ps_task s \<noteq> TaskFinished) (map (\<lambda>(k, s). (k, f s)) xs)) =
      length (filter (\<lambda>(i, s). ps_task s \<noteq> TaskFinished) xs)" for xs
    using q by (induction xs) (auto simp: quiet_def)
  from this [of "pm_sessions m", folded ys_def]
  have "length (filter (\<lambda>(i, s). ps_task s \<noteq> TaskFinished) ys) = length (filter (\<lambda>(i, s). ps_task s \<noteq> TaskFinished) (pm_sessions m))" .
  moreover have keys: "map fst ys = map fst (pm_sessions m)" by (auto simp: ys_def)
  moreover from keys have "fst ` set ys = fst ` set (pm_sessions m)" by (metis set_map)
  moreover have "\<forall>(i, s) \<in> set ys. session_ok i s"
    using assms(1) quiet_ok [OF q] by (auto simp: ys_def manager_inv_def)
  ultimately show ?thesis using assms(1) unfolding ys_def [symmetric]
    by (simp add: manager_inv_def live_sessions_def)
qed

lemma manager_inv_shutdown [simp]: "manager_inv env (m\<lparr>pm_shutdown := b\<rparr>) = manager_inv env m"
  by (simp add: manager_inv_def live_sessions_def)

lemma pm_shut_down_inv:
  assumes "manager_inv env m"
  shows "manager_inv env (pm_shut_down sig m)"
  using inv_map_quiet [of env "m\<lparr>pm_shutdown := True\<rparr>" "\<lambda>s. if journal_is_running (ps_journal s) then snd (send_signal sig Kill s) else s"]
    assms by (simp add: pm_shut_down_def send_signal_quiet)

subsection \<open>Every run\<close>

lemma pm_step_inv:
  assumes "pm_step env m fresh m'" and "manager_inv env m" and "lim_concurrent_processes (me_limits env) < 2 ^ 32"
  shows "manager_inv env m'"
  using assms(1)
proof cases
  case (terminate_signal i s sig)
  then show ?thesis using inv_quiet [OF assms(2) terminate_signal(3)] terminate_signal_quiet by (simp add: pm_terminate_signal_def)
next
  case (timer i s)
  show ?thesis unfolding timer(2) by (rule inv_quiet [OF assms(2) timer(3)]) (rule timer_quiet(1))
next
  case (load i s)
  show ?thesis unfolding load(2) by (rule inv_quiet [OF assms(2) load(3)]) (rule timer_quiet(2))
next
  case (terminate_end i s op_id fp failed sig)
  then show ?thesis using inv_quiet [OF assms(2) terminate_end(3)] terminate_end_quiet by (simp add: pm_terminate_end_def)
next
  case (terminate_drop i s)
  then show ?thesis using inv_quiet [OF assms(2) terminate_drop(3)] terminating_quiet by (simp add: pm_terminate_drop_def)
next
  case (output_chunk i s io now stream bytes)
  show ?thesis unfolding output_chunk(2)
    by (rule inv_on_session [OF assms(2) output_chunk(3)])
       (use session_output_ok [OF manager_inv_session [OF assms(2) output_chunk(3)]] in \<open>simp_all add: session_output_def\<close>)
next
  case (exit i s io now exit_status)
  show ?thesis unfolding exit(2)
    by (rule inv_on_session [OF assms(2) exit(3)])
       (use session_exit_ok [OF manager_inv_session [OF assms(2) exit(3)] exit(4)] exit(4) in
         \<open>auto simp: session_exit_def split: option.splits sum.splits\<close>)
next
  case (drain_stop i s)
  show ?thesis unfolding drain_stop(2)
    by (rule inv_on_session [OF assms(2) drain_stop(3)])
       (use manager_inv_session [OF assms(2) drain_stop(3)] in \<open>simp_all add: session_ok_def\<close>)
next
  case (complete i s exit_status ios now failure)
  show ?thesis unfolding complete(2) pm_complete_def
    by (rule inv_complete(1) [OF assms(2) complete(3)])
       (use session_complete_ok [OF manager_inv_session [OF assms(2) complete(3)] complete(4)] complete(4) assms(3) in
         \<open>simp_all add: session_complete_def\<close>)
next
  case (start fs os req r)
  show ?thesis by (rule pm_start_inv [OF assms(2) start(2) assms(3)])
next
  case (input entered out req r)
  show ?thesis by (rule pm_write_inv [OF assms(2) input(2)])
next
  case (resize entered failed req r)
  show ?thesis by (rule pm_resize_inv [OF assms(2) resize(2)])
next
  case (signal entered sig req r)
  show ?thesis by (rule pm_signal_inv [OF assms(2) signal(2)])
next
  case (terminate entered req r')
  show ?thesis by (rule pm_terminate_inv [OF assms(2) terminate(2)])
next
  case (timeout i s sig)
  show ?thesis unfolding timeout(2) by (rule inv_quiet [OF assms(2) timeout(3)]) (rule timeout_quiet(1))
next
  case (timeout_kill i s sig)
  show ?thesis unfolding timeout_kill(2) by (rule inv_quiet [OF assms(2) timeout_kill(3)]) (rule timeout_quiet(2))
next
  case (cleanup now i)
  show ?thesis unfolding cleanup(2) by (rule pm_cleanup_inv [OF assms(2)])
next
  case (shut_down sig)
  show ?thesis unfolding shut_down(2) by (rule pm_shut_down_inv [OF assms(2)])
qed

definition known_ids :: "manager \<Rightarrow> string set" where
  "known_ids m = fst ` set (pm_sessions m) \<union> set (pm_retired m)"

lemma known_on_session [simp]: "known_ids (on_session i f m) = known_ids m"
  by (simp add: known_ids_def)

lemma known_with_session: "with_session fp i act m = (r, m') \<Longrightarrow> known_ids m' = known_ids m"
  by (auto simp: with_session_def split: sum.splits prod.splits)

lemma known_checked:
  "(case checked of Inl e \<Rightarrow> (Inl e, m) | Inr _ \<Rightarrow> with_session fp i act m) = (r, m') \<Longrightarrow> known_ids m' = known_ids m"
  using known_with_session [of fp i act m] by (cases checked) simp_all

lemma known_requests:
  "pm_write env entered out wreq m = (r1, m') \<Longrightarrow> known_ids m' = known_ids m"
  "pm_resize env entered failed rreq m = (r2, m') \<Longrightarrow> known_ids m' = known_ids m"
  "pm_signal env entered sig sreq m = (r3, m') \<Longrightarrow> known_ids m' = known_ids m"
  "pm_terminate env entered treq m = (r4, m') \<Longrightarrow> known_ids m' = known_ids m"
  unfolding pm_write_def pm_resize_def pm_signal_def pm_terminate_def by (erule known_checked)+

lemma known_cleanup:
  assumes "manager_inv env m"
  shows "known_ids (pm_cleanup env now i m) = known_ids m"
  using assms
proof (cases rule: pm_cleanup_cases [where now = now and i = i])
  case (2 s)
  then have "i \<in> fst ` set (pm_sessions m)" by (force dest: map_of_SomeD)
  with 2(3) show ?thesis by (force simp: known_ids_def)
qed simp

lemma known_step:
  assumes "pm_step env m fresh m'" and "manager_inv env m" and "lim_concurrent_processes (me_limits env) < 2 ^ 32"
  shows "distinct fresh \<and> set fresh \<inter> known_ids m = {} \<and> known_ids m' = known_ids m \<union> set fresh"
  using assms(1)
proof cases
  case (start fs os req r)
  from start(2) assms(3,2) show ?thesis
  proof (cases rule: pm_start_cases)
    case (2 j)
    with start(1) start_checks_None(1,2) [OF 2(1)] show ?thesis by (auto simp: known_ids_def)
  qed (use start(1) in simp)
next
  case (shut_down sig)
  have "fst ` (\<lambda>(k, s). (k, g s)) ` A = fst ` A" for g :: "process_session \<Rightarrow> process_session" and A :: "(string \<times> process_session) set"
    by force
  with shut_down show ?thesis by (simp add: known_ids_def pm_shut_down_def)
qed (use known_requests known_cleanup [OF assms(2)] in
      \<open>auto simp: pm_terminate_signal_def pm_terminate_end_def pm_terminate_drop_def pm_complete_def known_ids_def\<close>)

lemma pm_run_inv:
  assumes "pm_run env installed m" and "lim_concurrent_processes (me_limits env) < 2 ^ 32"
  shows "manager_inv env m \<and> distinct installed \<and> set installed = known_ids m"
  using assms(1)
proof induction
  case new
  show ?case by (simp add: manager_new_def manager_inv_def live_sessions_def known_ids_def)
next
  case (stepped installed m fresh m')
  with known_step [OF stepped(2) _ assms(2)] pm_step_inv [OF stepped(2) _ assms(2)] show ?case by auto
qed

text \<open>The status of a session only leaves \<open>StRunning\<close> once its child has ended.\<close>

lemma restart_refused:
  assumes "manager_inv env m" and "execution_id req \<in> known_ids m"
  shows "snd (pm_start env fs os req m) = m"
    and "fst (pm_start env fs os req m) = Inr h \<Longrightarrow> \<exists>s. map_of (pm_sessions m) (execution_id req) = Some s \<and>
       ps_request s = req \<and> h = session_handle env s"
proof -
  have c: "start_checks env fs w req m = Inr x \<Longrightarrow> \<exists>s. map_of (pm_sessions m) (execution_id req) = Some s \<and>
      ps_request s = req \<and> x = Some (session_handle env s)" for w x
  proof (cases "map_of (pm_sessions m) (execution_id req)")
    case None
    then have "execution_id req \<in> set (pm_retired m)" using assms(2) by (auto simp: known_ids_def map_of_eq_None_iff)
    with None show "start_checks env fs w req m = Inr x \<Longrightarrow> ?thesis" by (simp add: start_checks_def)
  qed (auto simp: start_checks_def split: if_splits)
  show "snd (pm_start env fs os req m) = m"
    using c by (auto simp: pm_start_def rbind_Inr_iff split: sum.splits option.splits)
  show "fst (pm_start env fs os req m) = Inr h \<Longrightarrow> \<exists>s. map_of (pm_sessions m) (execution_id req) = Some s \<and>
       ps_request s = req \<and> h = session_handle env s"
    using c by (fastforce simp: pm_start_def rbind_Inr_iff split: sum.splits option.splits)
qed

subsection \<open>Sessions over time\<close>

lemma map_of_on_session:
  "map_of (pm_sessions (on_session i f m)) k = (if k = i then map_option f (map_of (pm_sessions m) i) else map_of (pm_sessions m) k)"
proof -
  have "map_of (map (\<lambda>(k, s). (k, if k = i then f s else s)) xs) k =
      (if k = i then map_option f (map_of xs i) else map_of xs k)" for xs
    by (induction xs) auto
  then show ?thesis by (simp add: on_session_def)
qed

text \<open>The session keeps its records, or it is retired.\<close>

definition kept_or_retired :: "string \<Rightarrow> process_session \<Rightarrow> manager \<Rightarrow> bool" where
  "kept_or_retired i s m' \<longleftrightarrow>
     (\<exists>s'. map_of (pm_sessions m') i = Some s' \<and> records_kept s s') \<or>
     map_of (pm_sessions m') i = None \<and> i \<in> set (pm_retired m')"

lemma kept_on_session:
  assumes "map_of (pm_sessions m) i = Some s" and "\<And>s. map_of (pm_sessions m) k = Some s \<Longrightarrow> records_kept s (f s)"
  shows "kept_or_retired i s (on_session k f m)"
  using assms by (auto simp: kept_or_retired_def map_of_on_session)

lemma kept_with_session:
  assumes "map_of (pm_sessions m) i = Some s" and "with_session fp k act m = (r, m')"
    and "\<And>f s. quiet s (snd (act f s))"
  shows "kept_or_retired i s m'"
proof (cases "rbind (session_entry k m) (\<lambda>s. rbind fp (\<lambda>fp. Inr (s, fp)))")
  case (Inl e)
  with assms(1,2) show ?thesis by (simp add: with_session_def kept_or_retired_def)
next
  case (Inr x)
  then obtain t f where x: "map_of (pm_sessions m) k = Some t" "x = (t, f)"
    by (auto simp: rbind_Inr_iff session_entry_Inr)
  with Inr assms(2) have "m' = on_session k (\<lambda>_. snd (act f t)) m" by (auto simp: with_session_def split: prod.splits)
  moreover have "records_kept t (snd (act f t))" using assms(3) by (simp add: quiet_def)
  ultimately show ?thesis using kept_on_session [OF assms(1), of k "\<lambda>_. snd (act f t)"] x by simp
qed

lemma kept_checked:
  assumes "map_of (pm_sessions m) i = Some s"
    and "(case checked of Inl e \<Rightarrow> (Inl e, m) | Inr _ \<Rightarrow> with_session fp k act m) = (r, m')"
    and "\<And>f s. quiet s (snd (act f s))"
  shows "kept_or_retired i s m'"
proof (cases checked)
  case (Inl e)
  with assms(1,2) show ?thesis by (simp add: kept_or_retired_def)
next
  case (Inr x)
  with assms(2) have "with_session fp k act m = (r, m')" by simp
  with assms(1,3) show ?thesis by (intro kept_with_session)
qed

lemma kept_cleanup:
  assumes "map_of (pm_sessions m) i = Some s" and "manager_inv env m"
  shows "kept_or_retired i s (pm_cleanup env now k m)"
  using assms(2)
proof (cases rule: pm_cleanup_cases [where now = now and i = k])
  case (2 t)
  have "map_of (filter (\<lambda>(x, _). x \<noteq> k) xs) i = (if i = k then None else map_of xs i)" for xs :: "(string \<times> process_session) list"
    by (induction xs) auto
  with 2(3) assms(1) show ?thesis by (simp add: kept_or_retired_def)
qed (use assms in \<open>simp add: kept_or_retired_def\<close>)

lemma kept_shut_down:
  assumes "map_of (pm_sessions m) i = Some s"
  shows "kept_or_retired i s (pm_shut_down sig m)"
proof -
  have "map_of (map (\<lambda>(k, s). (k, g s)) xs) i = map_option g (map_of xs i)" for g :: "process_session \<Rightarrow> process_session" and xs
    by (induction xs) auto
  moreover have "records_kept s (snd (send_signal sig Kill s))" using send_signal_quiet by (simp add: quiet_def)
  ultimately show ?thesis using assms by (simp add: kept_or_retired_def pm_shut_down_def)
qed

lemma kept_start:
  assumes "map_of (pm_sessions m) i = Some s" and "pm_start env fs os req m = (r, m')"
    and "manager_inv env m" and "lim_concurrent_processes (me_limits env) < 2 ^ 32"
  shows "kept_or_retired i s m'"
  using assms(2,4,3)
proof (cases rule: pm_start_cases)
  case (2 j)
  then have "execution_id req \<noteq> i" using start_checks_None(1) [OF 2(1)] assms(1) by (force dest: map_of_SomeD)
  with 2(2) assms(1) show ?thesis by (simp add: kept_or_retired_def)
qed (use assms(1) in \<open>simp add: kept_or_retired_def\<close>)

lemma quiet_kept: "quiet s s' \<Longrightarrow> records_kept s s'"
  by (simp add: quiet_def)

lemma task_kept:
  shows "ps_task s \<noteq> TaskFinished \<Longrightarrow> records_kept s (session_output env io now stream bytes s)"
    and "session_ok i s \<Longrightarrow> ps_task s = TaskRunning \<Longrightarrow> records_kept s (session_exit env io now exit_status s)"
    and "session_ok i s \<Longrightarrow> records_kept s (session_complete env ios now failure s)"
    and "records_kept s (s\<lparr>ps_output_stop := True\<rparr>)"
proof -
  obtain r j' where "append_output (me_encode env) io now stream bytes (ps_journal s) = (r, j')" by force
  with append_output_grown [OF this] show "records_kept s (session_output env io now stream bytes s)" if "ps_task s \<noteq> TaskFinished"
    using that by (simp add: records_kept_def session_output_def)
  show "records_kept s (session_exit env io now exit_status s)" if "session_ok i s" "ps_task s = TaskRunning"
  proof -
    have "grown (ps_journal s) (snd (mark_exited (me_encode env) io now c st (ps_journal s)))" for c st
      by (metis mark_exited_grown prod.collapse)
    with that show ?thesis
      by (auto simp: records_kept_def session_exit_def session_ok_def split: option.splits sum.splits)
  qed
  show "records_kept s (session_complete env ios now failure s)" if "session_ok i s"
    using that complete_journal_keeps(4) [of "ps_journal s" "me_encode env" ios now "loaded_completion s" _ failure]
    by (auto simp: records_kept_def session_complete_def session_ok_def split: task_phase.splits)
qed (simp add: records_kept_def)

lemma kept_step:
  assumes "pm_step env m fresh m'" and "map_of (pm_sessions m) i = Some s"
    and "manager_inv env m" and "lim_concurrent_processes (me_limits env) < 2 ^ 32"
  shows "kept_or_retired i s m'"
  using assms(1)
proof cases
  case (start fs os req r)
  show ?thesis by (rule kept_start [OF assms(2) start(2) assms(3,4)])
next
  case (input entered out req r)
  show ?thesis by (rule kept_checked [OF assms(2) input(2) [unfolded pm_write_def]]) (rule session_write_quiet)
next
  case (resize entered failed req r)
  show ?thesis by (rule kept_checked [OF assms(2) resize(2) [unfolded pm_resize_def]]) (rule resize_act_quiet)
next
  case (signal entered sig req r)
  show ?thesis by (rule kept_checked [OF assms(2) signal(2) [unfolded pm_signal_def]]) (rule signal_act_quiet)
next
  case (terminate entered req r')
  show ?thesis by (rule kept_checked [OF assms(2) terminate(2) [unfolded pm_terminate_def]]) (rule terminate_begin_quiet)
next
  case (terminate_signal k t sig)
  show ?thesis unfolding terminate_signal(2) pm_terminate_signal_def
    by (rule kept_on_session [OF assms(2)]) (rule quiet_kept, rule terminate_signal_quiet)
next
  case (timer k t)
  show ?thesis unfolding timer(2) by (rule kept_on_session [OF assms(2)]) (rule quiet_kept, rule timer_quiet)
next
  case (load k t)
  show ?thesis unfolding load(2) by (rule kept_on_session [OF assms(2)]) (rule quiet_kept, rule timer_quiet)
next
  case (terminate_end k t op_id fp failed sig)
  show ?thesis unfolding terminate_end(2) pm_terminate_end_def
    by (rule kept_on_session [OF assms(2)]) (rule quiet_kept, rule terminate_end_quiet)
next
  case (terminate_drop k t)
  show ?thesis unfolding terminate_drop(2) pm_terminate_drop_def
    by (rule kept_on_session [OF assms(2)]) (rule quiet_kept, rule terminating_quiet)
next
  case (timeout k t sig)
  show ?thesis unfolding timeout(2) by (rule kept_on_session [OF assms(2)]) (rule quiet_kept, rule timeout_quiet)
next
  case (timeout_kill k t sig)
  show ?thesis unfolding timeout_kill(2) by (rule kept_on_session [OF assms(2)]) (rule quiet_kept, rule timeout_quiet)
next
  case (complete k t exit_status ios now failure)
  have "kept_or_retired i s (on_session k (session_complete env ios now failure) m)"
    by (rule kept_on_session [OF assms(2)]) (rule task_kept(3) [OF manager_inv_session [OF assms(3)]])
  then show ?thesis unfolding complete(2) pm_complete_def by (simp add: kept_or_retired_def)
next
  case (output_chunk k t io now stream bytes)
  show ?thesis unfolding output_chunk(2)
    by (rule kept_on_session [OF assms(2)]) (use output_chunk(3,4) task_kept(1) in simp)
next
  case (exit k t io now exit_status)
  show ?thesis unfolding exit(2)
    by (rule kept_on_session [OF assms(2)]) (use exit(3,4) task_kept(2) [OF manager_inv_session [OF assms(3)]] in simp)
next
  case (cleanup now k)
  show ?thesis unfolding cleanup(2) by (rule kept_cleanup [OF assms(2,3)])
next
  case (shut_down sig)
  show ?thesis unfolding shut_down(2) by (rule kept_shut_down [OF assms(2)])
qed (simp_all add: kept_on_session [OF assms(2)] task_kept)

text \<open>Any number of further transitions.\<close>

inductive pm_later :: "manager_env \<Rightarrow> manager \<Rightarrow> manager \<Rightarrow> bool" for env m where
  now: "pm_later env m m"
| later: "pm_later env m m1 \<Longrightarrow> pm_step env m1 fresh m2 \<Longrightarrow> pm_later env m m2"

lemma retired_step:
  assumes "pm_step env m fresh m'" and "manager_inv env m" and "lim_concurrent_processes (me_limits env) < 2 ^ 32"
    and "map_of (pm_sessions m) i = None" and "i \<in> set (pm_retired m)"
  shows "map_of (pm_sessions m') i = None \<and> i \<in> set (pm_retired m')"
proof -
  have sub: "set (pm_retired m) \<subseteq> set (pm_retired m')" using assms(1)
  proof cases
    case (start fs os req r)
    from start(2) assms(3,2) show ?thesis by (cases rule: pm_start_cases) auto
  next
    case (cleanup now k)
    show ?thesis unfolding cleanup(2) using assms(2) by (cases rule: pm_cleanup_cases [where now = now and i = k]) auto
  qed (auto simp: pm_write_def pm_resize_def pm_signal_def pm_terminate_def with_session_def pm_terminate_signal_def pm_terminate_end_def
      pm_terminate_drop_def pm_complete_def pm_shut_down_def split: sum.splits prod.splits)
  moreover have "set (pm_retired m') \<inter> fst ` set (pm_sessions m') = {}"
    using pm_step_inv [OF assms(1-3)] by (simp add: manager_inv_def)
  ultimately show ?thesis using assms(5) by (auto simp: map_of_eq_None_iff)
qed

lemma kept_later:
  assumes "pm_later env m m'" and "map_of (pm_sessions m) i = Some s"
    and "manager_inv env m" and "lim_concurrent_processes (me_limits env) < 2 ^ 32"
  shows "manager_inv env m' \<and> kept_or_retired i s m'"
  using assms(1)
proof induction
  case now
  with assms(2,3) show ?case by (simp add: kept_or_retired_def)
next
  case (later m1 fresh m2)
  then have inv: "manager_inv env m1" and k: "kept_or_retired i s m1" by simp_all
  note inv2 = pm_step_inv [OF later(2) inv assms(4)]
  from k show ?case unfolding kept_or_retired_def [of i s m1]
  proof (elim disjE exE conjE)
    fix s1
    assume s1: "map_of (pm_sessions m1) i = Some s1" "records_kept s s1"
    from kept_step [OF later(2) s1(1) inv assms(4)] s1(2) inv2 show ?thesis
      unfolding kept_or_retired_def by (blast intro: records_kept_trans)
  next
    assume "map_of (pm_sessions m1) i = None" "i \<in> set (pm_retired m1)"
    from retired_step [OF later(2) inv assms(4) this] inv2 show ?thesis by (simp add: kept_or_retired_def)
  qed
qed

lemma on_session_same:
  assumes "distinct (map fst (pm_sessions m))" and "map_of (pm_sessions m) i = Some s"
  shows "on_session i (\<lambda>_. s) m = m"
proof -
  obtain xs ys where "pm_sessions m = xs @ (i, s) # ys" "pm_sessions (on_session i (\<lambda>_. s) m) = xs @ (i, s) # ys"
    using session_split [OF assms, of "\<lambda>_. s"] by blast
  then have "pm_sessions (on_session i (\<lambda>_. s) m) = pm_sessions m" by simp
  then show ?thesis by (cases m) (simp add: on_session_def)
qed

lemma session_write_accepted:
  assumes "session_write out fp req s = (Inr Accepted, s')"
  shows "map_of (ps_input_records s') (write_id req) = Some \<lparr>ir_fingerprint = fp, ir_status = Accepted\<rparr>"
  using assms by (auto simp: session_write_def repeated_status_def Let_def split: option.splits if_splits prod.splits sum.splits)

lemma pm_write_Inr:
  assumes "pm_write env entered out req m = (Inr st, m')"
  obtains s fp s' where "entered = Inr ()" and "input_generation_id req = me_generation env"
    and "input_size (input_payload req) \<le> lim_process_input_bytes (me_limits env)"
    and "map_of (pm_sessions m) (input_execution_id req) = Some s"
    and "request_fingerprint env (me_input_json env req) = Inr fp"
    and "session_write out fp req s = (Inr st, s')"
    and "m' = on_session (input_execution_id req) (\<lambda>_. s') m"
  using assms
  by (auto simp: pm_write_def with_session_def rbind_Inr_iff session_entry_Inr validate_generation_def
      split: sum.splits prod.splits)

lemma pm_write_recorded:
  assumes "input_generation_id req = me_generation env"
    and "input_size (input_payload req) \<le> lim_process_input_bytes (me_limits env)"
    and "request_fingerprint env (me_input_json env req) = Inr fp"
    and "map_of (pm_sessions m) (input_execution_id req) = Some s"
    and "map_of (ps_input_records s) (write_id req) = Some \<lparr>ir_fingerprint = fp, ir_status = Accepted\<rparr>"
    and "distinct (map fst (pm_sessions m))"
  shows "pm_write env (Inr ()) out req m = (Inr AlreadyAccepted, m)"
proof -
  have "session_write out fp req s = (Inr AlreadyAccepted, s)"
    using assms(5) by (simp add: session_write_def repeated_status_def)
  then show ?thesis using assms on_session_same [OF assms(6,4)]
    by (simp add: pm_write_def with_session_def validate_generation_def session_entry_def)
qed

subsection \<open>The end of a session\<close>

definition encodes :: "event_encoder \<Rightarrow> bool" where
  "encodes enc \<longleftrightarrow> (\<forall>ev. \<exists>x. enc ev = Inr x)"

lemma append_locked_succeeds:
  assumes "encodes enc"
  shows "\<exists>j'. append_locked enc AppendOk now ev j = (Inr (), j')"
proof -
  obtain x where "enc \<lparr>sequence = sat_add (j_next_sequence j) (max (event_output_bytes ev) 1 - 1), timestamp = now, event = ev\<rparr> = Inr x"
    using assms by (auto simp: encodes_def)
  then show ?thesis by (simp add: append_locked_def Let_def)
qed

lemma close_journal_succeeds:
  assumes "encodes enc" and "\<not> j_closed j"
  shows "\<exists>j'. close_journal enc AppendOk now j = (Inr (), j') \<and> j_closed j' \<and> j_finished_at j' = Some now \<and> j_state j' = j_state j"
proof -
  obtain j1 where a: "append_locked enc AppendOk now Closed j = (Inr (), j1)" using append_locked_succeeds [OF assms(1)] by blast
  with append_locked_keeps [OF a] assms(2) show ?thesis by (auto simp: close_journal_def close_finished_def)
qed

lemma finish_failed_succeeds:
  assumes "encodes enc" and "\<not> j_closed j"
  shows "\<exists>j'. finish_failed enc AppendOk AppendOk now msg j = (Inr (), j') \<and> j_closed j' \<and> j_finished_at j' = Some now \<and> j_state j' = StFailed"
proof -
  obtain j1 where a: "append_locked enc AppendOk now (Failed msg) (j\<lparr>j_state := StFailed\<rparr>) = (Inr (), j1)"
    using append_locked_succeeds [OF assms(1)] by blast
  obtain j2 where b: "append_locked enc AppendOk now Closed j1 = (Inr (), j2)" using append_locked_succeeds [OF assms(1)] by blast
  from a b append_locked_keeps [OF a] append_locked_keeps [OF b] assms(2) show ?thesis
    by (auto simp: finish_failed_def close_finished_def)
qed

lemma finish_exited_succeeds:
  assumes "encodes enc" and "\<not> j_closed j"
  shows "\<exists>j'. finish_exited enc AppendOk AppendOk now c st j = (Inr (), j') \<and> j_closed j' \<and> j_finished_at j' = Some now \<and>
     j_state j' = (if is_terminal (j_state j) then j_state j else st)"
proof -
  obtain j1 where a: "mark_exited enc AppendOk now c st j = (Inr (), j1)"
    using append_locked_succeeds [OF assms(1), of now "Exited c" "j\<lparr>j_state := st, j_exit_code := Some c\<rparr>"]
    by (cases "is_terminal (j_state j)") (auto simp: mark_exited_def)
  from mark_exited_keeps [OF a] assms(2) have k: "\<not> j_closed j1" "j_state j1 = (if is_terminal (j_state j) then j_state j else st)"
    by auto
  from close_journal_succeeds [OF assms(1) k(1), of now] a k(2) show ?thesis by (auto simp: finish_exited_def)
qed

lemma complete_journal_succeeds:
  assumes "encodes enc" and "\<not> j_closed j"
  shows "j_closed (complete_journal enc (\<lambda>_. AppendOk) now c exit_status failure j) \<and>
     j_finished_at (complete_journal enc (\<lambda>_. AppendOk) now c exit_status failure j) = Some now \<and>
     j_state (complete_journal enc (\<lambda>_. AppendOk) now c exit_status failure j) =
       (if isl exit_status \<or> failure \<noteq> None then StFailed
        else if is_terminal (j_state j) then j_state j else final_state c)"
proof -
  have close: "snd (close_journal enc AppendOk now j') = j'" if "j_closed j'" for j' using that by (simp add: close_journal_def)
  consider (failed) msg where "isl exit_status \<or> failure \<noteq> None" "complete_journal enc (\<lambda>_. AppendOk) now c exit_status failure j =
        (case finish_failed enc AppendOk AppendOk now msg j of (Inr _, j1) \<Rightarrow> snd (close_journal enc AppendOk now j1)
         | (Inl _, j1) \<Rightarrow> snd (close_journal enc AppendOk now
             (snd (finish_failed enc AppendOk AppendOk now ''failed to finalize process journal'' j1))))"
    | (exited) n where "exit_status = Inr n" "failure = None"
    by (cases exit_status; cases failure) (auto simp: complete_journal_def)
  then show ?thesis
  proof cases
    case failed
    with finish_failed_succeeds [OF assms, of now msg] close show ?thesis by auto
  next
    case exited
    with finish_exited_succeeds [OF assms, of now n "final_state c"] close show ?thesis
      by (auto simp: complete_journal_def)
  qed
qed

section \<open>Properties\<close>

definition pm_fs :: nfs where
  "pm_fs = [([''w''], NDir)]"

definition pm_env :: manager_env where
  "pm_env = \<lparr>me_resolver = \<lparr>resolver_roots = [(''work'', \<lparr>entry_descriptor = \<lparr>root_identifier = ''work'', root_name = ''Work'',
       native_path = ''/w'', read_only = False\<rparr>, canonical_path = [''w'']\<rparr>)],
       io_text = (\<lambda>_. ''io''), issues_text = (\<lambda>_. ''issues'')\<rparr>,
     me_generation = ''g'', me_limits = \<lparr>lim_read_bytes = 9, lim_write_bytes = 9, lim_process_read_bytes = 9,
       lim_process_input_bytes = 9, lim_concurrent_processes = 1, lim_output_chunk_bytes = 4, lim_retention_ms = 9, lim_grace_ms = 2\<rparr>,
     me_encode = (\<lambda>_. Inr ''e''), me_sha = (\<lambda>s. s), me_input_json = (\<lambda>q. Inr (write_id q)),
     me_resize_json = (\<lambda>_. Inr []), me_signal_json = (\<lambda>_. Inr []), me_terminate_json = (\<lambda>_. Inr [])\<rparr>"

definition pm_request :: start_execution_request where
  "pm_request = \<lparr>expected_generation = Some ''g'', output_drain_timeout_ms = None, start_operation_id = ''op'', execution_id = ''x'',
     command = Argv ''cat'' [], cwd = \<lparr>root_id = ''work'', path = ''.''\<rparr>,
     environment = \<lparr>env_mode = Inherit, env_set = [], env_remove = []\<rparr>, stdin = PipeStdin, timeout_ms = None\<rparr>"

definition pm_os :: start_os where
  "pm_os = \<lparr>so_entered = Inr (), so_resolving = Inr (), so_launch = None, so_append = AppendOk, so_now = 5\<rparr>"

definition pm_started :: manager where
  "pm_started = snd (pm_start pm_env pm_fs pm_os pm_request manager_new)"

lemma pm_limit: "lim_concurrent_processes (me_limits pm_env) < 2 ^ 32"
  by (simp add: pm_env_def)

lemma pm_started_eq: "pm_sessions pm_started = [(''x'', (session_new pm_request)\<lparr>ps_journal :=
    snd (mark_started (me_encode pm_env) AppendOk 5 journal_create)\<rparr>)]"
proof -
  have "start_validate pm_request = Inr ()" by (simp add: pm_request_def) code_simp
  moreover have "start_cwd pm_env pm_fs (cwd pm_request) = Inr ()"
    by (simp add: start_cwd_def pm_env_def pm_fs_def pm_request_def) code_simp
  moreover have "mark_started (me_encode pm_env) AppendOk 5 journal_create = (Inr 5, snd (mark_started (me_encode pm_env) AppendOk 5 journal_create))"
    by (simp add: pm_env_def mark_started_def append_locked_def Let_def)
  ultimately show ?thesis
    by (auto simp: pm_started_def pm_start_def pm_os_def start_checks_def manager_new_def validate_generation_def
        install_session_def Let_def validated_def pm_request_def pm_env_def split: prod.splits)
qed

lemma pm_started_run: "pm_run pm_env [''x''] pm_started"
proof -
  have "pm_start pm_env pm_fs pm_os pm_request manager_new = (fst (pm_start pm_env pm_fs pm_os pm_request manager_new), pm_started)"
    by (simp add: pm_started_def)
  from pm_step.start [OF this] have "pm_step pm_env manager_new [''x''] pm_started"
    by (simp add: pm_started_eq manager_new_def pm_request_def)
  from pm_run.stepped [OF pm_run.new this] show ?thesis by simp
qed

text \<open>
  C18: the quota of the process manager. In every state that any interleaving of requests, timers,
  output, exits, clean-ups and shutdowns can reach, the counter of active processes, a wrapping
  32-bit integer, is exactly the number of sessions whose completion task has not finished,
  and it never exceeds the limit.
\<close>

theorem processes_within_quota:
  assumes "pm_run env installed m" and "lim_concurrent_processes (me_limits env) < 2 ^ 32"
  shows "pm_active m = live_sessions m \<and> live_sessions m \<le> lim_concurrent_processes (me_limits env)"
  using pm_run_inv [OF assms] by (simp add: manager_inv_def)

theorem processes_within_quota_witness:
  "pm_active pm_started = 1 \<and> live_sessions pm_started \<le> lim_concurrent_processes (me_limits pm_env)"
proof -
  have "live_sessions pm_started = 1" by (simp add: live_sessions_def pm_started_eq session_new_def)
  with processes_within_quota [OF pm_started_run pm_limit] show ?thesis by simp
qed

text \<open>
  C19: an execution identifier is used for one process in a generation. In every run the identifiers
  of installed sessions are distinct, and a start under an identifier that was ever installed,
  whether its session is live or retired, changes nothing: it fails, or it returns the handle of the live
  session that was started by an identical request.
\<close>

theorem execution_started_once:
  assumes "pm_run env installed m" and "lim_concurrent_processes (me_limits env) < 2 ^ 32"
  shows "distinct installed \<and> (\<forall>fs os req. execution_id req \<in> set installed \<longrightarrow>
     snd (pm_start env fs os req m) = m \<and>
     (\<forall>h. fst (pm_start env fs os req m) = Inr h \<longrightarrow>
        (\<exists>s. map_of (pm_sessions m) (execution_id req) = Some s \<and> ps_request s = req \<and> h = session_handle env s)))"
proof -
  have r: "manager_inv env m" "distinct installed" "set installed = known_ids m" using pm_run_inv [OF assms] by simp_all
  show ?thesis using restart_refused [OF r(1)] r(2,3) by blast
qed

theorem execution_started_once_witness:
  "snd (pm_start pm_env pm_fs pm_os (pm_request\<lparr>start_operation_id := ''other''\<rparr>) pm_started) = pm_started"
  using execution_started_once [OF pm_started_run pm_limit] by (simp add: pm_request_def)

text \<open>
  C20: accepted input is delivered once. After a write was accepted, whatever happens in between, the
  same request changes nothing: it is answered with \<open>AlreadyAccepted\<close> as long as
  the session exists, and with an error once the session is retired.
\<close>

theorem accepted_input_not_repeated:
  assumes "pm_run env installed m" and "lim_concurrent_processes (me_limits env) < 2 ^ 32"
    and "pm_write env entered out req m = (Inr Accepted, m1)" and "pm_later env m1 m2"
  shows "snd (pm_write env (Inr ()) out' req m2) = m2 \<and>
     (fst (pm_write env (Inr ()) out' req m2) = Inr AlreadyAccepted \<or>
      input_execution_id req \<in> set (pm_retired m2) \<and> isl (fst (pm_write env (Inr ()) out' req m2)))"
proof -
  let ?i = "input_execution_id req"
  have inv: "manager_inv env m" using pm_run_inv [OF assms(1,2)] by simp
  note inv1 = pm_write_inv [OF inv assms(3)]
  from assms(3) obtain s fp s' where w: "input_generation_id req = me_generation env"
      "input_size (input_payload req) \<le> lim_process_input_bytes (me_limits env)"
      "map_of (pm_sessions m) ?i = Some s" "request_fingerprint env (me_input_json env req) = Inr fp"
      "session_write out fp req s = (Inr Accepted, s')" "m1 = on_session ?i (\<lambda>_. s') m"
    by (rule pm_write_Inr)
  have s1: "map_of (pm_sessions m1) ?i = Some s'" using w(3,6) by (simp add: map_of_on_session)
  from kept_later [OF assms(4) s1 inv1 assms(2)]
  have inv2: "manager_inv env m2" and k: "kept_or_retired ?i s' m2" by simp_all
  from k show ?thesis unfolding kept_or_retired_def
  proof (elim disjE exE conjE)
    fix s2
    assume s2: "map_of (pm_sessions m2) ?i = Some s2" "records_kept s' s2"
    then have "map_of (ps_input_records s2) (write_id req) = Some \<lparr>ir_fingerprint = fp, ir_status = Accepted\<rparr>"
      using session_write_accepted [OF w(5)] by (force simp: records_kept_def map_le_def dom_def)
    with pm_write_recorded [OF w(1,2,4) s2(1)] inv2 show ?thesis by (simp add: manager_inv_def)
  next
    assume r: "map_of (pm_sessions m2) ?i = None" "?i \<in> set (pm_retired m2)"
    then show ?thesis using w(1,2)
      by (simp add: pm_write_def with_session_def validate_generation_def session_entry_def)
  qed
qed

definition pm_input :: write_input_request where
  "pm_input = \<lparr>input_execution_id = ''x'', input_generation_id = ''g'', write_id = ''w1'', input_payload = InputData ''hi''\<rparr>"

theorem accepted_input_not_repeated_witness:
  "fst (pm_write pm_env (Inr ()) WriteDone pm_input pm_started) = Inr Accepted \<and>
   snd (pm_write pm_env (Inr ()) WriteDone pm_input (snd (pm_write pm_env (Inr ()) WriteDone pm_input pm_started))) =
     snd (pm_write pm_env (Inr ()) WriteDone pm_input pm_started)"
proof -
  have "journal_is_running (snd (mark_started (me_encode pm_env) AppendOk 5 journal_create))"
    by (simp add: pm_env_def mark_started_def append_locked_def journal_is_running_def Let_def)
  then have f: "fst (pm_write pm_env (Inr ()) WriteDone pm_input pm_started) = Inr Accepted"
    by (simp add: pm_write_def pm_input_def pm_env_def validate_generation_def with_session_def session_entry_def pm_started_eq
        session_new_def pm_request_def request_fingerprint_def session_write_def Let_def)
  then obtain m1 where m1: "pm_write pm_env (Inr ()) WriteDone pm_input pm_started = (Inr Accepted, m1)" by (metis prod.collapse)
  from accepted_input_not_repeated [OF pm_started_run pm_limit m1 pm_later.now, of WriteDone] m1 show ?thesis by simp
qed

text \<open>
  C21: a session ends. When the child of any session has been waited for and the appends to its journal
  succeed, completing the session closes its journal: the state is \<open>Failed\<close> when waiting or an
  output task failed, and otherwise the state that the exit recorded or that
  the completion flag selects (as it was loaded, when it was loaded before); one unit of the quota is released; and once the retention time
  has passed the clean-up retires the session.
\<close>

theorem completed_session_is_closed:
  assumes "pm_run env installed m" and "lim_concurrent_processes (me_limits env) < 2 ^ 32"
    and "map_of (pm_sessions m) i = Some s" and "ps_task s = TaskDraining exit_status" and "encodes (me_encode env)"
    and "m' = pm_complete env (\<lambda>_. AppendOk) now failure i m"
  shows "\<exists>s'. map_of (pm_sessions m') i = Some s' \<and> ps_task s' = TaskFinished \<and> j_closed (ps_journal s') \<and>
     j_state (ps_journal s') = (if isl exit_status \<or> failure \<noteq> None then StFailed
        else if is_terminal (j_state (ps_journal s)) then j_state (ps_journal s) else final_state (loaded_completion s)) \<and>
     pm_active m = Suc (pm_active m') \<and>
     i \<in> set (pm_retired (pm_cleanup env (now + lim_retention_ms (me_limits env)) i m'))"
proof -
  have inv: "manager_inv env m" using pm_run_inv [OF assms(1,2)] by simp
  note ok = manager_inv_session [OF inv assms(3)]
  then have open_journal: "\<not> j_closed (ps_journal s)" using assms(4) by (auto simp: session_ok_def)
  let ?s = "session_complete env (\<lambda>_. AppendOk) now failure s"
  have s': "map_of (pm_sessions m') i = Some ?s" using assms(3,6) by (simp add: pm_complete_def map_of_on_session)
  have j: "ps_task ?s = TaskFinished" "ps_request ?s = ps_request s"
    "ps_journal ?s = complete_journal (me_encode env) (\<lambda>_. AppendOk) now (loaded_completion s) exit_status failure (ps_journal s)"
    using assms(4) by (simp_all add: session_complete_def)
  note c = complete_journal_succeeds [OF assms(5) open_journal, of now "loaded_completion s" exit_status failure, folded j(3)]
  have "pm_active m = Suc (u32_dec (pm_active m))"
    by (rule inv_complete(2) [OF inv assms(3), of "session_complete env (\<lambda>_. AppendOk) now failure"])
       (use session_complete_ok [OF ok assms(4)] j(1,2) assms(2,4) in auto)
  moreover have "i \<in> set (pm_retired (pm_cleanup env (now + lim_retention_ms (me_limits env)) i m'))"
    using s' c by (simp add: pm_cleanup_def finished_for_def)
  ultimately show ?thesis using s' j(1) c assms(6) by (simp add: pm_complete_def)
qed

theorem completed_session_is_closed_witness:
  "\<exists>(m :: manager) s'. map_of (pm_sessions m) ''x'' = Some s' \<and> j_closed (ps_journal s') \<and> j_state (ps_journal s') = StExited"
proof -
  let ?s = "(session_new pm_request)\<lparr>ps_journal := snd (mark_started (me_encode pm_env) AppendOk 5 journal_create)\<rparr>"
  have s: "map_of (pm_sessions pm_started) ''x'' = Some ?s" by (simp add: pm_started_eq)
  have t: "ps_task ?s = TaskRunning" by (simp add: session_new_def)
  note step = pm_run.stepped [OF pm_started_run pm_step.exit [OF s t, of _ AppendOk 6 "Inr 0"]]
  let ?m = "on_session ''x'' (session_exit pm_env AppendOk 6 (Inr 0)) pm_started"
  have s2: "map_of (pm_sessions ?m) ''x'' = Some (session_exit pm_env AppendOk 6 (Inr 0) ?s)"
    using s by (simp add: map_of_on_session)
  have t2: "ps_task (session_exit pm_env AppendOk 6 (Inr 0) ?s) = TaskDraining (Inr 0)"
    "loaded_completion (session_exit pm_env AppendOk 6 (Inr 0) ?s) = CompletionNormal"
    "ps_journal (session_exit pm_env AppendOk 6 (Inr 0) ?s) = ps_journal ?s"
    by (simp_all add: session_exit_def session_new_def pm_request_def loaded_completion_def)
  have r: "j_state (ps_journal ?s) = StRunning" by (simp add: pm_env_def mark_started_def append_locked_def Let_def)
  have e: "encodes (me_encode pm_env)" by (simp add: encodes_def pm_env_def)
  from completed_session_is_closed [OF step pm_limit s2 t2(1) e refl, of 7 None, unfolded t2(2,3) r]
  show ?thesis by (simp add: final_state_def) blast
qed

text \<open>
  C38: input whose delivery failed is not recorded. When writing to the child fails after some of the
  bytes went through, a replay of the same request sends all of them again.
\<close>

theorem failed_input_is_resent:
  assumes "map_of (ps_input_records s) (write_id req) = None" and "journal_is_running (ps_journal s)"
    and "input_open (ps_control s)" and "input_payload req = InputData bytes"
    and "session_write (WriteFails n e) fp req s = (r, s1)" and "session_write WriteDone fp req s1 = (r', s2)"
  shows "r = Inl (Fail e) \<and> r' = Inr Accepted \<and> ps_delivered s2 = ps_delivered s @ take n bytes @ bytes"
  using assms by (auto simp: session_write_def Let_def)

theorem failed_input_is_resent_witness:
  "ps_delivered (snd (session_write WriteDone ''f'' pm_input (snd (session_write (WriteFails 1 (exec_error_new Io ''broken'')) ''f''
     pm_input (session_new pm_request))))) = ''hhi''"
proof -
  let ?s = "session_new pm_request"
  have "map_of (ps_input_records ?s) (write_id pm_input) = None" "journal_is_running (ps_journal ?s)" "input_open (ps_control ?s)"
    "input_payload pm_input = InputData ''hi''"
    by (simp_all add: session_new_def pm_request_def pm_input_def journal_is_running_def journal_create_def)
  from failed_input_is_resent [OF this surjective_pairing surjective_pairing, of 1 "exec_error_new Io ''broken''" "''f''"]
  show ?thesis by (simp add: session_new_def)
qed

end
