(* ===== verification/Bash_Supervisor.thy ===== *)
theory Bash_Supervisor
  imports Bash_Tool Process_Manager
begin

text \<open>
  The shell tool on the process manager of the supervisor. Other requests and the tasks of the manager
  run between and during the calls of the tool, so the host state is a timeline: the
  manager at every instant and the current instant. A read looks at up to three instants.
\<close>

section \<open>The log of a journal\<close>

definition journal_log :: "event_decoder \<Rightarrow> journal \<Rightarrow> logged list" where
  "journal_log dec j = concat (map (\<lambda>e.
     case dec (take (entry_length e) (drop (entry_offset e) (j_file j))) of
       Inr ev \<Rightarrow> [(timestamp ev, event ev)] | Inl _ \<Rightarrow> []) (j_entries j))"

lemma indexed_log:
  assumes "indexed enc n (length pre) h es f" and "codec_ok enc dec"
  shows "concat (map (\<lambda>e. case dec (take (entry_length e) (drop (entry_offset e) (pre @ f))) of
       Inr ev \<Rightarrow> [(timestamp ev, event ev)] | Inl _ \<Rightarrow> []) es) = h"
  using assms(1)
proof (induction h arbitrary: n pre es f)
  case (Cons x h)
  obtain ts k where x: "x = (ts, k)" by force
  from Cons.prems x obtain s es' f' where s: "enc \<lparr>sequence = n + span k - 1, timestamp = ts, event = k\<rparr> = Inr s"
      "es = \<lparr>first_sequence = n, last_sequence = n + span k - 1, entry_offset = length pre,
              entry_length = length s, output_bytes = event_output_bytes k\<rparr> # es'"
      "f = s @ [LF] @ f'" "indexed enc (n + span k) (length pre + length s + 1) h es' f'" by auto
  have "dec s = Inr \<lparr>sequence = n + span k - 1, timestamp = ts, event = k\<rparr>" using s(1) assms(2) by (simp add: codec_ok_def)
  with Cons.IH [of "n + span k" "pre @ s @ [LF]" es' f'] s x show ?case by simp
qed simp

lemma journal_log_of: "journal_of enc h j \<Longrightarrow> codec_ok enc dec \<Longrightarrow> journal_log dec j = h"
  using indexed_log [of enc 1 "[]" h "j_entries j" "j_file j" dec] by (simp add: journal_of_def journal_log_def)

lemma indexed_bound: "indexed enc n off h es f \<Longrightarrow> e \<in> set es \<Longrightarrow> entry_offset e + entry_length e \<le> off + length f"
  by (induction h arbitrary: n off es f) (force split: prod.splits)+

lemma journal_log_grown:
  assumes "journal_of enc h j" and "grown j j'"
  shows "prefix (journal_log dec j) (journal_log dec j')"
proof -
  from assms(2) obtain es f where g: "j_entries j' = j_entries j @ es" "j_file j' = j_file j @ f" by (auto simp: grown_def)
  have "take (entry_length e) (drop (entry_offset e) (j_file j @ f)) = take (entry_length e) (drop (entry_offset e) (j_file j))"
    if "e \<in> set (j_entries j)" for e
    using indexed_bound [OF _ that, of enc 1 0 h "j_file j"] assms(1) by (simp add: journal_of_def)
  then have "concat (map (\<lambda>e. case dec (take (entry_length e) (drop (entry_offset e) (j_file j @ f))) of
       Inr ev \<Rightarrow> [(timestamp ev, event ev)] | Inl _ \<Rightarrow> []) (j_entries j)) = journal_log dec j"
    unfolding journal_log_def by (intro arg_cong [where f = concat] map_cong) (simp_all only:)
  with g show ?thesis by (simp add: journal_log_def)
qed

text \<open>A journal none of whose appends failed and whose counters have not saturated.\<close>

definition intact :: "event_encoder \<Rightarrow> journal \<Rightarrow> bool" where
  "intact enc j \<longleftrightarrow> (\<exists>ops. journal_run enc ops j) \<and> unsaturated j"

lemma intact_create [simp]: "intact enc journal_create"
proof -
  have "journal_run enc [] journal_create" by (rule journal_run.created)
  moreover have "unsaturated journal_create" by (simp add: unsaturated_def journal_create_def u64_max_def)
  ultimately show ?thesis unfolding intact_def by blast
qed

lemma intact_log:
  assumes "intact enc j" and "codec_ok enc dec"
  shows "journal_of enc (journal_log dec j) j" and "list_all late_ok (after_closed (journal_log dec j))"
proof -
  from assms(1) obtain ops where "log_refines enc (foldl log_step log_empty ops) j"
    using journal_run_refines by (auto simp: intact_def)
  then have h: "journal_of enc (log_events (foldl log_step log_empty ops)) j" by (simp add: log_refines_def)
  with journal_log_of [OF h assms(2)] log_run_ok [of ops]
  show "journal_of enc (journal_log dec j) j" and "list_all late_ok (after_closed (journal_log dec j))"
    by (simp_all add: log_ok_def)
qed

section \<open>Timelines\<close>

record timeline =
  tl_now :: nat
  tl_states :: "nat \<Rightarrow> manager"
  tl_entered :: "nat \<Rightarrow> unit exec_result"
  tl_cancelled :: "nat \<Rightarrow> bool"
  tl_open_error :: "nat \<Rightarrow> exec_error option"

text \<open>A reader keeps the journal of a session that is retired meanwhile.\<close>

fun journal_at :: "(nat \<Rightarrow> manager) \<Rightarrow> string \<Rightarrow> nat \<Rightarrow> journal" where
  "journal_at J i 0 = (case map_of (pm_sessions (J 0)) i of Some s \<Rightarrow> ps_journal s | None \<Rightarrow> journal_create)"
| "journal_at J i (Suc n) = (case map_of (pm_sessions (J (Suc n))) i of Some s \<Rightarrow> ps_journal s | None \<Rightarrow> journal_at J i n)"

definition supervised_checkpoint :: "(timeline, unit) io" where
  "supervised_checkpoint h = (tl_entered h (tl_now h), h)"

definition supervised_read ::
  "manager_env \<Rightarrow> event_decoder \<Rightarrow> exec_error \<Rightarrow> read_execution_request \<Rightarrow> (timeline, read_execution_result) io" where
  "supervised_read env dec eof_error q h =
     (let t = tl_now h; i = read_execution_id q in
      (pm_read env dec \<lparr>ro_entered = tl_entered h t, ro_open_error = tl_open_error h t, ro_eof_error = eof_error,
         ro_checked = journal_at (tl_states h) i (t + 1), ro_later = journal_at (tl_states h) i (t + 2),
         ro_cancelled = tl_cancelled h t\<rparr> q (tl_states h t),
       h\<lparr>tl_now := t + 3\<rparr>))"

text \<open>The operations that the contract says nothing about are those of \<open>other\<close>.\<close>

definition supervised_processes ::
  "manager_env \<Rightarrow> event_decoder \<Rightarrow> exec_error \<Rightarrow> timeline process_runtime \<Rightarrow> timeline process_runtime" where
  "supervised_processes env dec eof_error other =
     other\<lparr>pr_checkpoint := supervised_checkpoint, pr_read := supervised_read env dec eof_error\<rparr>"

definition timeline_ok :: "manager_env \<Rightarrow> event_decoder \<Rightarrow> timeline \<Rightarrow> bool" where
  "timeline_ok env dec h \<longleftrightarrow> codec_ok (me_encode env) dec \<and> lim_concurrent_processes (me_limits env) < 2 ^ 32 \<and>
     (\<exists>installed. pm_run env installed (tl_states h 0)) \<and>
     (\<forall>n. pm_later env (tl_states h n) (tl_states h (Suc n))) \<and>
     (\<forall>n i s. map_of (pm_sessions (tl_states h n)) i = Some s \<longrightarrow> intact (me_encode env) (ps_journal s))"

definition timeline_log :: "event_decoder \<Rightarrow> timeline \<Rightarrow> string \<Rightarrow> logged list" where
  "timeline_log dec h i = journal_log dec (journal_at (tl_states h) i (tl_now h))"

definition timeline_prompt :: "timeline \<Rightarrow> string \<Rightarrow> bool" where
  "timeline_prompt h i \<longleftrightarrow>
     (\<forall>n s. map_of (pm_sessions (tl_states h n)) i = Some s \<longrightarrow> output_drain_timeout_ms (ps_request s) = None)"

definition timeline_final :: "timeline \<Rightarrow> string \<Rightarrow> bool" where
  "timeline_final h i \<longleftrightarrow> (\<forall>n \<ge> tl_now h. journal_at (tl_states h) i n = journal_at (tl_states h) i (tl_now h))"

definition timeline_status :: "timeline \<Rightarrow> string \<Rightarrow> execution_state \<times> int option" where
  "timeline_status h i = (let j = journal_at (tl_states h) i (tl_now h) in (j_state j, j_exit_code j))"

definition timeline_ends :: "timeline \<Rightarrow> string \<Rightarrow> bool" where
  "timeline_ends h i \<longleftrightarrow> (\<exists>n. j_closed (journal_at (tl_states h) i n))"

definition timeline_left :: "timeline \<Rightarrow> string \<Rightarrow> nat" where
  "timeline_left h i = (LEAST n. j_closed (journal_at (tl_states h) i n)) - tl_now h"

subsection \<open>Journals along a timeline\<close>

lemma later_inv:
  assumes "pm_later env m m'" and "manager_inv env m" and "lim_concurrent_processes (me_limits env) < 2 ^ 32"
  shows "manager_inv env m'"
  using assms(1) by induction (use assms(2,3) pm_step_inv in auto)

lemma later_retired:
  assumes "pm_later env m m'" and "manager_inv env m" and "lim_concurrent_processes (me_limits env) < 2 ^ 32"
    and "map_of (pm_sessions m) i = None" and "i \<in> set (pm_retired m)"
  shows "map_of (pm_sessions m') i = None \<and> i \<in> set (pm_retired m')"
  using assms(1)
proof induction
  case now
  with assms(4,5) show ?case by simp
next
  case (later m1 fresh m2)
  from later(3) retired_step [OF later(2) later_inv [OF later(1) assms(2,3)] assms(3)] show ?case by blast
qed

lemma timeline_inv:
  assumes "timeline_ok env dec h"
  shows "manager_inv env (tl_states h n)"
proof (induction n)
  case 0
  from assms show ?case using pm_run_inv by (auto simp: timeline_ok_def)
next
  case (Suc n)
  with assms later_inv [of env "tl_states h n" "tl_states h (Suc n)"] show ?case by (simp add: timeline_ok_def)
qed

lemma absent_at:
  assumes "timeline_ok env dec h" and "map_of (pm_sessions (tl_states h n)) i = None"
  shows "journal_at (tl_states h) i n = journal_create \<or> i \<in> set (pm_retired (tl_states h n))"
  using assms(2)
proof (induction n)
  case (Suc n)
  have l: "pm_later env (tl_states h n) (tl_states h (Suc n))" "lim_concurrent_processes (me_limits env) < 2 ^ 32"
    using assms(1) by (simp_all add: timeline_ok_def)
  note inv = timeline_inv [OF assms(1), of n]
  show ?case
  proof (cases "map_of (pm_sessions (tl_states h n)) i")
    case None
    from Suc.IH [OF None] later_retired [OF l(1) inv l(2) None] Suc.prems show ?thesis by auto
  next
    case (Some s)
    from kept_later [OF l(1) Some inv l(2)] Suc.prems show ?thesis by (simp add: kept_or_retired_def)
  qed
qed simp

lemma journal_at_step:
  assumes "timeline_ok env dec h"
  shows "grown (journal_at (tl_states h) i n) (journal_at (tl_states h) i (Suc n))"
    and "journal_at (tl_states h) i n \<noteq> journal_create \<Longrightarrow>
      (\<And>s. map_of (pm_sessions (tl_states h n)) i = Some s \<Longrightarrow> ps_task s = TaskFinished) \<Longrightarrow>
      journal_at (tl_states h) i (Suc n) = journal_at (tl_states h) i n"
proof -
  have l: "pm_later env (tl_states h n) (tl_states h (Suc n))" "lim_concurrent_processes (me_limits env) < 2 ^ 32"
    using assms by (simp_all add: timeline_ok_def)
  note inv = timeline_inv [OF assms, of n]
  have "grown (journal_at (tl_states h) i n) (journal_at (tl_states h) i (Suc n)) \<and>
    (journal_at (tl_states h) i n \<noteq> journal_create \<longrightarrow>
      (\<forall>s. map_of (pm_sessions (tl_states h n)) i = Some s \<longrightarrow> ps_task s = TaskFinished) \<longrightarrow>
      journal_at (tl_states h) i (Suc n) = journal_at (tl_states h) i n)"
  proof (cases "map_of (pm_sessions (tl_states h n)) i")
    case None
    from absent_at [OF assms None] show ?thesis
    proof
      assume "journal_at (tl_states h) i n = journal_create"
      then show ?thesis by (simp add: grown_def journal_create_def)
    next
      assume "i \<in> set (pm_retired (tl_states h n))"
      from later_retired [OF l(1) inv l(2) None this] show ?thesis by simp
    qed
  next
    case (Some s)
    have j: "journal_at (tl_states h) i n = ps_journal s" using Some by (cases n) simp_all
    from kept_later [OF l(1) Some inv l(2)] j Some show ?thesis
      by (auto simp: kept_or_retired_def records_kept_def)
  qed
  then show "grown (journal_at (tl_states h) i n) (journal_at (tl_states h) i (Suc n))"
    and "journal_at (tl_states h) i n \<noteq> journal_create \<Longrightarrow>
      (\<And>s. map_of (pm_sessions (tl_states h n)) i = Some s \<Longrightarrow> ps_task s = TaskFinished) \<Longrightarrow>
      journal_at (tl_states h) i (Suc n) = journal_at (tl_states h) i n" by blast+
qed

lemma journal_at_grown:
  assumes "timeline_ok env dec h" and "m \<le> n"
  shows "grown (journal_at (tl_states h) i m) (journal_at (tl_states h) i n)"
  using assms(2) by (induction n rule: dec_induct) (use journal_at_step(1) [OF assms(1)] in \<open>auto intro: grown_trans\<close>)

lemma journal_at_intact:
  assumes "timeline_ok env dec h"
  shows "intact (me_encode env) (journal_at (tl_states h) i n)"
  using assms by (induction n) (auto simp: timeline_ok_def split: option.splits)

lemma journal_at_present: "map_of (pm_sessions (J n)) i = Some s \<Longrightarrow> journal_at J i n = ps_journal s"
  by (cases n) simp_all

text \<open>A property of journals that implies that the session has finished freezes the journal.\<close>

lemma journal_frozen:
  assumes "timeline_ok env dec h" and "P (journal_at (tl_states h) i m)" and "\<not> P journal_create" and "m \<le> n"
    and "\<And>n s. map_of (pm_sessions (tl_states h n)) i = Some s \<Longrightarrow> session_ok i s \<Longrightarrow> P (ps_journal s) \<Longrightarrow> ps_task s = TaskFinished"
  shows "journal_at (tl_states h) i n = journal_at (tl_states h) i m"
  using assms(4)
proof (induction n rule: dec_induct)
  case (step n)
  have "journal_at (tl_states h) i (Suc n) = journal_at (tl_states h) i n"
  proof (rule journal_at_step(2) [OF assms(1)])
    show "journal_at (tl_states h) i n \<noteq> journal_create" using assms(2,3) step by auto
    show "ps_task s = TaskFinished" if "map_of (pm_sessions (tl_states h n)) i = Some s" for s
      using assms(5) [OF that manager_inv_session [OF timeline_inv [OF assms(1)] that]] journal_at_present [of "tl_states h", OF that]
        assms(2) step by auto
  qed
  with step show ?case by simp
qed simp

lemma closed_frozen:
  assumes "timeline_ok env dec h" and "j_closed (journal_at (tl_states h) i m)" and "m \<le> n"
  shows "journal_at (tl_states h) i n = journal_at (tl_states h) i m"
  using assms(1,2) _ assms(3) by (rule journal_frozen) (simp_all add: journal_create_def session_ok_def)

lemma terminal_frozen:
  assumes "timeline_ok env dec h" and "timeline_prompt h i" and "is_terminal (j_state (journal_at (tl_states h) i m))" and "m \<le> n"
  shows "journal_at (tl_states h) i n = journal_at (tl_states h) i m"
  using assms(1,3) _ assms(4) by (rule journal_frozen [where P = "\<lambda>j. is_terminal (j_state j)"])
    (use assms(2) in \<open>auto simp: journal_create_def session_ok_def timeline_prompt_def\<close>)

subsection \<open>The contract\<close>

lemma read_now_no_open_error: "read_now dec open_error eof_error j a n = Inr r \<Longrightarrow> read_now dec None eof_error j a n = Inr r"
  by (cases open_error) (auto simp: read_now_def Let_def split: if_splits)

text \<open>Which journal a successful read has answered from.\<close>

lemma supervised_read_cases:
  assumes "supervised_read env dec eof_error q h = (Inr r, h')" and "i = read_execution_id q" and "t = tl_now h"
  obtains k where "k \<in> {t, t + 2}" and "h' = h\<lparr>tl_now := t + 3\<rparr>"
    and "read_now dec None eof_error (journal_at (tl_states h) i k) (after_sequence q) (read_max_bytes q) = Inr r"
    and "map_of (pm_sessions (tl_states h t)) i \<noteq> None"
    and "k = t \<Longrightarrow> wait_ms q \<noteq> None \<Longrightarrow> events r \<noteq> [] \<or> j_closed (journal_at (tl_states h) i (t + 1))"
    and "k = t + 2 \<Longrightarrow> \<not> j_closed (journal_at (tl_states h) i (t + 1))"
proof -
  let ?before = "journal_at (tl_states h) i t" and ?checked = "journal_at (tl_states h) i (t + 1)" and ?later = "journal_at (tl_states h) i (t + 2)"
  from assms obtain s where s: "map_of (pm_sessions (tl_states h t)) i = Some s"
      and jr: "journal_read dec (tl_open_error h t) eof_error (ps_journal s) ?checked ?later (after_sequence q) (read_max_bytes q) (wait_ms q) = Inr r"
    by (auto simp: supervised_read_def pm_read_def rbind_Inr_iff session_entry_Inr Let_def split: if_splits)
  have h': "h' = h\<lparr>tl_now := t + 3\<rparr>" using assms by (simp add: supervised_read_def Let_def)
  have b: "?before = ps_journal s" using journal_at_present [of "tl_states h", OF s] .
  from jr obtain r1 where r1: "read_now dec (tl_open_error h t) eof_error (ps_journal s) (after_sequence q) (read_max_bytes q) = Inr r1"
      and r: "if events r1 \<noteq> [] \<or> j_closed ?checked \<or> wait_ms q = None then r = r1
        else read_now dec (tl_open_error h t) eof_error ?later (after_sequence q) (read_max_bytes q) = Inr r"
    by (auto simp: journal_read_def rbind_Inr_iff split: if_splits)
  show thesis
  proof (cases "events r1 \<noteq> [] \<or> j_closed ?checked \<or> wait_ms q = None")
    case True
    with r r1 b s h' read_now_no_open_error show thesis by (intro that [of t]) auto
  next
    case False
    with r s h' read_now_no_open_error show thesis by (intro that [of "t + 2"]) auto
  qed
qed

lemma timeline_log_prefix:
  assumes "timeline_ok env dec h" and "m \<le> n"
  shows "prefix (journal_log dec (journal_at (tl_states h) i m)) (journal_log dec (journal_at (tl_states h) i n))"
proof -
  have "codec_ok (me_encode env) dec" using assms(1) by (simp add: timeline_ok_def)
  from journal_log_grown [OF intact_log(1) [OF journal_at_intact [OF assms(1)] this] journal_at_grown [OF assms]] show ?thesis .
qed

lemma timeline_tick: "timeline_ok env dec (h\<lparr>tl_now := n\<rparr>) = timeline_ok env dec h"
  "timeline_prompt (h\<lparr>tl_now := n\<rparr>) = timeline_prompt h" "timeline_ends (h\<lparr>tl_now := n\<rparr>) = timeline_ends h"
  by (simp_all add: timeline_ok_def timeline_prompt_def timeline_ends_def fun_eq_iff)

lemma frozen_view:
  assumes "\<And>n. k \<le> n \<Longrightarrow> journal_at (tl_states h) i n = j" and "k \<le> tl_now h'" and "tl_states h' = tl_states h"
  shows "timeline_final h' i \<and> timeline_log dec h' i = journal_log dec j \<and> timeline_status h' i = (j_state j, j_exit_code j)"
  using assms by (simp add: timeline_final_def timeline_log_def timeline_status_def)

lemma supervised_read_events:
  assumes ok: "timeline_ok env dec h" and rd: "supervised_read env dec eof_error q h = (Inr r, h')"
    and le: "after_sequence q \<le> length (log_stream (timeline_log dec h (read_execution_id q)))" and lim: "read_max_bytes q \<le> u64_max"
  shows "\<exists>l. prefix (timeline_log dec h (read_execution_id q)) l \<and> prefix l (timeline_log dec h' (read_execution_id q)) \<and>
     read_ok (after_sequence q) (read_max_bytes q) 0 (drop (after_sequence q) (log_stream l)) (events r) \<and>
     next_sequence r = after_sequence q + length (concat (map ev_units (events r))) \<and>
     (timeline_prompt h (read_execution_id q) \<longrightarrow> is_terminal (result_state r) \<longrightarrow>
        timeline_final h' (read_execution_id q) \<and> l = timeline_log dec h' (read_execution_id q) \<and>
        timeline_status h' (read_execution_id q) = (result_state r, result_exit_code r))"
proof -
  let ?i = "read_execution_id q" and ?t = "tl_now h"
  obtain k where k: "k \<in> {?t, ?t + 2}" "h' = h\<lparr>tl_now := ?t + 3\<rparr>"
      "read_now dec None eof_error (journal_at (tl_states h) ?i k) (after_sequence q) (read_max_bytes q) = Inr r"
    using supervised_read_cases [OF rd refl refl] by metis
  let ?j = "journal_at (tl_states h) ?i k"
  have tk: "?t \<le> k" "k \<le> ?t + 3" using k(1) by auto
  have c: "codec_ok (me_encode env) dec" using ok by (simp add: timeline_ok_def)
  note p1 = timeline_log_prefix [OF ok tk(1), where i = ?i] and p2 = timeline_log_prefix [OF ok tk(2), where i = ?i]
  have le': "after_sequence q \<le> length (log_stream (journal_log dec ?j))"
    using le prefix_length_le [OF log_stream_prefix [OF p1]] by (simp add: timeline_log_def)
  obtain r0 where r0: "read_now dec None eof_error ?j (after_sequence q) (read_max_bytes q) = Inr r0"
      "read_ok (after_sequence q) (read_max_bytes q) 0 (drop (after_sequence q) (log_stream (journal_log dec ?j))) (events r0)"
      "next_sequence r0 = after_sequence q + length (concat (map ev_units (events r0)))"
      "result_state r0 = j_state ?j" "result_exit_code r0 = j_exit_code ?j"
    using read_now_ok [OF intact_log(1) [OF journal_at_intact [OF ok] c] c lim le', of eof_error] by blast
  have r: "r0 = r" using r0(1) k(3) by simp
  have fz: "journal_at (tl_states h) ?i n = ?j" if "timeline_prompt h ?i" "is_terminal (result_state r)" "k \<le> n" for n
    using terminal_frozen [OF ok that(1) _ that(3)] that(2) r0(4) r by simp
  have h': "k \<le> tl_now h'" "tl_states h' = tl_states h" using tk(2) k(2) by simp_all
  have "timeline_final h' ?i \<and> journal_log dec ?j = timeline_log dec h' ?i \<and> timeline_status h' ?i = (result_state r, result_exit_code r)"
    if "timeline_prompt h ?i" "is_terminal (result_state r)"
    using frozen_view [OF fz [OF that] h', of dec] r0(4,5) unfolding r by (simp only: simp_thms)
  moreover have "prefix (timeline_log dec h ?i) (journal_log dec ?j)" "prefix (journal_log dec ?j) (timeline_log dec h' ?i)"
    using p1 p2 k(2) by (simp_all add: timeline_log_def)
  ultimately show ?thesis using r0(2,3) unfolding r by blast
qed

lemma supervised_read_ends:
  assumes ok: "timeline_ok env dec h" and "timeline_ends h (read_execution_id q)"
    and rd: "supervised_read env dec eof_error q h = (Inr r, h')" and w: "wait_ms q \<noteq> None"
  shows "timeline_left h' (read_execution_id q) < timeline_left h (read_execution_id q) \<or>
     timeline_left h' (read_execution_id q) = timeline_left h (read_execution_id q) \<and>
     timeline_log dec h' (read_execution_id q) = timeline_log dec h (read_execution_id q) \<and>
     (events r \<noteq> [] \<or> is_terminal (result_state r))"
proof -
  let ?i = "read_execution_id q" and ?t = "tl_now h"
  define N where "N = (LEAST n. j_closed (journal_at (tl_states h) ?i n))"
  from assms(2) have N: "j_closed (journal_at (tl_states h) ?i N)" unfolding N_def timeline_ends_def by (rule LeastI_ex)
  obtain k where k: "k \<in> {?t, ?t + 2}" "h' = h\<lparr>tl_now := ?t + 3\<rparr>"
      "read_now dec None eof_error (journal_at (tl_states h) ?i k) (after_sequence q) (read_max_bytes q) = Inr r"
      "map_of (pm_sessions (tl_states h ?t)) ?i \<noteq> None"
      "k = ?t + 2 \<Longrightarrow> \<not> j_closed (journal_at (tl_states h) ?i (?t + 1))"
    using supervised_read_cases [OF rd refl refl] by metis
  have left: "timeline_left h ?i = N - ?t" "timeline_left h' ?i = N - (?t + 3)"
    using k(2) by (simp_all add: timeline_left_def N_def)
  show ?thesis
  proof (cases "?t < N")
    case True
    with left show ?thesis by auto
  next
    case False
    have f: "journal_at (tl_states h) ?i n = journal_at (tl_states h) ?i N" if "N \<le> n" for n
      using closed_frozen [OF ok N that] .
    with False N k(5) have "k = ?t" using k(1) by (metis insertE le_add1 not_less order.trans singletonD)
    obtain s where s: "map_of (pm_sessions (tl_states h ?t)) ?i = Some s" using k(4) by blast
    have "ps_journal s = journal_at (tl_states h) ?i N" using f [of ?t] False journal_at_present [of "tl_states h", OF s] by simp
    moreover have "session_ok ?i s" using manager_inv_session [OF timeline_inv [OF ok] s] .
    ultimately have "is_terminal (j_state (journal_at (tl_states h) ?i k))"
      using N f [of ?t] False \<open>k = ?t\<close> by (simp add: session_ok_def)
    moreover have "result_state r = j_state (journal_at (tl_states h) ?i k)"
      using k(3) by (auto simp: read_now_def Let_def rbind_Inr_iff split: if_splits)
    moreover have "timeline_log dec h' ?i = timeline_log dec h ?i"
      using f [of ?t] f [of "?t + 3"] False k(2) by (simp add: timeline_log_def)
    ultimately show ?thesis using left False by simp
  qed
qed

lemma ending_host_supervised:
  "ending_host (supervised_processes env dec eof_error other) (timeline_log dec) (timeline_ok env dec) timeline_prompt timeline_final
     timeline_status timeline_ends timeline_left"
proof
  fix h h' :: timeline and x
  assume "timeline_ok env dec h" "pr_checkpoint (supervised_processes env dec eof_error other) h = (x, h')"
  then have "h' = h" "timeline_ok env dec h" by (simp_all add: supervised_processes_def supervised_checkpoint_def)
  then show "timeline_ok env dec h' \<and> timeline_log dec h' = timeline_log dec h \<and> timeline_prompt h' = timeline_prompt h \<and>
      timeline_final h' = timeline_final h \<and> timeline_status h' = timeline_status h"
    and "timeline_ends h' = timeline_ends h \<and> timeline_left h' = timeline_left h" by simp_all
next
  fix h h' :: timeline and q y i
  assume ok: "timeline_ok env dec h" and "pr_read (supervised_processes env dec eof_error other) q h = (y, h')"
  then have h': "h' = h\<lparr>tl_now := tl_now h + 3\<rparr>" by (simp add: supervised_processes_def supervised_read_def Let_def)
  have "prefix (timeline_log dec h i) (timeline_log dec h' i)"
    using timeline_log_prefix [OF ok, of "tl_now h" "tl_now h + 3" i] h' by (simp add: timeline_log_def)
  moreover have "timeline_final h' i \<and> timeline_log dec h' i = timeline_log dec h i \<and> timeline_status h' i = timeline_status h i" if "timeline_final h i"
  proof -
    have "journal_at (tl_states h) i n = journal_at (tl_states h) i (tl_now h)" if "tl_now h \<le> n" for n
      using \<open>timeline_final h i\<close> that unfolding timeline_final_def by blast
    moreover have "tl_now h \<le> tl_now h'" "tl_states h' = tl_states h" using h' by simp_all
    ultimately show ?thesis unfolding timeline_log_def [of dec h] timeline_status_def [of h] Let_def by (rule frozen_view)
  qed
  ultimately show "timeline_ok env dec h' \<and> prefix (timeline_log dec h i) (timeline_log dec h' i) \<and> timeline_prompt h' = timeline_prompt h \<and>
      (timeline_final h i \<longrightarrow> timeline_final h' i \<and> timeline_log dec h' i = timeline_log dec h i \<and> timeline_status h' i = timeline_status h i)"
    using ok h' by (simp add: timeline_tick)
next
  fix h h' :: timeline and q r
  assume "timeline_ok env dec h" "pr_read (supervised_processes env dec eof_error other) q h = (Inr r, h')"
    "after_sequence q \<le> length (log_stream (timeline_log dec h (read_execution_id q)))" "read_max_bytes q \<le> u64_max"
  then show "\<exists>l. prefix (timeline_log dec h (read_execution_id q)) l \<and> prefix l (timeline_log dec h' (read_execution_id q)) \<and>
     read_ok (after_sequence q) (read_max_bytes q) 0 (drop (after_sequence q) (log_stream l)) (events r) \<and>
     next_sequence r = after_sequence q + length (concat (map ev_units (events r))) \<and>
     (timeline_prompt h (read_execution_id q) \<longrightarrow> is_terminal (result_state r) \<longrightarrow>
        timeline_final h' (read_execution_id q) \<and> l = timeline_log dec h' (read_execution_id q) \<and>
        timeline_status h' (read_execution_id q) = (result_state r, result_exit_code r))"
    by (intro supervised_read_events) (simp_all add: supervised_processes_def)
next
  fix h :: timeline and i
  assume "timeline_ok env dec h"
  then show "list_all late_ok (after_closed (timeline_log dec h i))"
    using intact_log(2) [OF journal_at_intact] by (simp add: timeline_log_def timeline_ok_def)
next
  fix h h' :: timeline and q r
  assume a: "timeline_ok env dec h" "timeline_ends h (read_execution_id q)"
    "pr_read (supervised_processes env dec eof_error other) q h = (Inr r, h')" "wait_ms q \<noteq> None"
  then have rd: "supervised_read env dec eof_error q h = (Inr r, h')" by (simp add: supervised_processes_def)
  then have "timeline_ends h' = timeline_ends h" by (auto simp: supervised_read_def Let_def timeline_tick)
  with a(2) supervised_read_ends [OF a(1,2) rd a(4)] show "timeline_ends h' (read_execution_id q) \<and>
    (timeline_left h' (read_execution_id q) < timeline_left h (read_execution_id q) \<or>
     timeline_left h' (read_execution_id q) = timeline_left h (read_execution_id q) \<and>
     timeline_log dec h' (read_execution_id q) = timeline_log dec h (read_execution_id q) \<and>
     (events r \<noteq> [] \<or> is_terminal (result_state r)))" by simp
qed

interpretation sp: ending_host "supervised_processes env dec eof_error other" "timeline_log dec" "timeline_ok env dec"
  timeline_prompt timeline_final timeline_status timeline_ends timeline_left
  for env dec eof_error other
  by (rule ending_host_supervised)

section \<open>Commands on the supervisor\<close>

lemma supervised_poll_states:
  assumes "bash_poll tool r h = (res, h')" and "bt_runtime tool = supervised_processes env dec eof_error other"
  shows "tl_states h' = tl_states h"
proof -
  have c: "tl_states h2 = tl_states h1" if "pr_checkpoint (bt_runtime tool) h1 = (x, h2)" for x h1 h2
    using that assms(2) by (simp add: supervised_processes_def supervised_checkpoint_def)
  have d: "tl_states h2 = tl_states h1" if "pr_read (bt_runtime tool) q h1 = (x, h2)" for x q h1 h2
    using that assms(2) by (auto simp: supervised_processes_def supervised_read_def Let_def)
  from assms(1) show ?thesis unfolding bash_poll_def
    by (auto simp: c d elim!: io_bindE split: if_splits)
qed

lemma supervised_polls_states:
  assumes "bash_polls tool r h r' h'" and "bt_runtime tool = supervised_processes env dec eof_error other"
  shows "tl_states h' = tl_states h"
  using assms(1) by induction (use supervised_poll_states [OF _ assms(2)] in auto)

text \<open>A result that accounts for everything in a journal.\<close>

definition reports :: "event_decoder \<Rightarrow> journal \<Rightarrow> prepared_bash \<Rightarrow> bash_output \<Rightarrow> bool" where
  "reports dec j p out \<longleftrightarrow> (let us = log_stream (journal_log dec j) in
     bo_complete out \<and> handle_state (bo_handle out) = j_state j \<and> bo_exit_code out = j_exit_code j \<and>
     bo_failure out = stream_failure us \<and> bo_output_bytes out = min (length (stream_bytes us)) u64_max \<and>
     (\<exists>t. retained (pb_max_output_bytes p) (pb_max_output_lines p) (stream_bytes us) (tb_bytes t) \<and>
        (tb_truncated t \<longleftrightarrow> length (tb_bytes t) < length (stream_bytes us)) \<and>
        bo_truncated out = tb_truncated t \<and> bo_output out = tail_text t))"

lemma completed_reports:
  assumes "attached (timeline_log dec) timeline_final timeline_status h r" and "rb_complete r"
    and "0 < pb_max_output_lines (rb_prepared r)" and "tl_now h \<le> n"
  shows "reports dec (journal_at (tl_states h) (handle_execution_id (rb_handle r)) n) (rb_prepared r) (running_output r)"
proof -
  let ?i = "handle_execution_id (rb_handle r)"
  note a = attached_complete [OF assms(1,2) refl]
  then have j: "journal_at (tl_states h) ?i n = journal_at (tl_states h) ?i (tl_now h)"
    using assms(4) unfolding timeline_final_def by blast
  from a obtain chunks where c: "concat chunks = stream_bytes (log_stream (timeline_log dec h ?i))"
      "rb_tail r = tail_pushes (tail_new (pb_max_output_bytes (rb_prepared r)) (pb_max_output_lines (rb_prepared r))) chunks" by blast
  note t = tail_pushes_retained [OF assms(3), of "pb_max_output_bytes (rb_prepared r)" chunks, folded c(2), unfolded c(1) timeline_log_def]
  show ?thesis unfolding j reports_def Let_def
    using a t assms(2) by (auto simp: running_output_def timeline_log_def timeline_status_def Let_def)
qed

lemma new_tool_ok:
  assumes "bash_tool_new rt wd cfg = Inr tool" and "bc_read_bytes cfg \<le> u64_max" and "bash_prepare tool inp ids = Inr p"
  shows "bt_runtime tool = rt \<and> bash_tool_ok tool \<and> 0 < pb_max_output_lines p \<and> output_drain_timeout_ms (pb_request p) = None"
proof -
  from assms(1,2) have t: "bt_runtime tool = rt" "bt_config tool = cfg" "bash_tool_ok tool" "0 < bc_max_output_lines cfg"
    by (auto simp: bash_tool_new_def rbind_Inr_iff bash_tool_ok_def split: if_splits)
  from assms(3) have "pb_max_output_lines p = bc_max_output_lines (bt_config tool)" "output_drain_timeout_ms (pb_request p) = None"
    by (auto simp: bash_prepare_def rbind_Inr_iff Let_def bash_request_def split: if_splits)
  with t show ?thesis by simp
qed

lemma recovered_attached:
  assumes "bash_recover tool p hdl = Inr r"
  shows "attached log final status h r \<and> rb_prepared r = p \<and> handle_execution_id (rb_handle r) = execution_id (pb_request p)"
proof -
  from assms have r: "r = \<lparr>rb_prepared = p, rb_handle = hdl, rb_cursor = 0,
       rb_tail = tail_new (pb_max_output_bytes p) (pb_max_output_lines p),
       rb_exit_code = None, rb_failure = None, rb_complete = False\<rparr>" and m: "handle_matches p hdl"
    by (auto simp: bash_recover_def rbind_Inr_iff)
  have "consumed [] r" unfolding r consumed_def by (auto simp: stream_failure_def tail_pushes_def intro!: exI [of _ "[]"])
  with r m show ?thesis by (auto simp: attached_def Let_def handle_matches_def)
qed

section \<open>Properties\<close>

subsection \<open>A command that has run\<close>

definition sv_codes :: "(process_event \<times> string) list" where
  "sv_codes =
    [(\<lparr>sequence = 1, timestamp = 5, event = Started\<rparr>, ''a''),
     (\<lparr>sequence = 3, timestamp = 6, event = Output Stdout ''hi''\<rparr>, ''b''),
     (\<lparr>sequence = 4, timestamp = 7, event = Exited 0\<rparr>, ''c''),
     (\<lparr>sequence = 5, timestamp = 7, event = Closed\<rparr>, ''d'')]"

definition sv_enc :: event_encoder where
  "sv_enc e = (case map_of sv_codes e of Some s \<Rightarrow> Inr s | None \<Rightarrow> Inl ''unsupported'')"

definition sv_dec :: event_decoder where
  "sv_dec s = (case map_of (map (\<lambda>(e, s). (s, e)) sv_codes) s of Some e \<Rightarrow> Inr e | None \<Rightarrow> Inl ''unsupported'')"

definition sv_env :: manager_env where
  "sv_env = pm_env\<lparr>me_encode := sv_enc\<rparr>"

definition sv_eof :: exec_error where
  "sv_eof = exec_error_new Io ''eof''"

definition sv_other :: "timeline process_runtime" where
  "sv_other = \<lparr>pr_descriptor = sample_host, pr_checkpoint = supervised_checkpoint, pr_start = (\<lambda>_ h. (Inl (Fail sv_eof), h)),
     pr_read = (\<lambda>_ h. (Inl (Fail sv_eof), h)), pr_write = (\<lambda>_ h. (Inl (Fail sv_eof), h)), pr_resize = (\<lambda>_ h. (Inl (Fail sv_eof), h)),
     pr_signal = (\<lambda>_ h. (Inl (Fail sv_eof), h)), pr_terminate = (\<lambda>_ h. (Inl (Fail sv_eof), h))\<rparr>"

definition sv_config :: bash_config where
  "sv_config = \<lparr>bc_shell = None, bc_login = False, bc_environment = \<lparr>env_mode = Inherit, env_set = [], env_remove = []\<rparr>,
     bc_max_output_bytes = 10, bc_max_output_lines = 5, bc_read_bytes = 8\<rparr>"

definition sv_tool :: "timeline bash_tool" where
  "sv_tool = \<lparr>bt_runtime = supervised_processes sv_env sv_dec sv_eof sv_other,
     bt_cwd = \<lparr>root_id = ''work'', path = ''.''\<rparr>, bt_config = sv_config\<rparr>"

definition sv_input :: bash_input where
  "sv_input = \<lparr>bi_command = ''echo'', bi_timeout = Some 9, bi_workdir = None\<rparr>"

definition sv_ids :: bash_ids where
  "sv_ids = \<lparr>id_operation = ''op'', id_execution = ''x'', id_terminate = ''stop''\<rparr>"

definition sv_request :: start_execution_request where
  "sv_request = \<lparr>expected_generation = Some ''g'', output_drain_timeout_ms = None, start_operation_id = ''op'', execution_id = ''x'',
     command = Shell ''echo'' None False, cwd = \<lparr>root_id = ''work'', path = ''.''\<rparr>,
     environment = \<lparr>env_mode = Inherit, env_set = [], env_remove = []\<rparr>, stdin = ClosedStdin, timeout_ms = Some 9\<rparr>"

definition sv_prepared :: prepared_bash where
  "sv_prepared = \<lparr>pb_host_id = ''h'', pb_generation = ''g'', pb_request = sv_request, pb_terminate_operation_id = ''stop'',
     pb_max_output_bytes = 10, pb_max_output_lines = 5\<rparr>"

definition sv_journal :: journal where
  "sv_journal = \<lparr>j_file = ''a'' @ [LF] @ ''b'' @ [LF] @ ''c'' @ [LF] @ ''d'' @ [LF], j_next_sequence = 6,
     j_entries =
      [\<lparr>first_sequence = 1, last_sequence = 1, entry_offset = 0, entry_length = 1, output_bytes = 0\<rparr>,
       \<lparr>first_sequence = 2, last_sequence = 3, entry_offset = 2, entry_length = 1, output_bytes = 2\<rparr>,
       \<lparr>first_sequence = 4, last_sequence = 4, entry_offset = 4, entry_length = 1, output_bytes = 0\<rparr>,
       \<lparr>first_sequence = 5, last_sequence = 5, entry_offset = 6, entry_length = 1, output_bytes = 0\<rparr>],
     j_file_length = 8, j_state = StExited, j_started_at = Some 5, j_exit_code = Some 0, j_finished_at = Some 7, j_closed = True\<rparr>"

definition sv_session :: process_session where
  "sv_session = (session_new sv_request)\<lparr>ps_journal := sv_journal, ps_task := TaskFinished\<rparr>"

definition sv_states :: "nat \<Rightarrow> manager" where
  "sv_states n = (if n = 0 then manager_new
     else \<lparr>pm_sessions = [(''x'', sv_session)], pm_retired = [], pm_active = 0, pm_shutdown = False\<rparr>)"

definition sv_timeline :: timeline where
  "sv_timeline = \<lparr>tl_now = 1, tl_states = sv_states, tl_entered = (\<lambda>_. Inr ()), tl_cancelled = (\<lambda>_. False), tl_open_error = (\<lambda>_. None)\<rparr>"

definition sv_running :: running_bash where
  "sv_running = \<lparr>rb_prepared = sv_prepared, rb_handle = \<lparr>handle_execution_id = ''x'', handle_generation_id = ''g'', handle_state = StRunning,
     handle_started_at = Some 5\<rparr>, rb_cursor = 0, rb_tail = tail_new 10 5, rb_exit_code = None, rb_failure = None, rb_complete = False\<rparr>"

lemma sv_codec: "codec_ok sv_enc sv_dec"
  by (auto simp: codec_ok_def sv_enc_def sv_dec_def sv_codes_def split: if_splits)

lemma sv_tool_new: "bash_tool_new (supervised_processes sv_env sv_dec sv_eof sv_other) \<lparr>root_id = ''work'', path = ''.''\<rparr> sv_config = Inr sv_tool"
proof -
  have v: "validate_cwd sample_host \<lparr>root_id = ''work'', path = ''.''\<rparr> = Inr ()" by code_simp
  have e: "environment_validate \<lparr>env_mode = Inherit, env_set = [], env_remove = []\<rparr> = Inr ()" by code_simp
  have l: "max_process_read_bytes (limits sample_host) = None" by (simp add: sample_host_def)
  have d: "pr_descriptor (supervised_processes sv_env sv_dec sv_eof sv_other) = sample_host"
    by (simp add: supervised_processes_def sv_other_def)
  show ?thesis by (simp add: bash_tool_new_def d v e l sv_config_def validated_def sv_tool_def)
qed

lemma sv_prepare: "bash_prepare sv_tool sv_input sv_ids = Inr sv_prepared"
proof -
  have t: "trim ''echo'' \<noteq> []" by code_simp
  have v: "start_validate sv_request = Inr ()" by (simp add: sv_request_def) code_simp
  have "bash_request sv_tool \<lparr>root_id = ''work'', path = ''.''\<rparr> 9 sv_input sv_ids = sv_request"
    by (simp add: bash_request_def sv_tool_def sv_config_def supervised_processes_def sv_other_def sample_host_def sv_input_def
        sv_ids_def sv_request_def shell_command_def Let_def)
  with t v show ?thesis
    by (simp add: bash_prepare_def sv_input_def sv_ids_def sv_tool_def sv_prepared_def MAX_TIMEOUT_MS_def validated_def)
       (simp add: supervised_processes_def sv_other_def sample_host_def sv_config_def)
qed

lemma sv_recover: "bash_recover sv_tool sv_prepared (rb_handle sv_running) = Inr sv_running"
  by (simp add: bash_recover_def bash_validate_host_def handle_matches_def sv_tool_def supervised_processes_def sv_other_def
      sample_host_def sv_prepared_def sv_running_def sv_request_def)

lemmas sv_journal_simps = mark_started_def append_output_def finish_exited_def mark_exited_def close_journal_def close_finished_def
  append_locked_def journal_create_def sv_enc_def sv_codes_def sat_add_def u64_max_def Let_def

lemma sv_intact: "intact sv_enc sv_journal"
proof -
  let ?j1 = "snd (journal_apply sv_enc (OpStarted 5) journal_create)"
  let ?j2 = "snd (journal_apply sv_enc (OpOutput 6 Stdout ''hi'') ?j1)"
  have "journal_apply sv_enc (OpStarted 5) journal_create = (Inr (), ?j1)" by (simp add: sv_journal_simps)
  note r1 = journal_run.operated [OF journal_run.created this]
  have "journal_apply sv_enc (OpOutput 6 Stdout ''hi'') ?j1 = (Inr (), ?j2)" by (simp add: sv_journal_simps)
  note r2 = journal_run.operated [OF r1 this]
  have "journal_apply sv_enc (OpFinishExited 7 0 StExited) ?j2 = (Inr (), sv_journal)"
    by (simp add: sv_journal_simps sv_journal_def is_terminal_def)
  from journal_run.operated [OF r2 this] show ?thesis unfolding intact_def
    by (auto simp: unsaturated_def sv_journal_def u64_max_def)
qed

lemma sv_start: "pm_start sv_env pm_fs pm_os sv_request manager_new =
   (Inr (session_handle sv_env ((session_new sv_request)\<lparr>ps_journal := snd (mark_started sv_enc AppendOk 5 journal_create)\<rparr>)),
    \<lparr>pm_sessions = [(''x'', (session_new sv_request)\<lparr>ps_journal := snd (mark_started sv_enc AppendOk 5 journal_create)\<rparr>)],
     pm_retired = [], pm_active = 1, pm_shutdown = False\<rparr>)"
proof -
  have v: "start_validate sv_request = Inr ()" by (simp add: sv_request_def) code_simp
  have c: "start_cwd sv_env pm_fs (cwd sv_request) = Inr ()"
    by (simp add: start_cwd_def sv_env_def pm_env_def pm_fs_def sv_request_def) code_simp
  have m: "mark_started sv_enc AppendOk 5 journal_create = (Inr 5, snd (mark_started sv_enc AppendOk 5 journal_create))"
    by (simp add: sv_journal_simps)
  have e: "execution_id sv_request = ''x''" "expected_generation sv_request = Some ''g''" by (simp_all add: sv_request_def)
  have f: "me_encode sv_env = sv_enc" "me_generation sv_env = ''g''" "lim_concurrent_processes (me_limits sv_env) = 1"
    by (simp_all add: sv_env_def pm_env_def)
  have i: "install_session sv_env AppendOk 5 sv_request manager_new =
     (Inr (session_handle sv_env ((session_new sv_request)\<lparr>ps_journal := snd (mark_started sv_enc AppendOk 5 journal_create)\<rparr>)),
      \<lparr>pm_sessions = [(''x'', (session_new sv_request)\<lparr>ps_journal := snd (mark_started sv_enc AppendOk 5 journal_create)\<rparr>)],
       pm_retired = [], pm_active = 1, pm_shutdown = False\<rparr>)"
    unfolding install_session_def f by (subst m) (simp add: e manager_new_def u32_inc_def Let_def)
  have n: "pm_sessions manager_new = []" "pm_retired manager_new = []" "pm_active manager_new = 0" by (simp_all add: manager_new_def)
  have "start_checks sv_env pm_fs (Inr ()) sv_request manager_new = Inr None"
    unfolding start_checks_def c n by (simp add: f)
  then show ?thesis
    by (simp add: pm_start_def pm_os_def v e f i validated_def validate_generation_def)
qed

lemma sv_complete: "complete_journal sv_enc (\<lambda>_. AppendOk) 7 CompletionNormal (Inr 0) None
    (snd (append_output sv_enc AppendOk 6 Stdout ''hi'' (snd (mark_started sv_enc AppendOk 5 journal_create)))) = sv_journal"
proof -
  let ?j2 = "snd (append_output sv_enc AppendOk 6 Stdout ''hi'' (snd (mark_started sv_enc AppendOk 5 journal_create)))"
  have "finish_exited sv_enc AppendOk AppendOk 7 0 StExited ?j2 = (Inr (), sv_journal)"
    by (simp add: sv_journal_simps sv_journal_def is_terminal_def)
  moreover have "close_journal sv_enc AppendOk 7 sv_journal = (Inr (), sv_journal)" by (simp add: close_journal_def sv_journal_def)
  ultimately show ?thesis by (simp add: complete_journal_def final_state_def)
qed

lemma sv_later: "pm_later sv_env manager_new (sv_states 1)"
proof -
  let ?s1 = "(session_new sv_request)\<lparr>ps_journal := snd (mark_started sv_enc AppendOk 5 journal_create)\<rparr>"
  let ?m1 = "\<lparr>pm_sessions = [(''x'', ?s1)], pm_retired = [], pm_active = 1, pm_shutdown = False\<rparr>"
  let ?m2 = "on_session ''x'' (session_output sv_env AppendOk 6 Stdout ''hi'') ?m1"
  let ?m3 = "on_session ''x'' (session_exit sv_env AppendOk 7 (Inr 0)) ?m2"
  let ?s2 = "session_output sv_env AppendOk 6 Stdout ''hi'' ?s1"
  let ?s3 = "session_exit sv_env AppendOk 7 (Inr 0) ?s2"
  have "pm_step sv_env manager_new (if pm_sessions ?m1 = pm_sessions manager_new then [] else [execution_id sv_request]) ?m1"
    by (rule pm_step.start [OF sv_start])
  note l1 = pm_later.later [OF pm_later.now this]
  have m1: "map_of (pm_sessions ?m1) ''x'' = Some ?s1" by simp
  have "ps_task ?s1 \<noteq> TaskFinished" "\<not> ps_output_stop ?s1" by (simp_all add: session_new_def)
  note l2 = pm_later.later [OF l1 pm_step.output_chunk [OF m1 this, where io = AppendOk and now = 6 and stream = Stdout and bytes = "''hi''"]]
  have m2: "map_of (pm_sessions ?m2) ''x'' = Some ?s2" using m1 by (simp add: map_of_on_session)
  have "ps_task ?s2 = TaskRunning" by (simp add: session_output_def session_new_def)
  note l3 = pm_later.later [OF l2 pm_step.exit [OF m2 this, where io = AppendOk and now = 7 and exit_status = "Inr 0"]]
  have m3: "map_of (pm_sessions ?m3) ''x'' = Some ?s3" using m2 by (simp add: map_of_on_session)
  have "ps_task ?s3 = TaskDraining (Inr 0)"
    by (simp add: session_exit_def session_output_def session_new_def sv_request_def)
  note l4 = pm_later.later [OF l3 pm_step.complete [OF m3 this, where ios = "\<lambda>_. AppendOk" and now = 7 and failure = None]]
  have "pm_complete sv_env (\<lambda>_. AppendOk) 7 None ''x'' ?m3 = sv_states 1"
    by (simp add: pm_complete_def sv_states_def on_session_def u32_dec_def sv_session_def session_complete_def session_exit_def
        session_output_def session_new_def sv_env_def pm_env_def sv_request_def sv_complete loaded_completion_def)
  with l4 show ?thesis by simp
qed

lemma sv_timeline_ok: "timeline_ok sv_env sv_dec sv_timeline"
proof -
  have "pm_later sv_env (sv_states n) (sv_states (Suc n))" for n
  proof (cases n)
    case 0
    with sv_later show ?thesis by (simp add: sv_states_def)
  next
    case (Suc k)
    have "sv_states (Suc n) = sv_states n" using Suc by (simp add: sv_states_def)
    then show ?thesis by (simp add: pm_later.now)
  qed
  moreover have "pm_run sv_env [] (sv_states 0)" by (simp add: sv_states_def pm_run.new)
  ultimately show ?thesis using sv_codec sv_intact unfolding timeline_ok_def
    by (auto simp: sv_env_def pm_env_def sv_timeline_def sv_states_def manager_new_def sv_session_def split: if_splits)
qed

lemma sv_started_once:
  "\<forall>n s. map_of (pm_sessions (tl_states sv_timeline n)) (execution_id (pb_request sv_prepared)) = Some s \<longrightarrow> ps_request s = pb_request sv_prepared"
  by (simp add: sv_timeline_def sv_states_def sv_prepared_def sv_session_def session_new_def manager_new_def)

lemma sv_read: "read_now sv_dec None sv_eof sv_journal 0 8 = Inr \<lparr>events = map fst sv_codes, next_sequence = 5,
    result_state = StExited, result_exit_code = Some 0\<rparr>"
  by (simp add: read_now_def sv_journal_def already_read_def read_record_def sv_dec_def sv_codes_def
      trim_output_def slice_def sat_add_def u64_max_def vec_last_def Let_def)

lemma sv_poll: "\<exists>page r. bash_poll sv_tool sv_running sv_timeline = (Inr (page, r), sv_timeline\<lparr>tl_now := 4\<rparr>) \<and> rb_complete r"
proof -
  have q: "bash_read_request sv_tool sv_running = \<lparr>read_execution_id = ''x'', read_generation_id = ''g'', after_sequence = 0, read_max_bytes = 8, wait_ms = Some 1000\<rparr>"
    by (simp add: bash_read_request_def sv_tool_def sv_running_def supervised_processes_def sv_other_def sample_host_def sv_config_def u64_max_def)
  have rd: "supervised_read sv_env sv_dec sv_eof (bash_read_request sv_tool sv_running) sv_timeline =
      (Inr \<lparr>events = map fst sv_codes, next_sequence = 5, result_state = StExited, result_exit_code = Some 0\<rparr>, sv_timeline\<lparr>tl_now := 4\<rparr>)"
    unfolding q supervised_read_def pm_read_def
    by (simp add: sv_timeline_def sv_states_def session_entry_def sv_session_def journal_read_def sv_read validate_generation_def
        sv_env_def pm_env_def read_execution_validate_def issue_if_def single_def finish_def validated_def Let_def)
  have "\<exists>r. accept_reply \<lparr>events = map fst sv_codes, next_sequence = 5, result_state = StExited, result_exit_code = Some 0\<rparr> sv_running = Inr r \<and> rb_complete r"
    by (simp add: accept_reply_def sv_codes_def sv_running_def bash_terminal_def)
  moreover have "bash_validate_host sv_tool sv_prepared = Inr ()"
    by (simp add: bash_validate_host_def sv_tool_def supervised_processes_def sv_other_def sample_host_def sv_prepared_def)
  moreover have "bt_runtime sv_tool = supervised_processes sv_env sv_dec sv_eof sv_other" by (simp add: sv_tool_def)
  ultimately show ?thesis using rd
    by (auto simp: bash_poll_def io_bind_def io_lift_def supervised_processes_def supervised_checkpoint_def sv_timeline_def sv_running_def)
qed

text \<open>
  C5: the result of a command accounts for everything the command wrote. A caller polls a
  command that the supervisor runs, any number of times, through failed polls, and while the tasks of the
  process manager and any other request run in between. If the command is then marked as
  complete, its result reports the journal of the execution as it is at that time and at every later time:
  its state and exit code, its failure message, the number of bytes of output, and the longest
  suffix of that output within the limits. No append to a journal failed (\<open>intact\<close>) and the JSON
  decoder inverts the encoder.
\<close>

theorem completed_command_reports_journal:
  assumes "bash_tool_new (supervised_processes env dec eof_error other) wd cfg = Inr tool" and "bc_read_bytes cfg \<le> u64_max"
    and "bash_prepare tool inp ids = Inr p" and "timeline_ok env dec h0"
    and "\<forall>n s. map_of (pm_sessions (tl_states h0 n)) (execution_id (pb_request p)) = Some s \<longrightarrow> ps_request s = pb_request p"
    and "bash_recover tool p hdl = Inr r0" and "bash_polls tool r0 h0 r h" and "rb_complete r" and "tl_now h \<le> n"
  shows "reports dec (journal_at (tl_states h0) (execution_id (pb_request p)) n) p (running_output r)"
proof -
  note t = new_tool_ok [OF assms(1-3)]
  have pr: "timeline_prompt h0 (execution_id (pb_request p))" using assms(5) t by (simp add: timeline_prompt_def)
  note r0 = recovered_attached [OF assms(6), of "timeline_log dec" timeline_final timeline_status h0]
  have a: "attached (timeline_log dec) timeline_final timeline_status h r \<and> rb_prepared r = p \<and> handle_execution_id (rb_handle r) = execution_id (pb_request p)"
    using sp.polls_attached [OF assms(7,4)] r0 pr t by auto
  have "tl_states h = tl_states h0" using supervised_polls_states [OF assms(7)] t by blast
  with completed_reports [OF _ assms(8) _ assms(9), of dec] a t show ?thesis by simp
qed

theorem completed_command_reports_journal_witness:
  "\<exists>r h. bash_polls sv_tool sv_running sv_timeline r h \<and> rb_complete r \<and> reports sv_dec sv_journal sv_prepared (running_output r)"
proof -
  obtain page r where p: "bash_poll sv_tool sv_running sv_timeline = (Inr (page, r), sv_timeline\<lparr>tl_now := 4\<rparr>)" and c: "rb_complete r"
    using sv_poll by blast
  note ps = bash_polls.polled [OF bash_polls.none p]
  have "bc_read_bytes sv_config \<le> u64_max" by (simp add: sv_config_def u64_max_def)
  from completed_command_reports_journal [OF sv_tool_new this sv_prepare sv_timeline_ok sv_started_once sv_recover ps c, of 9]
  have "reports sv_dec sv_journal sv_prepared (running_output r)"
    by (simp add: sv_timeline_def sv_prepared_def sv_request_def journal_at_present sv_states_def sv_session_def)
  with ps c show ?thesis by blast
qed

text \<open>
  C32: waiting for a command returns. If the journal of the execution is closed at some time, \<open>wait\<close> does not
  poll for ever; it returns an error, or a result that reports the final journal.
\<close>

theorem wait_returns_final_report:
  assumes "bash_tool_new (supervised_processes env dec eof_error other) wd cfg = Inr tool" and "bc_read_bytes cfg \<le> u64_max"
    and "bash_prepare tool inp ids = Inr p" and "timeline_ok env dec h0"
    and "\<forall>n s. map_of (pm_sessions (tl_states h0 n)) (execution_id (pb_request p)) = Some s \<longrightarrow> ps_request s = pb_request p"
    and "bash_recover tool p hdl = Inr r0" and "j_closed (journal_at (tl_states h0) (execution_id (pb_request p)) n)"
  shows "\<exists>res r h. bash_wait tool stop json r0 h0 = Some (res, r, h) \<and>
     (\<forall>out. res = Inr out \<longrightarrow> reports dec (journal_at (tl_states h0) (execution_id (pb_request p)) n) p out)"
proof -
  let ?i = "execution_id (pb_request p)"
  note t = new_tool_ok [OF assms(1-3)]
  have pr: "timeline_prompt h0 ?i" using assms(5) t by (simp add: timeline_prompt_def)
  note r0 = recovered_attached [OF assms(6), of "timeline_log dec" timeline_final timeline_status h0]
  have "timeline_ends h0 ?i" using assms(7) by (auto simp: timeline_ends_def)
  with sp.wait_returns [OF assms(4), of r0 tool eof_error other stop json] r0 pr t obtain res r h where
    w: "bash_wait tool stop json r0 h0 = Some (res, r, h)" "rb_prepared r = p" "handle_execution_id (rb_handle r) = ?i"
      "\<And>out. res = Inr out \<Longrightarrow> out = running_output r \<and> rb_complete r \<and> bash_polls tool r0 h0 r h \<and>
         attached (timeline_log dec) timeline_final timeline_status h r" by auto
  have "reports dec (journal_at (tl_states h0) ?i n) p out" if "res = Inr out" for out
  proof -
    note o = w(4) [OF that]
    have "tl_states h = tl_states h0" using supervised_polls_states [of tool r0 h0 r h] o t by blast
    with completed_reports [of dec h r "max n (tl_now h)"] o w(2,3) t
    have "reports dec (journal_at (tl_states h0) ?i (max n (tl_now h))) p out" by simp
    with closed_frozen [OF assms(4,7), of "max n (tl_now h)"] show ?thesis by simp
  qed
  with w(1) show ?thesis by blast
qed

theorem wait_returns_final_report_witness:
  "\<exists>res r h. bash_wait sv_tool (pr_terminate sv_other) (\<lambda>_. DText ''error'') sv_running sv_timeline = Some (res, r, h) \<and>
     (\<forall>out. res = Inr out \<longrightarrow> reports sv_dec sv_journal sv_prepared out)"
proof -
  have b: "bc_read_bytes sv_config \<le> u64_max" by (simp add: sv_config_def u64_max_def)
  have j: "journal_at (tl_states sv_timeline) (execution_id (pb_request sv_prepared)) 1 = sv_journal"
    by (simp add: sv_timeline_def sv_prepared_def sv_request_def journal_at_present sv_states_def sv_session_def)
  have "j_closed (journal_at (tl_states sv_timeline) (execution_id (pb_request sv_prepared)) 1)"
    unfolding j by (simp add: sv_journal_def)
  from wait_returns_final_report [OF sv_tool_new b sv_prepare sv_timeline_ok sv_started_once sv_recover this] show ?thesis
    unfolding j by blast
qed

end
