(* ===== verification/Unified_Supervisor.thy ===== *)
theory Unified_Supervisor
  imports Unified_Session Bash_Supervisor
begin

text \<open>
  The interactive tool on the process manager of the supervisor. The host is a timeline as for the
  shell tool, with the manager's own start, write and signal, and a clock. The effects of the
  calls of the tool are part of the timeline, as those of every other caller are; an
  operation answers what the manager answers at its instant.
\<close>

section \<open>The host\<close>

record outside =
  os_fs :: "nat \<Rightarrow> nfs"
  os_start :: "nat \<Rightarrow> start_os"
  os_write :: "nat \<Rightarrow> write_outcome"
  os_signal :: "nat \<Rightarrow> signal_os"
  os_clock :: "nat \<Rightarrow> nat"

definition at_instant :: "(nat \<Rightarrow> manager \<Rightarrow> 'a exec_result \<times> manager) \<Rightarrow> (timeline, 'a) io" where
  "at_instant act h = (fst (act (tl_now h) (tl_states h (tl_now h))), h\<lparr>tl_now := tl_now h + 1\<rparr>)"

definition supervised_runtime ::
  "manager_env \<Rightarrow> event_decoder \<Rightarrow> exec_error \<Rightarrow> outside \<Rightarrow> timeline process_runtime \<Rightarrow> timeline process_runtime" where
  "supervised_runtime env dec eof_error out other =
     supervised_processes env dec eof_error (other\<lparr>
       pr_start := \<lambda>q. at_instant (\<lambda>t. pm_start env (os_fs out t) (os_start out t) q),
       pr_write := \<lambda>q h. at_instant (\<lambda>t. pm_write env (tl_entered h t) (os_write out t) q) h,
       pr_signal := \<lambda>q h. at_instant (\<lambda>t. pm_signal env (tl_entered h t) (os_signal out t) q) h\<rparr>)"

definition supervised_now :: "outside \<Rightarrow> timeline \<Rightarrow> nat \<times> timeline" where
  "supervised_now out h = (os_clock out (tl_now h), h\<lparr>tl_now := tl_now h + 1\<rparr>)"

section \<open>The contract\<close>

lemma log_stream_closed:
  assumes "UEvent ts Closed \<in> set (log_stream h)"
  shows "Closed \<in> snd ` set h"
  using assms
proof (induction h)
  case (Cons x h)
  obtain t k where x: "x = (t, k)" by force
  with Cons closed_not_unit [of k ts t] show ?case by auto
qed simp

lemma intact_closed:
  assumes "intact enc j" and "codec_ok enc dec"
  shows "j_closed j \<longleftrightarrow> Closed \<in> snd ` set (journal_log dec j)"
proof -
  from assms(1) obtain ops where r: "log_refines enc (foldl log_step log_empty ops) j"
    using journal_run_refines by (auto simp: intact_def)
  then have h: "journal_of enc (log_events (foldl log_step log_empty ops)) j" by (simp add: log_refines_def)
  from r log_run_ok [of ops] journal_log_of [OF h assms(2)] show ?thesis by (simp add: log_refines_def log_ok_def)
qed

lemma closed_terminal:
  assumes "timeline_ok env dec h" and "j_closed (journal_at (tl_states h) i n)"
  shows "is_terminal (j_state (journal_at (tl_states h) i n))"
  using assms(2)
proof (induction n)
  case 0
  show ?case
  proof (cases "map_of (pm_sessions (tl_states h 0)) i")
    case (Some s)
    with 0 manager_inv_session [OF timeline_inv [OF assms(1)] Some] show ?thesis by (simp add: session_ok_def)
  qed (use 0 in \<open>simp add: journal_create_def\<close>)
next
  case (Suc n)
  show ?case
  proof (cases "map_of (pm_sessions (tl_states h (Suc n))) i")
    case (Some s)
    with Suc manager_inv_session [OF timeline_inv [OF assms(1)] Some] show ?thesis by (simp add: session_ok_def)
  qed (use Suc in simp)
qed

lemma supervised_closed_read:
  assumes ok: "timeline_ok env dec h" and rd: "supervised_read env dec eof_error q h = (Inr r, h')"
    and le: "after_sequence q \<le> length (log_stream (timeline_log dec h (read_execution_id q)))" and lim: "read_max_bytes q \<le> u64_max"
    and e: "e \<in> set (events r)" "event e = Closed"
  shows "is_terminal (result_state r) \<and> timeline_final h' (read_execution_id q) \<and>
     timeline_status h' (read_execution_id q) = (result_state r, result_exit_code r)"
proof -
  let ?i = "read_execution_id q" and ?t = "tl_now h"
  obtain k where k: "k \<in> {?t, ?t + 2}" "h' = h\<lparr>tl_now := ?t + 3\<rparr>"
      "read_now dec None eof_error (journal_at (tl_states h) ?i k) (after_sequence q) (read_max_bytes q) = Inr r"
    using supervised_read_cases [OF rd refl refl] by metis
  let ?j = "journal_at (tl_states h) ?i k"
  have tk: "?t \<le> k" "k \<le> ?t + 3" using k(1) by auto
  have c: "codec_ok (me_encode env) dec" using ok by (simp add: timeline_ok_def)
  note j = journal_at_intact [OF ok, of ?i k]
  have le': "after_sequence q \<le> length (log_stream (journal_log dec ?j))"
    using le prefix_length_le [OF log_stream_prefix [OF timeline_log_prefix [OF ok tk(1), where i = ?i]]] by (simp add: timeline_log_def)
  from read_now_ok [OF intact_log(1) [OF j c] c lim le', of eof_error] k(3)
  have r: "read_ok (after_sequence q) (read_max_bytes q) 0 (drop (after_sequence q) (log_stream (journal_log dec ?j))) (events r)"
      "result_state r = j_state ?j" "result_exit_code r = j_exit_code ?j" by auto
  have "UEvent (timestamp e) Closed \<in> set (concat (map ev_units (events r)))" using e by (force simp: ev_units_def)
  moreover have "set (concat (map ev_units (events r))) \<subseteq> set (drop (after_sequence q) (log_stream (journal_log dec ?j)))"
    using r(1) unfolding read_ok_def by auto
  ultimately have "UEvent (timestamp e) Closed \<in> set (log_stream (journal_log dec ?j))" by (meson in_set_dropD subsetD)
  with intact_closed [OF j c] log_stream_closed have cl: "j_closed ?j" by blast
  have "timeline_final h' ?i \<and> timeline_log dec h' ?i = journal_log dec ?j \<and> timeline_status h' ?i = (j_state ?j, j_exit_code ?j)"
    by (rule frozen_view [OF closed_frozen [OF ok cl]]) (use k(2) tk in simp_all)
  with closed_terminal [OF ok cl] r(2,3) show ?thesis by simp
qed

lemma timeline_advance:
  assumes "timeline_ok env dec h" and "tl_states h = S" and "tl_now h \<le> n"
  shows "host_grew (\<lambda>h. timeline_ok env dec h \<and> tl_states h = S) (timeline_log dec) timeline_final timeline_status h (h\<lparr>tl_now := n\<rparr>)"
proof -
  have "prefix (timeline_log dec h i) (timeline_log dec (h\<lparr>tl_now := n\<rparr>) i)" for i
    using timeline_log_prefix [OF assms(1,3), of i] by (simp add: timeline_log_def)
  moreover have "timeline_final (h\<lparr>tl_now := n\<rparr>) i \<and> timeline_log dec (h\<lparr>tl_now := n\<rparr>) i = timeline_log dec h i \<and>
      timeline_status (h\<lparr>tl_now := n\<rparr>) i = timeline_status h i" if "timeline_final h i" for i
  proof -
    have "journal_at (tl_states h) i m = journal_at (tl_states h) i (tl_now h)" if "tl_now h \<le> m" for m
      using \<open>timeline_final h i\<close> that unfolding timeline_final_def by blast
    from frozen_view [OF this, of "tl_now h" "h\<lparr>tl_now := n\<rparr>" dec] assms(3)
    show ?thesis by (simp add: timeline_log_def [of dec h] timeline_status_def [of h] Let_def)
  qed
  ultimately show ?thesis using assms(1,2) by (simp add: host_grew_def timeline_tick)
qed

lemma supervised_runtime_ops [simp]:
  "pr_checkpoint (supervised_runtime env dec eof_error out other) = supervised_checkpoint"
  "pr_read (supervised_runtime env dec eof_error out other) = supervised_read env dec eof_error"
  "pr_start (supervised_runtime env dec eof_error out other) q = at_instant (\<lambda>t. pm_start env (os_fs out t) (os_start out t) q)"
  "pr_write (supervised_runtime env dec eof_error out other) wq h = at_instant (\<lambda>t. pm_write env (tl_entered h t) (os_write out t) wq) h"
  "pr_signal (supervised_runtime env dec eof_error out other) sq h = at_instant (\<lambda>t. pm_signal env (tl_entered h t) (os_signal out t) sq) h"
  "pr_descriptor (supervised_runtime env dec eof_error out other) = pr_descriptor other"
  by (simp_all add: supervised_runtime_def supervised_processes_def)

lemma interactive_host_supervised:
  "interactive_host (supervised_runtime env dec eof_error out other) (timeline_log dec) (\<lambda>h. timeline_ok env dec h \<and> tl_states h = S)
     timeline_prompt timeline_final timeline_status (supervised_now out)"
proof -
  let ?pr = "supervised_runtime env dec eof_error out other"
  obtain o2 where p: "?pr = supervised_processes env dec eof_error o2" by (simp add: supervised_runtime_def)
  have s: "tl_states h' = tl_states h" if "pr_read ?pr q h = (y, h') \<or> pr_checkpoint ?pr h = (x, h')" for q x y h h'
    using that by (auto simp: supervised_read_def supervised_checkpoint_def Let_def)
  show ?thesis
  proof (unfold_locales, goal_cases)
    case (1 h x h')
    with sp.checkpoint_frame [of env dec h eof_error o2, folded p, of x h'] s show ?case by metis
  next
    case (2 h q y h' i)
    with sp.read_grows [of env dec h eof_error o2, folded p, of q y h' i] s show ?case by metis
  next
    case (3 h q r h')
    with sp.read_events [of env dec h eof_error o2, folded p, of q r h'] show ?case by blast
  next
    case (4 h i)
    with sp.log_late show ?case by blast
  next
    case (5 h q r h' e)
    then show ?case by (intro supervised_closed_read) auto
  next
    case (6 h i)
    then have "codec_ok (me_encode env) dec" by (simp add: timeline_ok_def)
    with 6 intact_log(1) [OF journal_at_intact [of env dec h i "tl_now h"]] show ?case
      by (fastforce simp: timeline_log_def journal_of_def)
  next
    case (7 h rq x h')
    with timeline_advance [of env dec h S "tl_now h + 1"] show ?case by (simp add: at_instant_def)
  next
    case (8 h wq y h')
    with timeline_advance [of env dec h S "tl_now h + 1"] show ?case by (simp add: at_instant_def)
  next
    case (9 h sq z h')
    with timeline_advance [of env dec h S "tl_now h + 1"] show ?case by (simp add: at_instant_def)
  next
    case (10 h t h')
    with timeline_advance [of env dec h S "tl_now h + 1"] show ?case by (simp add: supervised_now_def)
  qed
qed

interpretation us: interactive_host "supervised_runtime env dec eof_error out other" "timeline_log dec"
  "\<lambda>h. timeline_ok env dec h \<and> tl_states h = S" timeline_prompt timeline_final timeline_status "supervised_now out"
  for env dec eof_error out other S
  by (rule interactive_host_supervised)

section \<open>Every call returns\<close>

text \<open>The two loops that wait have this form.\<close>

lemma waiting_loop_returns:
  assumes unfold: "\<And>r h. W r h = (if ready r then (case fin r h of (res, h1) \<Rightarrow> Some (res, r, h1))
      else case poll r h of (Inl e, r', h1) \<Rightarrow> Some (Inl e, r', h1) | (Inr _, r', h1) \<Rightarrow> W r' h1)"
    and I: "\<And>r h x r' h'. I r h \<Longrightarrow> \<not> ready r \<Longrightarrow> poll r h = (Inr x, r', h') \<Longrightarrow> I r' h' \<and> (ready r' \<or> m r' h' < (m r h :: nat))"
    and "I r h"
  shows "\<exists>res r' h'. W r h = Some (res, r', h') \<and>
     (\<forall>out. res = Inr out \<longrightarrow> (\<exists>h1. I r' h1 \<and> fin r' h1 = (Inr out, h')))"
proof -
  have ready: "\<exists>res r' h'. W r h = Some (res, r', h') \<and> (\<forall>out. res = Inr out \<longrightarrow> (\<exists>h1. I r' h1 \<and> fin r' h1 = (Inr out, h')))"
    if "I r h" "ready r" for r h
    using that by (auto simp: unfold [of r h] split: prod.splits)
  show ?thesis using assms(3)
  proof (induction "m r h" arbitrary: r h rule: less_induct)
    case less
    show ?case
    proof (cases "ready r")
      case False
      obtain x r' h' where p: "poll r h = (x, r', h')" by (metis prod_cases3)
      show ?thesis
      proof (cases x)
        case (Inr y)
        have w: "W r h = W r' h'" using unfold [of r h] False p Inr by simp
        from I [OF less.prems False p [unfolded Inr]] ready [of r' h'] less.hyps [of r' h'] show ?thesis unfolding w by blast
      qed (use unfold [of r h] False p in simp)
    qed (use ready less.prems in blast)
  qed
qed

lemma polled_session:
  assumes "session_poll tool (s, c, x) h = (Inr (page, s', c', x'), h')" and "\<not> oc_ready c"
    and "ut_processes tool = supervised_runtime env dec eof_error out other" and "ut_now tool = supervised_now out"
  obtains reply h1 h2 cc where "h1 = h\<lparr>tl_now := tl_now h + 1\<rparr>" 
    "supervised_read env dec eof_error (poll_request tool (os_clock out (tl_now h)) s c) h1 = (Inr reply, h2)"
    "h2 = h\<lparr>tl_now := tl_now h + 4\<rparr>" "collect_reply reply s c = Inr (s', cc)"
    "c' = settle_collection (os_clock out (tl_now h + 4)) (result_state reply) cc" "h' = h\<lparr>tl_now := tl_now h + 5\<rparr>"
proof -
  from assms obtain reply h2 cc where r: "supervised_read env dec eof_error (poll_request tool (os_clock out (tl_now h)) s c) (h\<lparr>tl_now := tl_now h + 1\<rparr>) = (Inr reply, h2)"
    "collect_reply reply s c = Inr (s', cc)" "c' = settle_collection (os_clock out (tl_now h2)) (result_state reply) cc" "h' = h2\<lparr>tl_now := tl_now h2 + 1\<rparr>"
    by (auto simp: session_poll_def io_bind_Inr_iff io_now_def supervised_now_def supervised_checkpoint_def Let_def)
  then have "h2 = h\<lparr>tl_now := tl_now h + 4\<rparr>" by (auto simp: supervised_read_def Let_def)
  with r show thesis by (intro that [of _ reply h2 cc]) (auto simp: add.commute)
qed

text \<open>
  \<open>bound\<close> is an instant from which on the journal is closed, or the deadline of the call has passed and the
  execution never ends. A poll then ends the call or moves the cursor.
\<close>

definition call_bound :: "outside \<Rightarrow> (nat \<Rightarrow> manager) \<Rightarrow> string \<Rightarrow> nat \<Rightarrow> nat \<Rightarrow> bool" where
  "call_bound out S i deadline bound \<longleftrightarrow> j_closed (journal_at S i bound) \<or>
     (\<forall>n. \<not> is_terminal (j_state (journal_at S i n))) \<and> (\<forall>n \<ge> bound. deadline \<le> os_clock out n)"

lemma poll_gets_closer:
  assumes "session_poll tool (s, c, x) h = (Inr (page, s', c', x'), h')" and "\<not> oc_ready c" and "\<not> oc_ready c'"
    and "ue_tool_ok (supervised_runtime env dec eof_error out other) (supervised_now out) tool"
    and "timeline_ok env dec h" and "tl_states h = S" and "i = handle_execution_id (es_handle s)"
    and "collected (timeline_log dec) timeline_final timeline_status limit pre h (s, c, x)"
    and "call_bound out S i (oc_deadline_at_ms c) bound"
  shows "oc_deadline_at_ms c' = oc_deadline_at_ms c \<and>
     (bound - tl_now h') + (length (log_stream (journal_log dec (journal_at S i bound))) - es_cursor s')
       < (bound - tl_now h) + (length (log_stream (journal_log dec (journal_at S i bound))) - es_cursor s)"
proof -
  let ?L = "log_stream (journal_log dec (journal_at S i bound))"
  have t: "ut_processes tool = supervised_runtime env dec eof_error out other" "ut_now tool = supervised_now out"
    using assms(4) by (simp_all add: ue_tool_ok_def)
  obtain reply h1 h2 cc where h1: "h1 = h\<lparr>tl_now := tl_now h + 1\<rparr>"
    and rd: "supervised_read env dec eof_error (poll_request tool (os_clock out (tl_now h)) s c) h1 = (Inr reply, h2)"
    and h2: "h2 = h\<lparr>tl_now := tl_now h + 4\<rparr>" and cr: "collect_reply reply s c = Inr (s', cc)"
    and c': "c' = settle_collection (os_clock out (tl_now h + 4)) (result_state reply) cc" and h': "h' = h\<lparr>tl_now := tl_now h + 5\<rparr>"
    using polled_session [OF assms(1,2) t] by metis
  let ?q = "poll_request tool (os_clock out (tl_now h)) s c"
  note ok = assms(5)
  have ok1: "timeline_ok env dec h1 \<and> tl_states h1 = S" and ok2: "timeline_ok env dec h2 \<and> tl_states h2 = S"
    using ok assms(6) by (simp_all add: h1 h2 timeline_tick)
  have "host_grew (\<lambda>h. timeline_ok env dec h \<and> tl_states h = S) (timeline_log dec) timeline_final timeline_status h h1"
    unfolding h1 by (rule timeline_advance [OF ok assms(6)]) simp
  note a1 = collected_grew [OF assms(8) this]
  note b = poll_read_bounds [OF assms(4), of "os_clock out (tl_now h)" s c]
  have rd': "pr_read (supervised_runtime env dec eof_error out other) ?q h1 = (Inr reply, h2)" using rd by simp
  from us.page_collected [OF ok1 ok2 a1 assms(2) rd' refl b(2)] cr
  have p: "es_cursor s' = es_cursor s + length (concat (map ev_units (events reply)))" "oc_deadline_at_ms cc = oc_deadline_at_ms c" by auto
  have d: "oc_deadline_at_ms c' = oc_deadline_at_ms c" using p(2) by (simp add: c' settle_collection_def collection_finish_def)
  have q: "read_execution_id ?q = i" "after_sequence ?q = es_cursor s" using assms(7) by (simp_all add: poll_request_def)
  obtain k where k: "k \<in> {tl_now h1, tl_now h1 + 2}"
      "read_now dec None eof_error (journal_at S i k) (es_cursor s) (read_max_bytes ?q) = Inr reply"
    using supervised_read_cases [OF rd refl refl] ok1 q by metis
  have rs: "result_state reply = j_state (journal_at S i k)"
    using k(2) by (auto simp: read_now_def Let_def rbind_Inr_iff split: if_splits)
  have moved: "es_cursor s < es_cursor s' \<and> es_cursor s < length ?L" if "bound \<le> tl_now h"
  proof (cases "j_closed (journal_at S i bound)")
    case False
    with assms(9) rs have "\<not> ue_terminal (result_state reply)" "oc_deadline_at_ms cc \<le> os_clock out (tl_now h + 4)"
      using that p(2) by (simp_all add: call_bound_def ue_terminal_iff)
    with c' assms(3) show ?thesis by (simp add: settle_collection_def collection_finish_def)
  next
    case True
    have "bound \<le> k" using that k(1) by (auto simp: h1)
    then have jk: "journal_at S i k = journal_at S i bound" using closed_frozen [OF ok, of i bound k] True assms(6) by simp
    have jn: "journal_at S i (tl_now h) = journal_at S i bound" using closed_frozen [OF ok, of i bound "tl_now h"] True assms(6) that by simp
    have cd: "codec_ok (me_encode env) dec" using ok by (simp add: timeline_ok_def)
    note j = journal_at_intact [OF ok, of i bound, unfolded assms(6)]
    from assms(2,6,7,8) jn obtain us rest where u: "?L = pre @ us @ rest" "es_cursor s = length (pre @ us)" "gathered limit us c" "\<not> has_closed pre" "\<not> oc_closed c"
      unfolding collected_def Let_def prod.case timeline_log_def by auto
    have "has_closed ?L"
    proof -
      obtain ts where "(ts, Closed) \<in> set (journal_log dec (journal_at S i bound))"
        using intact_closed [OF j cd] True by force
      then show ?thesis by (force simp: has_closed_def log_stream_def)
    qed
    with u have lt: "es_cursor s < length ?L" by (cases rest) (auto simp: gathered_def)
    from read_progress [OF intact_log(1) [OF j cd] cd b lt, of eof_error reply] k(2) jk have "es_cursor s < next_sequence reply" by simp
    moreover have "next_sequence reply = es_cursor s'" using cr by (auto simp: collect_reply_def rbind_Inr_iff)
    ultimately show ?thesis using lt by simp
  qed
  show ?thesis
  proof (cases "bound \<le> tl_now h")
    case True
    with moved d h' show ?thesis by (simp add: diff_less_mono2)
  next
    case False
    with p(1) d h' show ?thesis by simp
  qed
qed

text \<open>
  The clock passes every deadline for good, and a journal whose state is terminal is closed at some time.
\<close>

definition clock_runs :: "outside \<Rightarrow> bool" where
  "clock_runs out \<longleftrightarrow> (\<forall>t. \<exists>m. \<forall>n \<ge> m. t \<le> os_clock out n)"

definition closes_when_over :: "(nat \<Rightarrow> manager) \<Rightarrow> string \<Rightarrow> bool" where
  "closes_when_over S i \<longleftrightarrow> (\<exists>n. is_terminal (j_state (journal_at S i n))) \<longrightarrow> (\<exists>n. j_closed (journal_at S i n))"

lemma call_bound_exists:
  assumes "clock_runs out" and "closes_when_over S i"
  shows "\<exists>bound. call_bound out S i deadline bound"
  using assms unfolding clock_runs_def closes_when_over_def call_bound_def by blast

lemma wait_exec_returns:
  assumes t: "ue_tool_ok (supervised_runtime env dec eof_error out other) (supervised_now out) tool"
    and "timeline_ok env dec h0 \<and> tl_states h0 = S" and "rx_patch r0 = None" and "rx_session r0 = Some s0"
    and "collected (timeline_log dec) timeline_final timeline_status limit pre h0 (s0, rx_collection r0, rx_exit_code r0)"
    and "clock_runs out" and "closes_when_over S (handle_execution_id (es_handle s0))"
  shows "\<exists>res r h. wait_exec_command tool r0 h0 = Some (res, r, h) \<and>
     (\<forall>out. res = Inr out \<longrightarrow> (\<exists>h1. exec_polls tool r0 h0 r h1 \<and> finish_exec_command tool r h1 = (Inr out, h)))"
proof -
  let ?i = "handle_execution_id (es_handle s0)"
  obtain bound where b: "call_bound out S ?i (oc_deadline_at_ms (rx_collection r0)) bound" using call_bound_exists [OF assms(6,7)] by blast
  let ?m = "\<lambda>r h. (bound - tl_now h) + (length (log_stream (journal_log dec (journal_at S ?i bound))) - es_cursor (the (rx_session r)))"
  let ?I = "\<lambda>r h. exec_polls tool r0 h0 r h \<and> (\<not> oc_ready (rx_collection r) \<longrightarrow> oc_deadline_at_ms (rx_collection r) = oc_deadline_at_ms (rx_collection r0))"
  have step: "?I r' h' \<and> (oc_ready (rx_collection r') \<or> ?m r' h' < ?m r h)"
    if I: "?I r h" and nr: "\<not> oc_ready (rx_collection r)" and p: "poll_exec_command tool r h = (Inr y, r', h')" for r h y r' h'
  proof -
    from us.exec_polls_collected [OF conjunct1 [OF I] assms(2,1,3-5)] obtain s where
        s: "rx_session r = Some s" "handle_execution_id (es_handle s) = ?i" "rx_patch r = None"
          "collected (timeline_log dec) timeline_final timeline_status limit pre h (s, rx_collection r, rx_exit_code r)"
        and h: "timeline_ok env dec h" "tl_states h = S"
      by (auto simp: host_grew_def)
    from p s(1,3) obtain page s' c' x' where q: "session_poll tool (s, rx_collection r, rx_exit_code r) h = (Inr (page, s', c', x'), h')"
        "r' = r\<lparr>rx_session := Some s', rx_collection := c', rx_exit_code := x'\<rparr>"
      by (auto simp: poll_exec_command_def split: sum.splits prod.splits)
    have "oc_ready c' \<or> oc_deadline_at_ms c' = oc_deadline_at_ms (rx_collection r0) \<and> ?m r' h' < ?m r h"
      using poll_gets_closer [OF q(1) nr _ t h s(2) [symmetric] s(4)] b I nr q(2) s(1) by auto
    with exec_polls.polled [OF conjunct1 [OF I] p] q(2) show ?thesis by auto
  qed
  have "?I r0 h0" by (simp add: exec_polls.none)
  have "\<exists>res r' h'. wait_exec_command tool r0 h0 = Some (res, r', h') \<and> (\<forall>out. res = Inr out \<longrightarrow> (\<exists>h1. ?I r' h1 \<and> finish_exec_command tool r' h1 = (Inr out, h')))"
    by (rule waiting_loop_returns [where m = ?m and I = ?I, OF wait_exec_command.simps _ \<open>?I r0 h0\<close>]) (rule step)
  then show ?thesis by blast
qed

lemma wait_stdin_returns:
  assumes t: "ue_tool_ok (supervised_runtime env dec eof_error out other) (supervised_now out) tool"
    and "timeline_ok env dec h0 \<and> tl_states h0 = S"
    and "collected (timeline_log dec) timeline_final timeline_status limit pre h0 (rw_session w0, rw_collection w0, rw_exit_code w0)"
    and "clock_runs out" and "closes_when_over S (handle_execution_id (es_handle (rw_session w0)))"
  shows "\<exists>res w h. wait_write_stdin tool w0 h0 = Some (res, w, h) \<and>
     (\<forall>out. res = Inr out \<longrightarrow> (\<exists>h1. stdin_polls tool w0 h0 w h1 \<and> finish_write_stdin tool w h1 = (Inr out, h)))"
proof -
  let ?i = "handle_execution_id (es_handle (rw_session w0))"
  obtain bound where b: "call_bound out S ?i (oc_deadline_at_ms (rw_collection w0)) bound" using call_bound_exists [OF assms(4,5)] by blast
  let ?m = "\<lambda>r h. (bound - tl_now h) + (length (log_stream (journal_log dec (journal_at S ?i bound))) - es_cursor (rw_session r))"
  let ?I = "\<lambda>r h. stdin_polls tool w0 h0 r h \<and> (\<not> oc_ready (rw_collection r) \<longrightarrow> oc_deadline_at_ms (rw_collection r) = oc_deadline_at_ms (rw_collection w0))"
  have step: "?I r' h' \<and> (oc_ready (rw_collection r') \<or> ?m r' h' < ?m r h)"
    if I: "?I r h" and nr: "\<not> oc_ready (rw_collection r)" and p: "poll_write_stdin tool r h = (Inr y, r', h')" for r h y r' h'
  proof -
    from us.stdin_polls_collected [OF conjunct1 [OF I] assms(2,1,3)] have
        s: "handle_execution_id (es_handle (rw_session r)) = ?i"
          "collected (timeline_log dec) timeline_final timeline_status limit pre h (rw_session r, rw_collection r, rw_exit_code r)"
        and h: "timeline_ok env dec h" "tl_states h = S"
      by (auto simp: host_grew_def)
    from p obtain page s' c' x' where q: "session_poll tool (rw_session r, rw_collection r, rw_exit_code r) h = (Inr (page, s', c', x'), h')"
        "r' = r\<lparr>rw_session := s', rw_collection := c', rw_exit_code := x'\<rparr>"
      by (auto simp: poll_write_stdin_def split: sum.splits prod.splits)
    have "oc_ready c' \<or> oc_deadline_at_ms c' = oc_deadline_at_ms (rw_collection w0) \<and> ?m r' h' < ?m r h"
      using poll_gets_closer [OF q(1) nr _ t h s(1) [symmetric] s(2)] b I nr q(2) by auto
    with stdin_polls.polled [OF conjunct1 [OF I] p] q(2) show ?thesis by auto
  qed
  have "?I w0 h0" by (simp add: stdin_polls.none)
  have "\<exists>res r' h'. wait_write_stdin tool w0 h0 = Some (res, r', h') \<and> (\<forall>out. res = Inr out \<longrightarrow> (\<exists>h1. ?I r' h1 \<and> finish_write_stdin tool r' h1 = (Inr out, h')))"
    by (rule waiting_loop_returns [where m = ?m and I = ?I, OF wait_write_stdin.simps _ \<open>?I w0 h0\<close>]) (rule step)
  then show ?thesis by blast
qed

section \<open>Properties\<close>

lemma unified_tool_ok:
  assumes "unified_exec_new tool = Inr tool" and "uc_read_bytes (ut_config tool) \<le> u64_max"
  shows "ue_tool_ok (ut_processes tool) (ut_now tool) tool"
  using assms by (auto simp: unified_exec_new_def ue_tool_ok_def ut_descriptor_def rbind_Inr_iff Let_def split: if_splits)

subsection \<open>A command that ends within its call\<close>

definition uv_outside :: outside where
  "uv_outside = \<lparr>os_fs = \<lambda>_. pm_fs, os_start = \<lambda>_. pm_os, os_write = \<lambda>_. WriteDone,
     os_signal = \<lambda>_. \<lparr>sg_group = None, sg_killer = None\<rparr>, os_clock = \<lambda>n. n\<rparr>"

definition uv_files :: "timeline runtime" where
  "uv_files = \<lparr>rt_descriptor = sample_host, rt_checkpoint = supervised_checkpoint, rt_stat = (\<lambda>_ h. (Inl (Fail sv_eof), h)),
     rt_read = (\<lambda>_ h. (Inl (Fail sv_eof), h)), rt_write = (\<lambda>_ h. (Inl (Fail sv_eof), h)), rt_remove = (\<lambda>_ h. (Inl (Fail sv_eof), h)),
     rt_create_directory = (\<lambda>_ h. (Inl (Fail sv_eof), h)), rt_list = (\<lambda>_ h. (Inl (Fail sv_eof), h))\<rparr>"

definition uv_config :: unified_exec_config where
  "uv_config = unified_exec_config_default\<lparr>uc_intercept_apply_patch := False, uc_max_output_bytes := 10, uc_read_bytes := 8\<rparr>"

definition uv_tool :: "timeline unified_exec_tool" where
  "uv_tool = \<lparr>ut_files = uv_files, ut_processes = supervised_runtime sv_env sv_dec sv_eof uv_outside sv_other,
     ut_now = supervised_now uv_outside, ut_extract = (\<lambda>_. Inl NotApplyPatch), ut_debug_path = path,
     ut_cwd = \<lparr>root_id = ''work'', path = ''.''\<rparr>, ut_config = uv_config\<rparr>"

definition uv_input :: exec_command_input where
  "uv_input = \<lparr>ei_cmd = ''echo'', ei_workdir = None, ei_shell = None, ei_login = None, ei_tty = False,
     ei_yield_time_ms = 1000, ei_max_output_tokens = None\<rparr>"

definition uv_ids :: exec_command_ids where
  "uv_ids = \<lparr>xi_session_id = 1, xi_operation_id = ''op'', xi_execution_id = ''x'', xi_terminate_operation_id = ''stop''\<rparr>"

definition uv_request :: start_execution_request where
  "uv_request = \<lparr>expected_generation = Some ''g'', output_drain_timeout_ms = Some 50, start_operation_id = ''op'', execution_id = ''x'',
     command = ShellScript ''echo'' None True, cwd = \<lparr>root_id = ''work'', path = ''.''\<rparr>,
     environment = \<lparr>env_mode = Inherit, env_set = [], env_remove = []\<rparr>, stdin = ClosedStdin, timeout_ms = None\<rparr>"

definition uv_prepared :: prepared_exec where
  "uv_prepared = \<lparr>px_patch_config = patch_config_default, px_host_id = ''h'', px_generation = ''g'', px_session_id = 1,
     px_request = uv_request, px_terminate_operation_id = ''stop'', px_yield_time_ms = 1000, px_max_output_bytes = 10,
     px_max_output_tokens = None, px_model_output_tokens = 10000, px_history_output_tokens = u64_max, px_chunk_id = ''c'', px_patch = None\<rparr>"

definition uv_timeline :: timeline where
  "uv_timeline = sv_timeline\<lparr>tl_now := 0, tl_states := \<lambda>n. sv_states (n - 1)\<rparr>"

definition uv_running :: running_exec where
  "uv_running = \<lparr>rx_prepared = uv_prepared, rx_session = Some (new_session uv_prepared (rb_handle sv_running)), rx_patch = None,
     rx_collection = exec_collection 0 uv_prepared, rx_exit_code = None\<rparr>"

lemmas uv_tool_simps = uv_tool_def ut_descriptor_def sv_other_def sample_host_def uv_config_def unified_exec_config_default_def

lemma uv_new: "unified_exec_new uv_tool = Inr uv_tool"
proof -
  have v: "validate_cwd sample_host \<lparr>root_id = ''work'', path = ''.''\<rparr> = Inr ()" by code_simp
  have e: "environment_validate \<lparr>env_mode = Inherit, env_set = [], env_remove = []\<rparr> = Inr ()" by code_simp
  have d: "ut_descriptor uv_tool = sample_host" by (simp add: uv_tool_def ut_descriptor_def sv_other_def)
  have l: "max_process_read_bytes (limits sample_host) = None" by (simp add: sample_host_def)
  show ?thesis unfolding unified_exec_new_def d
    by (simp add: uv_tool_def v e l uv_config_def unified_exec_config_default_def validated_def MIN_EMPTY_YIELD_TIME_MS_def
        DEFAULT_MAX_EMPTY_YIELD_TIME_MS_def DEFAULT_MAX_OUTPUT_TOKENS_def u64_max_def)
qed

lemma uv_valid: "start_validate uv_request = Inr ()"
  by (simp add: uv_request_def) code_simp

lemma uv_prepare: "prepare_exec_command uv_tool ''c'' uv_input uv_ids = Inr uv_prepared"
proof -
  have r: "exec_request uv_tool \<lparr>root_id = ''work'', path = ''.''\<rparr> uv_input uv_ids = uv_request"
    by (simp add: exec_request_def uv_tool_simps uv_input_def uv_ids_def uv_request_def Let_def)
  have c: "exec_command_checks uv_tool uv_input uv_ids = Inr ()"
    by (simp add: exec_command_checks_def uv_input_def uv_ids_def guard_def)
  have w: "exec_working_directory uv_tool (ei_workdir uv_input) = Inr \<lparr>root_id = ''work'', path = ''.''\<rparr>"
    by (simp add: exec_working_directory_def uv_input_def uv_tool_def)
  have i: "exec_invocation uv_tool wd sc = Inr None" for wd sc by (simp add: exec_invocation_def uv_tool_def uv_config_def)
  have y: "clamp MIN_YIELD_TIME_MS MAX_YIELD_TIME_MS (ei_yield_time_ms uv_input) = Inr 1000"
    by (simp add: clamp_def MIN_YIELD_TIME_MS_def MAX_YIELD_TIME_MS_def uv_input_def)
  have m: "resolve_max_output_tokens uv_tool (ei_max_output_tokens uv_input) = 10000"
    by (simp add: resolve_max_output_tokens_def uv_input_def uv_tool_def uv_config_def unified_exec_config_default_def DEFAULT_MAX_OUTPUT_TOKENS_def u64_max_def)
  show ?thesis unfolding prepare_exec_command_def Let_def c w
    by (simp add: i r y m uv_valid validated_def uv_prepared_def)
       (simp add: uv_tool_simps uv_ids_def uv_input_def)
qed

lemma uv_timeline_ok: "timeline_ok sv_env sv_dec uv_timeline"
proof -
  have s: "tl_states uv_timeline n = tl_states sv_timeline (n - 1)" for n by (simp add: uv_timeline_def sv_timeline_def)
  have "pm_later sv_env (tl_states uv_timeline n) (tl_states uv_timeline (Suc n))" for n
    using sv_timeline_ok by (cases n) (simp_all add: s timeline_ok_def pm_later.now)
  then show ?thesis using sv_timeline_ok unfolding timeline_ok_def s by auto
qed

lemma uv_handle: "\<exists>m. pm_start sv_env pm_fs pm_os uv_request manager_new = (Inr (rb_handle sv_running), m)"
proof -
  have c: "start_cwd sv_env pm_fs (cwd uv_request) = Inr ()"
    by (simp add: start_cwd_def sv_env_def pm_env_def pm_fs_def uv_request_def) code_simp
  have e: "execution_id uv_request = ''x''" "expected_generation uv_request = Some ''g''" by (simp_all add: uv_request_def)
  have f: "me_encode sv_env = sv_enc" "me_generation sv_env = ''g''" "lim_concurrent_processes (me_limits sv_env) = 1"
    by (simp_all add: sv_env_def pm_env_def)
  have n: "pm_sessions manager_new = []" "pm_retired manager_new = []" "pm_active manager_new = 0" by (simp_all add: manager_new_def)
  have k: "start_checks sv_env pm_fs (Inr ()) uv_request manager_new = Inr None"
    unfolding start_checks_def c n by (simp add: f)
  have m: "mark_started sv_enc AppendOk 5 journal_create = (Inr 5, snd (mark_started sv_enc AppendOk 5 journal_create))"
    by (simp add: sv_journal_simps)
  have i: "fst (install_session sv_env AppendOk 5 uv_request manager_new) = Inr (rb_handle sv_running)"
    unfolding install_session_def f
    by (subst m) (simp add: Let_def session_handle_def journal_handle_def sv_running_def session_new_def e f sv_journal_simps)
  have "fst (pm_start sv_env pm_fs pm_os uv_request manager_new) = Inr (rb_handle sv_running)"
    using i by (simp add: pm_start_def pm_os_def uv_valid e f k validated_def validate_generation_def)
  then show ?thesis by (metis prod.collapse)
qed

lemma uv_start: "start_exec_command uv_tool uv_prepared uv_timeline = (Inr uv_running, uv_timeline\<lparr>tl_now := 2\<rparr>)"
proof -
  have v: "ue_validate_prepared uv_tool ''h'' ''g'' = Inr ()"
    by (simp add: ue_validate_prepared_def uv_tool_simps guard_def)
  obtain m where h: "pm_start sv_env pm_fs pm_os uv_request manager_new = (Inr (rb_handle sv_running), m)" using uv_handle by blast
  have p: "px_host_id uv_prepared = ''h''" "px_generation uv_prepared = ''g''" "px_request uv_prepared = uv_request" "px_patch uv_prepared = None"
    "execution_id uv_request = ''x''" by (simp_all add: uv_prepared_def uv_request_def)
  have r: "handle_execution_id (rb_handle sv_running) = ''x''" "handle_generation_id (rb_handle sv_running) = ''g''" by (simp_all add: sv_running_def)
  have a: "pr_checkpoint (ut_processes uv_tool) uv_timeline = (Inr (), uv_timeline)"
    "io_now uv_tool uv_timeline = (Inr 0, uv_timeline\<lparr>tl_now := 1\<rparr>)"
    "pr_start (ut_processes uv_tool) uv_request (uv_timeline\<lparr>tl_now := 1\<rparr>) = (Inr (rb_handle sv_running), uv_timeline\<lparr>tl_now := 2\<rparr>)"
    by (simp_all add: uv_tool_def io_now_def supervised_now_def supervised_checkpoint_def at_instant_def uv_timeline_def sv_timeline_def
        uv_outside_def h sv_states_def)
  show ?thesis
    by (simp add: start_exec_command_def start_process_def p v uv_valid validated_def io_bind_def a [simplified] r uv_running_def io_lift_def guard_def)
qed

lemma uv_poll: "\<exists>page s' c' x'. session_poll uv_tool (new_session uv_prepared (rb_handle sv_running), exec_collection 0 uv_prepared, None) (uv_timeline\<lparr>tl_now := 2\<rparr>)
    = (Inr (page, s', c', x'), uv_timeline\<lparr>tl_now := 7\<rparr>) \<and> oc_ready c' \<and> oc_finished_at_ms c' \<noteq> None \<and> \<not> session_running s'"
proof -
  let ?s = "new_session uv_prepared (rb_handle sv_running)" and ?c = "exec_collection 0 uv_prepared"
  let ?reply = "\<lparr>events = map fst sv_codes, next_sequence = 5, result_state = StExited, result_exit_code = Some 0\<rparr>"
  have q: "poll_request uv_tool 2 ?s ?c = \<lparr>read_execution_id = ''x'', read_generation_id = ''g'', after_sequence = 0, read_max_bytes = 8, wait_ms = Some 998\<rparr>"
    by (simp add: poll_request_def poll_wait_ms_def uv_tool_simps new_session_def sv_running_def exec_collection_def collection_new_def
        uv_prepared_def sat_add_def u64_max_def ue_terminal_def Let_def)
  have rd: "supervised_read sv_env sv_dec sv_eof (poll_request uv_tool 2 ?s ?c) (uv_timeline\<lparr>tl_now := 3\<rparr>) = (Inr ?reply, uv_timeline\<lparr>tl_now := 6\<rparr>)"
    unfolding q supervised_read_def pm_read_def
    by (simp add: uv_timeline_def sv_timeline_def sv_states_def session_entry_def sv_session_def journal_read_def sv_read validate_generation_def
        sv_env_def pm_env_def read_execution_validate_def issue_if_def single_def finish_def validated_def Let_def)
  have a: "pr_checkpoint (ut_processes uv_tool) (uv_timeline\<lparr>tl_now := 2\<rparr>) = (Inr (), uv_timeline\<lparr>tl_now := 2\<rparr>)"
    "io_now uv_tool (uv_timeline\<lparr>tl_now := 2\<rparr>) = (Inr 2, uv_timeline\<lparr>tl_now := 3\<rparr>)"
    "io_now uv_tool (uv_timeline\<lparr>tl_now := 6\<rparr>) = (Inr 6, uv_timeline\<lparr>tl_now := 7\<rparr>)"
    "pr_read (ut_processes uv_tool) = supervised_read sv_env sv_dec sv_eof"
    by (simp_all add: uv_tool_def io_now_def supervised_now_def supervised_checkpoint_def uv_timeline_def sv_timeline_def uv_outside_def)
  obtain s' c' where cr: "collect_reply ?reply ?s ?c = Inr (s', c')" and c': "oc_closed c'" "handle_state (es_handle s') = StExited"
    by (simp add: collect_reply_def sv_codes_def new_session_def collect_event_def exec_collection_def guard_def)
  have "\<not> oc_ready ?c" by (simp add: exec_collection_def collection_new_def)
  then show ?thesis using c'
    by (simp add: session_poll_def io_bind_def a rd cr io_lift_def Let_def settle_collection_def ue_terminal_def collection_finish_def session_running_def)
qed

lemma uv_calls: "\<exists>out h. session_calls uv_tool uv_running (uv_timeline\<lparr>tl_now := 2\<rparr>) [out] None h"
proof -
  obtain page s' c' x' where p: "session_poll uv_tool (new_session uv_prepared (rb_handle sv_running), exec_collection 0 uv_prepared, None) (uv_timeline\<lparr>tl_now := 2\<rparr>)
    = (Inr (page, s', c', x'), uv_timeline\<lparr>tl_now := 7\<rparr>)" and c: "oc_ready c'" "oc_finished_at_ms c' \<noteq> None" "\<not> session_running s'" using uv_poll by blast
  have v: "ue_validate_prepared uv_tool ''h'' ''g'' = Inr ()" by (simp add: ue_validate_prepared_def uv_tool_simps guard_def)
  have q: "poll_exec_command uv_tool uv_running (uv_timeline\<lparr>tl_now := 2\<rparr>) =
      (Inr page, uv_running\<lparr>rx_session := Some s', rx_collection := c', rx_exit_code := x'\<rparr>, uv_timeline\<lparr>tl_now := 7\<rparr>)"
  proof -
    have "px_host_id (rx_prepared uv_running) = ''h''" "px_generation (rx_prepared uv_running) = ''g''" by (simp_all add: uv_running_def uv_prepared_def)
    with v p show ?thesis by (simp add: poll_exec_command_def uv_running_def)
  qed
  have "\<exists>res. finish_exec_command uv_tool (uv_running\<lparr>rx_session := Some s', rx_collection := c', rx_exit_code := x'\<rparr>) (uv_timeline\<lparr>tl_now := 7\<rparr>) =
      (Inr res, uv_timeline\<lparr>tl_now := 7\<rparr>) \<and> ur_session res = None"
    using c by (auto simp: finish_exec_command_def uv_running_def session_finish_def finish_time_def io_bind_def io_lift_def guard_def Let_def)
  with session_calls.executed [OF exec_polls.polled [OF exec_polls.none q]] show ?thesis by metis
qed

lemma uv_journal: "2 \<le> n \<Longrightarrow> journal_at (tl_states uv_timeline) (xi_execution_id uv_ids) n = sv_journal"
  by (subst journal_at_present [where s = sv_session]) (auto simp: uv_timeline_def uv_ids_def sv_states_def sv_session_def)

text \<open>
  C6: an exec call and the stdin calls after it account for everything that the command wrote, once and in
  order. The command runs on the supervisor, among other requests and the tasks of the process manager; polls
  may fail, stdin calls may fail to start, or be given up after some polls. The log of the execution is then a
  sequence of segments, one for each output returned, and a rest. Each output is the head and
  tail of its own segment, with the failure message that the segment holds and the size of all its
  bytes. While the process runs, the session's cursor is the end of the last segment, so that the next
  call begins there. When a call returns no session, the rest holds no output and no failure, now and
  at every later time, and the exit code is that of the journal.
\<close>

theorem session_outputs_account_for_journal:
  assumes "unified_exec_new tool = Inr tool" and "uc_read_bytes (ut_config tool) \<le> u64_max"
    and "ut_processes tool = supervised_runtime env dec eof_error out other" and "ut_now tool = supervised_now out"
    and "prepare_exec_command tool chunk inp ids = Inr p" and "px_patch p = None" and "timeline_ok env dec h"
    and "start_exec_command tool p h = (Inr r0, h0)" and "session_calls tool r0 h0 outs ses h'" and "tl_now h' \<le> n"
    and "j = journal_at (tl_states h) (xi_execution_id ids) n"
  shows "\<exists>segs rest. log_stream (journal_log dec j) = concat segs @ rest \<and>
     list_all2 (shows_units (uc_max_output_bytes (ut_config tool))) segs outs \<and>
     (case ses of
        Some s \<Rightarrow> es_cursor s = length (concat segs) \<and> uo_session_id (last outs) = Some (es_session_id s)
      | None \<Rightarrow> list_all late_unit rest \<and> uo_session_id (last outs) = None \<and>
          is_terminal (j_state j) \<and> uo_exit_code (last outs) = j_exit_code j)"
proof -
  let ?i = "xi_execution_id ids"
  note t = unified_tool_ok [OF assms(1,2), unfolded assms(3,4)]
  have h: "timeline_ok env dec h \<and> tl_states h = tl_states h" using assms(7) by simp
  from us.started_collected [OF h t assms(5,6,8)] obtain s where s: "rx_session r0 = Some s" "handle_execution_id (es_handle s) = ?i"
      "collected (timeline_log dec) timeline_final timeline_status (uc_max_output_bytes (ut_config tool)) [] h0 (s, rx_collection r0, rx_exit_code r0)"
      "rx_patch r0 = None" and h0: "timeline_ok env dec h0 \<and> tl_states h0 = tl_states h"
    by (auto simp: host_grew_def)
  obtain segs where a: "accounted (timeline_log dec) timeline_final timeline_status (uc_max_output_bytes (ut_config tool)) ?i segs outs ses h'"
      and h': "timeline_ok env dec h'" "tl_states h' = tl_states h"
    using us.calls_accounted [OF assms(9) h0 t s(4,1,3) refl s(2) [symmetric]] by (auto simp: host_grew_def)
  from a obtain rest where rest: "log_stream (timeline_log dec h' ?i) = concat segs @ rest" by (auto simp: accounted_def)
  have "prefix (timeline_log dec h' ?i) (journal_log dec j)"
    using timeline_log_prefix [OF h'(1) assms(10), of ?i] h'(2) by (simp add: timeline_log_def assms(11))
  then obtain rest' where m: "log_stream (journal_log dec j) = concat segs @ rest @ rest'"
    using rest log_stream_prefix by (fastforce simp: prefix_def)
  show ?thesis
  proof (cases ses)
    case (Some z)
    with a m show ?thesis by (intro exI [of _ segs] exI [of _ "rest @ rest'"]) (auto simp: accounted_def)
  next
    case None
    with a have f: "timeline_final h' ?i" "is_terminal (fst (timeline_status h' ?i))" "uo_exit_code (last outs) = snd (timeline_status h' ?i)" 
      by (auto simp: accounted_def)
    then have "journal_at (tl_states h) ?i n = journal_at (tl_states h) ?i (tl_now h')"
      using assms(10) h'(2) unfolding timeline_final_def by metis
    with None a f show ?thesis unfolding assms(11)
      by (intro exI [of _ segs]) (auto simp: accounted_def timeline_log_def timeline_status_def h'(2) Let_def)
  qed
qed

theorem session_outputs_account_for_journal_witness:
  "\<exists>out h. session_calls uv_tool uv_running (uv_timeline\<lparr>tl_now := 2\<rparr>) [out] None h \<and>
     (\<exists>segs rest. log_stream (journal_log sv_dec sv_journal) = concat segs @ rest \<and> list_all2 (shows_units 10) segs [out] \<and>
        list_all late_unit rest \<and> uo_exit_code out = Some 0)"
proof -
  obtain out h where c: "session_calls uv_tool uv_running (uv_timeline\<lparr>tl_now := 2\<rparr>) [out] None h" using uv_calls by blast
  have t: "uc_read_bytes (ut_config uv_tool) \<le> u64_max" "uc_max_output_bytes (ut_config uv_tool) = 10"
      "ut_processes uv_tool = supervised_runtime sv_env sv_dec sv_eof uv_outside sv_other" "ut_now uv_tool = supervised_now uv_outside"
      "px_patch uv_prepared = None"
    by (simp_all add: uv_tool_def uv_config_def u64_max_def uv_prepared_def)
  from session_outputs_account_for_journal [OF uv_new t(1,3,4) uv_prepare t(5) uv_timeline_ok uv_start c, of "max 2 (tl_now h)" sv_journal]
  have "\<exists>segs rest. log_stream (journal_log sv_dec sv_journal) = concat segs @ rest \<and> list_all2 (shows_units 10) segs [out] \<and>
        list_all late_unit rest \<and> uo_exit_code out = Some 0"
    by (simp add: uv_journal t(2)) (auto simp: sv_journal_def)
  with c show ?thesis by blast
qed

text \<open>
  C33: every call returns. If the clock of the tool passes every deadline for good, and the journal of the execution is
  closed at some time in case it becomes terminal, then waiting for an exec call returns, and so does
  waiting for a stdin call on its session; what they return is an error or continues the
  session.
\<close>

theorem session_calls_return:
  assumes "unified_exec_new tool = Inr tool" and "uc_read_bytes (ut_config tool) \<le> u64_max"
    and "ut_processes tool = supervised_runtime env dec eof_error out other" and "ut_now tool = supervised_now out"
    and "prepare_exec_command tool chunk inp ids = Inr p" and "px_patch p = None" and "timeline_ok env dec h"
    and "start_exec_command tool p h = (Inr r0, h0)"
    and "clock_runs out" and "closes_when_over (tl_states h) (xi_execution_id ids)"
  shows "(\<exists>res r h1. wait_exec_command tool r0 h0 = Some (res, r, h1) \<and>
       (\<forall>x. res = Inr x \<longrightarrow> session_calls tool r0 h0 [ur_output x] (ur_session x) h1)) \<and>
     (\<forall>outs s h1 chunk' inp' ids' q w h2. session_calls tool r0 h0 outs (Some s) h1 \<longrightarrow> prepare_write_stdin tool chunk' inp' s ids' = Inr q \<longrightarrow>
       start_write_stdin tool q h1 = (Inr w, h2) \<longrightarrow>
       (\<exists>res w' h3. wait_write_stdin tool w h2 = Some (res, w', h3) \<and>
          (\<forall>x. res = Inr x \<longrightarrow> session_calls tool r0 h0 (outs @ [ur_output x]) (ur_session x) h3)))"
proof -
  note t = unified_tool_ok [OF assms(1,2), unfolded assms(3,4)]
  have h: "timeline_ok env dec h \<and> tl_states h = tl_states h" using assms(7) by simp
  from us.started_collected [OF h t assms(5,6,8)] obtain s0 where s: "rx_session r0 = Some s0" "handle_execution_id (es_handle s0) = xi_execution_id ids"
      "collected (timeline_log dec) timeline_final timeline_status (uc_max_output_bytes (ut_config tool)) [] h0 (s0, rx_collection r0, rx_exit_code r0)"
      "rx_patch r0 = None" and h0: "timeline_ok env dec h0 \<and> tl_states h0 = tl_states h"
    by (auto simp: host_grew_def)
  have e: "\<exists>res r h1. wait_exec_command tool r0 h0 = Some (res, r, h1) \<and>
      (\<forall>x. res = Inr x \<longrightarrow> session_calls tool r0 h0 [ur_output x] (ur_session x) h1)"
    using wait_exec_returns [OF t h0 s(4,1,3) assms(9)] assms(10) s(2) session_calls.executed [of tool r0 h0] by metis
  have "\<exists>res w' h3. wait_write_stdin tool w h2 = Some (res, w', h3) \<and>
      (\<forall>x. res = Inr x \<longrightarrow> session_calls tool r0 h0 (outs @ [ur_output x]) (ur_session x) h3)"
    if c: "session_calls tool r0 h0 outs (Some s) h1" and q: "prepare_write_stdin tool chunk' inp' s ids' = Inr q"
      and w: "start_write_stdin tool q h1 = (Inr w, h2)" for outs s h1 chunk' inp' ids' q w h2
  proof -
    obtain segs where a: "accounted (timeline_log dec) timeline_final timeline_status (uc_max_output_bytes (ut_config tool)) (xi_execution_id ids) segs outs (Some s) h1"
        and h1: "timeline_ok env dec h1 \<and> tl_states h1 = tl_states h"
      using us.calls_accounted [OF c h0 t s(4,1,3) refl s(2) [symmetric]] by (auto simp: host_grew_def)
    from us.continued_collected [OF a h1 t refl q w stdin_polls.none]
    have k: "timeline_ok env dec h2 \<and> tl_states h2 = tl_states h" "handle_execution_id (es_handle (rw_session w)) = xi_execution_id ids"
      "collected (timeline_log dec) timeline_final timeline_status (uc_max_output_bytes (ut_config tool)) (concat segs) h2 (rw_session w, rw_collection w, rw_exit_code w)"
      by (auto simp: host_grew_def)
    from wait_stdin_returns [OF t k(1,3) assms(9)] assms(10) k(2) session_calls.continued [OF c q w] show ?thesis by metis
  qed
  with e show ?thesis by blast
qed

theorem session_calls_return_witness:
  "\<exists>res r h. wait_exec_command uv_tool uv_running (uv_timeline\<lparr>tl_now := 2\<rparr>) = Some (res, r, h)"
proof -
  have t: "uc_read_bytes (ut_config uv_tool) \<le> u64_max"
      "ut_processes uv_tool = supervised_runtime sv_env sv_dec sv_eof uv_outside sv_other" "ut_now uv_tool = supervised_now uv_outside"
      "px_patch uv_prepared = None"
    by (simp_all add: uv_tool_def uv_config_def u64_max_def uv_prepared_def)
  have "clock_runs uv_outside" by (auto simp: clock_runs_def uv_outside_def)
  moreover have "j_closed (journal_at (tl_states uv_timeline) (xi_execution_id uv_ids) 2)" by (simp add: uv_journal) (simp add: sv_journal_def)
  then have "closes_when_over (tl_states uv_timeline) (xi_execution_id uv_ids)" unfolding closes_when_over_def by blast
  ultimately show ?thesis
    using session_calls_return [OF uv_new t(1-3) uv_prepare t(4) uv_timeline_ok uv_start] by blast
qed

end
