(* ===== verification/Process_Launch.thy ===== *)
theory Process_Launch
  imports Exec_Core Rust_Text "HOL-Library.Sublist"
begin

text \<open>
  How the supervisor launches a child process
  (\<open>execution/packages/execution-supervisor-core/src/process/shell.rs\<close>, \<open>platform.rs\<close> and the
  command and environment construction of \<open>process/manager.rs\<close>), and the two byte-level state machines
  that stand between the supervisor and a Windows pseudo terminal. What the host provides, that
  is its executables, the login shell of the user and environment variables, is an argument.
\<close>

section \<open>Shells\<close>

datatype shell_kind = KSh | KBash | KZsh | KPowerShell | KCmd

datatype target_os = TargetWindows | TargetMacos | TargetUnix

record launch_host =
  lh_target :: target_os
  lh_user_shell :: "string option"
  lh_is_file :: "string \<Rightarrow> bool"
  lh_which :: "string \<Rightarrow> string option"
  lh_variable :: "string \<Rightarrow> string option"

text \<open>The last piece of a path, and \<open>trim_end_matches\<close>, which removes every copy of the suffix.\<close>

definition last_piece :: "string \<Rightarrow> string" where
  "last_piece p = rev (takeWhile (\<lambda>c. c \<noteq> CHR ''/'' \<and> c \<noteq> BSLASH) (rev p))"

lemma ends_with_length: "ends_with p s \<Longrightarrow> length p \<le> length s"
  by (auto simp: ends_with_def strip_suffix_def dest!: arg_cong [where f = length])

function trim_end_matches :: "string \<Rightarrow> string \<Rightarrow> string" where
  "trim_end_matches suf s =
     (if suf \<noteq> [] \<and> ends_with suf s then trim_end_matches suf (take (length s - length suf) s) else s)"
  by pat_completeness auto
termination
  by (relation "measure (\<lambda>(suf, s). length s)") (use ends_with_length in \<open>fastforce simp: neq_Nil_conv\<close>)+

definition shell_classify :: "string \<Rightarrow> shell_kind option" where
  "shell_classify p =
     (let name = trim_end_matches ''.exe'' (last_piece p) in
      if name = ''sh'' then Some KSh
      else if name = ''bash'' then Some KBash
      else if name = ''zsh'' then Some KZsh
      else if name = ''powershell'' \<or> name = ''pwsh'' then Some KPowerShell
      else if name = ''cmd'' then Some KCmd
      else None)"

definition windows_path :: "string list \<Rightarrow> string" where
  "windows_path parts = join [BSLASH] parts"

fun shell_candidates :: "target_os \<Rightarrow> shell_kind \<Rightarrow> (string \<times> string list) list" where
  "shell_candidates t KSh = [(''sh'', [''/bin/sh''])]"
| "shell_candidates t KBash = [(''bash'', [''/bin/bash'', ''/usr/bin/bash''])]"
| "shell_candidates t KZsh = [(''zsh'', [''/bin/zsh''])]"
| "shell_candidates t KCmd = [(''cmd'', [])]"
| "shell_candidates t KPowerShell =
     (if t = TargetWindows
      then [(''pwsh'', [windows_path [''C:'', ''Program Files'', ''PowerShell'', ''7'', ''pwsh.exe'']]),
            (''powershell'', [windows_path [''C:'', ''Windows'', ''System32'', ''WindowsPowerShell'', ''v1.0'', ''powershell.exe'']])]
      else [(''pwsh'', [''/usr/local/bin/pwsh'']), (''powershell'', [])])"

definition host_user_shell :: "launch_host \<Rightarrow> string option" where
  "host_user_shell h = (if lh_target h = TargetWindows then None else lh_user_shell h)"

fun search_candidates :: "launch_host \<Rightarrow> (string \<times> string list) list \<Rightarrow> string option" where
  "search_candidates h [] = None"
| "search_candidates h ((binary, fallbacks) # cs) = (case lh_which h binary of
     Some p \<Rightarrow> Some p
   | None \<Rightarrow> (case find (lh_is_file h) fallbacks of Some p \<Rightarrow> Some p | None \<Rightarrow> search_candidates h cs))"

definition shell_discover :: "launch_host \<Rightarrow> shell_kind \<Rightarrow> string option" where
  "shell_discover h k = (case host_user_shell h of
     Some p \<Rightarrow> if shell_classify p = Some k \<and> lh_is_file h p then Some p
       else search_candidates h (shell_candidates (lh_target h) k)
   | None \<Rightarrow> search_candidates h (shell_candidates (lh_target h) k))"

definition shell_fallback :: "launch_host \<Rightarrow> shell_kind \<times> string" where
  "shell_fallback h = (if lh_target h = TargetWindows then (KCmd, ''cmd.exe'') else (KSh, ''/bin/sh''))"

fun first_discovered :: "launch_host \<Rightarrow> shell_kind list \<Rightarrow> shell_kind \<times> string" where
  "first_discovered h [] = shell_fallback h"
| "first_discovered h (k # ks) = (case shell_discover h k of Some p \<Rightarrow> (k, p) | None \<Rightarrow> first_discovered h ks)"

definition preferred_shells :: "launch_host \<Rightarrow> shell_kind list" where
  "preferred_shells h = (case lh_target h of
     TargetWindows \<Rightarrow> [KPowerShell]
   | t \<Rightarrow> (case Option.bind (host_user_shell h) shell_classify of Some k \<Rightarrow> [k] | None \<Rightarrow> [])
       @ (if t = TargetMacos then [KZsh, KBash] else [KBash, KZsh]))"

definition shell_select :: "launch_host \<Rightarrow> string option \<Rightarrow> shell_kind \<times> string" where
  "shell_select h sh = (case sh of
     Some p \<Rightarrow> first_discovered h (case shell_classify p of Some k \<Rightarrow> [k] | None \<Rightarrow> [])
   | None \<Rightarrow> first_discovered h (preferred_shells h))"

fun shell_flags :: "shell_kind \<Rightarrow> bool \<Rightarrow> string list" where
  "shell_flags KPowerShell login = (if login then [''-Command''] else [''-NoProfile'', ''-Command''])"
| "shell_flags KCmd login = [''/c'']"
| "shell_flags _ login = [if login then ''-lc'' else ''-c'']"

definition shell_arguments :: "shell_kind \<Rightarrow> string \<Rightarrow> bool \<Rightarrow> string list" where
  "shell_arguments k script login = shell_flags k login @ [script]"

definition shell_resolve :: "launch_host \<Rightarrow> string option \<Rightarrow> string \<Rightarrow> bool \<Rightarrow> string \<times> string list" where
  "shell_resolve h sh script login =
     (case shell_select h sh of (k, program) \<Rightarrow> (program, shell_arguments k script login))"

definition default_shell :: "launch_host \<Rightarrow> string" where
  "default_shell h =
     (if lh_target h = TargetWindows then (case lh_variable h ''COMSPEC'' of Some p \<Rightarrow> p | None \<Rightarrow> ''cmd.exe'')
      else (case lh_variable h ''SHELL'' of Some p \<Rightarrow> p | None \<Rightarrow> ''/bin/sh''))"

text \<open>Program and arguments; a command for a pseudo terminal has the same.\<close>

fun build_command :: "launch_host \<Rightarrow> command_spec \<Rightarrow> string \<times> string list" where
  "build_command h (ShellScript script sh login) = shell_resolve h sh script login"
| "build_command h (Argv program arguments) = (program, arguments)"
| "build_command h (Shell script sh login) =
     ((case sh of Some p \<Rightarrow> p | None \<Rightarrow> default_shell h),
      if lh_target h = TargetWindows then [''/C'', script] else [if login then ''-lc'' else ''-c'', script])"

definition build_pty_command :: "launch_host \<Rightarrow> command_spec \<Rightarrow> string \<times> string list" where
  "build_pty_command = build_command"

section \<open>Environment\<close>

text \<open>The environment of the child, from that of the supervisor. Names are compared exactly, as on Unix.\<close>

definition configure_environment ::
  "(string \<rightharpoonup> string) \<Rightarrow> environment_variables \<Rightarrow> (string \<rightharpoonup> string)" where
  "configure_environment inherited e =
     (let base = (if env_mode e = Empty then Map.empty else inherited);
          removed = foldl (\<lambda>m name. m(name := None)) base (env_remove e)
      in foldl (\<lambda>m (name, value). m(name \<mapsto> value)) removed (env_set e))"

definition configure_pty_environment ::
  "(string \<rightharpoonup> string) \<Rightarrow> environment_variables \<Rightarrow> (string \<rightharpoonup> string)" where
  "configure_pty_environment = configure_environment"

section \<open>Windows pseudo terminals\<close>

definition CURSOR_POSITION_QUERY :: string where
  "CURSOR_POSITION_QUERY = [CHR 0x1B] @ ''[6n''"

definition CURSOR_POSITION_RESPONSE :: string where
  "CURSOR_POSITION_RESPONSE = [CHR 0x1B] @ ''[1;1R''"

fun observe :: "nat \<Rightarrow> string \<Rightarrow> string list \<times> nat" where
  "observe matched [] = ([], matched)"
| "observe matched (b # bs) =
     (if b = CURSOR_POSITION_QUERY ! matched
      then if matched + 1 = length CURSOR_POSITION_QUERY
           then (case observe 0 bs of (rs, m) \<Rightarrow> (CURSOR_POSITION_RESPONSE # rs, m))
           else observe (matched + 1) bs
      else observe (if b = CURSOR_POSITION_QUERY ! 0 then 1 else 0) bs)"

fun normalize_input :: "bool \<Rightarrow> string \<Rightarrow> string \<times> bool" where
  "normalize_input previous_was_cr [] = ([], previous_was_cr)"
| "normalize_input previous_was_cr (b # bs) =
     (case normalize_input (b = CR) bs of (out, p) \<Rightarrow>
       ((if b = CHR 0x08 then [CHR 0x7F]
         else if b = LF then (if previous_was_cr then [] else [CR])
         else [b]) @ out, p))"

fun observe_chunks :: "nat \<Rightarrow> string list \<Rightarrow> string list" where
  "observe_chunks matched [] = []"
| "observe_chunks matched (c # cs) = (case observe matched c of (rs, m) \<Rightarrow> rs @ observe_chunks m cs)"

fun normalize_chunks :: "bool \<Rightarrow> string list \<Rightarrow> string" where
  "normalize_chunks p [] = []"
| "normalize_chunks p (c # cs) = (case normalize_input p c of (out, p') \<Rightarrow> out @ normalize_chunks p' cs)"

section \<open>What the child sees\<close>

lemma foldl_remove: "foldl (\<lambda>m name. m(name := None)) m names n = (if n \<in> set names then None else m n)"
  by (induction names arbitrary: m) auto

lemma foldl_set: "foldl (\<lambda>m (name, value). m(name \<mapsto> value)) m vars n =
    (case map_of (rev vars) n of Some v \<Rightarrow> Some v | None \<Rightarrow> m n)"
  by (induction vars arbitrary: m) (auto simp: map_add_def split: option.splits)

lemma configure_environment_lookup:
  "configure_environment inherited e n = (case map_of (rev (env_set e)) n of
     Some v \<Rightarrow> Some v
   | None \<Rightarrow> if n \<in> set (env_remove e) \<or> env_mode e = Empty then None else inherited n)"
  by (auto simp: configure_environment_def foldl_set foldl_remove Let_def split: option.splits)

section \<open>Queries and keystrokes\<close>

fun queries :: "string \<Rightarrow> nat" where
  "queries [] = 0"
| "queries (c # s) = (if prefix CURSOR_POSITION_QUERY (c # s) then 1 else 0) + queries s"

fun keystrokes :: "string \<Rightarrow> string" where
  "keystrokes [] = []"
| "keystrokes [b] = [if b = CHR 0x08 then CHR 0x7F else if b = LF then CR else b]"
| "keystrokes (b # c # s) =
     (if b = CR \<and> c = LF then CR # keystrokes s
      else (if b = CHR 0x08 then CHR 0x7F else if b = LF then CR else b) # keystrokes (c # s))"

lemma query_simps [simp]:
  "CURSOR_POSITION_QUERY ! 0 = CHR 0x1B" "CURSOR_POSITION_QUERY ! Suc 0 = CHR ''[''" "CURSOR_POSITION_QUERY ! Suc (Suc 0) = CHR ''6''"
  "CURSOR_POSITION_QUERY ! Suc (Suc (Suc 0)) = CHR ''n''" "length CURSOR_POSITION_QUERY = Suc (Suc (Suc (Suc 0)))"
  "take (Suc 0) CURSOR_POSITION_QUERY = [CHR 0x1B]" "take (Suc (Suc 0)) CURSOR_POSITION_QUERY = [CHR 0x1B, CHR ''['']"
  "take (Suc (Suc (Suc 0))) CURSOR_POSITION_QUERY = [CHR 0x1B, CHR ''['', CHR ''6'']"
  by (simp_all add: CURSOR_POSITION_QUERY_def)

lemma prefix_query: "prefix CURSOR_POSITION_QUERY s \<longleftrightarrow> (\<exists>r. s = CHR 0x1B # CHR ''['' # CHR ''6'' # CHR ''n'' # r)"
  by (auto simp: CURSOR_POSITION_QUERY_def prefix_def)

lemma observe_queries:
  assumes "m < 4"
  shows "fst (observe m bs) = replicate (queries (take m CURSOR_POSITION_QUERY @ bs)) CURSOR_POSITION_RESPONSE \<and> snd (observe m bs) < 4"
  using assms
proof (induction bs arbitrary: m)
  case Nil
  then have "m = 0 \<or> m = Suc 0 \<or> m = Suc (Suc 0) \<or> m = Suc (Suc (Suc 0))" by auto
  then show ?case by (auto simp: prefix_query)
next
  case (Cons b bs)
  then have "m = 0 \<or> m = Suc 0 \<or> m = Suc (Suc 0) \<or> m = Suc (Suc (Suc 0))" by auto
  with Cons.IH [of 0] Cons.IH [of "Suc 0"] Cons.IH [of "Suc (Suc 0)"] Cons.IH [of "Suc (Suc (Suc 0))"] show ?case
    by (elim disjE) (auto simp: prefix_query split: prod.splits)
qed

lemma observe_append:
  "observe m (a @ b) = (case observe m a of (rs, m1) \<Rightarrow> case observe m1 b of (rs', m2) \<Rightarrow> (rs @ rs', m2))"
  by (induction m a rule: observe.induct) (auto split: prod.splits)

lemma observe_chunks_eq: "observe_chunks m cs = fst (observe m (concat cs))"
  by (induction cs arbitrary: m) (auto simp: observe_append split: prod.splits)

lemma normalize_append:
  "normalize_input p (a @ b) = (case normalize_input p a of (out, p1) \<Rightarrow> case normalize_input p1 b of (out', p2) \<Rightarrow> (out @ out', p2))"
  by (induction p a rule: normalize_input.induct) (auto split: prod.splits)

lemma normalize_chunks_eq: "normalize_chunks p cs = fst (normalize_input p (concat cs))"
  by (induction cs arbitrary: p) (auto simp: normalize_append split: prod.splits)

lemma normalize_keystrokes:
  "fst (normalize_input False s) = keystrokes s"
  "fst (normalize_input True s) = (case s of c # r \<Rightarrow> if c = LF then keystrokes r else keystrokes s | [] \<Rightarrow> [])"
  by (induction s rule: keystrokes.induct) (auto split: prod.splits list.splits if_splits)

section \<open>Properties\<close>

text \<open>
  The environment of a child: every variable that a valid request sets has its value, every variable
  that it removes is absent, and any other variable is inherited, or absent in \<open>Empty\<close> mode.
\<close>

theorem child_environment_exact:
  assumes "environment_validate e = Inr ()" and "distinct (map fst (env_set e))"
  shows "(\<forall>(n, v) \<in> set (env_set e). configure_environment inherited e n = Some v) \<and>
     (\<forall>n \<in> set (env_remove e). configure_environment inherited e n = None) \<and>
     (\<forall>n. n \<notin> fst ` set (env_set e) \<longrightarrow> n \<notin> set (env_remove e) \<longrightarrow>
        configure_environment inherited e n = (if env_mode e = Empty then None else inherited n))"
proof -
  have m: "map_of (rev (env_set e)) = map_of (env_set e)" using assms(2) by (simp add: map_of_inject_set rev_map [symmetric])
  have "n \<notin> fst ` set (env_set e)" if "n \<in> set (env_remove e)" for n
    using assms(1) that by (auto simp: environment_validate_iff environment_ok_def list_all_iff)
  then have "map_of (env_set e) n = None" if "n \<in> set (env_remove e)" for n using that by (simp add: map_of_eq_None_iff)
  moreover have "map_of (env_set e) n = None" if "n \<notin> fst ` set (env_set e)" for n using that by (simp add: map_of_eq_None_iff)
  moreover have "map_of (env_set e) n = Some v" if "(n, v) \<in> set (env_set e)" for n v using assms(2) that by simp
  ultimately show ?thesis by (auto simp: configure_environment_lookup m)
qed

text \<open>
  The translation between the supervisor and a Windows pseudo terminal does not depend on where
  reads and writes are cut. Every cursor query in the output of the child is answered exactly once,
  also when it is split over chunks, and nothing else is; and the input that is sent over any number of
  writes is the whole input with \<open>CRLF\<close> and single line feeds turned into carriage returns and backspaces
  into deletes.
\<close>

theorem terminal_translation_ignores_chunks:
  "observe_chunks 0 chunks = replicate (queries (concat chunks)) CURSOR_POSITION_RESPONSE \<and>
   normalize_chunks False chunks = keystrokes (concat chunks)"
  using observe_queries [of 0 "concat chunks"] by (simp add: observe_chunks_eq normalize_chunks_eq normalize_keystrokes)

end
