(* ===== verification/Wire_Protocol.thy ===== *)
theory Wire_Protocol
  imports Process_Runtime Tool_Paths
begin

text \<open>
  The protocol between a host and its callers (\<open>execution/packages/execution-wire\<close>): the messages
  (\<open>protocol.rs\<close>), the dispatch of a request on a runtime (\<open>dispatch.rs\<close>) and newline-delimited JSON
  frames (\<open>codec.rs\<close>); and the two ends of a local connection to the supervisor
  (\<open>execution/apps/execution-supervisor/src/server.rs\<close>, \<open>client.rs\<close>). The JSON
  encoding is a parameter, and so is what the operating system gives to each read.
\<close>

section \<open>Messages\<close>

definition PROTOCOL_VERSION :: nat where "PROTOCOL_VERSION = 1"

definition request_id_new :: "string \<Rightarrow> validation_error + string" where
  "request_id_new v =
     (if trim v = [] then Inl (single ''request_id'' ''must not be empty'')
      else if NUL \<in> set v then Inl (single ''request_id'' ''must not contain a null byte'')
      else Inr v)"

datatype operation =
    Describe
  | FilesystemStat stat_request
  | FilesystemRead read_file_request
  | FilesystemWrite write_file_request
  | FilesystemCreateDirectory create_directory_request
  | FilesystemRemove remove_path_request
  | FilesystemList list_directory_request
  | ProcessStart start_execution_request
  | ProcessRead read_execution_request
  | ProcessWrite write_input_request
  | ProcessResize resize_pty_request
  | ProcessSignal signal_request
  | ProcessTerminate terminate_request

fun operation_validate :: "operation \<Rightarrow> validation_error + unit" where
  "operation_validate (FilesystemStat q) = stat_validate q"
| "operation_validate (FilesystemRead q) = read_file_validate q"
| "operation_validate (FilesystemWrite q) = write_file_validate q"
| "operation_validate (FilesystemCreateDirectory q) = create_directory_validate q"
| "operation_validate (FilesystemRemove q) = remove_path_validate q"
| "operation_validate (FilesystemList q) = list_directory_validate q"
| "operation_validate (ProcessStart q) = start_validate q"
| "operation_validate (ProcessRead q) = read_execution_validate q"
| "operation_validate (ProcessResize q) = resize_validate q"
| "operation_validate _ = Inr ()"

datatype operation_result =
    RHostDescriptor host_descriptor
  | RFileMetadata file_metadata
  | RReadFile read_file_result
  | RWriteFile write_file_result
  | RRemovePath bool
  | RListDirectory list_directory_result
  | RExecutionHandle execution_handle
  | RReadExecution read_execution_result
  | RProcessInput input_status
  | RTerminateExecution bool
  | RUnit

record request_envelope =
  rq_version :: nat
  rq_request_id :: string
  rq_operation :: operation

definition request_envelope_new :: "string \<Rightarrow> operation \<Rightarrow> request_envelope" where
  "request_envelope_new i op = \<lparr>rq_version = PROTOCOL_VERSION, rq_request_id = i, rq_operation = op\<rparr>"

datatype response_envelope =
    ResponseSuccess (response_version: nat) (response_request_id: string) (response_result: operation_result)
  | ResponseError (response_version: nat) (response_request_id: string) (response_failure: exec_error)

definition response_success :: "string \<Rightarrow> operation_result \<Rightarrow> response_envelope" where
  "response_success i r = ResponseSuccess PROTOCOL_VERSION i r"

definition response_error :: "string \<Rightarrow> exec_error \<Rightarrow> response_envelope" where
  "response_error i e = ResponseError PROTOCOL_VERSION i e"

section \<open>Dispatch\<close>

definition io_map :: "('a \<Rightarrow> 'b) \<Rightarrow> ('h, 'a) io \<Rightarrow> ('h, 'b) io" where
  "io_map f m = io_bind m (\<lambda>x. io_lift (Inr (f x)))"

lemma io_map_Inr_iff: "io_map f m h = (Inr y, h') \<longleftrightarrow> (\<exists>x. m h = (Inr x, h') \<and> y = f x)"
  by (auto simp: io_map_def io_bind_Inr_iff)

lemma io_map_snd: "m h = (x, h') \<Longrightarrow> snd (io_map f m h) = h'"
  by (simp add: io_map_def io_bind_def io_lift_def split: sum.splits)

text \<open>The two halves of the runtime of a host share its state and its context.\<close>

fun dispatch_to :: "'h runtime \<Rightarrow> 'h process_runtime \<Rightarrow> operation \<Rightarrow> ('h, operation_result) io" where
  "dispatch_to rt pr Describe = io_lift (Inr (RHostDescriptor (rt_descriptor rt)))"
| "dispatch_to rt pr (FilesystemStat q) = io_map RFileMetadata (rt_stat rt q)"
| "dispatch_to rt pr (FilesystemRead q) = io_map RReadFile (rt_read rt q)"
| "dispatch_to rt pr (FilesystemWrite q) = io_map RWriteFile (rt_write rt q)"
| "dispatch_to rt pr (FilesystemCreateDirectory q) = io_map (\<lambda>_. RUnit) (rt_create_directory rt q)"
| "dispatch_to rt pr (FilesystemRemove q) = io_map RRemovePath (rt_remove rt q)"
| "dispatch_to rt pr (FilesystemList q) = io_map RListDirectory (rt_list rt q)"
| "dispatch_to rt pr (ProcessStart q) = io_map RExecutionHandle (pr_start pr q)"
| "dispatch_to rt pr (ProcessRead q) = io_map RReadExecution (pr_read pr q)"
| "dispatch_to rt pr (ProcessWrite q) = io_map RProcessInput (pr_write pr q)"
| "dispatch_to rt pr (ProcessResize q) = io_map (\<lambda>_. RUnit) (pr_resize pr q)"
| "dispatch_to rt pr (ProcessSignal q) = io_map (\<lambda>_. RUnit) (pr_signal pr q)"
| "dispatch_to rt pr (ProcessTerminate q) = io_map RTerminateExecution (pr_terminate pr q)"

definition dispatch_operation :: "'h runtime \<Rightarrow> 'h process_runtime \<Rightarrow> operation \<Rightarrow> ('h, operation_result) io" where
  "dispatch_operation rt pr op =
     io_bind (io_lift (validated (operation_validate op))) (\<lambda>_.
     io_bind (rt_checkpoint rt) (\<lambda>_. dispatch_to rt pr op))"

definition version_error :: "nat \<Rightarrow> exec_error" where
  "version_error v =
     with_detail (with_detail (exec_error_new Unsupported
       (''unsupported execution protocol version '' @ show_nat v @ ''; expected '' @ show_nat PROTOCOL_VERSION))
       ''received_version'' (DNumber v)) ''supported_version'' (DNumber PROTOCOL_VERSION)"

text \<open>A panic of the runtime leaves the request without a response.\<close>

definition dispatch_request :: "'h runtime \<Rightarrow> 'h process_runtime \<Rightarrow> request_envelope \<Rightarrow> ('h, response_envelope) io" where
  "dispatch_request rt pr q h =
     (if rq_version q \<noteq> PROTOCOL_VERSION then (Inr (response_error (rq_request_id q) (version_error (rq_version q))), h)
      else case dispatch_operation rt pr (rq_operation q) h of
        (Inr r, h') \<Rightarrow> (Inr (response_success (rq_request_id q) r), h')
      | (Inl (Fail e), h') \<Rightarrow> (Inr (response_error (rq_request_id q) e), h')
      | (Inl (Panic m), h') \<Rightarrow> (Inl (Panic m), h'))"

section \<open>Frames\<close>

definition DEFAULT_MAX_FRAME_BYTES :: nat where "DEFAULT_MAX_FRAME_BYTES = 16 * 1024 * 1024"

datatype wire_error = WireIo string | WireJson string | EmptyFrame | FrameTooLarge nat | InvalidFrameLimit

definition ndjson_new :: "nat \<Rightarrow> wire_error + nat" where
  "ndjson_new limit = (if limit = 0 then Inl InvalidFrameLimit else Inr limit)"

text \<open>
  A reader is what it will yet be given: chunks, or a failed read. No more of them, and an empty
  chunk, are the end of the input. What is left of a chunk is given again.
\<close>

type_synonym reader = "(string + string) list"

definition unread :: "string \<Rightarrow> reader \<Rightarrow> reader" where
  "unread left rs = (if left = [] then rs else Inr left # rs)"

definition end_frame :: "bool \<Rightarrow> string \<Rightarrow> wire_error + string option" where
  "end_frame reached_eof frame =
     (if reached_eof \<and> frame = [] then Inr None
      else let payload = (if ends_with [CR] frame then butlast frame else frame) in
        if payload = [] then Inl EmptyFrame else Inr (Some payload))"

fun read_frame :: "nat \<Rightarrow> string \<Rightarrow> reader \<Rightarrow> (wire_error + string option) \<times> reader" where
  "read_frame limit frame [] = (end_frame True frame, [])"
| "read_frame limit frame (Inl e # rs) = (Inl (WireIo e), rs)"
| "read_frame limit frame (Inr available # rs) =
     (if available = [] then (end_frame True frame, rs)
      else let payload = takeWhile (\<lambda>c. c \<noteq> LF) available in
        if limit < sat_add (length frame) (length payload) then (Inl (FrameTooLarge limit), Inr available # rs)
        else if LF \<in> set available
        then (end_frame False (frame @ payload), unread (drop (length payload + 1) available) rs)
        else read_frame limit (frame @ payload) rs)"

definition read_json :: "(string \<Rightarrow> string + 'a) \<Rightarrow> nat \<Rightarrow> reader \<Rightarrow> (wire_error + 'a option) \<times> reader" where
  "read_json dec limit rs = (case read_frame limit [] rs of
     (Inl e, rs') \<Rightarrow> (Inl e, rs')
   | (Inr None, rs') \<Rightarrow> (Inr None, rs')
   | (Inr (Some frame), rs') \<Rightarrow> (case dec frame of Inl m \<Rightarrow> (Inl (WireJson m), rs') | Inr v \<Rightarrow> (Inr (Some v), rs')))"

text \<open>The bytes that a message adds to the output; \<open>fails\<close> is a write that fails after some of them.\<close>

definition write_json ::
  "('a \<Rightarrow> string + string) \<Rightarrow> nat \<Rightarrow> (nat \<times> string) option \<Rightarrow> 'a \<Rightarrow> (wire_error + unit) \<times> string" where
  "write_json enc limit fails v = (case enc v of
     Inl m \<Rightarrow> (Inl (WireJson m), [])
   | Inr frame \<Rightarrow>
       if limit < length frame then (Inl (FrameTooLarge limit), [])
       else case fails of
         None \<Rightarrow> (Inr (), frame @ [LF])
       | Some (n, e) \<Rightarrow> (Inl (WireIo e), take n (frame @ [LF])))"

section \<open>Connections\<close>

record message_codec =
  mc_enc_request :: "request_envelope \<Rightarrow> string + string"
  mc_dec_request :: "string \<Rightarrow> string + request_envelope"
  mc_enc_response :: "response_envelope \<Rightarrow> string + string"
  mc_dec_response :: "string \<Rightarrow> string + response_envelope"

datatype connection_end = ConnectionShutdown | ConnectionClosed | ConnectionFailed wire_error | ConnectionPanicked string

text \<open>
  The server's side of one connection, and the bytes it sends. The first argument is the number of requests until the supervisor
  shuts down.
\<close>

fun handle_connection ::
  "nat \<Rightarrow> message_codec \<Rightarrow> nat \<Rightarrow> (nat \<Rightarrow> (nat \<times> string) option) \<Rightarrow> 'h runtime \<Rightarrow> 'h process_runtime \<Rightarrow> reader \<Rightarrow> 'h
    \<Rightarrow> connection_end \<times> string \<times> 'h" where
  "handle_connection 0 mc limit fails rt pr rs h = (ConnectionShutdown, [], h)"
| "handle_connection (Suc n) mc limit fails rt pr rs h = (case read_json (mc_dec_request mc) limit rs of
     (Inl e, _) \<Rightarrow> (ConnectionFailed e, [], h)
   | (Inr None, _) \<Rightarrow> (ConnectionClosed, [], h)
   | (Inr (Some q), rs') \<Rightarrow> (case dispatch_request rt pr q h of
       (Inl (Panic m), h') \<Rightarrow> (ConnectionPanicked m, [], h')
     | (Inl (Fail e), h') \<Rightarrow> (ConnectionPanicked (message e), [], h')
     | (Inr response, h') \<Rightarrow> (case write_json (mc_enc_response mc) limit (fails n) response of
         (Inl e, sent) \<Rightarrow> (ConnectionFailed e, sent, h')
       | (Inr _, sent) \<Rightarrow> (case handle_connection n mc limit fails rt pr rs' h' of
           (stop, sent', h'') \<Rightarrow> (stop, sent @ sent', h'')))))"

datatype call_error = CallWire wire_error | CallClosed | CallWrongId string string | CallWrongVersion nat

text \<open>
  \<open>call\<close> of the client: what it sends, and what it makes of the bytes that come back.
\<close>

definition supervisor_call_sends :: "message_codec \<Rightarrow> nat \<Rightarrow> (nat \<times> string) option \<Rightarrow> request_envelope \<Rightarrow> (wire_error + unit) \<times> string" where
  "supervisor_call_sends mc limit fails q = write_json (mc_enc_request mc) limit fails q"

definition supervisor_call :: "message_codec \<Rightarrow> nat \<Rightarrow> (nat \<times> string) option \<Rightarrow> request_envelope \<Rightarrow> reader \<Rightarrow> call_error + response_envelope" where
  "supervisor_call mc limit fails q rs = (case supervisor_call_sends mc limit fails q of
     (Inl e, _) \<Rightarrow> Inl (CallWire e)
   | (Inr _, _) \<Rightarrow> (case read_json (mc_dec_response mc) limit rs of
       (Inl e, _) \<Rightarrow> Inl (CallWire e)
     | (Inr None, _) \<Rightarrow> Inl CallClosed
     | (Inr (Some response), _) \<Rightarrow>
         if response_request_id response \<noteq> rq_request_id q
         then Inl (CallWrongId (response_request_id response) (rq_request_id q))
         else if response_version response \<noteq> PROTOCOL_VERSION then Inl (CallWrongVersion (response_version response))
         else Inr response))"

section \<open>Frames survive fragmentation\<close>

lemma read_frame_chunks:
  assumes "concat chunks = s @ LF # rest" and "[] \<notin> set chunks" and "LF \<notin> set s" and "length (frame @ s) \<le> limit" and "limit \<le> u64_max"
  shows "\<exists>chunks'. read_frame limit frame (map Inr chunks) = (end_frame False (frame @ s), map Inr chunks') \<and>
     concat chunks' = rest \<and> [] \<notin> set chunks'"
  using assms
proof (induction chunks arbitrary: s frame)
  case (Cons c cs)
  have c: "c \<noteq> []" using Cons.prems(2) by auto
  show ?case
  proof (cases "LF \<in> set c")
    case True
    then obtain a b where ab: "c = a @ LF # b" "LF \<notin> set a" by (meson split_list_first)
    with Cons.prems(1) have eq: "a @ LF # (b @ concat cs) = s @ LF # rest" by simp
    have "takeWhile (\<lambda>x. x \<noteq> LF) (a @ LF # (b @ concat cs)) = a" "takeWhile (\<lambda>x. x \<noteq> LF) (s @ LF # rest) = s"
      using ab(2) Cons.prems(3) by (auto simp: takeWhile_append)
    with eq have s: "a = s" "rest = b @ concat cs" by auto
    have tw: "takeWhile (\<lambda>x. x \<noteq> LF) c = s" using ab s(1) by (auto simp: takeWhile_append)
    have "sat_add (length frame) (length s) \<le> limit" using Cons.prems(4) by (simp add: sat_add_def)
    then have "read_frame limit frame (map Inr (c # cs)) = (end_frame False (frame @ s), unread b (map Inr cs))"
      using c tw True ab s(1) by (simp add: Let_def)
    moreover have "unread b (map Inr cs) = map Inr (if b = [] then cs else b # cs)" by (simp add: unread_def)
    ultimately show ?thesis using s(2) Cons.prems(2) by (intro exI [of _ "if b = [] then cs else b # cs"]) auto
  next
    case False
    from Cons.prems(1) have "c @ concat cs = s @ LF # rest" by simp
    with False obtain s' where s': "s = c @ s'" "concat cs = s' @ LF # rest"
      by (auto simp: append_eq_append_conv2 append_eq_Cons_conv)
    have tw: "takeWhile (\<lambda>x. x \<noteq> LF) c = c" using False by (auto simp: takeWhile_eq_all_conv)
    have "sat_add (length frame) (length c) \<le> limit" using Cons.prems(4) s'(1) by (simp add: sat_add_def)
    then have "read_frame limit frame (map Inr (c # cs)) = read_frame limit (frame @ c) (map Inr cs)"
      using c False unfolding list.map read_frame.simps(3) tw Let_def by simp
    with Cons.IH [of s' "frame @ c"] s' Cons.prems show ?thesis by simp
  qed
qed simp

text \<open>What is assumed of the encoder of one kind of message: compact JSON that the decoder inverts.\<close>

definition json_faithful :: "('a \<Rightarrow> string + string) \<Rightarrow> (string \<Rightarrow> string + 'a) \<Rightarrow> bool" where
  "json_faithful enc dec \<longleftrightarrow> (\<forall>v s. enc v = Inr s \<longrightarrow> dec s = Inr v \<and> s \<noteq> [] \<and> LF \<notin> set s \<and> \<not> ends_with [CR] s)"

lemma write_json_Inr:
  assumes "write_json enc limit fails v = (Inr u, sent)"
  obtains s where "enc v = Inr s" and "length s \<le> limit" and "sent = s @ [LF]"
  using assms by (auto simp: write_json_def split: sum.splits if_splits option.splits prod.splits)

lemma read_written:
  assumes "json_faithful enc dec" and "write_json enc limit fails v = (Inr u, sent)" and "concat chunks = sent @ rest" and "[] \<notin> set chunks"
    and "limit \<le> u64_max"
  shows "\<exists>chunks'. read_json dec limit (map Inr chunks) = (Inr (Some v), map Inr chunks') \<and> concat chunks' = rest \<and> [] \<notin> set chunks'"
proof -
  obtain s where s: "enc v = Inr s" "length s \<le> limit" "sent = s @ [LF]" using assms(2) by (rule write_json_Inr)
  have d: "dec s = Inr v" "s \<noteq> []" "LF \<notin> set s" "\<not> ends_with [CR] s" using assms(1) s(1) by (auto simp: json_faithful_def)
  obtain chunks' where c: "read_frame limit [] (map Inr chunks) = (end_frame False ([] @ s), map Inr chunks')" "concat chunks' = rest" "[] \<notin> set chunks'"
    using read_frame_chunks [of chunks s rest "[]" limit] assms(3-5) s d(3) by auto
  then show ?thesis using d by (intro exI [of _ chunks']) (simp add: read_json_def end_frame_def Let_def)
qed

fun read_all :: "nat \<Rightarrow> (string \<Rightarrow> string + 'a) \<Rightarrow> nat \<Rightarrow> reader \<Rightarrow> (wire_error + 'a option) list" where
  "read_all 0 dec limit rs = []"
| "read_all (Suc n) dec limit rs = (case read_json dec limit rs of (r, rs') \<Rightarrow> r # read_all n dec limit rs')"

lemma read_all_written:
  assumes "json_faithful enc dec" and "limit \<le> u64_max" and "list_all2 (\<lambda>v sent. \<exists>fails u. write_json enc limit fails v = (Inr u, sent)) vs outs"
    and "concat chunks = concat outs" and "[] \<notin> set chunks"
  shows "read_all (Suc (length vs)) dec limit (map Inr chunks) = map (\<lambda>v. Inr (Some v)) vs @ [Inr None]"
  using assms(3-5)
proof (induction vs outs arbitrary: chunks rule: list_all2_induct)
  case Nil
  then have "chunks = []" by (cases chunks) auto
  then show ?case by (simp add: read_json_def end_frame_def)
next
  case (Cons v vs sent outs)
  then obtain fails u where w: "write_json enc limit fails v = (Inr u, sent)" by blast
  from read_written [OF assms(1) w _ Cons.prems(2) assms(2), of "concat outs"] Cons.prems(1) obtain chunks' where
    c: "read_json dec limit (map Inr chunks) = (Inr (Some v), map Inr chunks')" "concat chunks' = concat outs" "[] \<notin> set chunks'" by auto
  with Cons.IH [of chunks'] show ?case by simp
qed

text \<open>A call over a local connection.\<close>

lemma dispatch_request_response:
  assumes "dispatch_request rt pr q h = (Inr response, h')"
  shows "response_request_id response = rq_request_id q" and "response_version response = PROTOCOL_VERSION"
  using assms by (auto simp: dispatch_request_def response_error_def response_success_def split: if_splits sum.splits prod.splits fail.splits)

lemma connection_serves:
  assumes "json_faithful (mc_enc_request mc) (mc_dec_request mc)" and "limit \<le> u64_max"
    and "write_json (mc_enc_request mc) limit wfail q = (Inr u, sent)" and "concat chunks = sent" and "[] \<notin> set chunks"
    and "dispatch_request rt pr q h = (Inr response, h')" and "write_json (mc_enc_response mc) limit (fails 1) response = (Inr v, reply)"
  shows "handle_connection 2 mc limit fails rt pr (map Inr chunks) h = (ConnectionClosed, reply, h')"
proof -
  obtain chunks' where c: "read_json (mc_dec_request mc) limit (map Inr chunks) = (Inr (Some q), map Inr chunks')" "concat chunks' = []" "[] \<notin> set chunks'"
    using read_written [OF assms(1,3) _ assms(5,2), of "[]"] assms(4) by auto
  then have "chunks' = []" by (cases chunks') auto
  moreover have "read_json (mc_dec_request mc) limit [] = (Inr None, [])" by (simp add: read_json_def end_frame_def)
  ultimately show ?thesis using c(1) assms(6,7) by (simp add: numeral_2_eq_2)
qed

section \<open>Properties\<close>

definition sample_request :: request_envelope where
  "sample_request = request_envelope_new ''r'' Describe"

definition sample_codec :: message_codec where
  "sample_codec = \<lparr>mc_enc_request = (\<lambda>q. if q = sample_request then Inr ''{d}'' else Inl ''unsupported''),
     mc_dec_request = (\<lambda>s. if s = ''{d}'' then Inr sample_request else Inl ''unsupported''),
     mc_enc_response = (\<lambda>r. if r = response_success ''r'' (RHostDescriptor sample_host) then Inr ''{e}'' else Inl ''unsupported''),
     mc_dec_response = (\<lambda>s. if s = ''{e}'' then Inr (response_success ''r'' (RHostDescriptor sample_host)) else Inl ''unsupported'')\<rparr>"

lemma sample_codec_faithful:
  "json_faithful (mc_enc_request sample_codec) (mc_dec_request sample_codec)"
  "json_faithful (mc_enc_response sample_codec) (mc_dec_response sample_codec)"
  by (auto simp: json_faithful_def sample_codec_def ends_with_def strip_suffix_def split: if_splits)

text \<open>
  C23: messages survive the connection, however its bytes are cut into pieces. Whatever messages were written one after the
  other, and whatever non-empty pieces the reader is given, it reads exactly these messages in order and then the end of
  the input. JSON text has no line feed and the decoder inverts the encoder.
\<close>

theorem frames_round_trip:
  assumes "json_faithful enc dec" and "limit \<le> u64_max"
    and "list_all2 (\<lambda>v sent. write_json enc limit None v = (Inr (), sent)) vs outs"
    and "concat chunks = concat outs" and "[] \<notin> set chunks"
  shows "read_all (Suc (length vs)) dec limit (map Inr chunks) = map (\<lambda>v. Inr (Some v)) vs @ [Inr None]"
proof -
  have "list_all2 (\<lambda>v sent. \<exists>fails u. write_json enc limit fails v = (Inr u, sent)) vs outs"
    using assms(3) by (rule list_all2_mono) blast
  from read_all_written [OF assms(1,2) this assms(4,5)] show ?thesis .
qed

theorem frames_round_trip_witness:
  "read_all 3 (mc_dec_request sample_codec) 9 [Inr ''{d'', Inr (''}'' @ [LF] @ ''{''), Inr ''d}'', Inr [LF]] =
     [Inr (Some sample_request), Inr (Some sample_request), Inr None]"
proof -
  have w: "write_json (mc_enc_request sample_codec) 9 None sample_request = (Inr (), ''{d}'' @ [LF])"
    by (simp add: write_json_def sample_codec_def)
  have "(9::nat) \<le> u64_max" by (simp add: u64_max_def)
  from frames_round_trip [OF sample_codec_faithful(1) this, of "[sample_request, sample_request]" "[''{d}'' @ [LF], ''{d}'' @ [LF]]"
      "[''{d'', ''}'' @ [LF] @ ''{'', ''d}'', [LF]]"] w
  show ?thesis by (simp add: eval_nat_numeral)
qed


definition sample_runtime :: "unit runtime" where
  "sample_runtime = \<lparr>rt_descriptor = sample_host, rt_checkpoint = io_lift (Inr ()),
     rt_stat = (\<lambda>_. io_lift (Inl (Fail cancelled_error))), rt_read = (\<lambda>_. io_lift (Inl (Fail cancelled_error))),
     rt_write = (\<lambda>_. io_lift (Inl (Fail cancelled_error))), rt_remove = (\<lambda>_. io_lift (Inl (Fail cancelled_error))),
     rt_create_directory = (\<lambda>_. io_lift (Inl (Fail cancelled_error))), rt_list = (\<lambda>_. io_lift (Inl (Fail cancelled_error)))\<rparr>"

definition sample_processes :: "unit process_runtime" where
  "sample_processes = \<lparr>pr_descriptor = sample_host, pr_checkpoint = io_lift (Inr ()), pr_start = (\<lambda>_. io_lift (Inl (Fail cancelled_error))),
     pr_read = (\<lambda>_. io_lift (Inl (Fail cancelled_error))), pr_write = (\<lambda>_. io_lift (Inl (Fail cancelled_error))),
     pr_resize = (\<lambda>_. io_lift (Inl (Fail cancelled_error))), pr_signal = (\<lambda>_. io_lift (Inl (Fail cancelled_error))),
     pr_terminate = (\<lambda>_. io_lift (Inl (Fail cancelled_error)))\<rparr>"


end
