(* ===== verification/Gateway_Client.thy ===== *)
theory Gateway_Client
  imports Wire_Protocol
begin

text \<open>
  The client of the execution gateway (\<open>execution/packages/execution-client/src/client.rs\<close>, \<open>runtime.rs\<close> and \<open>error.rs\<close>):
  a call posts one request and accepts one correlated response; a connected host is a runtime whose operations are
  calls. The HTTP exchange, JSON decoding and identifiers are parameters.
\<close>

section \<open>Errors\<close>

definition protocol_error :: "string \<Rightarrow> exec_error" where
  "protocol_error m = with_detail (exec_error_new Internal m) ''source'' (DText ''protocol'')"

record transport_failure =
  tf_timeout :: bool
  tf_connect :: bool

definition transport_error :: "transport_failure \<Rightarrow> exec_error" where
  "transport_error f =
     with_detail ((exec_error_new (if tf_timeout f then DeadlineExceeded else Unavailable) ''execution gateway transport failed'')
       \<lparr>retryable := tf_connect f\<rparr>) ''source'' (DText ''transport'')"

record api_error =
  ae_code :: string
  ae_message :: string
  ae_retryable :: bool
  ae_details :: detail

definition gateway_error_code :: "nat \<Rightarrow> string option \<Rightarrow> error_code" where
  "gateway_error_code status body_code =
     (if body_code = Some ''HOST_OPERATION_UNSUPPORTED'' then Unsupported
      else if body_code \<in> Some ` {''HOST_NOT_READY'', ''HOST_DISCONNECTED'', ''E2B_ACCOUNT_UNAVAILABLE''} then Unavailable
      else if status \<in> {401, 403} then PermissionDenied
      else if status = 404 then NotFound
      else if status \<in> {400, 422} then InvalidRequest
      else if status = 409 then OperationConflict
      else if status \<in> {413, 429} then ResourceExhausted
      else if status \<in> {408, 504} then DeadlineExceeded
      else if status \<in> {410, 502, 503} then Unavailable
      else Internal)"

definition gateway_error :: "nat \<Rightarrow> api_error option \<Rightarrow> string option \<Rightarrow> exec_error" where
  "gateway_error status body request_id =
     (let c = gateway_error_code status (map_option ae_code body);
          e = (case body of
            Some b \<Rightarrow> with_detail (with_detail ((exec_error_new c (ae_message b))\<lparr>retryable := ae_retryable b\<rparr>)
              ''gateway_code'' (DText (ae_code b))) ''gateway_details'' (ae_details b)
          | None \<Rightarrow> exec_error_new c (''execution gateway returned HTTP '' @ show_nat status));
          e' = with_detail (with_detail e ''source'' (DText ''gateway'')) ''http_status'' (DNumber status)
      in case request_id of Some i \<Rightarrow> with_detail e' ''gateway_request_id'' (DText i) | None \<Rightarrow> e')"

definition response_too_large :: exec_error where
  "response_too_large = with_detail (exec_error_new ResourceExhausted ''gateway response exceeded the configured byte limit'')
     ''source'' (DText ''client'')"

section \<open>Calls\<close>

record http_response =
  hr_status :: nat
  hr_request_id :: "string option"
  hr_content_length :: "nat option"
  hr_chunks :: "(transport_failure + string) list"

type_synonym http_outcome = "transport_failure + http_response"

record 's gateway_client =
  gc_checkpoint :: "('s, unit) io"
  gc_interrupted :: "'s \<Rightarrow> exec_error option"
  gc_request_id :: "'s \<Rightarrow> string"
  gc_uuid :: "string \<Rightarrow> string option"
  gc_post :: "string \<Rightarrow> request_envelope \<Rightarrow> 's \<Rightarrow> http_outcome \<times> 's"
  gc_decode :: "string \<Rightarrow> string + response_envelope"
  gc_decode_error :: "string \<Rightarrow> api_error option"
  gc_max_response_bytes :: nat

fun collect_body :: "nat \<Rightarrow> string \<Rightarrow> (transport_failure + string) list \<Rightarrow> string exec_result" where
  "collect_body limit bytes [] = Inr bytes"
| "collect_body limit bytes (Inl f # cs) = Inl (Fail (transport_error f))"
| "collect_body limit bytes (Inr chunk # cs) =
     (if limit - length bytes < length chunk then Inl (Fail response_too_large) else collect_body limit (bytes @ chunk) cs)"

definition accept_response :: "'s gateway_client \<Rightarrow> request_envelope \<Rightarrow> http_outcome \<Rightarrow> operation_result exec_result" where
  "accept_response c q out = (case out of
     Inl f \<Rightarrow> Inl (Fail (transport_error f))
   | Inr resp \<Rightarrow>
       if (case hr_content_length resp of Some n \<Rightarrow> gc_max_response_bytes c < n | None \<Rightarrow> False) then Inl (Fail response_too_large)
       else rbind (collect_body (gc_max_response_bytes c) [] (hr_chunks resp)) (\<lambda>bytes.
         if \<not> (200 \<le> hr_status resp \<and> hr_status resp < 300)
         then Inl (Fail (gateway_error (hr_status resp) (gc_decode_error c bytes) (hr_request_id resp)))
         else case gc_decode c bytes of
           Inl _ \<Rightarrow> Inl (Fail (protocol_error ''gateway returned invalid execution JSON''))
         | Inr r \<Rightarrow>
             if response_version r \<noteq> PROTOCOL_VERSION \<or> response_request_id r \<noteq> rq_request_id q
             then Inl (Fail (protocol_error ''gateway returned an uncorrelated execution response''))
             else (case r of ResponseSuccess _ _ x \<Rightarrow> Inr x | ResponseError _ _ e \<Rightarrow> Inl (Fail e))))"

definition client_send :: "'s gateway_client \<Rightarrow> string \<Rightarrow> request_envelope \<Rightarrow> ('s, operation_result) io" where
  "client_send c hst q s = (case gc_post c hst q s of (out, s') \<Rightarrow> (accept_response c q out, s'))"

text \<open>
  \<open>within_context\<close>: an operation whose context is cancelled, or whose deadline passes, returns an error whatever
  becomes of the request.
\<close>

definition within_context :: "'s gateway_client \<Rightarrow> ('s, 'a) io \<Rightarrow> ('s, 'a) io" where
  "within_context c act s = (case act s of (r, s') \<Rightarrow>
     (case gc_interrupted c s of Some e \<Rightarrow> (Inl (Fail e), s') | None \<Rightarrow> (r, s')))"

definition client_call :: "'s gateway_client \<Rightarrow> string \<Rightarrow> operation \<Rightarrow> ('s, operation_result) io" where
  "client_call c hst op =
     io_bind (gc_checkpoint c) (\<lambda>_.
     io_bind (io_lift (validated (operation_validate op))) (\<lambda>_ s.
     within_context c (client_send c hst (request_envelope_new (gc_request_id c s) op)) s))"

section \<open>A connected host\<close>

record 's gateway_host =
  gh_client :: "'s gateway_client"
  gh_host_id :: string
  gh_descriptor :: host_descriptor

definition connect_host :: "'s gateway_client \<Rightarrow> string \<Rightarrow> ('s, 's gateway_host) io" where
  "connect_host c hst =
     io_bind (gc_checkpoint c) (\<lambda>_.
     io_bind (io_lift (case gc_uuid c hst of
        None \<Rightarrow> Inl (Fail (exec_error_new InvalidRequest ''gateway host ID must be a UUID''))
      | Some i \<Rightarrow> validated (id_new ''ExecutionHostId'' i))) (\<lambda>i.
     io_bind (client_call c i Describe) (\<lambda>r. io_lift (case r of
        RHostDescriptor d \<Rightarrow>
          (case descriptor_validate d of
             Inl _ \<Rightarrow> Inl (Fail (protocol_error ''gateway returned an invalid host descriptor''))
           | Inr _ \<Rightarrow> if host_id d \<noteq> i then Inl (Fail (protocol_error ''gateway descriptor does not match the requested host''))
               else Inr \<lparr>gh_client = c, gh_host_id = i, gh_descriptor = d\<rparr>)
      | _ \<Rightarrow> Inl (Fail (protocol_error ''gateway describe returned an unexpected result''))))))"

definition gateway_call :: "'s gateway_host \<Rightarrow> operation \<Rightarrow> ('s, operation_result) io" where
  "gateway_call g op = client_call (gh_client g) (gh_host_id g) op"

definition expect_result :: "string \<Rightarrow> (operation_result \<Rightarrow> 'a option) \<Rightarrow> operation_result \<Rightarrow> 'a exec_result" where
  "expect_result name ext r = (case ext r of
     Some x \<Rightarrow> Inr x
   | None \<Rightarrow> Inl (Fail (protocol_error (''gateway returned an unexpected result for '' @ name))))"

definition expect_unit :: "string \<Rightarrow> operation_result \<Rightarrow> unit exec_result" where
  "expect_unit name r = (if r = RUnit then Inr ()
     else Inl (Fail (protocol_error (''gateway returned an unexpected result for '' @ name))))"

definition calling :: "'s gateway_host \<Rightarrow> operation \<Rightarrow> (operation_result \<Rightarrow> 'a exec_result) \<Rightarrow> ('s, 'a) io" where
  "calling g op ext = io_bind (gateway_call g op) (\<lambda>r. io_lift (ext r))"

definition gateway_runtime :: "'s gateway_host \<Rightarrow> 's runtime" where
  "gateway_runtime g = \<lparr>rt_descriptor = gh_descriptor g, rt_checkpoint = gc_checkpoint (gh_client g),
     rt_stat = (\<lambda>q. calling g (FilesystemStat q) (expect_result ''filesystem.stat'' (\<lambda>r. case r of RFileMetadata v \<Rightarrow> Some v | _ \<Rightarrow> None))),
     rt_read = (\<lambda>q. calling g (FilesystemRead q) (expect_result ''filesystem.read'' (\<lambda>r. case r of RReadFile v \<Rightarrow> Some v | _ \<Rightarrow> None))),
     rt_write = (\<lambda>q. calling g (FilesystemWrite q) (expect_result ''filesystem.write'' (\<lambda>r. case r of RWriteFile v \<Rightarrow> Some v | _ \<Rightarrow> None))),
     rt_remove = (\<lambda>q. calling g (FilesystemRemove q) (expect_result ''filesystem.remove'' (\<lambda>r. case r of RRemovePath v \<Rightarrow> Some v | _ \<Rightarrow> None))),
     rt_create_directory = (\<lambda>q. calling g (FilesystemCreateDirectory q) (expect_unit ''filesystem.create_directory'')),
     rt_list = (\<lambda>q. calling g (FilesystemList q) (expect_result ''filesystem.list'' (\<lambda>r. case r of RListDirectory v \<Rightarrow> Some v | _ \<Rightarrow> None)))\<rparr>"

definition gateway_processes :: "'s gateway_host \<Rightarrow> 's process_runtime" where
  "gateway_processes g = \<lparr>pr_descriptor = gh_descriptor g, pr_checkpoint = gc_checkpoint (gh_client g),
     pr_start = (\<lambda>q. calling g (ProcessStart q) (expect_result ''process.start'' (\<lambda>r. case r of RExecutionHandle v \<Rightarrow> Some v | _ \<Rightarrow> None))),
     pr_read = (\<lambda>q. calling g (ProcessRead q) (expect_result ''process.read'' (\<lambda>r. case r of RReadExecution v \<Rightarrow> Some v | _ \<Rightarrow> None))),
     pr_write = (\<lambda>q. calling g (ProcessWrite q) (expect_result ''process.write'' (\<lambda>r. case r of RProcessInput v \<Rightarrow> Some v | _ \<Rightarrow> None))),
     pr_resize = (\<lambda>q. calling g (ProcessResize q) (expect_unit ''process.resize'')),
     pr_signal = (\<lambda>q. calling g (ProcessSignal q) (expect_unit ''process.signal'')),
     pr_terminate = (\<lambda>q. calling g (ProcessTerminate q) (expect_result ''process.terminate'' (\<lambda>r. case r of RTerminateExecution v \<Rightarrow> Some v | _ \<Rightarrow> None)))\<rparr>"

end
