(* ===== verification/Gateway_Security.thy ===== *)
theory Gateway_Security
  imports Prelude "HOL-Library.AList"
begin

text \<open>
  The admission controls of the execution gateway (\<open>execution/apps/execution-gateway/src/security.rs\<close>) and the middleware that
  consults them (\<open>http.rs\<close>), with its error values (\<open>error.rs\<close>). Instants are nanoseconds; a client is its address, or nothing when unknown.
\<close>

section \<open>Errors of the gateway\<close>

record gateway_http_error =
  ge_status :: nat
  ge_code :: string
  ge_message :: string
  ge_retryable :: bool

definition http_error_new :: "nat \<Rightarrow> string \<Rightarrow> string \<Rightarrow> gateway_http_error" where
  "http_error_new status c m = \<lparr>ge_status = status, ge_code = c, ge_message = m, ge_retryable = False\<rparr>"

definition http_bad_request :: "string \<Rightarrow> string \<Rightarrow> gateway_http_error" where
  "http_bad_request = http_error_new 400"

definition http_not_found :: "string \<Rightarrow> gateway_http_error" where
  "http_not_found resource = http_error_new 404 ''NOT_FOUND'' (resource @ '' was not found'')"

definition http_conflict :: "string \<Rightarrow> string \<Rightarrow> gateway_http_error" where
  "http_conflict = http_error_new 409"

definition http_internal :: "string \<Rightarrow> gateway_http_error" where
  "http_internal = http_error_new 500 ''INTERNAL''"

definition http_retryable :: "gateway_http_error \<Rightarrow> gateway_http_error" where
  "http_retryable e = e\<lparr>ge_retryable := True\<rparr>"

definition database_error :: gateway_http_error where
  "database_error = http_internal ''database operation failed''"

section \<open>A fixed-window limiter\<close>

record limit_window =
  started_at :: nat
  attempts :: nat

record limiter =
  lm_windows :: "(string option \<times> limit_window) list"
  lm_maximum :: nat
  lm_duration :: nat

definition u32_max :: nat where "u32_max = 2 ^ 32 - 1"

definition per_minute :: "nat \<Rightarrow> limiter" where
  "per_minute n = \<lparr>lm_windows = [], lm_maximum = n, lm_duration = 60 * 1000000000\<rparr>"

definition retained_windows :: "nat \<Rightarrow> limiter \<Rightarrow> (string option \<times> limit_window) list" where
  "retained_windows now l =
     (if 4096 < length (lm_windows l) then filter (\<lambda>(_, w). now - started_at w < 2 * lm_duration l) (lm_windows l)
      else lm_windows l)"

definition window_at :: "nat \<Rightarrow> string option \<Rightarrow> limiter \<Rightarrow> limit_window" where
  "window_at now k l =
     (let w = (case map_of (retained_windows now l) k of Some w \<Rightarrow> w | None \<Rightarrow> \<lparr>started_at = now, attempts = 0\<rparr>)
      in if lm_duration l \<le> now - started_at w then \<lparr>started_at = now, attempts = 0\<rparr> else w)"

definition allow :: "nat \<Rightarrow> string option \<Rightarrow> limiter \<Rightarrow> bool \<times> limiter" where
  "allow now k l =
     (let w = window_at now k l in
      if lm_maximum l \<le> attempts w then (False, l\<lparr>lm_windows := AList.update k w (retained_windows now l)\<rparr>)
      else (True, l\<lparr>lm_windows := AList.update k (w\<lparr>attempts := min u32_max (attempts w + 1)\<rparr>) (retained_windows now l)\<rparr>))"

section \<open>Security controls and middleware\<close>

record security_controls =
  sc_permits :: nat
  sc_authentication :: limiter
  sc_machine_entry :: limiter

definition security_controls_new :: "nat \<Rightarrow> nat \<Rightarrow> nat \<Rightarrow> security_controls" where
  "security_controls_new operations failures entries =
     \<lparr>sc_permits = operations, sc_authentication = per_minute failures, sc_machine_entry = per_minute entries\<rparr>"

definition try_operation :: "security_controls \<Rightarrow> security_controls option" where
  "try_operation sc = (if sc_permits sc = 0 then None else Some (sc\<lparr>sc_permits := sc_permits sc - 1\<rparr>))"

definition allow_authentication_failure :: "nat \<Rightarrow> string option \<Rightarrow> security_controls \<Rightarrow> bool \<times> security_controls" where
  "allow_authentication_failure now k sc = (case allow now k (sc_authentication sc) of (b, l) \<Rightarrow> (b, sc\<lparr>sc_authentication := l\<rparr>))"

definition allow_machine_entry :: "nat \<Rightarrow> string option \<Rightarrow> security_controls \<Rightarrow> bool \<times> security_controls" where
  "allow_machine_entry now k sc = (case allow now k (sc_machine_entry sc) of (b, l) \<Rightarrow> (b, sc\<lparr>sc_machine_entry := l\<rparr>))"

definition strip_prefix_of :: "string \<Rightarrow> string \<Rightarrow> string option" where
  "strip_prefix_of p s = (if take (length p) s = p then Some (drop (length p) s) else None)"

definition authorize :: "string \<Rightarrow> string option \<Rightarrow> nat \<Rightarrow> string option \<Rightarrow> security_controls \<Rightarrow> (gateway_http_error + unit) \<times> security_controls" where
  "authorize token header now k sc =
     (if (case Option.bind header (strip_prefix_of ''Bearer '') of Some provided \<Rightarrow> provided = token | None \<Rightarrow> False) then (Inr (), sc)
      else case allow_authentication_failure now k sc of
        (False, sc') \<Rightarrow> (Inl (http_retryable (http_error_new 429 ''AUTHENTICATION_RATE_LIMITED'' ''too many failed authentication attempts'')), sc')
      | (True, sc') \<Rightarrow> (Inl (http_error_new 401 ''UNAUTHORIZED'' ''a valid bearer token is required''), sc'))"

definition limit_machine_entry :: "nat \<Rightarrow> string option \<Rightarrow> security_controls \<Rightarrow> (gateway_http_error + unit) \<times> security_controls" where
  "limit_machine_entry now k sc = (case allow_machine_entry now k sc of
     (False, sc') \<Rightarrow> (Inl (http_retryable (http_error_new 429 ''MACHINE_ENTRY_RATE_LIMITED'' ''too many registration or connection attempts'')), sc')
   | (True, sc') \<Rightarrow> (Inr (), sc'))"

section \<open>How many attempts are admitted\<close>

text \<open>\<open>admissions\<close>: the instants at which the limiter admits client \<open>k\<close> in a sequence of attempts of all clients.\<close>

fun admissions :: "string option \<Rightarrow> limiter \<Rightarrow> (nat \<times> string option) list \<Rightarrow> nat list" where
  "admissions k l [] = []"
| "admissions k l ((now, k') # as) = (case allow now k' l of (b, l') \<Rightarrow> (if b \<and> k' = k then [now] else []) @ admissions k l' as)"

text \<open>
  The same with the start of the window in which each was admitted; what the limiter knows of the windows of \<open>k\<close> up
  to \<open>now\<close>: the windows are a duration apart, each has at most the maximum, and the current one counts its admissions.
\<close>

fun window_log :: "string option \<Rightarrow> limiter \<Rightarrow> (nat \<times> string option) list \<Rightarrow> (nat \<times> nat) list" where
  "window_log k l [] = []"
| "window_log k l ((now, k') # as) = (case allow now k' l of (b, l') \<Rightarrow>
     (if b \<and> k' = k then [(now, started_at (window_at now k l))] else []) @ window_log k l' as)"

lemma admissions_window_log: "admissions k l as = map fst (window_log k l as)"
proof (induction k l as rule: window_log.induct)
  case (2 k l now k' as)
  then show ?case by (cases "allow now k' l") simp
qed simp

definition in_window :: "nat \<Rightarrow> (nat \<times> nat) list \<Rightarrow> nat" where
  "in_window s hs = length (filter (\<lambda>(_, s'). s' = s) hs)"

definition spaced :: "nat \<Rightarrow> nat \<Rightarrow> (nat \<times> nat) list \<Rightarrow> bool" where
  "spaced d n hs \<longleftrightarrow> (\<forall>(t, s) \<in> set hs. s \<le> t \<and> t < s + d) \<and> (\<forall>s. in_window s hs \<le> n) \<and>
     (\<forall>s \<in> snd ` set hs. \<forall>s' \<in> snd ` set hs. s < s' \<longrightarrow> s + d \<le> s')"

definition knows_window :: "nat \<Rightarrow> nat \<Rightarrow> (nat \<times> nat) list \<Rightarrow> limit_window option \<Rightarrow> bool" where
  "knows_window d now hs ow \<longleftrightarrow> (case ow of
     None \<Rightarrow> \<forall>s \<in> snd ` set hs. s + d \<le> now
   | Some w \<Rightarrow> started_at w \<le> now \<and> attempts w = in_window (started_at w) hs \<and> (\<forall>s \<in> snd ` set hs. s = started_at w \<or> s + d \<le> started_at w))"

definition knows :: "string option \<Rightarrow> nat \<Rightarrow> (nat \<times> nat) list \<Rightarrow> limiter \<Rightarrow> bool" where
  "knows k now hs l \<longleftrightarrow> distinct (map fst (lm_windows l)) \<and> knows_window (lm_duration l) now hs (map_of (lm_windows l) k)"

lemma length_filter_filter: "length (filter P (filter Q xs)) \<le> length (filter P xs)"
  by (induction xs) auto

lemma in_two_windows: "length (filter (\<lambda>(_, s). s = u \<or> s = v) hs) \<le> in_window u hs + in_window v hs"
  unfolding in_window_def by (induction hs) auto

lemma two_windows:
  assumes "spaced d n hs"
  shows "length (filter (\<lambda>(t, _). a \<le> t \<and> t < a + d) hs) \<le> 2 * n"
proof -
  let ?P = "\<lambda>(t, s). a \<le> t \<and> t < a + d"
  let ?S = "snd ` set (filter ?P hs)"
  show ?thesis
  proof (cases "filter ?P hs = []")
    case False
    then have S: "finite ?S" "?S \<noteq> {}" by (simp_all only: finite_imageI finite_set image_is_empty set_empty not_False_eq_True)
    have bounds: "s < a + d \<and> a < s + d" if s: "s \<in> ?S" for s
    proof -
      obtain t where "(t, s) \<in> set hs" "a \<le> t" "t < a + d" using s by auto
      then show ?thesis using assms by (force simp: spaced_def)
    qed
    have apart: "s + d \<le> s'" if "s \<in> ?S" "s' \<in> ?S" "s < s'" for s s'
    proof -
      have "s \<in> snd ` set hs" "s' \<in> snd ` set hs" using that by auto
      with assms that(3) show ?thesis unfolding spaced_def by blast
    qed
    have two: "s = Min ?S \<or> s = Max ?S" if s: "s \<in> ?S" for s
    proof (rule ccontr)
      assume "\<not> ?thesis"
      moreover have "Min ?S \<le> s" "s \<le> Max ?S" using S s by auto
      ultimately have "Min ?S < s" "s < Max ?S" by auto
      with apart Min_in [OF S] Max_in [OF S] s have "Min ?S + d \<le> s" "s + d \<le> Max ?S" by blast+
      with bounds [OF Min_in [OF S]] bounds [OF Max_in [OF S]] show False by linarith
    qed
    have "length (filter ?P hs) \<le> length (filter (\<lambda>(_, s). s = Min ?S \<or> s = Max ?S) (filter ?P hs))"
      using two by (subst filter_True) force+
    also have "\<dots> \<le> length (filter (\<lambda>(_, s). s = Min ?S \<or> s = Max ?S) hs)" by (rule length_filter_filter)
    also have "\<dots> \<le> in_window (Min ?S) hs + in_window (Max ?S) hs" by (rule in_two_windows)
    finally show ?thesis using assms unfolding spaced_def by (metis (no_types, lifting) add_mono le_trans mult_2)
  qed simp
qed

lemma map_of_filter_distinct:
  "distinct (map fst xs) \<Longrightarrow> map_of (filter (\<lambda>(_, w). P w) xs) k = (case map_of xs k of Some w \<Rightarrow> if P w then Some w else None | None \<Rightarrow> None)"
  by (induction xs) (auto split: option.splits simp: map_of_eq_None_iff)

lemma knows_window_later: "knows_window d now0 hs ow \<Longrightarrow> now0 \<le> now \<Longrightarrow> knows_window d now hs ow"
  by (cases ow) (auto simp: knows_window_def)

lemma knows_retained:
  assumes "knows k now0 hs l" and "now0 \<le> now"
  shows "distinct (map fst (retained_windows now l))" and "knows_window (lm_duration l) now hs (map_of (retained_windows now l) k)"
proof -
  have kn: "distinct (map fst (lm_windows l))" "knows_window (lm_duration l) now hs (map_of (lm_windows l) k)"
    using assms knows_window_later by (auto simp: knows_def)
  show "distinct (map fst (retained_windows now l))" using kn(1) by (simp add: retained_windows_def distinct_map_filter)
  show "knows_window (lm_duration l) now hs (map_of (retained_windows now l) k)"
  proof (cases "map_of (retained_windows now l) k = map_of (lm_windows l) k")
    case True
    then show ?thesis using kn(2) by simp
  next
    case False
    have "map_of (retained_windows now l) k = None \<and> (\<exists>w. map_of (lm_windows l) k = Some w \<and> started_at w + lm_duration l \<le> now)"
      using False kn map_of_filter_distinct [of "lm_windows l" "\<lambda>w. now - started_at w < 2 * lm_duration l" k]
      by (cases "map_of (lm_windows l) k") (auto simp: retained_windows_def knows_window_def split: if_splits)
    then show ?thesis using kn(2) by (fastforce simp: knows_window_def)
  qed
qed

lemma knows_window_at:
  assumes "knows_window (lm_duration l) now hs (map_of (retained_windows now l) k)" and "0 < lm_duration l"
  shows "knows_window (lm_duration l) now hs (Some (window_at now k l))" "now < started_at (window_at now k l) + lm_duration l"
proof -
  let ?new = "\<lparr>started_at = now, attempts = 0\<rparr>"
  have fresh: "knows_window (lm_duration l) now hs (Some ?new)" if before: "\<forall>s \<in> snd ` set hs. s + lm_duration l \<le> now"
  proof -
    have "in_window now hs = 0" using before assms(2) by (force simp: in_window_def filter_empty_conv)
    then show ?thesis using before by (simp add: knows_window_def)
  qed
  have "knows_window (lm_duration l) now hs (Some (window_at now k l)) \<and> now < started_at (window_at now k l) + lm_duration l"
  proof (cases "map_of (retained_windows now l) k")
    case None
    then have "window_at now k l = ?new" by (simp add: window_at_def Let_def)
    moreover have "\<forall>s \<in> snd ` set hs. s + lm_duration l \<le> now" using assms(1) None by (simp add: knows_window_def)
    ultimately show ?thesis using fresh assms(2) by simp
  next
    case (Some w)
    note kn = assms(1) [unfolded Some knows_window_def option.case]
    show ?thesis
    proof (cases "lm_duration l \<le> now - started_at w")
      case True
      then have "window_at now k l = ?new" using Some by (simp add: window_at_def Let_def)
      moreover have "\<forall>s \<in> snd ` set hs. s + lm_duration l \<le> now" using kn True assms(2) by fastforce
      ultimately show ?thesis using fresh assms(2) by simp
    next
      case False
      then have "window_at now k l = w" using Some by (simp add: window_at_def Let_def)
      with False assms(1) Some show ?thesis by simp
    qed
  qed
  then show "knows_window (lm_duration l) now hs (Some (window_at now k l))" "now < started_at (window_at now k l) + lm_duration l"
    by simp_all
qed

lemma in_window_append: "in_window s (hs @ [(t, s')]) = in_window s hs + (if s' = s then 1 else 0)"
  by (simp add: in_window_def)

lemma allow_knows:
  assumes kn: "knows k now0 hs l" and now: "now0 \<le> now" and sp: "spaced (lm_duration l) (lm_maximum l) hs" and d: "0 < lm_duration l"
    and m: "lm_maximum l \<le> u32_max" and a: "allow now k' l = (b, l')"
  defines "hs' \<equiv> hs @ (if b \<and> k' = k then [(now, started_at (window_at now k l))] else [])"
  shows "knows k now hs' l'" "spaced (lm_duration l) (lm_maximum l) hs'" "lm_duration l' = lm_duration l" "lm_maximum l' = lm_maximum l"
proof -
  let ?w = "window_at now k' l"
  let ?u = "if b then ?w\<lparr>attempts := min u32_max (attempts ?w + 1)\<rparr> else ?w"
  have l': "l' = l\<lparr>lm_windows := AList.update k' ?u (retained_windows now l)\<rparr>" and b: "b \<longleftrightarrow> attempts ?w < lm_maximum l"
    using a by (auto simp: allow_def Let_def split: if_splits)
  show "lm_duration l' = lm_duration l" "lm_maximum l' = lm_maximum l" by (simp_all add: l')
  note r = knows_retained [OF kn now]
  have dist: "distinct (map fst (lm_windows l'))" using r(1) by (simp add: l' distinct_update)
  show "knows k now hs' l'"
  proof (cases "k' = k")
    case False
    then show ?thesis using r dist by (simp add: knows_def hs'_def l' update_conv')
  next
    case True
    note w = knows_window_at [OF r(2) d]
    have "knows_window (lm_duration l) now hs' (Some ?u)"
      using w(1) b m True by (auto simp: knows_window_def hs'_def in_window_append)
    then show ?thesis using dist True by (simp add: knows_def l' update_conv')
  qed
  show "spaced (lm_duration l) (lm_maximum l) hs'"
  proof (cases "b \<and> k' = k")
    case True
    note w = knows_window_at [OF r(2) d]
    have le: "in_window s hs' \<le> lm_maximum l" for s
      using sp w(1) b True by (auto simp: spaced_def knows_window_def hs'_def in_window_append)
    have apart: "s + lm_duration l \<le> s'" if s: "s \<in> snd ` set hs'" "s' \<in> snd ` set hs'" "s < s'" for s s'
    proof -
      have old: "s = started_at ?w \<or> s \<in> snd ` set hs" "s' = started_at ?w \<or> s' \<in> snd ` set hs"
        using s(1,2) True by (auto simp: hs'_def)
      have cur: "x = started_at ?w \<or> x + lm_duration l \<le> started_at ?w" if "x \<in> snd ` set hs" for x
        using w(1) True that unfolding knows_window_def by auto
      show ?thesis
      proof (cases "s \<in> snd ` set hs \<and> s' \<in> snd ` set hs")
        case True
        then show ?thesis using sp s(3) unfolding spaced_def by blast
      next
        case False
        then consider "s = started_at ?w" "s' \<in> snd ` set hs" | "s' = started_at ?w" "s \<in> snd ` set hs" using old s(3) by auto
        then show ?thesis using cur s(3) by cases fastforce+
      qed
    qed
    have "\<forall>(t, s) \<in> set hs'. s \<le> t \<and> t < s + lm_duration l" using sp w True by (auto simp: spaced_def knows_window_def hs'_def)
    with le apart show ?thesis by (simp add: spaced_def)
  next
    case False
    then have "hs' = hs" unfolding hs'_def by (simp only: if_False append_Nil2)
    with sp show ?thesis by simp
  qed
qed

lemma window_log_spaced:
  assumes "knows k now0 hs l" and "spaced (lm_duration l) (lm_maximum l) hs" and "0 < lm_duration l" and "lm_maximum l \<le> u32_max"
    and "sorted (now0 # map fst as)"
  shows "spaced (lm_duration l) (lm_maximum l) (hs @ window_log k l as)"
  using assms
proof (induction as arbitrary: now0 hs l)
  case (Cons a as)
  obtain now k' where a: "a = (now, k')" by force
  obtain b l' where al: "allow now k' l = (b, l')" by force
  have "now0 \<le> now" using Cons.prems(5) a by simp
  note st = allow_knows [OF Cons.prems(1) this Cons.prems(2,3,4) al]
  have "spaced (lm_duration l') (lm_maximum l') ((hs @ (if b \<and> k' = k then [(now, started_at (window_at now k l))] else [])) @ window_log k l' as)"
    by (rule Cons.IH [OF st(1)]) (use st Cons.prems(3-5) a in simp_all)
  then show ?case using st(3,4) by (simp add: a al)
qed simp

text \<open>
  C12: a limiter admits at most twice its maximum in any minute. For every client, every interval of sixty seconds and every sequence of
  attempts of all clients that reach the limiter in the order of their instants, at most \<open>2 * n\<close> attempts of the client in the interval
  are admitted, also when windows of other clients are swept away in between.
\<close>

theorem admissions_in_any_minute:
  assumes "n \<le> u32_max" and "sorted (map fst as)"
  shows "length (filter (\<lambda>t. a \<le> t \<and> t < a + 60 * 1000000000) (admissions k (per_minute n) as)) \<le> 2 * n"
proof -
  let ?hs = "window_log k (per_minute n) as"
  have "knows k 0 [] (per_minute n)" by (simp add: knows_def knows_window_def per_minute_def)
  moreover have "spaced (lm_duration (per_minute n)) (lm_maximum (per_minute n)) []" by (simp add: spaced_def in_window_def)
  ultimately have "spaced (60 * 1000000000) n ?hs"
    using window_log_spaced [of k 0 "[]" "per_minute n" as] assms by (simp add: per_minute_def)
  from two_windows [OF this, of a] show ?thesis
    by (simp add: admissions_window_log filter_map comp_def case_prod_unfold)
qed

theorem admissions_in_any_minute_witness:
  "admissions None (per_minute 1) [(0, None), (1, None), (1, Some ''p''), (60000000000, None)] = [0, 60000000000] \<and>
   length (filter (\<lambda>t. 1 \<le> t \<and> t < 1 + 60 * 1000000000) [0, 60000000000 :: nat]) \<le> 2 * 1"
proof -
  have "admissions None (per_minute 1) [(0, None), (1, None), (1, Some ''p''), (60000000000, None)] = [0, 60000000000]"
    by (simp add: allow_def window_at_def retained_windows_def per_minute_def u32_max_def Let_def)
  moreover have "(1::nat) \<le> u32_max" by (simp add: u32_max_def)
  ultimately show ?thesis
    using admissions_in_any_minute [of 1 "[(0, None), (1, None), (1, Some ''p''), (60000000000, None)]" 1 None] by simp
qed

end
