(* ===== verification/Host_Connections.thy ===== *)
theory Host_Connections
  imports Wire_Protocol "HOL-Library.AList"
begin

text \<open>
  The connections of the gateway to the daemons of registered hosts
  (\<open>execution/apps/execution-gateway/src/host_connections.rs\<close>). Calls, arriving responses and changes of the registry run
  concurrently; every access to a lock, a channel or a semaphore is a step of its own. A call holds the connection
  that it found, also when the registry no longer does.
\<close>

section \<open>State\<close>

datatype host_connection_error = HostOffline | DuplicateRequest | HostBusy | HostDisconnected | HostTimeout

datatype gateway_host_message = WelcomeMessage nat | RequestMessage request_envelope | DisconnectMessage string string

text \<open>\<open>cn_pending\<close> maps request identifiers to waiting calls; \<open>cn_open\<close> says that the receiver of the outbox lives.\<close>

record connection =
  cn_id :: string
  cn_pending :: "(string \<times> nat) list"
  cn_permits :: nat
  cn_outbox :: "gateway_host_message list"
  cn_open :: bool

text \<open>The channel on which a call waits for its response; \<open>SlotTaken\<close>: its sender has left the map and is about to send.\<close>

datatype slot = SlotOpen | SlotTaken response_envelope | SlotValue response_envelope | SlotClosed

datatype call_phase =
    Found | Permitted | Entered | Unsent host_connection_error | Sent | Expired | Abandoned
  | Returned "host_connection_error + response_envelope"

record call =
  cl_request :: request_envelope
  cl_connection :: nat
  cl_phase :: call_phase
  cl_slot :: slot

text \<open>
  \<open>rg_failing\<close> are connections taken out of the registry whose pending calls are yet to fail, with the message for their daemon;
  \<open>rg_parting\<close> are those whose message is yet to be sent; \<open>rg_completing\<close> are responses whose connection has been looked up. \<open>rg_received\<close> and \<open>rg_sent\<close> record
  what came in and went out.
\<close>

record registry =
  rg_active :: "(string \<times> nat) list"
  rg_connections :: "connection list"
  rg_calls :: "call list"
  rg_failing :: "(nat \<times> gateway_host_message option) list"
  rg_parting :: "(nat \<times> gateway_host_message) list"
  rg_completing :: "(nat \<times> response_envelope) list"
  rg_received :: "(string \<times> response_envelope) set"
  rg_sent :: "(nat \<times> request_envelope) set"

definition registry_new :: registry where
  "registry_new = \<lparr>rg_active = [], rg_connections = [], rg_calls = [], rg_failing = [], rg_parting = [], rg_completing = [],
     rg_received = {}, rg_sent = {}\<rparr>"

definition on_connection :: "nat \<Rightarrow> (connection \<Rightarrow> connection) \<Rightarrow> registry \<Rightarrow> registry" where
  "on_connection c f st = st\<lparr>rg_connections := (rg_connections st)[c := f (rg_connections st ! c)]\<rparr>"

definition on_call :: "nat \<Rightarrow> (call \<Rightarrow> call) \<Rightarrow> registry \<Rightarrow> registry" where
  "on_call t f st = st\<lparr>rg_calls := (rg_calls st)[t := f (rg_calls st ! t)]\<rparr>"

definition outbox_capacity :: nat where "outbox_capacity = 128"

section \<open>The registry\<close>

definition connection_new :: "nat \<Rightarrow> string \<Rightarrow> connection" where
  "connection_new max_in_flight i = \<lparr>cn_id = i, cn_pending = [], cn_permits = max_in_flight, cn_outbox = [], cn_open = True\<rparr>"

definition failing_of :: "nat option \<Rightarrow> gateway_host_message option \<Rightarrow> (nat \<times> gateway_host_message option) list" where
  "failing_of previous m = (case previous of Some c \<Rightarrow> [(c, m)] | None \<Rightarrow> [])"

definition replaced_message :: gateway_host_message where
  "replaced_message = DisconnectMessage ''CONNECTION_REPLACED'' ''a newer authenticated connection replaced this one''"

definition register_connection :: "nat \<Rightarrow> string \<Rightarrow> string \<Rightarrow> registry \<Rightarrow> registry" where
  "register_connection max_in_flight hst i st =
     st\<lparr>rg_connections := rg_connections st @ [connection_new max_in_flight i],
        rg_active := AList.update hst (length (rg_connections st)) (rg_active st),
        rg_failing := rg_failing st @ failing_of (map_of (rg_active st) hst) (Some replaced_message)\<rparr>"

definition unregister_connection :: "string \<Rightarrow> string \<Rightarrow> registry \<Rightarrow> bool \<times> registry" where
  "unregister_connection hst i st = (case map_of (rg_active st) hst of
     Some c \<Rightarrow>
       if cn_id (rg_connections st ! c) = i
       then (True, st\<lparr>rg_active := AList.delete hst (rg_active st), rg_failing := rg_failing st @ failing_of (Some c) None\<rparr>)
       else (False, st)
   | None \<Rightarrow> (False, st))"

definition is_connected :: "string \<Rightarrow> registry \<Rightarrow> bool" where
  "is_connected hst st \<longleftrightarrow> hst \<in> fst ` set (rg_active st)"

definition disconnect_host :: "string \<Rightarrow> string \<Rightarrow> string \<Rightarrow> registry \<Rightarrow> registry" where
  "disconnect_host hst c m st =
     st\<lparr>rg_active := AList.delete hst (rg_active st),
        rg_failing := rg_failing st @ failing_of (map_of (rg_active st) hst) (Some (DisconnectMessage c m))\<rparr>"

text \<open>Removing an entry drops its sender, which closes the channel.\<close>

definition close_slots :: "nat set \<Rightarrow> call list \<Rightarrow> call list" where
  "close_slots ts cs = map (\<lambda>(t, cl). if t \<in> ts then cl\<lparr>cl_slot := SlotClosed\<rparr> else cl) (enumerate 0 cs)"

definition try_send :: "gateway_host_message \<Rightarrow> connection \<Rightarrow> host_connection_error option \<times> connection" where
  "try_send m cn =
     (if \<not> cn_open cn then (Some HostDisconnected, cn)
      else if outbox_capacity \<le> length (cn_outbox cn) then (Some HostBusy, cn)
      else (None, cn\<lparr>cn_outbox := cn_outbox cn @ [m]\<rparr>))"

definition fail_pending :: "nat \<Rightarrow> gateway_host_message option \<Rightarrow> registry \<Rightarrow> registry" where
  "fail_pending c m st =
     on_connection c (\<lambda>cn. cn\<lparr>cn_pending := []\<rparr>)
       (st\<lparr>rg_failing := remove1 (c, m) (rg_failing st),
           rg_parting := rg_parting st @ (case m of None \<Rightarrow> [] | Some d \<Rightarrow> [(c, d)]),
           rg_calls := close_slots (snd ` set (cn_pending (rg_connections st ! c))) (rg_calls st)\<rparr>)"

definition send_parting :: "nat \<Rightarrow> gateway_host_message \<Rightarrow> registry \<Rightarrow> registry" where
  "send_parting c d st = on_connection c (\<lambda>cn. snd (try_send d cn)) (st\<lparr>rg_parting := remove1 (c, d) (rg_parting st)\<rparr>)"

text \<open>Taking an entry out of the map: its sender is dropped, or it becomes the sender of \<open>slt\<close>.\<close>

definition take_pending :: "nat \<Rightarrow> string \<Rightarrow> slot \<Rightarrow> registry \<Rightarrow> registry" where
  "take_pending c i slt st = (case map_of (cn_pending (rg_connections st ! c)) i of
     None \<Rightarrow> st
   | Some t \<Rightarrow> on_call t (\<lambda>cl. cl\<lparr>cl_slot := slt\<rparr>) (on_connection c (\<lambda>cn. cn\<lparr>cn_pending := AList.delete i (cn_pending cn)\<rparr>) st))"

definition remove_pending :: "nat \<Rightarrow> string \<Rightarrow> registry \<Rightarrow> registry" where
  "remove_pending c i = take_pending c i SlotClosed"

text \<open>The welcome message that the socket of a connection queues once the database has the connection.\<close>

definition queue_welcome :: "nat \<Rightarrow> nat \<Rightarrow> registry \<Rightarrow> registry" where
  "queue_welcome c heartbeat = on_connection c (\<lambda>cn. cn\<lparr>cn_outbox := cn_outbox cn @ [WelcomeMessage heartbeat]\<rparr>)"

section \<open>A call\<close>

definition release_permit :: "nat \<Rightarrow> registry \<Rightarrow> registry" where
  "release_permit c = on_connection c (\<lambda>cn. cn\<lparr>cn_permits := cn_permits cn + 1\<rparr>)"

definition put_phase :: "nat \<Rightarrow> call_phase \<Rightarrow> registry \<Rightarrow> registry" where
  "put_phase t p = on_call t (\<lambda>cl. cl\<lparr>cl_phase := p\<rparr>)"

definition return_call :: "nat \<Rightarrow> (host_connection_error + response_envelope) \<Rightarrow> registry \<Rightarrow> registry" where
  "return_call t r st = put_phase t (Returned r) (release_permit (cl_connection (rg_calls st ! t)) st)"

definition execute_find :: "string \<Rightarrow> request_envelope \<Rightarrow> registry \<Rightarrow> host_connection_error + registry" where
  "execute_find hst q st = (case map_of (rg_active st) hst of
     None \<Rightarrow> Inl HostOffline
   | Some c \<Rightarrow> Inr (st\<lparr>rg_calls := rg_calls st @ [\<lparr>cl_request = q, cl_connection = c, cl_phase = Found, cl_slot = SlotOpen\<rparr>]\<rparr>))"

definition execute_permit :: "nat \<Rightarrow> registry \<Rightarrow> registry" where
  "execute_permit t st =
     (let c = cl_connection (rg_calls st ! t) in
      if cn_permits (rg_connections st ! c) = 0 then put_phase t (Returned (Inl HostBusy)) st
      else put_phase t Permitted (on_connection c (\<lambda>cn. cn\<lparr>cn_permits := cn_permits cn - 1\<rparr>) st))"

definition execute_enter :: "nat \<Rightarrow> registry \<Rightarrow> registry" where
  "execute_enter t st =
     (let c = cl_connection (rg_calls st ! t); i = rq_request_id (cl_request (rg_calls st ! t)) in
      if i \<in> fst ` set (cn_pending (rg_connections st ! c)) then return_call t (Inl DuplicateRequest) st
      else put_phase t Entered (on_connection c (\<lambda>cn. cn\<lparr>cn_pending := (i, t) # cn_pending cn\<rparr>) st))"

definition execute_send :: "nat \<Rightarrow> registry \<Rightarrow> registry" where
  "execute_send t st =
     (let c = cl_connection (rg_calls st ! t); q = cl_request (rg_calls st ! t) in
      case try_send (RequestMessage q) (rg_connections st ! c) of
        (Some e, _) \<Rightarrow> put_phase t (Unsent e) st
      | (None, cn) \<Rightarrow> put_phase t Sent (on_connection c (\<lambda>_. cn) (st\<lparr>rg_sent := insert (c, q) (rg_sent st)\<rparr>)))"

definition execute_unsend :: "nat \<Rightarrow> host_connection_error \<Rightarrow> registry \<Rightarrow> registry" where
  "execute_unsend t e st =
     return_call t (Inl e) (remove_pending (cl_connection (rg_calls st ! t)) (rq_request_id (cl_request (rg_calls st ! t))) st)"

definition execute_receive :: "nat \<Rightarrow> registry \<Rightarrow> registry" where
  "execute_receive t st = (case cl_slot (rg_calls st ! t) of
     SlotOpen \<Rightarrow> st
   | SlotTaken _ \<Rightarrow> st
   | SlotValue r \<Rightarrow> return_call t (Inr r) st
   | SlotClosed \<Rightarrow> return_call t (Inl HostDisconnected) st)"

text \<open>
  The timer of a call fires while its channel is empty. A call whose future is dropped, when its HTTP client goes away,
  gives its permit back and leaves its entry in the map.
\<close>

definition execute_expire :: "nat \<Rightarrow> registry \<Rightarrow> registry" where
  "execute_expire t st = (case cl_slot (rg_calls st ! t) of
     SlotOpen \<Rightarrow> put_phase t Expired st
   | SlotTaken _ \<Rightarrow> put_phase t Expired st
   | _ \<Rightarrow> st)"

definition abandon_call :: "nat \<Rightarrow> registry \<Rightarrow> registry" where
  "abandon_call t st = put_phase t Abandoned (release_permit (cl_connection (rg_calls st ! t)) st)"

section \<open>A response\<close>

definition complete_find :: "string \<Rightarrow> string \<Rightarrow> response_envelope \<Rightarrow> registry \<Rightarrow> registry" where
  "complete_find hst i r st =
     (let st1 = st\<lparr>rg_received := insert (i, r) (rg_received st)\<rparr> in
      case map_of (rg_active st) hst of
        None \<Rightarrow> st1
      | Some c \<Rightarrow> if cn_id (rg_connections st ! c) = i then st1\<lparr>rg_completing := rg_completing st @ [(c, r)]\<rparr> else st1)"

definition complete_take :: "nat \<Rightarrow> response_envelope \<Rightarrow> registry \<Rightarrow> registry" where
  "complete_take c r st =
     take_pending c (response_request_id r) (SlotTaken r) (st\<lparr>rg_completing := remove1 (c, r) (rg_completing st)\<rparr>)"

definition complete_send :: "nat \<Rightarrow> registry \<Rightarrow> registry" where
  "complete_send t st = (case cl_slot (rg_calls st ! t) of
     SlotTaken r \<Rightarrow> on_call t (\<lambda>cl. cl\<lparr>cl_slot := SlotValue r\<rparr>) st
   | _ \<Rightarrow> st)"

section \<open>Steps\<close>

inductive registry_step :: "nat \<Rightarrow> registry \<Rightarrow> registry \<Rightarrow> bool" for max_in_flight where
  register: "registry_step max_in_flight st (register_connection max_in_flight hst i st)"
| unregister: "unregister_connection hst i st = (b, st') \<Longrightarrow> registry_step max_in_flight st st'"
| disconnect: "registry_step max_in_flight st (disconnect_host hst c m st)"
| failing: "(c, m) \<in> set (rg_failing st) \<Longrightarrow> registry_step max_in_flight st (fail_pending c m st)"
| find: "execute_find hst q st = Inr st' \<Longrightarrow> registry_step max_in_flight st st'"
| permit: "t < length (rg_calls st) \<Longrightarrow> cl_phase (rg_calls st ! t) = Found \<Longrightarrow> registry_step max_in_flight st (execute_permit t st)"
| enter: "t < length (rg_calls st) \<Longrightarrow> cl_phase (rg_calls st ! t) = Permitted \<Longrightarrow> registry_step max_in_flight st (execute_enter t st)"
| send: "t < length (rg_calls st) \<Longrightarrow> cl_phase (rg_calls st ! t) = Entered \<Longrightarrow> registry_step max_in_flight st (execute_send t st)"
| unsend: "t < length (rg_calls st) \<Longrightarrow> cl_phase (rg_calls st ! t) = Unsent e \<Longrightarrow> registry_step max_in_flight st (execute_unsend t e st)"
| receive: "t < length (rg_calls st) \<Longrightarrow> cl_phase (rg_calls st ! t) = Sent \<Longrightarrow> registry_step max_in_flight st (execute_receive t st)"
| expire: "t < length (rg_calls st) \<Longrightarrow> cl_phase (rg_calls st ! t) = Sent \<Longrightarrow> registry_step max_in_flight st (execute_expire t st)"
| expired: "t < length (rg_calls st) \<Longrightarrow> cl_phase (rg_calls st ! t) = Expired \<Longrightarrow> registry_step max_in_flight st (execute_unsend t HostTimeout st)"
| abandon: "t < length (rg_calls st) \<Longrightarrow> cl_phase (rg_calls st ! t) = Sent \<Longrightarrow> registry_step max_in_flight st (abandon_call t st)"
| response: "registry_step max_in_flight st (complete_find hst i r st)"
| deliver: "(c, r) \<in> set (rg_completing st) \<Longrightarrow> registry_step max_in_flight st (complete_take c r st)"
| complete: "t < length (rg_calls st) \<Longrightarrow> registry_step max_in_flight st (complete_send t st)"
| parting: "(c, d) \<in> set (rg_parting st) \<Longrightarrow> registry_step max_in_flight st (send_parting c d st)"
| welcomed: "c < length (rg_connections st) \<Longrightarrow> length (cn_outbox (rg_connections st ! c)) < outbox_capacity \<Longrightarrow>
    registry_step max_in_flight st (queue_welcome c heartbeat st)"
| drain: "c < length (rg_connections st) \<Longrightarrow> registry_step max_in_flight st (on_connection c (\<lambda>cn. cn\<lparr>cn_outbox := tl (cn_outbox cn)\<rparr>) st)"
| close: "c < length (rg_connections st) \<Longrightarrow> registry_step max_in_flight st (on_connection c (\<lambda>cn. cn\<lparr>cn_open := False\<rparr>) st)"

inductive registry_run :: "nat \<Rightarrow> registry \<Rightarrow> bool" for max_in_flight where
  new: "registry_run max_in_flight registry_new"
| run_step: "registry_run max_in_flight st \<Longrightarrow> registry_step max_in_flight st st' \<Longrightarrow> registry_run max_in_flight st'"

section \<open>Invariants\<close>

definition holds_permit :: "call_phase \<Rightarrow> bool" where
  "holds_permit p \<longleftrightarrow> (case p of Found \<Rightarrow> False | Abandoned \<Rightarrow> False | Returned _ \<Rightarrow> False | _ \<Rightarrow> True)"

definition waiting :: "call_phase \<Rightarrow> bool" where
  "waiting p \<longleftrightarrow> (case p of Found \<Rightarrow> False | Permitted \<Rightarrow> False | Returned _ \<Rightarrow> False | _ \<Rightarrow> True)"

definition waiting_calls :: "nat \<Rightarrow> call list \<Rightarrow> (string \<times> nat) set" where
  "waiting_calls c cs = {(rq_request_id (cl_request (cs ! t)), t) | t. t < length cs \<and> cl_connection (cs ! t) = c \<and>
     waiting (cl_phase (cs ! t)) \<and> cl_slot (cs ! t) = SlotOpen}"

definition in_flight :: "nat \<Rightarrow> call list \<Rightarrow> nat" where
  "in_flight c cs = length (filter (\<lambda>cl. cl_connection cl = c \<and> holds_permit (cl_phase cl)) cs)"

definition correlated :: "registry \<Rightarrow> call \<Rightarrow> response_envelope \<Rightarrow> bool" where
  "correlated st cl r \<longleftrightarrow> response_request_id r = rq_request_id (cl_request cl) \<and> (cn_id (rg_connections st ! cl_connection cl), r) \<in> rg_received st"

definition sent_call :: "registry \<Rightarrow> call \<Rightarrow> bool" where
  "sent_call st cl \<longleftrightarrow> (cl_connection cl, cl_request cl) \<in> rg_sent st"

definition call_ok :: "registry \<Rightarrow> call \<Rightarrow> bool" where
  "call_ok st cl \<longleftrightarrow> cl_connection cl < length (rg_connections st) \<and>
     (\<forall>r. cl_slot cl = SlotTaken r \<or> cl_slot cl = SlotValue r \<longrightarrow> correlated st cl r) \<and>
     (\<forall>r. cl_phase cl = Returned (Inr r) \<longrightarrow> correlated st cl r \<and> sent_call st cl) \<and>
     (cl_phase cl \<in> {Sent, Expired, Abandoned} \<longrightarrow> sent_call st cl) \<and>
     (cl_phase cl = Found \<or> cl_phase cl = Permitted \<longrightarrow> cl_slot cl = SlotOpen)"

definition connection_refs :: "registry \<Rightarrow> nat set" where
  "connection_refs st = snd ` set (rg_active st) \<union> fst ` set (rg_failing st) \<union> fst ` set (rg_parting st) \<union> fst ` set (rg_completing st)"

definition refs_ok :: "registry \<Rightarrow> bool" where
  "refs_ok st \<longleftrightarrow> connection_refs st \<subseteq> {..<length (rg_connections st)} \<and>
     (\<forall>(c, r) \<in> set (rg_completing st). (cn_id (rg_connections st ! c), r) \<in> rg_received st)"

definition pending_exact :: "registry \<Rightarrow> bool" where
  "pending_exact st \<longleftrightarrow> (\<forall>c < length (rg_connections st). distinct (map fst (cn_pending (rg_connections st ! c))) \<and>
     set (cn_pending (rg_connections st ! c)) = waiting_calls c (rg_calls st))"

definition permits_exact :: "nat \<Rightarrow> registry \<Rightarrow> bool" where
  "permits_exact max_in_flight st \<longleftrightarrow>
     (\<forall>c < length (rg_connections st). cn_permits (rg_connections st ! c) + in_flight c (rg_calls st) = max_in_flight)"

definition registry_inv :: "nat \<Rightarrow> registry \<Rightarrow> bool" where
  "registry_inv max_in_flight st \<longleftrightarrow> refs_ok st \<and> (\<forall>cl \<in> set (rg_calls st). call_ok st cl) \<and> pending_exact st \<and> permits_exact max_in_flight st"

subsection \<open>Lists of calls\<close>

lemma filter_update: "t < length xs \<Longrightarrow>
    length (filter P (xs[t := y])) + (if P (xs ! t) then 1 else 0) = length (filter P xs) + (if P y then 1 else 0)"
proof (induction xs arbitrary: t)
  case (Cons x xs)
  then show ?case by (cases t) auto
qed simp

lemma in_flight_update: "t < length cs \<Longrightarrow> cl_connection y = cl_connection (cs ! t) \<Longrightarrow>
    in_flight c (cs[t := y]) + (if cl_connection y = c \<and> holds_permit (cl_phase (cs ! t)) then 1 else 0) =
    in_flight c cs + (if cl_connection y = c \<and> holds_permit (cl_phase y) then 1 else 0)"
  using filter_update [of t cs "\<lambda>cl. cl_connection cl = c \<and> holds_permit (cl_phase cl)" y] by (simp add: in_flight_def)

lemma length_close_slots [simp]: "length (close_slots ts cs) = length cs"
  by (simp add: close_slots_def)

lemma nth_close_slots [simp]:
  "t < length cs \<Longrightarrow> close_slots ts cs ! t = (if t \<in> ts then (cs ! t)\<lparr>cl_slot := SlotClosed\<rparr> else cs ! t)"
  by (simp add: close_slots_def nth_enumerate_eq)

lemma in_flight_close_slots [simp]: "in_flight c (close_slots ts cs) = in_flight c cs"
proof -
  have "length (filter (\<lambda>cl. cl_connection cl = c \<and> holds_permit (cl_phase cl))
      (map (\<lambda>(t, cl). if t \<in> ts then cl\<lparr>cl_slot := SlotClosed\<rparr> else cl) (enumerate n cs))) =
    length (filter (\<lambda>cl. cl_connection cl = c \<and> holds_permit (cl_phase cl)) cs)" for n
    by (induction cs arbitrary: n) simp_all
  then show ?thesis by (simp add: in_flight_def close_slots_def)
qed

lemma waiting_calls_iff: "(i, t) \<in> waiting_calls c cs \<longleftrightarrow> t < length cs \<and> cl_connection (cs ! t) = c \<and>
    waiting (cl_phase (cs ! t)) \<and> cl_slot (cs ! t) = SlotOpen \<and> i = rq_request_id (cl_request (cs ! t))"
  by (auto simp: waiting_calls_def)

lemma waiting_calls_close: "(i, t) \<in> waiting_calls c (close_slots ts cs) \<longleftrightarrow> (i, t) \<in> waiting_calls c cs \<and> t \<notin> ts"
  by (cases "t < length cs") (simp_all add: waiting_calls_iff)

lemma waiting_calls_update:
  assumes "t < length cs" and "cl_connection y = cl_connection (cs ! t)" and "cl_request y = cl_request (cs ! t)"
  shows "(i, t') \<in> waiting_calls c (cs[t := y]) \<longleftrightarrow>
     (if t' = t then cl_connection y = c \<and> waiting (cl_phase y) \<and> cl_slot y = SlotOpen \<and> i = rq_request_id (cl_request y)
      else (i, t') \<in> waiting_calls c cs)"
  using assms(1) by (cases "t' = t") (simp_all add: waiting_calls_iff)

lemma waiting_calls_append: "(i, t) \<in> waiting_calls c (cs @ [y]) \<longleftrightarrow> (i, t) \<in> waiting_calls c cs \<or>
    t = length cs \<and> cl_connection y = c \<and> waiting (cl_phase y) \<and> cl_slot y = SlotOpen \<and> i = rq_request_id (cl_request y)"
  by (cases "t < length cs"; cases "t = length cs") (simp_all add: waiting_calls_iff nth_append)

subsection \<open>Preservation\<close>

lemma call_ok_mono:
  assumes "call_ok st cl" and "length (rg_connections st) \<le> length (rg_connections st')"
    and "\<And>c. c < length (rg_connections st) \<Longrightarrow> cn_id (rg_connections st' ! c) = cn_id (rg_connections st ! c)" and "rg_received st \<subseteq> rg_received st'" and "rg_sent st \<subseteq> rg_sent st'"
  shows "call_ok st' cl"
  using assms by (auto simp: call_ok_def correlated_def sent_call_def)

lemma call_ok_closed: "call_ok st cl \<Longrightarrow> waiting (cl_phase cl) \<Longrightarrow> call_ok st (cl\<lparr>cl_slot := SlotClosed\<rparr>)"
  by (auto simp: call_ok_def correlated_def sent_call_def waiting_def)

lemma refs_okI:
  assumes ok: "refs_ok st" and "connection_refs st' \<subseteq> {..<length (rg_connections st')}" and sub: "set (rg_completing st') \<subseteq> set (rg_completing st)"
    and ids: "\<And>c. c < length (rg_connections st) \<Longrightarrow> cn_id (rg_connections st' ! c) = cn_id (rg_connections st ! c)" and rcv: "rg_received st \<subseteq> rg_received st'"
  shows "refs_ok st'"
proof -
  have "(cn_id (rg_connections st' ! c), r) \<in> rg_received st'" if x: "(c, r) \<in> set (rg_completing st')" for c r
  proof -
    have r: "(c, r) \<in> set (rg_completing st)" using x sub by blast
    then have "c \<in> connection_refs st" by (force simp: connection_refs_def)
    then have "c < length (rg_connections st)" using ok by (auto simp: refs_ok_def)
    with ids r ok rcv show ?thesis by (auto simp: refs_ok_def)
  qed
  with assms(2) show ?thesis by (auto simp: refs_ok_def)
qed

text \<open>One call, and its connection, moves: the rest of the state is kept.\<close>

lemma inv_call_moves:
  assumes inv: "registry_inv n st" and t: "t < length (rg_calls st)"
    and same: "cl_connection y = cl_connection (rg_calls st ! t)" "cl_request y = cl_request (rg_calls st ! t)"
    and c: "c = cl_connection y" and i: "cn_id cn = cn_id (rg_connections st ! c)"
    and dist: "distinct (map fst (cn_pending cn))"
    and entries: "\<And>i t'. (i, t') \<in> set (cn_pending cn) \<longleftrightarrow>
       (if t' = t then waiting (cl_phase y) \<and> cl_slot y = SlotOpen \<and> i = rq_request_id (cl_request y)
        else (i, t') \<in> set (cn_pending (rg_connections st ! c)))"
    and permits: "cn_permits cn + (if holds_permit (cl_phase y) then 1 else 0) =
       cn_permits (rg_connections st ! c) + (if holds_permit (cl_phase (rg_calls st ! t)) then 1 else 0)"
    and st': "rg_calls st' = (rg_calls st)[t := y]" "rg_connections st' = (rg_connections st)[c := cn]"
       "rg_active st' = rg_active st" "rg_failing st' = rg_failing st" "rg_parting st' = rg_parting st"
       "set (rg_completing st') \<subseteq> set (rg_completing st)" "rg_received st' = rg_received st" "rg_sent st \<subseteq> rg_sent st'"
    and ok: "call_ok st' y"
  shows "registry_inv n st'"
  unfolding registry_inv_def
proof (intro conjI ballI)
  note invs = inv [unfolded registry_inv_def]
  have ids: "cn_id (rg_connections st' ! k) = cn_id (rg_connections st ! k)" for k
    using i by (cases "k = c"; cases "c < length (rg_connections st)") (simp_all add: st'(2) list_update_beyond)
  have length_kept: "length (rg_connections st') = length (rg_connections st)" by (simp add: st'(2))
  have "connection_refs st' \<subseteq> connection_refs st"
    using image_mono [OF st'(6), of fst] by (simp add: connection_refs_def st'(3-5) le_supI2)
  then show "refs_ok st'" using invs st'(6) unfolding refs_ok_def st'(7) length_kept ids by (auto simp: st'(2))
  fix cl assume "cl \<in> set (rg_calls st')"
  then have "cl = y \<or> cl \<in> set (rg_calls st)" using set_update_subset_insert [of "rg_calls st" t y] st'(1) by auto
  then show "call_ok st' cl" using ok invs call_ok_mono [of st cl st'] ids st' by auto
next
  note invs = inv [unfolded registry_inv_def]
  have "c < length (rg_connections st)" using invs t same c by (simp add: call_ok_def)
  show "pending_exact st'" unfolding pending_exact_def
  proof (intro allI impI conjI)
    fix c' assume c': "c' < length (rg_connections st')"
    then show "distinct (map fst (cn_pending (rg_connections st' ! c')))"
      using invs dist st'(2) unfolding pending_exact_def by (cases "c' = c") simp_all
    have "(i, t') \<in> set (cn_pending (rg_connections st' ! c')) \<longleftrightarrow> (i, t') \<in> waiting_calls c' (rg_calls st')" for i t'
    proof (cases "c' = c")
      case True
      then show ?thesis using c' invs st'(1,2) entries c waiting_calls_update [OF t same, of i t' c']
        unfolding pending_exact_def by simp
    next
      case False
      then show ?thesis using c' invs st'(1,2) c waiting_calls_update [OF t same, of i t' c'] same
        unfolding pending_exact_def by (simp add: waiting_calls_iff)
    qed
    then show "set (cn_pending (rg_connections st' ! c')) = waiting_calls c' (rg_calls st')" by auto
  qed
  show "permits_exact n st'" unfolding permits_exact_def
  proof (intro allI impI)
    fix c' assume c': "c' < length (rg_connections st')"
    then have "cn_permits (rg_connections st ! c') + in_flight c' (rg_calls st) = n"
      using invs st'(2) by (simp add: permits_exact_def)
    then show "cn_permits (rg_connections st' ! c') + in_flight c' (rg_calls st') = n"
      using c' in_flight_update [OF t same(1), of c'] permits c st'(1,2) by (cases "c' = c") (auto split: if_splits)
  qed
qed

lemma pending_entry:
  assumes "registry_inv n st" "c < length (rg_connections st)"
  shows "(i, t) \<in> set (cn_pending (rg_connections st ! c)) \<longleftrightarrow> (i, t) \<in> waiting_calls c (rg_calls st)"
    and "distinct (map fst (cn_pending (rg_connections st ! c)))"
  using assms by (simp_all add: registry_inv_def pending_exact_def)

lemma call_in_range:
  assumes "registry_inv n st" "t < length (rg_calls st)"
  shows "call_ok st (rg_calls st ! t)" "cl_connection (rg_calls st ! t) < length (rg_connections st)"
  using assms by (simp_all add: registry_inv_def call_ok_def)

lemma inv_take_pending:
  assumes inv: "registry_inv n st" and c: "c < length (rg_connections st)"
    and slt: "slt = SlotClosed \<or> (\<exists>r. slt = SlotTaken r \<and> response_request_id r = i \<and> (cn_id (rg_connections st ! c), r) \<in> rg_received st)"
  shows "registry_inv n (take_pending c i slt st)"
proof (cases "map_of (cn_pending (rg_connections st ! c)) i")
  case None
  then show ?thesis using inv by (simp add: take_pending_def)
next
  case (Some t)
  let ?p = "cn_pending (rg_connections st ! c)" and ?cl = "rg_calls st ! t"
  note entry = pending_entry [OF inv c]
  have at: "(i, t) \<in> set ?p" using Some by (rule map_of_SomeD)
  then have w: "t < length (rg_calls st)" "cl_connection ?cl = c" "waiting (cl_phase ?cl)" "i = rq_request_id (cl_request ?cl)"
    using entry(1) by (simp_all add: waiting_calls_iff)
  have deleted: "(i', t') \<in> set (AList.delete i ?p) \<longleftrightarrow> (if t' = t then False else (i', t') \<in> set ?p)" for i' t'
  proof (cases "t' = t")
    case True
    then show ?thesis using w(4) entry(1) by (auto simp: AList.delete_eq waiting_calls_iff)
  next
    case False
    then show ?thesis using entry(2) at by (auto simp: AList.delete_eq dest: eq_key_imp_eq_value)
  qed
  let ?st = "take_pending c i slt st"
  have calls: "rg_calls ?st = (rg_calls st)[t := ?cl\<lparr>cl_slot := slt\<rparr>]"
    and conns: "rg_connections ?st = (rg_connections st)[c := (rg_connections st ! c)\<lparr>cn_pending := AList.delete i ?p\<rparr>]"
    using Some by (simp_all add: take_pending_def on_call_def on_connection_def)
  have ok: "call_ok ?st (?cl\<lparr>cl_slot := slt\<rparr>)"
    using call_in_range(1) [OF inv w(1)] slt w Some
    by (auto simp: call_ok_def correlated_def sent_call_def take_pending_def on_call_def on_connection_def waiting_def)
  show ?thesis
    by (rule inv_call_moves [OF inv w(1), where c = c, OF _ _ _ _ _ _ _ calls conns _ _ _ _ _ _ ok])
      (use w(2) slt Some deleted entry(2) in \<open>auto simp: distinct_delete take_pending_def on_call_def on_connection_def\<close>)
qed

lemma inv_return:
  assumes inv: "registry_inv n st" and t: "t < length (rg_calls st)" and p: "holds_permit (cl_phase (rg_calls st ! t))"
    and open_slot: "cl_slot (rg_calls st ! t) = SlotOpen \<longrightarrow> \<not> waiting (cl_phase (rg_calls st ! t))"
    and r: "\<And>x. r = Inr x \<Longrightarrow> cl_slot (rg_calls st ! t) = SlotValue x \<and> cl_phase (rg_calls st ! t) = Sent"
  shows "registry_inv n (return_call t r st)"
proof -
  let ?cl = "rg_calls st ! t" and ?st = "return_call t r st"
  let ?c = "cl_connection ?cl"
  note range = call_in_range [OF inv t]
  have calls: "rg_calls ?st = (rg_calls st)[t := ?cl\<lparr>cl_phase := Returned r\<rparr>]"
    and conns: "rg_connections ?st = (rg_connections st)[?c := (rg_connections st ! ?c)\<lparr>cn_permits := cn_permits (rg_connections st ! ?c) + 1\<rparr>]"
    by (simp_all add: return_call_def put_phase_def release_permit_def on_call_def on_connection_def)
  have ok: "call_ok ?st (?cl\<lparr>cl_phase := Returned r\<rparr>)"
    using range r by (auto simp: call_ok_def correlated_def sent_call_def return_call_def put_phase_def release_permit_def on_call_def on_connection_def)
  have gone: "(i, t) \<notin> set (cn_pending (rg_connections st ! ?c))" for i
    using open_slot pending_entry(1) [OF inv range(2)] by (auto simp: waiting_calls_iff)
  show ?thesis
    by (rule inv_call_moves [OF inv t, where c = ?c, OF _ _ _ _ _ _ _ calls conns _ _ _ _ _ _ ok])
      (use gone pending_entry(2) [OF inv range(2)] p in
        \<open>simp_all add: waiting_def holds_permit_def return_call_def put_phase_def release_permit_def on_call_def on_connection_def\<close>)
qed

lemma taken_slot:
  assumes inv: "registry_inv n st" and t: "t < length (rg_calls st)" and w: "waiting (cl_phase (rg_calls st ! t))" and slt: "slt \<noteq> SlotOpen"
  defines "st' \<equiv> take_pending (cl_connection (rg_calls st ! t)) (rq_request_id (cl_request (rg_calls st ! t))) slt st"
  shows "length (rg_calls st') = length (rg_calls st)" "cl_phase (rg_calls st' ! t) = cl_phase (rg_calls st ! t)"
    "cl_slot (rg_calls st' ! t) \<noteq> SlotOpen"
proof -
  let ?p = "cn_pending (rg_connections st ! cl_connection (rg_calls st ! t))" and ?i = "rq_request_id (cl_request (rg_calls st ! t))"
  note entry = pending_entry [OF inv call_in_range(2) [OF inv t]]
  show "length (rg_calls st') = length (rg_calls st)" "cl_phase (rg_calls st' ! t) = cl_phase (rg_calls st ! t)"
    by (cases "map_of ?p ?i"; cases "the (map_of ?p ?i) = t"; simp add: st'_def take_pending_def on_call_def on_connection_def t)+
  show "cl_slot (rg_calls st' ! t) \<noteq> SlotOpen"
  proof (cases "cl_slot (rg_calls st ! t) = SlotOpen")
    case True
    then have "(?i, t) \<in> set ?p" using entry(1) t w by (simp add: waiting_calls_iff)
    then have "map_of ?p ?i = Some t" using entry(2) by simp
    then show ?thesis using slt t by (simp add: st'_def take_pending_def on_call_def on_connection_def)
  next
    case False
    then show ?thesis using slt t
      by (cases "map_of ?p ?i"; cases "the (map_of ?p ?i) = t") (simp_all add: st'_def take_pending_def on_call_def on_connection_def)
  qed
qed

lemma inv_unsend:
  assumes inv: "registry_inv n st" and t: "t < length (rg_calls st)" and p: "waiting (cl_phase (rg_calls st ! t))" "holds_permit (cl_phase (rg_calls st ! t))"
  shows "registry_inv n (execute_unsend t e st)"
proof -
  note taken = taken_slot [OF inv t p(1), of SlotClosed, simplified]
  have inv': "registry_inv n (take_pending (cl_connection (rg_calls st ! t)) (rq_request_id (cl_request (rg_calls st ! t))) SlotClosed st)"
    using inv_take_pending [OF inv call_in_range(2) [OF inv t], of SlotClosed] by simp
  show ?thesis unfolding execute_unsend_def remove_pending_def
    by (rule inv_return [OF inv']) (use taken t p(2) in simp_all)
qed

lemma inv_phase:
  assumes inv: "registry_inv n st" and t: "t < length (rg_calls st)"
    and w: "waiting p = waiting (cl_phase (rg_calls st ! t))" and h: "holds_permit p = holds_permit (cl_phase (rg_calls st ! t))"
    and ok: "call_ok st ((rg_calls st ! t)\<lparr>cl_phase := p\<rparr>)"
  shows "registry_inv n (put_phase t p st)"
proof -
  let ?cl = "rg_calls st ! t" and ?st = "put_phase t p st"
  let ?c = "cl_connection ?cl"
  have calls: "rg_calls ?st = (rg_calls st)[t := ?cl\<lparr>cl_phase := p\<rparr>]" and conns: "rg_connections ?st = (rg_connections st)[?c := rg_connections st ! ?c]"
    by (simp_all add: put_phase_def on_call_def)
  have ok': "call_ok ?st (?cl\<lparr>cl_phase := p\<rparr>)"
    by (rule call_ok_mono [OF ok]) (simp_all add: put_phase_def on_call_def)
  note entry = pending_entry [OF inv call_in_range(2) [OF inv t]]
  show ?thesis
    by (rule inv_call_moves [OF inv t, where c = ?c, OF _ _ _ _ _ _ _ calls conns _ _ _ _ _ _ ok'])
      (use entry w h t in \<open>auto simp: put_phase_def on_call_def waiting_calls_iff\<close>)
qed

lemma inv_slot:
  assumes inv: "registry_inv n st" and t: "t < length (rg_calls st)" and slt: "slt \<noteq> SlotOpen" "cl_slot (rg_calls st ! t) \<noteq> SlotOpen"
    and ok: "call_ok st ((rg_calls st ! t)\<lparr>cl_slot := slt\<rparr>)"
  shows "registry_inv n (on_call t (\<lambda>cl. cl\<lparr>cl_slot := slt\<rparr>) st)"
proof -
  let ?cl = "rg_calls st ! t" and ?st = "on_call t (\<lambda>cl. cl\<lparr>cl_slot := slt\<rparr>) st"
  let ?c = "cl_connection ?cl"
  have calls: "rg_calls ?st = (rg_calls st)[t := ?cl\<lparr>cl_slot := slt\<rparr>]" and conns: "rg_connections ?st = (rg_connections st)[?c := rg_connections st ! ?c]"
    by (simp_all add: on_call_def)
  have ok': "call_ok ?st (?cl\<lparr>cl_slot := slt\<rparr>)"
    by (rule call_ok_mono [OF ok]) (simp_all add: on_call_def)
  note entry = pending_entry [OF inv call_in_range(2) [OF inv t]]
  show ?thesis
    by (rule inv_call_moves [OF inv t, where c = ?c, OF _ _ _ _ _ _ _ calls conns _ _ _ _ _ _ ok'])
      (use entry slt t in \<open>auto simp: on_call_def waiting_calls_iff\<close>)
qed

text \<open>Connections change in what no call depends on; calls stay.\<close>

lemma inv_connection_moves:
  assumes inv: "registry_inv n st" and c: "c < length (rg_connections st)"
    and f: "cn_pending (f (rg_connections st ! c)) = cn_pending (rg_connections st ! c)" "cn_permits (f (rg_connections st ! c)) = cn_permits (rg_connections st ! c)"
      "cn_id (f (rg_connections st ! c)) = cn_id (rg_connections st ! c)"
  shows "registry_inv n (on_connection c f st)"
proof -
  let ?st = "on_connection c f st"
  have kept: "cn_pending (rg_connections ?st ! c') = cn_pending (rg_connections st ! c')"
    "cn_permits (rg_connections ?st ! c') = cn_permits (rg_connections st ! c')"
    "cn_id (rg_connections ?st ! c') = cn_id (rg_connections st ! c')" for c'
    by (cases "c' = c"; simp add: on_connection_def c f)+
  have rest: "rg_calls ?st = rg_calls st" "length (rg_connections ?st) = length (rg_connections st)" "rg_completing ?st = rg_completing st"
    "rg_received ?st = rg_received st" "rg_sent ?st = rg_sent st" "connection_refs ?st = connection_refs st"
    by (simp_all add: on_connection_def connection_refs_def)
  have "pending_exact ?st" "permits_exact n ?st" "refs_ok ?st"
    using inv by (simp_all add: registry_inv_def pending_exact_def permits_exact_def refs_ok_def kept rest)
  moreover have "\<forall>cl \<in> set (rg_calls ?st). call_ok ?st cl"
    using inv by (simp add: registry_inv_def call_ok_def correlated_def sent_call_def kept rest)
  ultimately show ?thesis by (simp add: registry_inv_def)
qed

lemma inv_bookkeeping:
  assumes "registry_inv n st" and "rg_calls st' = rg_calls st" and "rg_connections st' = rg_connections st"
    and "rg_received st \<subseteq> rg_received st'" and "rg_sent st' = rg_sent st" and "refs_ok st'"
  shows "registry_inv n st'"
  using assms call_ok_mono [of st _ st'] by (simp add: registry_inv_def pending_exact_def permits_exact_def)

lemma snd_set_update: "snd ` set (AList.update k v xs) \<subseteq> insert v (snd ` set xs)"
  by (induction xs) auto

lemma failing_of_refs: "fst ` set (failing_of (map_of xs k) m) \<subseteq> snd ` set xs"
  by (cases "map_of xs k") (force simp: failing_of_def dest: map_of_SomeD)+

lemma inv_register:
  assumes inv: "registry_inv n st"
  shows "registry_inv n (register_connection n hst i st)"
proof -
  let ?st = "register_connection n hst i st" and ?k = "length (rg_connections st)"
  note invs = inv [unfolded registry_inv_def]
  have calls: "rg_calls ?st = rg_calls st" and conns: "rg_connections ?st = rg_connections st @ [connection_new n i]"
    by (simp_all add: register_connection_def)
  have new: "waiting_calls ?k (rg_calls st) = {}" "in_flight ?k (rg_calls st) = 0"
  proof -
    have "cl_connection cl \<noteq> ?k" if "cl \<in> set (rg_calls st)" for cl using invs that by (auto simp: call_ok_def)
    then show "waiting_calls ?k (rg_calls st) = {}" "in_flight ?k (rg_calls st) = 0"
      by (auto simp: waiting_calls_def in_flight_def filter_empty_conv in_set_conv_nth)
  qed
  have "pending_exact ?st" using invs new(1) unfolding pending_exact_def calls conns
    by (simp add: less_Suc_eq all_conj_distrib nth_append connection_new_def)
  moreover have "permits_exact n ?st" using invs new(2) unfolding permits_exact_def calls conns
    by (simp add: less_Suc_eq nth_append connection_new_def)
  moreover have "\<forall>cl \<in> set (rg_calls ?st). call_ok ?st cl"
    using invs call_ok_mono [of st _ ?st] by (simp add: register_connection_def nth_append)
  moreover have "refs_ok ?st"
  proof -
    have "connection_refs ?st \<subseteq> insert ?k (connection_refs st)"
      using snd_set_update [of hst ?k "rg_active st"] failing_of_refs [of "rg_active st" hst]
      by (simp add: connection_refs_def register_connection_def image_Un) blast
    moreover have "connection_refs st \<subseteq> {..<?k}" using invs by (simp add: refs_ok_def)
    ultimately have "connection_refs ?st \<subseteq> {..<length (rg_connections ?st)}" by (fastforce simp: conns)
    then show ?thesis by (rule refs_okI [OF conjunct1 [OF invs]]) (simp_all add: register_connection_def nth_append)
  qed
  ultimately show ?thesis by (simp add: registry_inv_def)
qed

lemma inv_fail_pending:
  assumes inv: "registry_inv n st" and c: "c < length (rg_connections st)"
  shows "registry_inv n (fail_pending c m st)"
proof -
  let ?st = "fail_pending c m st" and ?ts = "snd ` set (cn_pending (rg_connections st ! c))"
  note invs = inv [unfolded registry_inv_def] and entry = pending_entry(1) [OF inv c]
  have calls: "rg_calls ?st = close_slots ?ts (rg_calls st)"
    and conns: "rg_connections ?st = (rg_connections st)[c := (rg_connections st ! c)\<lparr>cn_pending := []\<rparr>]"
    by (simp_all add: fail_pending_def on_connection_def)
  have ids: "cn_id (rg_connections ?st ! k) = cn_id (rg_connections st ! k)" for k
    using c by (cases "k = c") (simp_all add: conns)
  have ts: "t \<in> ?ts \<longleftrightarrow> t < length (rg_calls st) \<and> cl_connection (rg_calls st ! t) = c \<and> waiting (cl_phase (rg_calls st ! t)) \<and>
      cl_slot (rg_calls st ! t) = SlotOpen" for t
  proof -
    have "t \<in> ?ts \<longleftrightarrow> (\<exists>i. (i, t) \<in> set (cn_pending (rg_connections st ! c)))" by force
    then show ?thesis using entry by (auto simp: waiting_calls_iff)
  qed
  have "pending_exact ?st" unfolding pending_exact_def
  proof (intro allI impI conjI)
    fix c' assume c': "c' < length (rg_connections ?st)"
    then show "distinct (map fst (cn_pending (rg_connections ?st ! c')))"
      using invs by (cases "c' = c") (simp_all add: conns pending_exact_def)
    have "(i, t) \<in> set (cn_pending (rg_connections ?st ! c')) \<longleftrightarrow> (i, t) \<in> waiting_calls c' (rg_calls ?st)" for i t
    proof (cases "c' = c")
      case True
      then show ?thesis using c' by (simp only: calls waiting_calls_close ts) (auto simp: conns waiting_calls_iff)
    next
      case False
      then show ?thesis using c' pending_entry(1) [OF inv, of c' i t]
        by (simp only: calls waiting_calls_close ts) (auto simp: conns waiting_calls_iff)
    qed
    then show "set (cn_pending (rg_connections ?st ! c')) = waiting_calls c' (rg_calls ?st)" by auto
  qed
  moreover have "permits_exact n ?st" unfolding permits_exact_def
  proof (intro allI impI)
    fix c' assume c': "c' < length (rg_connections ?st)"
    then show "cn_permits (rg_connections ?st ! c') + in_flight c' (rg_calls ?st) = n"
      using invs by (cases "c' = c") (simp_all add: conns calls permits_exact_def)
  qed
  moreover have "\<forall>cl \<in> set (rg_calls ?st). call_ok ?st cl"
  proof
    fix cl assume "cl \<in> set (rg_calls ?st)"
    then obtain t where t: "t < length (rg_calls st)" "cl = close_slots ?ts (rg_calls st) ! t"
      by (auto simp: calls in_set_conv_nth)
    have "call_ok st cl" using call_in_range(1) [OF inv t(1)] call_ok_closed t ts [of t] by simp
    then show "call_ok ?st cl" by (rule call_ok_mono) (use ids in \<open>simp_all add: fail_pending_def on_connection_def\<close>)
  qed
  moreover have "connection_refs ?st \<subseteq> insert c (connection_refs st)"
    using image_mono [OF set_remove1_subset [of "(c, m)" "rg_failing st"], of fst]
    by (cases m; simp add: connection_refs_def fail_pending_def on_connection_def image_Un) blast+
  then have "connection_refs ?st \<subseteq> {..<length (rg_connections ?st)}" using invs c by (auto simp: refs_ok_def conns)
  then have "refs_ok ?st" by (rule refs_okI [OF conjunct1 [OF invs]]) (use ids in \<open>simp_all add: fail_pending_def on_connection_def\<close>)
  ultimately show ?thesis by (simp add: registry_inv_def)
qed

lemma inv_leaves:
  assumes inv: "registry_inv n st" and st': "st' = st\<lparr>rg_active := AList.delete hst (rg_active st), rg_failing := rg_failing st @ failing_of (map_of (rg_active st) hst) m\<rparr>"
  shows "registry_inv n st'"
proof (rule inv_bookkeeping [OF inv])
  have "snd ` set (AList.delete hst (rg_active st)) \<subseteq> snd ` set (rg_active st)" by (auto simp: AList.delete_eq)
  then have "connection_refs st' \<subseteq> connection_refs st"
    using failing_of_refs [of "rg_active st" hst] by (simp add: connection_refs_def st' image_Un) blast
  then show "refs_ok st'" using inv by (auto simp: registry_inv_def refs_ok_def st')
qed (simp_all add: st')

lemma inv_execute_find:
  assumes inv: "registry_inv n st" and e: "execute_find hst q st = Inr st'"
  shows "registry_inv n st'"
proof -
  note invs = inv [unfolded registry_inv_def]
  from e obtain c where c: "map_of (rg_active st) hst = Some c"
    and st': "st' = st\<lparr>rg_calls := rg_calls st @ [\<lparr>cl_request = q, cl_connection = c, cl_phase = Found, cl_slot = SlotOpen\<rparr>]\<rparr>"
    by (auto simp: execute_find_def split: option.splits)
  have "c \<in> snd ` set (rg_active st)" using map_of_SomeD [OF c] by force
  then have "c < length (rg_connections st)" using invs by (auto simp: refs_ok_def connection_refs_def)
  then have "\<forall>cl \<in> set (rg_calls st'). call_ok st' cl" using invs by (auto simp: st' call_ok_def correlated_def sent_call_def)
  moreover have "refs_ok st'" using invs by (simp add: st' refs_ok_def connection_refs_def)
  moreover have "waiting_calls c' (rg_calls st') = waiting_calls c' (rg_calls st)" for c'
    using waiting_calls_append [of _ _ c' "rg_calls st"] by (auto simp: st' waiting_def)
  then have "pending_exact st'" using invs by (simp add: pending_exact_def) (simp add: st')
  moreover have "permits_exact n st'" using invs by (simp add: permits_exact_def in_flight_def holds_permit_def st')
  ultimately show ?thesis by (simp add: registry_inv_def)
qed

lemma inv_execute_permit:
  assumes inv: "registry_inv n st" and t: "t < length (rg_calls st)" and p: "cl_phase (rg_calls st ! t) = Found"
  shows "registry_inv n (execute_permit t st)"
proof -
  let ?cl = "rg_calls st ! t" let ?c = "cl_connection ?cl" and ?st = "execute_permit t st"
  note range = call_in_range [OF inv t]
  show ?thesis
  proof (cases "cn_permits (rg_connections st ! ?c) = 0")
    case True
    have "registry_inv n (put_phase t (Returned (Inl HostBusy)) st)"
      by (rule inv_phase [OF inv t]) (use range(1) p in \<open>simp_all add: waiting_def holds_permit_def call_ok_def correlated_def sent_call_def\<close>)
    then show ?thesis using True by (simp add: execute_permit_def Let_def)
  next
    case False
    have calls: "rg_calls ?st = (rg_calls st)[t := ?cl\<lparr>cl_phase := Permitted\<rparr>]"
      and conns: "rg_connections ?st = (rg_connections st)[?c := (rg_connections st ! ?c)\<lparr>cn_permits := cn_permits (rg_connections st ! ?c) - 1\<rparr>]"
      using False by (simp_all add: execute_permit_def Let_def put_phase_def on_call_def on_connection_def)
    have ok: "call_ok ?st (?cl\<lparr>cl_phase := Permitted\<rparr>)"
      using range p False by (simp add: call_ok_def correlated_def sent_call_def execute_permit_def Let_def put_phase_def on_call_def on_connection_def)
    have gone: "(i, t) \<notin> set (cn_pending (rg_connections st ! ?c))" for i
      using p pending_entry(1) [OF inv range(2)] by (simp add: waiting_calls_iff waiting_def)
    show ?thesis
      by (rule inv_call_moves [OF inv t, where c = ?c, OF _ _ _ _ _ _ _ calls conns _ _ _ _ _ _ ok])
        (use gone pending_entry(2) [OF inv range(2)] p False in
          \<open>simp_all add: waiting_def holds_permit_def execute_permit_def Let_def put_phase_def on_call_def on_connection_def\<close>)
  qed
qed

lemma inv_execute_enter:
  assumes inv: "registry_inv n st" and t: "t < length (rg_calls st)" and p: "cl_phase (rg_calls st ! t) = Permitted"
  shows "registry_inv n (execute_enter t st)"
proof -
  let ?cl = "rg_calls st ! t" let ?c = "cl_connection ?cl" and ?i = "rq_request_id (cl_request ?cl)" and ?st = "execute_enter t st"
  note range = call_in_range [OF inv t]
  show ?thesis
  proof (cases "?i \<in> fst ` set (cn_pending (rg_connections st ! ?c))")
    case True
    have "registry_inv n (return_call t (Inl DuplicateRequest) st)"
      by (rule inv_return [OF inv t]) (simp_all add: p waiting_def holds_permit_def)
    then show ?thesis using True by (simp add: execute_enter_def Let_def)
  next
    case False
    have calls: "rg_calls ?st = (rg_calls st)[t := ?cl\<lparr>cl_phase := Entered\<rparr>]"
      and conns: "rg_connections ?st = (rg_connections st)[?c := (rg_connections st ! ?c)\<lparr>cn_pending := (?i, t) # cn_pending (rg_connections st ! ?c)\<rparr>]"
      using False by (simp_all add: execute_enter_def Let_def put_phase_def on_call_def on_connection_def)
    have ok: "call_ok ?st (?cl\<lparr>cl_phase := Entered\<rparr>)"
      using range p False by (simp add: call_ok_def correlated_def sent_call_def execute_enter_def Let_def put_phase_def on_call_def on_connection_def)
    have gone: "(i, t) \<notin> set (cn_pending (rg_connections st ! ?c))" for i
      using p pending_entry(1) [OF inv range(2)] by (simp add: waiting_calls_iff waiting_def)
    have slt: "cl_slot ?cl = SlotOpen" using range(1) p by (simp add: call_ok_def)
    show ?thesis
      by (rule inv_call_moves [OF inv t, where c = ?c, OF _ _ _ _ _ _ _ calls conns _ _ _ _ _ _ ok])
        (use gone pending_entry(2) [OF inv range(2)] p False slt in
          \<open>auto simp add: waiting_def holds_permit_def execute_enter_def Let_def put_phase_def on_call_def on_connection_def\<close>)
  qed
qed

lemma inv_execute_send:
  assumes inv: "registry_inv n st" and t: "t < length (rg_calls st)" and p: "cl_phase (rg_calls st ! t) = Entered"
  shows "registry_inv n (execute_send t st)"
proof -
  let ?cl = "rg_calls st ! t" let ?c = "cl_connection ?cl" and ?q = "cl_request ?cl" and ?st = "execute_send t st"
  note range = call_in_range [OF inv t]
  obtain e cn where e: "try_send (RequestMessage ?q) (rg_connections st ! ?c) = (e, cn)" by fastforce
  then have cn: "cn_pending cn = cn_pending (rg_connections st ! ?c)" "cn_permits cn = cn_permits (rg_connections st ! ?c)" "cn_id cn = cn_id (rg_connections st ! ?c)"
    by (auto simp: try_send_def split: if_splits)
  show ?thesis
  proof (cases e)
    case (Some err)
    have "registry_inv n (put_phase t (Unsent err) st)"
      by (rule inv_phase [OF inv t]) (use range(1) p in \<open>simp_all add: waiting_def holds_permit_def call_ok_def correlated_def sent_call_def\<close>)
    then show ?thesis using e Some by (simp add: execute_send_def Let_def)
  next
    case None
    have st: "?st = put_phase t Sent (on_connection ?c (\<lambda>_. cn) (st\<lparr>rg_sent := insert (?c, ?q) (rg_sent st)\<rparr>))"
      using e None by (simp add: execute_send_def Let_def)
    have calls: "rg_calls ?st = (rg_calls st)[t := ?cl\<lparr>cl_phase := Sent\<rparr>]" and conns: "rg_connections ?st = (rg_connections st)[?c := cn]"
      by (simp_all add: st put_phase_def on_call_def on_connection_def)
    have ok: "call_ok ?st (?cl\<lparr>cl_phase := Sent\<rparr>)"
      using range p cn(3) by (simp add: call_ok_def correlated_def sent_call_def st put_phase_def on_call_def on_connection_def)
    note entry = pending_entry [OF inv range(2)]
    show ?thesis
      by (rule inv_call_moves [OF inv t, where c = ?c, OF _ _ _ _ _ _ _ calls conns _ _ _ _ _ _ ok])
        (use entry p cn t in \<open>auto simp: waiting_def holds_permit_def waiting_calls_iff st put_phase_def on_call_def on_connection_def\<close>)
  qed
qed

lemma inv_execute_receive:
  assumes inv: "registry_inv n st" and t: "t < length (rg_calls st)" and p: "cl_phase (rg_calls st ! t) = Sent"
  shows "registry_inv n (execute_receive t st)"
proof (cases "cl_slot (rg_calls st ! t)")
  case (SlotValue r)
  then have "registry_inv n (return_call t (Inr r) st)" by (intro inv_return [OF inv t]) (simp_all add: p holds_permit_def)
  then show ?thesis by (simp add: execute_receive_def SlotValue)
next
  case SlotClosed
  then have "registry_inv n (return_call t (Inl HostDisconnected) st)" by (intro inv_return [OF inv t]) (simp_all add: p holds_permit_def)
  then show ?thesis by (simp add: execute_receive_def SlotClosed)
qed (use inv in \<open>simp_all add: execute_receive_def\<close>)

lemma inv_execute_expire:
  assumes inv: "registry_inv n st" and t: "t < length (rg_calls st)" and p: "cl_phase (rg_calls st ! t) = Sent"
  shows "registry_inv n (execute_expire t st)"
proof -
  have "registry_inv n (put_phase t Expired st)"
    by (rule inv_phase [OF inv t]) (use call_in_range(1) [OF inv t] p in \<open>simp_all add: waiting_def holds_permit_def call_ok_def correlated_def sent_call_def\<close>)
  then show ?thesis using inv by (simp add: execute_expire_def split: slot.split)
qed

lemma inv_abandon_call:
  assumes inv: "registry_inv n st" and t: "t < length (rg_calls st)" and p: "cl_phase (rg_calls st ! t) = Sent"
  shows "registry_inv n (abandon_call t st)"
proof -
  let ?cl = "rg_calls st ! t" let ?c = "cl_connection ?cl" and ?st = "abandon_call t st"
  note range = call_in_range [OF inv t]
  have calls: "rg_calls ?st = (rg_calls st)[t := ?cl\<lparr>cl_phase := Abandoned\<rparr>]"
    and conns: "rg_connections ?st = (rg_connections st)[?c := (rg_connections st ! ?c)\<lparr>cn_permits := cn_permits (rg_connections st ! ?c) + 1\<rparr>]"
    by (simp_all add: abandon_call_def release_permit_def put_phase_def on_call_def on_connection_def)
  have ok: "call_ok ?st (?cl\<lparr>cl_phase := Abandoned\<rparr>)"
    using range p by (simp add: call_ok_def correlated_def sent_call_def abandon_call_def release_permit_def put_phase_def on_call_def on_connection_def)
  note entry = pending_entry [OF inv range(2)]
  show ?thesis
    by (rule inv_call_moves [OF inv t, where c = ?c, OF _ _ _ _ _ _ _ calls conns _ _ _ _ _ _ ok])
      (use entry p t in \<open>auto simp: waiting_def holds_permit_def waiting_calls_iff abandon_call_def release_permit_def put_phase_def on_call_def on_connection_def\<close>)
qed

lemma inv_complete_find:
  assumes inv: "registry_inv n st"
  shows "registry_inv n (complete_find hst i r st)"
proof -
  let ?st = "st\<lparr>rg_received := insert (i, r) (rg_received st)\<rparr>"
  have refs: "refs_ok st" using inv by (simp add: registry_inv_def)
  have "connection_refs ?st \<subseteq> {..<length (rg_connections ?st)}" using refs by (simp add: refs_ok_def connection_refs_def)
  then have "refs_ok ?st" by (rule refs_okI [OF refs]) auto
  then have st: "registry_inv n ?st" by (intro inv_bookkeeping [OF inv]) auto
  show ?thesis
  proof (cases "\<exists>c. map_of (rg_active st) hst = Some c \<and> cn_id (rg_connections st ! c) = i")
    case True
    then obtain c where c: "map_of (rg_active st) hst = Some c" "cn_id (rg_connections st ! c) = i" by auto
    have "c \<in> snd ` set (rg_active st)" using map_of_SomeD [OF c(1)] by force
    then have "refs_ok (?st\<lparr>rg_completing := rg_completing st @ [(c, r)]\<rparr>)"
      using \<open>refs_ok ?st\<close> c(2) by (auto simp: refs_ok_def connection_refs_def)
    then have "registry_inv n (?st\<lparr>rg_completing := rg_completing st @ [(c, r)]\<rparr>)" by (intro inv_bookkeeping [OF st]) simp_all
    then show ?thesis using c by (simp add: complete_find_def)
  next
    case False
    then have "complete_find hst i r st = ?st" by (auto simp: complete_find_def Let_def split: option.split)
    with st show ?thesis by simp
  qed
qed

lemma inv_complete_take:
  assumes inv: "registry_inv n st" and r: "(c, r) \<in> set (rg_completing st)"
  shows "registry_inv n (complete_take c r st)"
proof -
  have ok: "refs_ok st" using inv by (simp add: registry_inv_def)
  then have refs: "connection_refs st \<subseteq> {..<length (rg_connections st)}" by (simp add: refs_ok_def)
  have c: "c < length (rg_connections st)" using refs r by (force simp: connection_refs_def)
  let ?st = "st\<lparr>rg_completing := remove1 (c, r) (rg_completing st)\<rparr>"
  have sub: "set (remove1 (c, r) (rg_completing st)) \<subseteq> set (rg_completing st)" by (rule set_remove1_subset)
  then have "connection_refs ?st \<subseteq> connection_refs st" using image_mono [OF sub, of fst] by (simp add: connection_refs_def le_supI2)
  then have "refs_ok ?st" by (intro refs_okI [OF ok]) (use refs sub in auto)
  then have "registry_inv n ?st" by (intro inv_bookkeeping [OF inv]) simp_all
  then show ?thesis unfolding complete_take_def
    by (rule inv_take_pending) (use c r ok in \<open>auto simp: refs_ok_def\<close>)
qed

lemma inv_complete_send:
  assumes inv: "registry_inv n st" and t: "t < length (rg_calls st)"
  shows "registry_inv n (complete_send t st)"
proof (cases "cl_slot (rg_calls st ! t)")
  case (SlotTaken r)
  then have "registry_inv n (on_call t (\<lambda>cl. cl\<lparr>cl_slot := SlotValue r\<rparr>) st)"
    by (intro inv_slot [OF inv t]) (use call_in_range(1) [OF inv t] in \<open>auto simp: call_ok_def correlated_def sent_call_def\<close>)
  then show ?thesis using SlotTaken by (simp add: complete_send_def)
qed (use inv in \<open>simp_all add: complete_send_def\<close>)

lemma inv_send_parting:
  assumes inv: "registry_inv n st" and d: "(c, d) \<in> set (rg_parting st)"
  shows "registry_inv n (send_parting c d st)"
proof -
  have ok: "refs_ok st" using inv by (simp add: registry_inv_def)
  then have refs: "connection_refs st \<subseteq> {..<length (rg_connections st)}" by (simp add: refs_ok_def)
  have c: "c < length (rg_connections st)" using refs d by (force simp: connection_refs_def)
  let ?st = "st\<lparr>rg_parting := remove1 (c, d) (rg_parting st)\<rparr>"
  have "connection_refs ?st \<subseteq> connection_refs st"
    using image_mono [OF set_remove1_subset [of "(c, d)" "rg_parting st"], of fst] by (simp add: connection_refs_def) blast
  then have "refs_ok ?st" by (intro refs_okI [OF ok]) (use refs in auto)
  then have "registry_inv n ?st" by (intro inv_bookkeeping [OF inv]) simp_all
  then show ?thesis unfolding send_parting_def
    by (rule inv_connection_moves) (use c in \<open>simp_all add: try_send_def\<close>)
qed

lemma registry_step_inv:
  assumes "registry_step n st st'" and inv: "registry_inv n st"
  shows "registry_inv n st'"
  using assms(1)
proof cases
  case (unregister hst i b)
  then have "st' = st \<or> (\<exists>m. st' = st\<lparr>rg_active := AList.delete hst (rg_active st), rg_failing := rg_failing st @ failing_of (map_of (rg_active st) hst) m\<rparr>)"
    by (auto simp: unregister_connection_def split: option.splits if_splits)
  then show ?thesis using inv inv_leaves [OF inv] by auto
next
  case (disconnect hst c m)
  then show ?thesis using inv_leaves [OF inv] by (simp add: disconnect_host_def)
next
  case (failing c m)
  have "c \<in> connection_refs st" using failing(2) by (force simp: connection_refs_def)
  then have "c < length (rg_connections st)" using inv by (auto simp: registry_inv_def refs_ok_def)
  then show ?thesis using inv_fail_pending [OF inv] failing(1) by simp
next
  case (unsend t e)
  then show ?thesis using inv_unsend [OF inv] by (simp add: waiting_def holds_permit_def)
next
  case (expired t)
  then show ?thesis using inv_unsend [OF inv] by (simp add: waiting_def holds_permit_def)
next
  case (welcomed c heartbeat)
  then show ?thesis using inv_connection_moves [OF inv] by (simp add: queue_welcome_def)
qed (auto intro: inv inv_register inv_execute_find inv_execute_permit inv_execute_enter inv_execute_send inv_execute_receive
  inv_execute_expire inv_abandon_call inv_complete_find inv_complete_take inv_complete_send inv_send_parting inv_connection_moves)

lemma registry_run_inv: "registry_run n st \<Longrightarrow> registry_inv n st"
proof (induction rule: registry_run.induct)
  case new
  show ?case
    by (simp add: registry_inv_def registry_new_def refs_ok_def connection_refs_def pending_exact_def permits_exact_def)
next
  case (run_step st st')
  then show ?case by (blast intro: registry_step_inv)
qed

section \<open>Responses, entries and permits\<close>

text \<open>
  C9: a call returns only the response to its own request: the identifiers agree, the request went out on the connection that the call
  found, and the response came in under the identity of that same connection, whatever other calls, responses, replacements and timeouts happen meanwhile.
\<close>

theorem returned_response_answers_request:
  assumes "registry_run max_in_flight st" and "t < length (rg_calls st)" and "cl_phase (rg_calls st ! t) = Returned (Inr r)"
  shows "response_request_id r = rq_request_id (cl_request (rg_calls st ! t)) \<and>
     (cl_connection (rg_calls st ! t), cl_request (rg_calls st ! t)) \<in> rg_sent st \<and>
     (cn_id (rg_connections st ! cl_connection (rg_calls st ! t)), r) \<in> rg_received st"
  using call_in_range(1) [OF registry_run_inv [OF assms(1)] assms(2)] assms(3)
  by (simp add: call_ok_def correlated_def sent_call_def)

definition hv_request :: request_envelope where
  "hv_request = request_envelope_new ''r'' Describe"

definition hv_response :: response_envelope where
  "hv_response = response_error ''r'' cancelled_error"

definition hv_connection :: "(string \<times> nat) list \<Rightarrow> connection" where
  "hv_connection p = \<lparr>cn_id = ''c'', cn_pending = p, cn_permits = 0, cn_outbox = [RequestMessage hv_request], cn_open = True\<rparr>"

definition hv_call :: "call_phase \<Rightarrow> slot \<Rightarrow> call" where
  "hv_call p s = \<lparr>cl_request = hv_request, cl_connection = 0, cl_phase = p, cl_slot = s\<rparr>"

definition hv_sent :: registry where
  "hv_sent = registry_new\<lparr>rg_active := [(''h'', 0)], rg_connections := [hv_connection [(''r'', 0)]], rg_calls := [hv_call Sent SlotOpen],
     rg_sent := {(0, hv_request)}\<rparr>"

lemmas hv_simps = hv_request_def hv_response_def hv_connection_def hv_call_def hv_sent_def registry_new_def on_connection_def on_call_def
  put_phase_def release_permit_def return_call_def request_envelope_new_def connection_new_def try_send_def outbox_capacity_def
  failing_of_def replaced_message_def

definition hv_found :: registry where
  "hv_found = registry_new\<lparr>rg_active := [(''h'', 0)], rg_connections := [connection_new 1 ''c''], rg_calls := [hv_call Found SlotOpen]\<rparr>"

lemma hv_found_run: "registry_run 1 hv_found"
proof -
  have "register_connection 1 ''h'' ''c'' registry_new = registry_new\<lparr>rg_active := [(''h'', 0)], rg_connections := [connection_new 1 ''c'']\<rparr>"
    by (simp add: register_connection_def hv_simps)
  then have a: "registry_run 1 (registry_new\<lparr>rg_active := [(''h'', 0)], rg_connections := [connection_new 1 ''c'']\<rparr>)"
    using run_step [OF registry_run.new registry_step.register, of 1 "''h''" "''c''"] by simp
  show ?thesis
    by (rule run_step [OF a registry_step.find [of "''h''" hv_request]]) (simp add: execute_find_def hv_found_def hv_simps)
qed

lemma hv_call_sends:
  assumes "registry_run 1 st" and "rg_connections st ! 0 = connection_new 1 ''c''" and "rg_connections st \<noteq> []" and "rg_calls st = [hv_call Found SlotOpen]"
  shows "registry_run 1 (st\<lparr>rg_connections := (rg_connections st)[0 := hv_connection [(''r'', 0)]], rg_calls := [hv_call Sent SlotOpen],
     rg_sent := insert (0, hv_request) (rg_sent st)\<rparr>)"
proof -
  have a: "registry_run 1 (execute_permit 0 st)"
    by (rule run_step [OF assms(1) registry_step.permit]) (simp_all add: assms hv_simps)
  have b: "registry_run 1 (execute_enter 0 (execute_permit 0 st))"
    by (rule run_step [OF a registry_step.enter]) (use assms in \<open>simp_all add: execute_permit_def Let_def hv_simps\<close>)
  have "registry_run 1 (execute_send 0 (execute_enter 0 (execute_permit 0 st)))"
    by (rule run_step [OF b registry_step.send]) (use assms in \<open>simp_all add: execute_permit_def execute_enter_def Let_def hv_simps\<close>)
  moreover have "execute_send 0 (execute_enter 0 (execute_permit 0 st)) =
      st\<lparr>rg_connections := (rg_connections st)[0 := hv_connection [(''r'', 0)]], rg_calls := [hv_call Sent SlotOpen],
         rg_sent := insert (0, hv_request) (rg_sent st)\<rparr>"
    using assms by (simp add: execute_permit_def execute_enter_def execute_send_def Let_def hv_simps)
  ultimately show ?thesis by simp
qed

lemma hv_sent_run: "registry_run 1 hv_sent"
  using hv_call_sends [OF hv_found_run] by (simp add: hv_found_def hv_sent_def registry_new_def)

definition hv_answered :: registry where
  "hv_answered = hv_sent\<lparr>rg_received := {(''c'', hv_response)}, rg_connections := [(hv_connection [])\<lparr>cn_permits := 1\<rparr>],
     rg_calls := [hv_call (Returned (Inr hv_response)) (SlotValue hv_response)]\<rparr>"

lemma hv_answered_run: "registry_run 1 hv_answered"
proof -
  let ?a = "complete_find ''h'' ''c'' hv_response hv_sent"
  let ?b = "complete_take 0 hv_response ?a"
  let ?c = "complete_send 0 ?b"
  have a: "registry_run 1 ?a" by (rule run_step [OF hv_sent_run registry_step.response])
  have b: "registry_run 1 ?b" by (rule run_step [OF a registry_step.deliver]) (simp add: complete_find_def hv_simps)
  have eb: "?b = hv_sent\<lparr>rg_received := {(''c'', hv_response)}, rg_connections := [hv_connection []], rg_calls := [hv_call Sent (SlotTaken hv_response)]\<rparr>"
    by (simp add: complete_find_def complete_take_def take_pending_def hv_simps response_error_def)
  have c: "registry_run 1 ?c" by (rule run_step [OF b registry_step.complete]) (simp add: eb)
  have ec: "?c = hv_sent\<lparr>rg_received := {(''c'', hv_response)}, rg_connections := [hv_connection []], rg_calls := [hv_call Sent (SlotValue hv_response)]\<rparr>"
    by (simp add: complete_send_def eb) (simp add: hv_call_def on_call_def)
  have "registry_run 1 (execute_receive 0 ?c)"
    by (rule run_step [OF c registry_step.receive]) (simp_all add: ec hv_call_def)
  moreover have "execute_receive 0 ?c = hv_answered"
    by (simp add: execute_receive_def ec hv_answered_def) (simp add: hv_simps)
  ultimately show ?thesis by simp
qed

theorem returned_response_answers_request_witness:
  "registry_run 1 hv_answered \<and> cl_phase (rg_calls hv_answered ! 0) = Returned (Inr hv_response) \<and>
   response_request_id hv_response = ''r'' \<and> (0, hv_request) \<in> rg_sent hv_answered"
proof -
  have "cl_phase (rg_calls hv_answered ! 0) = Returned (Inr hv_response)" "0 < length (rg_calls hv_answered)"
    by (simp_all add: hv_answered_def hv_call_def)
  with returned_response_answers_request [OF hv_answered_run] hv_answered_run show ?thesis
    by (simp add: hv_answered_def hv_call_def hv_request_def request_envelope_new_def)
qed

text \<open>
  C10: the map of pending calls of a connection has exactly the calls that entered it and still wait for their response, or were
  abandoned while they waited, and no request identifier twice; the calls in flight on the connection and its free permits add up to the limit.
\<close>

theorem pending_entries_and_permits:
  assumes "registry_run max_in_flight st" and "c < length (rg_connections st)"
  shows "set (cn_pending (rg_connections st ! c)) = waiting_calls c (rg_calls st) \<and>
     distinct (map fst (cn_pending (rg_connections st ! c))) \<and>
     in_flight c (rg_calls st) + cn_permits (rg_connections st ! c) = max_in_flight"
  using registry_run_inv [OF assms(1)] assms(2)
  by (simp add: registry_inv_def pending_exact_def permits_exact_def add.commute)

theorem pending_entries_and_permits_witness:
  "cn_pending (rg_connections hv_sent ! 0) = [(''r'', 0)] \<and> waiting_calls 0 (rg_calls hv_sent) = {(''r'', 0)} \<and>
   in_flight 0 (rg_calls hv_sent) = 1"
proof -
  have "cn_pending (rg_connections hv_sent ! 0) = [(''r'', 0)]" "cn_permits (rg_connections hv_sent ! 0) = 0" "0 < length (rg_connections hv_sent)"
    by (simp_all add: hv_sent_def hv_connection_def)
  with pending_entries_and_permits [OF hv_sent_run, of 0] show ?thesis by simp
qed

section \<open>Calls that no one answers\<close>

text \<open>
  A call that found its connection just before the host was disconnected enters the map after it was cleared: it has been sent and waits,
  the host is offline, and no response and no failure is under way. Only its timer is left, although \<open>execute\<close> has
  \<open>Disconnected\<close> for a connection that ends.
\<close>

theorem late_call_misses_disconnect:
  "\<exists>st. registry_run 1 st \<and> \<not> is_connected ''h'' st \<and> rg_failing st = [] \<and> rg_completing st = [] \<and> rg_parting st = [] \<and>
     cl_phase (rg_calls st ! 0) = Sent \<and> cl_slot (rg_calls st ! 0) = SlotOpen"
proof -
  have u: "unregister_connection ''h'' ''c'' hv_found = (True, hv_found\<lparr>rg_active := [], rg_failing := [(0, None)]\<rparr>)"
    by (simp add: unregister_connection_def hv_found_def hv_simps)
  have a: "registry_run 1 (hv_found\<lparr>rg_active := [], rg_failing := [(0, None)]\<rparr>)"
    by (rule run_step [OF hv_found_run registry_step.unregister [OF u]])
  have "registry_run 1 (fail_pending 0 None (hv_found\<lparr>rg_active := [], rg_failing := [(0, None)]\<rparr>))"
    by (rule run_step [OF a registry_step.failing]) simp
  moreover have "fail_pending 0 None (hv_found\<lparr>rg_active := [], rg_failing := [(0, None)]\<rparr>) = hv_found\<lparr>rg_active := []\<rparr>"
    by (simp add: fail_pending_def hv_found_def close_slots_def hv_simps)
  ultimately have b: "registry_run 1 (hv_found\<lparr>rg_active := []\<rparr>)" by simp
  let ?z = "hv_found\<lparr>rg_active := [], rg_connections := [hv_connection [(''r'', 0)]], rg_calls := [hv_call Sent SlotOpen], rg_sent := {(0, hv_request)}\<rparr>"
  have "registry_run 1 ?z"
    using hv_call_sends [OF b] by (simp add: hv_found_def registry_new_def)
  moreover have "\<not> is_connected ''h'' ?z" "rg_failing ?z = []" "rg_completing ?z = []" "rg_parting ?z = []"
    "cl_phase (rg_calls ?z ! 0) = Sent" "cl_slot (rg_calls ?z ! 0) = SlotOpen"
    by (simp_all add: is_connected_def hv_found_def hv_call_def registry_new_def)
  ultimately show ?thesis by blast
qed

text \<open>
  A call whose HTTP client went away keeps its request identifier: a second call with the same request returns
  \<open>DuplicateRequest\<close> although no call waits for the answer.
\<close>

theorem abandoned_request_blocks_retry:
  "\<exists>st. registry_run 1 st \<and> cl_phase (rg_calls st ! 0) = Abandoned \<and>
     cl_request (rg_calls st ! 1) = cl_request (rg_calls st ! 0) \<and> cl_phase (rg_calls st ! 1) = Returned (Inl DuplicateRequest)"
proof -
  let ?calls = "[hv_call Abandoned SlotOpen]"
  let ?a = "hv_sent\<lparr>rg_connections := [(hv_connection [(''r'', 0)])\<lparr>cn_permits := 1\<rparr>], rg_calls := ?calls\<rparr>"
  let ?b = "?a\<lparr>rg_calls := ?calls @ [hv_call Found SlotOpen]\<rparr>"
  let ?c = "hv_sent\<lparr>rg_calls := ?calls @ [hv_call Permitted SlotOpen]\<rparr>"
  have "registry_run 1 (abandon_call 0 hv_sent)"
    by (rule run_step [OF hv_sent_run registry_step.abandon]) (simp_all add: hv_sent_def hv_call_def)
  moreover have "abandon_call 0 hv_sent = ?a" by (simp add: abandon_call_def hv_simps)
  ultimately have a: "registry_run 1 ?a" by simp
  have b: "registry_run 1 ?b"
    by (rule run_step [OF a registry_step.find [of "''h''" hv_request]]) (simp add: execute_find_def hv_simps)
  have "registry_run 1 (execute_permit 1 ?b)"
    by (rule run_step [OF b registry_step.permit]) (simp_all add: hv_simps)
  moreover have "execute_permit 1 ?b = ?c" by (simp add: execute_permit_def hv_simps)
  ultimately have c: "registry_run 1 ?c" by simp
  have "registry_run 1 (execute_enter 1 ?c)"
    by (rule run_step [OF c registry_step.enter]) (simp_all add: hv_simps)
  moreover have "rg_calls (execute_enter 1 ?c) = ?calls @ [hv_call (Returned (Inl DuplicateRequest)) SlotOpen]"
    by (simp add: execute_enter_def Let_def hv_simps)
  ultimately show ?thesis
    by (intro exI [of _ "execute_enter 1 ?c"]) (simp add: hv_call_def)
qed

end
