(* ===== verification/Gateway_Http.thy ===== *)
theory Gateway_Http
  imports Gateway_Client Gateway_Security Host_Connections
begin

text \<open>
  The execution route of the gateway (\<open>execution/apps/execution-gateway/src/http.rs\<close>, \<open>execute_operation\<close>): a request needs a permit and a ready
  host, waits for an E2B host that resumes, and goes to the connection of a registered host or to the
  provider of an E2B host. The database is the rows that it returns; the provider is an argument.
\<close>

section \<open>Host rows\<close>

datatype host_kind = E2bHost | RegisteredHost

datatype desired_host_state = DesiredReady | DesiredPaused | DesiredDeleted

datatype execution_host_state =
    HostProvisioning | HostReady | HostPausing | HostPaused | HostResuming | HostUnavailable | HostDeleting | HostDeleted | HostFailed | HostLost

record host_row =
  hw_kind :: host_kind
  hw_state :: execution_host_state
  hw_desired :: desired_host_state

fun host_state_name :: "execution_host_state \<Rightarrow> string" where
  "host_state_name HostProvisioning = ''provisioning''"
| "host_state_name HostReady = ''ready''"
| "host_state_name HostPausing = ''pausing''"
| "host_state_name HostPaused = ''paused''"
| "host_state_name HostResuming = ''resuming''"
| "host_state_name HostUnavailable = ''unavailable''"
| "host_state_name HostDeleting = ''deleting''"
| "host_state_name HostDeleted = ''deleted''"
| "host_state_name HostFailed = ''failed''"
| "host_state_name HostLost = ''lost''"

section \<open>Errors of a connection\<close>

fun host_connection_message :: "host_connection_error \<Rightarrow> string" where
  "host_connection_message HostOffline = ''the Host Daemon is not connected''"
| "host_connection_message DuplicateRequest = ''the request ID is already in flight for this host''"
| "host_connection_message HostBusy = ''the Host Daemon has too many operations in flight''"
| "host_connection_message HostDisconnected = ''the Host Daemon connection ended before the operation completed''"
| "host_connection_message HostTimeout = ''the Host Daemon operation timed out''"

definition host_connection_http_error :: "host_connection_error \<Rightarrow> gateway_http_error" where
  "host_connection_http_error e = (case e of
     HostOffline \<Rightarrow> http_retryable (http_error_new 503 ''HOST_DISCONNECTED'' (host_connection_message e))
   | HostDisconnected \<Rightarrow> http_retryable (http_error_new 503 ''HOST_DISCONNECTED'' (host_connection_message e))
   | HostBusy \<Rightarrow> http_retryable (http_error_new 429 ''HOST_BUSY'' (host_connection_message e))
   | HostTimeout \<Rightarrow> http_retryable (http_error_new 504 ''HOST_OPERATION_TIMEOUT'' (host_connection_message e))
   | DuplicateRequest \<Rightarrow> http_conflict ''REQUEST_ALREADY_IN_FLIGHT'' (host_connection_message e))"

section \<open>Executing an operation\<close>

text \<open>
  A read of the row of the host fails, finds nothing, or finds the row. While a host resumes its row is read again until the deadline; without a
  further read there is no result yet.
\<close>

type_synonym row_read = "unit + host_row option"

definition found_row :: "row_read \<Rightarrow> gateway_http_error + host_row" where
  "found_row rd = (case rd of
     Inl _ \<Rightarrow> Inl database_error
   | Inr None \<Rightarrow> Inl (http_not_found ''execution host'')
   | Inr (Some h) \<Rightarrow> Inr h)"

fun await_resumed :: "nat \<Rightarrow> (row_read \<times> nat) list \<Rightarrow> (gateway_http_error + host_row) option" where
  "await_resumed deadline [] = None"
| "await_resumed deadline ((rd, now) # rds) = (case found_row rd of
     Inl e \<Rightarrow> Some (Inl e)
   | Inr h \<Rightarrow>
       if hw_state h \<noteq> HostResuming then Some (Inr h)
       else if deadline \<le> now
       then Some (Inl (http_retryable (http_error_new 503 ''HOST_RESUMING'' ''host is still resuming; retry the same operation'')))
       else await_resumed deadline rds)"

record operation_world =
  ow_permit :: bool
  ow_read :: row_read
  ow_resume_recorded :: bool
  ow_now :: nat
  ow_reads :: "(row_read \<times> nat) list"

definition resumes_on_use :: "host_row \<Rightarrow> bool" where
  "resumes_on_use h \<longleftrightarrow> hw_kind h = E2bHost \<and> hw_state h \<in> {HostPaused, HostResuming} \<and> hw_desired h \<noteq> DesiredDeleted"

definition row_for_operation :: "operation_world \<Rightarrow> (gateway_http_error + host_row) option" where
  "row_for_operation ow = (case found_row (ow_read ow) of
     Inl e \<Rightarrow> Some (Inl e)
   | Inr h \<Rightarrow>
       if \<not> resumes_on_use h then Some (Inr h)
       else if \<not> ow_resume_recorded ow then Some (Inl database_error)
       else await_resumed (ow_now ow + 20000) (ow_reads ow))"

definition admit_operation :: "operation_world \<Rightarrow> (gateway_http_error + host_kind) option" where
  "admit_operation ow =
     (if \<not> ow_permit ow
      then Some (Inl (http_retryable (http_error_new 429 ''GATEWAY_BUSY'' ''the gateway has too many execution operations in flight'')))
      else case row_for_operation ow of
        None \<Rightarrow> None
      | Some (Inl e) \<Rightarrow> Some (Inl e)
      | Some (Inr h) \<Rightarrow>
          if hw_state h \<noteq> HostReady \<or> hw_desired h \<noteq> DesiredReady
          then Some (Inl (http_conflict ''HOST_NOT_READY'' (''host is currently '' @ host_state_name (hw_state h))))
          else Some (Inr (hw_kind h)))"

definition execute_operation ::
  "operation_world \<Rightarrow> ('s \<Rightarrow> (host_connection_error + response_envelope) \<times> 's) \<Rightarrow> ('s \<Rightarrow> (gateway_http_error + response_envelope) \<times> 's) \<Rightarrow>
   's \<Rightarrow> ((gateway_http_error + response_envelope) \<times> 's) option" where
  "execute_operation ow registered provider s = (case admit_operation ow of
     None \<Rightarrow> None
   | Some (Inl e) \<Rightarrow> Some (Inl e, s)
   | Some (Inr RegisteredHost) \<Rightarrow>
       Some (case registered s of (Inl e, s') \<Rightarrow> (Inl (host_connection_http_error e), s') | (Inr r, s') \<Rightarrow> (Inr r, s'))
   | Some (Inr E2bHost) \<Rightarrow> Some (provider s))"

section \<open>Results\<close>

lemmas http_error_defs = http_error_new_def http_not_found_def http_conflict_def http_internal_def http_retryable_def database_error_def

lemma found_row_status: "found_row rd = Inl e \<Longrightarrow> 400 \<le> ge_status e"
  by (auto simp: found_row_def http_error_defs split: sum.splits option.splits)

lemma await_resumed_status: "await_resumed deadline rds = Some (Inl e) \<Longrightarrow> 400 \<le> ge_status e"
  by (induction deadline rds rule: await_resumed.induct)
    (auto simp: http_error_defs dest: found_row_status split: sum.splits if_splits)

lemma admit_operation_status:
  assumes "admit_operation ow = Some (Inl e)"
  shows "400 \<le> ge_status e"
  using assms
  by (auto simp: admit_operation_def row_for_operation_def http_error_defs split: if_splits option.splits sum.splits
      dest: await_resumed_status found_row_status)

lemma host_connection_status: "400 \<le> ge_status (host_connection_http_error e)"
  by (cases e) (simp_all add: host_connection_http_error_def http_error_defs)

text \<open>Waiting for a host ends: a read at or after the deadline, or one that does not find it resuming, gives a result.\<close>

lemma await_resumed_returns: "\<exists>(rd, now) \<in> set rds. deadline \<le> now \<Longrightarrow> \<exists>x. await_resumed deadline rds = Some x"
  by (induction deadline rds rule: await_resumed.induct) (auto split: sum.splits)

text \<open>Only a host that is ready and wanted ready is used, and it is resumed for use only when it is an E2B host that nobody deletes.\<close>

lemma await_resumed_row: "await_resumed deadline rds = Some (Inr h) \<Longrightarrow> hw_state h \<noteq> HostResuming"
  by (induction deadline rds rule: await_resumed.induct) (auto split: sum.splits if_splits)

lemma admitted_is_ready:
  assumes "admit_operation ow = Some (Inr k)"
  shows "ow_permit ow \<and> (\<exists>h. row_for_operation ow = Some (Inr h) \<and> hw_kind h = k \<and> hw_state h = HostReady \<and> hw_desired h = DesiredReady)"
  using assms by (auto simp: admit_operation_def split: if_splits option.splits sum.splits)

end
