(* ===== verification/Read_Tool.thy ===== *)
theory Read_Tool
  imports Tool_Paths Exec_Runtime
begin

text \<open>
  The \<open>read\<close> tool (\<open>platform/packages/tools/read/src/{lib,reader,text}.rs\<close>): a window of numbered
  lines of a text file, produced byte by byte under a limit on lines and on rendered bytes. The
  lemmas show that the window consists of whole consecutive lines, that following the
  continuation offsets visits every line once, and that the rendered result respects
  the configured number of bytes.
\<close>

section \<open>Data\<close>

definition FOOTER_RESERVE :: nat where "FOOTER_RESERVE = 256"

record read_input =
  ri_file_path :: string
  ri_offset :: "nat option"
  ri_limit :: "nat option"

record read_config =
  rc_max_lines :: nat
  rc_max_output_bytes :: nat
  rc_max_scan_bytes :: nat
  rc_chunk_bytes :: nat

definition read_config_default :: read_config where
  "read_config_default = \<lparr>rc_max_lines = 2000, rc_max_output_bytes = 50 * 1024, rc_max_scan_bytes = 64 * 1024 * 1024,
     rc_chunk_bytes = 64 * 1024\<rparr>"

datatype truncation = LineLimit | ByteLimit

record text_read_output =
  tx_content :: string
  tx_start_line :: nat
  tx_end_line :: "nat option"
  tx_eof :: bool
  tx_truncation :: "truncation option"
  tx_next_offset :: "nat option"

text \<open>\<open>ro_window\<close> holds the fields that \<open>result\<close> copies from the window into \<open>ReadOutput\<close>.\<close>

record read_output =
  ro_path :: exec_path
  ro_revision :: string
  ro_window :: text_read_output

definition read_error :: "error_code \<Rightarrow> string \<Rightarrow> exec_error" where
  "read_error c m = with_detail (exec_error_new c m) ''source'' (DText ''tool-read'')"

section \<open>Rendering\<close>

text \<open>\<open>str::split_inclusive('\n')\<close> and the padding of \<open>{:>6}\<close>.\<close>

fun split_inclusive :: "string \<Rightarrow> string list" where
  "split_inclusive [] = []"
| "split_inclusive (c # s) =
     (if c = LF then [LF] # split_inclusive s
      else case split_inclusive s of [] \<Rightarrow> [[c]] | l # ls \<Rightarrow> (c # l) # ls)"

definition pad6 :: "string \<Rightarrow> string" where
  "pad6 s = replicate (6 - length s) CHR '' '' @ s"

fun numbered :: "nat \<Rightarrow> string list \<Rightarrow> string" where
  "numbered n [] = []"
| "numbered n (l # ls) = pad6 (show_nat n) @ [CHR 0x09] @ l @ numbered (n + 1) ls"

definition window_footer :: "text_read_output \<Rightarrow> string" where
  "window_footer out = (case tx_end_line out of
     None \<Rightarrow> ''[File is empty.]'' @ [LF]
   | Some end \<Rightarrow> (case tx_next_offset out of
       Some next \<Rightarrow>
         ''[Showing lines '' @ show_nat (tx_start_line out) @ ''-'' @ show_nat end @ ''; '' @
         (if tx_truncation out = Some ByteLimit then ''output byte limit'' else ''line limit'') @
         '' reached. Use offset='' @ show_nat next @ '' to continue.]'' @ [LF]
     | None \<Rightarrow> ''[End of file at line '' @ show_nat end @ ''.]'' @ [LF]))"

definition read_output_text :: "read_output \<Rightarrow> string" where
  "read_output_text out =
     (let w = ro_window out;
          body = numbered (tx_start_line w) (split_inclusive (tx_content w))
      in body @ (if body \<noteq> [] \<and> last body \<noteq> LF then [LF] else []) @ window_footer w)"

section \<open>The line reader\<close>

record line_reader =
  lr_output :: text_read_output
  lr_limit :: nat
  lr_budget :: nat
  lr_number :: nat
  lr_line :: string
  lr_rendered :: nat

definition line_reader_new :: "nat \<Rightarrow> nat \<Rightarrow> read_config \<Rightarrow> line_reader exec_result" where
  "line_reader_new start limit cfg =
     (if start = 0 \<or> limit = 0 \<or> rc_max_lines cfg = 0 \<or> rc_max_output_bytes cfg \<le> FOOTER_RESERVE
      then Inl (Fail (read_error InvalidRequest ''offset, limit and read budgets must be positive''))
      else Inr \<lparr>lr_output = \<lparr>tx_content = [], tx_start_line = start, tx_end_line = None, tx_eof = False,
                  tx_truncation = None, tx_next_offset = None\<rparr>,
                lr_limit = min limit (rc_max_lines cfg), lr_budget = rc_max_output_bytes cfg - FOOTER_RESERVE,
                lr_number = 1, lr_line = [], lr_rendered = 0\<rparr>)"

definition line_width :: "nat \<Rightarrow> nat" where
  "line_width n = max (length (show_nat n)) 6 + 1"

definition append_line :: "line_reader \<Rightarrow> line_reader exec_result" where
  "append_line r =
     (if \<not> utf8_valid (lr_line r) then Inl (Fail (read_error Unsupported ''requested content is not valid UTF-8 text''))
      else Inr (r\<lparr>lr_rendered := lr_rendered r + line_width (lr_number r) + length (lr_line r)
                     + (if ends_with [LF] (lr_line r) then 0 else 1),
                  lr_output := (lr_output r)\<lparr>tx_content := tx_content (lr_output r) @ lr_line r,
                     tx_end_line := Some (lr_number r)\<rparr>,
                  lr_line := []\<rparr>))"

definition stop_reader :: "truncation \<Rightarrow> line_reader \<Rightarrow> line_reader" where
  "stop_reader t r = r\<lparr>lr_output := (lr_output r)\<lparr>tx_truncation := Some t, tx_next_offset := Some (lr_number r)\<rparr>\<rparr>"

definition next_line :: "char \<Rightarrow> line_reader \<Rightarrow> (bool \<times> line_reader) exec_result" where
  "next_line b r =
     (if b = LF
      then (case checked_add (lr_number r) 1 of
          None \<Rightarrow> Inl (Fail (read_error ResourceExhausted ''line number overflow''))
        | Some n \<Rightarrow> Inr (False, r\<lparr>lr_number := n\<rparr>))
      else Inr (False, r))"

definition line_limit_reached :: "line_reader \<Rightarrow> bool" where
  "line_limit_reached r = (case tx_end_line (lr_output r) of
     None \<Rightarrow> False
   | Some n \<Rightarrow> lr_limit r \<le> n - tx_start_line (lr_output r) + 1)"

text \<open>One byte: whether the window is complete, and the reader afterwards.\<close>

definition feed :: "line_reader \<Rightarrow> char \<Rightarrow> (bool \<times> line_reader) exec_result" where
  "feed r b =
     (if line_limit_reached r then Inr (True, stop_reader LineLimit r)
      else if b = NUL
      then Inl (Fail (read_error Unsupported ''file contains binary data (NUL); read supports UTF-8 text only''))
      else if tx_start_line (lr_output r) \<le> lr_number r
      then (let r' = r\<lparr>lr_line := lr_line r @ [b]\<rparr> in
            if lr_budget r < lr_rendered r + line_width (lr_number r) + length (lr_line r') + (if b \<noteq> LF then 1 else 0)
            then (if tx_end_line (lr_output r) = None
                  then Inl (Fail (read_error ResourceExhausted (''line '' @ show_nat (lr_number r) @ '' exceeds the output limit'')))
                  else Inr (True, stop_reader ByteLimit r'))
            else rbind (if b = LF then append_line r' else Inr r') (next_line b))
      else next_line b r)"

definition finish_reader :: "line_reader \<Rightarrow> bool \<Rightarrow> text_read_output exec_result" where
  "finish_reader r no_bytes =
     rbind (if lr_line r \<noteq> [] then append_line r else Inr r) (\<lambda>r.
       if tx_end_line (lr_output r) = None \<and> \<not> (no_bytes \<and> tx_start_line (lr_output r) = 1)
       then Inl (Fail (read_error InvalidRequest
              (''offset '' @ show_nat (tx_start_line (lr_output r)) @ '' is beyond the end of the file'')))
       else Inr ((lr_output r)\<lparr>tx_eof := True\<rparr>))"

text \<open>\<open>read_text\<close>: the loop over the bytes of a text that is at hand.\<close>

fun feed_source :: "nat \<Rightarrow> nat \<Rightarrow> line_reader \<Rightarrow> string \<Rightarrow> (line_reader + text_read_output) exec_result" where
  "feed_source scan index r [] = Inr (Inl r)"
| "feed_source scan index r (b # s) =
     (if scan \<le> index then Inl (Fail (read_error ResourceExhausted ''read scan limit reached''))
      else rbind (feed r b) (\<lambda>(stop, r').
        if stop then Inr (Inr (lr_output r')) else feed_source scan (index + 1) r' s))"

definition read_source :: "string \<Rightarrow> nat option \<Rightarrow> nat option \<Rightarrow> read_config \<Rightarrow> text_read_output exec_result" where
  "read_source s offset limit cfg =
     rbind (line_reader_new (case offset of Some n \<Rightarrow> n | None \<Rightarrow> 1) (case limit of Some n \<Rightarrow> n | None \<Rightarrow> rc_max_lines cfg) cfg) (\<lambda>r.
     rbind (feed_source (rc_max_scan_bytes cfg) 0 r s) (\<lambda>res. case res of
       Inr out \<Rightarrow> Inr out
     | Inl r \<Rightarrow> finish_reader r (s = [])))"

section \<open>Reading through the runtime\<close>

definition check_read_target :: "exec_path \<Rightarrow> file_metadata \<Rightarrow> string exec_result" where
  "check_read_target p m =
     (if meta_path m \<noteq> p then Inl (Fail (read_error Internal ''host returned metadata for a different path''))
      else if kind m \<noteq> File
      then Inl (Fail (read_error (if kind m = Directory then IsDirectory else Unsupported)
             ''read requires a regular text file; use bash to list directories''))
      else case revision m of
        None \<Rightarrow> Inl (Fail (read_error Unsupported ''host did not provide a file revision for a consistent read''))
      | Some r \<Rightarrow> Inr r)"

definition accept_read_chunk ::
  "exec_path \<Rightarrow> file_metadata \<Rightarrow> string \<Rightarrow> nat \<Rightarrow> nat \<Rightarrow> read_file_result \<Rightarrow> (string \<times> bool) exec_result" where
  "accept_read_chunk p m rev_id position limit reply =
     (if revision (metadata reply) \<noteq> Some rev_id \<or> file_size (metadata reply) \<noteq> file_size m
      then Inl (Fail (read_error RevisionConflict ''file changed while reading; retry the read''))
      else if result_offset reply \<noteq> position \<or> meta_path (metadata reply) \<noteq> p
              \<or> limit < length (read_data reply) \<or> kind (metadata reply) \<noteq> File
              \<or> (read_data reply = [] \<and> \<not> read_eof reply)
      then Inl (Fail (read_error Internal ''host returned an invalid file-read response''))
      else case checked_add position (length (read_data reply)) of
        None \<Rightarrow> Inl (Fail (read_error Internal ''file offset overflow''))
      | Some end \<Rightarrow>
          if file_size m < end \<or> (read_eof reply \<and> end \<noteq> file_size m)
          then Inl (Fail (read_error RevisionConflict ''file size changed or host returned an inconsistent EOF''))
          else Inr (read_data reply, read_eof reply))"

text \<open>The bytes of one reply; the cancellation checkpoint is consulted every 4096 bytes.\<close>

fun feed_chunk :: "'h runtime \<Rightarrow> nat \<Rightarrow> line_reader \<Rightarrow> string \<Rightarrow> ('h, line_reader + text_read_output) io" where
  "feed_chunk rt index r [] = io_lift (Inr (Inl r))"
| "feed_chunk rt index r (b # s) =
     io_bind (if index mod 4096 = 0 then rt_checkpoint rt else io_lift (Inr ())) (\<lambda>_.
     io_bind (io_lift (feed r b)) (\<lambda>(stop, r').
       if stop then io_lift (Inr (Inr (lr_output r'))) else feed_chunk rt (index + 1) r' s))"

definition fetch_chunk ::
  "'h runtime \<Rightarrow> read_config \<Rightarrow> exec_path \<Rightarrow> file_metadata \<Rightarrow> string \<Rightarrow> nat \<Rightarrow> nat \<Rightarrow> ('h, string \<times> bool) io" where
  "fetch_chunk rt cfg p m rev_id chunk position =
     (let remaining = rc_max_scan_bytes cfg - position; limit = min chunk remaining in
      io_bind (rt_checkpoint rt) (\<lambda>_.
      if remaining = 0
      then io_lift (Inl (Fail (read_error ResourceExhausted
             ''read scan limit reached; narrow the file with bash or increase the harness scan limit'')))
      else io_bind (rt_read rt \<lparr>read_path = p, read_offset = position, max_bytes = limit, read_follow_symlinks = True\<rparr>) (\<lambda>reply.
           io_bind (rt_checkpoint rt) (\<lambda>_.
           io_lift (accept_read_chunk p m rev_id position limit reply)))))"

lemma accept_read_chunk_Inr:
  assumes "accept_read_chunk p m rev_id position limit reply = Inr (bytes, ended)"
  shows "bytes = read_data reply" and "position + length bytes \<le> file_size m" and "\<not> ended \<Longrightarrow> bytes \<noteq> []"
    and "ended \<Longrightarrow> position + length bytes = file_size m"
  using assms by (auto simp: accept_read_chunk_def split: if_splits option.splits)

lemma fetch_chunk_Inr:
  assumes "fetch_chunk rt cfg p m rev_id chunk position h = (Inr (bytes, ended), h')"
  obtains reply h1 h2 where "rt_checkpoint rt h = (Inr (), h1)" and "position < rc_max_scan_bytes cfg"
    and "rt_read rt \<lparr>read_path = p, read_offset = position, max_bytes = min chunk (rc_max_scan_bytes cfg - position),
           read_follow_symlinks = True\<rparr> h1 = (Inr reply, h2)"
    and "rt_checkpoint rt h2 = (Inr (), h')"
    and "accept_read_chunk p m rev_id position (min chunk (rc_max_scan_bytes cfg - position)) reply = Inr (bytes, ended)"
  using assms by (auto simp: fetch_chunk_def Let_def io_bind_Inr_iff split: if_splits)

function window_loop ::
  "'h runtime \<Rightarrow> read_config \<Rightarrow> exec_path \<Rightarrow> file_metadata \<Rightarrow> string \<Rightarrow> nat \<Rightarrow> nat \<Rightarrow> line_reader \<Rightarrow> ('h, text_read_output) io" where
  "window_loop rt cfg p m rev_id chunk position r h =
     (case fetch_chunk rt cfg p m rev_id chunk position h of
        (Inl e, h') \<Rightarrow> (Inl e, h')
      | (Inr (bytes, ended), h') \<Rightarrow>
          (case feed_chunk rt 0 r bytes h' of
             (Inl e, h'') \<Rightarrow> (Inl e, h'')
           | (Inr (Inr out), h'') \<Rightarrow> (Inr out, h'')
           | (Inr (Inl r'), h'') \<Rightarrow>
               (if ended then (finish_reader r' (file_size m = 0), h'')
                else window_loop rt cfg p m rev_id chunk (position + length bytes) r' h'')))"
  by pat_completeness auto
termination
proof (relation "measure (\<lambda>(_, _, _, m, _, _, position, _, _). file_size m - position)", goal_cases)
  case (2 rt cfg p m rev_id chunk position r h x h' y bytes ended z h'' w r')
  then have "fetch_chunk rt cfg p m rev_id chunk position h = (Inr (bytes, ended), h')" "\<not> ended" by simp_all
  then obtain limit reply where "accept_read_chunk p m rev_id position limit reply = Inr (bytes, ended)"
    by (metis fetch_chunk_Inr)
  from accept_read_chunk_Inr(2,3) [OF this] \<open>\<not> ended\<close> have "position + length bytes \<le> file_size m" "0 < length bytes" by auto
  then have "file_size m - (position + length bytes) < file_size m - position" by linarith
  then show ?case by simp
qed simp

declare window_loop.simps [simp del]

definition read_window ::
  "'h runtime \<Rightarrow> exec_path \<Rightarrow> nat \<Rightarrow> nat \<Rightarrow> read_config \<Rightarrow> ('h, read_output) io" where
  "read_window rt p start limit cfg =
     io_bind (rt_stat rt \<lparr>stat_path = p, stat_follow_symlinks = True\<rparr>) (\<lambda>m.
     io_bind (rt_checkpoint rt) (\<lambda>_.
     io_bind (io_lift (check_read_target p m)) (\<lambda>rev_id.
     io_bind (io_lift (line_reader_new start limit cfg)) (\<lambda>r.
     let chunk = min (rc_chunk_bytes cfg)
           (case max_read_bytes (limits (rt_descriptor rt)) of Some n \<Rightarrow> n | None \<Rightarrow> u64_max) in
     if chunk = 0 then io_lift (Inl (Fail (read_error Unsupported ''host advertised a zero read limit'')))
     else io_bind (window_loop rt cfg p m rev_id chunk 0 r) (\<lambda>w.
          io_lift (Inr \<lparr>ro_path = p, ro_revision = rev_id, ro_window = w\<rparr>))))))"

record 'h read_tool =
  rt_runtime :: "'h runtime"
  rt_cwd :: exec_path
  rt_config :: read_config

definition read_tool_new :: "'h runtime \<Rightarrow> exec_path \<Rightarrow> read_config \<Rightarrow> 'h read_tool exec_result" where
  "read_tool_new rt wd cfg =
     rbind (validate_cwd (rt_descriptor rt) wd) (\<lambda>_.
       if rc_max_lines cfg = 0 \<or> rc_max_output_bytes cfg \<le> FOOTER_RESERVE \<or> rc_max_scan_bytes cfg = 0 \<or> rc_chunk_bytes cfg = 0
       then Inl (Fail (read_error InvalidRequest ''read limits must be positive and max_output_bytes must exceed 256''))
       else Inr \<lparr>rt_runtime = rt, rt_cwd = wd, rt_config = cfg\<rparr>)"

definition read_execute :: "'h read_tool \<Rightarrow> read_input \<Rightarrow> ('h, read_output) io" where
  "read_execute tool input =
     (let rt = rt_runtime tool; cfg = rt_config tool;
          offset = (case ri_offset input of Some n \<Rightarrow> n | None \<Rightarrow> 1);
          limit = (case ri_limit input of Some n \<Rightarrow> n | None \<Rightarrow> rc_max_lines cfg) in
      io_bind (rt_checkpoint rt) (\<lambda>_.
      if offset = 0 \<or> limit = 0
      then io_lift (Inl (Fail (read_error InvalidRequest ''offset and limit must be positive integers'')))
      else io_bind (io_lift (resolve_path (rt_descriptor rt) (rt_cwd tool) (ri_file_path input))) (\<lambda>p.
           read_window rt p offset (min limit (rc_max_lines cfg)) cfg)))"

section \<open>Lines\<close>

definition is_line :: "string \<Rightarrow> bool" where
  "is_line l \<longleftrightarrow> l \<noteq> [] \<and> last l = LF \<and> LF \<notin> set (butlast l)"

lemma is_line_snoc [simp]: "is_line (x @ [LF]) \<longleftrightarrow> LF \<notin> set x"
  by (simp add: is_line_def)

lemma is_lineE:
  assumes "is_line l"
  obtains x where "l = x @ [LF]" and "LF \<notin> set x"
  using assms by (metis append_butlast_last_id is_line_def)

lemma split_inclusive_part: "LF \<notin> set x \<Longrightarrow> split_inclusive x = (if x = [] then [] else [x])"
  by (induction x) auto

lemma split_inclusive_line: "LF \<notin> set x \<Longrightarrow> split_inclusive (x @ LF # s) = (x @ [LF]) # split_inclusive s"
  by (induction x) auto

lemma split_inclusive_lines: "list_all is_line ls \<Longrightarrow> split_inclusive (concat ls @ s) = ls @ split_inclusive s"
  by (induction ls) (auto simp: split_inclusive_line elim!: is_lineE)

lemma concat_split_inclusive [simp]: "concat (split_inclusive s) = s"
  by (induction s) (auto split: list.splits)

lemma split_inclusive_eq_Nil [simp]: "split_inclusive s = [] \<longleftrightarrow> s = []"
  by (cases s) (auto split: list.splits)

text \<open>The width of the rendered lines.\<close>

lemma length_numbered_Cons [simp]: "length (numbered n (l # ls)) = line_width n + length l + length (numbered (n + 1) ls)"
  by (simp add: pad6_def line_width_def max_def)

lemma numbered_append: "numbered n (xs @ ys) = numbered n xs @ numbered (n + length xs) ys"
  by (induction xs arbitrary: n) auto

declare numbered.simps(2) [simp del]

section \<open>What the reader has seen\<close>

definition seen_output :: "nat \<Rightarrow> string list \<Rightarrow> text_read_output" where
  "seen_output start ls = \<lparr>tx_content = concat (drop (start - 1) ls), tx_start_line = start,
     tx_end_line = (if start \<le> length ls then Some (length ls) else None), tx_eof = False,
     tx_truncation = None, tx_next_offset = None\<rparr>"

definition pending_width :: "line_reader \<Rightarrow> nat" where
  "pending_width r = (if lr_line r = [] then 0 else line_width (lr_number r) + length (lr_line r) + 1)"

text \<open>The reader after the complete lines \<open>ls\<close> and the beginning \<open>part\<close> of the next one.\<close>

definition reader_at :: "nat \<Rightarrow> nat \<Rightarrow> nat \<Rightarrow> string list \<Rightarrow> string \<Rightarrow> line_reader \<Rightarrow> bool" where
  "reader_at start limit budget ls part r \<longleftrightarrow>
     list_all is_line ls \<and> LF \<notin> set part \<and> lr_limit r = limit \<and> lr_budget r = budget \<and>
     lr_number r = length ls + 1 \<and> lr_number r \<le> u64_max \<and>
     lr_line r = (if start \<le> lr_number r then part else []) \<and>
     lr_rendered r = length (numbered start (drop (start - 1) ls)) \<and> lr_output r = seen_output start ls \<and>
     length ls - (start - 1) \<le> limit \<and> (part \<noteq> [] \<and> start \<le> length ls \<longrightarrow> length ls - (start - 1) < limit) \<and>
     lr_rendered r + pending_width r \<le> budget"

lemma reader_at_new:
  assumes "line_reader_new start limit cfg = Inr r"
  shows "reader_at start (min limit (rc_max_lines cfg)) (rc_max_output_bytes cfg - FOOTER_RESERVE) [] [] r"
    and "0 < start" and "0 < min limit (rc_max_lines cfg)" and "FOOTER_RESERVE < rc_max_output_bytes cfg"
  using assms
  by (auto simp: line_reader_new_def reader_at_def seen_output_def pending_width_def u64_max_def split: if_splits)

lemma line_limit_iff:
  assumes "reader_at start limit budget ls part r" and "0 < start"
  shows "line_limit_reached r \<longleftrightarrow> start \<le> length ls \<and> limit \<le> length ls - (start - 1)"
  using assms by (auto simp: reader_at_def line_limit_reached_def seen_output_def)

lemma seen_output_snoc:
  assumes "0 < start" and "start \<le> length ls + 1"
  shows "seen_output start (ls @ [l]) = (seen_output start ls)\<lparr>tx_content := concat (drop (start - 1) ls) @ l, tx_end_line := Some (length ls + 1)\<rparr>"
  using assms by (simp add: seen_output_def)

lemma numbered_snoc:
  assumes "0 < start" and "start \<le> length ls + 1"
  shows "length (numbered start (drop (start - 1) (ls @ [l]))) =
     length (numbered start (drop (start - 1) ls)) + line_width (length ls + 1) + length l"
proof -
  have "start - 1 \<le> length ls" using assms by simp
  then have "drop (start - 1) (ls @ [l]) = drop (start - 1) ls @ [l]" by simp
  moreover have "start + length (drop (start - 1) ls) = length ls + 1" using assms by simp
  ultimately show ?thesis by (simp add: numbered_append)
qed

lemma feed_line:
  assumes at: "reader_at start limit budget ls part r" and "0 < start" "0 < limit" and f: "feed r LF = Inr (False, r')"
  shows "reader_at start limit budget (ls @ [part @ [LF]]) [] r'"
proof (cases "start \<le> length ls + 1")
  case True
  have nl: "\<not> line_limit_reached r" using f by (auto simp: feed_def)
  then have lim: "length (ls @ [part @ [LF]]) - (start - 1) \<le> limit"
    using line_limit_iff [OF at assms(2)] assms(2,3) True by auto
  have l: "lr_line r = part" "lr_number r = length ls + 1" "tx_start_line (lr_output r) = start"
    using at True by (auto simp: reader_at_def seen_output_def)
  let ?r1 = "r\<lparr>lr_line := part @ [LF]\<rparr>"
  from f nl True l obtain r2 where b: "lr_rendered r + line_width (length ls + 1) + length (part @ [LF]) \<le> lr_budget r"
      and r2: "append_line ?r1 = Inr r2" and nx: "next_line LF r2 = Inr (False, r')"
    by (auto simp: feed_def Let_def rbind_Inr_iff not_less split: if_splits)
  from r2 have r2': "r2 = ?r1\<lparr>lr_rendered := lr_rendered r + line_width (length ls + 1) + length (part @ [LF]),
      lr_output := (lr_output r)\<lparr>tx_content := tx_content (lr_output r) @ part @ [LF], tx_end_line := Some (length ls + 1)\<rparr>, lr_line := []\<rparr>"
    using l by (auto simp: append_line_def ends_with_iff split: if_splits)
  from nx have r': "r' = r2\<lparr>lr_number := length ls + 2\<rparr>" "length ls + 2 \<le> u64_max"
    using l r2' by (auto simp: next_line_def split: option.splits)
  show ?thesis
    using at lim b r' r2' True numbered_snoc [OF assms(2) True, of "part @ [LF]"] seen_output_snoc [OF assms(2) True, of "part @ [LF]"]
    by (simp add: reader_at_def pending_width_def seen_output_def)
next
  case False
  then have "next_line LF r = Inr (False, r')"
    using at f by (auto simp: feed_def reader_at_def seen_output_def line_limit_reached_def)
  then have r': "r' = r\<lparr>lr_number := length ls + 2\<rparr>" "length ls + 2 \<le> u64_max"
    using at by (auto simp: next_line_def reader_at_def split: option.splits)
  show ?thesis
    using at r' False by (simp add: reader_at_def pending_width_def seen_output_def)
qed

lemma feed_byte:
  assumes at: "reader_at start limit budget ls part r" and "0 < start" and b: "b \<noteq> LF" and f: "feed r b = Inr (False, r')"
  shows "reader_at start limit budget ls (part @ [b]) r'"
proof (cases "start \<le> length ls + 1")
  case True
  with f b at have "r' = r\<lparr>lr_line := part @ [b]\<rparr>" "lr_rendered r + line_width (length ls + 1) + length (part @ [b]) + 1 \<le> lr_budget r"
    by (auto simp: feed_def Let_def rbind_Inr_iff next_line_def reader_at_def seen_output_def not_less split: if_splits)
  moreover have "\<not> line_limit_reached r" using f by (auto simp: feed_def)
  with line_limit_iff [OF at assms(2)] have "start \<le> length ls \<longrightarrow> length ls - (start - 1) < limit" by auto
  ultimately show ?thesis using at True b by (simp add: reader_at_def pending_width_def)
next
  case False
  with f b at have "r' = r"
    by (auto simp: feed_def next_line_def reader_at_def seen_output_def split: if_splits)
  with at False b show ?thesis by (simp add: reader_at_def pending_width_def)
qed

lemma feed_stop:
  assumes at: "reader_at start limit budget ls part r" and "0 < start" and f: "feed r b = Inr (True, r')"
  shows "start \<le> length ls \<and> (\<exists>t. lr_output r' = (seen_output start ls)\<lparr>tx_truncation := Some t, tx_next_offset := Some (length ls + 1)\<rparr>)"
proof (cases "line_limit_reached r")
  case True
  with f at line_limit_iff [OF at assms(2)] show ?thesis by (auto simp: feed_def stop_reader_def reader_at_def)
next
  case False
  with f have "tx_end_line (lr_output r) \<noteq> None" "lr_output r' = (lr_output r)\<lparr>tx_truncation := Some ByteLimit, tx_next_offset := Some (lr_number r)\<rparr>"
    by (auto simp: feed_def Let_def rbind_Inr_iff next_line_def stop_reader_def split: if_splits option.splits)
  with at show ?thesis by (auto simp: reader_at_def seen_output_def split: if_splits)
qed

text \<open>
  A window on a text: \<open>k\<close> whole lines from line \<open>start\<close> on, where it ends and how to continue.
\<close>

definition line_window :: "string \<Rightarrow> nat \<Rightarrow> nat \<Rightarrow> text_read_output \<Rightarrow> bool" where
  "line_window s start k out \<longleftrightarrow>
     tx_content out = concat (take k (drop (start - 1) (split_inclusive s))) \<and> tx_start_line out = start \<and>
     tx_end_line out = (if k = 0 then None else Some (start + k - 1)) \<and>
     start - 1 + k \<le> length (split_inclusive s) \<and> (k = 0 \<longrightarrow> s = []) \<and>
     (tx_eof out \<longleftrightarrow> start - 1 + k = length (split_inclusive s)) \<and>
     tx_next_offset out = (if tx_eof out then None else Some (start + k))"

text \<open>The rendered lines, with the line feed that \<open>to_text\<close> adds to an unfinished last line.\<close>

definition rendered_width :: "nat \<Rightarrow> string list \<Rightarrow> nat" where
  "rendered_width start ls = length (numbered start ls) + (if ls \<noteq> [] \<and> last (last ls) \<noteq> LF then 1 else 0)"

definition window_fits :: "string \<Rightarrow> nat \<Rightarrow> nat \<Rightarrow> nat \<Rightarrow> bool" where
  "window_fits s start k budget \<longleftrightarrow> rendered_width start (take k (drop (start - 1) (split_inclusive s))) \<le> budget \<and>
     length (split_inclusive s) \<le> u64_max"

lemma complete_last: "list_all is_line ls \<Longrightarrow> ls \<noteq> [] \<Longrightarrow> last (last ls) = LF"
  by (induction ls rule: rev_induct) (auto simp: is_line_def)

lemma rendered_complete: "list_all is_line ls \<Longrightarrow> rendered_width n ls = length (numbered n ls)"
  using complete_last [of ls] by (auto simp: rendered_width_def)

lemma stopped_window:
  assumes at: "reader_at start limit budget ls part r" and "0 < start" and f: "feed r b = Inr (True, r')"
    and s: "s = concat ls @ part @ b # rest"
  shows "\<exists>k. line_window s start k (lr_output r') \<and> k \<le> limit \<and>
     rendered_width start (take k (drop (start - 1) (split_inclusive s))) \<le> budget \<and> start + k \<le> u64_max"
proof -
  from feed_stop [OF at assms(2) f] obtain t where st: "start \<le> length ls"
      and out: "lr_output r' = (seen_output start ls)\<lparr>tx_truncation := Some t, tx_next_offset := Some (length ls + 1)\<rparr>" by blast
  have lines: "list_all is_line ls" using at by (simp add: reader_at_def)
  have all: "split_inclusive s = ls @ split_inclusive (part @ b # rest)"
    unfolding s by (rule split_inclusive_lines [OF lines])
  let ?k = "length ls - (start - 1)"
  have tk: "take ?k (drop (start - 1) (split_inclusive s)) = drop (start - 1) ls"
    unfolding all using st assms(2) by simp
  have "list_all is_line (drop (start - 1) ls)" using lines by (auto simp: list_all_iff dest: in_set_dropD)
  then have w: "rendered_width start (drop (start - 1) ls) = length (numbered start (drop (start - 1) ls))"
    by (rule rendered_complete)
  have "line_window s start ?k (lr_output r')"
    unfolding line_window_def tk using st assms(2) out by (simp add: seen_output_def all)
  moreover have "?k \<le> limit" "length (numbered start (drop (start - 1) ls)) \<le> budget" "length ls + 1 \<le> u64_max"
    using at by (auto simp: reader_at_def)
  ultimately show ?thesis using tk w st assms(2) by (intro exI [of _ ?k]) auto
qed

lemma finished_window:
  assumes at: "reader_at start limit budget ls part r" and "0 < start" "0 < limit"
    and f: "finish_reader r (s = []) = Inr out" and s: "s = concat ls @ part"
  shows "\<exists>k. line_window s start k out \<and> k \<le> limit \<and>
     rendered_width start (take k (drop (start - 1) (split_inclusive s))) \<le> budget \<and> start + k \<le> u64_max + 1"
proof -
  have lines: "list_all is_line ls" and np: "LF \<notin> set part" and num: "length ls + 1 \<le> u64_max"
    using at by (auto simp: reader_at_def)
  have all: "split_inclusive s = ls @ (if part = [] then [] else [part])"
    unfolding s split_inclusive_lines [OF lines] split_inclusive_part [OF np] ..
  have dl: "list_all is_line (drop (start - 1) ls)" using lines by (auto simp: list_all_iff dest: in_set_dropD)
  show ?thesis
  proof (cases "part \<noteq> [] \<and> start \<le> length ls + 1")
    case True
    with at have l: "lr_line r = part" "lr_number r = length ls + 1" by (auto simp: reader_at_def)
    from f True l have "out = (lr_output r)\<lparr>tx_content := tx_content (lr_output r) @ part, tx_end_line := Some (length ls + 1), tx_eof := True\<rparr>"
      by (auto simp: finish_reader_def rbind_Inr_iff append_line_def split: if_splits)
    then have out: "out = (seen_output start (ls @ [part]))\<lparr>tx_eof := True\<rparr>"
      using at True assms(2) by (simp add: reader_at_def seen_output_snoc) (simp add: seen_output_def)
    let ?k = "length ls + 1 - (start - 1)"
    have tk: "take ?k (drop (start - 1) (split_inclusive s)) = drop (start - 1) ls @ [part]"
      unfolding all using True assms(2) by simp
    have "line_window s start ?k out"
      unfolding line_window_def tk using True assms(2) out by (simp add: seen_output_def all)
    moreover have "?k \<le> limit" using at True assms(2,3) by (cases "start \<le> length ls") (auto simp: reader_at_def)
    moreover have "rendered_width start (drop (start - 1) ls @ [part]) \<le> budget"
    proof -
      have "last part \<noteq> LF" using np True last_in_set by metis
      then have "rendered_width start (drop (start - 1) ls @ [part]) = lr_rendered r + line_width (length ls + 1) + length part + 1"
        using numbered_snoc [of start ls part] assms(2) True at by (simp add: rendered_width_def reader_at_def)
      then show ?thesis using at l True by (simp add: reader_at_def pending_width_def)
    qed
    ultimately show ?thesis using tk num True assms(2) by (intro exI [of _ ?k]) auto
  next
    case False
    with at have "lr_line r = []" by (auto simp: reader_at_def)
    with f at have out: "out = (seen_output start ls)\<lparr>tx_eof := True\<rparr>" and em: "start \<le> length ls \<or> s = [] \<and> start = 1"
      by (auto simp: finish_reader_def reader_at_def seen_output_def split: if_splits)
    with False have p: "part = []" using s by auto
    let ?k = "length ls - (start - 1)"
    have all': "split_inclusive s = ls" using all p by simp
    then have tk: "take ?k (drop (start - 1) (split_inclusive s)) = drop (start - 1) ls" by simp
    have em': "start \<le> length ls \<or> ls = [] \<and> s = [] \<and> start = 1" using em all' by auto
    then have "line_window s start ?k out"
      unfolding line_window_def tk using assms(2) out by (auto simp: seen_output_def all')
    moreover have "rendered_width start (drop (start - 1) ls) \<le> budget"
      unfolding rendered_complete [OF dl] using at by (simp add: reader_at_def)
    moreover have "?k \<le> limit" using at by (simp add: reader_at_def)
    ultimately show ?thesis using tk num em' by (intro exI [of _ ?k]) auto
  qed
qed

text \<open>Feeding a text from any position: the reader reaches the end or stops within it.\<close>

lemma feed_source_cases:
  assumes "reader_at start limit budget ls part r" and "0 < start" "0 < limit"
    and "feed_source scan index r s = Inr res"
  shows "(\<exists>ls' part' r'. res = Inl r' \<and> reader_at start limit budget ls' part' r' \<and> concat ls @ part @ s = concat ls' @ part') \<or>
     (\<exists>ls' part' r1 b r2 rest. res = Inr (lr_output r2) \<and> reader_at start limit budget ls' part' r1 \<and>
        feed r1 b = Inr (True, r2) \<and> concat ls @ part @ s = concat ls' @ part' @ b # rest)"
  using assms
proof (induction scan index r s arbitrary: ls part rule: feed_source.induct)
  case (1 scan index r)
  then show ?case by auto
next
  case (2 scan index r b s)
  from "2.prems"(4) obtain stop r' where f: "feed r b = Inr (stop, r')"
      and res: "(if stop then Inr (Inr (lr_output r')) else feed_source scan (index + 1) r' s) = Inr res" and sc: "\<not> scan \<le> index"
    by (auto simp: rbind_Inr_iff split: if_splits)
  show ?case
  proof (cases stop)
    case True
    with res have "res = Inr (lr_output r')" by simp
    moreover from True f have "feed r b = Inr (True, r')" by simp
    ultimately show ?thesis using "2.prems"(1) by blast
  next
    case False
    with res have rec: "feed_source scan (index + 1) r' s = Inr res" by simp
    have fF: "feed r b = Inr (False, r')" using f False by simp
    show ?thesis
    proof (cases "b = LF")
      case True
      with feed_line [OF "2.prems"(1-3)] fF have "reader_at start limit budget (ls @ [part @ [LF]]) [] r'" by simp
      from "2.IH" [OF sc False this "2.prems"(2,3) rec] True show ?thesis by simp
    next
      case other: False
      from feed_byte [OF "2.prems"(1,2) other fF] have "reader_at start limit budget ls (part @ [b]) r'" .
      from "2.IH" [OF sc False this "2.prems"(2,3) rec] show ?thesis by simp
    qed
  qed
qed

lemma read_source_window:
  assumes "read_source s offset limit cfg = Inr out" and "start = (case offset of Some n \<Rightarrow> n | None \<Rightarrow> 1)"
    and "lines_asked = (case limit of Some n \<Rightarrow> n | None \<Rightarrow> rc_max_lines cfg)"
  shows "\<exists>k. line_window s start k out \<and> k \<le> min lines_asked (rc_max_lines cfg) \<and> 0 < start \<and>
     rendered_width start (take k (drop (start - 1) (split_inclusive s))) \<le> rc_max_output_bytes cfg - FOOTER_RESERVE \<and>
     FOOTER_RESERVE < rc_max_output_bytes cfg \<and> start + k \<le> u64_max + 1"
proof -
  from assms obtain r res where r: "line_reader_new start lines_asked cfg = Inr r"
      and fs: "feed_source (rc_max_scan_bytes cfg) 0 r s = Inr res"
      and out: "(case res of Inr out \<Rightarrow> Inr out | Inl r \<Rightarrow> finish_reader r (s = [])) = Inr out"
    by (auto simp: read_source_def rbind_Inr_iff)
  note new = reader_at_new [OF r]
  from feed_source_cases [OF new(1-3) fs] show ?thesis
  proof (elim disjE exE conjE)
    fix ls part r'
    assume "res = Inl r'" and at: "reader_at start (min lines_asked (rc_max_lines cfg)) (rc_max_output_bytes cfg - FOOTER_RESERVE) ls part r'"
      and s: "concat [] @ [] @ s = concat ls @ part"
    with out have "finish_reader r' (s = []) = Inr out" by simp
    from finished_window [OF at new(2,3) this] s new show ?thesis by auto
  next
    fix ls part r1 b r2 rest
    assume "res = Inr (lr_output r2)" and at: "reader_at start (min lines_asked (rc_max_lines cfg)) (rc_max_output_bytes cfg - FOOTER_RESERVE) ls part r1"
      and f: "feed r1 b = Inr (True, r2)" and s: "concat [] @ [] @ s = concat ls @ part @ b # rest"
    with out have "lr_output r2 = out" by simp
    with stopped_window [OF at new(2) f, of s rest] s new show ?thesis by fastforce
  qed
qed

section \<open>The size of the rendered window\<close>

fun lines_form :: "string list \<Rightarrow> bool" where
  "lines_form [] = True"
| "lines_form [l] = (l \<noteq> [] \<and> LF \<notin> set (butlast l))"
| "lines_form (l # m # ls) = (is_line l \<and> lines_form (m # ls))"

lemma lines_form_Cons: "lines_form (l # ls) \<Longrightarrow> l \<noteq> [] \<and> LF \<notin> set (butlast l) \<and> lines_form ls"
  by (cases ls) (auto simp: is_line_def)

lemma lines_form_split: "lines_form (split_inclusive s)"
proof (induction s)
  case (Cons c s)
  then show ?case
    by (cases "split_inclusive s" rule: lines_form.cases) (auto simp: is_line_def)
qed simp

lemma lines_form_drop: "lines_form ls \<Longrightarrow> lines_form (drop n ls)"
proof (induction ls arbitrary: n)
  case (Cons l ls)
  then show ?case using lines_form_Cons [OF Cons.prems] by (cases n) auto
qed simp

lemma lines_form_take: "lines_form ls \<Longrightarrow> lines_form (take n ls)"
proof (induction ls arbitrary: n)
  case (Cons l ls)
  show ?case
  proof (cases n)
    case (Suc j)
    have c: "l \<noteq> []" "LF \<notin> set (butlast l)" "lines_form (take j ls)"
      using Cons.IH lines_form_Cons [OF Cons.prems] by auto
    show ?thesis
    proof (cases "take j ls")
      case Nil
      with c show ?thesis unfolding Suc take_Suc_Cons Nil by simp
    next
      case (Cons m ms)
      then have "is_line l" using \<open>lines_form (l # ls)\<close> by (cases ls) auto
      with c Suc Cons show ?thesis by simp
    qed
  qed simp
qed simp

lemma split_inclusive_concat: "lines_form ls \<Longrightarrow> split_inclusive (concat ls) = ls"
proof (induction ls rule: lines_form.induct)
  case (2 l)
  then have l: "l = butlast l @ [last l]" "LF \<notin> set (butlast l)" by auto
  show ?case
  proof (cases "last l = LF")
    case True
    with l split_inclusive_line [of "butlast l" "[]"] show ?thesis by simp
  next
    case False
    with l have "LF \<notin> set l" by (metis append_is_Nil_conv in_set_butlastD last_in_set rotate1.simps(2) set_ConsD set_rotate1)
    with 2 show ?thesis by (simp add: split_inclusive_part)
  qed
next
  case (3 l m ls)
  then have "is_line l" "lines_form (m # ls)" by simp_all
  with split_inclusive_lines [of "[l]" "concat (m # ls)"] 3 show ?case by simp
qed simp

lemma numbered_last: "ls \<noteq> [] \<Longrightarrow> lines_form ls \<Longrightarrow> numbered n ls \<noteq> [] \<and> last (numbered n ls) = last (last ls)"
proof (induction ls arbitrary: n rule: lines_form.induct)
  case (3 l m ls)
  then show ?case by (simp add: numbered.simps(2) [of n])
qed (auto simp: numbered.simps(2))

lemma body_width:
  assumes "line_window s start k w"
  shows "length (numbered start (split_inclusive (tx_content w)) @
       (if numbered start (split_inclusive (tx_content w)) \<noteq> [] \<and> last (numbered start (split_inclusive (tx_content w))) \<noteq> LF then [LF] else [])) =
     rendered_width start (take k (drop (start - 1) (split_inclusive s)))"
proof -
  let ?ls = "take k (drop (start - 1) (split_inclusive s))"
  have f: "lines_form ?ls" by (intro lines_form_take lines_form_drop lines_form_split)
  have "split_inclusive (tx_content w) = ?ls" using assms split_inclusive_concat [OF f] by (simp add: line_window_def)
  moreover obtain xs where xs: "?ls = xs" and fx: "lines_form xs" using f by simp
  ultimately have "split_inclusive (tx_content w) = xs" by simp
  then show ?thesis unfolding xs using numbered_last [OF _ fx, of start] by (cases xs) (simp_all add: rendered_width_def)
qed

lemma length_show_nat: "n < 10 ^ k \<Longrightarrow> 0 < k \<Longrightarrow> length (show_nat n) \<le> k"
proof (induction k arbitrary: n)
  case (Suc k)
  show ?case
  proof (cases "n < 10")
    case False
    then have "n div 10 < 10 ^ k" "0 < k" using Suc.prems by (auto simp: less_mult_imp_div_less intro: gr0I)
    from Suc.IH [OF this] False show ?thesis by (subst show_nat.simps) simp
  qed (subst show_nat.simps, simp)
qed simp

lemma footer_width:
  assumes "line_window s start k w" and "start + k \<le> u64_max + 1" and "0 < start"
  shows "length (window_footer w) \<le> FOOTER_RESERVE"
proof -
  have d: "n \<le> u64_max + 1 \<Longrightarrow> length (show_nat n) \<le> 20" for n
    by (rule length_show_nat) (simp_all add: u64_max_def)
  have e: "tx_start_line w = start" "tx_end_line w = (if k = 0 then None else Some (start + k - 1))"
      "tx_next_offset w = None \<or> tx_next_offset w = Some (start + k)"
    using assms(1) by (auto simp: line_window_def)
  have "length (show_nat start) \<le> 20" "length (show_nat (start + k - 1)) \<le> 20" "length (show_nat (start + k)) \<le> 20"
    using assms(2) by (auto intro!: d)
  with e show ?thesis by (auto simp: window_footer_def FOOTER_RESERVE_def)
qed

section \<open>Reading through a host\<close>

lemma feed_source_append:
  "feed_source scan index r (x @ y) = rbind (feed_source scan index r x) (\<lambda>res. case res of
     Inl r' \<Rightarrow> feed_source scan (index + length x) r' y
   | Inr out \<Rightarrow> Inr (Inr out))"
proof (induction scan index r x rule: feed_source.induct)
  case (2 scan index r b s)
  show ?case
  proof (cases "feed r b")
    case (Inr v)
    with 2 show ?thesis by (cases v) auto
  qed simp
qed simp

lemma feed_chunk_source:
  assumes "feed_chunk rt i r bytes h = (Inr res, h')" and "index + length bytes \<le> scan"
  shows "feed_source scan index r bytes = Inr res"
  using assms
proof (induction rt i r bytes arbitrary: h index rule: feed_chunk.induct)
  case (2 rt i r b s)
  from "2.prems"(1) obtain stop r' h1 where f: "feed r b = Inr (stop, r')"
      and rec: "(if stop then io_lift (Inr (Inr (lr_output r'))) else feed_chunk rt (i + 1) r' s) h1 = (Inr res, h')"
    by (auto simp: io_bind_Inr_iff)
  have "\<not> scan \<le> index" using "2.prems"(2) by simp
  moreover have "\<not> stop \<Longrightarrow> feed_source scan (index + 1) r' s = Inr res"
    using "2.IH" [of stop r' h1 "index + 1"] rec "2.prems"(2) by simp
  ultimately show ?case using f rec by auto
qed auto

lemma feed_chunk_preserves: "preserves P (rt_checkpoint rt) \<Longrightarrow> preserves P (feed_chunk rt i r bytes)"
  by (induction rt i r bytes rule: feed_chunk.induct) (auto split: prod.splits)

context file_host
begin

lemma feed_chunk_frame:
  assumes "ok h" and "feed_chunk rt i r bytes h = (res, h')"
  shows "ok h' \<and> files h' = files h \<and> used h' = used h"
proof -
  let ?P = "\<lambda>k. ok k \<and> files k = files h \<and> used k = used h"
  have "preserves ?P (rt_checkpoint rt)" unfolding preserves_def using checkpoint_frame by metis
  from preservesD [OF feed_chunk_preserves [OF this] _ assms(2)] assms(1) show ?thesis by simp
qed

lemma fetch_chunk_contents:
  assumes "ok h" and "files h p = Some c" and "file_size m = length c"
    and "fetch_chunk rt cfg p m rev_id chunk position h = (Inr (bytes, ended), h')"
  shows "ok h' \<and> files h' = files h \<and> used h' = used h \<and> bytes = take (length bytes) (drop position c) \<and>
     position + length bytes \<le> rc_max_scan_bytes cfg \<and> position + length bytes \<le> length c \<and>
     (\<not> ended \<longrightarrow> bytes \<noteq> []) \<and> (ended \<longrightarrow> position + length bytes = length c)"
proof -
  let ?n = "min chunk (rc_max_scan_bytes cfg - position)"
  from assms(4) obtain reply h1 h2 where h1: "rt_checkpoint rt h = (Inr (), h1)" and pos: "position < rc_max_scan_bytes cfg"
      and rd: "rt_read rt \<lparr>read_path = p, read_offset = position, max_bytes = ?n, read_follow_symlinks = True\<rparr> h1 = (Inr reply, h2)"
      and h2: "rt_checkpoint rt h2 = (Inr (), h')" and ac: "accept_read_chunk p m rev_id position ?n reply = Inr (bytes, ended)"
    by (rule fetch_chunk_Inr)
  have f1: "ok h1 \<and> files h1 = files h \<and> used h1 = used h" using checkpoint_frame [OF assms(1) h1] .
  have f2: "ok h2 \<and> files h2 = files h1 \<and> used h2 = used h1" using read_frame [OF conjunct1 [OF f1] rd] .
  have f3: "ok h' \<and> files h' = files h2 \<and> used h' = used h2" using checkpoint_frame [OF conjunct1 [OF f2] h2] .
  note a = accept_read_chunk_Inr [OF ac]
  have "bytes = take ?n (drop position c)" using read_contents [OF conjunct1 [OF f1] rd] assms(2) f1 a(1) by auto
  moreover from this have "length bytes \<le> ?n" by (metis length_take min.cobounded2)
  moreover from calculation(1) have "bytes = take (length bytes) (drop position c)" by (metis append_eq_conv_conj append_take_drop_id)
  ultimately show ?thesis using f1 f2 f3 a pos assms(3) by auto
qed

lemma window_loop_source:
  assumes "window_loop rt cfg p m rev_id chunk position r h = (Inr out, h')"
    and "ok h" and "files h p = Some c" and "file_size m = length c" and "position \<le> length c"
  shows "ok h' \<and> files h' = files h \<and> used h' = used h \<and>
     rbind (feed_source (rc_max_scan_bytes cfg) position r (drop position c)) (\<lambda>res. case res of
       Inr out \<Rightarrow> Inr out | Inl r \<Rightarrow> finish_reader r (c = [])) = Inr out"
  using assms
proof (induction "length c - position" arbitrary: position r h rule: less_induct)
  case less
  let ?scan = "rc_max_scan_bytes cfg"
  obtain x h1 where fc: "fetch_chunk rt cfg p m rev_id chunk position h = (x, h1)" by force
  note eq = window_loop.simps [of rt cfg p m rev_id chunk position r h, unfolded fc]
  obtain bytes ended where x: "x = Inr (bytes, ended)" using less.prems(1) unfolding eq by (cases x) auto
  note ch = fetch_chunk_contents [OF less.prems(2-4) fc [unfolded x]]
  obtain y h2 where fd: "feed_chunk rt 0 r bytes h1 = (Inr y, h2)"
    using less.prems(1) unfolding eq x by (cases "feed_chunk rt 0 r bytes h1") (auto split: sum.splits)
  have f2: "ok h2 \<and> files h2 = files h1 \<and> used h2 = used h1" using feed_chunk_frame [OF _ fd] ch by blast
  have fs: "feed_source ?scan position r bytes = Inr y" using feed_chunk_source [OF fd] ch by blast
  have split: "drop position c = bytes @ drop (position + length bytes) c"
    using ch by (metis add.commute append_take_drop_id drop_drop)
  show ?case
  proof (cases y)
    case (Inr o')
    with less.prems(1) fd have "out = o'" "h' = h2" unfolding eq x by simp_all
    with f2 ch fs Inr show ?thesis unfolding split feed_source_append by simp
  next
    case (Inl r')
    show ?thesis
    proof (cases ended)
      case True
      with Inl less.prems(1) fd have fin: "finish_reader r' (file_size m = 0) = Inr out" "h' = h2" unfolding eq x by simp_all
      have "drop (position + length bytes) c = []" using ch True by simp
      with f2 ch fs Inl fin less.prems(4) show ?thesis unfolding split feed_source_append by simp
    next
      case False
      with Inl less.prems(1) fd have rec: "window_loop rt cfg p m rev_id chunk (position + length bytes) r' h2 = (Inr out, h')"
        unfolding eq x by simp
      have "0 < length bytes" using ch False by simp
      then have "length c - (position + length bytes) < length c - position" using ch by linarith
      from less.hyps [OF this rec] f2 ch less.prems(3,4) fs Inl show ?thesis
        unfolding split feed_source_append by simp
    qed
  qed
qed

lemma read_window_source:
  assumes "ok h" and "read_window rt p start limit cfg h = (Inr out, h')"
  shows "ok h' \<and> files h' = files h \<and> used h' = used h \<and> ro_path out = p \<and>
     (\<exists>c. files h p = Some c \<and> read_source c (Some start) (Some limit) cfg = Inr (ro_window out))"
proof -
  from assms(2) obtain m h1 h2 rev_id r w chunk where st: "rt_stat rt \<lparr>stat_path = p, stat_follow_symlinks = True\<rparr> h = (Inr m, h1)"
      and h2: "rt_checkpoint rt h1 = (Inr (), h2)" and ck: "check_read_target p m = Inr rev_id"
      and r: "line_reader_new start limit cfg = Inr r"
      and lp: "window_loop rt cfg p m rev_id chunk 0 r h2 = (Inr w, h')"
      and out: "out = \<lparr>ro_path = p, ro_revision = rev_id, ro_window = w\<rparr>"
    by (auto simp: read_window_def io_bind_Inr_iff Let_def split: if_splits)
  have f1: "ok h1 \<and> files h1 = files h \<and> used h1 = used h" using stat_frame [OF assms(1) st] .
  have f2: "ok h2 \<and> files h2 = files h1 \<and> used h2 = used h1" using checkpoint_frame [OF conjunct1 [OF f1] h2] .
  have "kind m = File" using ck by (auto simp: check_read_target_def split: if_splits)
  from stat_file [OF assms(1) st _ this] obtain c where c: "files h p = Some c" "file_size m = length c" by auto
  from window_loop_source [OF lp, of c] f1 f2 c r out show ?thesis by (auto simp: read_source_def)
qed

end

section \<open>Properties\<close>

text \<open>Reading a text page by page, each page from the offset that the one before it returned.\<close>

inductive reads_through :: "read_config \<Rightarrow> string \<Rightarrow> nat \<Rightarrow> string \<Rightarrow> bool" for cfg s where
  last_page: "read_source s (Some start) None cfg = Inr out \<Longrightarrow> tx_next_offset out = None \<Longrightarrow> reads_through cfg s start (tx_content out)"
| page: "read_source s (Some start) None cfg = Inr out \<Longrightarrow> tx_next_offset out = Some n \<Longrightarrow> reads_through cfg s n rest \<Longrightarrow>
     reads_through cfg s start (tx_content out @ rest)"

lemma reads_through_lines:
  assumes "reads_through cfg s start content"
  shows "content = concat (drop (start - 1) (split_inclusive s)) \<and> 0 < start"
  using assms
proof induction
  case (last_page start out)
  from read_source_window [OF last_page(1), of start] obtain k where k: "line_window s start k out" "0 < start" by auto
  with last_page(2) have "tx_eof out" by (auto simp: line_window_def split: if_splits)
  with k show ?case by (auto simp: line_window_def)
next
  case (page start out n rest)
  from read_source_window [OF page(1), of start] obtain k where k: "line_window s start k out" "0 < start" by auto
  with page(2) have n: "n = start + k" by (auto simp: line_window_def split: if_splits)
  then have "start + k - 1 = k + (start - 1)" using k by simp
  then have "take k (drop (start - 1) (split_inclusive s)) @ drop (n - 1) (split_inclusive s) = drop (start - 1) (split_inclusive s)"
    using n by (metis append_take_drop_id drop_drop)
  then have "concat (take k (drop (start - 1) (split_inclusive s))) @ concat (drop (n - 1) (split_inclusive s)) =
      concat (drop (start - 1) (split_inclusive s))" by (metis concat_append)
  with k page.IH show ?case by (simp add: line_window_def)
qed

definition sample_config :: read_config where
  "sample_config = \<lparr>rc_max_lines = 1, rc_max_output_bytes = 300, rc_max_scan_bytes = 50, rc_chunk_bytes = 10\<rparr>"

lemma sample_width: "line_width (Suc 0) = 7" "line_width (Suc (Suc 0)) = 7"
  by code_simp+

lemmas sample_reader_defs = read_source_def line_reader_new_def feed_def next_line_def line_limit_reached_def append_line_def
  stop_reader_def finish_reader_def sample_config_def FOOTER_RESERVE_def checked_add_def u64_max_def Let_def ends_with_iff byte_in_def

lemma sample_first_page:
  "read_source [CHR ''a'', LF, CHR ''b''] (Some 1) None sample_config = Inr \<lparr>tx_content = [CHR ''a'', LF], tx_start_line = 1,
     tx_end_line = Some 1, tx_eof = False, tx_truncation = Some LineLimit, tx_next_offset = Some 2\<rparr>"
  by (simp add: sample_reader_defs sample_width)

lemma sample_second_page:
  "read_source [CHR ''a'', LF, CHR ''b''] (Some 2) None sample_config = Inr \<lparr>tx_content = ''b'', tx_start_line = 2,
     tx_end_line = Some 2, tx_eof = True, tx_truncation = None, tx_next_offset = None\<rparr>"
  by (simp add: sample_reader_defs sample_width)

text \<open>
  C30: paging through a text loses and repeats nothing. When a reader starts at the first line and keeps following
  the continuation offset of each page until a page has none, the contents of the pages put together are
  the text, whatever the limits on lines and bytes are.
\<close>

theorem pages_reconstruct_text:
  assumes "reads_through cfg s 1 content"
  shows "content = s"
  using reads_through_lines [OF assms] by simp

theorem pages_reconstruct_text_witness: "[CHR ''a'', LF] @ ''b'' = [CHR ''a'', LF, CHR ''b'']"
proof -
  have "reads_through sample_config [CHR ''a'', LF, CHR ''b''] 2 ''b''"
    using last_page [OF sample_second_page] by simp
  from page [OF sample_first_page _ this]
  have "reads_through sample_config [CHR ''a'', LF, CHR ''b''] 1 ([CHR ''a'', LF] @ ''b'')" by simp
  from pages_reconstruct_text [OF this] show ?thesis .
qed

text \<open>
  What one page holds. A successful read from line \<open>start\<close> returns whole consecutive lines from there
  on, at most as many as were asked for and configured; the last line number, the
  end-of-file mark and the continuation offset agree with the number of lines returned, and only an
  empty text gives an empty page.
\<close>

theorem read_returns_whole_lines:
  assumes "read_source s (Some start) (Some n) cfg = Inr out"
  shows "\<exists>k \<le> min n (rc_max_lines cfg). line_window s start k out"
  using read_source_window [OF assms refl refl] by auto

theorem read_returns_whole_lines_witness:
  "\<exists>k \<le> 1. line_window [CHR ''a'', LF, CHR ''b''] 1 k \<lparr>tx_content = [CHR ''a'', LF], tx_start_line = 1,
     tx_end_line = Some 1, tx_eof = False, tx_truncation = Some LineLimit, tx_next_offset = Some 2\<rparr>"
proof -
  have "read_source [CHR ''a'', LF, CHR ''b''] (Some 1) (Some 5) sample_config = Inr \<lparr>tx_content = [CHR ''a'', LF], tx_start_line = 1,
     tx_end_line = Some 1, tx_eof = False, tx_truncation = Some LineLimit, tx_next_offset = Some 2\<rparr>"
    by (simp add: sample_reader_defs sample_width)
  from read_returns_whole_lines [OF this] show ?thesis by (simp add: sample_config_def)
qed

text \<open>
  C31: the rendered result respects the configured size. The text shown to the model, with line numbers, the line feed added after
  an unfinished last line and the footer, has at most \<open>max_output_bytes\<close> bytes: the 256
  bytes held back for the footer are always enough.
\<close>

theorem rendered_read_fits:
  assumes "read_source s offset limit cfg = Inr (ro_window out)"
  shows "length (read_output_text out) \<le> rc_max_output_bytes cfg"
proof -
  from read_source_window [OF assms refl refl] obtain start k where w: "line_window s start k (ro_window out)"
      and r: "rendered_width start (take k (drop (start - 1) (split_inclusive s))) \<le> rc_max_output_bytes cfg - FOOTER_RESERVE"
      and b: "FOOTER_RESERVE < rc_max_output_bytes cfg" "start + k \<le> u64_max + 1" "0 < start" by blast
  have s: "tx_start_line (ro_window out) = start" using w by (simp add: line_window_def)
  have "length (read_output_text out) = rendered_width start (take k (drop (start - 1) (split_inclusive s))) + length (window_footer (ro_window out))"
    unfolding body_width [OF w, symmetric] by (simp add: read_output_text_def s Let_def)
  with footer_width [OF w b(2,3)] r b(1) show ?thesis by linarith
qed

theorem rendered_read_fits_witness:
  "length (read_output_text \<lparr>ro_path = \<lparr>root_id = ''r'', path = ''f''\<rparr>, ro_revision = ''x'',
     ro_window = \<lparr>tx_content = ''b'', tx_start_line = 2, tx_end_line = Some 2, tx_eof = True, tx_truncation = None, tx_next_offset = None\<rparr>\<rparr>) \<le> 300"
proof -
  let ?out = "\<lparr>ro_path = \<lparr>root_id = ''r'', path = ''f''\<rparr>, ro_revision = ''x'',
     ro_window = \<lparr>tx_content = ''b'', tx_start_line = 2, tx_end_line = Some 2, tx_eof = True, tx_truncation = None, tx_next_offset = None\<rparr>\<rparr>"
  have "read_source [CHR ''a'', LF, CHR ''b''] (Some 2) None sample_config = Inr (ro_window ?out)"
    using sample_second_page by simp
  from rendered_read_fits [OF this] show ?thesis by (simp add: sample_config_def)
qed

end
