(* ===== verification/Supervisor_Files.thy ===== *)
theory Supervisor_Files
  imports Supervisor_Paths Exec_Runtime
begin

text \<open>
  The supervisor's implementation of the \<open>FileSystem\<close> trait (\<open>filesystem.rs\<close>) over the native
  tree: metadata and revisions, bounded reads, the two write strategies, directory creation,
  removal and paged listing, with the record of every mutation that makes
  retries under one operation identifier idempotent. SHA-256, the JSON encoding of requests, random
  identifiers, modification times, directory sizes and the faults of open files are parameters. Every call of
  the operating system succeeds or fails as a whole, except that filling a file may stop after some bytes, and
  nobody else changes the tree during an operation.
\<close>

section \<open>State\<close>

text \<open>\<open>write_fault now p = Some n\<close>: writing to the open file \<open>p\<close> fails after \<open>n\<close> bytes at that time.\<close>

record supervisor_env =
  resolver :: path_resolver
  sup_limits :: supervisor_limits
  sup_generation :: string
  sha_hex :: "string \<Rightarrow> string"
  write_json :: "write_file_request \<Rightarrow> string + string"
  create_json :: "create_directory_request \<Rightarrow> string + string"
  remove_json :: "remove_path_request \<Rightarrow> string + string"
  uuid_text :: "nat \<Rightarrow> string"
  native_modified :: "nfs \<Rightarrow> npath \<Rightarrow> nat option"
  directory_len :: "nfs \<Rightarrow> npath \<Rightarrow> nat"
  write_fault :: "nat \<Rightarrow> npath \<Rightarrow> nat option"

datatype mutation_result =
  MFailure exec_error | MWrite write_file_result | MCreateDirectory | MRemove bool

record mutation_record =
  fingerprint_of :: string
  mutation_result :: mutation_result

text \<open>\<open>sv_now\<close> counts the looks at the clock and \<open>sv_uuids\<close> the generated identifiers.\<close>

record supervisor =
  sv_fs :: nfs
  sv_records :: "(string \<times> mutation_record) list"
  sv_now :: nat
  sv_uuids :: nat

definition sup_checkpoint :: "operation_context \<Rightarrow> (supervisor, unit) io" where
  "sup_checkpoint ctx s = (checkpoint ctx (sv_now s), s\<lparr>sv_now := sv_now s + 1\<rparr>)"

definition put_fs :: "nfs \<Rightarrow> supervisor \<Rightarrow> supervisor" where
  "put_fs fs s = s\<lparr>sv_fs := fs\<rparr>"

definition put_record :: "string \<Rightarrow> string \<Rightarrow> mutation_result \<Rightarrow> supervisor \<Rightarrow> supervisor" where
  "put_record i fp res s =
     s\<lparr>sv_records := AList.update i \<lparr>fingerprint_of = fp, mutation_result = res\<rparr> (sv_records s)\<rparr>"

definition check_generation :: "supervisor_env \<Rightarrow> string option \<Rightarrow> unit exec_result" where
  "check_generation env expected =
     guard (expected = None \<or> expected = Some (sup_generation env)) (exec_error_new ExecutionLost
       ''filesystem mutation belongs to an earlier supervisor generation; inspect its outcome before retrying'')"

definition descriptor_limits :: "supervisor_env \<Rightarrow> execution_limits" where
  "descriptor_limits env = \<lparr>max_read_bytes = Some (lim_read_bytes (sup_limits env)),
     max_write_bytes = Some (lim_write_bytes (sup_limits env)),
     max_process_read_bytes = Some (lim_process_read_bytes (sup_limits env)),
     max_process_input_bytes = Some (lim_process_input_bytes (sup_limits env)),
     max_concurrent_processes = Some (lim_concurrent_processes (sup_limits env))\<rparr>"

section \<open>Metadata\<close>

fun node_kind :: "node \<Rightarrow> file_kind" where
  "node_kind (NFile _) = File"
| "node_kind NDir = Directory"
| "node_kind (NLink _) = Symlink"

definition hash_bytes :: "supervisor_env \<Rightarrow> string \<Rightarrow> string exec_result" where
  "hash_bytes env bytes = (case id_new ''FileRevision'' (sha_hex env bytes) of
     Inl _ \<Rightarrow> Inl (Panic ''SHA-256 digest is non-empty'')
   | Inr r \<Rightarrow> Inr r)"

definition hash_file :: "supervisor_env \<Rightarrow> nfs \<Rightarrow> npath \<Rightarrow> string exec_result" where
  "hash_file env fs p =
     rbind (native (resolver env) p (read_contents_of fs p)) (\<lambda>bytes. hash_bytes env bytes)"

definition hash_link :: "supervisor_env \<Rightarrow> nfs \<Rightarrow> npath \<Rightarrow> string exec_result" where
  "hash_link env fs p =
     rbind (native (resolver env) p (read_link fs p)) (\<lambda>target. hash_bytes env (utf8_lossy target))"

definition node_len :: "supervisor_env \<Rightarrow> nfs \<Rightarrow> npath \<Rightarrow> node \<Rightarrow> nat" where
  "node_len env fs p n = (case n of NFile c \<Rightarrow> length c | NLink t \<Rightarrow> length t | NDir \<Rightarrow> directory_len env fs p)"

definition metadata_for :: "supervisor_env \<Rightarrow> nfs \<Rightarrow> exec_path \<Rightarrow> npath \<Rightarrow> bool \<Rightarrow> file_metadata exec_result" where
  "metadata_for env fs spec p follow =
     rbind (native (resolver env) p (if follow then metadata_of fs p else symlink_metadata fs p)) (\<lambda>n.
     rbind (case n of
         NFile _ \<Rightarrow> rbind (hash_file env fs p) (\<lambda>r. Inr (Some r))
       | NLink _ \<Rightarrow> rbind (hash_link env fs p) (\<lambda>r. Inr (Some r))
       | NDir \<Rightarrow> Inr None) (\<lambda>rev_id.
     Inr \<lparr>meta_path = spec, kind = node_kind n, file_size = node_len env fs p n,
          modified_at = native_modified env fs p, revision = rev_id\<rparr>))"

definition sup_stat :: "supervisor_env \<Rightarrow> operation_context \<Rightarrow> stat_request \<Rightarrow> (supervisor, file_metadata) io" where
  "sup_stat env ctx rq =
     io_bind (sup_checkpoint ctx) (\<lambda>_.
     io_bind (io_lift (validated (stat_validate rq))) (\<lambda>_ s.
     (rbind (resolve_existing (resolver env) (sv_fs s) (stat_path rq) (stat_follow_symlinks rq)) (\<lambda>p.
        metadata_for env (sv_fs s) (stat_path rq) p (stat_follow_symlinks rq)), s)))"

section \<open>Bounded reads\<close>

definition buffer_bytes :: nat where "buffer_bytes = 64 * 1024"

text \<open>The part of one buffer that falls into the requested window.\<close>

definition window_part :: "nat \<Rightarrow> nat \<Rightarrow> nat \<Rightarrow> string \<Rightarrow> string" where
  "window_part off selection_end position chunk =
     (let chunk_end = position + length chunk;
          start = off - position;
          stop = min (min selection_end chunk_end - position) (length chunk)
      in if off < chunk_end \<and> position < selection_end \<and> start < stop
         then take (stop - start) (drop start chunk) else [])"

text \<open>The loop: \<open>rest\<close> is what the open file has still to deliver; a checkpoint precedes every read.\<close>

function read_scan ::
  "operation_context \<Rightarrow> nat \<Rightarrow> nat \<Rightarrow> string \<Rightarrow> nat \<Rightarrow> string \<Rightarrow> (supervisor, string \<times> nat) io" where
  "read_scan ctx off selection_end rest position selected s =
     (case sup_checkpoint ctx s of
        (Inl e, s') \<Rightarrow> (Inl e, s')
      | (Inr _, s') \<Rightarrow>
          if rest = [] then (Inr (selected, position), s')
          else let chunk = take buffer_bytes rest
               in read_scan ctx off selection_end (drop buffer_bytes rest) (position + length chunk)
                    (selected @ window_part off selection_end position chunk) s')"
  by pat_completeness auto
termination by (relation "measure (\<lambda>(_, _, _, rest, _). length rest)") (auto simp: buffer_bytes_def)

declare read_scan.simps [simp del]

definition read_limit_message :: "nat \<Rightarrow> nat \<Rightarrow> string" where
  "read_limit_message n limit =
     ''read requested '' @ show_nat n @ '' bytes but the host limit is '' @ show_nat limit"

definition read_open :: "supervisor_env \<Rightarrow> nfs \<Rightarrow> read_file_request \<Rightarrow> (npath \<times> string) exec_result" where
  "read_open env fs rq =
     rbind (resolve_existing (resolver env) fs (read_path rq) (read_follow_symlinks rq)) (\<lambda>p.
     rbind (native (resolver env) p
              (if read_follow_symlinks rq then metadata_of fs p else symlink_metadata fs p)) (\<lambda>n.
     case n of
       NFile _ \<Rightarrow> rbind (native (resolver env) p (read_contents_of fs p)) (\<lambda>c. Inr (p, c))
     | NDir \<Rightarrow> Inl (Fail (exec_error_new IsDirectory ''byte reads require a regular file''))
     | NLink _ \<Rightarrow> Inl (Fail (exec_error_new InvalidRequest ''byte reads require a regular file''))))"

definition read_reply ::
  "supervisor_env \<Rightarrow> nfs \<Rightarrow> read_file_request \<Rightarrow> npath \<Rightarrow> string \<Rightarrow> string \<Rightarrow> nat \<Rightarrow> read_file_result exec_result" where
  "read_reply env fs rq p contents selected position =
     (if position < read_offset rq then Inl (Fail (invalid_request ''read offset exceeds file size''))
      else rbind (hash_bytes env contents) (\<lambda>rev_id.
        Inr \<lparr>metadata = \<lparr>meta_path = read_path rq, kind = File, file_size = position,
               modified_at = native_modified env fs p, revision = Some rev_id\<rparr>,
             read_data = selected, result_offset = read_offset rq,
             read_eof = (position \<le> sat_add (read_offset rq) (length selected))\<rparr>))"

definition sup_read :: "supervisor_env \<Rightarrow> operation_context \<Rightarrow> read_file_request \<Rightarrow> (supervisor, read_file_result) io" where
  "sup_read env ctx rq =
     io_bind (sup_checkpoint ctx) (\<lambda>_.
     io_bind (io_lift (validated (read_file_validate rq))) (\<lambda>_.
     io_bind (io_lift (guard (max_bytes rq \<le> lim_read_bytes (sup_limits env))
        (exec_error_new ResourceExhausted (read_limit_message (max_bytes rq) (lim_read_bytes (sup_limits env)))))) (\<lambda>_ s.
     io_bind (io_lift (read_open env (sv_fs s) rq)) (\<lambda>(p, contents).
     io_bind (read_scan ctx (read_offset rq) (sat_add (read_offset rq) (max_bytes rq)) contents 0 []) (\<lambda>(selected, position).
     io_lift (read_reply env (sv_fs s) rq p contents selected position))) s)))"


section \<open>Writing\<close>

definition write_limit_message :: "nat \<Rightarrow> nat \<Rightarrow> string" where
  "write_limit_message n limit =
     ''write contains '' @ show_nat n @ '' bytes but the host limit is '' @ show_nat limit"

text \<open>\<open>symlink_metadata\<close> with a missing entry as \<open>None\<close>.\<close>

definition existing_node :: "supervisor_env \<Rightarrow> nfs \<Rightarrow> npath \<Rightarrow> node option exec_result" where
  "existing_node env fs p = (case symlink_metadata fs p of
     Inr n \<Rightarrow> Inr (Some n)
   | Inl k \<Rightarrow> if k = KNotFound then Inr None else Inl (Fail (io_error (resolver env) p k)))"

definition current_revision :: "supervisor_env \<Rightarrow> nfs \<Rightarrow> npath \<Rightarrow> node \<Rightarrow> string exec_result" where
  "current_revision env fs p n = (case n of
     NLink _ \<Rightarrow> hash_link env fs p
   | NFile _ \<Rightarrow> hash_file env fs p
   | NDir \<Rightarrow> Inl (Fail (invalid_request ''revision conditions require a regular file or symbolic link'')))"

fun check_condition :: "supervisor_env \<Rightarrow> nfs \<Rightarrow> npath \<Rightarrow> node option \<Rightarrow> write_condition \<Rightarrow> unit exec_result" where
  "check_condition env fs p existing AnyState = Inr ()"
| "check_condition env fs p existing MustNotExist =
     guard (existing = None) (exec_error_new AlreadyExists ''write target already exists'')"
| "check_condition env fs p None (MatchRevision rev_id) =
     Inl (Fail (exec_error_new RevisionConflict ''write target no longer exists''))"
| "check_condition env fs p (Some n) (MatchRevision rev_id) =
     rbind (current_revision env fs p n) (\<lambda>current.
       guard (current = rev_id) (exec_error_new RevisionConflict ''write target revision changed''))"

definition temporary_path :: "supervisor_env \<Rightarrow> nat \<Rightarrow> npath \<Rightarrow> string \<Rightarrow> npath" where
  "temporary_path env i parent name = parent @ [''.'' @ name @ ''.'' @ uuid_text env i @ ''.tmp'']"

text \<open>
  \<open>atomic_write\<close>: a new file beside the target, renamed over it; a failure to fill or to rename the new
  file removes it again. Copying the permissions and syncing have no counterpart in the tree; their
  failures, like those of \<open>write_all\<close>, are faults of the new file. \<open>finish_temporary\<close> is the part
  between creating and removing, with the path that its error names.
\<close>

definition finish_temporary :: "supervisor_env \<Rightarrow> nat \<Rightarrow> nfs \<Rightarrow> npath \<Rightarrow> npath \<Rightarrow> npath \<times> io_kind + nfs" where
  "finish_temporary env now fs temp p =
     (if write_fault env now temp \<noteq> None then Inl (temp, KWriteFailed)
      else case rename_file fs temp p of Inl k \<Rightarrow> Inl (p, k) | Inr fs' \<Rightarrow> Inr fs')"

definition atomic_write :: "supervisor_env \<Rightarrow> npath \<Rightarrow> string \<Rightarrow> (supervisor, unit) io" where
  "atomic_write env p bytes s =
     (if p = [] then (Inl (Fail (invalid_request ''write target has no parent directory'')), s)
      else let temp = temporary_path env (sv_uuids s) (butlast p) (if last p = ''..'' then ''file'' else last p);
               s1 = s\<lparr>sv_uuids := sv_uuids s + 1\<rparr>
           in case fs_create_new (sv_fs s1) temp bytes of
                Inl k \<Rightarrow> (Inl (Fail (io_error (resolver env) temp k)), s1)
              | Inr fs1 \<Rightarrow> (case finish_temporary env (sv_now s) fs1 temp p of
                  Inr fs2 \<Rightarrow> (Inr (), put_fs fs2 s1)
                | Inl (shown, k) \<Rightarrow> (Inl (Fail (io_error (resolver env) shown k)),
                    put_fs (case remove_file fs1 temp of Inr fs3 \<Rightarrow> fs3 | Inl _ \<Rightarrow> fs1) s1)))"

text \<open>\<open>create_dir_all\<close> on the supervisor's tree; a failure keeps the directories already made.\<close>

definition make_directories :: "supervisor_env \<Rightarrow> npath \<Rightarrow> (supervisor, unit) io" where
  "make_directories env p s = (case create_dir_all (sv_fs s) p of
     (None, fs') \<Rightarrow> (Inr (), put_fs fs' s)
   | (Some k, fs') \<Rightarrow> (Inl (Fail (io_error (resolver env) p k)), put_fs fs' s))"

definition parent_text :: "string \<Rightarrow> string" where
  "parent_text p = (let parts = split_char CHR ''/'' p in
     if length parts \<le> 1 then ''.'' else join ''/'' (butlast parts))"

definition partial_write_error :: "supervisor_env \<Rightarrow> npath \<Rightarrow> io_kind \<Rightarrow> exec_error" where
  "partial_write_error env p k =
     with_detail (io_error (resolver env) p k) ''mutation_outcome'' (DText ''possibly_partial'')"

text \<open>
  \<open>tokio::fs::write\<close>: the file is opened and truncated, or created, and then filled. A fault of the open
  file leaves the bytes that were written before it.
\<close>

definition os_write :: "supervisor_env \<Rightarrow> npath \<Rightarrow> string \<Rightarrow> supervisor \<Rightarrow> io_kind option \<times> supervisor" where
  "os_write env p bytes s = (case fs_write (sv_fs s) p (case write_fault env (sv_now s) p of None \<Rightarrow> bytes | Some n \<Rightarrow> take n bytes) of
     Inl k \<Rightarrow> (Some k, s)
   | Inr fs' \<Rightarrow> (if write_fault env (sv_now s) p = None then None else Some KWriteFailed, put_fs fs' s))"

definition try_write :: "supervisor_env \<Rightarrow> npath \<Rightarrow> npath \<Rightarrow> string \<Rightarrow> (supervisor, unit) io" where
  "try_write env shown p bytes s = (case os_write env p bytes s of
     (None, s') \<Rightarrow> (Inr (), s')
   | (Some k, s') \<Rightarrow> (Inl (Fail (partial_write_error env shown k)), s'))"

text \<open>The retry after a missing parent: the requested parent is created, then the path resolved again.\<close>

definition write_with_parents :: "supervisor_env \<Rightarrow> npath \<Rightarrow> write_file_request \<Rightarrow> (supervisor, unit) io" where
  "write_with_parents env p rq =
     io_bind (io_lift (validated (exec_path_new (root_id (write_path rq)) (parent_text (path (write_path rq)))))) (\<lambda>parent s.
     io_bind (io_lift (resolve_for_directory_creation (resolver env) (sv_fs s) parent)) (\<lambda>dir.
     io_bind (make_directories env dir) (\<lambda>_ s.
     io_bind (io_lift (resolve_for_in_place_write (resolver env) (sv_fs s) (write_path rq))) (\<lambda>target.
     try_write env p target (write_data rq)) s)) s)"

definition in_place_write :: "supervisor_env \<Rightarrow> npath \<Rightarrow> write_file_request \<Rightarrow> (supervisor, unit) io" where
  "in_place_write env p rq s = (case os_write env p (write_data rq) s of
     (None, s') \<Rightarrow> (Inr (), s')
   | (Some k, s') \<Rightarrow>
       if create_parents rq \<and> k = KNotFound then write_with_parents env p rq s'
       else (Inl (Fail (partial_write_error env p k)), s'))"

definition resolve_write :: "supervisor_env \<Rightarrow> nfs \<Rightarrow> write_file_request \<Rightarrow> npath exec_result" where
  "resolve_write env fs rq = (case strategy rq of
     AtomicReplace \<Rightarrow> resolve_for_write (resolver env) fs (write_path rq) (write_follow_symlinks rq)
   | InPlace \<Rightarrow> resolve_for_in_place_write (resolver env) fs (write_path rq))"

text \<open>The checks before anything changes: the resolved path and the node there.\<close>

definition plan_write :: "supervisor_env \<Rightarrow> nfs \<Rightarrow> write_file_request \<Rightarrow> (npath \<times> node option) exec_result" where
  "plan_write env fs rq =
     rbind (guard (length (write_data rq) \<le> lim_write_bytes (sup_limits env))
       (exec_error_new ResourceExhausted
          (write_limit_message (length (write_data rq)) (lim_write_bytes (sup_limits env))))) (\<lambda>_.
     rbind (resolve_write env fs rq) (\<lambda>p.
     rbind (existing_node env fs p) (\<lambda>existing.
     rbind (guard (existing \<noteq> Some NDir) (exec_error_new IsDirectory ''cannot write bytes to a directory'')) (\<lambda>_.
     rbind (check_condition env fs p existing (condition rq)) (\<lambda>_. Inr (p, existing))))))"

definition perform_write :: "supervisor_env \<Rightarrow> npath \<Rightarrow> write_file_request \<Rightarrow> (supervisor, unit) io" where
  "perform_write env p rq = (case strategy rq of
     AtomicReplace \<Rightarrow>
       io_bind (if create_parents rq \<and> p \<noteq> [] then make_directories env (butlast p) else io_lift (Inr ()))
         (\<lambda>_. atomic_write env p (write_data rq))
   | InPlace \<Rightarrow> in_place_write env p rq)"

definition write_inner :: "supervisor_env \<Rightarrow> write_file_request \<Rightarrow> (supervisor, write_file_result) io" where
  "write_inner env rq s =
     io_bind (io_lift (plan_write env (sv_fs s) rq)) (\<lambda>(p, existing).
     io_bind (perform_write env p rq) (\<lambda>_.
     io_bind (io_lift (hash_bytes env (write_data rq))) (\<lambda>rev_id.
     io_lift (Inr \<lparr>written_path = write_path rq, existed = (existing \<noteq> None), written_revision = rev_id,
                   bytes_written = length (write_data rq)\<rparr>)))) s"

section \<open>Creating directories and removing\<close>

definition create_directory_inner :: "supervisor_env \<Rightarrow> create_directory_request \<Rightarrow> (supervisor, unit) io" where
  "create_directory_inner env rq s =
     io_bind (io_lift (resolve_for_write (resolver env) (sv_fs s) (create_path rq) False)) (\<lambda>p s.
       if create_recursive rq then make_directories env p s
       else case create_dir (sv_fs s) p of
         Inr fs' \<Rightarrow> (Inr (), put_fs fs' s)
       | Inl k \<Rightarrow> (Inl (Fail (io_error (resolver env) p k)), s)) s"

text \<open>A file-only removal refuses a directory, also one behind a link.\<close>

definition check_target_kind :: "supervisor_env \<Rightarrow> nfs \<Rightarrow> remove_path_request \<Rightarrow> unit exec_result" where
  "check_target_kind env fs rq =
     (if target_kind rq = FileTarget
      then rbind (resolve_existing (resolver env) fs (remove_path rq) True) (\<lambda>target.
           rbind (native (resolver env) target (metadata_of fs target)) (\<lambda>followed.
           guard (followed \<noteq> NDir) (exec_error_new IsDirectory ''path is a directory'')))
      else Inr ())"

definition check_removed_revision :: "supervisor_env \<Rightarrow> nfs \<Rightarrow> npath \<Rightarrow> node \<Rightarrow> string option \<Rightarrow> unit exec_result" where
  "check_removed_revision env fs p n expected = (case expected of
     None \<Rightarrow> Inr ()
   | Some rev_id \<Rightarrow>
       rbind (guard (n \<noteq> NDir) (invalid_request ''directory removal does not support expected_revision'')) (\<lambda>_.
       rbind (case n of NLink _ \<Rightarrow> hash_link env fs p | _ \<Rightarrow> hash_file env fs p) (\<lambda>current.
       guard (current = rev_id) (exec_error_new RevisionConflict ''remove target revision changed''))))"

text \<open>What is to be removed: nothing (\<open>None\<close>, a missing target that may be missing) or a node.\<close>

definition plan_remove :: "supervisor_env \<Rightarrow> nfs \<Rightarrow> remove_path_request \<Rightarrow> (npath \<times> node) option exec_result" where
  "plan_remove env fs rq =
     rbind (guard (path (remove_path rq) \<noteq> ''.'') (invalid_request ''an execution root cannot be removed'')) (\<lambda>_.
     rbind (resolve_for_write (resolver env) fs (remove_path rq) False) (\<lambda>p.
     case symlink_metadata fs p of
       Inl k \<Rightarrow> (if ignore_missing rq \<and> k = KNotFound then Inr None
                 else Inl (Fail (io_error (resolver env) p k)))
     | Inr n \<Rightarrow>
         rbind (check_target_kind env fs rq) (\<lambda>_.
         rbind (check_removed_revision env fs p n (expected_revision rq)) (\<lambda>_. Inr (Some (p, n))))))"

definition remove_node :: "nfs \<Rightarrow> remove_path_request \<Rightarrow> npath \<Rightarrow> node \<Rightarrow> nfs io_result" where
  "remove_node fs rq p n =
     (if n = NDir then (if recursive rq then remove_dir_all fs p else remove_dir fs p) else remove_file fs p)"

definition remove_inner :: "supervisor_env \<Rightarrow> remove_path_request \<Rightarrow> (supervisor, bool) io" where
  "remove_inner env rq s =
     io_bind (io_lift (plan_remove env (sv_fs s) rq)) (\<lambda>planned s. case planned of
       None \<Rightarrow> (Inr False, s)
     | Some (p, n) \<Rightarrow> (case remove_node (sv_fs s) rq p n of
         Inr fs' \<Rightarrow> (Inr True, put_fs fs' s)
       | Inl k \<Rightarrow> (Inl (Fail (io_error (resolver env) p k)), s))) s"

section \<open>Idempotent mutations\<close>

definition fingerprint :: "supervisor_env \<Rightarrow> string + string \<Rightarrow> string exec_result" where
  "fingerprint env encoded = (case encoded of
     Inl e \<Rightarrow> Inl (Fail (exec_error_new Internal (''failed to fingerprint operation: '' @ e)))
   | Inr bytes \<Rightarrow> Inr (sha_hex env bytes))"

definition ensure_fingerprint :: "mutation_record \<Rightarrow> string \<Rightarrow> string \<Rightarrow> unit exec_result" where
  "ensure_fingerprint rc fp i =
     guard (fingerprint_of rc = fp)
       (operation_conflict (''operation ID `'' @ i @ ''` was reused with a different request''))"

definition other_operation_error :: exec_error where
  "other_operation_error = operation_conflict ''operation ID was already used for another operation''"

definition unknown_outcome_error :: exec_error where
  "unknown_outcome_error = with_detail (exec_error_new ExecutionLost
     ''filesystem mutation outcome is unknown; inspect the target before issuing a new operation'')
     ''mutation_outcome'' (DText ''unknown'')"

text \<open>
  The tombstone of a fenced mutation: recorded before the first change, so that it stays when the
  caller drops the operation half-way.
\<close>

definition fence :: "string option \<Rightarrow> string \<Rightarrow> string \<Rightarrow> supervisor \<Rightarrow> supervisor" where
  "fence expected i fp s = (if expected = None then s else put_record i fp (MFailure unknown_outcome_error) s)"

text \<open>The end of a mutation: its result, or a failure of a fenced one, replaces the tombstone.\<close>

definition settle ::
  "string option \<Rightarrow> string \<Rightarrow> string \<Rightarrow> ('a \<Rightarrow> mutation_result) \<Rightarrow> 'a exec_result \<times> supervisor \<Rightarrow> 'a exec_result \<times> supervisor" where
  "settle expected i fp wrap outcome = (case outcome of
     (Inr x, s) \<Rightarrow> (Inr x, put_record i fp (wrap x) s)
   | (Inl (Fail e), s) \<Rightarrow> (Inl (Fail e), if expected = None then s else put_record i fp (MFailure e) s)
   | (Inl (Panic m), s) \<Rightarrow> (Inl (Panic m), s))"

text \<open>
  A mutation under its identifier: a recorded result is returned, everything else runs
  \<open>inner\<close>. \<open>unwrap\<close> recognises results of the same operation.
\<close>

definition recorded :: "(mutation_result \<Rightarrow> 'a option) \<Rightarrow> mutation_record \<Rightarrow> string \<Rightarrow> string \<Rightarrow> 'a exec_result" where
  "recorded unwrap rc fp i =
     rbind (ensure_fingerprint rc fp i) (\<lambda>_. case mutation_result rc of
       MFailure e \<Rightarrow> Inl (Fail e)
     | res \<Rightarrow> (case unwrap res of Some x \<Rightarrow> Inr x | None \<Rightarrow> Inl (Fail other_operation_error)))"

text \<open>
  The lookup under the lock, which ends the request (\<open>Some\<close>) or records the tombstone before anything
  changes (\<open>None\<close>). The lock is held from here to the end.
\<close>

definition begin_mutation ::
  "string option \<Rightarrow> string \<Rightarrow> string \<Rightarrow> (mutation_result \<Rightarrow> 'a option) \<Rightarrow> (supervisor, 'a option) io" where
  "begin_mutation expected i fp unwrap s = (case map_of (sv_records s) i of
     Some rc \<Rightarrow> (rbind (recorded unwrap rc fp i) (\<lambda>x. Inr (Some x)), s)
   | None \<Rightarrow> (Inr None, fence expected i fp s))"

definition run_mutation ::
  "string option \<Rightarrow> string \<Rightarrow> string \<Rightarrow> ('a \<Rightarrow> mutation_result) \<Rightarrow> (mutation_result \<Rightarrow> 'a option)
    \<Rightarrow> (supervisor, 'a) io \<Rightarrow> (supervisor, 'a) io" where
  "run_mutation expected i fp wrap unwrap inner =
     io_bind (begin_mutation expected i fp unwrap) (\<lambda>known. case known of
       Some x \<Rightarrow> io_lift (Inr x)
     | None \<Rightarrow> (\<lambda>s. settle expected i fp wrap (inner s)))"

fun written :: "mutation_result \<Rightarrow> write_file_result option" where
  "written (MWrite w) = Some w" | "written _ = None"

fun removed :: "mutation_result \<Rightarrow> bool option" where
  "removed (MRemove b) = Some b" | "removed _ = None"

fun created :: "mutation_result \<Rightarrow> unit option" where
  "created MCreateDirectory = Some ()" | "created _ = None"

text \<open>The checks of a write before the lock; \<open>write_begin\<close> goes on to where its first change may happen.\<close>

definition write_fingerprint :: "supervisor_env \<Rightarrow> operation_context \<Rightarrow> write_file_request \<Rightarrow> (supervisor, string) io" where
  "write_fingerprint env ctx rq =
     io_bind (sup_checkpoint ctx) (\<lambda>_.
     io_bind (io_lift (validated (write_file_validate rq))) (\<lambda>_.
     io_bind (io_lift (check_generation env (write_expected_generation rq))) (\<lambda>_.
     io_lift (fingerprint env (write_json env rq)))))"

definition write_begin ::
  "supervisor_env \<Rightarrow> operation_context \<Rightarrow> write_file_request \<Rightarrow> (supervisor, write_file_result option) io" where
  "write_begin env ctx rq =
     io_bind (write_fingerprint env ctx rq) (\<lambda>fp.
     begin_mutation (write_expected_generation rq) (write_operation_id rq) fp written)"

definition sup_write :: "supervisor_env \<Rightarrow> operation_context \<Rightarrow> write_file_request \<Rightarrow> (supervisor, write_file_result) io" where
  "sup_write env ctx rq =
     io_bind (write_fingerprint env ctx rq) (\<lambda>fp.
     run_mutation (write_expected_generation rq) (write_operation_id rq) fp MWrite written (write_inner env rq))"

definition sup_create_directory ::
  "supervisor_env \<Rightarrow> operation_context \<Rightarrow> create_directory_request \<Rightarrow> (supervisor, unit) io" where
  "sup_create_directory env ctx rq =
     io_bind (sup_checkpoint ctx) (\<lambda>_.
     io_bind (io_lift (validated (create_directory_validate rq))) (\<lambda>_.
     io_bind (io_lift (fingerprint env (create_json env rq))) (\<lambda>fp.
     run_mutation None (create_operation_id rq) fp (\<lambda>_. MCreateDirectory) created (create_directory_inner env rq))))"

definition sup_remove :: "supervisor_env \<Rightarrow> operation_context \<Rightarrow> remove_path_request \<Rightarrow> (supervisor, bool) io" where
  "sup_remove env ctx rq =
     io_bind (sup_checkpoint ctx) (\<lambda>_.
     io_bind (io_lift (validated (remove_path_validate rq))) (\<lambda>_.
     io_bind (io_lift (check_generation env (remove_expected_generation rq))) (\<lambda>_.
     io_bind (io_lift (fingerprint env (remove_json env rq))) (\<lambda>fp.
     run_mutation (remove_expected_generation rq) (remove_operation_id rq) fp MRemove removed (remove_inner env rq)))))"

section \<open>Listing\<close>

definition child_path :: "exec_path \<Rightarrow> string \<Rightarrow> exec_path exec_result" where
  "child_path parent name =
     (case exec_path_new (root_id parent) (if path parent = ''.'' then name else path parent @ ''/'' @ name) of
        Inl _ \<Rightarrow> Inl (Panic ''directory entry creates a valid child path'')
      | Inr p \<Rightarrow> Inr p)"

definition list_entry :: "supervisor_env \<Rightarrow> nfs \<Rightarrow> list_directory_request \<Rightarrow> string \<Rightarrow> directory_entry exec_result" where
  "list_entry env fs rq name =
     rbind (child_path (list_path rq) name) (\<lambda>child.
     rbind (resolve_existing (resolver env) fs child (list_follow_symlinks rq)) (\<lambda>p.
     rbind (metadata_for env fs child p (list_follow_symlinks rq)) (\<lambda>m.
     Inr \<lparr>entry_name = name, entry_metadata = m\<rparr>)))"

fun list_entries ::
  "supervisor_env \<Rightarrow> operation_context \<Rightarrow> list_directory_request \<Rightarrow> string list \<Rightarrow> (supervisor, directory_entry list) io" where
  "list_entries env ctx rq [] = io_lift (Inr [])"
| "list_entries env ctx rq (name # names) =
     io_bind (sup_checkpoint ctx) (\<lambda>_ s.
     io_bind (io_lift (list_entry env (sv_fs s) rq name)) (\<lambda>entry.
     io_bind (list_entries env ctx rq names) (\<lambda>entries. io_lift (Inr (entry # entries)))) s)"

text \<open>The names as text: bytes that are not UTF-8 are replaced, and two names may become one.\<close>

definition list_names :: "supervisor_env \<Rightarrow> nfs \<Rightarrow> list_directory_request \<Rightarrow> string list exec_result" where
  "list_names env fs rq =
     rbind (resolve_existing (resolver env) fs (list_path rq) (list_follow_symlinks rq)) (\<lambda>p.
     rbind (native (resolver env) p (metadata_of fs p)) (\<lambda>n.
     rbind (guard (n = NDir) (exec_error_new NotDirectory ''path is not a directory'')) (\<lambda>_.
     rbind (native (resolver env) p (read_dir fs p)) (\<lambda>names.
     Inr (let sorted_names = sort (map utf8_lossy names)
          in case list_cursor rq of None \<Rightarrow> sorted_names
             | Some cursor \<Rightarrow> filter (\<lambda>name. cursor < name) sorted_names)))))"

definition cursor_of :: "directory_entry list \<Rightarrow> string option exec_result" where
  "cursor_of entries = (case vec_last entries of
     None \<Rightarrow> Inr None
   | Some e \<Rightarrow> (case id_new ''DirectoryCursor'' (entry_name e) of
       Inl _ \<Rightarrow> Inl (Panic ''directory entries always have non-empty names'')
     | Inr c \<Rightarrow> Inr (Some c)))"

definition sup_list :: "supervisor_env \<Rightarrow> operation_context \<Rightarrow> list_directory_request \<Rightarrow> (supervisor, list_directory_result) io" where
  "sup_list env ctx rq =
     io_bind (sup_checkpoint ctx) (\<lambda>_.
     io_bind (io_lift (validated (list_directory_validate rq))) (\<lambda>_ s.
     io_bind (io_lift (list_names env (sv_fs s) rq)) (\<lambda>names.
     io_bind (list_entries env ctx rq (take (max_entries rq) names)) (\<lambda>entries.
     io_bind (io_lift (if max_entries rq < length names then cursor_of entries else Inr None)) (\<lambda>next_c.
     io_lift (Inr \<lparr>dir_entries = entries, next_cursor = next_c\<rparr>)))) s))"

section \<open>The runtime\<close>

definition supervisor_runtime :: "supervisor_env \<Rightarrow> host_descriptor \<Rightarrow> operation_context \<Rightarrow> supervisor runtime" where
  "supervisor_runtime env host ctx = \<lparr>rt_descriptor = host, rt_checkpoint = sup_checkpoint ctx,
     rt_stat = sup_stat env ctx, rt_read = sup_read env ctx, rt_write = sup_write env ctx,
     rt_remove = sup_remove env ctx, rt_create_directory = sup_create_directory env ctx,
     rt_list = sup_list env ctx\<rparr>"

section \<open>Containment of changes\<close>

lemma put_fs_simps [simp]:
  "sv_fs (put_fs fs s) = fs" "sv_records (put_fs fs s) = sv_records s"
  "sv_now (put_fs fs s) = sv_now s" "sv_uuids (put_fs fs s) = sv_uuids s"
  by (simp_all add: put_fs_def)

lemma put_record_fs [simp]: "sv_fs (put_record i fp res s) = sv_fs s"
  by (simp add: put_record_def)

lemma sup_checkpoint_frame:
  "sup_checkpoint ctx s = (x, s') \<Longrightarrow> sv_fs s' = sv_fs s \<and> sv_records s' = sv_records s"
  by (auto simp: sup_checkpoint_def)

lemma settled_grows: "settled fs r \<Longrightarrow> grows b q fs fs' \<Longrightarrow> settled fs' r"
  unfolding settled_def grows_def by metis

lemma grows_longer: "grows b q fs fs' \<Longrightarrow> length q < length p \<Longrightarrow> node_at fs' p = node_at fs p"
  unfolding grows_def by (metis not_less prefix_length_le)

lemma settled_metadata:
  assumes "fs_wf fs" and "settled fs r"
  shows "symlink_metadata fs r = (case node_at fs r of None \<Rightarrow> Inl KNotFound | Some n \<Rightarrow> Inr n)"
proof (cases "r = [] \<or> node_at fs (butlast r) = Some NDir")
  case True
  with settled_entry [OF assms] show ?thesis by (auto simp: symlink_metadata_def split: option.splits)
next
  case False
  moreover from this have "node_at fs r = None" using assms(1) by (auto simp: fs_wf_def)
  ultimately show ?thesis using settled_entry [OF assms] by (simp add: symlink_metadata_def)
qed

lemma make_directories_frame:
  assumes "fs_wf (sv_fs s)" and "creates (sv_fs s) p r" and "dir_path (sv_fs s) b" and "prefix b r"
    and "make_directories env p s = (res, s')"
  shows "grows b r (sv_fs s) (sv_fs s') \<and> fs_wf (sv_fs s') \<and> sv_records s' = sv_records s \<and>
     (res = Inr () \<longrightarrow> resolves (sv_fs s') [] p r \<and> node_at (sv_fs s') r = Some NDir)"
proof -
  obtain k fs' where "create_dir_all (sv_fs s) p = (k, fs')" by force
  with create_dir_all_creates [OF assms(1-4) this] assms(5) show ?thesis
    by (cases k) (auto simp: make_directories_def)
qed

lemma temporary_name [simp]: "''.'' @ name @ ''.'' @ u @ ''.tmp'' \<noteq> ''..''"
proof
  assume "''.'' @ name @ ''.'' @ u @ ''.tmp'' = ''..''"
  then have "length (''.'' @ name @ ''.'' @ u @ ''.tmp'') = length ''..''" by (rule arg_cong)
  then show False by simp
qed

lemma rename_settled:
  assumes wf: "fs_wf fs" and "settled fs t" "settled fs p" and "node_at fs t = Some (NFile c)"
    and "butlast t = butlast p" and "t \<noteq> []" "p \<noteq> []" and "strict_prefix b t" "strict_prefix b p"
    and "rename_file fs t p = Inr fs'"
  shows "fs' = fs_put p (NFile c) (fs_del t fs) \<and> fs_wf fs' \<and> only_below b fs fs'"
proof -
  have ets: "entry_of fs t = Inr q \<Longrightarrow> q = t" "entry_of fs p = Inr q \<Longrightarrow> q = p" for q
    using settled_entry_Inr [OF wf] assms(2,3) by blast+
  from assms(10) have f: "fs' = fs_put p (NFile c) (fs_del t fs)" "node_at fs p \<noteq> Some NDir"
    using ets assms(4) by (auto simp: rename_file_def split: sum.splits option.splits if_splits)
  have nt: "node_at fs t \<noteq> Some NDir" using assms(4) by simp
  have w1: "fs_wf (fs_del t fs)" using fs_wf_del [OF wf assms(6)] file_no_children [OF wf nt] by blast
  have "butlast p \<noteq> t"
    using assms(5,6) by (metis append_butlast_last_id append_self_conv not_Cons_self2)
  moreover have "node_at fs (butlast p) = Some NDir" using fs_wf_butlast [OF wf assms(4)] assms(5) by simp
  ultimately have "fs_wf fs'"
    unfolding f(1) using f(2) assms(6,7) by (intro fs_wf_put [OF w1]) auto
  moreover have "only_below b fs fs'"
    unfolding f(1) using only_below_trans only_below_del [OF assms(8)] only_below_put [OF assms(9)] by blast
  ultimately show ?thesis using f(1) by simp
qed

lemma prefix_butlast: "prefix b p \<Longrightarrow> p \<noteq> b \<Longrightarrow> prefix b (butlast p)"
  by (cases p rule: rev_cases) (auto simp: prefix_snoc)

lemma settled_put: "settled fs r \<Longrightarrow> q \<noteq> [] \<Longrightarrow> length r \<le> length q \<Longrightarrow> settled (fs_put q n fs) r"
  using prefix_length_less by (fastforce simp: settled_def)

lemma atomic_write_frame:
  assumes wf: "fs_wf (sv_fs s)" and st: "settled (sv_fs s) p" and b: "strict_prefix b p"
    and nd: "node_at (sv_fs s) p \<noteq> Some NDir" and aw: "atomic_write env p bytes s = (res, s')"
  shows "fs_wf (sv_fs s') \<and> only_below b (sv_fs s) (sv_fs s') \<and> sv_records s' = sv_records s"
proof -
  have p: "p \<noteq> []" using nd by auto
  define t where "t = temporary_path env (sv_uuids s) (butlast p) (if last p = ''..'' then ''file'' else last p)"
  have "prefix b (butlast p)" using prefix_butlast [of b p] b by auto
  then have bt: "strict_prefix b t" unfolding t_def temporary_path_def by (auto simp: strict_prefix_def)
  have tb: "butlast t = butlast p" "t \<noteq> []" by (simp_all add: t_def temporary_path_def)
  have "settled (sv_fs s) (butlast p @ [last p])" using st p by simp
  then have st': "settled (sv_fs s) t" unfolding t_def temporary_path_def settled_snoc by simp
  show ?thesis
  proof (cases "fs_create_new (sv_fs s) t bytes")
    case (Inl k)
    with aw p wf show ?thesis by (auto simp: atomic_write_def Let_def t_def [symmetric])
  next
    case (Inr fs1)
    then have f1: "fs1 = fs_put t (NFile bytes) (sv_fs s)" "node_at (sv_fs s) t = None"
        "node_at (sv_fs s) (butlast t) = Some NDir"
      using settled_entry_Inr [OF wf st'] by (auto simp: fs_create_new_def split: sum.splits if_splits)
    have w1: "fs_wf fs1" unfolding f1(1) using f1(2,3) tb(2) by (intro fs_wf_put [OF wf]) auto
    have o1: "only_below b (sv_fs s) fs1" unfolding f1(1) by (rule only_below_put [OF bt])
    have len: "length p = length t"
      using tb p by (metis append_butlast_last_id length_append_singleton)
    have s1: "settled fs1 t" "settled fs1 p"
      unfolding f1(1) using settled_put [OF st' tb(2)] settled_put [OF st tb(2)] len by simp_all
    have n1: "node_at fs1 t = Some (NFile bytes)" using f1(1) tb(2) by simp
    show ?thesis
    proof (cases "finish_temporary env (sv_now s) fs1 t p")
      case (Inr fs2)
      then have "rename_file fs1 t p = Inr fs2" by (auto simp: finish_temporary_def split: if_splits sum.splits)
      then have "fs_wf fs2 \<and> only_below b fs1 fs2"
        using rename_settled [OF w1 s1 n1 tb p bt b] by blast
      with aw p \<open>fs_create_new (sv_fs s) t bytes = Inr fs1\<close> Inr o1 show ?thesis
        by (auto simp: atomic_write_def Let_def t_def [symmetric] intro: only_below_trans)
    next
      case (Inl failure)
      have "fs_wf fs3 \<and> only_below b fs1 fs3" if "remove_file fs1 t = Inr fs3" for fs3
        using remove_file_settled [OF w1 s1(1) that bt] by blast
      with aw p \<open>fs_create_new (sv_fs s) t bytes = Inr fs1\<close> Inl o1 w1 show ?thesis
        by (auto simp: atomic_write_def Let_def t_def [symmetric] split: sum.splits prod.splits intro: only_below_trans)
    qed
  qed
qed


text \<open>
  The effect of a mutation through an execution path: nothing, or changes below the
  canonical path of a root that is not read-only.
\<close>

definition contained :: "path_resolver \<Rightarrow> exec_path \<Rightarrow> nfs \<Rightarrow> nfs \<Rightarrow> bool" where
  "contained rs spec fs fs' \<longleftrightarrow> fs' = fs \<or>
     (\<exists>e. map_of (resolver_roots rs) (root_id spec) = Some e \<and> \<not> read_only (entry_descriptor e) \<and>
        only_below (canonical_path e) fs fs')"

lemma containedI:
  "map_of (resolver_roots rs) (root_id spec) = Some e \<Longrightarrow> \<not> read_only (entry_descriptor e) \<Longrightarrow>
     only_below (canonical_path e) fs fs' \<Longrightarrow> contained rs spec fs fs'"
  by (auto simp: contained_def)

lemma contained_refl [simp]: "contained rs spec fs fs"
  by (simp add: contained_def)

lemma creates_not_link:
  assumes "fs_wf fs" and "creates fs p r"
  shows "node_at fs r \<noteq> Some (NLink t)"
  using creates_shape [OF assms] canonical_node [OF resolves_canonical] dir_path_Nil by fastforce

lemma fs_write_fails: "fs_write fs p bytes = Inl k \<Longrightarrow> fs_write fs p bytes' = Inl k"
  by (auto simp: fs_write_def split: sum.splits if_splits)

lemma os_write_cases:
  assumes "os_write env p bytes s = (failed, s')"
  obtains k where "failed = Some k" and "s' = s" and "fs_write (sv_fs s) p bytes = Inl k"
  | bytes' fs' where "fs_write (sv_fs s) p bytes' = Inr fs'" and "s' = put_fs fs' s" and "failed = None \<Longrightarrow> bytes' = bytes"
    and "failed = None \<or> failed = Some KWriteFailed"
proof (cases "fs_write (sv_fs s) p (case write_fault env (sv_now s) p of None \<Rightarrow> bytes | Some n \<Rightarrow> take n bytes)")
  case (Inl k)
  with assms fs_write_fails [OF Inl, of bytes] that(1) show thesis by (auto simp: os_write_def)
next
  case (Inr fs')
  with assms that(2) [OF Inr] show thesis by (auto simp: os_write_def split: if_splits)
qed

lemma os_write_frame:
  assumes "fs_wf (sv_fs s)" and "creates (sv_fs s) p r" and "prefix b r"
    and "os_write env r bytes s = (failed, s')" and "dir_path (sv_fs s) b"
  shows "fs_wf (sv_fs s') \<and> only_below b (sv_fs s) (sv_fs s') \<and> sv_records s' = sv_records s"
  using assms(4)
proof (cases rule: os_write_cases)
  case (2 bytes' fs')
  from settled_write [OF assms(1) _ creates_not_link [OF assms(1,2)]] creates_shape [OF assms(1,2)] 2(1)
  have "r \<noteq> []" "node_at (sv_fs s) r \<noteq> Some NDir" "node_at (sv_fs s) (butlast r) = Some NDir"
      "fs' = fs_put r (NFile bytes') (sv_fs s)"
    by (auto split: if_splits)
  moreover from this dir_path_node [OF assms(5)] assms(3) have "strict_prefix b r" by (auto simp: strict_prefix_def)
  ultimately show ?thesis using assms(1) 2(2) by (auto intro!: fs_wf_put only_below_put)
qed (use assms(1) in auto)

lemma try_write_frame:
  assumes "fs_wf (sv_fs s)" and "creates (sv_fs s) p r" and "prefix b r"
    and "try_write env shown r bytes s = (res, s')" and "dir_path (sv_fs s) b"
  shows "fs_wf (sv_fs s') \<and> only_below b (sv_fs s) (sv_fs s') \<and> sv_records s' = sv_records s"
proof -
  obtain failed s1 where w: "os_write env r bytes s = (failed, s1)" by force
  with assms(4) have "s' = s1" by (auto simp: try_write_def split: option.splits)
  with os_write_frame [OF assms(1-3) w assms(5)] show ?thesis by simp
qed

lemma roots_ok_grows: "roots_ok rs fs \<Longrightarrow> grows b r fs fs' \<Longrightarrow> roots_ok rs fs'"
  by (auto simp: roots_ok_def intro: dir_path_mono)

lemma resolve_for_directory_creation_Inr:
  assumes "resolve_for_directory_creation rs fs spec = Inr p"
  shows "\<exists>e r. map_of (resolver_roots rs) (root_id spec) = Some e \<and> \<not> read_only (entry_descriptor e) \<and>
     prefix (canonical_path e) r \<and> creates fs p r"
  using assms
  by (auto simp: resolve_for_directory_creation_def rbind_Inr_iff candidate_Inr
      dest!: resolve_for_in_place_write_Inr)

lemma exec_path_new_Inr: "exec_path_new r p = Inr q \<Longrightarrow> q = \<lparr>root_id = r, path = p\<rparr>"
  by (auto simp: exec_path_new_def Let_def split: sum.splits)

lemma write_with_parents_cases:
  assumes "write_with_parents env p rq s = (res, s')"
  shows "s' = s \<or> (\<exists>parent dir res1 s1. root_id parent = root_id (write_path rq) \<and>
     resolve_for_directory_creation (resolver env) (sv_fs s) parent = Inr dir \<and>
     make_directories env dir s = (res1, s1) \<and>
     (s' = s1 \<or> (\<exists>t. resolve_for_in_place_write (resolver env) (sv_fs s1) (write_path rq) = Inr t \<and>
        try_write env p t (write_data rq) s1 = (res, s'))))"
proof (cases "validated (exec_path_new (root_id (write_path rq)) (parent_text (path (write_path rq))))")
  case (Inl e)
  with assms show ?thesis by (simp add: write_with_parents_def io_bind_def io_lift_def)
next
  case (Inr parent)
  then have root: "root_id parent = root_id (write_path rq)" by (auto dest: exec_path_new_Inr)
  show ?thesis
  proof (cases "resolve_for_directory_creation (resolver env) (sv_fs s) parent")
    case (Inl e)
    with assms \<open>validated _ = Inr parent\<close> show ?thesis by (simp add: write_with_parents_def io_bind_def io_lift_def)
  next
    case (Inr dir)
    obtain res1 s1 where md: "make_directories env dir s = (res1, s1)" by force
    have "s' = s1 \<or> (\<exists>t. resolve_for_in_place_write (resolver env) (sv_fs s1) (write_path rq) = Inr t \<and>
        try_write env p t (write_data rq) s1 = (res, s'))"
      using assms \<open>validated _ = Inr parent\<close> Inr md
      by (auto simp: write_with_parents_def io_bind_def io_lift_def split: sum.splits)
    with root Inr md show ?thesis by blast
  qed
qed

lemma write_with_parents_frame:
  assumes wf: "fs_wf (sv_fs s)" "roots_ok (resolver env) (sv_fs s)"
    and w: "write_with_parents env p rq s = (res, s')"
  shows "fs_wf (sv_fs s') \<and> contained (resolver env) (write_path rq) (sv_fs s) (sv_fs s') \<and> sv_records s' = sv_records s"
proof (cases "s' = s")
  case False
  with write_with_parents_cases [OF w] obtain parent dir res1 s1 where
      root: "root_id parent = root_id (write_path rq)"
    and dir: "resolve_for_directory_creation (resolver env) (sv_fs s) parent = Inr dir"
    and md: "make_directories env dir s = (res1, s1)"
    and later: "s' = s1 \<or> (\<exists>t. resolve_for_in_place_write (resolver env) (sv_fs s1) (write_path rq) = Inr t \<and>
        try_write env p t (write_data rq) s1 = (res, s'))"
    by blast
  from resolve_for_directory_creation_Inr [OF dir] root obtain e r where
      e: "map_of (resolver_roots (resolver env)) (root_id (write_path rq)) = Some e" "\<not> read_only (entry_descriptor e)"
      and r: "prefix (canonical_path e) r" "creates (sv_fs s) dir r" by auto
  from make_directories_frame [OF wf(1) r(2) roots_okD [OF wf(2) e(1)] r(1) md]
  have m: "grows (canonical_path e) r (sv_fs s) (sv_fs s1)" "fs_wf (sv_fs s1)" "sv_records s1 = sv_records s" by auto
  from later have "fs_wf (sv_fs s') \<and> only_below (canonical_path e) (sv_fs s1) (sv_fs s') \<and> sv_records s' = sv_records s1"
  proof (elim disjE exE conjE)
    fix t
    assume "resolve_for_in_place_write (resolver env) (sv_fs s1) (write_path rq) = Inr t"
      and tw: "try_write env p t (write_data rq) s1 = (res, s')"
    with resolve_for_in_place_write_Inr e(1) obtain q where "prefix (canonical_path e) t" "creates (sv_fs s1) q t" by fastforce
    then show ?thesis using try_write_frame [OF m(2) _ _ tw] dir_path_mono [OF roots_okD [OF wf(2) e(1)] m(1)] by blast
  qed (use m in simp)
  then show ?thesis
    using m only_below_trans [OF grows_only_below [OF m(1)]] dir_path_node [OF roots_okD [OF wf(2) e(1)]] e
    by (auto intro: containedI)
qed (use wf in auto)


lemma existing_node_settled:
  assumes "fs_wf fs" and "settled fs p" and "existing_node env fs p = Inr existing"
  shows "existing = node_at fs p"
  using assms(3) settled_metadata [OF assms(1,2)]
  by (auto simp: existing_node_def split: option.splits)

lemma plan_write_Inr:
  assumes "plan_write env fs rq = Inr (p, existing)"
  shows "resolve_write env fs rq = Inr p \<and> existing_node env fs p = Inr existing \<and> existing \<noteq> Some NDir \<and>
     length (write_data rq) \<le> lim_write_bytes (sup_limits env) \<and> check_condition env fs p existing (condition rq) = Inr ()"
  using assms by (auto simp: plan_write_def rbind_Inr_iff guard_def split: if_splits)

lemma parents_grow:
  assumes wf: "fs_wf (sv_fs s)" "roots_ok (resolver rv) (sv_fs s)"
    and e: "map_of (resolver_roots (resolver rv)) (root_id spec) = Some e"
    and p: "prefix (canonical_path e) p" "settled (sv_fs s) p" and nd: "node_at (sv_fs s) p \<noteq> Some NDir"
    and s1: "(if create_parents rq \<and> p \<noteq> [] then make_directories env (butlast p) else io_lift (Inr ())) s = (res1, s1)"
  shows "grows (canonical_path e) (butlast p) (sv_fs s) (sv_fs s1) \<and> fs_wf (sv_fs s1) \<and> sv_records s1 = sv_records s"
proof (cases "create_parents rq")
  case True
  have pb: "p \<noteq> canonical_path e" and pn: "p \<noteq> []" using nd dir_path_node [OF roots_okD [OF wf(2) e]] by auto
  have "settled (sv_fs s) (butlast p)" by (rule settled_butlast [OF p(2)])
  moreover have "node_at (sv_fs s) (butlast p) \<noteq> Some (NLink t)" for t
    using p(2) pn by (metis append_butlast_last_id node.distinct(5) option.distinct(1) option.inject settled_snoc)
  ultimately have "creates (sv_fs s) (butlast p) (butlast p)" by (intro settled_creates [OF wf(1)])
  with make_directories_frame [OF wf(1) this roots_okD [OF wf(2) e] prefix_butlast [OF p(1) pb]] s1 True pn
  show ?thesis by simp
qed (use s1 wf in \<open>auto simp: io_lift_def\<close>)

lemma atomic_frame:
  assumes wf: "fs_wf (sv_fs s)" "roots_ok (resolver env) (sv_fs s)"
    and pl: "plan_write env (sv_fs s) rq = Inr (p, existing)" and st: "strategy rq = AtomicReplace"
    and pf: "perform_write env p rq s = (res, s')"
  shows "fs_wf (sv_fs s') \<and> contained (resolver env) (write_path rq) (sv_fs s) (sv_fs s') \<and> sv_records s' = sv_records s"
proof -
  note plan = plan_write_Inr [OF pl]
  from plan st have "resolve_for_write (resolver env) (sv_fs s) (write_path rq) (write_follow_symlinks rq) = Inr p"
    by (simp add: resolve_write_def)
  from resolve_for_write_Inr [OF wf this] obtain e where
      e: "map_of (resolver_roots (resolver env)) (root_id (write_path rq)) = Some e" "\<not> read_only (entry_descriptor e)"
      and p: "prefix (canonical_path e) p" "settled (sv_fs s) p" by blast
  let ?b = "canonical_path e"
  have nd: "node_at (sv_fs s) p \<noteq> Some NDir" using plan existing_node_settled [OF wf(1) p(2)] by blast
  then have pb: "p \<noteq> ?b" and pn: "p \<noteq> []" using dir_path_node [OF roots_okD [OF wf(2) e(1)]] by auto
  obtain res1 s1 where s1: "(if create_parents rq \<and> p \<noteq> [] then make_directories env (butlast p)
      else io_lift (Inr ())) s = (res1, s1)" by force
  note g = parents_grow [OF wf e(1) p nd s1]
  have "length (butlast p) < length p" using pn by simp
  then have same: "node_at (sv_fs s1) p = node_at (sv_fs s) p" using grows_longer g by blast
  have aw: "fs_wf (sv_fs s2) \<and> only_below ?b (sv_fs s1) (sv_fs s2) \<and> sv_records s2 = sv_records s1"
    if "atomic_write env p (write_data rq) s1 = (res2, s2)" for res2 s2
    using atomic_write_frame [OF _ settled_grows [OF p(2)] _ _ that] p(1) pb g nd same by (auto simp: strict_prefix_def)
  from pf st s1 have "s' = s1 \<or> atomic_write env p (write_data rq) s1 = (res, s')"
    by (auto simp: perform_write_def io_bind_def split: sum.splits if_splits)
  then have "fs_wf (sv_fs s') \<and> only_below ?b (sv_fs s1) (sv_fs s') \<and> sv_records s' = sv_records s1"
    using aw g by auto
  then show ?thesis
    using g only_below_trans [OF grows_only_below] dir_path_node [OF roots_okD [OF wf(2) e(1)]] e
    by (auto intro: containedI)
qed

lemma in_place_frame:
  assumes wf: "fs_wf (sv_fs s)" "roots_ok (resolver env) (sv_fs s)"
    and pl: "plan_write env (sv_fs s) rq = Inr (p, existing)" and st: "strategy rq = InPlace"
    and pf: "perform_write env p rq s = (res, s')"
  shows "fs_wf (sv_fs s') \<and> contained (resolver env) (write_path rq) (sv_fs s) (sv_fs s') \<and> sv_records s' = sv_records s"
proof -
  obtain failed s1 where w: "os_write env p (write_data rq) s = (failed, s1)" by force
  from plan_write_Inr [OF pl] st have "resolve_for_in_place_write (resolver env) (sv_fs s) (write_path rq) = Inr p"
    by (simp add: resolve_write_def)
  from resolve_for_in_place_write_Inr [OF this] os_write_frame [OF wf(1) _ _ w] roots_okD [OF wf(2)]
  have f: "fs_wf (sv_fs s1) \<and> contained (resolver env) (write_path rq) (sv_fs s) (sv_fs s1) \<and> sv_records s1 = sv_records s"
    by (blast intro: containedI)
  from w show ?thesis
  proof (cases rule: os_write_cases)
    case (1 k)
    with pf st f w write_with_parents_frame [OF wf] show ?thesis
      by (auto simp: perform_write_def in_place_write_def split: if_splits)
  next
    case (2 bytes' fs')
    with pf st w have "s' = s1" by (auto simp: perform_write_def in_place_write_def)
    with f show ?thesis by simp
  qed
qed

lemma write_inner_frame:
  assumes wf: "fs_wf (sv_fs s)" "roots_ok (resolver env) (sv_fs s)" and "write_inner env rq s = (res, s')"
  shows "fs_wf (sv_fs s') \<and> contained (resolver env) (write_path rq) (sv_fs s) (sv_fs s') \<and> sv_records s' = sv_records s"
proof (cases "plan_write env (sv_fs s) rq")
  case (Inl e)
  with assms show ?thesis by (simp add: write_inner_def io_bind_def io_lift_def)
next
  case (Inr pe)
  then obtain p existing where pl: "plan_write env (sv_fs s) rq = Inr (p, existing)" by (cases pe) auto
  obtain res1 s1 where pf: "perform_write env p rq s = (res1, s1)" by force
  with assms(3) pl have "s' = s1"
    by (auto simp: write_inner_def io_bind_def io_lift_def split: sum.splits)
  with atomic_frame [OF wf pl _ pf] in_place_frame [OF wf pl _ pf] show ?thesis
    by (cases "strategy rq") auto
qed


lemma create_directory_inner_frame:
  assumes wf: "fs_wf (sv_fs s)" "roots_ok (resolver env) (sv_fs s)" and ci: "create_directory_inner env rq s = (res, s')"
  shows "fs_wf (sv_fs s') \<and> contained (resolver env) (create_path rq) (sv_fs s) (sv_fs s') \<and> sv_records s' = sv_records s"
proof (cases "resolve_for_write (resolver env) (sv_fs s) (create_path rq) False")
  case (Inl e)
  with assms show ?thesis by (simp add: create_directory_inner_def io_bind_def io_lift_def)
next
  case (Inr p)
  from resolve_for_write_Inr [OF wf Inr] obtain e where
      e: "map_of (resolver_roots (resolver env)) (root_id (create_path rq)) = Some e" "\<not> read_only (entry_descriptor e)"
      and p: "prefix (canonical_path e) p" "settled (sv_fs s) p" by blast
  show ?thesis
  proof (cases "node_at (sv_fs s) p")
    case None
    have bn: "node_at (sv_fs s) (canonical_path e) \<noteq> None" using dir_path_node [OF roots_okD [OF wf(2) e(1)]] by simp
    from None have c: "creates (sv_fs s) p p" by (intro settled_creates [OF wf(1) p(2)]) simp
    have md: "fs_wf (sv_fs s') \<and> only_below (canonical_path e) (sv_fs s) (sv_fs s') \<and> sv_records s' = sv_records s"
      if "make_directories env p s = (res, s')"
      using make_directories_frame [OF wf(1) c roots_okD [OF wf(2) e(1)] p(1) that] grows_only_below bn by auto
    have cd: "fs_wf fs' \<and> only_below (canonical_path e) (sv_fs s) fs'" if "create_dir (sv_fs s) p = Inr fs'" for fs'
      using create_dir_creates [OF wf(1) c that p(1)] grows_only_below bn by blast
    from ci Inr md cd wf(1) e show ?thesis
      by (auto simp: create_directory_inner_def io_bind_def io_lift_def split: sum.splits if_splits intro: containedI)
  next
    case (Some n)
    then have ne: "\<exists>k. k \<noteq> KNotFound \<and> create_dir (sv_fs s) p = Inl k"
      using settled_entry [OF wf(1) p(2)] fs_wf_butlast [OF wf(1) Some]
      by (auto simp: create_dir_def split: sum.splits)
    with ci Inr wf(1) show ?thesis
      by (auto simp: create_directory_inner_def make_directories_def create_dir_all.simps io_bind_def io_lift_def
          split: sum.splits if_splits)
  qed
qed

lemma remove_node_frame:
  assumes wf: "fs_wf fs" and "settled fs p" and "symlink_metadata fs p = Inr n" and "strict_prefix b p" and "p \<noteq> []"
    and "remove_node fs rq p n = Inr fs'"
  shows "fs_wf fs' \<and> only_below b fs fs'"
proof -
  have n: "node_at fs p = Some n" using assms(3) settled_metadata [OF wf assms(2)] by (auto split: option.splits)
  show ?thesis
  proof (cases "n = NDir")
    case False
    with assms(6) show ?thesis
      using remove_file_settled [OF wf assms(2) _ assms(4)] by (auto simp: remove_node_def)
  next
    case True
    with assms(6) n show ?thesis
      using remove_dir_settled [OF wf assms(2,5) _ assms(4)] remove_dir_all_settled [OF wf assms(2,5) _ _ assms(4)]
      by (auto simp: remove_node_def split: if_splits)
  qed
qed

lemma plan_remove_Some:
  assumes "plan_remove env fs rq = Inr (Some (p, n))"
  shows "resolve_for_write (resolver env) fs (remove_path rq) False = Inr p \<and> symlink_metadata fs p = Inr n \<and>
     check_target_kind env fs rq = Inr ()"
proof -
  from assms obtain q where q: "resolve_for_write (resolver env) fs (remove_path rq) False = Inr q"
      "(case symlink_metadata fs q of
         Inl k \<Rightarrow> (if ignore_missing rq \<and> k = KNotFound then Inr None
                 else Inl (Fail (io_error (resolver env) q k)))
       | Inr m \<Rightarrow> rbind (check_target_kind env fs rq) (\<lambda>_.
           rbind (check_removed_revision env fs q m (expected_revision rq)) (\<lambda>_. Inr (Some (q, m))))) = Inr (Some (p, n))"
    unfolding plan_remove_def by (auto simp only: rbind_Inr_iff)
  then show ?thesis by (cases "symlink_metadata fs q") (auto simp: rbind_Inr_iff split: if_splits)
qed

lemma remove_inner_cases:
  assumes "remove_inner env rq s = (res, s')"
  shows "(s' = s \<and> res \<noteq> Inr True) \<or> (\<exists>p n fs'. plan_remove env (sv_fs s) rq = Inr (Some (p, n)) \<and>
     remove_node (sv_fs s) rq p n = Inr fs' \<and> s' = put_fs fs' s \<and> res = Inr True)"
  using assms by (auto simp: remove_inner_def io_bind_def io_lift_def split: sum.splits option.splits prod.splits)

lemma remove_inner_frame:
  assumes wf: "fs_wf (sv_fs s)" "roots_ok (resolver env) (sv_fs s)" and ri: "remove_inner env rq s = (res, s')"
  shows "fs_wf (sv_fs s') \<and> contained (resolver env) (remove_path rq) (sv_fs s) (sv_fs s') \<and> sv_records s' = sv_records s"
proof (cases "s' = s")
  case False
  with remove_inner_cases [OF ri] obtain p n fs' where pl: "plan_remove env (sv_fs s) rq = Inr (Some (p, n))"
      and rn: "remove_node (sv_fs s) rq p n = Inr fs'" and s': "s' = put_fs fs' s" by blast
  note plan = plan_remove_Some [OF pl]
  from plan resolve_for_write_Inr [OF wf] obtain e where
      e: "map_of (resolver_roots (resolver env)) (root_id (remove_path rq)) = Some e" "\<not> read_only (entry_descriptor e)"
      and p: "prefix (canonical_path e) p" "settled (sv_fs s) p" "p \<noteq> canonical_path e" by blast
  then have "p \<noteq> []" by auto
  with remove_node_frame [OF wf(1) p(2) _ _ _ rn, of "canonical_path e"] p plan s' e show ?thesis
    by (auto simp: strict_prefix_def intro: containedI)
qed (use wf in simp)

section \<open>Requests and runs\<close>

datatype fs_request =
  RStat stat_request | RRead read_file_request | RWrite write_file_request
| RCreate create_directory_request | RRemove remove_path_request | RList list_directory_request

fun request_path :: "fs_request \<Rightarrow> exec_path" where
  "request_path (RStat q) = stat_path q"
| "request_path (RRead q) = read_path q"
| "request_path (RWrite q) = write_path q"
| "request_path (RCreate q) = create_path q"
| "request_path (RRemove q) = remove_path q"
| "request_path (RList q) = list_path q"

text \<open>The state after the supervisor has served a request, whatever the reply.\<close>

fun serve :: "supervisor_env \<Rightarrow> operation_context \<times> fs_request \<Rightarrow> supervisor \<Rightarrow> supervisor" where
  "serve env (ctx, RStat q) s = snd (sup_stat env ctx q s)"
| "serve env (ctx, RRead q) s = snd (sup_read env ctx q s)"
| "serve env (ctx, RWrite q) s = snd (sup_write env ctx q s)"
| "serve env (ctx, RCreate q) s = snd (sup_create_directory env ctx q s)"
| "serve env (ctx, RRemove q) s = snd (sup_remove env ctx q s)"
| "serve env (ctx, RList q) s = snd (sup_list env ctx q s)"

definition serve_all :: "supervisor_env \<Rightarrow> (operation_context \<times> fs_request) list \<Rightarrow> supervisor \<Rightarrow> supervisor" where
  "serve_all env rqs s = foldl (\<lambda>s rq. serve env rq s) s rqs"

text \<open>Two states that differ at most in the clock.\<close>

definition same_but_clock :: "supervisor \<Rightarrow> supervisor \<Rightarrow> bool" where
  "same_but_clock s s' \<longleftrightarrow> sv_fs s' = sv_fs s \<and> sv_records s' = sv_records s \<and> sv_uuids s' = sv_uuids s"

lemma same_but_clock_refl [simp]: "same_but_clock s s"
  by (simp add: same_but_clock_def)

lemma same_but_clock_trans: "same_but_clock s s1 \<Longrightarrow> same_but_clock s1 s2 \<Longrightarrow> same_but_clock s s2"
  by (simp add: same_but_clock_def)

lemma checkpoint_clock: "sup_checkpoint ctx s = (x, s') \<Longrightarrow> same_but_clock s s'"
  by (auto simp: sup_checkpoint_def same_but_clock_def)

lemma io_bind_clock:
  assumes "io_bind m f s = (r, s')" and "\<And>x s1. m s = (x, s1) \<Longrightarrow> same_but_clock s s1"
    and "\<And>x s1. m s = (Inr x, s1) \<Longrightarrow> f x s1 = (r, s') \<Longrightarrow> same_but_clock s1 s'"
  shows "same_but_clock s s'"
  using assms(1)
proof (cases rule: io_bindE)
  case (bound x s1)
  from same_but_clock_trans [OF assms(2) [OF bound(1)] assms(3) [OF bound]] show ?thesis .
qed (rule assms(2))

lemma io_lift_clock: "io_lift r s = (x, s') \<Longrightarrow> same_but_clock s s'"
  by simp

lemma stat_clock: "sup_stat env ctx q s = (r, s') \<Longrightarrow> same_but_clock s s'"
  unfolding sup_stat_def by (auto elim!: io_bind_clock intro: checkpoint_clock)

lemma read_scan_clock: "read_scan ctx off e rest pos sel s = (r, s') \<Longrightarrow> same_but_clock s s'"
proof (induction ctx off e rest pos sel s rule: read_scan.induct)
  case (1 ctx off e rest pos sel s)
  obtain x s1 where cp: "sup_checkpoint ctx s = (x, s1)" by force
  note unf = read_scan.simps [of ctx off e rest pos sel s]
  show ?case
  proof (cases "(\<exists>e. x = Inl e) \<or> rest = []")
    case True
    with cp "1.prems" have "s' = s1" by (cases x) (auto simp: unf)
    with checkpoint_clock [OF cp] show ?thesis by simp
  next
    case False
    then obtain u where x: "x = Inr u" by (cases x) auto
    with False cp "1.prems" have "same_but_clock s1 s'" by (intro "1.IH" [OF cp [symmetric] x]) (auto simp: unf Let_def)
    with checkpoint_clock [OF cp] show ?thesis by (rule same_but_clock_trans)
  qed
qed

lemma read_clock: "sup_read env ctx q s = (r, s') \<Longrightarrow> same_but_clock s s'"
  unfolding sup_read_def
  by (auto elim!: io_bind_clock intro: checkpoint_clock read_scan_clock split: prod.splits)

lemma list_entries_clock: "list_entries env ctx q names s = (r, s') \<Longrightarrow> same_but_clock s s'"
  by (induction env ctx q names arbitrary: s r s' rule: list_entries.induct)
     (auto elim!: io_bind_clock intro: checkpoint_clock)

lemma list_clock: "sup_list env ctx q s = (r, s') \<Longrightarrow> same_but_clock s s'"
  unfolding sup_list_def
  by (auto elim!: io_bind_clock intro: checkpoint_clock list_entries_clock)


section \<open>Mutations\<close>

lemma map_of_put_record [simp]:
  "map_of (sv_records (put_record i fp res s)) j =
     (if j = i then Some \<lparr>fingerprint_of = fp, mutation_result = res\<rparr> else map_of (sv_records s) j)"
  by (simp add: put_record_def update_conv)

lemma fence_simps [simp]: "sv_fs (fence g i fp s) = sv_fs s"
  by (simp add: fence_def)

text \<open>The phases composed.\<close>

lemma io_bind_assoc: "io_bind (io_bind m f) g = io_bind m (\<lambda>x. io_bind (f x) g)"
  by (rule ext) (simp add: io_bind_def split: prod.split sum.split)

lemma run_mutation_eq:
  "run_mutation expected i fp wrap unwrap inner s = (case map_of (sv_records s) i of
     Some rc \<Rightarrow> (recorded unwrap rc fp i, s)
   | None \<Rightarrow> settle expected i fp wrap (inner (fence expected i fp s)))"
  by (cases "map_of (sv_records s) i")
     (auto simp: run_mutation_def begin_mutation_def io_bind_def io_lift_def rbind_def split: sum.splits)

lemma sup_write_eq:
  "sup_write env ctx rq =
     io_bind (sup_checkpoint ctx) (\<lambda>_.
     io_bind (io_lift (validated (write_file_validate rq))) (\<lambda>_.
     io_bind (io_lift (check_generation env (write_expected_generation rq))) (\<lambda>_.
     io_bind (io_lift (fingerprint env (write_json env rq))) (\<lambda>fp.
     run_mutation (write_expected_generation rq) (write_operation_id rq) fp MWrite written (write_inner env rq)))))"
  by (simp add: sup_write_def write_fingerprint_def io_bind_assoc)

lemma run_mutation_known:
  "map_of (sv_records s) i = Some rc \<Longrightarrow> run_mutation g i fp wrap unwrap inner s = (recorded unwrap rc fp i, s)"
  by (simp add: run_mutation_eq)

text \<open>What \<open>settle\<close> and \<open>fence\<close> leave of the tree and of the records of other operations.\<close>

lemma run_mutation_frame:
  assumes "run_mutation g i fp wrap unwrap inner s = (r, s')"
    and "\<And>r1 s0 s1. sv_fs s0 = sv_fs s \<Longrightarrow> inner s0 = (r1, s1) \<Longrightarrow> P (sv_fs s) (sv_fs s1) \<and> sv_records s1 = sv_records s0"
    and "P (sv_fs s) (sv_fs s)"
  shows "P (sv_fs s) (sv_fs s')"
    and "map_of (sv_records s) j = Some rc \<Longrightarrow> map_of (sv_records s') j = Some rc"
proof -
  obtain r1 s1 where i: "inner (fence g i fp s) = (r1, s1)" by force
  have f: "P (sv_fs s) (sv_fs s1)" "sv_records s1 = sv_records (fence g i fp s)"
    using assms(2) [OF _ i] by auto
  have s': "s' = s \<or> (map_of (sv_records s) i = None \<and> (s' = s1 \<or> (\<exists>res. s' = put_record i fp res s1)))"
    using assms(1) i by (auto simp: run_mutation_eq settle_def split: option.splits sum.splits fail.splits if_splits)
  then show "P (sv_fs s) (sv_fs s')" using f(1) assms(3) by auto
  show "map_of (sv_records s') j = Some rc" if "map_of (sv_records s) j = Some rc"
    using that s' f(2) by (auto simp: fence_def)
qed

lemma run_mutation_result:
  assumes "run_mutation g i fp wrap unwrap inner s = (Inr x, s')" and "\<And>y. unwrap (wrap y) = Some y"
    and "\<And>y e. wrap y \<noteq> MFailure e"
  shows "\<exists>rc. map_of (sv_records s') i = Some rc \<and> recorded unwrap rc fp i = Inr x"
proof (cases "map_of (sv_records s) i")
  case (Some rc)
  with assms(1) show ?thesis by (auto simp: run_mutation_eq)
next
  case None
  then obtain s1 where "s' = put_record i fp (wrap x) s1"
    using assms(1) by (auto simp: run_mutation_eq settle_def split: sum.splits prod.splits fail.splits)
  then show ?thesis
    using assms(2) [of x] assms(3) [of x]
    by (cases "wrap x") (auto simp: recorded_def ensure_fingerprint_def guard_def rbind_def)
qed

lemmas sup_mutation_defs = sup_write_eq sup_create_directory_def sup_remove_def

text \<open>A mutation either changes nothing but the clock or runs under its identifier.\<close>

lemma sup_write_cases:
  assumes "sup_write env ctx rq s = (r, s')"
  shows "(same_but_clock s s' \<and> (\<exists>e. r = Inl e)) \<or>
     (\<exists>s1 fp. sup_checkpoint ctx s = (Inr (), s1) \<and> fingerprint env (write_json env rq) = Inr fp \<and>
        run_mutation (write_expected_generation rq) (write_operation_id rq) fp MWrite written (write_inner env rq) s1 = (r, s'))"
  using assms unfolding sup_write_eq by (elim io_bindE) (auto intro: checkpoint_clock)

lemma sup_create_cases:
  assumes "sup_create_directory env ctx rq s = (r, s')"
  shows "(same_but_clock s s' \<and> (\<exists>e. r = Inl e)) \<or>
     (\<exists>s1 fp. sup_checkpoint ctx s = (Inr (), s1) \<and> fingerprint env (create_json env rq) = Inr fp \<and>
        run_mutation None (create_operation_id rq) fp (\<lambda>_. MCreateDirectory) created (create_directory_inner env rq) s1 = (r, s'))"
  using assms unfolding sup_create_directory_def by (elim io_bindE) (auto intro: checkpoint_clock)

lemma sup_remove_cases:
  assumes "sup_remove env ctx rq s = (r, s')"
  shows "(same_but_clock s s' \<and> (\<exists>e. r = Inl e)) \<or>
     (\<exists>s1 fp. sup_checkpoint ctx s = (Inr (), s1) \<and> fingerprint env (remove_json env rq) = Inr fp \<and>
        run_mutation (remove_expected_generation rq) (remove_operation_id rq) fp MRemove removed (remove_inner env rq) s1 = (r, s'))"
  using assms unfolding sup_remove_def by (elim io_bindE) (auto intro: checkpoint_clock)

definition sup_inv :: "supervisor_env \<Rightarrow> supervisor \<Rightarrow> bool" where
  "sup_inv env s \<longleftrightarrow> fs_wf (sv_fs s) \<and> roots_ok (resolver env) (sv_fs s)"

text \<open>Every request keeps what is recorded and changes the tree only below its root.\<close>

definition well_served :: "supervisor_env \<Rightarrow> exec_path \<Rightarrow> supervisor \<Rightarrow> supervisor \<Rightarrow> bool" where
  "well_served env spec s s' \<longleftrightarrow> fs_wf (sv_fs s') \<and> contained (resolver env) spec (sv_fs s) (sv_fs s') \<and>
     (\<forall>j rc. map_of (sv_records s) j = Some rc \<longrightarrow> map_of (sv_records s') j = Some rc)"

lemma well_served_clock: "sup_inv env s \<Longrightarrow> same_but_clock s s' \<Longrightarrow> well_served env spec s s'"
  by (simp add: sup_inv_def same_but_clock_def well_served_def)

lemma well_served_mutation:
  assumes "sup_inv env s" and "sup_checkpoint ctx s = (Inr (), s1)"
    and "run_mutation g i fp wrap unwrap inner s1 = (r, s')"
    and "\<And>r1 s0 s2. fs_wf (sv_fs s0) \<Longrightarrow> roots_ok (resolver env) (sv_fs s0) \<Longrightarrow> inner s0 = (r1, s2) \<Longrightarrow>
       fs_wf (sv_fs s2) \<and> contained (resolver env) spec (sv_fs s0) (sv_fs s2) \<and> sv_records s2 = sv_records s0"
  shows "well_served env spec s s'"
proof -
  have eq: "sv_fs s1 = sv_fs s" "sv_records s1 = sv_records s" using sup_checkpoint_frame [OF assms(2)] by auto
  let ?P = "\<lambda>fs fs'. fs_wf fs' \<and> contained (resolver env) spec fs fs'"
  have inner: "?P (sv_fs s1) (sv_fs s2) \<and> sv_records s2 = sv_records s0"
    if "sv_fs s0 = sv_fs s1" "inner s0 = (r1, s2)" for r1 s0 s2
    using assms(4) [of s0 r1 s2] that assms(1) eq by (simp add: sup_inv_def)
  have here: "?P (sv_fs s1) (sv_fs s1)" using assms(1) eq by (simp add: sup_inv_def)
  from run_mutation_frame [OF assms(3), of ?P, OF inner here] eq show ?thesis
    by (auto simp: well_served_def)
qed

lemma serve_ok:
  assumes "sup_inv env s"
  shows "well_served env (request_path rq) s (serve env (ctx, rq) s)"
proof (cases rq)
  case (RStat q)
  then show ?thesis using assms stat_clock [of env ctx q s] by (auto intro: well_served_clock prod.collapse [symmetric])
next
  case (RRead q)
  then show ?thesis using assms read_clock [of env ctx q s] by (auto intro: well_served_clock prod.collapse [symmetric])
next
  case (RList q)
  then show ?thesis using assms list_clock [of env ctx q s] by (auto intro: well_served_clock prod.collapse [symmetric])
next
  case (RWrite q)
  obtain r s' where w: "sup_write env ctx q s = (r, s')" by force
  have "well_served env (write_path q) s s'"
    using sup_write_cases [OF w] well_served_clock [OF assms] well_served_mutation [OF assms] write_inner_frame by blast
  with RWrite w show ?thesis by simp
next
  case (RCreate q)
  obtain r s' where w: "sup_create_directory env ctx q s = (r, s')" by force
  have "well_served env (create_path q) s s'"
    using sup_create_cases [OF w] well_served_clock [OF assms] well_served_mutation [OF assms] create_directory_inner_frame by blast
  with RCreate w show ?thesis by simp
next
  case (RRemove q)
  obtain r s' where w: "sup_remove env ctx q s = (r, s')" by force
  have "well_served env (remove_path q) s s'"
    using sup_remove_cases [OF w] well_served_clock [OF assms] well_served_mutation [OF assms] remove_inner_frame by blast
  with RRemove w show ?thesis by simp
qed


text \<open>No root lies strictly below another one.\<close>

definition no_nesting :: "path_resolver \<Rightarrow> bool" where
  "no_nesting rs \<longleftrightarrow> list_all (\<lambda>(_, e). list_all (\<lambda>(_, e').
     \<not> strict_prefix (canonical_path e) (canonical_path e')) (resolver_roots rs)) (resolver_roots rs)"

lemma contained_roots:
  assumes "roots_ok rs fs" and "contained rs spec fs fs'" and "no_nesting rs"
  shows "roots_ok rs fs'"
proof (cases "fs' = fs")
  case False
  then obtain e where e: "map_of (resolver_roots rs) (root_id spec) = Some e" "only_below (canonical_path e) fs fs'"
    using assms(2) by (auto simp: contained_def)
  from map_of_SomeD [OF e(1)] assms(3) have nn: "(i, e') \<in> set (resolver_roots rs) \<Longrightarrow>
      \<not> strict_prefix (canonical_path e) (canonical_path e')" for i e'
    by (fastforce simp: no_nesting_def list_all_iff)
  from assms(1) e(2) nn show ?thesis by (fastforce simp: roots_ok_def intro: only_below_dir)
qed (use assms in simp)

lemma serve_inv: "sup_inv env s \<Longrightarrow> no_nesting (resolver env) \<Longrightarrow> sup_inv env (serve env rq s)"
  using serve_ok [of env s] contained_roots
  by (cases rq) (fastforce simp: sup_inv_def well_served_def)

lemma serve_all_Cons [simp]: "serve_all env (rq # rqs) s = serve_all env rqs (serve env rq s)"
  by (simp add: serve_all_def)

lemma serve_all_Nil [simp]: "serve_all env [] s = s"
  by (simp add: serve_all_def)

lemma serve_all_inv: "sup_inv env s \<Longrightarrow> no_nesting (resolver env) \<Longrightarrow> sup_inv env (serve_all env rqs s)"
  by (induction rqs arbitrary: s) (simp_all add: serve_inv)

lemma serve_all_records:
  assumes "sup_inv env s" and "no_nesting (resolver env)" and "map_of (sv_records s) i = Some rc"
  shows "map_of (sv_records (serve_all env rqs s)) i = Some rc"
  using assms
proof (induction rqs arbitrary: s)
  case (Cons rq rqs)
  have "map_of (sv_records (serve env rq s)) i = Some rc"
    using serve_ok [OF Cons.prems(1), of "snd rq" "fst rq"] Cons.prems(3) by (simp add: well_served_def)
  with Cons.IH [OF serve_inv [OF Cons.prems(1,2)] Cons.prems(2)] show ?case by simp
qed simp

lemma resolver_new_ok:
  assumes "resolver_new it ist fs rts = Inr rs"
  shows "roots_ok rs fs"
  using assms resolver_entries_ok [of fs "[]" rts]
  by (auto simp: resolver_new_def roots_ok_def split: sum.splits if_splits)

section \<open>Bounded reads\<close>

definition window :: "nat \<Rightarrow> nat \<Rightarrow> nat \<Rightarrow> 'a list \<Rightarrow> 'a list" where
  "window off e pos xs = take (e - max off pos) (drop (off - pos) xs)"

lemma window_append: "window off e pos (xs @ ys) = window off e pos xs @ window off e (pos + length xs) ys"
proof -
  have "e - max off pos - (length xs - (off - pos)) = e - max off (pos + length xs) \<or> length ys \<le> off - pos - length xs"
    by linarith
  moreover have "off - pos - length xs = off - (pos + length xs)" by simp
  ultimately show ?thesis by (auto simp: window_def)
qed

lemma take_min_length: "take n xs = take (min n (length xs)) xs"
  by (simp add: min_def)

lemma window_part_window: "window_part off e pos chunk = window off e pos chunk"
proof (cases "off < pos + length chunk \<and> pos < e")
  case True
  define start where "start = off - pos"
  define stop where "stop = min (min e (pos + length chunk) - pos) (length chunk)"
  have st: "stop = min (e - pos) (length chunk)" unfolding stop_def by linarith
  show ?thesis
  proof (cases "start < stop")
    case True
    have "min (stop - start) (length chunk - start) = min (e - max off pos) (length chunk - start)"
      using True \<open>off < pos + length chunk \<and> pos < e\<close> unfolding start_def st
      by (cases "pos \<le> off"; cases "e - pos \<le> length chunk") (auto simp: min_def max_def)
    then have "take (min (stop - start) (length (drop start chunk))) (drop start chunk)
        = take (min (e - max off pos) (length (drop start chunk))) (drop start chunk)" by simp
    then have "take (stop - start) (drop start chunk) = take (e - max off pos) (drop start chunk)"
      unfolding take_min_length [symmetric] .
    then show ?thesis
      using True \<open>off < pos + length chunk \<and> pos < e\<close>
      by (simp add: window_part_def window_def Let_def start_def stop_def)
  next
    case False
    then have "e - max off pos = 0 \<or> length chunk \<le> start"
      using \<open>off < pos + length chunk \<and> pos < e\<close> unfolding start_def st
      by (cases "pos \<le> off"; cases "e - pos \<le> length chunk") (auto simp: min_def max_def)
    with False show ?thesis by (auto simp: window_part_def window_def Let_def start_def stop_def)
  qed
next
  case False
  then show ?thesis by (auto simp: window_part_def window_def Let_def)
qed

lemma read_scan_window:
  "read_scan ctx off e rest pos sel s = (Inr (sel', pos'), s') \<Longrightarrow>
     sel' = sel @ window off e pos rest \<and> pos' = pos + length rest"
proof (induction ctx off e rest pos sel s rule: read_scan.induct)
  case (1 ctx off e rest pos sel s)
  note unf = read_scan.simps [of ctx off e rest pos sel s]
  obtain u s1 where cp: "sup_checkpoint ctx s = (Inr u, s1)"
    using "1.prems" by (cases "sup_checkpoint ctx s"; cases "fst (sup_checkpoint ctx s)") (auto simp: unf)
  show ?case
  proof (cases "rest = []")
    case True
    with "1.prems" [unfolded unf cp] show ?thesis by (simp add: window_def)
  next
    case False
    let ?c = "take buffer_bytes rest"
    have "read_scan ctx off e (drop buffer_bytes rest) (pos + length ?c)
        (sel @ window_part off e pos ?c) s1 = (Inr (sel', pos'), s')"
      using cp "1.prems" False by (simp add: unf Let_def)
    from "1.IH" [OF cp [symmetric] refl False refl this]
    have "sel' = sel @ window off e pos ?c @ window off e (pos + length ?c) (drop buffer_bytes rest)"
        "pos' = pos + length ?c + length (drop buffer_bytes rest)"
      by (simp_all add: window_part_window)
    with window_append [of off e pos ?c "drop buffer_bytes rest"] show ?thesis
      by (simp add: add.assoc del: length_take length_drop) (metis append_take_drop_id length_append)
  qed
qed

lemma read_open_Inr:
  assumes "read_open env fs rq = Inr (p, c)"
  shows "resolve_existing (resolver env) fs (read_path rq) (read_follow_symlinks rq) = Inr p \<and> read_contents_of fs p = Inr c"
proof -
  from assms obtain q n where q: "resolve_existing (resolver env) fs (read_path rq) (read_follow_symlinks rq) = Inr q"
      "(case n of
          NFile _ \<Rightarrow> rbind (native (resolver env) q (read_contents_of fs q)) (\<lambda>c. Inr (q, c))
        | NDir \<Rightarrow> Inl (Fail (exec_error_new IsDirectory ''byte reads require a regular file''))
        | NLink _ \<Rightarrow> Inl (Fail (exec_error_new InvalidRequest ''byte reads require a regular file''))) = Inr (p, c)"
    unfolding read_open_def by (auto simp only: rbind_Inr_iff)
  then show ?thesis by (cases n) (auto simp: rbind_Inr_iff)
qed

lemma sup_read_Inr:
  assumes "sup_read env ctx rq s = (Inr reply, s')"
  shows "\<exists>p c. resolve_existing (resolver env) (sv_fs s) (read_path rq) (read_follow_symlinks rq) = Inr p \<and>
     read_contents_of (sv_fs s) p = Inr c \<and>
     read_reply env (sv_fs s) rq p c
       (window (read_offset rq) (sat_add (read_offset rq) (max_bytes rq)) 0 c) (length c) = Inr reply"
proof -
  obtain s1 p c sel pos s2 where cp: "sup_checkpoint ctx s = (Inr (), s1)"
      and ro: "read_open env (sv_fs s1) rq = Inr (p, c)"
      and sc: "read_scan ctx (read_offset rq) (sat_add (read_offset rq) (max_bytes rq)) c 0 [] s1 = (Inr (sel, pos), s2)"
      and rr: "read_reply env (sv_fs s1) rq p c sel pos = Inr reply"
    using assms by (auto simp: sup_read_def io_bind_Inr_iff)
  have "sv_fs s1 = sv_fs s" using sup_checkpoint_frame [OF cp] by simp
  with read_open_Inr [OF ro] rr read_scan_window [OF sc] ro show ?thesis by auto
qed

lemma window_read:
  assumes "off \<le> length c" and "length c \<le> u64_max"
  shows "window off (sat_add off n) 0 c = take n (drop off c)"
proof -
  have "min (sat_add off n - off) (length (drop off c)) = min n (length (drop off c))"
    using assms unfolding sat_add_def by (cases "off + n \<le> u64_max") (auto simp: min_def)
  then show ?thesis
    using take_min_length [of "sat_add off n - off" "drop off c"] take_min_length [of n "drop off c"]
    by (simp add: window_def)
qed

lemma sup_read_contents:
  assumes "sup_read env ctx rq s = (Inr reply, s')"
  shows "\<exists>p c. resolve_existing (resolver env) (sv_fs s) (read_path rq) (read_follow_symlinks rq) = Inr p \<and>
     read_contents_of (sv_fs s) p = Inr c \<and> read_offset rq \<le> length c \<and> file_size (metadata reply) = length c \<and>
     hash_bytes env c = Inr (the (revision (metadata reply))) \<and> result_offset reply = read_offset rq \<and>
     (length c \<le> u64_max \<longrightarrow> read_data reply = take (max_bytes rq) (drop (read_offset rq) c) \<and>
        (read_eof reply \<longleftrightarrow> length c \<le> read_offset rq + length (read_data reply)))"
proof -
  from sup_read_Inr [OF assms] obtain p c where 1: "resolve_existing (resolver env) (sv_fs s) (read_path rq) (read_follow_symlinks rq) = Inr p"
      "read_contents_of (sv_fs s) p = Inr c"
    and 2: "read_reply env (sv_fs s) rq p c
       (window (read_offset rq) (sat_add (read_offset rq) (max_bytes rq)) 0 c) (length c) = Inr reply" by blast
  from 2 have off: "read_offset rq \<le> length c" by (auto simp: read_reply_def split: if_splits)
  have eof: "length c \<le> sat_add (read_offset rq) n \<longleftrightarrow> length c \<le> read_offset rq + n" if "length c \<le> u64_max" for n
    using that by (auto simp: sat_add_def)
  from 1 2 off show ?thesis
    by (intro exI [of _ p] exI [of _ c])
       (auto simp: read_reply_def rbind_Inr_iff window_read eof split: if_splits)
qed

text \<open>An undisturbed context: neither cancelled nor past its deadline at any instant.\<close>

definition undisturbed :: "operation_context \<Rightarrow> bool" where
  "undisturbed ctx \<longleftrightarrow> ctx_deadline ctx = None \<and> (\<forall>n. \<not> ctx_cancelled ctx n)"

lemma undisturbed_checkpoint: "undisturbed ctx \<Longrightarrow> sup_checkpoint ctx s = (Inr (), s\<lparr>sv_now := sv_now s + 1\<rparr>)"
  by (simp add: undisturbed_def sup_checkpoint_def checkpoint_def)

lemma read_scan_returns: "undisturbed ctx \<Longrightarrow> \<exists>x s'. read_scan ctx off e rest pos sel s = (Inr x, s')"
proof (induction ctx off e rest pos sel s rule: read_scan.induct)
  case (1 ctx off e rest pos sel s)
  note cp = undisturbed_checkpoint [OF "1.prems", of s]
  show ?case
    using "1.IH" [OF cp [symmetric] refl _ refl "1.prems"]
    by (simp add: read_scan.simps [of ctx off e rest pos sel s] cp Let_def)
qed

section \<open>Listing\<close>

lemma list_entries_names:
  "list_entries env ctx rq names s = (Inr es, s') \<Longrightarrow> map entry_name es = names"
proof (induction env ctx rq names arbitrary: s es s' rule: list_entries.induct)
  case (2 env ctx rq name names)
  then show ?case by (auto simp: io_bind_Inr_iff list_entry_def rbind_Inr_iff)
qed simp

lemma sup_list_Inr:
  assumes "sup_list env ctx rq s = (Inr page, s')"
  shows "\<exists>names. list_names env (sv_fs s) rq = Inr names \<and>
     map entry_name (dir_entries page) = take (max_entries rq) names \<and> 0 < max_entries rq \<and>
     next_cursor page = (if max_entries rq < length names then Some (last (take (max_entries rq) names)) else None)"
proof -
  obtain s1 names es next_c where cp: "sup_checkpoint ctx s = (Inr (), s1)"
      and v: "list_directory_validate rq = Inr ()"
      and n: "list_names env (sv_fs s1) rq = Inr names"
      and es: "\<exists>s2. list_entries env ctx rq (take (max_entries rq) names) s1 = (Inr es, s2)"
      and c: "(if max_entries rq < length names then cursor_of es else Inr None) = Inr next_c"
      and page: "page = \<lparr>dir_entries = es, next_cursor = next_c\<rparr>"
    using assms by (auto simp: sup_list_def io_bind_Inr_iff)
  from es list_entries_names have names: "map entry_name es = take (max_entries rq) names" by blast
  have pos: "0 < max_entries rq" using v by (simp add: list_directory_validate_def)
  have "next_c = Some (last (take (max_entries rq) names))" if "max_entries rq < length names"
  proof -
    have ne: "es \<noteq> []" using names that pos by (cases es) auto
    then obtain es' e where e: "es = es' @ [e]" by (cases es rule: rev_cases) auto
    with that c have "next_c = Some (entry_name e)"
      by (auto simp: cursor_of_def vec_last_def id_new_def split: if_splits)
    with e names [symmetric] show ?thesis by simp
  qed
  with n c names pos page sup_checkpoint_frame [OF cp] show ?thesis by auto
qed

lemma sorted_after_cursor:
  fixes xs :: "string list"
  assumes "sorted xs" and "distinct xs" and "0 < n" and "n < length xs"
  shows "filter (\<lambda>x. last (take n xs) < x) xs = drop n xs"
proof -
  have l: "last (take n xs) = xs ! (n - 1)"
    using assms(3,4) by (subst last_conv_nth) auto
  have "filter (\<lambda>x. xs ! (n - 1) < x) (take n xs) = []"
    using assms(3,4) sorted_nth_mono [OF assms(1), of _ "n - 1"]
    by (auto simp: filter_empty_conv in_set_conv_nth leD)
  moreover have "filter (\<lambda>x. xs ! (n - 1) < x) (drop n xs) = drop n xs"
  proof (rule filter_True, intro ballI)
    fix x assume "x \<in> set (drop n xs)"
    then obtain i where i: "i < length xs - n" "x = xs ! (n + i)" by (auto simp: in_set_conv_nth)
    then have "xs ! (n - 1) \<le> x" "xs ! (n - 1) \<noteq> x"
      using assms sorted_nth_mono [OF assms(1), of "n - 1" "n + i"] by (auto simp: nth_eq_iff_index_eq)
    then show "xs ! (n - 1) < x" by simp
  qed
  ultimately show ?thesis
    using l by (metis append_take_drop_id filter_append self_append_conv2)
qed


lemma children_distinct: "distinct (children fs d)"
proof -
  have "distinct (map fst (AList.clearjunk fs))" by simp
  then have d: "distinct (filter (\<lambda>q. q \<noteq> [] \<and> butlast q = d) (map fst (AList.clearjunk fs)))"
    by (rule distinct_filter)
  have eq: "children fs d = map last (filter (\<lambda>q. q \<noteq> [] \<and> butlast q = d) (map fst (AList.clearjunk fs)))"
    by (simp add: children_def filter_map comp_def case_prod_unfold)
  show ?thesis
    unfolding eq distinct_map
    using d by (auto simp: inj_on_def) (metis append_butlast_last_id)
qed

text \<open>Every name of the tree is UTF-8 text.\<close>

definition utf8_names :: "nfs \<Rightarrow> bool" where
  "utf8_names fs \<longleftrightarrow> (\<forall>(q, n) \<in> set fs. \<forall>name \<in> set q. utf8_valid name)"

lemma children_names:
  assumes "name \<in> set (children fs d)"
  shows "\<exists>q n. (q, n) \<in> set fs \<and> name \<in> set q"
proof -
  obtain q n where q: "(q, n) \<in> set (AList.clearjunk fs)" "q \<noteq> []" "name = last q"
    using assms by (auto simp: children_def)
  have "map_of (AList.clearjunk fs) q = Some n" using q(1) by (intro map_of_is_SomeI) simp_all
  then have "map_of fs q = Some n" by (simp add: map_of_clearjunk)
  with q show ?thesis by (metis last_in_set map_of_SomeD)
qed

lemma read_dir_utf8:
  assumes "utf8_names fs" and "read_dir fs p = Inr names"
  shows "map utf8_lossy names = names" and "distinct names"
proof -
  obtain d where d: "names = children fs d" using assms(2) by (auto simp: read_dir_def split: sum.splits)
  then show "distinct names" by (simp add: children_distinct)
  have "utf8_lossy name = name" if "name \<in> set names" for name
    using children_names [of name fs d] that d assms(1) utf8_lossy_valid by (fastforce simp: utf8_names_def)
  then show "map utf8_lossy names = names" by (simp add: map_idI)
qed

lemma list_names_sorted:
  assumes "list_names env fs rq = Inr names"
  shows "sorted names" and "utf8_names fs \<Longrightarrow> distinct names"
  using assms read_dir_utf8 [of fs]
  by (auto simp: list_names_def rbind_Inr_iff Let_def sorted_wrt_filter native_def split: option.splits sum.splits if_splits)

lemma list_names_resume:
  assumes "list_names env fs rq = Inr names" and "0 < n" and "n < length names" and "utf8_names fs"
  shows "list_names env fs (rq\<lparr>list_cursor := Some (last (take n names))\<rparr>) = Inr (drop n names)"
proof -
  let ?c = "last (take n names)"
  from assms(1) obtain p d where r: "resolve_existing (resolver env) fs (list_path rq) (list_follow_symlinks rq) = Inr p"
      "metadata_of fs p = Inr NDir" "read_dir fs p = Inr d"
      and names: "names = (case list_cursor rq of None \<Rightarrow> sort (map utf8_lossy d)
        | Some cursor \<Rightarrow> filter (\<lambda>name. cursor < name) (sort (map utf8_lossy d)))"
    by (auto simp: list_names_def rbind_Inr_iff guard_def Let_def split: if_splits)
  have "filter (\<lambda>x. ?c < x) (sort (map utf8_lossy d)) = filter (\<lambda>x. ?c < x) names"
  proof (cases "list_cursor rq")
    case (Some cursor)
    have "?c \<in> set names"
      using assms(2,3) by (metis in_set_takeD last_in_set length_greater_0_conv less_trans take_eq_Nil not_less_zero)
    then have "cursor < ?c" using names Some by auto
    then show ?thesis unfolding names Some by (auto intro!: filter_cong)
  qed (simp add: names)
  also have "\<dots> = drop n names"
    using sorted_after_cursor [OF list_names_sorted(1) [OF assms(1)] list_names_sorted(2) [OF assms(1,4)] assms(2,3)] .
  finally show ?thesis using r by (simp add: list_names_def rbind_def guard_def native_def Let_def)
qed

text \<open>A name with a backslash has no execution path.\<close>

lemma backslash_refused:
  assumes "BSLASH \<in> set (path v)"
  shows "\<exists>issues. exec_path_validate v = Inl issues"
proof -
  have "issue_if (BSLASH \<in> set (path v)) ''path'' ''must use forward slashes'' \<noteq> []" using assms by (simp add: issue_if_def single_def)
  then show ?thesis unfolding exec_path_validate_def finish_def Let_def by (simp only: append_is_Nil_conv if_False simp_thms) blast
qed

lemma child_path_backslash:
  assumes "BSLASH \<in> set name"
  shows "child_path parent name = Inl (Panic ''directory entry creates a valid child path'')"
proof -
  let ?v = "\<lparr>root_id = root_id parent, path = if path parent = ''.'' then name else path parent @ ''/'' @ name\<rparr>"
  have "BSLASH \<in> set (path ?v)" using assms by simp
  then obtain issues where "exec_path_validate ?v = Inl issues" using backslash_refused by blast
  then show ?thesis by (simp only: child_path_def exec_path_new_def Let_def sum.case)
qed

lemma sup_checkpoint_always:
  "ctx_cancelled ctx = (\<lambda>_. False) \<Longrightarrow> ctx_deadline ctx = None \<Longrightarrow> sup_checkpoint ctx s = (Inr (), s\<lparr>sv_now := sv_now s + 1\<rparr>)"
  by (simp add: sup_checkpoint_def checkpoint_def)

lemma list_entries_panic:
  assumes "ctx_cancelled ctx = (\<lambda>_. False)" and "ctx_deadline ctx = None" and "BSLASH \<in> set name"
    and "\<And>n. n \<in> set pre \<Longrightarrow> \<exists>e. list_entry env (sv_fs s) rq n = Inr e"
  shows "fst (list_entries env ctx rq (pre @ name # post) s) = Inl (Panic ''directory entry creates a valid child path'')"
  using assms(4)
proof (induction pre arbitrary: s)
  case Nil
  show ?case
    using child_path_backslash [OF assms(3)]
    by (simp add: io_bind_def io_lift_def sup_checkpoint_always [OF assms(1,2)] list_entry_def rbind_def)
next
  case (Cons n pre)
  obtain e where e: "list_entry env (sv_fs s) rq n = Inr e" using Cons.prems [of n] by auto
  let ?s = "s\<lparr>sv_now := sv_now s + 1\<rparr>"
  have "fst (list_entries env ctx rq (pre @ name # post) ?s) = Inl (Panic ''directory entry creates a valid child path'')"
    by (rule Cons.IH) (use Cons.prems in simp)
  then show ?case
    using e by (auto simp: io_bind_def io_lift_def sup_checkpoint_always [OF assms(1,2)] split: prod.splits sum.splits)
qed

section \<open>Properties\<close>

definition sample_fs :: nfs where
  "sample_fs = [([''w''], NDir), ([''w'', ''f''], NFile ''hello''), ([''w'', ''l''], NLink ''/etc''),
     ([''w'', ''m''], NLink ''d/n''), ([''etc''], NDir)]"

definition sample_resolver :: path_resolver where
  "sample_resolver = \<lparr>resolver_roots = [(''work'', \<lparr>entry_descriptor = \<lparr>root_identifier = ''work'', root_name = ''Work'',
       native_path = ''/w'', read_only = False\<rparr>, canonical_path = [''w'']\<rparr>)],
     io_text = (\<lambda>_. ''io''), issues_text = (\<lambda>_. ''issues'')\<rparr>"

definition sample_env :: supervisor_env where
  "sample_env = \<lparr>resolver = sample_resolver, sup_limits = \<lparr>lim_read_bytes = 9, lim_write_bytes = 9,
       lim_process_read_bytes = 9, lim_process_input_bytes = 9, lim_concurrent_processes = 2, lim_output_chunk_bytes = 4,
       lim_retention_ms = 9, lim_grace_ms = 2\<rparr>, sup_generation = ''g'',
     sha_hex = (\<lambda>s. CHR ''x'' # s), write_json = (\<lambda>q. Inr (write_data q)), create_json = (\<lambda>q. Inr []),
     remove_json = (\<lambda>q. Inr []), uuid_text = show_nat, native_modified = (\<lambda>_ _. None),
     directory_len = (\<lambda>_ _. 0), write_fault = (\<lambda>_ _. None)\<rparr>"

definition sample_state :: supervisor where
  "sample_state = \<lparr>sv_fs = sample_fs, sv_records = [], sv_now = 0, sv_uuids = 0\<rparr>"

definition sample_ctx :: operation_context where
  "sample_ctx = \<lparr>ctx_cancelled = (\<lambda>_. False), ctx_deadline = None\<rparr>"

definition sample_write :: write_file_request where
  "sample_write = \<lparr>write_expected_generation = Some ''g'', strategy = InPlace, write_operation_id = ''op'',
     write_path = \<lparr>root_id = ''work'', path = ''f''\<rparr>, write_data = ''new'', condition = AnyState,
     create_parents = False, write_follow_symlinks = True\<rparr>"

lemma sample_resolves:
  "resolver_new (\<lambda>_. ''io'') (\<lambda>_. ''issues'') sample_fs
     [\<lparr>sr_id = ''work'', sr_name = ''Work'', sr_path = [''w''], sr_read_only = False\<rparr>] = Inr (resolver sample_env)"
proof -
  have "trim ''Work'' = ''Work''" "utf8_lossy ''/w'' = ''/w''" by code_simp+
  then show ?thesis
    by (simp add: resolver_new_def resolver_entry_def canonicalize_def max_links_def sample_fs_def node_at_def metadata_of_def
        sample_env_def sample_resolver_def display_path_def)
qed

lemma sample_fs_wf: "fs_wf sample_fs"
  by (auto simp: fs_wf_def node_at_def sample_fs_def)

lemma sample_inv: "sup_inv sample_env sample_state"
  using resolver_new_ok [OF sample_resolves] sample_fs_wf by (simp add: sup_inv_def sample_state_def)

lemma sample_no_nesting: "no_nesting (resolver sample_env)"
  by (simp add: no_nesting_def sample_env_def sample_resolver_def)

definition sample_reply :: write_file_result where
  "sample_reply = \<lparr>written_path = \<lparr>root_id = ''work'', path = ''f''\<rparr>, existed = True, written_revision = ''xnew'', bytes_written = 3\<rparr>"

definition sample_after :: supervisor where
  "sample_after = \<lparr>sv_fs = fs_put [''w'', ''f''] (NFile ''new'') sample_fs,
     sv_records = [(''op'', \<lparr>fingerprint_of = ''xnew'', mutation_result = MWrite sample_reply\<rparr>)], sv_now = 1, sv_uuids = 0\<rparr>"

lemma sample_writes: "sup_write sample_env sample_ctx sample_write sample_state = (Inr sample_reply, sample_after)"
  unfolding sample_env_def sample_ctx_def sample_write_def sample_state_def sample_fs_def sample_after_def sample_reply_def
  by code_simp



text \<open>
  C28: the state invariant. For a resolver built by \<open>PathResolver::new\<close> whose roots are not nested, the
  tree stays well formed and every root stays a directory with its canonical path, whatever
  requests are served afterwards and however they end.
\<close>

theorem supervisor_state_invariant:
  assumes "resolver_new it ist (sv_fs s) rts = Inr (resolver env)" and "no_nesting (resolver env)" and "fs_wf (sv_fs s)"
  shows "sup_inv env (serve_all env rqs s)"
  using serve_all_inv [OF _ assms(2)] resolver_new_ok [OF assms(1)] assms(3) by (simp add: sup_inv_def)

theorem supervisor_state_invariant_witness:
  "sup_inv sample_env (serve_all sample_env [(sample_ctx, RWrite sample_write)] sample_state)"
  by (rule supervisor_state_invariant [OF _ sample_no_nesting])
     (use sample_resolves sample_fs_wf in \<open>simp_all add: sample_state_def\<close>)

text \<open>
  C22: mutations are idempotent. Once a write has succeeded, repeating the same request returns the same
  result and touches nothing (only the clock advances), however many other requests have been
  served in between.
\<close>

theorem repeated_write_returns_record:
  assumes "sup_inv env s" and "no_nesting (resolver env)" and "sup_write env ctx rq s = (Inr w, s1)"
    and "sup_checkpoint ctx' (serve_all env rqs s1) = (Inr (), s2)"
  shows "sup_write env ctx' rq (serve_all env rqs s1) = (Inr w, s2)"
proof -
  from assms(3) obtain fp s0 where fp: "fingerprint env (write_json env rq) = Inr fp"
      and v: "write_file_validate rq = Inr ()" and g: "check_generation env (write_expected_generation rq) = Inr ()"
      and run: "run_mutation (write_expected_generation rq) (write_operation_id rq) fp MWrite written (write_inner env rq) s0 = (Inr w, s1)"
    by (auto simp: sup_write_eq io_bind_Inr_iff)
  from run_mutation_result [OF run] obtain rc where rc: "map_of (sv_records s1) (write_operation_id rq) = Some rc"
      "recorded written rc fp (write_operation_id rq) = Inr w" by auto
  have "serve env (ctx, RWrite rq) s = s1" using assms(3) by simp
  then have "sup_inv env s1" using serve_inv [OF assms(1,2), of "(ctx, RWrite rq)"] by simp
  from serve_all_records [OF this assms(2) rc(1)] sup_checkpoint_frame [OF assms(4)]
  have "map_of (sv_records s2) (write_operation_id rq) = Some rc" by simp
  then show ?thesis
    using assms(4) fp v g rc(2) by (simp add: sup_write_eq io_bind_def io_lift_def validated_def run_mutation_known)
qed

theorem repeated_write_returns_record_witness:
  "sup_write sample_env sample_ctx sample_write (serve_all sample_env [] sample_after) = (Inr sample_reply, sample_after\<lparr>sv_now := 2\<rparr>)"
  by (rule repeated_write_returns_record [OF sample_inv sample_no_nesting sample_writes])
     (simp add: sup_checkpoint_def checkpoint_def sample_ctx_def sample_after_def)

text \<open>
  An operation identifier cannot be reused. A valid write under an identifier that is recorded with
  another fingerprint fails with \<open>OperationConflict\<close> and changes nothing but the clock.
\<close>

theorem reused_identifier_conflicts:
  assumes "map_of (sv_records s) (write_operation_id rq) = Some rc" and "write_file_validate rq = Inr ()"
    and "check_generation env (write_expected_generation rq) = Inr ()"
    and "fingerprint env (write_json env rq) = Inr fp" and "fp \<noteq> fingerprint_of rc"
    and "sup_checkpoint ctx s = (Inr (), s')"
  shows "\<exists>e. sup_write env ctx rq s = (Inl (Fail e), s') \<and> code e = OperationConflict"
proof -
  have "map_of (sv_records s') (write_operation_id rq) = Some rc" using assms(1) sup_checkpoint_frame [OF assms(6)] by simp
  with assms show ?thesis
    by (simp add: sup_write_eq io_bind_def io_lift_def validated_def run_mutation_known recorded_def
        ensure_fingerprint_def guard_def rbind_def operation_conflict_def exec_error_new_def)
qed

theorem reused_identifier_conflicts_witness:
  "\<exists>e. sup_write sample_env sample_ctx (sample_write\<lparr>write_data := ''other''\<rparr>) sample_after =
     (Inl (Fail e), sample_after\<lparr>sv_now := 2\<rparr>) \<and> code e = OperationConflict"
proof (rule reused_identifier_conflicts)
  show "map_of (sv_records sample_after) (write_operation_id (sample_write\<lparr>write_data := ''other''\<rparr>)) =
      Some \<lparr>fingerprint_of = ''xnew'', mutation_result = MWrite sample_reply\<rparr>"
    by (simp add: sample_after_def sample_write_def)
  show "write_file_validate (sample_write\<lparr>write_data := ''other''\<rparr>) = Inr ()" by code_simp
  show "check_generation sample_env (write_expected_generation (sample_write\<lparr>write_data := ''other''\<rparr>)) = Inr ()"
    by (simp add: check_generation_def guard_def sample_write_def sample_env_def)
  show "fingerprint sample_env (write_json sample_env (sample_write\<lparr>write_data := ''other''\<rparr>)) = Inr ''xother''"
    by (simp add: fingerprint_def sample_env_def)
qed (simp_all add: sup_checkpoint_def checkpoint_def sample_ctx_def sample_after_def)

text \<open>
  C29: a dropped mutation is fenced. On a supervisor none of whose roots lies in another, a write that carries
  the generation has been admitted (\<open>write_begin\<close> has run: the checks, the lookup and whatever is recorded before the
  first change), and its future is dropped anywhere in \<open>write_inner\<close>, which leaves some well-formed tree that
  still has its roots. Then, whatever other requests are served afterwards, the same request in a context
  that is not cancelled or expired never writes: it fails with \<open>ExecutionLost\<close> and the outcome
  marked unknown, and leaves the tree and the records as they are.
\<close>

theorem dropped_write_is_fenced:
  assumes "write_expected_generation rq \<noteq> None" and "write_begin env ctx rq s = (Inr None, s1)"
    and "sup_inv env (put_fs fs' s1)" and "no_nesting (resolver env)"
    and "s2 = serve_all env rqs (put_fs fs' s1)" and "sup_checkpoint ctx' s2 = (Inr (), s3)"
  shows "sup_write env ctx' rq s2 = (Inl (Fail unknown_outcome_error), s3) \<and>
     sv_fs s3 = sv_fs s2 \<and> sv_records s3 = sv_records s2"
proof -
  from assms(2) obtain fp s0 where fp: "fingerprint env (write_json env rq) = Inr fp"
      and v: "write_file_validate rq = Inr ()" and g: "check_generation env (write_expected_generation rq) = Inr ()"
      and b: "begin_mutation (write_expected_generation rq) (write_operation_id rq) fp written s0 = (Inr None, s1)"
    by (auto simp: write_begin_def write_fingerprint_def io_bind_Inr_iff)
  have "map_of (sv_records (put_fs fs' s1)) (write_operation_id rq) =
      Some \<lparr>fingerprint_of = fp, mutation_result = MFailure unknown_outcome_error\<rparr>"
    using b assms(1) by (auto simp: begin_mutation_def fence_def rbind_Inr_iff split: option.splits)
  from serve_all_records [OF assms(3,4) this] sup_checkpoint_frame [OF assms(6)] assms(5)
  have "map_of (sv_records s3) (write_operation_id rq) =
      Some \<lparr>fingerprint_of = fp, mutation_result = MFailure unknown_outcome_error\<rparr>" by simp
  then have "sup_write env ctx' rq s2 = (Inl (Fail unknown_outcome_error), s3)"
    using assms(6) fp v g
    by (simp add: sup_write_eq io_bind_def io_lift_def validated_def run_mutation_known recorded_def
        ensure_fingerprint_def guard_def rbind_def)
  with sup_checkpoint_frame [OF assms(6)] show ?thesis by simp
qed

definition sample_begun :: supervisor where
  "sample_begun = \<lparr>sv_fs = sample_fs, sv_records = [(''op'', \<lparr>fingerprint_of = ''xnew'',
     mutation_result = MFailure unknown_outcome_error\<rparr>)], sv_now = 1, sv_uuids = 0\<rparr>"

lemma sample_begins: "write_begin sample_env sample_ctx sample_write sample_state = (Inr None, sample_begun)"
  unfolding sample_env_def sample_ctx_def sample_write_def sample_state_def sample_begun_def by code_simp

text \<open>The dropped write had emptied the file; another request is served before the repetition.\<close>

definition sample_dropped :: supervisor where
  "sample_dropped = put_fs (fs_put [''w'', ''f''] (NFile []) sample_fs) sample_begun"

lemma sample_dropped_inv: "sup_inv sample_env sample_dropped"
proof -
  have "fs_wf (sv_fs sample_dropped)"
    by (auto simp: fs_wf_def fs_put_def node_at_def sample_fs_def sample_dropped_def split: if_splits)
  moreover have "roots_ok sample_resolver (sv_fs sample_dropped)"
    by (auto simp: roots_ok_def sample_resolver_def dir_path_def sample_dropped_def fs_put_def sample_fs_def node_at_def prefix_Cons)
  ultimately show ?thesis by (simp add: sup_inv_def sample_env_def)
qed

theorem dropped_write_is_fenced_witness:
  "\<exists>s2 s3. s2 = serve_all sample_env
       [(sample_ctx, RStat \<lparr>stat_path = \<lparr>root_id = ''work'', path = ''f''\<rparr>, stat_follow_symlinks = True\<rparr>)] sample_dropped \<and>
     sup_write sample_env sample_ctx sample_write s2 = (Inl (Fail unknown_outcome_error), s3) \<and> sv_fs s3 = sv_fs s2"
proof -
  let ?s2 = "serve_all sample_env
       [(sample_ctx, RStat \<lparr>stat_path = \<lparr>root_id = ''work'', path = ''f''\<rparr>, stat_follow_symlinks = True\<rparr>)] sample_dropped"
  have g: "write_expected_generation sample_write \<noteq> None" by (simp add: sample_write_def)
  have c: "sup_checkpoint sample_ctx ?s2 = (Inr (), ?s2\<lparr>sv_now := sv_now ?s2 + 1\<rparr>)"
    by (rule sup_checkpoint_always) (simp_all add: sample_ctx_def)
  from dropped_write_is_fenced [OF g sample_begins sample_dropped_inv [unfolded sample_dropped_def] sample_no_nesting
      _ c [unfolded sample_dropped_def]]
  show ?thesis unfolding sample_dropped_def by blast
qed

text \<open>
  A successful read returns a window of the file. The reply holds the bytes of the resolved file from
  the requested offset, at most \<open>max_bytes\<close> of them and fewer only at the end; size, revision and
  offset describe the whole file, and end-of-file is reported exactly when the window reaches it.
\<close>

theorem read_returns_window:
  assumes "sup_read env ctx rq s = (Inr reply, s')"
  shows "\<exists>p c. resolve_existing (resolver env) (sv_fs s) (read_path rq) (read_follow_symlinks rq) = Inr p \<and>
     read_contents_of (sv_fs s) p = Inr c \<and> read_offset rq \<le> length c \<and> file_size (metadata reply) = length c \<and>
     hash_bytes env c = Inr (the (revision (metadata reply))) \<and> result_offset reply = read_offset rq \<and>
     (length c \<le> u64_max \<longrightarrow> read_data reply = take (max_bytes rq) (drop (read_offset rq) c) \<and>
        (read_eof reply \<longleftrightarrow> length c \<le> read_offset rq + length (read_data reply)))"
  using assms by (rule sup_read_contents)

definition sample_read :: read_file_request where
  "sample_read = \<lparr>read_path = \<lparr>root_id = ''work'', path = ''f''\<rparr>, read_offset = 1, max_bytes = 3, read_follow_symlinks = True\<rparr>"

lemma sample_reads:
  "\<exists>reply. sup_read sample_env sample_ctx sample_read sample_state = (Inr reply, sample_state\<lparr>sv_now := 3\<rparr>) \<and>
     read_data reply = ''ell''"
proof -
  have "resolve_existing (resolver sample_env) (sv_fs sample_state) \<lparr>root_id = ''work'', path = ''f''\<rparr> True = Inr [''w'', ''f'']"
    unfolding sample_env_def sample_state_def sample_fs_def by code_simp
  moreover have "read_contents_of (sv_fs sample_state) [''w'', ''f''] = Inr ''hello''"
      "metadata_of (sv_fs sample_state) [''w'', ''f''] = Inr (NFile ''hello'')"
    unfolding sample_state_def sample_fs_def by code_simp+
  ultimately have "read_open sample_env (sv_fs sample_state) sample_read = Inr ([''w'', ''f''], ''hello'')"
    by (simp add: read_open_def sample_read_def rbind_def native_def)
  moreover have "read_file_validate sample_read = Inr ()" by code_simp
  moreover have "hash_bytes sample_env ''hello'' = Inr ''xhello''"
    unfolding sample_env_def by code_simp
  ultimately show ?thesis
    by (simp add: sup_read_def io_bind_def io_lift_def sup_checkpoint_def checkpoint_def sample_ctx_def sample_state_def
        validated_def guard_def sample_env_def sample_read_def read_scan.simps
        buffer_bytes_def Let_def window_part_def sat_add_def u64_max_def read_reply_def rbind_def)
qed

theorem read_returns_window_witness:
  "\<exists>reply p c. sup_read sample_env sample_ctx sample_read sample_state = (Inr reply, sample_state\<lparr>sv_now := 3\<rparr>) \<and>
     read_data reply = ''ell'' \<and> read_contents_of (sv_fs sample_state) p = Inr c \<and> file_size (metadata reply) = length c"
  using sample_reads read_returns_window by metis

text \<open>
  Paging through a directory. A page holds the next names in ascending order without repetition, at
  most \<open>max_entries\<close> of them; it carries a cursor exactly when names are left, and listing
  again from that cursor continues with precisely the names that are left. This is for trees whose
  names are UTF-8; otherwise two entries can have the same text, and the second is skipped.
\<close>

theorem listing_pages_continue:
  assumes "sup_list env ctx rq s = (Inr page, s')" and "utf8_names (sv_fs s)"
  shows "\<exists>names. list_names env (sv_fs s) rq = Inr names \<and> sorted names \<and> distinct names \<and>
     map entry_name (dir_entries page) = take (max_entries rq) names \<and>
     (case next_cursor page of
        None \<Rightarrow> length names \<le> max_entries rq
      | Some c \<Rightarrow> max_entries rq < length names \<and>
          list_names env (sv_fs s) (rq\<lparr>list_cursor := Some c\<rparr>) = Inr (drop (max_entries rq) names))"
proof -
  from sup_list_Inr [OF assms(1)] obtain names where n: "list_names env (sv_fs s) rq = Inr names"
      "map entry_name (dir_entries page) = take (max_entries rq) names" "0 < max_entries rq"
      "next_cursor page = (if max_entries rq < length names then Some (last (take (max_entries rq) names)) else None)"
    by blast
  with list_names_sorted(1) [OF n(1)] list_names_sorted(2) [OF n(1) assms(2)] list_names_resume [OF n(1,3) _ assms(2)]
  show ?thesis by auto
qed

definition sample_list :: list_directory_request where
  "sample_list = \<lparr>list_path = \<lparr>root_id = ''work'', path = ''.''\<rparr>, list_follow_symlinks = False, max_entries = 2, list_cursor = None\<rparr>"

theorem listing_pages_continue_witness:
  "\<exists>page names s'. sup_list sample_env sample_ctx sample_list sample_state = (Inr page, s') \<and>
     map entry_name (dir_entries page) = [''f'', ''l''] \<and> next_cursor page = Some ''l'' \<and>
     list_names sample_env (sv_fs sample_state) (sample_list\<lparr>list_cursor := Some ''l''\<rparr>) = Inr (drop 2 names)"
proof -
  have "map_sum (\<lambda>_. ()) (\<lambda>p. (map entry_name (dir_entries p), next_cursor p))
      (fst (sup_list sample_env sample_ctx sample_list sample_state)) = Inr ([''f'', ''l''], Some ''l'')"
    unfolding sample_env_def sample_ctx_def sample_list_def sample_state_def sample_fs_def by code_simp
  then obtain page s' where p: "sup_list sample_env sample_ctx sample_list sample_state = (Inr page, s')"
      "map entry_name (dir_entries page) = [''f'', ''l'']" "next_cursor page = Some ''l''"
    by (cases "sup_list sample_env sample_ctx sample_list sample_state"; cases "fst (sup_list sample_env sample_ctx sample_list sample_state)") auto
  have "utf8_names (sv_fs sample_state)" unfolding utf8_names_def sample_state_def sample_fs_def by code_simp
  from listing_pages_continue [OF p(1) this] p show ?thesis by (auto simp: sample_list_def)
qed

text \<open>
  C37: a directory entry can bring the listing down. The supervisor builds the execution path of every entry
  with \<open>expect\<close>; a name that holds a backslash, which Unix file systems allow, has none. So for every
  directory, every valid listing in a context that is neither cancelled nor limited in time panics,
  instead of returning a page or an error, when such a name is on the page it asks for and the entries
  before it can be listed.
\<close>

theorem listing_panics_on_backslash:
  assumes "ctx_cancelled ctx = (\<lambda>_. False)" and "ctx_deadline ctx = None" and "list_directory_validate rq = Inr ()"
    and "list_names env (sv_fs s) rq = Inr (pre @ name # post)" and "length pre < max_entries rq"
    and "BSLASH \<in> set name" and "\<forall>n \<in> set pre. \<exists>e. list_entry env (sv_fs s) rq n = Inr e"
  shows "fst (sup_list env ctx rq s) = Inl (Panic ''directory entry creates a valid child path'')"
proof -
  let ?s = "s\<lparr>sv_now := sv_now s + 1\<rparr>"
  obtain post' where t: "take (max_entries rq) (pre @ name # post) = pre @ name # post'"
    using assms(5) by (cases "max_entries rq - length pre") auto
  obtain s' where "list_entries env ctx rq (pre @ name # post') ?s =
      (Inl (Panic ''directory entry creates a valid child path''), s')"
    using list_entries_panic [OF assms(1,2,6), of pre env ?s rq post'] assms(7) by (auto simp: prod_eq_iff)
  with t assms(3,4) show ?thesis
    by (simp add: sup_list_def io_bind_def io_lift_def sup_checkpoint_always [OF assms(1,2)] validated_def)
qed

theorem listing_panics_on_backslash_witness:
  "fst (sup_list sample_env sample_ctx sample_list
     (sample_state\<lparr>sv_fs := [([''w''], NDir), ([''w'', ''a''], NDir), ([''w'', ''b'' @ [BSLASH]], NFile [])]\<rparr>)) =
   Inl (Panic ''directory entry creates a valid child path'')"
proof (rule listing_panics_on_backslash [where pre = "[''a'']" and name = "''b'' @ [BSLASH]" and post = "[]"])
  show "list_directory_validate sample_list = Inr ()" by code_simp
  show "list_names sample_env (sv_fs (sample_state\<lparr>sv_fs := [([''w''], NDir), ([''w'', ''a''], NDir),
      ([''w'', ''b'' @ [BSLASH]], NFile [])]\<rparr>)) sample_list = Inr ([''a''] @ (''b'' @ [BSLASH]) # [])"
    unfolding sample_env_def sample_list_def sample_state_def by code_simp
  have "\<not> isl (list_entry sample_env [([''w''], NDir), ([''w'', ''a''], NDir),
      ([''w'', ''b'' @ [BSLASH]], NFile [])] sample_list ''a'')"
    unfolding sample_env_def sample_list_def by code_simp
  then show "\<forall>n \<in> set [''a'']. \<exists>e. list_entry sample_env (sv_fs (sample_state\<lparr>sv_fs := [([''w''], NDir), ([''w'', ''a''], NDir),
      ([''w'', ''b'' @ [BSLASH]], NFile [])]\<rparr>)) sample_list n = Inr e"
    by (simp add: isl_def) (metis sum.exhaust)
qed (simp_all add: sample_ctx_def sample_list_def)

end
