(* ===== verification/Patch_Supervisor.thy ===== *)
theory Patch_Supervisor
  imports Patch_Apply Read_Tool Supervisor_Files
begin

text \<open>
  The \<open>apply_patch\<close> tool on the supervisor: the supervisor's filesystem satisfies the contract
  \<open>file_host\<close> of the tool on trees without symbolic links and with roots that do not overlap, so that
  a successful application changes the files of the host exactly as the patch says.
\<close>

section \<open>The files of a supervisor\<close>

definition native_of :: "supervisor_env \<Rightarrow> exec_path \<Rightarrow> npath option" where
  "native_of env p =
     (if exec_path_validate p = Inr ()
      then map_option (\<lambda>e. canonical_path e @ path_components (path p)) (map_of (resolver_roots (resolver env)) (root_id p))
      else None)"

definition sup_files :: "supervisor_env \<Rightarrow> supervisor \<Rightarrow> exec_path \<Rightarrow> string option" where
  "sup_files env s p = (case native_of env p of
     None \<Rightarrow> None
   | Some q \<Rightarrow> (case node_at (sv_fs s) q of Some (NFile c) \<Rightarrow> Some c | _ \<Rightarrow> None))"

definition sup_used :: "supervisor \<Rightarrow> string set" where
  "sup_used s = fst ` set (sv_records s)"

definition separate_roots :: "path_resolver \<Rightarrow> bool" where
  "separate_roots rs \<longleftrightarrow> distinct (map fst (resolver_roots rs)) \<and>
     (\<forall>i j e e'. map_of (resolver_roots rs) i = Some e \<longrightarrow> map_of (resolver_roots rs) j = Some e' \<longrightarrow> i \<noteq> j \<longrightarrow>
        \<not> prefix (canonical_path e) (canonical_path e'))"

definition plain_fs :: "nfs \<Rightarrow> bool" where
  "plain_fs fs \<longleftrightarrow> (\<forall>q t. node_at fs q \<noteq> Some (NLink t)) \<and> (\<forall>q c. node_at fs q = Some (NFile c) \<longrightarrow> length c \<le> u64_max)"

definition sup_ok :: "supervisor_env \<Rightarrow> supervisor \<Rightarrow> bool" where
  "sup_ok env s \<longleftrightarrow> sup_inv env s \<and> plain_fs (sv_fs s) \<and> separate_roots (resolver env) \<and>
     lim_write_bytes (sup_limits env) \<le> u64_max"

section \<open>Resolution without links\<close>

lemma plain_resolves: "resolves fs cur p q \<Longrightarrow> plain_fs fs \<Longrightarrow> ''..'' \<notin> set p \<Longrightarrow> q = cur @ p"
  by (induction rule: resolves.induct) (auto simp: plain_fs_def)

lemma plain_canonicalize: "canonicalize fs p = Inr q \<Longrightarrow> plain_fs fs \<Longrightarrow> ''..'' \<notin> set p \<Longrightarrow> q = p"
  using plain_resolves [OF canonicalize_resolves] by fastforce

lemma plain_symlink_metadata: "plain_fs fs \<Longrightarrow> symlink_metadata fs p \<noteq> Inr (NLink t)"
  by (auto simp: plain_fs_def elim: symlink_metadata_link)

lemma plain_creates: "creates fs p r \<Longrightarrow> plain_fs fs \<Longrightarrow> ''..'' \<notin> set p \<Longrightarrow> r = p"
  by (induction rule: creates.induct) (auto dest: plain_resolves simp: plain_symlink_metadata)

lemma native_of_Some:
  "native_of env p = Some q \<longleftrightarrow> exec_path_validate p = Inr () \<and>
     (\<exists>e. map_of (resolver_roots (resolver env)) (root_id p) = Some e \<and> q = canonical_path e @ path_components (path p))"
  by (auto simp: native_of_def)

lemma native_of_candidate: "candidate (resolver env) p = Inr (cand, b, ro) \<Longrightarrow> native_of env p = Some cand"
  by (auto simp: candidate_Inr native_of_Some)

lemma native_no_parents:
  assumes "sup_inv env s" and "native_of env p = Some q"
  shows "''..'' \<notin> set q"
  using assms valid_components roots_okD by (fastforce simp: native_of_Some sup_inv_def dir_path_def)

lemma path_components_inj:
  assumes "path_components a = path_components b"
  shows "a = b"
  using assms unfolding path_components_def by (metis join_split_char split_char_neq_Nil)

lemma native_of_inj:
  assumes "separate_roots (resolver env)" and "native_of env p = Some q" and "native_of env p' = Some q"
  shows "p' = p"
proof -
  from assms(2,3) obtain e e' where e: "map_of (resolver_roots (resolver env)) (root_id p) = Some e"
      "map_of (resolver_roots (resolver env)) (root_id p') = Some e'"
      "canonical_path e @ path_components (path p) = canonical_path e' @ path_components (path p')"
    by (auto simp: native_of_Some)
  have "root_id p = root_id p'"
  proof (rule ccontr)
    assume "root_id p \<noteq> root_id p'"
    then have "\<not> prefix (canonical_path e) (canonical_path e')" "\<not> prefix (canonical_path e') (canonical_path e)"
      using assms(1) e(1,2) unfolding separate_roots_def by metis+
    then show False using prefix_same_cases [OF prefixI [OF e(3)] prefixI [OF refl]] e(3) by auto
  qed
  moreover from this e have "path p = path p'" by (auto intro: path_components_inj)
  ultimately show ?thesis by (simp add: exec_path.equality)
qed


section \<open>The operations on files\<close>

lemma sup_files_fs: "sv_fs s' = sv_fs s \<Longrightarrow> sup_files env s' = sup_files env s"
  by (rule ext) (auto simp: sup_files_def split: option.splits)

lemma clock_frame:
  assumes "same_but_clock s s'" and "sup_ok env s"
  shows "sup_ok env s' \<and> sup_files env s' = sup_files env s \<and> sup_used s' = sup_used s"
  using assms sup_files_fs [of s' s env] by (simp add: same_but_clock_def sup_ok_def sup_inv_def sup_used_def)

lemma resolve_existing_plain:
  assumes "sup_ok env s" and "resolve_existing (resolver env) (sv_fs s) p True = Inr q"
  shows "native_of env p = Some q \<and> canonical (sv_fs s) q"
proof -
  from assms(2) obtain cand b ro where c: "candidate (resolver env) p = Inr (cand, b, ro)"
      and q: "canonicalize (sv_fs s) cand = Inr q"
    by (auto simp: resolve_existing_def rbind_Inr_iff)
  have n: "native_of env p = Some cand" by (rule native_of_candidate [OF c])
  then have "''..'' \<notin> set cand" using native_no_parents assms(1) by (auto simp: sup_ok_def)
  with plain_canonicalize [OF q] assms(1) n canonicalize_canonical [OF q] show ?thesis by (auto simp: sup_ok_def)
qed

lemma canonical_contents:
  assumes "canonical fs q" and "read_contents_of fs q = Inr c"
  shows "node_at fs q = Some (NFile c)"
  using assms canonical_node [OF assms(1)]
  by (auto simp: read_contents_of_def metadata_of_def canonicalize_fixed split: sum.splits option.splits node.splits)

lemma stat_file_plain:
  assumes "sup_ok env s" and "sup_stat env ctx q s = (Inr m, s')" and "stat_follow_symlinks q" and "kind m = File"
  shows "\<exists>c. sup_files env s (stat_path q) = Some c \<and> file_size m = length c"
proof -
  from assms(2,3) obtain s1 p where cp: "sup_checkpoint ctx s = (Inr (), s1)"
      and r: "resolve_existing (resolver env) (sv_fs s1) (stat_path q) True = Inr p"
      and m: "metadata_for env (sv_fs s1) (stat_path q) p True = Inr m"
    by (auto simp: sup_stat_def io_bind_Inr_iff rbind_Inr_iff)
  have fs: "sv_fs s1 = sv_fs s" using sup_checkpoint_frame [OF cp] by simp
  note p = resolve_existing_plain [OF assms(1) r [unfolded fs]]
  from m obtain n where "metadata_of (sv_fs s) p = Inr n" "kind m = node_kind n" "file_size m = node_len env (sv_fs s) p n"
    by (auto simp: metadata_for_def rbind_Inr_iff fs)
  moreover from this p have "node_at (sv_fs s) p = Some n"
    by (auto simp: metadata_of_def canonicalize_fixed split: option.splits)
  ultimately show ?thesis
    using p assms(4) by (cases n) (auto simp: sup_files_def node_len_def)
qed

lemma read_contents_plain:
  assumes "sup_ok env s" and "sup_read env ctx rq s = (Inr reply, s')" and "read_follow_symlinks rq"
  shows "\<exists>c. sup_files env s (read_path rq) = Some c \<and> read_data reply = take (max_bytes rq) (drop (read_offset rq) c)"
proof -
  from sup_read_contents [OF assms(2)] assms(3) obtain p c where
      r: "resolve_existing (resolver env) (sv_fs s) (read_path rq) True = Inr p" "read_contents_of (sv_fs s) p = Inr c"
      and d: "length c \<le> u64_max \<Longrightarrow> read_data reply = take (max_bytes rq) (drop (read_offset rq) c)" by auto
  note p = resolve_existing_plain [OF assms(1) r(1)]
  then have n: "node_at (sv_fs s) p = Some (NFile c)" using canonical_contents r(2) by blast
  moreover from this have "length c \<le> u64_max" using assms(1) by (auto simp: sup_ok_def plain_fs_def)
  ultimately show ?thesis using p d by (auto simp: sup_files_def)
qed

text \<open>Growing directories and replacing one file.\<close>

lemma plain_grows: "plain_fs fs \<Longrightarrow> grows b r fs fs' \<Longrightarrow> plain_fs fs'"
  unfolding plain_fs_def grows_def by (metis node.distinct(1,5) option.inject)

lemma files_grows:
  assumes "grows b r (sv_fs s) (sv_fs s')"
  shows "sup_files env s' = sup_files env s"
proof
  fix p
  show "sup_files env s' p = sup_files env s p"
  proof (cases "native_of env p")
    case (Some q)
    from assms have "node_at (sv_fs s') q = node_at (sv_fs s) q \<or>
        node_at (sv_fs s) q = None \<and> node_at (sv_fs s') q = Some NDir" by (auto simp: grows_def)
    with Some show ?thesis by (auto simp: sup_files_def)
  qed (simp add: sup_files_def)
qed

definition puts_file :: "npath \<Rightarrow> string \<Rightarrow> nfs \<Rightarrow> nfs \<Rightarrow> bool" where
  "puts_file q c fs fs' \<longleftrightarrow> (\<forall>q'. node_at fs' q' = (if q' = q then Some (NFile c) else node_at fs q'))"

lemma puts_fileD: "puts_file q c fs fs' \<Longrightarrow> node_at fs' q' = (if q' = q then Some (NFile c) else node_at fs q')"
  by (auto simp: puts_file_def)

lemma puts_file_put: "q \<noteq> [] \<Longrightarrow> puts_file q c fs (fs_put q (NFile c) fs)"
  by (auto simp: puts_file_def)

lemma files_put:
  assumes "separate_roots (resolver env)" and "native_of env p = Some q" and "puts_file q c (sv_fs s) (sv_fs s')"
  shows "sup_files env s' = (sup_files env s)(p \<mapsto> c)"
proof
  fix p'
  show "sup_files env s' p' = ((sup_files env s)(p \<mapsto> c)) p'"
    using puts_fileD [OF assms(3)] assms(2) native_of_inj [OF assms(1,2), of p']
    by (cases "native_of env p'") (auto simp: sup_files_def)
qed

lemma files_del:
  assumes "separate_roots (resolver env)" and "native_of env p = Some q" and "q \<noteq> []" and "sv_fs s' = fs_del q (sv_fs s)"
  shows "sup_files env s' = (sup_files env s)(p := None)"
proof
  fix p'
  show "sup_files env s' p' = ((sup_files env s)(p := None)) p'"
    using assms native_of_inj [OF assms(1,2), of p'] by (cases "native_of env p'") (auto simp: sup_files_def)
qed


lemma in_place_plain:
  assumes "sup_inv env s" and "plain_fs (sv_fs s)" and "resolve_for_in_place_write (resolver env) (sv_fs s) p = Inr r"
  shows "native_of env p = Some r \<and> creates (sv_fs s) r r"
proof -
  from assms(3) obtain cand b ro where c: "candidate (resolver env) p = Inr (cand, b, ro)"
      and r: "resolve_for_creation (resolver env) (sv_fs s) cand b 0 = Inr r"
    by (auto simp: resolve_for_in_place_write_def rbind_Inr_iff split: if_splits)
  note n = native_of_candidate [OF c]
  have "creates (sv_fs s) cand r" using resolve_for_creation_creates [OF r] by simp
  with plain_creates [OF this assms(2) native_no_parents [OF assms(1) n]] n show ?thesis by simp
qed

lemma fs_write_creates:
  assumes "fs_wf fs" and "creates fs p r" and "fs_write fs r bytes = Inr fs'"
  shows "fs' = fs_put r (NFile bytes) fs \<and> r \<noteq> []"
  using settled_write [OF assms(1) _ creates_not_link [OF assms(1,2)]] creates_shape [OF assms(1,2)] assms(3)
  by (auto split: if_splits)

lemma write_with_parents_plain:
  assumes "sup_ok env s" and "write_with_parents env p rq s = (Inr (), s')"
  shows "\<exists>q b r fs1. native_of env (write_path rq) = Some q \<and> q \<noteq> [] \<and> grows b r (sv_fs s) fs1 \<and>
     sv_fs s' = fs_put q (NFile (write_data rq)) fs1"
proof -
  have wf: "fs_wf (sv_fs s)" "roots_ok (resolver env) (sv_fs s)" "plain_fs (sv_fs s)"
    using assms(1) by (auto simp: sup_ok_def sup_inv_def)
  from assms(2) obtain parent dir s1 t where
      d: "resolve_for_directory_creation (resolver env) (sv_fs s) parent = Inr dir"
      and md: "make_directories env dir s = (Inr (), s1)"
      and t: "resolve_for_in_place_write (resolver env) (sv_fs s1) (write_path rq) = Inr t"
      and w: "try_write env p t (write_data rq) s1 = (Inr (), s')"
    by (auto simp: write_with_parents_def io_bind_Inr_iff)
  from resolve_for_directory_creation_Inr [OF d] obtain e r where
      e: "map_of (resolver_roots (resolver env)) (root_id parent) = Some e" "prefix (canonical_path e) r"
         "creates (sv_fs s) dir r" by blast
  from make_directories_frame [OF wf(1) e(3) roots_okD [OF wf(2) e(1)] e(2) md]
  have g: "grows (canonical_path e) r (sv_fs s) (sv_fs s1)" "fs_wf (sv_fs s1)" by auto
  then have inv: "sup_inv env s1" "plain_fs (sv_fs s1)"
    using roots_ok_grows [OF wf(2)] plain_grows [OF wf(3)] by (auto simp: sup_inv_def)
  note n = in_place_plain [OF inv t]
  from w obtain fs' where "fs_write (sv_fs s1) t (write_data rq) = Inr fs'" "sv_fs s' = fs'"
    by (auto simp: try_write_def elim: os_write_cases split: prod.splits option.splits)
  with fs_write_creates [OF g(2), of t t] n g(1) show ?thesis by blast
qed

lemma resolve_for_write_plain:
  assumes "sup_ok env s" and "resolve_for_write (resolver env) (sv_fs s) p follow = Inr q"
  shows "native_of env p = Some q"
proof -
  have wf: "fs_wf (sv_fs s)" and pl: "plain_fs (sv_fs s)" and inv: "sup_inv env s"
    using assms(1) by (auto simp: sup_ok_def sup_inv_def)
  from assms(2) obtain cand b ro where c: "candidate (resolver env) p = Inr (cand, b, ro)"
      and sel: "(case symlink_metadata (sv_fs s) cand of
         Inr _ \<Rightarrow> if follow then native (resolver env) cand (canonicalize (sv_fs s) cand) else below_parent (resolver env) (sv_fs s) cand b
       | Inl k \<Rightarrow> (if k = KNotFound then resolve_through_existing_ancestor (resolver env) (sv_fs s) cand b
                   else Inl (Fail (io_error (resolver env) cand k)))) = Inr q"
    by (auto simp: resolve_for_write_def rbind_Inr_iff split: if_splits)
  note n = native_of_candidate [OF c]
  have nd: "''..'' \<notin> set cand" by (rule native_no_parents [OF inv n])
  have "q = cand"
  proof (cases "symlink_metadata (sv_fs s) cand")
    case (Inr x)
    show ?thesis
    proof (cases follow)
      case True
      with sel Inr have "canonicalize (sv_fs s) cand = Inr q" by simp
      with plain_canonicalize pl nd show ?thesis by blast
    next
      case False
      with sel Inr obtain d where d: "canonicalize (sv_fs s) (butlast cand) = Inr d" "q = d @ [last cand]" "cand \<noteq> []"
        using below_parent_Inr by fastforce
      have "''..'' \<notin> set (butlast cand)" using nd by (auto dest: in_set_butlastD)
      with plain_canonicalize [OF d(1) pl] d(2,3) show ?thesis by simp
    qed
  next
    case (Inl k)
    with sel have k: "k = KNotFound" by (auto split: if_splits)
    with Inl sel obtain anc m r where anc: "existing_ancestor (sv_fs s) cand [] = Inr (anc, m)"
        "canonicalize (sv_fs s) anc = Inr r" "q = r @ m"
      by (auto simp: resolve_through_existing_ancestor_def rbind_Inr_iff)
    from existing_ancestor_creates [OF anc(1) wf anc(2) nd] Inl k have "creates (sv_fs s) cand (r @ m)" by auto
    from plain_creates [OF this pl nd] anc(3) show ?thesis by simp
  qed
  with n show ?thesis by simp
qed

lemma in_place_write_plain:
  assumes "sup_ok env s" and "resolve_for_in_place_write (resolver env) (sv_fs s) (write_path rq) = Inr p"
    and "in_place_write env p rq s = (Inr (), s')"
  shows "\<exists>b r fs1. native_of env (write_path rq) = Some p \<and> grows b r (sv_fs s) fs1 \<and>
     puts_file p (write_data rq) fs1 (sv_fs s')"
proof -
  have n: "native_of env (write_path rq) = Some p \<and> creates (sv_fs s) p p"
    using in_place_plain [OF _ _ assms(2)] assms(1) by (simp add: sup_ok_def)
  show ?thesis
  proof (cases "os_write env p (write_data rq) s")
    case (Pair failed s1)
    then show ?thesis
    proof (cases rule: os_write_cases)
      case (1 k)
      with assms(3) Pair have "write_with_parents env p rq s = (Inr (), s')"
        by (auto simp: in_place_write_def split: if_splits)
      from write_with_parents_plain [OF assms(1) this] n puts_file_put show ?thesis by fastforce
    next
      case (2 bytes' fs')
      with assms(3) Pair have "failed = None" "s' = s1" by (auto simp: in_place_write_def split: if_splits)
      with 2 have "sv_fs s' = fs'" "fs_write (sv_fs s) p (write_data rq) = Inr fs'" by simp_all
      moreover have "fs_wf (sv_fs s)" using assms(1) by (simp add: sup_ok_def sup_inv_def)
      ultimately have "fs' = fs_put p (NFile (write_data rq)) (sv_fs s) \<and> p \<noteq> []" using fs_write_creates n by blast
      with \<open>sv_fs s' = fs'\<close> have "puts_file p (write_data rq) (sv_fs s) (sv_fs s')" using puts_file_put by simp
      with n show ?thesis by (metis grows_refl)
    qed
  qed
qed

lemma atomic_write_puts:
  assumes wf: "fs_wf (sv_fs s)" and st: "settled (sv_fs s) p" and nd: "node_at (sv_fs s) p \<noteq> Some NDir"
    and aw: "atomic_write env p bytes s = (Inr (), s')"
  shows "puts_file p bytes (sv_fs s) (sv_fs s')"
proof -
  have p: "p \<noteq> []" using nd by auto
  define t where "t = temporary_path env (sv_uuids s) (butlast p) (if last p = ''..'' then ''file'' else last p)"
  have tb: "butlast t = butlast p" "t \<noteq> []" by (simp_all add: t_def temporary_path_def)
  have "settled (sv_fs s) (butlast p @ [last p])" using st p by simp
  then have st': "settled (sv_fs s) t" unfolding t_def temporary_path_def settled_snoc by simp
  from aw p obtain fs1 fs2 where c: "fs_create_new (sv_fs s) t bytes = Inr fs1"
      and ft: "finish_temporary env (sv_now s) fs1 t p = Inr fs2" and s': "sv_fs s' = fs2"
    by (auto simp: atomic_write_def Let_def t_def [symmetric] split: sum.splits prod.splits)
  from ft have r: "rename_file fs1 t p = Inr fs2" by (auto simp: finish_temporary_def split: if_splits sum.splits)
  from c have f1: "fs1 = fs_put t (NFile bytes) (sv_fs s)" "node_at (sv_fs s) t = None"
      "node_at (sv_fs s) (butlast t) = Some NDir"
    using settled_entry_Inr [OF wf st'] by (auto simp: fs_create_new_def split: sum.splits if_splits)
  have w1: "fs_wf fs1" unfolding f1(1) using f1(2,3) tb(2) by (intro fs_wf_put [OF wf]) auto
  have len: "length p = length t" using tb p by (metis append_butlast_last_id length_append_singleton)
  have s1: "settled fs1 t" "settled fs1 p"
    unfolding f1(1) using settled_put [OF st' tb(2)] settled_put [OF st tb(2)] len by simp_all
  have n1: "node_at fs1 t = Some (NFile bytes)" using f1(1) tb(2) by simp
  have e: "strict_prefix [] t" "strict_prefix [] p" using tb(2) p by (simp_all add: strict_prefix_def)
  have "fs2 = fs_put p (NFile bytes) (fs_del t fs1)" using rename_settled [OF w1 s1 n1 tb p e r] by simp
  then show ?thesis using f1 p tb(2) s' by (auto simp: puts_file_def)
qed

lemma atomic_replace_plain:
  assumes ok: "sup_ok env s" and r: "resolve_for_write (resolver env) (sv_fs s) (write_path rq) follow = Inr p"
    and nd: "node_at (sv_fs s) p \<noteq> Some NDir" and st: "strategy rq = AtomicReplace"
    and pf: "perform_write env p rq s = (Inr (), s')"
  shows "\<exists>b r fs1. native_of env (write_path rq) = Some p \<and> grows b r (sv_fs s) fs1 \<and>
     puts_file p (write_data rq) fs1 (sv_fs s')"
proof -
  have wf: "fs_wf (sv_fs s)" "roots_ok (resolver env) (sv_fs s)" using ok by (auto simp: sup_ok_def sup_inv_def)
  note n = resolve_for_write_plain [OF ok r]
  from resolve_for_write_Inr [OF wf r] obtain e where
      e: "map_of (resolver_roots (resolver env)) (root_id (write_path rq)) = Some e"
      and p: "prefix (canonical_path e) p" "settled (sv_fs s) p" by blast
  from pf have "io_bind (if create_parents rq \<and> p \<noteq> [] then make_directories env (butlast p) else io_lift (Inr ()))
      (\<lambda>_. atomic_write env p (write_data rq)) s = (Inr (), s')"
    by (simp add: perform_write_def st)
  then obtain u s1 where s1: "(if create_parents rq \<and> p \<noteq> [] then make_directories env (butlast p)
        else io_lift (Inr ())) s = (Inr u, s1)" and aw: "atomic_write env p (write_data rq) s1 = (Inr (), s')"
    unfolding io_bind_Inr_iff by blast
  have g: "grows (canonical_path e) (butlast p) (sv_fs s) (sv_fs s1)" "fs_wf (sv_fs s1)"
    using parents_grow [OF wf e p nd s1] by simp_all
  have pn: "p \<noteq> []" using nd by auto
  then have "node_at (sv_fs s1) p = node_at (sv_fs s) p" using grows_longer [OF g(1), of p] by simp
  with atomic_write_puts [OF g(2) settled_grows [OF p(2) g(1)] _ aw] nd n g(1) show ?thesis by auto
qed

text \<open>A successful write puts the contents at the native path, after directories have grown.\<close>

lemma write_inner_plain:
  assumes "sup_ok env s" and "write_inner env rq s = (Inr w, s')"
  shows "\<exists>q b r fs1. native_of env (write_path rq) = Some q \<and> grows b r (sv_fs s) fs1 \<and>
     puts_file q (write_data rq) fs1 (sv_fs s') \<and> length (write_data rq) \<le> u64_max"
proof -
  have wf: "fs_wf (sv_fs s)" "roots_ok (resolver env) (sv_fs s)" using assms(1) by (auto simp: sup_ok_def sup_inv_def)
  from assms(2) obtain p existing where pl: "plan_write env (sv_fs s) rq = Inr (p, existing)"
      and pf: "perform_write env p rq s = (Inr (), s')"
    by (auto simp: write_inner_def io_bind_Inr_iff)
  note plan = plan_write_Inr [OF pl]
  have len: "length (write_data rq) \<le> u64_max" using plan assms(1) by (auto simp: sup_ok_def)
  show ?thesis
  proof (cases "strategy rq")
    case AtomicReplace
    with plan have r: "resolve_for_write (resolver env) (sv_fs s) (write_path rq) (write_follow_symlinks rq) = Inr p"
      by (simp add: resolve_write_def)
    from resolve_for_write_Inr [OF wf r] have "settled (sv_fs s) p" by blast
    then have "node_at (sv_fs s) p \<noteq> Some NDir" using plan existing_node_settled [OF wf(1)] by blast
    from atomic_replace_plain [OF assms(1) r this AtomicReplace pf] len show ?thesis by blast
  next
    case InPlace
    with plan have "resolve_for_in_place_write (resolver env) (sv_fs s) (write_path rq) = Inr p" by (simp add: resolve_write_def)
    from in_place_write_plain [OF assms(1) this] pf InPlace len show ?thesis by (auto simp: perform_write_def)
  qed
qed

lemma separate_no_nesting: "separate_roots rs \<Longrightarrow> no_nesting rs"
proof -
  assume sep: "separate_roots rs"
  have "\<not> strict_prefix (canonical_path e) (canonical_path e')"
    if "(i, e) \<in> set (resolver_roots rs)" "(j, e') \<in> set (resolver_roots rs)" for i j e e'
  proof (cases "i = j")
    case True
    with that sep have "e = e'" by (auto simp: separate_roots_def dest: eq_key_imp_eq_value)
    then show ?thesis by simp
  next
    case False
    have "map_of (resolver_roots rs) i = Some e" "map_of (resolver_roots rs) j = Some e'"
      using that sep by (auto simp: separate_roots_def)
    with False sep have "\<not> prefix (canonical_path e) (canonical_path e')" unfolding separate_roots_def by blast
    then show ?thesis by auto
  qed
  then show ?thesis by (auto simp: no_nesting_def list_all_iff)
qed

lemma sup_used_put [simp]: "sup_used (put_record i fp res s) = insert i (sup_used s)"
  by (auto simp: sup_used_def put_record_def dom_update)

lemma sup_used_fence: "insert i (sup_used (fence g i fp s)) = insert i (sup_used s)"
  by (simp add: fence_def)

lemma not_used: "i \<notin> sup_used s \<longleftrightarrow> map_of (sv_records s) i = None"
  by (simp add: sup_used_def map_of_eq_None_iff)

lemma run_mutation_fresh:
  assumes "run_mutation g i fp wrap unwrap inner s = (Inr x, s')" and "i \<notin> sup_used s"
    and "\<And>r1 s0 s1. sv_fs s0 = sv_fs s \<Longrightarrow> inner s0 = (r1, s1) \<Longrightarrow> sv_records s1 = sv_records s0"
  shows "\<exists>s1. inner (fence g i fp s) = (Inr x, s1) \<and> sv_fs s' = sv_fs s1 \<and> sup_used s' = insert i (sup_used s)"
proof -
  from assms(1,2) obtain s1 where i: "inner (fence g i fp s) = (Inr x, s1)" and s': "s' = put_record i fp (wrap x) s1"
    by (auto simp: run_mutation_eq not_used settle_def split: prod.splits sum.splits fail.splits)
  have "sup_used s1 = sup_used (fence g i fp s)" using assms(3) [OF _ i] by (simp add: sup_used_def)
  with i s' sup_used_fence show ?thesis by auto
qed


lemma plain_put: "plain_fs fs \<Longrightarrow> puts_file q c fs fs' \<Longrightarrow> length c \<le> u64_max \<Longrightarrow> plain_fs fs'"
  by (auto simp: plain_fs_def puts_fileD split: if_splits)

lemma plain_del: "plain_fs fs \<Longrightarrow> q \<noteq> [] \<Longrightarrow> plain_fs (fs_del q fs)"
  by (auto simp: plain_fs_def)

lemma sup_ok_fence: "sup_ok env s \<Longrightarrow> sup_ok env (fence g i fp s)"
  by (simp add: sup_ok_def sup_inv_def)

lemma sup_write_fresh:
  assumes ok: "sup_ok env s" and w: "sup_write env ctx wq s = (Inr w, s')" and fresh: "write_operation_id wq \<notin> sup_used s"
  obtains s0 s2 where "sup_ok env s0" and "sv_fs s0 = sv_fs s" and "write_inner env wq s0 = (Inr w, s2)"
    and "sv_fs s' = sv_fs s2" and "sup_used s' = insert (write_operation_id wq) (sup_used s)"
proof -
  from sup_write_cases [OF w] obtain s1 fp where cp: "sup_checkpoint ctx s = (Inr (), s1)"
      and run: "run_mutation (write_expected_generation wq) (write_operation_id wq) fp MWrite written (write_inner env wq) s1 = (Inr w, s')"
    by auto
  have c: "same_but_clock s s1" by (rule checkpoint_clock [OF cp])
  note fr = clock_frame [OF c ok]
  have rec: "sv_fs s0 = sv_fs s1 \<Longrightarrow> write_inner env wq s0 = (r1, s2) \<Longrightarrow> sv_records s2 = sv_records s0" for r1 s0 s2
    using write_inner_frame [of s0 env wq r1 s2] fr by (simp add: sup_ok_def sup_inv_def)
  have "write_operation_id wq \<notin> sup_used s1" using fresh fr by simp
  from run_mutation_fresh [OF run this] rec obtain s2 where
      inner: "write_inner env wq (fence (write_expected_generation wq) (write_operation_id wq) fp s1) = (Inr w, s2)"
      and s2: "sv_fs s' = sv_fs s2" "sup_used s' = insert (write_operation_id wq) (sup_used s)"
    using fr by metis
  with that [OF sup_ok_fence _ inner] fr c show thesis by (auto simp: same_but_clock_def)
qed

lemma sup_write_plain:
  assumes ok: "sup_ok env s" and w: "sup_write env ctx wq s = (Inr w, s')" and fresh: "write_operation_id wq \<notin> sup_used s"
  shows "sup_ok env s' \<and> sup_files env s' = (sup_files env s)(write_path wq \<mapsto> write_data wq) \<and>
     sup_used s' = insert (write_operation_id wq) (sup_used s)"
proof -
  from assms obtain s0 s2 where s0: "sup_ok env s0" "sv_fs s0 = sv_fs s" and inner: "write_inner env wq s0 = (Inr w, s2)"
      and s2: "sv_fs s' = sv_fs s2" "sup_used s' = insert (write_operation_id wq) (sup_used s)"
    by (rule sup_write_fresh)
  from write_inner_plain [OF s0(1) inner] s0(2) s2(1) obtain q b r fs1 where
      q: "native_of env (write_path wq) = Some q" and g: "grows b r (sv_fs s) fs1"
      and f: "puts_file q (write_data wq) fs1 (sv_fs s')" and len: "length (write_data wq) \<le> u64_max"
    by auto
  have sep: "separate_roots (resolver env)" using ok by (simp add: sup_ok_def)
  have "sup_files env s' = (sup_files env (put_fs fs1 s))(write_path wq \<mapsto> write_data wq)"
    by (rule files_put [OF sep q]) (simp add: f)
  moreover have "sup_files env (put_fs fs1 s) = sup_files env s" using files_grows [of b r s "put_fs fs1 s"] g by simp
  moreover have "sup_inv env s'"
    using serve_inv [OF _ separate_no_nesting [OF sep], of s "(ctx, RWrite wq)"] ok w by (simp add: sup_ok_def)
  moreover have "plain_fs (sv_fs s')"
    using plain_put [OF plain_grows [OF _ g] f len] ok by (simp add: sup_ok_def)
  ultimately show ?thesis using s2(2) ok by (simp add: sup_ok_def)
qed

lemma remove_inner_plain:
  assumes ok: "sup_ok env s" and ri: "remove_inner env dq s = (Inr True, s')" and ft: "target_kind dq = FileTarget"
  shows "\<exists>q. native_of env (remove_path dq) = Some q \<and> q \<noteq> [] \<and> sv_fs s' = fs_del q (sv_fs s)"
proof -
  have wf: "fs_wf (sv_fs s)" "roots_ok (resolver env) (sv_fs s)" using ok by (auto simp: sup_ok_def sup_inv_def)
  from remove_inner_cases [OF ri] obtain p n fs' where pl: "plan_remove env (sv_fs s) dq = Inr (Some (p, n))"
      and rn: "remove_node (sv_fs s) dq p n = Inr fs'" and s': "s' = put_fs fs' s" by auto
  note plan = plan_remove_Some [OF pl]
  have r: "resolve_for_write (resolver env) (sv_fs s) (remove_path dq) False = Inr p" using plan by simp
  note nat = resolve_for_write_plain [OF ok r]
  from resolve_for_write_Inr [OF wf r] have st: "settled (sv_fs s) p" by blast
  have n: "node_at (sv_fs s) p = Some n" using plan settled_metadata [OF wf(1) st] by (auto split: option.splits)
  from plan ft obtain t where t: "resolve_existing (resolver env) (sv_fs s) (remove_path dq) True = Inr t"
      "metadata_of (sv_fs s) t \<noteq> Inr NDir"
    by (auto simp: check_target_kind_def rbind_Inr_iff guard_def split: if_splits)
  from resolve_existing_plain [OF ok t(1)] nat have "t = p" "canonical (sv_fs s) p" by auto
  with t(2) n metadata_canonical have nn: "n \<noteq> NDir" by fastforce
  with rn have "remove_file (sv_fs s) p = Inr fs'" by (simp add: remove_node_def)
  moreover have "p \<noteq> []" using n nn by auto
  moreover from this have "strict_prefix [] p" by (simp add: strict_prefix_def)
  ultimately show ?thesis using remove_file_settled [OF wf(1) st] nat s' by auto
qed

lemma sup_remove_plain:
  assumes ok: "sup_ok env s" and w: "sup_remove env ctx dq s = (Inr True, s')" and ft: "target_kind dq = FileTarget"
    and fresh: "remove_operation_id dq \<notin> sup_used s"
  shows "sup_ok env s' \<and> sup_files env s' = (sup_files env s)(remove_path dq := None) \<and>
     sup_used s' = insert (remove_operation_id dq) (sup_used s)"
proof -
  from sup_remove_cases [OF w] obtain s1 fp where cp: "sup_checkpoint ctx s = (Inr (), s1)"
      and run: "run_mutation (remove_expected_generation dq) (remove_operation_id dq) fp MRemove removed (remove_inner env dq) s1 = (Inr True, s')"
    by auto
  have c: "same_but_clock s s1" by (rule checkpoint_clock [OF cp])
  note fr = clock_frame [OF c ok]
  have rec: "sv_fs s0 = sv_fs s1 \<Longrightarrow> remove_inner env dq s0 = (r1, s2) \<Longrightarrow> sv_records s2 = sv_records s0" for r1 s0 s2
    using remove_inner_frame [of s0 env dq r1 s2] fr by (simp add: sup_ok_def sup_inv_def)
  have "remove_operation_id dq \<notin> sup_used s1" using fresh fr by simp
  from run_mutation_fresh [OF run this] rec obtain s2 where
      inner: "remove_inner env dq (fence (remove_expected_generation dq) (remove_operation_id dq) fp s1) = (Inr True, s2)"
      and s2: "sv_fs s' = sv_fs s2" "sup_used s' = insert (remove_operation_id dq) (sup_used s)"
    using fr by metis
  from remove_inner_plain [OF sup_ok_fence inner ft] fr c s2(1) obtain q where
      q: "native_of env (remove_path dq) = Some q" "q \<noteq> []" and f: "sv_fs s' = fs_del q (sv_fs s)"
    by (auto simp: same_but_clock_def)
  have sep: "separate_roots (resolver env)" using ok by (simp add: sup_ok_def)
  have "sup_files env s' = (sup_files env s)(remove_path dq := None)" by (rule files_del [OF sep q f])
  moreover have "sup_inv env s'"
    using serve_inv [OF _ separate_no_nesting [OF sep], of s "(ctx, RRemove dq)"] ok w by (simp add: sup_ok_def)
  moreover have "plain_fs (sv_fs s')" unfolding f using plain_del [OF _ q(2)] ok by (simp add: sup_ok_def)
  ultimately show ?thesis using s2(2) ok by (simp add: sup_ok_def)
qed

lemma sup_write_known:
  assumes "write_operation_id wq \<in> sup_used s" and "sup_write env ctx wq s = (r, s')"
  shows "same_but_clock s s'"
proof -
  from assms(1) obtain rc where rc: "map_of (sv_records s) (write_operation_id wq) = Some rc"
    using not_used [of "write_operation_id wq" s] by auto
  from sup_write_cases [OF assms(2)] show ?thesis
    using rc checkpoint_clock sup_checkpoint_frame by (auto simp: run_mutation_known)
qed

lemma sup_remove_known:
  assumes "remove_operation_id dq \<in> sup_used s" and "sup_remove env ctx dq s = (r, s')"
  shows "same_but_clock s s'"
proof -
  from assms(1) obtain rc where rc: "map_of (sv_records s) (remove_operation_id dq) = Some rc"
    using not_used [of "remove_operation_id dq" s] by auto
  from sup_remove_cases [OF assms(2)] show ?thesis
    using rc checkpoint_clock sup_checkpoint_frame by (auto simp: run_mutation_known)
qed

section \<open>The contract\<close>

interpretation sup: file_host "supervisor_runtime env host ctx" "sup_files env" sup_used "sup_ok env"
  for env host ctx
proof (unfold_locales, goal_cases)
  case (1 h x h')
  then have "same_but_clock h h'" using checkpoint_clock by (simp add: supervisor_runtime_def)
  with 1 show ?case using clock_frame by blast
next
  case (2 h q y h')
  then have "same_but_clock h h'" using stat_clock by (simp add: supervisor_runtime_def)
  with 2 show ?case using clock_frame by blast
next
  case (3 h rq z h')
  then have "same_but_clock h h'" using read_clock by (simp add: supervisor_runtime_def)
  with 3 show ?case using clock_frame by blast
next
  case (4 h q m h')
  then show ?case using stat_file_plain [of env h ctx q m h'] by (simp add: supervisor_runtime_def)
next
  case (5 h rq reply h')
  then show ?case using read_contents_plain [of env h ctx rq reply h'] by (simp add: supervisor_runtime_def)
next
  case (6 h wq w h')
  then show ?case using sup_write_plain [of env h ctx wq w h'] by (simp add: supervisor_runtime_def)
next
  case (7 h dq h')
  then show ?case using sup_remove_plain [of env h ctx dq h'] by (simp add: supervisor_runtime_def)
next
  case (8 h wq v h')
  then have "same_but_clock h h'" using sup_write_known by (simp add: supervisor_runtime_def)
  with 8 show ?case using clock_frame by blast
next
  case (9 h dq u h')
  then have "same_but_clock h h'" using sup_remove_known by (simp add: supervisor_runtime_def)
  with 9 show ?case using clock_frame by blast
qed

section \<open>Properties\<close>

lemma applied_files:
  assumes "sup_ok env s" and "runtime tool = supervisor_runtime env host ctx"
    and "prepare tool input op_id s = (Inr p, s1)" and "start tool p = Inr r"
    and "apply_loop tool r s1 = (Inr out, r', s')" and "\<forall>i. operation_name op_id i \<notin> sup_used s"
  shows "patch_effect (prep_mode p) (prep_hunks p) (sup_files env s) = Some (sup_files env s')"
proof -
  have fr: "sup_ok env s1 \<and> sup_files env s1 = sup_files env s \<and> sup_used s1 = sup_used s"
    by (rule sup.prepare_frame [OF assms(1,2,3)])
  note ok = prepare_ok [OF assms(3)]
  have "patch_effect (prep_mode p) (prep_hunks p) (sup_files env s1) = Some (sup_files env s')"
    by (rule sup.apply_loop_files [OF assms(4,2) ok(1) _ _ assms(5)]) (use fr ok(5) assms(6) in simp_all)
  with fr show ?thesis by simp
qed

definition sample_sup_tool :: "supervisor patch_tool" where
  "sample_sup_tool = \<lparr>runtime = supervisor_runtime sample_env sample_host sample_ctx, tool_cwd = sample_wd,
     config = \<lparr>max_patch_bytes = 1000, max_file_bytes = 100, chunk_bytes = 10, max_operations = 9,
               update_file_mode = NormalizeToLf\<rparr>, debug_path = path\<rparr>"

definition sample_tree :: supervisor where
  "sample_tree = \<lparr>sv_fs = [([''w''], NDir), ([''w'', ''a''], NDir)], sv_records = [], sv_now = 0, sv_uuids = 0\<rparr>"

lemma sample_tree_ok: "sup_ok sample_env sample_tree"
proof -
  have "roots_ok sample_resolver (sv_fs sample_tree)"
    by (auto simp: roots_ok_def sample_resolver_def dir_path_def sample_tree_def node_at_def prefix_Cons)
  moreover have "fs_wf (sv_fs sample_tree)" by (auto simp: fs_wf_def sample_tree_def node_at_def split: if_splits)
  moreover have "plain_fs (sv_fs sample_tree)" by (auto simp: plain_fs_def sample_tree_def node_at_def split: if_splits)
  moreover have "separate_roots sample_resolver" by (auto simp: separate_roots_def sample_resolver_def split: if_splits)
  ultimately show ?thesis by (simp add: sup_ok_def sup_inv_def sample_env_def u64_max_def)
qed

lemma sample_sup_prepares:
  "prepare sample_sup_tool sample_add_patch ''op'' sample_tree = (Inr sample_prepared, sample_tree\<lparr>sv_now := 2\<rparr>)"
proof -
  have p: "parse_patch sample_add_patch = Inr \<lparr>patch = sample_add_patch,
      parsed_hunks = [AddFile ''n'' [CHR ''x'', LF]], parsed_environment_id = None\<rparr>" by code_simp
  have r: "resolve_path_normalized sample_host sample_wd ''n'' = Inr \<lparr>root_id = ''work'', path = ''a/n''\<rparr>" by code_simp
  have l: "\<not> 1000 < length sample_add_patch" by code_simp
  show ?thesis
    using p r l
    by (simp add: prepare_def sample_sup_tool_def supervisor_runtime_def sup_checkpoint_def checkpoint_def sample_ctx_def
        sample_tree_def io_bind_def io_lift_def parse_for_tool_def
        tool_resolve_path_def verify_hunk_def count_operations_def checked_add_def u64_small
        sample_prepared_def) (simp add: sample_host_def)
qed

lemma sample_sup_starts: "start sample_sup_tool sample_prepared = Inr sample_running"
  by (simp add: start_def validate_prepared_def sample_prepared_def sample_sup_tool_def supervisor_runtime_def
      sample_host_def sample_running_def operation_count_def hunk_operations_def)

lemma sample_sup_applies:
  "\<exists>out r' s'. apply_loop sample_sup_tool sample_running (sample_tree\<lparr>sv_now := 2\<rparr>) = (Inr out, r', s') \<and>
     sup_files sample_env s' \<lparr>root_id = ''work'', path = ''a/n''\<rparr> = Some [CHR ''x'', LF]"
proof -
  let ?rq = "\<lparr>write_expected_generation = Some ''g'', strategy = InPlace, write_operation_id = ''op:apply_patch:0'',
      write_path = \<lparr>root_id = ''work'', path = ''a/n''\<rparr>, write_data = [CHR ''x'', LF], condition = AnyState,
      create_parents = True, write_follow_symlinks = True\<rparr>"
  let ?s' = "\<lparr>sv_fs = [([''w''], NDir), ([''w'', ''a''], NDir), ([''w'', ''a'', ''n''], NFile [CHR ''x'', LF])],
      sv_records = [(''op:apply_patch:0'', \<lparr>fingerprint_of = ''x'' @ [CHR ''x'', LF], mutation_result = MWrite
        \<lparr>written_path = \<lparr>root_id = ''work'', path = ''a/n''\<rparr>, existed = False, written_revision = ''x'' @ [CHR ''x'', LF],
         bytes_written = 2\<rparr>\<rparr>)], sv_now = 5, sv_uuids = 0\<rparr>"
  have w: "sup_write sample_env sample_ctx ?rq (sample_tree\<lparr>sv_now := 4\<rparr>) =
      (Inr \<lparr>written_path = \<lparr>root_id = ''work'', path = ''a/n''\<rparr>, existed = False, written_revision = ''x'' @ [CHR ''x'', LF],
         bytes_written = 2\<rparr>, ?s')"
    unfolding sample_env_def sample_ctx_def sample_tree_def by code_simp
  have v: "validate_target sample_sup_tool \<lparr>root_id = ''work'', path = ''a/n''\<rparr> = Inr ()" by code_simp
  have i: "derived_id ''op'' 0 = Inr ''op:apply_patch:0''" by code_simp
  have n: "native_of sample_env \<lparr>root_id = ''work'', path = ''a/n''\<rparr> = Some [''w'', ''a'', ''n'']"
    unfolding sample_env_def by code_simp
  note defs = step_def validate_prepared_def sample_prepared_def sample_host_def
    operation_count_def hunk_operations_def progress_invalid_def is_complete_def advance_def stage_hunk_def
    new_content_def write_operations_def remove_operations_def io_bind_def io_lift_def dispatch_def acknowledge_def
    u64_max_def Let_def
  have c: "sup_checkpoint sample_ctx s = (Inr (), s\<lparr>sv_now := sv_now s + 1\<rparr>)" for s
    by (simp add: sup_checkpoint_def checkpoint_def sample_ctx_def)
  have f: "sup_files sample_env (?s'\<lparr>sv_now := k\<rparr>) \<lparr>root_id = ''work'', path = ''a/n''\<rparr> = Some [CHR ''x'', LF]" for k
    by (simp add: sup_files_def n node_at_def)
  show ?thesis
    using v i w f
    by (simp add: apply_loop.simps sample_running_def defs c)
       (simp add: sample_sup_tool_def supervisor_runtime_def apply_loop.simps defs c sample_tree_def)
qed

text \<open>
  C1: a successful \<open>apply_patch\<close> changes the files of the host exactly as the patch says. The supervisor has no
  symbolic links and separate roots, and no operation identifier derived from that of the patch has been used
  (under a used one it would replay the recorded result and change nothing). Then
  verifying the patch changes no file, and when the application that follows reports success the map from execution
  paths to file contents is the one that the hunks, applied one after the other to the files
  before, describe: added and updated files have their new contents, moved and deleted ones are gone,
  and no other file changed.
\<close>

theorem applied_patch_changes_files:
  assumes "sup_ok env s" and "runtime tool = supervisor_runtime env host ctx"
    and "prepare tool input op_id s = (Inr p, s1)" and "start tool p = Inr r"
    and "apply_loop tool r s1 = (Inr out, r', s')" and "\<forall>i. operation_name op_id i \<notin> sup_used s"
  shows "sup_files env s1 = sup_files env s \<and>
     patch_effect (prep_mode p) (prep_hunks p) (sup_files env s) = Some (sup_files env s')"
  using sup.prepare_frame [OF assms(1,2,3)] applied_files [OF assms] by simp

theorem applied_patch_changes_files_witness:
  "\<exists>s'. patch_effect (prep_mode sample_prepared) (prep_hunks sample_prepared) (sup_files sample_env sample_tree) =
     Some (sup_files sample_env s') \<and> sup_files sample_env s' \<lparr>root_id = ''work'', path = ''a/n''\<rparr> = Some [CHR ''x'', LF]"
proof -
  obtain out r' s' where a: "apply_loop sample_sup_tool sample_running (sample_tree\<lparr>sv_now := 2\<rparr>) = (Inr out, r', s')"
      "sup_files sample_env s' \<lparr>root_id = ''work'', path = ''a/n''\<rparr> = Some [CHR ''x'', LF]"
    using sample_sup_applies by blast
  have rt: "runtime sample_sup_tool = supervisor_runtime sample_env sample_host sample_ctx" by (simp add: sample_sup_tool_def)
  have u: "\<forall>i. operation_name ''op'' i \<notin> sup_used sample_tree" by (simp add: sup_used_def sample_tree_def)
  from applied_patch_changes_files [OF sample_tree_ok rt sample_sup_prepares sample_sup_starts a(1) u] a(2)
  show ?thesis by blast
qed

section \<open>A file moved onto itself\<close>

lemma untouched_effect:
  assumes "hunk_effect um ph fs = Some fs'" and "source ph \<noteq> q" and "destination ph \<noteq> Some q"
  shows "fs' q = fs q"
  using assms by (auto simp: hunk_effect_def Let_def split: option.splits if_splits)

lemma untouched_patch:
  assumes "patch_effect um phs fs = Some fs'" and "\<forall>ph \<in> set phs. source ph \<noteq> q \<and> destination ph \<noteq> Some q"
  shows "fs' q = fs q"
  using assms
proof (induction phs arbitrary: fs)
  case (Cons ph phs)
  then obtain fs1 where e: "hunk_effect um ph fs = Some fs1" and "patch_effect um phs fs1 = Some fs'"
    by (auto split: bind_splits)
  with Cons.IH [of fs1] Cons.prems(2) untouched_effect [OF e] show ?case by simp
qed simp

lemma patch_effect_append:
  "patch_effect um (phs @ phs') fs = Option.bind (patch_effect um phs fs) (patch_effect um phs')"
  by (induction phs arbitrary: fs) (auto split: bind_split)

text \<open>A patch that only replaces \<open>a\<close> by \<open>b\<close> in a file and moves the file to where it is.\<close>

definition sample_move_patch :: string where
  "sample_move_patch = join [LF] [''*** Begin Patch'', ''*** Update File: f'', ''*** Move to: f'', ''@@'', ''-a'', ''+b'', ''*** End Patch'']"

definition sample_target :: exec_path where
  "sample_target = \<lparr>root_id = ''work'', path = ''a/f''\<rparr>"

definition sample_move_hunk :: prepared_hunk where
  "sample_move_hunk = \<lparr>source = sample_target, destination = Some sample_target,
     prepared = UpdateFile ''f'' (Some ''f'') [\<lparr>change_context = None, old_lines = [''a''], new_lines = [''b''],
       context_line_indices = [], is_end_of_file = False\<rparr>]\<rparr>"

definition sample_moved :: prepared_patch where
  "sample_moved = \<lparr>version = 2, prep_host_id = ''h'', generation = ''g'', operation_id = ''op'', prep_mode = NormalizeToLf,
     prep_hunks = [sample_move_hunk], changes = [\<lparr>change_kind = Modify, change_path = ''f''\<rparr>]\<rparr>"

definition sample_moving :: "nat \<Rightarrow> supervisor" where
  "sample_moving n = \<lparr>sv_fs = [([''w''], NDir), ([''w'', ''a''], NDir), ([''w'', ''a'', ''f''], NFile [CHR ''a'', LF])],
     sv_records = [], sv_now = n, sv_uuids = 0\<rparr>"

lemma sample_moving_ok: "sup_ok sample_env (sample_moving n)"
proof -
  have "roots_ok sample_resolver (sv_fs (sample_moving n))"
    by (auto simp: roots_ok_def sample_resolver_def dir_path_def sample_moving_def node_at_def prefix_Cons)
  moreover have "fs_wf (sv_fs (sample_moving n))" by (auto simp: fs_wf_def sample_moving_def node_at_def split: if_splits)
  moreover have "plain_fs (sv_fs (sample_moving n))" by (auto simp: plain_fs_def sample_moving_def node_at_def u64_max_def split: if_splits)
  moreover have "separate_roots sample_resolver" by (auto simp: separate_roots_def sample_resolver_def split: if_splits)
  ultimately show ?thesis by (simp add: sup_ok_def sup_inv_def sample_env_def u64_max_def)
qed

lemma moving_clock: "sup_checkpoint sample_ctx (sample_moving n) = (Inr (), sample_moving (n + 1))"
  by (simp add: sup_checkpoint_def checkpoint_def sample_ctx_def sample_moving_def)

lemma moving_stat: "sup_stat sample_env sample_ctx \<lparr>stat_path = sample_target, stat_follow_symlinks = True\<rparr> (sample_moving n) =
     (Inr \<lparr>meta_path = sample_target, kind = File, file_size = 2, modified_at = None, revision = Some (''xa'' @ [LF])\<rparr>, sample_moving (n + 1))"
  unfolding sample_env_def sample_ctx_def sample_moving_def sample_target_def by code_simp

lemma moving_read:
  "sup_read sample_env sample_ctx \<lparr>read_path = sample_target, read_offset = 0, max_bytes = 2,
        read_follow_symlinks = True\<rparr> (sample_moving n) = (Inr \<lparr>metadata = \<lparr>meta_path = sample_target, kind = File, file_size = 2,
       modified_at = None, revision = Some (''xa'' @ [LF])\<rparr>, read_data = [CHR ''a'', LF], result_offset = 0, read_eof = True\<rparr>, sample_moving (n + 3))"
proof -
  let ?s = "sample_moving n" and ?rq = "\<lparr>read_path = sample_target, read_offset = 0, max_bytes = 2, read_follow_symlinks = True\<rparr>"
  have "resolve_existing (resolver sample_env) (sv_fs ?s) sample_target True = Inr [''w'', ''a'', ''f'']"
    unfolding sample_env_def sample_moving_def sample_target_def by code_simp
  moreover have "read_contents_of (sv_fs ?s) [''w'', ''a'', ''f''] = Inr [CHR ''a'', LF]"
      "metadata_of (sv_fs ?s) [''w'', ''a'', ''f''] = Inr (NFile [CHR ''a'', LF])"
    unfolding sample_moving_def by code_simp+
  ultimately have "read_open sample_env (sv_fs ?s) ?rq = Inr ([''w'', ''a'', ''f''], [CHR ''a'', LF])"
    by (simp add: read_open_def rbind_def native_def)
  moreover have "read_file_validate ?rq = Inr ()" unfolding sample_target_def by code_simp
  moreover have "hash_bytes sample_env [CHR ''a'', LF] = Inr (''xa'' @ [LF])" unfolding sample_env_def by code_simp
  ultimately show ?thesis
    by (simp add: sup_read_def io_bind_def io_lift_def sup_checkpoint_def checkpoint_def sample_ctx_def sample_moving_def
        validated_def guard_def sample_env_def read_scan.simps
        buffer_bytes_def Let_def window_part_def sat_add_def u64_max_def read_reply_def rbind_def)
qed

lemma moving_text: "read_text sample_sup_tool sample_target (sample_moving n) = (Inr ([CHR ''a'', LF], \<lparr>meta_path = sample_target, kind = File,
   file_size = 2, modified_at = None, revision = Some (''xa'' @ [LF])\<rparr>), sample_moving (n + 7))"
proof -
  have u: "utf8_valid [CHR ''a'', LF]" by code_simp
  show ?thesis
  by (simp del: utf8_valid.simps add: u moving_read [unfolded numeral_2_eq_2] read_text_def stat_optional_def read_found_def read_loop.simps read_chunk_def accept_chunk_def read_limit_def
        sample_sup_tool_def supervisor_runtime_def sample_host_def io_bind_def io_lift_def checked_add_def
        u64_max_def Let_def moving_stat moving_read moving_clock ac_simps)
qed

lemma moving_parses: "parse_patch sample_move_patch = Inr \<lparr>patch = sample_move_patch,
      parsed_hunks = [UpdateFile ''f'' (Some ''f'') [\<lparr>change_context = None, old_lines = [''a''], new_lines = [''b''],
       context_line_indices = [], is_end_of_file = False\<rparr>]], parsed_environment_id = None\<rparr>" by code_simp

lemma sample_sup_tool_simps:
  "rt_checkpoint (runtime sample_sup_tool) = sup_checkpoint sample_ctx" "rt_descriptor (runtime sample_sup_tool) = sample_host"
  "rt_write (runtime sample_sup_tool) = sup_write sample_env sample_ctx"
  "rt_remove (runtime sample_sup_tool) = sup_remove sample_env sample_ctx" "tool_cwd sample_sup_tool = sample_wd"
  "config sample_sup_tool = \<lparr>max_patch_bytes = 1000, max_file_bytes = 100, chunk_bytes = 10, max_operations = 9,
     update_file_mode = NormalizeToLf\<rparr>"
  by (simp_all add: sample_sup_tool_def supervisor_runtime_def)

lemma moving_derives: "derive_new_contents ''f'' [CHR ''a'', LF] [\<lparr>change_context = None, old_lines = [''a''], new_lines = [''b''],
    context_line_indices = [], is_end_of_file = False\<rparr>] NormalizeToLf = Inr [CHR ''b'', LF]"
  by code_simp

lemma moving_ids: "derived_id ''op'' 0 = Inr ''op:apply_patch:0''" "derived_id ''op'' (Suc 0) = Inr ''op:apply_patch:1''"
  by code_simp+

definition moving_write_request :: write_file_request where
  "moving_write_request = \<lparr>write_expected_generation = Some ''g'', strategy = InPlace, write_operation_id = ''op:apply_patch:0'',
      write_path = sample_target, write_data = [CHR ''b'', LF], condition = AnyState,
      create_parents = True, write_follow_symlinks = True\<rparr>"

definition moving_remove_request :: remove_path_request where
  "moving_remove_request = \<lparr>target_kind = FileTarget, remove_expected_generation = Some ''g'',
      remove_operation_id = ''op:apply_patch:1'', remove_path = sample_target, recursive = False,
      ignore_missing = False, expected_revision = None\<rparr>"

definition moving_reply :: write_file_result where
  "moving_reply = \<lparr>written_path = sample_target, existed = True, written_revision = ''xb'' @ [LF], bytes_written = 2\<rparr>"

definition sample_rewritten :: "nat \<Rightarrow> supervisor" where
  "sample_rewritten n = \<lparr>sv_fs = [([''w''], NDir), ([''w'', ''a''], NDir), ([''w'', ''a'', ''f''], NFile [CHR ''b'', LF])],
     sv_records = [(''op:apply_patch:0'', \<lparr>fingerprint_of = ''xb'' @ [LF], mutation_result = MWrite moving_reply\<rparr>)],
     sv_now = n, sv_uuids = 0\<rparr>"

definition sample_gone :: "nat \<Rightarrow> supervisor" where
  "sample_gone n = \<lparr>sv_fs = [([''w''], NDir), ([''w'', ''a''], NDir)],
     sv_records = [(''op:apply_patch:0'', \<lparr>fingerprint_of = ''xb'' @ [LF], mutation_result = MWrite moving_reply\<rparr>),
       (''op:apply_patch:1'', \<lparr>fingerprint_of = ''x'', mutation_result = MRemove True\<rparr>)], sv_now = n, sv_uuids = 0\<rparr>"

definition sample_moving_run :: running_patch where
  "sample_moving_run = \<lparr>run_prepared = sample_moved, hunk_index = 0, applied_operations = 0, pending = [], next_operation = 0\<rparr>"

lemma moving_write: "sup_write sample_env sample_ctx moving_write_request (sample_moving n) = (Inr moving_reply, sample_rewritten (n + 1))"
  unfolding sample_env_def sample_ctx_def sample_moving_def sample_target_def sample_rewritten_def moving_write_request_def moving_reply_def
  by code_simp

lemma moving_remove: "sup_remove sample_env sample_ctx moving_remove_request (sample_rewritten n) = (Inr True, sample_gone (n + 1))"
  unfolding sample_env_def sample_ctx_def sample_rewritten_def sample_target_def sample_gone_def moving_remove_request_def moving_reply_def
  by code_simp

lemma moving_prepares: "prepare sample_sup_tool sample_move_patch ''op'' (sample_moving 0) = (Inr sample_moved, sample_moving 9)"
proof -
  have r: "resolve_path_normalized sample_host sample_wd ''f'' = Inr sample_target" unfolding sample_target_def by code_simp
  have l: "\<not> 1000 < length sample_move_patch" by code_simp
  show ?thesis
    using moving_parses r l moving_derives
    by (simp add: prepare_def sample_sup_tool_simps io_bind_def io_lift_def parse_for_tool_def moving_clock moving_text
        tool_resolve_path_def verify_hunk_def count_operations_def checked_add_def u64_small
        sample_moved_def sample_move_hunk_def) (simp add: sample_host_def)
qed

lemma moving_starts: "start sample_sup_tool sample_moved = Inr sample_moving_run"
  by (simp add: start_def validate_prepared_def sample_moved_def sample_sup_tool_simps sample_host_def sample_moving_run_def
      operation_count_def hunk_operations_def sample_move_hunk_def)

lemmas moving_defs = step_def sample_moving_run_def validate_prepared_def sample_moved_def sample_host_def sample_move_hunk_def
  operation_count_def hunk_operations_def progress_invalid_def is_complete_def advance_def io_bind_def io_lift_def Let_def rbind_def

lemma moving_steps:
  defines "ops \<equiv> [OpWrite moving_write_request, OpRemove moving_remove_request]"
  shows "step sample_sup_tool sample_moving_run (sample_moving n) =
      (Inr CheckpointRequired, sample_moving_run\<lparr>pending := ops\<rparr>, sample_moving (n + 8))"
    and "step sample_sup_tool (sample_moving_run\<lparr>pending := ops\<rparr>) (sample_moving n) =
      (Inr CheckpointRequired, sample_moving_run\<lparr>pending := ops, applied_operations := 1, next_operation := 1\<rparr>, sample_rewritten (n + 2))"
    and "step sample_sup_tool (sample_moving_run\<lparr>pending := ops, applied_operations := 1, next_operation := 1\<rparr>) (sample_rewritten n) =
      (Inr CheckpointRequired, sample_moving_run\<lparr>hunk_index := 1, applied_operations := 2\<rparr>, sample_gone (n + 2))"
    and "step sample_sup_tool (sample_moving_run\<lparr>hunk_index := 1, applied_operations := 2\<rparr>) (sample_gone n) =
      (Inr (Complete \<lparr>out_host_id = ''h'', out_changes = changes sample_moved\<rparr>),
       sample_moving_run\<lparr>hunk_index := 1, applied_operations := 2\<rparr>, sample_gone (n + 1))"
proof -
  have v: "validate_target sample_sup_tool sample_target = Inr ()" unfolding sample_target_def by code_simp
  have c: "sup_checkpoint sample_ctx (sample_rewritten n) = (Inr (), sample_rewritten (n + 1))"
      "sup_checkpoint sample_ctx (sample_gone n) = (Inr (), sample_gone (n + 1))"
    by (simp_all add: sup_checkpoint_def checkpoint_def sample_ctx_def sample_rewritten_def sample_gone_def)
  have w: "write_path moving_write_request = sample_target" "length (write_data moving_write_request) = 2"
      "remove_path moving_remove_request = sample_target" "written_path moving_reply = sample_target" "bytes_written moving_reply = 2"
    by (simp_all add: moving_write_request_def moving_remove_request_def moving_reply_def)
  show "step sample_sup_tool sample_moving_run (sample_moving n) =
      (Inr CheckpointRequired, sample_moving_run\<lparr>pending := ops\<rparr>, sample_moving (n + 8))"
    by (simp add: moving_defs sample_sup_tool_simps moving_derives moving_ids moving_clock moving_text stage_hunk_def new_content_def
        write_operations_def remove_operations_def u64_max_def ops_def moving_write_request_def moving_remove_request_def ac_simps)
  show "step sample_sup_tool (sample_moving_run\<lparr>pending := ops\<rparr>) (sample_moving n) =
      (Inr CheckpointRequired, sample_moving_run\<lparr>pending := ops, applied_operations := 1, next_operation := 1\<rparr>, sample_rewritten (n + 2))"
    by (simp add: moving_defs sample_sup_tool_simps moving_clock v w moving_write ops_def dispatch_def acknowledge_def)
  show "step sample_sup_tool (sample_moving_run\<lparr>pending := ops, applied_operations := 1, next_operation := 1\<rparr>) (sample_rewritten n) =
      (Inr CheckpointRequired, sample_moving_run\<lparr>hunk_index := 1, applied_operations := 2\<rparr>, sample_gone (n + 2))"
    by (simp add: moving_defs sample_sup_tool_simps c v w moving_remove ops_def dispatch_def acknowledge_def)
  show "step sample_sup_tool (sample_moving_run\<lparr>hunk_index := 1, applied_operations := 2\<rparr>) (sample_gone n) =
      (Inr (Complete \<lparr>out_host_id = ''h'', out_changes = changes sample_moved\<rparr>),
       sample_moving_run\<lparr>hunk_index := 1, applied_operations := 2\<rparr>, sample_gone (n + 1))"
    by (simp add: moving_defs sample_sup_tool_simps c)
qed

lemma moving_applies: "\<exists>out r' s'. apply_loop sample_sup_tool sample_moving_run (sample_moving 9) = (Inr out, r', s')"
  by (simp add: apply_loop.simps moving_steps [simplified])

text \<open>
  C36: an update that moves a file onto itself deletes the file. On a supervisor without symbolic links and with separate
  roots and under unused operation identifiers, let a patch be verified and applied with success, and let one of
  its hunks update a file whose \<open>Move to\<close> path resolves to its own source, while no later hunk
  writes to that path. Then the file, which existed when the hunk was applied, is gone afterwards: its new
  contents were written and then removed with the source.
\<close>

theorem self_move_deletes_file:
  assumes "sup_ok env s" and "runtime tool = supervisor_runtime env host ctx"
    and "prepare tool input op_id s = (Inr p, s1)" and "start tool p = Inr r"
    and "apply_loop tool r s1 = (Inr out, r', s')" and "\<forall>i. operation_name op_id i \<notin> sup_used s"
    and "prep_hunks p = pre @ ph # post" and "prepared ph = UpdateFile f mv chunks" and "destination ph = Some (source ph)"
    and "\<forall>q \<in> set post. source q \<noteq> source ph \<and> destination q \<noteq> Some (source ph)"
  shows "(\<exists>fs c. patch_effect (prep_mode p) pre (sup_files env s) = Some fs \<and> fs (source ph) = Some c) \<and>
     sup_files env s' (source ph) = None"
proof -
  from applied_files [OF assms(1-6)] assms(7) obtain fs fs1 where
      e: "patch_effect (prep_mode p) pre (sup_files env s) = Some fs" "hunk_effect (prep_mode p) ph fs = Some fs1"
      "patch_effect (prep_mode p) post fs1 = Some (sup_files env s')"
    by (auto simp: patch_effect_append bind_eq_Some_conv)
  from e(2) assms(8,9) have "fs1 (source ph) = None" "\<exists>c. fs (source ph) = Some c"
    by (auto simp: hunk_effect_def hunk_content_def Let_def split: option.splits sum.splits)
  with e(1) untouched_patch [OF e(3) assms(10)] show ?thesis by auto
qed

theorem self_move_deletes_file_witness:
  "\<exists>s'. sup_files sample_env (sample_moving 0) sample_target = Some [CHR ''a'', LF] \<and> sup_files sample_env s' sample_target = None \<and>
     (\<exists>out r'. apply_loop sample_sup_tool sample_moving_run (sample_moving 9) = (Inr out, r', s'))"
proof -
  obtain out r' s' where a: "apply_loop sample_sup_tool sample_moving_run (sample_moving 9) = (Inr out, r', s')"
    using moving_applies by blast
  have rt: "runtime sample_sup_tool = supervisor_runtime sample_env sample_host sample_ctx" by (simp add: sample_sup_tool_def)
  have u: "\<forall>i. operation_name ''op'' i \<notin> sup_used (sample_moving 0)" by (simp add: sup_used_def sample_moving_def)
  have h: "prep_hunks sample_moved = [] @ sample_move_hunk # []" by (simp add: sample_moved_def)
  have d: "destination sample_move_hunk = Some (source sample_move_hunk)" by (simp add: sample_move_hunk_def)
  obtain f mv chunks where k: "prepared sample_move_hunk = UpdateFile f mv chunks" by (simp add: sample_move_hunk_def)
  have "native_of sample_env sample_target = Some [''w'', ''a'', ''f'']" unfolding sample_env_def sample_target_def by code_simp
  then have "sup_files sample_env (sample_moving 0) sample_target = Some [CHR ''a'', LF]"
    by (simp add: sup_files_def sample_moving_def node_at_def)
  moreover have "source sample_move_hunk = sample_target" by (simp add: sample_move_hunk_def)
  moreover have "sup_files sample_env s' (source sample_move_hunk) = None"
    using self_move_deletes_file [OF sample_moving_ok rt moving_prepares moving_starts a u h k d] by simp
  ultimately show ?thesis using a by auto
qed

end
