(* ===== verification/Write_Tool.thy ===== *)
theory Write_Tool
  imports Tool_Paths Exec_Runtime
begin

text \<open>
  The \<open>write\<close> tool (\<open>platform/packages/tools/write/src/lib.rs\<close>): a whole-file write that either
  creates a file or replaces one whose revision the caller has observed. The JSON quoting of
  \<open>to_text\<close> (\<open>serde_json::to_string\<close>) is an argument. The lemmas say what a successful call
  guarantees on every host that keeps the contract \<open>revision_host\<close>.
\<close>

section \<open>Data\<close>

record write_input =
  wi_file_path :: string
  wi_content :: string

record observed_file =
  ob_host_id :: string
  ob_path :: exec_path
  ob_revision :: string

record write_state =
  ws_operation_id :: string
  ws_observed :: "observed_file option"

record write_config =
  max_content_bytes :: nat

definition write_config_default :: write_config where
  "write_config_default = \<lparr>max_content_bytes = 16 * 1024 * 1024\<rparr>"

record write_output =
  wo_host_id :: string
  wo_path :: exec_path
  wo_created :: bool
  wo_bytes_written :: nat
  wo_revision :: string

definition write_output_text :: "(string \<Rightarrow> string) \<Rightarrow> write_output \<Rightarrow> string" where
  "write_output_text quote out =
     ''Wrote '' @ show_nat (wo_bytes_written out) @ '' bytes to '' @ quote (path (wo_path out)) @
     '' (root '' @ quote (root_id (wo_path out)) @ '').''"

definition write_observation :: "write_output \<Rightarrow> observed_file" where
  "write_observation out = \<lparr>ob_host_id = wo_host_id out, ob_path = wo_path out, ob_revision = wo_revision out\<rparr>"

record 'h write_tool =
  wt_runtime :: "'h runtime"
  wt_cwd :: exec_path
  wt_config :: write_config

definition write_error :: "error_code \<Rightarrow> string \<Rightarrow> exec_error" where
  "write_error c m = with_detail (exec_error_new c m) ''source'' (DText ''tool-write'')"

section \<open>Operations\<close>

definition write_tool_new :: "'h runtime \<Rightarrow> exec_path \<Rightarrow> write_config \<Rightarrow> 'h write_tool exec_result" where
  "write_tool_new rt wd cfg =
     rbind (validate_cwd (rt_descriptor rt) wd) (\<lambda>_.
       if max_content_bytes cfg = 0 then Inl (Fail (write_error InvalidRequest ''max_content_bytes must be positive''))
       else Inr \<lparr>wt_runtime = rt, wt_cwd = wd, wt_config = cfg\<rparr>)"

definition write_resolve_path :: "'h write_tool \<Rightarrow> string \<Rightarrow> exec_path exec_result" where
  "write_resolve_path tool p = resolve_path (rt_descriptor (wt_runtime tool)) (wt_cwd tool) p"

definition write_limit :: "'h write_tool \<Rightarrow> nat" where
  "write_limit tool = min (max_content_bytes (wt_config tool))
     (case max_write_bytes (limits (rt_descriptor (wt_runtime tool))) of Some n \<Rightarrow> n | None \<Rightarrow> u64_max)"

text \<open>The condition under which the host may replace the file.\<close>

definition observed_condition :: "host_descriptor \<Rightarrow> exec_path \<Rightarrow> observed_file option \<Rightarrow> write_condition exec_result" where
  "observed_condition host p observed = (case observed of
     None \<Rightarrow> Inr MustNotExist
   | Some ob \<Rightarrow>
       if ob_host_id ob \<noteq> host_id host \<or> ob_path ob \<noteq> p
       then Inl (Fail (write_error InvalidRequest
              ''observed revision belongs to another host or path; read this file first''))
       else Inr (MatchRevision (ob_revision ob)))"

text \<open>The checks before the request: the resolved path and the condition of the write.\<close>

definition write_checks :: "'h write_tool \<Rightarrow> write_input \<Rightarrow> write_state \<Rightarrow> (exec_path \<times> write_condition) exec_result" where
  "write_checks tool input st =
     (let host = rt_descriptor (wt_runtime tool); n = length (wi_content input) in
      rbind (write_resolve_path tool (wi_file_path input)) (\<lambda>p.
        if write_limit tool < n
        then Inl (Fail (write_error ResourceExhausted
               (''content contains '' @ show_nat n @ '' UTF-8 bytes; write limit is '' @ show_nat (write_limit tool))))
        else if path p = ''.''
        then Inl (Fail (write_error IsDirectory ''cannot replace an execution root with a file''))
        else if list_ex (\<lambda>r. root_identifier r = root_id p \<and> read_only r) (roots host)
        then Inl (Fail (write_error ReadOnlyRoot ''the selected execution root is read-only''))
        else rbind (observed_condition host p (ws_observed st)) (\<lambda>c. Inr (p, c))))"

definition write_request :: "string \<Rightarrow> exec_path \<Rightarrow> string \<Rightarrow> write_condition \<Rightarrow> write_file_request" where
  "write_request op_id p bytes c =
     \<lparr>write_expected_generation = None, strategy = AtomicReplace, write_operation_id = op_id, write_path = p,
      write_data = bytes, condition = c, create_parents = True, write_follow_symlinks = True\<rparr>"

definition explain_failure :: "bool \<Rightarrow> exec_error \<Rightarrow> exec_error" where
  "explain_failure observed e =
     (if \<not> observed \<and> code e = AlreadyExists
      then e\<lparr>message := ''File already exists; read it before overwriting. '' @ message e\<rparr>
      else if code e = RevisionConflict
      then e\<lparr>message := ''File changed since it was last observed; read it again before overwriting. '' @ message e\<rparr>
      else e)"

definition io_map_error :: "(exec_error \<Rightarrow> exec_error) \<Rightarrow> ('h, 'a) io \<Rightarrow> ('h, 'a) io" where
  "io_map_error f m h = (case m h of
     (Inl (Fail e), h') \<Rightarrow> (Inl (Fail (f e)), h')
   | (r, h') \<Rightarrow> (r, h'))"

definition accept_write :: "host_descriptor \<Rightarrow> exec_path \<Rightarrow> nat \<Rightarrow> bool \<Rightarrow> write_file_result \<Rightarrow> write_output exec_result" where
  "accept_write host p n observed reply =
     (if written_path reply \<noteq> p \<or> bytes_written reply \<noteq> n \<or> existed reply \<noteq> observed
      then Inl (Fail (write_error Internal ''host returned an inconsistent write result; the write may have completed''))
      else Inr \<lparr>wo_host_id = host_id host, wo_path = p, wo_created = (\<not> existed reply),
                wo_bytes_written = bytes_written reply, wo_revision = written_revision reply\<rparr>)"

definition write_execute :: "'h write_tool \<Rightarrow> write_input \<Rightarrow> write_state \<Rightarrow> ('h, write_output) io" where
  "write_execute tool input st =
     io_bind (rt_checkpoint (wt_runtime tool)) (\<lambda>_.
     io_bind (io_lift (write_checks tool input st)) (\<lambda>(p, c).
     io_bind (io_map_error (explain_failure (ws_observed st \<noteq> None))
                (rt_write (wt_runtime tool) (write_request (ws_operation_id st) p (wi_content input) c))) (\<lambda>reply.
     io_lift (accept_write (rt_descriptor (wt_runtime tool)) p (length (wi_content input)) (ws_observed st \<noteq> None) reply))))"

section \<open>What a successful write guarantees\<close>

lemma io_map_error_Inr_iff [simp]: "io_map_error f m h = (Inr x, h') \<longleftrightarrow> m h = (Inr x, h')"
  by (auto simp: io_map_error_def split: prod.splits sum.splits fail.splits)

lemma write_execute_Inr:
  assumes "write_execute tool input st h = (Inr out, h')"
  obtains h1 p c w where "rt_checkpoint (wt_runtime tool) h = (Inr (), h1)" and "write_checks tool input st = Inr (p, c)"
    and "rt_write (wt_runtime tool) (write_request (ws_operation_id st) p (wi_content input) c) h1 = (Inr w, h')"
    and "accept_write (rt_descriptor (wt_runtime tool)) p (length (wi_content input)) (ws_observed st \<noteq> None) w = Inr out"
  using assms
  by (auto simp: write_execute_def io_bind_Inr_iff)

lemma write_checks_Inr:
  assumes "write_checks tool input st = Inr (p, c)"
  shows "c = (case ws_observed st of None \<Rightarrow> MustNotExist | Some ob \<Rightarrow> MatchRevision (ob_revision ob))"
    and "ws_observed st = Some ob \<Longrightarrow> ob_path ob = p" and "length (wi_content input) \<le> write_limit tool"
    and "write_resolve_path tool (wi_file_path input) = Inr p"
  using assms
  by (auto simp: write_checks_def observed_condition_def Let_def rbind_Inr_iff split: if_splits option.splits)

context revision_host
begin

lemma checkpoint_ok: "rt_checkpoint rt h = (r, h') \<Longrightarrow> ok h \<Longrightarrow> ok h' \<and> files h' = files h \<and> used h' = used h"
  using checkpoint_frame by blast

text \<open>A successful write creates a missing file or replaces the contents that were observed.\<close>

lemma write_execute_effect:
  assumes "ok h" and "wt_runtime tool = rt" and "write_execute tool input st h = (Inr out, h')" and "ws_operation_id st \<notin> used h"
  shows "ok h' \<and> files h' = (files h)(wo_path out \<mapsto> wi_content input) \<and> used h' = insert (ws_operation_id st) (used h) \<and>
     wo_revision out = rev (wi_content input) \<and>
     (case ws_observed st of
        None \<Rightarrow> files h (wo_path out) = None \<and> wo_created out
      | Some ob \<Rightarrow> ob_path ob = wo_path out \<and> \<not> wo_created out \<and>
          (\<exists>c. files h (wo_path out) = Some c \<and> rev c = ob_revision ob))"
proof -
  from assms(3) obtain h1 p c w where h1: "rt_checkpoint rt h = (Inr (), h1)" and ck: "write_checks tool input st = Inr (p, c)"
      and wr: "rt_write rt (write_request (ws_operation_id st) p (wi_content input) c) h1 = (Inr w, h')"
      and aw: "accept_write (rt_descriptor rt) p (length (wi_content input)) (ws_observed st \<noteq> None) w = Inr out"
    using assms(2) by (auto elim: write_execute_Inr)
  note fr = checkpoint_ok [OF h1 assms(1)]
  have sh: "strategy (write_request i p x c) = AtomicReplace" "write_follow_symlinks (write_request i p x c)"
    "write_operation_id (write_request i p x c) = i" "write_path (write_request i p x c) = p"
    "write_data (write_request i p x c) = x" "condition (write_request i p x c) = c" for i x
    by (simp_all add: write_request_def)
  have fresh: "ws_operation_id st \<notin> used h1" using fr assms(4) by simp
  note eff = replace_effect [OF conjunct1 [OF fr] wr sh(1,2), unfolded sh, OF fresh]
  note cond = replace_condition [OF conjunct1 [OF fr] wr sh(1,2), unfolded sh, OF fresh]
  from aw have out: "wo_path out = p" "wo_revision out = written_revision w" "wo_created out \<longleftrightarrow> ws_observed st = None"
    by (auto simp: accept_write_def split: if_splits)
  note cs = write_checks_Inr [OF ck]
  show ?thesis
    using eff cond cs(1) fr out cs(2) by (cases "ws_observed st") auto
qed

end

end
