(* ===== verification/Edit_Tool.thy ===== *)
theory Edit_Tool
  imports Write_Tool
begin

text \<open>
  The \<open>edit\<close> tool (\<open>platform/packages/tools/edit/src/{lib,content,matching}.rs\<close>): an exact text
  replacement, prepared by reading the file at the observed revision and applied as a
  conditional whole-file write. Byte offsets of \<open>str\<close> are list positions. The lemmas relate
  \<open>replace\<close> to the pieces between the occurrences of the old text, and show that an applied
  edit is based on the contents that are in the file at the moment of the write.
\<close>

section \<open>Data\<close>

record edit_input =
  ei_file_path :: string
  ei_old_string :: string
  ei_new_string :: string
  ei_replace_all :: bool

record edit_config =
  ec_max_file_bytes :: nat
  ec_chunk_bytes :: nat

definition edit_config_default :: edit_config where
  "edit_config_default = \<lparr>ec_max_file_bytes = 16 * 1024 * 1024, ec_chunk_bytes = 1024 * 1024\<rparr>"

record edit_state =
  es_operation_id :: string
  es_observed :: observed_file

record prepared_edit =
  pe_state :: edit_state
  pe_content :: string
  pe_replacements :: nat

record edit_output =
  eo_host_id :: string
  eo_path :: exec_path
  eo_replacements :: nat
  eo_bytes_written :: nat
  eo_revision :: string

definition edit_observation :: "edit_output \<Rightarrow> observed_file" where
  "edit_observation out = \<lparr>ob_host_id = eo_host_id out, ob_path = eo_path out, ob_revision = eo_revision out\<rparr>"

definition edit_output_text :: "(string \<Rightarrow> string) \<Rightarrow> edit_output \<Rightarrow> string" where
  "edit_output_text quote out =
     ''Replaced '' @ show_nat (eo_replacements out) @ '' occurrence'' @ (if eo_replacements out = 1 then '''' else ''s'') @
     '' in '' @ quote (path (eo_path out)) @ '' (root '' @ quote (root_id (eo_path out)) @ '').''"

record 'h edit_tool =
  et_runtime :: "'h runtime"
  et_cwd :: exec_path
  et_config :: edit_config

definition edit_error :: "error_code \<Rightarrow> string \<Rightarrow> exec_error" where
  "edit_error c m = with_detail (exec_error_new c m) ''source'' (DText ''tool-edit'')"

definition edit_tool_new :: "'h runtime \<Rightarrow> exec_path \<Rightarrow> edit_config \<Rightarrow> 'h edit_tool exec_result" where
  "edit_tool_new rt wd cfg =
     rbind (validate_cwd (rt_descriptor rt) wd) (\<lambda>_.
       if ec_max_file_bytes cfg = 0 \<or> ec_chunk_bytes cfg = 0
       then Inl (Fail (edit_error InvalidRequest ''edit size and chunk limits must be positive''))
       else Inr \<lparr>et_runtime = rt, et_cwd = wd, et_config = cfg\<rparr>)"

definition edit_resolve_path :: "'h edit_tool \<Rightarrow> string \<Rightarrow> exec_path exec_result" where
  "edit_resolve_path tool p = resolve_path (rt_descriptor (et_runtime tool)) (et_cwd tool) p"

section \<open>Searching text\<close>

text \<open>
  \<open>str::match_indices\<close> for a non-empty pattern: the parts of the text before each match and after the
  last one. The offsets of the matches are the running sums of the parts and the pattern.
\<close>

function split_matches :: "string \<Rightarrow> string \<Rightarrow> string list" where
  "split_matches old s = (case (if old = [] then None else str_find old s) of
     None \<Rightarrow> [s]
   | Some i \<Rightarrow> take i s # split_matches old (drop (i + length old) s))"
  by pat_completeness auto

termination
  by (relation "measure (length \<circ> snd)") (auto split: if_splits dest!: str_find_Some(1) simp flip: length_greater_0_conv)

declare split_matches.simps [simp del]

section \<open>Replacing text\<close>

text \<open>
  The two passes over \<open>match_indices\<close>: each looks at the cancellation checkpoint once per match. With
  \<open>all\<close> false both stop after the first match.
\<close>

definition match_parts :: "bool \<Rightarrow> string \<Rightarrow> string \<Rightarrow> string list" where
  "match_parts all old s =
     (if all then split_matches old s
      else case str_find old s of None \<Rightarrow> [s] | Some i \<Rightarrow> [take i s, drop (i + length old) s])"

fun checkpoints :: "'h runtime \<Rightarrow> nat \<Rightarrow> ('h, unit) io" where
  "checkpoints rt 0 = io_lift (Inr ())"
| "checkpoints rt (Suc n) = io_bind (rt_checkpoint rt) (\<lambda>_. checkpoints rt n)"

definition replaced_size :: "nat \<Rightarrow> nat \<Rightarrow> nat \<Rightarrow> nat \<Rightarrow> nat option" where
  "replaced_size total_len count old_len new_len =
     Option.bind (checked_mul count old_len) (\<lambda>gone.
     Option.bind (checked_sub total_len gone) (\<lambda>n.
     Option.bind (checked_mul count new_len) (\<lambda>added. checked_add n added)))"

definition find_match :: "string \<Rightarrow> string \<Rightarrow> bool \<Rightarrow> nat exec_result" where
  "find_match s old all = (case str_find old s of
     None \<Rightarrow> Inl (Fail (edit_error InvalidRequest
       ''old_string was not found; it must match exactly, including whitespace and line endings''))
   | Some first \<Rightarrow>
       if all then Inr first
       else case drop first s of
         [] \<Rightarrow> Inl (Panic ''nonempty match'')
       | c # _ \<Rightarrow>
         if str_find old (drop (first + len_utf8 c) s) \<noteq> None
         then Inl (Fail (edit_error InvalidRequest
                ''old_string has multiple matches; provide more context or set replace_all to true''))
         else Inr first)"

definition replace :: "'h runtime \<Rightarrow> string \<Rightarrow> string \<Rightarrow> string \<Rightarrow> bool \<Rightarrow> nat \<Rightarrow> ('h, string \<times> nat) io" where
  "replace rt s old new all limit =
     io_bind (rt_checkpoint rt) (\<lambda>_.
     io_bind (io_lift (find_match s old all)) (\<lambda>_.
     let parts = match_parts all old s; count = length parts - 1 in
     io_bind (checkpoints rt count) (\<lambda>_.
     case replaced_size (length s) count (length old) (length new) of
       None \<Rightarrow> io_lift (Inl (Fail (edit_error ResourceExhausted ''edit size overflow'')))
     | Some n \<Rightarrow>
         if limit < n
         then io_lift (Inl (Fail (edit_error ResourceExhausted
                ''edited file exceeds the configured or host write size limit'')))
         else io_bind (checkpoints rt count) (\<lambda>_.
              io_bind (rt_checkpoint rt) (\<lambda>_.
              io_lift (Inr (join new parts, count)))))))"

section \<open>Reading the observed contents\<close>

definition check_observed :: "edit_config \<Rightarrow> observed_file \<Rightarrow> file_metadata \<Rightarrow> unit exec_result" where
  "check_observed cfg ob m =
     (if meta_path m \<noteq> ob_path ob
      then Inl (Fail (edit_error Internal ''host returned metadata for a different path''))
      else if kind m \<noteq> File
      then Inl (Fail (edit_error (if kind m = Directory then IsDirectory else Unsupported)
             ''edit requires a regular UTF-8 text file''))
      else if revision m \<noteq> Some (ob_revision ob)
      then Inl (Fail (edit_error RevisionConflict
             ''file changed since it was observed; read it again before editing''))
      else if ec_max_file_bytes cfg < file_size m
      then Inl (Fail (edit_error ResourceExhausted ''file exceeds the configured edit size limit''))
      else Inr ())"

definition edit_chunk_limit :: "'h runtime \<Rightarrow> edit_config \<Rightarrow> nat" where
  "edit_chunk_limit rt cfg = min (ec_chunk_bytes cfg)
     (case max_read_bytes (limits (rt_descriptor rt)) of Some n \<Rightarrow> n | None \<Rightarrow> u64_max)"

definition accept_edit_chunk ::
  "observed_file \<Rightarrow> nat \<Rightarrow> nat \<Rightarrow> nat \<Rightarrow> read_file_result \<Rightarrow> (string \<times> bool) exec_result" where
  "accept_edit_chunk ob size_bytes off limit reply =
     (if revision (metadata reply) \<noteq> Some (ob_revision ob) \<or> file_size (metadata reply) \<noteq> size_bytes
      then Inl (Fail (edit_error RevisionConflict ''file changed while preparing the edit; read it again''))
      else if result_offset reply \<noteq> off \<or> meta_path (metadata reply) \<noteq> ob_path ob
              \<or> kind (metadata reply) \<noteq> File \<or> limit < length (read_data reply)
              \<or> (read_data reply = [] \<and> \<not> read_eof reply)
      then Inl (Fail (edit_error Internal ''host returned an invalid file-read response''))
      else case checked_add off (length (read_data reply)) of
        None \<Rightarrow> Inl (Fail (edit_error Internal ''file offset overflow''))
      | Some end \<Rightarrow>
          if size_bytes < end \<or> read_eof reply \<noteq> (end = size_bytes)
          then Inl (Fail (edit_error Internal ''host returned an inconsistent file-read EOF''))
          else if NUL \<in> set (read_data reply)
          then Inl (Fail (edit_error Unsupported
                 ''file contains binary data (NUL); edit supports UTF-8 text only''))
          else Inr (read_data reply, read_eof reply))"

definition edit_read_chunk ::
  "'h runtime \<Rightarrow> observed_file \<Rightarrow> nat \<Rightarrow> nat \<Rightarrow> nat \<Rightarrow> ('h, string \<times> bool) io" where
  "edit_read_chunk rt ob size_bytes chunk off =
     (let limit = min chunk (max (size_bytes - off) 1) in
      io_bind (rt_checkpoint rt) (\<lambda>_.
      io_bind (rt_read rt \<lparr>read_path = ob_path ob, read_offset = off, max_bytes = limit, read_follow_symlinks = True\<rparr>) (\<lambda>reply.
      io_bind (rt_checkpoint rt) (\<lambda>_.
      io_lift (accept_edit_chunk ob size_bytes off limit reply)))))"

lemma accept_edit_chunk_Inr:
  assumes "accept_edit_chunk ob size_bytes off limit reply = Inr (bytes, ended)"
  shows "bytes = read_data reply" and "off + length bytes \<le> size_bytes"
    and "ended \<longleftrightarrow> off + length bytes = size_bytes" and "\<not> ended \<Longrightarrow> bytes \<noteq> []"
    and "revision (metadata reply) = Some (ob_revision ob)"
  using assms by (auto simp: accept_edit_chunk_def split: if_splits option.splits)

lemma edit_read_chunk_Inr:
  assumes "edit_read_chunk rt ob size_bytes chunk off h = (Inr (bytes, ended), h')"
  obtains reply h1 h2 where "rt_checkpoint rt h = (Inr (), h1)"
    and "rt_read rt \<lparr>read_path = ob_path ob, read_offset = off, max_bytes = min chunk (max (size_bytes - off) 1),
           read_follow_symlinks = True\<rparr> h1 = (Inr reply, h2)"
    and "rt_checkpoint rt h2 = (Inr (), h')"
    and "accept_edit_chunk ob size_bytes off (min chunk (max (size_bytes - off) 1)) reply = Inr (bytes, ended)"
  using assms by (auto simp: edit_read_chunk_def Let_def io_bind_Inr_iff)

function edit_read_loop :: "'h runtime \<Rightarrow> observed_file \<Rightarrow> nat \<Rightarrow> nat \<Rightarrow> string \<Rightarrow> ('h, string) io" where
  "edit_read_loop rt ob size_bytes chunk bytes h =
     (case edit_read_chunk rt ob size_bytes chunk (length bytes) h of
        (Inl e, h') \<Rightarrow> (Inl e, h')
      | (Inr (piece, ended), h') \<Rightarrow>
          (if ended then (Inr (bytes @ piece), h')
           else edit_read_loop rt ob size_bytes chunk (bytes @ piece) h'))"
  by pat_completeness auto
termination
proof (relation "measure (\<lambda>(_, _, size_bytes, _, bytes, _). size_bytes - length bytes)")
  fix rt :: "'h runtime" and ob size_bytes chunk and bytes :: string and h h' :: 'h and r x piece ended
  assume "(r, h') = edit_read_chunk rt ob size_bytes chunk (length bytes) h"
    and "r = Inr x" and "(piece, ended) = x" and "\<not> ended"
  then have "edit_read_chunk rt ob size_bytes chunk (length bytes) h = (Inr (piece, False), h')" by simp
  then obtain limit reply where "accept_edit_chunk ob size_bytes (length bytes) limit reply = Inr (piece, False)"
    by (rule edit_read_chunk_Inr)
  from accept_edit_chunk_Inr(2-4) [OF this] have "length bytes < size_bytes \<and> piece \<noteq> []"
    by auto
  then show "((rt, ob, size_bytes, chunk, bytes @ piece, h'), rt, ob, size_bytes, chunk, bytes, h)
      \<in> measure (\<lambda>(_, _, size_bytes, _, bytes, _). size_bytes - length bytes)"
    by (simp add: diff_less_mono2)
qed simp

declare edit_read_loop.simps [simp del]

definition edit_read :: "'h runtime \<Rightarrow> observed_file \<Rightarrow> edit_config \<Rightarrow> ('h, string) io" where
  "edit_read rt ob cfg =
     io_bind (rt_stat rt \<lparr>stat_path = ob_path ob, stat_follow_symlinks = True\<rparr>) (\<lambda>m.
     io_bind (rt_checkpoint rt) (\<lambda>_.
     io_bind (io_lift (check_observed cfg ob m)) (\<lambda>_.
     if edit_chunk_limit rt cfg = 0
     then io_lift (Inl (Fail (edit_error Unsupported ''host advertised a zero read limit'')))
     else io_bind (edit_read_loop rt ob (file_size m) (edit_chunk_limit rt cfg) []) (\<lambda>bytes.
          io_lift (if utf8_valid bytes then Inr bytes
            else Inl (Fail (edit_error Unsupported ''file is not valid UTF-8 text'')))))))"

section \<open>Preparing and applying an edit\<close>

definition validate_observation :: "'h edit_tool \<Rightarrow> observed_file \<Rightarrow> unit exec_result" where
  "validate_observation tool ob =
     (let host = rt_descriptor (et_runtime tool) in
      if ob_host_id ob \<noteq> host_id host
      then Inl (Fail (edit_error InvalidRequest ''observed revision belongs to another host; read this file first''))
      else rbind (validate_cwd host (ob_path ob)) (\<lambda>_.
        if path (ob_path ob) = ''.'' then Inl (Fail (edit_error IsDirectory ''cannot edit an execution root''))
        else if list_ex (\<lambda>r. root_identifier r = root_id (ob_path ob) \<and> read_only r) (roots host)
        then Inl (Fail (edit_error ReadOnlyRoot ''the selected execution root is read-only''))
        else Inr ()))"

definition check_edit_input :: "'h edit_tool \<Rightarrow> edit_input \<Rightarrow> edit_state \<Rightarrow> unit exec_result" where
  "check_edit_input tool input st =
     (if ei_old_string input = []
      then Inl (Fail (edit_error InvalidRequest ''old_string must not be empty; use write to create or replace a file''))
      else if ei_old_string input = ei_new_string input
      then Inl (Fail (edit_error InvalidRequest ''old_string and new_string are identical; no change to apply''))
      else if ec_max_file_bytes (et_config tool) < length (ei_old_string input)
              \<or> ec_max_file_bytes (et_config tool) < length (ei_new_string input)
      then Inl (Fail (edit_error ResourceExhausted ''edit text exceeds the configured file size limit''))
      else rbind (edit_resolve_path tool (ei_file_path input)) (\<lambda>p.
           rbind (validate_observation tool (es_observed st)) (\<lambda>_.
             if p \<noteq> ob_path (es_observed st)
             then Inl (Fail (edit_error InvalidRequest ''observed revision belongs to another path; read this file first''))
             else Inr ())))"

definition edit_limit :: "'h edit_tool \<Rightarrow> nat" where
  "edit_limit tool = min (ec_max_file_bytes (et_config tool))
     (case max_write_bytes (limits (rt_descriptor (et_runtime tool))) of Some n \<Rightarrow> n | None \<Rightarrow> u64_max)"

definition edit_prepare :: "'h edit_tool \<Rightarrow> edit_input \<Rightarrow> edit_state \<Rightarrow> ('h, prepared_edit) io" where
  "edit_prepare tool input st =
     (let rt = et_runtime tool in
      io_bind (rt_checkpoint rt) (\<lambda>_.
      io_bind (io_lift (check_edit_input tool input st)) (\<lambda>_.
      io_bind (edit_read rt (es_observed st) (et_config tool)) (\<lambda>s.
      io_bind (replace rt s (ei_old_string input) (ei_new_string input) (ei_replace_all input) (edit_limit tool)) (\<lambda>(content, count).
      io_bind (rt_checkpoint rt) (\<lambda>_.
      io_lift (Inr \<lparr>pe_state = st, pe_content = content, pe_replacements = count\<rparr>)))))))"

definition edit_apply :: "'h edit_tool \<Rightarrow> prepared_edit \<Rightarrow> ('h, edit_output) io" where
  "edit_apply tool pe =
     (let ob = es_observed (pe_state pe) in
      io_bind (rt_checkpoint (et_runtime tool)) (\<lambda>_.
      io_bind (io_lift (validate_observation tool ob)) (\<lambda>_.
      if pe_replacements pe = 0
      then io_lift (Inl (Fail (edit_error InvalidRequest ''prepared edit must contain at least one replacement'')))
      else io_bind (io_lift (write_tool_new (et_runtime tool) (exec_path_root (root_id (ob_path ob)))
                     \<lparr>max_content_bytes = ec_max_file_bytes (et_config tool)\<rparr>)) (\<lambda>writer.
           io_bind (write_execute writer \<lparr>wi_file_path = path (ob_path ob), wi_content = pe_content pe\<rparr>
                     \<lparr>ws_operation_id = es_operation_id (pe_state pe), ws_observed = Some ob\<rparr>) (\<lambda>result.
           io_lift (Inr \<lparr>eo_host_id = wo_host_id result, eo_path = wo_path result, eo_replacements = pe_replacements pe,
              eo_bytes_written = wo_bytes_written result, eo_revision = wo_revision result\<rparr>))))))"

section \<open>The replaced occurrences\<close>

text \<open>Without \<open>replace_all\<close> the text that is replaced occurs exactly once.\<close>

lemma find_match_unique:
  assumes "find_match s old False = Inr i" and "utf8_valid s" and "utf8_valid old" and "old \<noteq> []"
  shows "str_find old s = Some i" and "occurs_at old s j \<longleftrightarrow> j = i"
proof -
  from assms(1) obtain c r where f: "str_find old s = Some i" and d: "drop i s = c # r"
      and none: "str_find old (drop (i + len_utf8 c) s) = None"
    by (auto simp: find_match_def split: option.splits list.splits if_splits)
  then show "str_find old s = Some i" by simp
  have occ: "occurs_at old s i" and first: "\<And>j. j < i \<Longrightarrow> \<not> occurs_at old s j"
    using f by (auto simp: str_find_Some_iff)
  have hd: "hd old = c" using occurs_at_hd [OF occ assms(4)] d by simp
  have lead: "\<not> continuation c" using utf8_lead [of c "tl old"] assms(3,4) hd by (cases old) auto
  have v: "utf8_valid (c # r)"
    using utf8_valid_drop [of "take i s" "c # r"] assms(2) d lead by (metis append_take_drop_id list.distinct(1) list.sel(1))
  have "j = i" if j: "occurs_at old s j" for j
  proof (rule ccontr)
    assume "j \<noteq> i"
    with first j have ij: "i < j" by (meson linorder_neqE_nat)
    have jl: "j \<le> length s" using j by (simp add: occurs_at_def)
    show False
    proof (cases "j < i + len_utf8 c")
      case True
      obtain q where q: "drop j s = c # q" using occurs_at_hd [OF j assms(4)] hd by auto
      then have "j < length s" by (metis drop_all linorder_not_less list.distinct(1))
      then have "s ! j = c" using q by (simp flip: hd_drop_conv_nth)
      moreover have "s ! j = (c # r) ! (j - i)" using d ij \<open>j < length s\<close> by (simp flip: d)
      moreover have "continuation ((c # r) ! (j - i))" using inside_char [OF v, of "j - i"] True ij by simp
      ultimately show False using lead by simp
    next
      case False
      with j jl none show False
        using occurs_at_drop [of "i + len_utf8 c" j s old] by (simp add: str_find_None_iff)
    qed
  qed
  with occ show "occurs_at old s j \<longleftrightarrow> j = i" by blast
qed

text \<open>A text cut at the leftmost, non-overlapping occurrences of another.\<close>

fun leftmost :: "string \<Rightarrow> string list \<Rightarrow> bool" where
  "leftmost old [] = False"
| "leftmost old [p] = (str_find old p = None)"
| "leftmost old (p # q # ps) = (str_find old (p @ old @ join old (q # ps)) = Some (length p) \<and> leftmost old (q # ps))"

lemma split_matches_neq_Nil [simp]: "split_matches old s \<noteq> []"
  by (subst split_matches.simps) (simp split: option.splits)

lemma split_matches_join: "join old (split_matches old s) = s"
proof (induction old s rule: split_matches.induct)
  case (1 old s)
  show ?case
  proof (cases "if old = [] then None else str_find old s")
    case (Some i)
    with 1 have "join old (split_matches old (drop (i + length old) s)) = drop (i + length old) s" by auto
    with Some show ?thesis
      by (subst split_matches.simps) (auto simp: join_Nil_Cons str_find_Some(2) split: if_splits)
  qed (simp add: split_matches.simps [of old s])
qed

lemma split_matches_leftmost: "old \<noteq> [] \<Longrightarrow> leftmost old (split_matches old s)"
proof (induction old s rule: split_matches.induct)
  case (1 old s)
  show ?case
  proof (cases "str_find old s")
    case None
    with 1 show ?thesis by (simp add: split_matches.simps [of old s])
  next
    case (Some i)
    let ?rest = "split_matches old (drop (i + length old) s)"
    obtain q ps where r: "?rest = q # ps" by (cases ?rest) auto
    have "take i s @ old @ join old ?rest = s"
      using str_find_Some(2) [OF Some] by (simp add: split_matches_join)
    moreover have "length (take i s) = i" using str_find_Some(1) [OF Some] by simp
    ultimately show ?thesis
      using 1 Some r by (simp add: split_matches.simps [of old s])
  qed
qed

lemma length_join: "xs \<noteq> [] \<Longrightarrow> length (join sep xs) = sum_list (map length xs) + (length xs - 1) * length sep"
  by (induction sep xs rule: join.induct) auto

lemma replaced_size_Some:
  assumes "replaced_size (length (join old parts)) (length parts - 1) (length old) (length new) = Some n" and "parts \<noteq> []"
  shows "length (join new parts) = n"
  using assms by (auto simp: replaced_size_def bind_eq_Some_conv length_join)

lemma match_parts_join: "old \<noteq> [] \<Longrightarrow> join old (match_parts all old s) = s"
  by (auto simp: match_parts_def split_matches_join str_find_Some(2) split: option.splits)

lemma match_parts_single:
  assumes "find_match s old False = Inr i" and "utf8_valid s" and "utf8_valid old" and "old \<noteq> []"
  shows "leftmost old (match_parts False old s)" and "length (match_parts False old s) = 2"
proof -
  note f = find_match_unique [OF assms]
  have l: "i + length old \<le> length s" using str_find_Some(1) [OF f(1)] .
  have "str_find old (drop (i + length old) s) = None"
  proof -
    have "\<not> occurs_at old (drop (i + length old) s) j" for j
    proof
      assume j: "occurs_at old (drop (i + length old) s) j"
      then have "i + length old + j \<le> length s" using l by (auto simp: occurs_at_def)
      with j have "occurs_at old s (i + length old + j)" using occurs_at_drop [of "i + length old" "i + length old + j" s old] by simp
      with f(2) assms(4) show False by simp
    qed
    then show ?thesis by (simp add: str_find_None_iff)
  qed
  then show "leftmost old (match_parts False old s)" "length (match_parts False old s) = 2"
    using f(1) l str_find_Some(2) [OF f(1)] by (simp_all add: match_parts_def)
qed

lemma replace_Inr:
  assumes "replace rt s old new all limit h = (Inr (out, count), h')"
    and "old \<noteq> []" and "utf8_valid s" and "utf8_valid old"
  shows "\<exists>parts. s = join old parts \<and> out = join new parts \<and> leftmost old parts \<and> count = length parts - 1 \<and> 0 < count \<and>
     length out \<le> limit \<and> (\<not> all \<longrightarrow> count = 1 \<and> (\<exists>i. \<forall>j. occurs_at old s j \<longleftrightarrow> j = i))"
proof -
  let ?parts = "match_parts all old s"
  from assms(1) obtain i n where f: "find_match s old all = Inr i"
      and n: "replaced_size (length s) (length ?parts - 1) (length old) (length new) = Some n" "n \<le> limit"
      and o: "out = join new ?parts" "count = length ?parts - 1"
    by (auto simp: replace_def Let_def io_bind_Inr_iff split: option.splits if_splits)
  have j: "join old ?parts = s" by (rule match_parts_join [OF assms(2)])
  obtain k where found: "str_find old s = Some k" using f by (auto simp: find_match_def split: option.splits)
  have p: "leftmost old ?parts \<and> 1 < length ?parts \<and> (\<not> all \<longrightarrow> length ?parts = 2)"
  proof (cases all)
    case True
    have "1 < length (split_matches old s)"
      using found assms(2) by (simp add: split_matches.simps [of old s])
    with True show ?thesis using split_matches_leftmost [OF assms(2)] by (simp add: match_parts_def)
  next
    case False
    with match_parts_single [of s old i] f assms show ?thesis by simp
  qed
  then have "?parts \<noteq> []" by auto
  with replaced_size_Some [of old ?parts new n] n j have "length (join new ?parts) \<le> limit" by simp
  moreover have "\<not> all \<longrightarrow> (\<exists>i. \<forall>j. occurs_at old s j \<longleftrightarrow> j = i)"
    using find_match_unique(2) [of s old i] f assms by auto
  ultimately show ?thesis using j o p by (intro exI [of _ ?parts]) auto
qed

lemma checkpoints_preserve: "preserves P (rt_checkpoint rt) \<Longrightarrow> preserves P (checkpoints rt n)"
  by (induction n) auto

lemma replace_preserves: "preserves P (rt_checkpoint rt) \<Longrightarrow> preserves P (replace rt s old new all limit)"
  by (auto simp: replace_def Let_def intro!: checkpoints_preserve split: option.splits)

section \<open>What an applied edit guarantees\<close>

context revision_host
begin

lemma edit_read_chunk_contents:
  assumes "ok h" and "files h (ob_path ob) = Some c" and "size_bytes = length c"
    and "edit_read_chunk rt ob size_bytes chunk off h = (Inr (piece, ended), h')"
  shows "ok h' \<and> files h' = files h \<and> used h' = used h \<and> take (length piece) (drop off c) = piece \<and>
     (ended \<longleftrightarrow> off + length piece = length c) \<and> (\<not> ended \<longrightarrow> piece \<noteq> []) \<and> off + length piece \<le> length c"
proof -
  from assms(4) obtain reply h1 h2 where h1: "rt_checkpoint rt h = (Inr (), h1)"
      and rd: "rt_read rt \<lparr>read_path = ob_path ob, read_offset = off, max_bytes = min chunk (max (size_bytes - off) 1),
           read_follow_symlinks = True\<rparr> h1 = (Inr reply, h2)"
      and h2: "rt_checkpoint rt h2 = (Inr (), h')"
      and ac: "accept_edit_chunk ob size_bytes off (min chunk (max (size_bytes - off) 1)) reply = Inr (piece, ended)"
    by (rule edit_read_chunk_Inr)
  note f1 = checkpoint_ok [OF h1 assms(1)]
  have f2: "ok h2 \<and> files h2 = files h1 \<and> used h2 = used h1" using read_frame [OF conjunct1 [OF f1] rd] .
  note f3 = checkpoint_ok [OF h2 conjunct1 [OF f2]]
  from read_contents [OF conjunct1 [OF f1] rd] assms(2) f1
  have "read_data reply = take (min chunk (max (size_bytes - off) 1)) (drop off c)" by auto
  then have "take (length (read_data reply)) (drop off c) = read_data reply" by (simp add: min_def)
  with accept_edit_chunk_Inr(1-4) [OF ac] f1 f2 f3 assms(3) show ?thesis by auto
qed

lemma edit_read_loop_contents:
  assumes "edit_read_loop rt ob (length c) chunk bytes h = (Inr out, h')"
    and "ok h" and "files h (ob_path ob) = Some c" and "take (length bytes) c = bytes"
  shows "ok h' \<and> files h' = files h \<and> used h' = used h \<and> out = c"
  using assms
proof (induction "length c - length bytes" arbitrary: bytes h rule: less_induct)
  case less
  obtain x h1 where rc: "edit_read_chunk rt ob (length c) chunk (length bytes) h = (x, h1)" by force
  note eq = edit_read_loop.simps [of rt ob "length c" chunk bytes h, unfolded rc]
  obtain piece ended where x: "x = Inr (piece, ended)" using less.prems(1) unfolding eq by (cases x) auto
  note ch = edit_read_chunk_contents [OF less.prems(2,3) refl rc [unfolded x]]
  have grown: "take (length (bytes @ piece)) c = bytes @ piece"
    using take_grow less.prems(4) ch by blast
  show ?case
  proof (cases ended)
    case True
    then have "bytes @ piece = c" using grown ch by (metis length_append order_refl take_all)
    with True less.prems(1) ch show ?thesis unfolding eq x by simp
  next
    case False
    then have "0 < length piece" using ch by simp
    then have "length c - length (bytes @ piece) < length c - length bytes"
      using ch unfolding length_append by linarith
    with less.hyps [of "bytes @ piece" h1] less.prems(1,3) ch grown False show ?thesis unfolding eq x by simp
  qed
qed

lemma edit_read_contents:
  assumes "ok h" and "edit_read rt ob cfg h = (Inr s, h')"
  shows "ok h' \<and> files h' = files h \<and> used h' = used h \<and> files h (ob_path ob) = Some s \<and> rev s = ob_revision ob \<and> utf8_valid s"
proof -
  from assms(2) obtain m h1 h2 where st: "rt_stat rt \<lparr>stat_path = ob_path ob, stat_follow_symlinks = True\<rparr> h = (Inr m, h1)"
      and h2: "rt_checkpoint rt h1 = (Inr (), h2)" and ck: "check_observed cfg ob m = Inr ()"
      and lp: "edit_read_loop rt ob (file_size m) (edit_chunk_limit rt cfg) [] h2 = (Inr s, h')" and u: "utf8_valid s"
    by (auto simp: edit_read_def io_bind_Inr_iff split: if_splits)
  have f1: "ok h1 \<and> files h1 = files h \<and> used h1 = used h" using stat_frame [OF assms(1) st] .
  note f2 = checkpoint_ok [OF h2 conjunct1 [OF f1]]
  from ck have m: "kind m = File" "revision m = Some (ob_revision ob)"
    by (auto simp: check_observed_def split: if_splits)
  from stat_file [OF assms(1) st _ m(1)] obtain c where c: "files h (ob_path ob) = Some c" "file_size m = length c" by auto
  have "revision m = Some (rev c)" using stat_revision [OF assms(1) st _ m(1)] c by simp
  moreover have "ok h' \<and> files h' = files h2 \<and> used h' = used h2 \<and> s = c"
    using edit_read_loop_contents [OF lp [unfolded c(2)], of ] f1 f2 c by simp
  ultimately show ?thesis using f1 f2 c m u by simp
qed

lemma replace_frame:
  assumes "ok h" and "replace rt s old new all limit h = (r, h')"
  shows "ok h' \<and> files h' = files h \<and> used h' = used h"
proof -
  let ?P = "\<lambda>k. ok k \<and> files k = files h \<and> used k = used h"
  have "preserves ?P (rt_checkpoint rt)" unfolding preserves_def using checkpoint_ok by metis
  from preservesD [OF replace_preserves [OF this] _ assms(2)] assms(1) show ?thesis by simp
qed

lemma edit_prepare_result:
  assumes "ok h" and "et_runtime tool = rt" and "edit_prepare tool input st h = (Inr pe, h')" and "utf8_valid (ei_old_string input)"
  shows "ok h' \<and> files h' = files h \<and> used h' = used h \<and> pe_state pe = st \<and>
     (\<exists>c parts. files h (ob_path (es_observed st)) = Some c \<and> rev c = ob_revision (es_observed st) \<and>
        c = join (ei_old_string input) parts \<and> pe_content pe = join (ei_new_string input) parts \<and>
        leftmost (ei_old_string input) parts \<and> pe_replacements pe = length parts - 1 \<and>
        (\<not> ei_replace_all input \<longrightarrow> pe_replacements pe = 1 \<and> (\<exists>i. \<forall>j. occurs_at (ei_old_string input) c j \<longleftrightarrow> j = i)))"
proof -
  from assms(2,3) obtain h1 h2 h3 s content count where h1: "rt_checkpoint rt h = (Inr (), h1)"
      and ck: "check_edit_input tool input st = Inr ()"
      and rd: "edit_read rt (es_observed st) (et_config tool) h1 = (Inr s, h2)"
      and rp: "replace rt s (ei_old_string input) (ei_new_string input) (ei_replace_all input) (edit_limit tool) h2 = (Inr (content, count), h3)"
      and h4: "rt_checkpoint rt h3 = (Inr (), h')"
      and pe: "pe = \<lparr>pe_state = st, pe_content = content, pe_replacements = count\<rparr>"
    by (auto simp: edit_prepare_def Let_def io_bind_Inr_iff)
  note f1 = checkpoint_ok [OF h1 assms(1)]
  note f2 = edit_read_contents [OF conjunct1 [OF f1] rd]
  note f3 = replace_frame [OF conjunct1 [OF f2] rp]
  note f4 = checkpoint_ok [OF h4 conjunct1 [OF f3]]
  have "ei_old_string input \<noteq> []" using ck by (auto simp: check_edit_input_def split: if_splits)
  from replace_Inr [OF rp this _ assms(4)] f2 obtain parts where
      "s = join (ei_old_string input) parts" "content = join (ei_new_string input) parts"
      "leftmost (ei_old_string input) parts" "count = length parts - 1"
      "\<not> ei_replace_all input \<longrightarrow> count = 1 \<and> (\<exists>i. \<forall>j. occurs_at (ei_old_string input) s j \<longleftrightarrow> j = i)" by auto
  with f1 f2 f3 f4 pe show ?thesis by auto
qed

lemma edit_apply_effect:
  assumes "ok h" and "et_runtime tool = rt" and "edit_apply tool pe h = (Inr out, h')" and "es_operation_id (pe_state pe) \<notin> used h"
  shows "ok h' \<and> files h' = (files h)(ob_path (es_observed (pe_state pe)) \<mapsto> pe_content pe) \<and>
     used h' = insert (es_operation_id (pe_state pe)) (used h) \<and> eo_revision out = rev (pe_content pe) \<and>
     (\<exists>c. files h (ob_path (es_observed (pe_state pe))) = Some c \<and> rev c = ob_revision (es_observed (pe_state pe)))"
proof -
  let ?ob = "es_observed (pe_state pe)"
  from assms(2,3) obtain h1 writer result where h1: "rt_checkpoint rt h = (Inr (), h1)"
      and wn: "write_tool_new rt (exec_path_root (root_id (ob_path ?ob))) \<lparr>max_content_bytes = ec_max_file_bytes (et_config tool)\<rparr> = Inr writer"
      and we: "write_execute writer \<lparr>wi_file_path = path (ob_path ?ob), wi_content = pe_content pe\<rparr>
                     \<lparr>ws_operation_id = es_operation_id (pe_state pe), ws_observed = Some ?ob\<rparr> h1 = (Inr result, h')"
      and out: "eo_revision out = wo_revision result"
    by (auto simp: edit_apply_def Let_def io_bind_Inr_iff split: if_splits)
  note f1 = checkpoint_ok [OF h1 assms(1)]
  have "wt_runtime writer = rt" using wn by (auto simp: write_tool_new_def rbind_Inr_iff split: if_splits)
  from write_execute_effect [OF conjunct1 [OF f1] this we] f1 assms(4) out show ?thesis by auto
qed

end

section \<open>Properties\<close>

lemma unique_match_accepted:
  assumes "occurs_at old s i" and "\<And>j. occurs_at old s j \<Longrightarrow> j = i" and "old \<noteq> []"
  shows "find_match s old False = Inr i"
proof -
  have f: "str_find old s = Some i" unfolding str_find_Some_iff using assms(1,2) by (metis less_irrefl)
  obtain r where d: "drop i s = hd old # r" using occurs_at_hd [OF assms(1,3)] ..
  have "str_find old (drop (i + len_utf8 (hd old)) s) = None"
  proof (rule ccontr)
    assume "str_find old (drop (i + len_utf8 (hd old)) s) \<noteq> None"
    then obtain j where j: "occurs_at old (drop (i + len_utf8 (hd old)) s) j" by (auto simp: str_find_None_iff)
    have "i + len_utf8 (hd old) + j \<le> length s"
    proof (cases "i + len_utf8 (hd old) \<le> length s")
      case True
      with j show ?thesis by (auto simp: occurs_at_def)
    next
      case False
      with j assms(3) show ?thesis by (simp add: occurs_at_Nil_iff)
    qed
    then have "occurs_at old s (i + len_utf8 (hd old) + j)"
      using j occurs_at_drop [of "i + len_utf8 (hd old)" "i + len_utf8 (hd old) + j" s old] by simp
    from assms(2) [OF this] show False by (simp add: len_utf8_def split: if_splits)
  qed
  with f d show ?thesis by (simp add: find_match_def)
qed

text \<open>
  An edit without \<open>replace_all\<close> goes ahead exactly when the old text occurs at one byte position of the
  file, overlapping occurrences counted separately: with none it is reported as missing,
  with several as ambiguous, and the search from the next character on misses none of them.
\<close>

theorem single_edit_needs_unique_match:
  assumes "utf8_valid s" and "utf8_valid old" and "old \<noteq> []"
  shows "(\<exists>i. find_match s old False = Inr i) \<longleftrightarrow> (\<exists>!i. occurs_at old s i)"
proof
  assume "\<exists>i. find_match s old False = Inr i"
  then obtain i where i: "find_match s old False = Inr i" ..
  show "\<exists>!i. occurs_at old s i" by (simp add: find_match_unique(2) [OF i assms])
next
  assume "\<exists>!i. occurs_at old s i"
  then show "\<exists>i. find_match s old False = Inr i" using unique_match_accepted [OF _ _ assms(3)] by blast
qed

theorem single_edit_needs_unique_match_witness: "\<not> (\<exists>!i. occurs_at ''aa'' ''xaaa'' i)"
proof -
  have "utf8_valid ''xaaa''" "utf8_valid ''aa''" by code_simp+
  moreover have "find_match ''xaaa'' ''aa'' False =
      Inl (Fail (edit_error InvalidRequest ''old_string has multiple matches; provide more context or set replace_all to true''))"
    by code_simp
  ultimately show ?thesis using single_edit_needs_unique_match [of "''xaaa''" "''aa''"] by simp
qed

end
