(* ===== verification/Edit_Supervisor.thy ===== *)
theory Edit_Supervisor
  imports Patch_Supervisor Edit_Tool
begin

text \<open>
  The \<open>write\<close> and \<open>edit\<close> tools on the supervisor: the supervisor's filesystem satisfies the contract
  \<open>revision_host\<close> with the SHA-256 digest as the revision of contents, so that an edit is applied
  to the very contents from which it was prepared, or not at all.
\<close>

section \<open>Revisions on the supervisor\<close>

lemma hash_bytes_Inr: "hash_bytes env bytes = Inr r \<Longrightarrow> r = sha_hex env bytes"
  by (auto simp: hash_bytes_def id_new_def split: sum.splits if_splits)

lemma plain_contents:
  assumes "read_contents_of fs p = Inr c" and "plain_fs fs" and "''..'' \<notin> set p"
  shows "node_at fs p = Some (NFile c)"
proof -
  from assms(1) obtain q where "canonicalize fs p = Inr q" "node_at fs q = Some (NFile c)"
    by (auto simp: read_contents_of_def metadata_of_def split: sum.splits option.splits node.splits)
  with plain_canonicalize assms(2,3) show ?thesis by blast
qed

lemma stat_revision_plain:
  assumes "sup_ok env s" and "sup_stat env ctx q s = (Inr m, s')" and "stat_follow_symlinks q" and "kind m = File"
    and "sup_files env s (stat_path q) = Some c"
  shows "revision m = Some (sha_hex env c)"
proof -
  from assms(2,3) obtain s1 p where cp: "sup_checkpoint ctx s = (Inr (), s1)"
      and r: "resolve_existing (resolver env) (sv_fs s1) (stat_path q) True = Inr p"
      and m: "metadata_for env (sv_fs s1) (stat_path q) p True = Inr m"
    by (auto simp: sup_stat_def io_bind_Inr_iff rbind_Inr_iff)
  have fs: "sv_fs s1 = sv_fs s" using sup_checkpoint_frame [OF cp] by simp
  note p = resolve_existing_plain [OF assms(1) r [unfolded fs]]
  with assms(5) have n: "node_at (sv_fs s) p = Some (NFile c)"
    by (auto simp: sup_files_def split: option.splits node.splits)
  then have "metadata_of (sv_fs s) p = Inr (NFile c)" using p by (simp add: metadata_of_def canonicalize_fixed)
  with m obtain c' h where h: "read_contents_of (sv_fs s) p = Inr c'" "hash_bytes env c' = Inr h" "revision m = Some h"
    by (auto simp: metadata_for_def rbind_Inr_iff fs hash_file_def)
  with canonical_contents p n hash_bytes_Inr show ?thesis by fastforce
qed

lemma read_revision_plain:
  assumes "sup_ok env s" and "sup_read env ctx rq s = (Inr reply, s')" and "read_follow_symlinks rq"
    and "sup_files env s (read_path rq) = Some c"
  shows "revision (metadata reply) = Some (sha_hex env c)"
proof -
  from sup_read_Inr [OF assms(2)] assms(3) obtain p c' where
      r: "resolve_existing (resolver env) (sv_fs s) (read_path rq) True = Inr p" "read_contents_of (sv_fs s) p = Inr c'"
      and reply: "read_reply env (sv_fs s) rq p c'
         (window (read_offset rq) (sat_add (read_offset rq) (max_bytes rq)) 0 c') (length c') = Inr reply" by auto
  note p = resolve_existing_plain [OF assms(1) r(1)]
  from p canonical_contents [OF _ r(2)] assms(4) have "c' = c" by (auto simp: sup_files_def)
  with reply hash_bytes_Inr show ?thesis by (auto simp: read_reply_def rbind_Inr_iff split: if_splits)
qed

lemma write_inner_condition:
  assumes ok: "sup_ok env s" and wi: "write_inner env rq s = (Inr w, s')"
    and st: "strategy rq = AtomicReplace"
  shows "case condition rq of AnyState \<Rightarrow> True | MustNotExist \<Rightarrow> sup_files env s (write_path rq) = None
     | MatchRevision r \<Rightarrow> \<exists>c. sup_files env s (write_path rq) = Some c \<and> sha_hex env c = r"
proof -
  have wf: "fs_wf (sv_fs s)" "roots_ok (resolver env) (sv_fs s)" "plain_fs (sv_fs s)" "sup_inv env s"
    using ok by (auto simp: sup_ok_def sup_inv_def)
  from wi obtain p existing where pl: "plan_write env (sv_fs s) rq = Inr (p, existing)"
    by (auto simp: write_inner_def io_bind_Inr_iff)
  note plan = plan_write_Inr [OF pl]
  from plan st have r: "resolve_for_write (resolver env) (sv_fs s) (write_path rq) (write_follow_symlinks rq) = Inr p"
    by (simp add: resolve_write_def)
  note n = resolve_for_write_plain [OF ok r]
  from resolve_for_write_Inr [OF wf(1,2) r] have "settled (sv_fs s) p" by blast
  then have ex: "existing = node_at (sv_fs s) p" using plan existing_node_settled [OF wf(1)] by blast
  show ?thesis
  proof (cases "condition rq")
    case MustNotExist
    with plan ex n show ?thesis by (auto simp: sup_files_def)
  next
    case (MatchRevision rv)
    with plan obtain nd where nd: "existing = Some nd" and cr: "current_revision env (sv_fs s) p nd = Inr rv"
      by (cases existing) (auto simp: rbind_Inr_iff)
    obtain c where c: "nd = NFile c" using nd plan ex wf(3) by (cases nd) (auto simp: plain_fs_def)
    with cr obtain c' where "read_contents_of (sv_fs s) p = Inr c'" "rv = sha_hex env c'"
      using hash_bytes_Inr by (auto simp: current_revision_def hash_file_def rbind_Inr_iff)
    moreover have "''..'' \<notin> set p" using native_no_parents [OF wf(4) n] .
    ultimately have "node_at (sv_fs s) p = Some (NFile c')" "rv = sha_hex env c'" using plain_contents wf(3) by blast+
    with MatchRevision n show ?thesis by (simp add: sup_files_def)
  qed simp
qed

interpretation sup_rev: revision_host "supervisor_runtime env host ctx" "sup_files env" sup_used "sup_ok env" "sha_hex env"
  for env host ctx
proof (unfold_locales, goal_cases)
  case (1 h q m h' c)
  then show ?case using stat_revision_plain [of env h ctx q m h' c] by (simp add: supervisor_runtime_def)
next
  case (2 h rq reply h' c)
  then show ?case using read_revision_plain [of env h ctx rq reply h' c] by (simp add: supervisor_runtime_def)
next
  case (3 h wq w h')
  then have w: "sup_write env ctx wq h = (Inr w, h')" by (simp add: supervisor_runtime_def)
  from 3(1) w 3(5) obtain s0 s2 where "write_inner env wq s0 = (Inr w, s2)" by (rule sup_write_fresh)
  then have "written_revision w = sha_hex env (write_data wq)"
    using hash_bytes_Inr by (auto simp: write_inner_def io_bind_Inr_iff)
  with sup_write_plain [OF 3(1) w 3(5)] show ?case by simp
next
  case (4 h wq w h')
  then have w: "sup_write env ctx wq h = (Inr w, h')" by (simp add: supervisor_runtime_def)
  from 4(1) w 4(5) obtain s0 s2 where s0: "sup_ok env s0" "sv_fs s0 = sv_fs h" and wi: "write_inner env wq s0 = (Inr w, s2)"
    by (rule sup_write_fresh)
  from write_inner_condition [OF s0(1) wi 4(3)] show ?case unfolding sup_files_fs [OF s0(2)] .
qed

section \<open>Properties\<close>

definition sample_edit_tool :: "supervisor edit_tool" where
  "sample_edit_tool = \<lparr>et_runtime = supervisor_runtime sample_env sample_host sample_ctx,
     et_cwd = exec_path_root ''work'', et_config = \<lparr>ec_max_file_bytes = 8, ec_chunk_bytes = 7\<rparr>\<rparr>"

definition sample_edit_input :: edit_input where
  "sample_edit_input = \<lparr>ei_file_path = ''f'', ei_old_string = ''ll'', ei_new_string = ''LL'', ei_replace_all = False\<rparr>"

definition sample_observed :: observed_file where
  "sample_observed = \<lparr>ob_host_id = host_id sample_host, ob_path = \<lparr>root_id = ''work'', path = ''f''\<rparr>, ob_revision = ''xhello''\<rparr>"

definition sample_edit_state :: edit_state where
  "sample_edit_state = \<lparr>es_operation_id = ''op'', es_observed = sample_observed\<rparr>"

definition sample_files :: supervisor where
  "sample_files = \<lparr>sv_fs = [([''w''], NDir), ([''w'', ''f''], NFile ''hello'')], sv_records = [], sv_now = 0, sv_uuids = 0\<rparr>"

definition sample_prepared_edit :: prepared_edit where
  "sample_prepared_edit = \<lparr>pe_state = sample_edit_state, pe_content = ''heLLo'', pe_replacements = 1\<rparr>"

lemma sample_files_ok: "sup_ok sample_env (sample_files\<lparr>sv_now := n\<rparr>)"
proof -
  have "roots_ok sample_resolver (sv_fs sample_files)"
    by (auto simp: roots_ok_def sample_resolver_def dir_path_def sample_files_def node_at_def prefix_Cons)
  moreover have "fs_wf (sv_fs sample_files)" by (auto simp: fs_wf_def sample_files_def node_at_def split: if_splits)
  moreover have "plain_fs (sv_fs sample_files)" by (auto simp: plain_fs_def sample_files_def node_at_def u64_max_def split: if_splits)
  moreover have "separate_roots sample_resolver" by (auto simp: separate_roots_def sample_resolver_def split: if_splits)
  ultimately show ?thesis by (simp add: sup_ok_def sup_inv_def sample_env_def u64_max_def)
qed

lemma sample_edit_stat:
  "sup_stat sample_env sample_ctx \<lparr>stat_path = \<lparr>root_id = ''work'', path = ''f''\<rparr>, stat_follow_symlinks = True\<rparr> (sample_files\<lparr>sv_now := Suc 0\<rparr>) =
     (Inr \<lparr>meta_path = \<lparr>root_id = ''work'', path = ''f''\<rparr>, kind = File, file_size = 5, modified_at = None, revision = Some ''xhello''\<rparr>,
      sample_files\<lparr>sv_now := 2\<rparr>)"
  unfolding sample_env_def sample_ctx_def sample_files_def by code_simp

lemma sample_edit_write:
  "\<exists>w s'. sup_write sample_env sample_ctx (write_request ''op'' \<lparr>root_id = ''work'', path = ''f''\<rparr> ''heLLo'' (MatchRevision ''xhello''))
     (sample_files\<lparr>sv_now := 2\<rparr>) = (Inr w, s') \<and> written_path w = \<lparr>root_id = ''work'', path = ''f''\<rparr> \<and> existed w \<and> bytes_written w = 5"
proof -
  have "sup_write sample_env sample_ctx (write_request ''op'' \<lparr>root_id = ''work'', path = ''f''\<rparr> ''heLLo'' (MatchRevision ''xhello''))
     (sample_files\<lparr>sv_now := 2\<rparr>) =
     (Inr \<lparr>written_path = \<lparr>root_id = ''work'', path = ''f''\<rparr>, existed = True, written_revision = ''xheLLo'', bytes_written = 5\<rparr>,
       snd (sup_write sample_env sample_ctx (write_request ''op'' \<lparr>root_id = ''work'', path = ''f''\<rparr> ''heLLo'' (MatchRevision ''xhello''))
     (sample_files\<lparr>sv_now := 2\<rparr>)))"
    unfolding sample_env_def sample_ctx_def sample_files_def by code_simp
  then show ?thesis by (metis write_file_result.select_convs)
qed

definition sample_file_reply :: read_file_result where
  "sample_file_reply = \<lparr>metadata = \<lparr>meta_path = \<lparr>root_id = ''work'', path = ''f''\<rparr>, kind = File, file_size = 5,
       modified_at = None, revision = Some ''xhello''\<rparr>, read_data = ''hello'', result_offset = 0, read_eof = True\<rparr>"

lemma sample_edit_read:
  "sup_read sample_env sample_ctx \<lparr>read_path = \<lparr>root_id = ''work'', path = ''f''\<rparr>, read_offset = 0, max_bytes = 5,
        read_follow_symlinks = True\<rparr> (sample_files\<lparr>sv_now := 4\<rparr>) = (Inr sample_file_reply, sample_files\<lparr>sv_now := 7\<rparr>)"
proof -
  let ?s = "sample_files\<lparr>sv_now := 4\<rparr>" and ?rq = "\<lparr>read_path = \<lparr>root_id = ''work'', path = ''f''\<rparr>, read_offset = 0, max_bytes = 5,
        read_follow_symlinks = True\<rparr>"
  have "resolve_existing (resolver sample_env) (sv_fs ?s) \<lparr>root_id = ''work'', path = ''f''\<rparr> True = Inr [''w'', ''f'']"
    unfolding sample_env_def sample_files_def by code_simp
  moreover have "read_contents_of (sv_fs ?s) [''w'', ''f''] = Inr ''hello''" "metadata_of (sv_fs ?s) [''w'', ''f''] = Inr (NFile ''hello'')"
    unfolding sample_files_def by code_simp+
  ultimately have "read_open sample_env (sv_fs ?s) ?rq = Inr ([''w'', ''f''], ''hello'')"
    by (simp add: read_open_def rbind_def native_def)
  moreover have "read_file_validate ?rq = Inr ()" by code_simp
  moreover have "hash_bytes sample_env ''hello'' = Inr ''xhello''" unfolding sample_env_def by code_simp
  ultimately show ?thesis
    by (simp add: sup_read_def io_bind_def io_lift_def sup_checkpoint_def checkpoint_def sample_ctx_def sample_files_def
        validated_def guard_def sample_env_def read_scan.simps sample_file_reply_def
        buffer_bytes_def Let_def window_part_def sat_add_def u64_max_def read_reply_def rbind_def)
qed

lemma sample_edit_checks:
  "check_edit_input sample_edit_tool sample_edit_input sample_edit_state = Inr ()"
  "validate_observation sample_edit_tool sample_observed = Inr ()"
  by code_simp+

lemma sample_clock: "sup_checkpoint sample_ctx s = (Inr (), s\<lparr>sv_now := sv_now s + 1\<rparr>)"
  by (simp add: sup_checkpoint_def checkpoint_def sample_ctx_def)

lemma supervisor_runtime_simps:
  "rt_descriptor (supervisor_runtime env host ctx) = host" "rt_checkpoint (supervisor_runtime env host ctx) = sup_checkpoint ctx"
  "rt_stat (supervisor_runtime env host ctx) = sup_stat env ctx" "rt_read (supervisor_runtime env host ctx) = sup_read env ctx"
  "rt_write (supervisor_runtime env host ctx) = sup_write env ctx"
  by (simp_all add: supervisor_runtime_def)

lemma sample_edit_contents:
  "edit_read (supervisor_runtime sample_env sample_host sample_ctx) sample_observed (et_config sample_edit_tool) (sample_files\<lparr>sv_now := Suc 0\<rparr>) =
     (Inr ''hello'', sample_files\<lparr>sv_now := 8\<rparr>)"
proof -
  have "accept_edit_chunk sample_observed 5 0 5 sample_file_reply = Inr (''hello'', True)"
    by (simp add: accept_edit_chunk_def sample_observed_def sample_file_reply_def checked_add_def u64_max_def)
  moreover have "utf8_valid ''hello''" by code_simp
  moreover have "edit_chunk_limit (supervisor_runtime sample_env sample_host sample_ctx) (et_config sample_edit_tool) = 7"
    by (simp add: edit_chunk_limit_def supervisor_runtime_def sample_host_def sample_edit_tool_def u64_max_def)
  moreover have "check_observed (et_config sample_edit_tool) sample_observed \<lparr>meta_path = \<lparr>root_id = ''work'', path = ''f''\<rparr>, kind = File,
      file_size = 5, modified_at = None, revision = Some ''xhello''\<rparr> = Inr ()" by code_simp
  moreover have "ob_path sample_observed = \<lparr>root_id = ''work'', path = ''f''\<rparr>" by (simp add: sample_observed_def)
  ultimately show ?thesis
    by (simp add: edit_read_def edit_read_loop.simps edit_read_chunk_def io_bind_def io_lift_def sample_edit_stat
        sample_edit_read sample_clock Let_def supervisor_runtime_simps)
qed

lemma sample_edit_prepares:
  "edit_prepare sample_edit_tool sample_edit_input sample_edit_state sample_files = (Inr sample_prepared_edit, sample_files\<lparr>sv_now := 13\<rparr>)"
proof -
  have "str_find ''ll'' ''hello'' = Some 2" "str_find ''ll'' (drop 3 ''hello'') = None" by code_simp+
  then have "find_match ''hello'' ''ll'' False = Inr 2" "match_parts False ''ll'' ''hello'' = [''he'', ''o'']"
    by (simp_all add: find_match_def match_parts_def len_utf8_def byte_in_def numeral_eq_Suc)
  moreover have "edit_limit sample_edit_tool = 8"
    by (simp add: edit_limit_def sample_edit_tool_def supervisor_runtime_simps sample_host_def u64_max_def)
  moreover have "sv_now sample_files = 0" "et_runtime sample_edit_tool = supervisor_runtime sample_env sample_host sample_ctx"
    by (simp_all add: sample_files_def sample_edit_tool_def)
  ultimately show ?thesis
    using sample_edit_checks sample_edit_contents
    by (simp add: edit_prepare_def replace_def Let_def io_bind_def io_lift_def replaced_size_def checked_mul_def checked_sub_def
        checked_add_def u64_max_def sample_edit_input_def sample_edit_state_def sample_prepared_edit_def
        supervisor_runtime_simps sample_clock)
qed

definition sample_writer :: "supervisor write_tool" where
  "sample_writer = \<lparr>wt_runtime = supervisor_runtime sample_env sample_host sample_ctx, wt_cwd = exec_path_root ''work'',
     wt_config = \<lparr>max_content_bytes = 8\<rparr>\<rparr>"

lemma sample_writer_new:
  "write_tool_new (supervisor_runtime sample_env sample_host sample_ctx) (exec_path_root ''work'') \<lparr>max_content_bytes = 8\<rparr> =
     Inr sample_writer"
proof -
  have "validate_cwd sample_host (exec_path_root ''work'') = Inr ()" by code_simp
  then show ?thesis unfolding write_tool_new_def supervisor_runtime_simps by (simp add: sample_writer_def del: validate_cwd_Inr_iff)
qed

lemma sample_writer_executes:
  "\<exists>out s'. write_execute sample_writer \<lparr>wi_file_path = ''f'', wi_content = ''heLLo''\<rparr>
      \<lparr>ws_operation_id = ''op'', ws_observed = Some sample_observed\<rparr> (sample_files\<lparr>sv_now := Suc 0\<rparr>) = (Inr out, s') \<and>
     wo_path out = \<lparr>root_id = ''work'', path = ''f''\<rparr>"
proof -
  obtain w s' where w: "sup_write sample_env sample_ctx (write_request ''op'' \<lparr>root_id = ''work'', path = ''f''\<rparr> ''heLLo'' (MatchRevision ''xhello''))
     (sample_files\<lparr>sv_now := 2\<rparr>) = (Inr w, s')" "written_path w = \<lparr>root_id = ''work'', path = ''f''\<rparr>" "existed w" "bytes_written w = 5"
    using sample_edit_write by blast
  have "write_resolve_path sample_writer ''f'' = Inr \<lparr>root_id = ''work'', path = ''f''\<rparr>" by code_simp
  moreover have "write_limit sample_writer = 8"
    by (simp add: write_limit_def sample_writer_def supervisor_runtime_simps sample_host_def u64_max_def)
  moreover have rt: "wt_runtime sample_writer = supervisor_runtime sample_env sample_host sample_ctx" by (simp add: sample_writer_def)
  ultimately have "write_checks sample_writer \<lparr>wi_file_path = ''f'', wi_content = ''heLLo''\<rparr>
      \<lparr>ws_operation_id = ''op'', ws_observed = Some sample_observed\<rparr> = Inr (\<lparr>root_id = ''work'', path = ''f''\<rparr>, MatchRevision ''xhello'')"
    by (simp add: write_checks_def observed_condition_def supervisor_runtime_simps sample_observed_def sample_host_def)
  with w rt show ?thesis
    by (simp add: write_execute_def io_bind_def io_lift_def io_map_error_def supervisor_runtime_simps sample_clock
        accept_write_def numeral_2_eq_2)
qed

lemma sample_edit_applies:
  "\<exists>out s'. edit_apply sample_edit_tool sample_prepared_edit sample_files = (Inr out, s')"
proof -
  obtain w s' where "write_execute sample_writer \<lparr>wi_file_path = ''f'', wi_content = ''heLLo''\<rparr>
      \<lparr>ws_operation_id = ''op'', ws_observed = Some sample_observed\<rparr> (sample_files\<lparr>sv_now := Suc 0\<rparr>) = (Inr w, s')"
    using sample_writer_executes by blast
  moreover have "sv_now sample_files = 0" "et_runtime sample_edit_tool = supervisor_runtime sample_env sample_host sample_ctx"
      "ec_max_file_bytes (et_config sample_edit_tool) = 8" "ob_path sample_observed = \<lparr>root_id = ''work'', path = ''f''\<rparr>"
    by (simp_all add: sample_files_def sample_edit_tool_def sample_observed_def)
  ultimately show ?thesis
    using sample_edit_checks(2)
    by (simp add: edit_apply_def Let_def io_bind_def io_lift_def sample_prepared_edit_def sample_edit_state_def
        supervisor_runtime_simps sample_clock sample_writer_new)
qed

text \<open>
  C2: an applied edit is based on the contents it replaces. Let an edit be prepared on a supervisor without
  symbolic links and with separate roots, and applied in any later state under an operation
  identifier that is new there. If both succeed, preparing changed nothing; the file then had
  contents in which the old text occurs at the places where the prepared text has the new one,
  leftmost and without overlap, and at exactly one place unless all occurrences are replaced;
  at the moment of the write the file still has the revision of those contents, and the write
  changes this file to the prepared text and no other file.
\<close>

theorem applied_edit_replaces_observed_text:
  assumes "sup_ok env s" and "et_runtime tool = supervisor_runtime env host ctx"
    and "edit_prepare tool input st s = (Inr pe, s1)" and "utf8_valid (ei_old_string input)"
    and "sup_ok env s2" and "et_runtime tool' = supervisor_runtime env host' ctx'"
    and "edit_apply tool' pe s2 = (Inr out, s3)" and "es_operation_id st \<notin> sup_used s2"
  shows "\<exists>c c2 parts. sup_files env s (ob_path (es_observed st)) = Some c \<and> sup_files env s1 = sup_files env s \<and>
     c = join (ei_old_string input) parts \<and> pe_content pe = join (ei_new_string input) parts \<and>
     leftmost (ei_old_string input) parts \<and>
     (\<not> ei_replace_all input \<longrightarrow> (\<exists>i. \<forall>j. occurs_at (ei_old_string input) c j \<longleftrightarrow> j = i)) \<and>
     sup_files env s2 (ob_path (es_observed st)) = Some c2 \<and> sha_hex env c2 = sha_hex env c \<and>
     sup_files env s3 = (sup_files env s2)(ob_path (es_observed st) \<mapsto> pe_content pe)"
proof -
  note p = sup_rev.edit_prepare_result [OF assms(1-4)]
  have st: "pe_state pe = st" using p by simp
  note a = sup_rev.edit_apply_effect [OF assms(5-7), unfolded st, OF assms(8)]
  from p obtain c parts where c: "sup_files env s (ob_path (es_observed st)) = Some c"
      "sha_hex env c = ob_revision (es_observed st)" "c = join (ei_old_string input) parts"
      "pe_content pe = join (ei_new_string input) parts" "leftmost (ei_old_string input) parts"
      "\<not> ei_replace_all input \<longrightarrow> (\<exists>i. \<forall>j. occurs_at (ei_old_string input) c j \<longleftrightarrow> j = i)" by blast
  from a obtain c2 where "sup_files env s2 (ob_path (es_observed st)) = Some c2" "sha_hex env c2 = ob_revision (es_observed st)"
    by blast
  with c p a show ?thesis by (intro exI [of _ c] exI [of _ c2] exI [of _ parts]) simp
qed

theorem applied_edit_replaces_observed_text_witness:
  "\<exists>s3. sup_files sample_env s3 = (sup_files sample_env sample_files)(\<lparr>root_id = ''work'', path = ''f''\<rparr> \<mapsto> ''heLLo'')"
proof -
  obtain out s' where ap: "edit_apply sample_edit_tool sample_prepared_edit sample_files = (Inr out, s')"
    using sample_edit_applies by blast
  have rt: "et_runtime sample_edit_tool = supervisor_runtime sample_env sample_host sample_ctx" by (simp add: sample_edit_tool_def)
  have u: "utf8_valid (ei_old_string sample_edit_input)" by code_simp
  have i: "es_operation_id sample_edit_state \<notin> sup_used sample_files" by (simp add: sup_used_def sample_files_def)
  have ok: "sup_ok sample_env sample_files" using sample_files_ok [of 0] by (simp add: sample_files_def)
  have "ob_path (es_observed sample_edit_state) = \<lparr>root_id = ''work'', path = ''f''\<rparr>" "pe_content sample_prepared_edit = ''heLLo''"
    by (simp_all add: sample_edit_state_def sample_observed_def sample_prepared_edit_def)
  with applied_edit_replaces_observed_text [OF ok rt sample_edit_prepares u ok rt ap i] show ?thesis by auto
qed

text \<open>
  C3: the \<open>write\<close> tool never overwrites contents that its caller has not seen. When a write succeeds on a supervisor
  without symbolic links and with separate roots, under an operation identifier that has not been used, the
  resolved file has exactly the given contents afterwards, no file at another execution path changed, and before
  the write the file did not exist if the caller supplied no observation, or had
  contents with the observed revision if it did.
\<close>

theorem write_replaces_only_observed:
  assumes "sup_ok env s" and "wt_runtime tool = supervisor_runtime env host ctx"
    and "write_execute tool input st s = (Inr out, s')" and "ws_operation_id st \<notin> sup_used s"
  shows "sup_files env s' = (sup_files env s)(wo_path out \<mapsto> wi_content input) \<and>
     (case ws_observed st of
        None \<Rightarrow> sup_files env s (wo_path out) = None \<and> wo_created out
      | Some ob \<Rightarrow> ob_path ob = wo_path out \<and> \<not> wo_created out \<and>
          (\<exists>c. sup_files env s (wo_path out) = Some c \<and> sha_hex env c = ob_revision ob))"
  using sup_rev.write_execute_effect [OF assms] by simp

theorem write_replaces_only_observed_witness:
  "\<exists>s'. sup_files sample_env s' = (sup_files sample_env sample_files)(\<lparr>root_id = ''work'', path = ''f''\<rparr> \<mapsto> ''heLLo'')"
proof -
  obtain out s' where w: "write_execute sample_writer \<lparr>wi_file_path = ''f'', wi_content = ''heLLo''\<rparr>
      \<lparr>ws_operation_id = ''op'', ws_observed = Some sample_observed\<rparr> (sample_files\<lparr>sv_now := Suc 0\<rparr>) = (Inr out, s')"
      "wo_path out = \<lparr>root_id = ''work'', path = ''f''\<rparr>"
    using sample_writer_executes by blast
  have rt: "wt_runtime sample_writer = supervisor_runtime sample_env sample_host sample_ctx" by (simp add: sample_writer_def)
  have i: "ws_operation_id \<lparr>ws_operation_id = ''op'', ws_observed = Some sample_observed\<rparr> \<notin> sup_used (sample_files\<lparr>sv_now := Suc 0\<rparr>)"
    by (simp add: sup_used_def sample_files_def)
  have "sup_files sample_env (sample_files\<lparr>sv_now := Suc 0\<rparr>) = sup_files sample_env sample_files" by (rule sup_files_fs) simp
  with write_replaces_only_observed [OF sample_files_ok rt w(1) i] w(2) show ?thesis by auto
qed

text \<open>
  C4: the \<open>read\<close> tool shows the file as it is. When a read succeeds on a supervisor without symbolic links and with separate
  roots, it changes no file, and the window it returns is the one that the in-memory reader
  \<open>read_text\<close> computes from the current contents of the resolved path, although the file arrives in
  chunks that need not end at line or character boundaries.
\<close>

theorem read_tool_reads_current_file:
  assumes "sup_ok env s" and "rt_runtime tool = supervisor_runtime env host ctx" and "read_execute tool input s = (Inr out, s')"
  shows "sup_files env s' = sup_files env s \<and> (\<exists>c. sup_files env s (ro_path out) = Some c \<and>
     read_source c (Some (case ri_offset input of Some n \<Rightarrow> n | None \<Rightarrow> 1))
       (Some (min (case ri_limit input of Some n \<Rightarrow> n | None \<Rightarrow> rc_max_lines (rt_config tool)) (rc_max_lines (rt_config tool))))
       (rt_config tool) = Inr (ro_window out))"
proof -
  from assms(2,3) obtain s1 p where cp: "rt_checkpoint (supervisor_runtime env host ctx) s = (Inr (), s1)"
      and w: "read_window (supervisor_runtime env host ctx) p (case ri_offset input of Some n \<Rightarrow> n | None \<Rightarrow> 1)
         (min (case ri_limit input of Some n \<Rightarrow> n | None \<Rightarrow> rc_max_lines (rt_config tool)) (rc_max_lines (rt_config tool)))
         (rt_config tool) s1 = (Inr out, s')"
    by (auto simp: read_execute_def Let_def io_bind_Inr_iff split: if_splits)
  note f = sup.checkpoint_frame [OF assms(1) cp]
  from sup.read_window_source [OF conjunct1 [OF f] w] f show ?thesis by auto
qed

definition sample_read_tool :: "supervisor read_tool" where
  "sample_read_tool = \<lparr>rt_runtime = supervisor_runtime sample_env sample_host sample_ctx, rt_cwd = exec_path_root ''work'',
     rt_config = \<lparr>rc_max_lines = 1, rc_max_output_bytes = 300, rc_max_scan_bytes = 50, rc_chunk_bytes = 5\<rparr>\<rparr>"

lemma sample_hello_page:
  "feed_chunk (supervisor_runtime sample_env sample_host sample_ctx) 0 r ''hello'' (sample_files\<lparr>sv_now := 8\<rparr>) = (Inr (Inl r'), sample_files\<lparr>sv_now := 9\<rparr>) \<Longrightarrow>
   finish_reader r' False = Inr w \<Longrightarrow> line_reader_new 1 1 (rt_config sample_read_tool) = Inr r \<Longrightarrow>
   \<exists>out. read_execute sample_read_tool \<lparr>ri_file_path = ''f'', ri_offset = None, ri_limit = None\<rparr> sample_files = (Inr out, sample_files\<lparr>sv_now := 9\<rparr>) \<and>
     ro_path out = \<lparr>root_id = ''work'', path = ''f''\<rparr> \<and> ro_window out = w"
proof -
  assume fc: "feed_chunk (supervisor_runtime sample_env sample_host sample_ctx) 0 r ''hello'' (sample_files\<lparr>sv_now := 8\<rparr>) = (Inr (Inl r'), sample_files\<lparr>sv_now := 9\<rparr>)"
    and fr: "finish_reader r' False = Inr w" and r: "line_reader_new 1 1 (rt_config sample_read_tool) = Inr r"
  have "resolve_path sample_host (rt_cwd sample_read_tool) ''f'' = Inr \<lparr>root_id = ''work'', path = ''f''\<rparr>" by code_simp
  moreover have "accept_read_chunk \<lparr>root_id = ''work'', path = ''f''\<rparr> (metadata sample_file_reply) ''xhello'' 0 5 sample_file_reply = Inr (''hello'', True)"
    by (simp add: accept_read_chunk_def sample_file_reply_def checked_add_def u64_max_def)
  moreover have "sv_now sample_files = 0" "rt_runtime sample_read_tool = supervisor_runtime sample_env sample_host sample_ctx"
      "rc_max_lines (rt_config sample_read_tool) = 1" "rc_chunk_bytes (rt_config sample_read_tool) = 5" "rc_max_scan_bytes (rt_config sample_read_tool) = 50"
      "max_read_bytes (limits sample_host) = None" "min 5 u64_max = 5"
      "metadata sample_file_reply = \<lparr>meta_path = \<lparr>root_id = ''work'', path = ''f''\<rparr>, kind = File, file_size = 5, modified_at = None, revision = Some ''xhello''\<rparr>"
    by (simp_all add: sample_files_def sample_read_tool_def sample_host_def u64_max_def sample_file_reply_def)
  moreover have "check_read_target \<lparr>root_id = ''work'', path = ''f''\<rparr> \<lparr>meta_path = \<lparr>root_id = ''work'', path = ''f''\<rparr>, kind = File,
      file_size = 5, modified_at = None, revision = Some ''xhello''\<rparr> = Inr ''xhello''" by code_simp
  ultimately show ?thesis
    using fc fr r
    by (simp add: read_execute_def read_window_def window_loop.simps fetch_chunk_def io_bind_def io_lift_def Let_def
        supervisor_runtime_simps sample_clock sample_edit_stat sample_edit_read del: feed_chunk.simps)
qed

theorem read_tool_reads_current_file_witness:
  "\<exists>w. sup_files sample_env sample_files \<lparr>root_id = ''work'', path = ''f''\<rparr> = Some ''hello'' \<and>
     read_source ''hello'' (Some 1) (Some 1) (rt_config sample_read_tool) = Inr w"
proof -
  let ?r = "\<lambda>line. \<lparr>lr_output = \<lparr>tx_content = [], tx_start_line = 1, tx_end_line = None, tx_eof = False,
      tx_truncation = None, tx_next_offset = None\<rparr>, lr_limit = 1, lr_budget = 44, lr_number = 1, lr_line = line, lr_rendered = 0\<rparr>"
  have new: "line_reader_new 1 1 (rt_config sample_read_tool) = Inr (?r [])"
    by (simp add: line_reader_new_def sample_read_tool_def FOOTER_RESERVE_def)
  have w: "line_width 1 = 7" by code_simp
  have fc: "feed_chunk (supervisor_runtime sample_env sample_host sample_ctx) 0 (?r []) ''hello'' (sample_files\<lparr>sv_now := 8\<rparr>) =
      (Inr (Inl (?r ''hello'')), sample_files\<lparr>sv_now := 9\<rparr>)"
    using w by (simp add: feed_def next_line_def line_limit_reached_def Let_def io_bind_def io_lift_def supervisor_runtime_simps sample_clock)
  have "utf8_valid ''hello''" by code_simp
  then obtain out where fin: "finish_reader (?r ''hello'') False = Inr out"
    by (simp add: finish_reader_def append_line_def ends_with_iff del: utf8_valid.simps)
  from sample_hello_page [OF fc fin new] obtain o' where o': "read_execute sample_read_tool \<lparr>ri_file_path = ''f'', ri_offset = None, ri_limit = None\<rparr> sample_files =
      (Inr o', sample_files\<lparr>sv_now := 9\<rparr>)" "ro_path o' = \<lparr>root_id = ''work'', path = ''f''\<rparr>" by blast
  have ok: "sup_ok sample_env sample_files" using sample_files_ok [of 0] by (simp add: sample_files_def)
  have rt: "rt_runtime sample_read_tool = supervisor_runtime sample_env sample_host sample_ctx"
    and ml: "rc_max_lines (rt_config sample_read_tool) = 1" by (simp_all add: sample_read_tool_def)
  have c: "sup_files sample_env sample_files \<lparr>root_id = ''work'', path = ''f''\<rparr> = Some ''hello''"
    unfolding sample_env_def sample_files_def by code_simp
  from read_tool_reads_current_file [OF ok rt o'(1)] o'(2) c ml show ?thesis by auto
qed

end
