(* ===== verification/Remote_Hosts.thy ===== *)
theory Remote_Hosts
  imports Gateway_Http Edit_Supervisor Bash_Supervisor
begin

text \<open>
  A host behind the gateway keeps the contracts of the host itself. A call reaches the dispatcher
  of the host or it does not, and its answer may be lost on the way back; either way a call that returns a value has been carried
  out once, and its value is the value of the host's own operation.
\<close>

section \<open>Relayed hosts\<close>

text \<open>The effect on a host of an operation \<open>m\<close> that is called from afar: none, a checkpoint, or a checkpoint and the operation.\<close>

definition relayed :: "('h, unit) io \<Rightarrow> ('h, 'a) io \<Rightarrow> 'h \<Rightarrow> 'a exec_result \<Rightarrow> 'h \<Rightarrow> bool" where
  "relayed ck m h res h' \<longleftrightarrow> h' = h \<and> isl res \<or> (\<exists>e. ck h = (Inl e, h')) \<and> isl res \<or>
     (\<exists>h1 y. ck h = (Inr (), h1) \<and> m h1 = (y, h') \<and> (\<forall>v. res = Inr v \<longrightarrow> y = Inr v))"

lemma relayed_Inr: "relayed ck m h (Inr v) h' \<Longrightarrow> \<exists>h1. ck h = (Inr (), h1) \<and> m h1 = (Inr v, h')"
  by (auto simp: relayed_def)

lemma relayed_cases:
  assumes "relayed ck m h res h'"
  obtains "h' = h" | e where "ck h = (Inl e, h')" | h1 y where "ck h = (Inr (), h1)" and "m h1 = (y, h')"
  using assms by (auto simp: relayed_def)

locale relayed_host =
  fixes g :: "'s gateway_host"
    and host :: "'s \<Rightarrow> 'h"
    and rt :: "'h runtime"
    and pr :: "'h process_runtime"
  assumes client_checkpoint: "gc_checkpoint (gh_client g) s = (x, s') \<Longrightarrow> host s' = host s"
    and post_relays: "gc_post (gh_client g) (gh_host_id g) q s = (out, s') \<Longrightarrow>
        host s' = host s \<and> isl (accept_response (gh_client g) q out) \<or>
        (\<exists>y. dispatch_request rt pr q (host s) = (y, host s') \<and>
          (\<forall>v. accept_response (gh_client g) q out = Inr v \<longrightarrow> y = Inr (response_success (rq_request_id q) v)))"
begin

lemma call_effect:
  assumes "gateway_call g op s = (res, s')"
  shows "host s' = host s \<and> isl res \<or> (\<exists>y. dispatch_operation rt pr op (host s) = (y, host s') \<and> (\<forall>v. res = Inr v \<longrightarrow> y = Inr v))"
  using assms unfolding gateway_call_def client_call_def
proof (cases rule: io_bindE)
  case (failed e)
  then show ?thesis using client_checkpoint by simp
next
  case (bound u s1)
  note s1 = client_checkpoint [OF bound(1)]
  from bound(2) show ?thesis
  proof (cases rule: io_bindE)
    case (failed e)
    then show ?thesis using s1 by simp
  next
    case (bound v s2)
    let ?q = "request_envelope_new (gc_request_id (gh_client g) s1) op"
    obtain out s3 where p: "gc_post (gh_client g) (gh_host_id g) ?q s1 = (out, s3)" by force
    have r: "s' = s3" "res = (case gc_interrupted (gh_client g) s1 of Some e \<Rightarrow> Inl (Fail e) | None \<Rightarrow> accept_response (gh_client g) ?q out)"
      using bound p by (auto simp: within_context_def client_send_def split: option.splits)
    then have acc: "res = Inr v \<Longrightarrow> accept_response (gh_client g) ?q out = Inr v" for v by (auto split: option.splits)
    from post_relays [OF p] show ?thesis
    proof (elim disjE conjE exE)
      assume "host s3 = host s1" "isl (accept_response (gh_client g) ?q out)"
      with r s1 show ?thesis by (auto split: option.splits)
    next
      fix y assume d: "dispatch_request rt pr ?q (host s1) = (y, host s3)"
        and a: "\<forall>v. accept_response (gh_client g) ?q out = Inr v \<longrightarrow> y = Inr (response_success (rq_request_id ?q) v)"
      obtain z h' where z: "dispatch_operation rt pr op (host s1) = (z, h')" by force
      then have h': "h' = host s3" "\<And>v. y = Inr (response_success (rq_request_id ?q) v) \<Longrightarrow> z = Inr v"
        using d by (auto simp: dispatch_request_def request_envelope_new_def response_success_def response_error_def split: sum.splits fail.splits)
      with z acc a r s1 show ?thesis by auto
    qed
  qed
qed

lemma calling_effect:
  assumes "calling g op ext s = (res, s')" and "dispatch_to rt pr op = io_map C m" and "\<And>r v. ext r = Inr v \<Longrightarrow> \<exists>x. r = C x"
    and "\<And>x v. ext (C x) = Inr v \<Longrightarrow> v = x"
  shows "host s' = host s \<and> isl res \<or>
    (\<exists>e. rt_checkpoint rt (host s) = (Inl e, host s')) \<and> isl res \<or>
    (\<exists>h1 y. rt_checkpoint rt (host s) = (Inr (), h1) \<and> m h1 = (y, host s') \<and> (\<forall>v. res = Inr v \<longrightarrow> y = Inr v))"
proof -
  obtain r1 where c: "gateway_call g op s = (r1, s')" and r: "\<And>v. res = Inr v \<Longrightarrow> \<exists>x. r1 = Inr x \<and> ext x = Inr v"
    using assms(1) by (auto simp: calling_def io_bind_def split: prod.splits sum.splits)
  from call_effect [OF c] show ?thesis
  proof (elim disjE conjE exE)
    assume "host s' = host s" "isl r1"
    with r show ?thesis by (cases res) auto
  next
    fix y assume d: "dispatch_operation rt pr op (host s) = (y, host s')" and y: "\<forall>v. r1 = Inr v \<longrightarrow> y = Inr v"
    from d show ?thesis unfolding dispatch_operation_def
    proof (cases rule: io_bindE)
      case (failed e)
      with y r show ?thesis by (cases res) auto
    next
      case (bound u h1)
      from bound(2) show ?thesis
      proof (cases rule: io_bindE)
        case (failed e)
        with bound(1) y r show ?thesis by (cases res) auto
      next
        case (bound w h2)
        obtain z h3 where z: "m h2 = (z, h3)" by force
        have h3: "h3 = host s'" "y = Inr a \<Longrightarrow> \<exists>x. z = Inr x \<and> a = C x" for a
          using bound(2) z unfolding assms(2) by (auto simp: io_map_def io_bind_def split: sum.splits)
        have "z = Inr v" if rv: "res = Inr v" for v
        proof -
          obtain x where "y = Inr x" "ext x = Inr v" using r [OF rv] y by blast
          moreover from this h3(2) obtain a where "z = Inr a" "x = C a" by blast
          ultimately show ?thesis using assms(4) by blast
        qed
        with z h3(1) bound(1) \<open>io_lift _ _ = (Inr u, h1)\<close> show ?thesis by auto
      qed
    qed
  qed
qed

lemma calling_relayed:
  assumes "calling g op ext s = (res, s')" and "dispatch_to rt pr op = io_map C m" and "\<And>r v. ext r = Inr v \<Longrightarrow> \<exists>x. r = C x"
    and "\<And>x v. ext (C x) = Inr v \<Longrightarrow> v = x"
  shows "relayed (rt_checkpoint rt) m (host s) res (host s')"
  using calling_effect [OF assms] by (simp add: relayed_def)

lemma remote_stat: "rt_stat (gateway_runtime g) q s = (res, s') \<Longrightarrow> relayed (rt_checkpoint rt) (rt_stat rt q) (host s) res (host s')"
  unfolding gateway_runtime_def runtime.simps
  by (erule calling_relayed [OF _ dispatch_to.simps(2)]) (auto simp: expect_result_def split: operation_result.splits option.splits)

lemma remote_read: "rt_read (gateway_runtime g) q s = (res, s') \<Longrightarrow> relayed (rt_checkpoint rt) (rt_read rt q) (host s) res (host s')"
  unfolding gateway_runtime_def runtime.simps
  by (erule calling_relayed [OF _ dispatch_to.simps(3)]) (auto simp: expect_result_def split: operation_result.splits option.splits)

lemma remote_write: "rt_write (gateway_runtime g) q s = (res, s') \<Longrightarrow> relayed (rt_checkpoint rt) (rt_write rt q) (host s) res (host s')"
  unfolding gateway_runtime_def runtime.simps
  by (erule calling_relayed [OF _ dispatch_to.simps(4)]) (auto simp: expect_result_def split: operation_result.splits option.splits)

lemma remote_remove: "rt_remove (gateway_runtime g) q s = (res, s') \<Longrightarrow> relayed (rt_checkpoint rt) (rt_remove rt q) (host s) res (host s')"
  unfolding gateway_runtime_def runtime.simps
  by (erule calling_relayed [OF _ dispatch_to.simps(6)]) (auto simp: expect_result_def split: operation_result.splits option.splits)

lemma remote_process_read: "pr_read (gateway_processes g) q s = (res, s') \<Longrightarrow> relayed (rt_checkpoint rt) (pr_read pr q) (host s) res (host s')"
  unfolding gateway_processes_def process_runtime.simps
  by (erule calling_relayed [OF _ dispatch_to.simps(9)]) (auto simp: expect_result_def split: operation_result.splits option.splits)

end

section \<open>Contracts through the gateway\<close>

locale relayed_files = relayed_host g host rt pr + revision_host rt files used ok rev
  for g :: "'s gateway_host" and host :: "'s \<Rightarrow> 'h" and rt pr files used ok rev

sublocale relayed_files \<subseteq> remote: revision_host "gateway_runtime g" "\<lambda>s. files (host s)" "\<lambda>s. used (host s)" "\<lambda>s. ok (host s)" rev
proof (unfold_locales, goal_cases)
  case (1 h x h')
  then show ?case using client_checkpoint by (simp add: gateway_runtime_def)
next
  case (2 h q y h')
  from remote_stat [OF 2(2)] show ?case
    by (rule relayed_cases) (use 2(1) checkpoint_frame stat_frame in \<open>metis+\<close>)
next
  case (3 h rq z h')
  from remote_read [OF 3(2)] show ?case
    by (rule relayed_cases) (use 3(1) checkpoint_frame read_frame in \<open>metis+\<close>)
next
  case (4 h q m h')
  from relayed_Inr [OF remote_stat [OF 4(2)]] 4 checkpoint_frame stat_file show ?case by metis
next
  case (5 h rq reply h')
  from relayed_Inr [OF remote_read [OF 5(2)]] 5 checkpoint_frame read_contents show ?case by metis
next
  case (6 h wq w h')
  from relayed_Inr [OF remote_write [OF 6(2)]] 6 checkpoint_frame write_effect show ?case by metis
next
  case (7 h dq h')
  from relayed_Inr [OF remote_remove [OF 7(2)]] 7 checkpoint_frame remove_effect show ?case by metis
next
  case (8 h wq v h')
  from remote_write [OF 8(3)] show ?case
    by (rule relayed_cases) (use 8(1,2) checkpoint_frame write_replay in \<open>metis+\<close>)
next
  case (9 h dq u h')
  from remote_remove [OF 9(3)] show ?case
    by (rule relayed_cases) (use 9(1,2) checkpoint_frame remove_replay in \<open>metis+\<close>)
next
  case (10 h q m h' c)
  from relayed_Inr [OF remote_stat [OF 10(2)]] 10 checkpoint_frame stat_revision show ?case by metis
next
  case (11 h rq reply h' c)
  from relayed_Inr [OF remote_read [OF 11(2)]] 11 checkpoint_frame read_revision show ?case by metis
next
  case (12 h wq w h')
  from relayed_Inr [OF remote_write [OF 12(2)]] 12 checkpoint_frame replace_effect show ?case by metis
next
  case (13 h wq w h')
  obtain h1 where c: "rt_checkpoint rt (host h) = (Inr (), h1)" "rt_write rt wq h1 = (Inr w, host h')"
    using relayed_Inr [OF remote_write [OF 13(2)]] by blast
  note f = checkpoint_frame [OF 13(1) c(1)]
  then have e: "files h1 = files (host h)" "used h1 = used (host h)" by simp_all
  from replace_condition [OF conjunct1 [OF f] c(2) 13(3,4), unfolded e, OF 13(5)] show ?case .
qed

locale relayed_processes = relayed_host g host rt pr + process_host pr log ok prompt final status
  for g :: "'s gateway_host" and host :: "'s \<Rightarrow> 'h" and rt pr log ok prompt final status +
  assumes same_checkpoint: "rt_checkpoint rt = pr_checkpoint pr"

sublocale relayed_processes \<subseteq> remote: process_host "gateway_processes g" "\<lambda>s. log (host s)" "\<lambda>s. ok (host s)" "\<lambda>s. prompt (host s)"
  "\<lambda>s. final (host s)" "\<lambda>s. status (host s)"
proof (unfold_locales, goal_cases)
  case (1 h x h')
  then show ?case using client_checkpoint by (simp add: gateway_processes_def)
next
  case (2 h q y h' i)
  from remote_process_read [OF 2(2), unfolded same_checkpoint] show ?case
  proof (rule relayed_cases)
    assume "host h' = host h"
    with 2(1) show ?case by simp
  next
    fix e assume "pr_checkpoint pr (host h) = (Inl e, host h')"
    from checkpoint_frame [OF 2(1) this] show ?case by simp
  next
    fix h1 z assume c: "pr_checkpoint pr (host h) = (Inr (), h1)" "pr_read pr q h1 = (z, host h')"
    note f = checkpoint_frame [OF 2(1) c(1)]
    from read_grows [OF conjunct1 [OF f] c(2), of i] f show ?case by simp
  qed
next
  case (3 h q r h')
  obtain h1 where c: "pr_checkpoint pr (host h) = (Inr (), h1)" "pr_read pr q h1 = (Inr r, host h')"
    using relayed_Inr [OF remote_process_read [OF 3(2), unfolded same_checkpoint]] by blast
  note f = checkpoint_frame [OF 3(1) c(1)]
  then have e: "log h1 = log (host h)" "prompt h1 = prompt (host h)" by simp_all
  from read_events [OF conjunct1 [OF f] c(2), unfolded e, OF 3(3,4)] show ?case .
next
  case (4 h i)
  then show ?case by (rule log_late)
qed

section \<open>The path through the gateway\<close>

text \<open>
  Cutting a body into pieces, and a JSON codec of responses that the decoder inverts.
\<close>

fun pieces :: "nat list \<Rightarrow> string \<Rightarrow> string list" where
  "pieces [] s = [s]"
| "pieces (n # ns) s = take n s # pieces ns (drop n s)"

lemma concat_pieces [simp]: "concat (pieces ns s) = s"
  by (induction ns arbitrary: s) simp_all

typedef response_codec = "{(enc, dec). json_faithful enc (dec :: string \<Rightarrow> string + response_envelope)}"
  by (rule exI [of _ "(\<lambda>_. Inl [], \<lambda>_. Inl [])"]) (simp add: json_faithful_def)

definition encode_response :: "response_codec \<Rightarrow> response_envelope \<Rightarrow> string + string" where
  "encode_response rc = fst (Rep_response_codec rc)"

definition decode_response :: "response_codec \<Rightarrow> string \<Rightarrow> string + response_envelope" where
  "decode_response rc = snd (Rep_response_codec rc)"

lemma decode_encode: "encode_response rc r = Inr s \<Longrightarrow> decode_response rc s = Inr r"
  using Rep_response_codec [of rc] by (auto simp: encode_response_def decode_response_def json_faithful_def)

text \<open>
  The behaviour of the path, one answer for each call: whether the request arrives, whether the host is ready, whether its connection
  forwards the request and brings a response back, and whether and how the reply arrives.
\<close>

datatype forwarding = NotForwarded host_connection_error | Unanswered host_connection_error | Forwarded

record relay_link =
  lk_host :: string
  lk_descriptor :: host_descriptor
  lk_codec :: response_codec
  lk_encode_error :: "gateway_http_error \<Rightarrow> string"
  lk_decode_error :: "string \<Rightarrow> api_error option"
  lk_uuid :: "string \<Rightarrow> string option"
  lk_max_response_bytes :: nat
  lk_token :: string
  lk_header :: "string option"
  lk_client :: "string option"
  lk_clock :: "nat \<Rightarrow> nat"
  lk_checkpoint :: "nat \<Rightarrow> exec_error option"
  lk_interrupted :: "nat \<Rightarrow> exec_error option"
  lk_request_id :: "nat \<Rightarrow> string"
  lk_request_lost :: "nat \<Rightarrow> transport_failure option"
  lk_permit :: "nat \<Rightarrow> bool"
  lk_row :: "nat \<Rightarrow> unit + (execution_host_state \<times> desired_host_state) option"
  lk_forwarding :: "nat \<Rightarrow> forwarding"
  lk_reply_lost :: "nat \<Rightarrow> transport_failure option"
  lk_cuts :: "nat \<Rightarrow> nat list"
  lk_broken :: "nat \<Rightarrow> (nat \<times> transport_failure) option"
  lk_reply_id :: "nat \<Rightarrow> string"

record 'h relay =
  rl_host :: 'h
  rl_calls :: nat
  rl_security :: security_controls

text \<open>The connection of a registered host: the daemon dispatches a request that it gets.\<close>

definition registered_execute :: "relay_link \<Rightarrow> nat \<Rightarrow> 'h runtime \<Rightarrow> 'h process_runtime \<Rightarrow> request_envelope \<Rightarrow> 'h relay \<Rightarrow>
    (host_connection_error + response_envelope) \<times> 'h relay" where
  "registered_execute lk n rt pr q s = (case lk_forwarding lk n of
     NotForwarded e \<Rightarrow> (Inl e, s)
   | Unanswered e \<Rightarrow> (Inl e, s\<lparr>rl_host := snd (dispatch_request rt pr q (rl_host s))\<rparr>)
   | Forwarded \<Rightarrow> (case dispatch_request rt pr q (rl_host s) of
        (Inr r, h) \<Rightarrow> (Inr r, s\<lparr>rl_host := h\<rparr>)
      | (Inl _, h) \<Rightarrow> (Inl HostTimeout, s\<lparr>rl_host := h\<rparr>)))"

definition registered_world :: "relay_link \<Rightarrow> nat \<Rightarrow> operation_world" where
  "registered_world lk n = \<lparr>ow_permit = lk_permit lk n,
     ow_read = (case lk_row lk n of
        Inl u \<Rightarrow> Inl u
      | Inr x \<Rightarrow> Inr (map_option (\<lambda>(a, d). \<lparr>hw_kind = RegisteredHost, hw_state = a, hw_desired = d\<rparr>) x)),
     ow_resume_recorded = True, ow_now = 0, ow_reads = []\<rparr>"

definition reply_chunks :: "relay_link \<Rightarrow> nat \<Rightarrow> string \<Rightarrow> (transport_failure + string) list" where
  "reply_chunks lk n body = (case lk_broken lk n of
     None \<Rightarrow> map Inr (pieces (lk_cuts lk n) body)
   | Some (k, f) \<Rightarrow> map Inr (take k (pieces (lk_cuts lk n) body)) @ [Inl f])"

definition http_reply :: "relay_link \<Rightarrow> nat \<Rightarrow> gateway_http_error + response_envelope \<Rightarrow> http_outcome" where
  "http_reply lk n x = (case lk_reply_lost lk n of
     Some f \<Rightarrow> Inl f
   | None \<Rightarrow> Inr (case x of
        Inl e \<Rightarrow> \<lparr>hr_status = ge_status e, hr_request_id = Some (lk_reply_id lk n), hr_content_length = None,
          hr_chunks = reply_chunks lk n (lk_encode_error lk e)\<rparr>
      | Inr r \<Rightarrow> (case encode_response (lk_codec lk) r of
           Inl m \<Rightarrow> \<lparr>hr_status = 500, hr_request_id = Some (lk_reply_id lk n), hr_content_length = None, hr_chunks = reply_chunks lk n m\<rparr>
         | Inr body \<Rightarrow> \<lparr>hr_status = 200, hr_request_id = Some (lk_reply_id lk n), hr_content_length = Some (length body),
             hr_chunks = reply_chunks lk n body\<rparr>)))"

definition relay_post :: "relay_link \<Rightarrow> 'h runtime \<Rightarrow> 'h process_runtime \<Rightarrow> string \<Rightarrow> request_envelope \<Rightarrow> 'h relay \<Rightarrow> http_outcome \<times> 'h relay" where
  "relay_post lk rt pr hst q s =
     (let n = rl_calls s; s1 = s\<lparr>rl_calls := n + 1\<rparr> in
      case lk_request_lost lk n of
        Some f \<Rightarrow> (Inl f, s1)
      | None \<Rightarrow> (case authorize (lk_token lk) (lk_header lk) (lk_clock lk n) (lk_client lk) (rl_security s1) of
           (Inl e, sc) \<Rightarrow> (http_reply lk n (Inl e), s1\<lparr>rl_security := sc\<rparr>)
         | (Inr _, sc) \<Rightarrow>
             (case execute_operation (registered_world lk n) (registered_execute lk n rt pr q) (\<lambda>t. (Inl database_error, t)) (s1\<lparr>rl_security := sc\<rparr>) of
                None \<Rightarrow> (Inl \<lparr>tf_timeout = True, tf_connect = False\<rparr>, s1\<lparr>rl_security := sc\<rparr>)
              | Some (x, s2) \<Rightarrow> (http_reply lk n x, s2))))"

definition relayed_gateway :: "relay_link \<Rightarrow> 'h runtime \<Rightarrow> 'h process_runtime \<Rightarrow> 'h relay gateway_host" where
  "relayed_gateway lk rt pr = \<lparr>gh_client =
      \<lparr>gc_checkpoint = (\<lambda>s. (case lk_checkpoint lk (rl_calls s) of Some e \<Rightarrow> Inl (Fail e) | None \<Rightarrow> Inr (), s)),
       gc_interrupted = (\<lambda>s. lk_interrupted lk (rl_calls s)), gc_request_id = (\<lambda>s. lk_request_id lk (rl_calls s)), gc_uuid = lk_uuid lk,
       gc_post = relay_post lk rt pr, gc_decode = decode_response (lk_codec lk), gc_decode_error = lk_decode_error lk,
       gc_max_response_bytes = lk_max_response_bytes lk\<rparr>,
     gh_host_id = lk_host lk, gh_descriptor = lk_descriptor lk\<rparr>"

subsection \<open>The path relays\<close>

lemma collect_body_Inr: "collect_body limit bytes cs = Inr b \<Longrightarrow> \<exists>ps. cs = map Inr ps \<and> b = bytes @ concat ps"
proof (induction limit bytes cs rule: collect_body.induct)
  case (3 limit bytes chunk cs)
  then obtain ps where "cs = map Inr ps" "b = (bytes @ chunk) @ concat ps" by (auto split: if_splits)
  then show ?case by (intro exI [of _ "chunk # ps"]) simp
qed simp_all

lemma reply_chunks_body:
  assumes "collect_body limit [] (reply_chunks lk n body) = Inr b"
  shows "b = body"
proof (cases "lk_broken lk n")
  case None
  from collect_body_Inr [OF assms] obtain ps where ps: "reply_chunks lk n body = map Inr ps" "b = concat ps" by auto
  from ps(1) None have "map Inr (pieces (lk_cuts lk n) body) = map Inr ps" by (simp add: reply_chunks_def)
  then have "pieces (lk_cuts lk n) body = ps" by (rule map_injective) (simp add: inj_def)
  with ps(2) show ?thesis by (metis concat_pieces)
next
  case (Some kf)
  from collect_body_Inr [OF assms] obtain ps where ps: "reply_chunks lk n body = map Inr ps" by auto
  have "Inl (snd kf) \<in> set (reply_chunks lk n body)" using Some by (cases kf) (simp add: reply_chunks_def)
  with ps show ?thesis by auto
qed

lemma refused_reply:
  assumes "400 \<le> ge_status e"
  shows "isl (accept_response c q (http_reply lk n (Inl e)))"
proof (cases "lk_reply_lost lk n")
  case None
  then show ?thesis using assms
    by (cases "collect_body (gc_max_response_bytes c) [] (reply_chunks lk n (lk_encode_error lk e))")
      (simp_all add: accept_response_def http_reply_def rbind_def)
qed (simp add: accept_response_def http_reply_def)

lemma answered_reply:
  assumes "accept_response c q (http_reply lk n (Inr r)) = Inr v" and "gc_decode c = decode_response (lk_codec lk)"
  shows "r = response_success (rq_request_id q) v"
proof -
  have lost: "lk_reply_lost lk n = None" using assms(1) by (cases "lk_reply_lost lk n") (simp_all add: accept_response_def http_reply_def)
  show ?thesis
  proof (cases "encode_response (lk_codec lk) r")
    case (Inl m)
    then show ?thesis using assms(1) lost
      by (cases "collect_body (gc_max_response_bytes c) [] (reply_chunks lk n m)") (simp_all add: accept_response_def http_reply_def rbind_def)
  next
    case (Inr body)
    then obtain b where b: "collect_body (gc_max_response_bytes c) [] (reply_chunks lk n body) = Inr b"
      and d: "(case gc_decode c b of Inl _ \<Rightarrow> Inl (Fail (protocol_error ''gateway returned invalid execution JSON''))
         | Inr r \<Rightarrow>
             if response_version r \<noteq> PROTOCOL_VERSION \<or> response_request_id r \<noteq> rq_request_id q
             then Inl (Fail (protocol_error ''gateway returned an uncorrelated execution response''))
             else (case r of ResponseSuccess _ _ x \<Rightarrow> Inr x | ResponseError _ _ e \<Rightarrow> Inl (Fail e))) = Inr v"
      using assms(1) lost
      by (cases "collect_body (gc_max_response_bytes c) [] (reply_chunks lk n body)") (auto simp: accept_response_def http_reply_def rbind_def split: if_splits)
    have "gc_decode c b = Inr r" using decode_encode [OF Inr] reply_chunks_body [OF b] assms(2) by simp
    with d show ?thesis by (cases r) (auto simp: response_success_def split: if_splits)
  qed
qed

lemma authorize_status: "authorize token header now k sc = (Inl e, sc') \<Longrightarrow> 400 \<le> ge_status e"
  by (auto simp: authorize_def http_error_defs split: if_splits option.splits prod.splits bool.splits)

lemma registered_execute_effect:
  assumes "registered_execute lk n rt pr q s = (x, s')"
  shows "rl_host s' = rl_host s \<and> isl x \<or> (\<exists>y. dispatch_request rt pr q (rl_host s) = (y, rl_host s') \<and> (\<forall>r. x = Inr r \<longrightarrow> y = Inr r))"
proof (cases "lk_forwarding lk n")
  case (Unanswered e)
  then show ?thesis using assms by (cases "dispatch_request rt pr q (rl_host s)") (auto simp: registered_execute_def)
next
  case Forwarded
  then show ?thesis using assms
    by (cases "dispatch_request rt pr q (rl_host s)"; cases "fst (dispatch_request rt pr q (rl_host s))") (auto simp: registered_execute_def)
qed (use assms in \<open>auto simp: registered_execute_def\<close>)

lemma registered_world_kind: "admit_operation (registered_world lk n) \<noteq> Some (Inr E2bHost)"
  by (auto simp: admit_operation_def row_for_operation_def registered_world_def found_row_def resumes_on_use_def
      split: if_splits option.splits sum.splits)

lemma relay_post_relays:
  assumes p: "relay_post lk rt pr hst q s = (out, s')" and dec: "gc_decode c = decode_response (lk_codec lk)"
  shows "rl_host s' = rl_host s \<and> isl (accept_response c q out) \<or>
    (\<exists>y. dispatch_request rt pr q (rl_host s) = (y, rl_host s') \<and>
      (\<forall>v. accept_response c q out = Inr v \<longrightarrow> y = Inr (response_success (rq_request_id q) v)))"
proof (cases "lk_request_lost lk (rl_calls s)")
  case (Some f)
  then show ?thesis using p by (auto simp: relay_post_def accept_response_def)
next
  case None
  let ?n = "rl_calls s" and ?s1 = "s\<lparr>rl_calls := rl_calls s + 1\<rparr>"
  obtain a sc where a: "authorize (lk_token lk) (lk_header lk) (lk_clock lk ?n) (lk_client lk) (rl_security ?s1) = (a, sc)" by fastforce
  let ?s2 = "?s1\<lparr>rl_security := sc\<rparr>"
  show ?thesis
  proof (cases a)
    case (Inl e)
    then show ?thesis using p None a refused_reply [OF authorize_status, of "lk_token lk"] by (auto simp: relay_post_def Let_def)
  next
    case (Inr u)
    let ?x = "admit_operation (registered_world lk ?n)"
    have post: "relay_post lk rt pr hst q s = (case execute_operation (registered_world lk ?n) (registered_execute lk ?n rt pr q) (\<lambda>t. (Inl database_error, t)) ?s2 of
        None \<Rightarrow> (Inl \<lparr>tf_timeout = True, tf_connect = False\<rparr>, ?s2) | Some (x, s2) \<Rightarrow> (http_reply lk ?n x, s2))"
      using None a Inr by (simp add: relay_post_def Let_def split: option.split prod.split)
    consider "?x = None" | e where "?x = Some (Inl e)" | "?x = Some (Inr RegisteredHost)"
      using registered_world_kind [of lk ?n] by (cases ?x) (metis host_kind.exhaust sum.exhaust)+
    then show ?thesis
    proof cases
      case 1
      then show ?thesis using p post by (auto simp: execute_operation_def accept_response_def)
    next
      case 2
      then show ?thesis using p post refused_reply [OF admit_operation_status [OF 2]] by (auto simp: execute_operation_def)
    next
      case 3
      obtain x s3 where x: "registered_execute lk ?n rt pr q ?s2 = (x, s3)" by fastforce
      note eff = registered_execute_effect [OF x]
      have out: "s' = s3" "out = http_reply lk ?n (case x of Inl e \<Rightarrow> Inl (host_connection_http_error e) | Inr r \<Rightarrow> Inr r)"
        using p post 3 x by (cases x; simp add: execute_operation_def)+
      have r: "x = Inr (response_success (rq_request_id q) v)" if v: "accept_response c q out = Inr v" for v
      proof (cases x)
        case (Inl e)
        then show ?thesis using v out(2) refused_reply [OF host_connection_status, of c q lk ?n e] by simp
      next
        case (Inr r)
        then show ?thesis using v out(2) answered_reply [OF _ dec] by simp
      qed
      show ?thesis using eff out(1) r by (cases "accept_response c q out") auto
    qed
  qed
qed

lemma relayed_gateway_relays: "relayed_host (relayed_gateway lk rt pr) rl_host rt pr"
proof (unfold_locales, goal_cases)
  case (1 s x s')
  then show ?case by (simp add: relayed_gateway_def)
next
  case (2 q s out s')
  then show ?case using relay_post_relays [of lk rt pr "lk_host lk" q s out s' "gh_client (relayed_gateway lk rt pr)"]
    by (simp add: relayed_gateway_def)
qed

interpretation rf: relayed_files "relayed_gateway lk (supervisor_runtime env host ctx) pr" rl_host "supervisor_runtime env host ctx" pr
  "sup_files env" sup_used "sup_ok env" "sha_hex env"
  for lk env host ctx pr
  by (intro relayed_files.intro relayed_gateway_relays sup_rev.revision_host_axioms)

interpretation rp: relayed_processes "relayed_gateway lk (rt\<lparr>rt_checkpoint := pr_checkpoint (supervised_processes env dec eof_error other)\<rparr>)
    (supervised_processes env dec eof_error other)" rl_host
  "rt\<lparr>rt_checkpoint := pr_checkpoint (supervised_processes env dec eof_error other)\<rparr>" "supervised_processes env dec eof_error other"
  "timeline_log dec" "timeline_ok env dec" timeline_prompt timeline_final timeline_status
  for lk rt env dec eof_error other
  by (intro relayed_processes.intro relayed_gateway_relays sp.process_host_axioms relayed_processes_axioms.intro) simp

section \<open>A patch through the gateway\<close>

text \<open>
  C7: a successful \<open>apply_patch\<close> on a host behind the gateway changes the files of that host exactly as the patch says, whatever
  requests were refused and however replies were cut into pieces on the way. The supervisor of the host has no symbolic links and
  separate roots, and it has not seen any operation identifier derived from that of the patch. Then verifying the
  patch changes no file of the host, and when the application that follows reports success, the map from execution paths
  to the file contents of the host is the one that the hunks, applied one after the other to the files before, describe.
\<close>

theorem remote_patch_changes_files:
  assumes "sup_ok env (rl_host s)" and "runtime tool = gateway_runtime (relayed_gateway lk (supervisor_runtime env host ctx) pr)"
    and "prepare tool input op_id s = (Inr p, s1)" and "start tool p = Inr r"
    and "apply_loop tool r s1 = (Inr out, r', s')" and "\<forall>i. operation_name op_id i \<notin> sup_used (rl_host s)"
  shows "sup_files env (rl_host s1) = sup_files env (rl_host s) \<and>
     patch_effect (prep_mode p) (prep_hunks p) (sup_files env (rl_host s)) = Some (sup_files env (rl_host s'))"
proof -
  have fr: "sup_ok env (rl_host s1) \<and> sup_files env (rl_host s1) = sup_files env (rl_host s) \<and> sup_used (rl_host s1) = sup_used (rl_host s)"
    by (rule rf.remote.prepare_frame [OF assms(1,2,3)])
  note ok = prepare_ok [OF assms(3)]
  have "patch_effect (prep_mode p) (prep_hunks p) (sup_files env (rl_host s1)) = Some (sup_files env (rl_host s'))"
    by (rule rf.remote.apply_loop_files [OF assms(4,2) ok(1) _ _ assms(5)]) (use fr ok(5) assms(6) in simp_all)
  with fr show ?thesis by simp
qed

text \<open>A path that carries one response, and loses the replies to the calls that \<open>lost\<close> says.\<close>

definition rv_codec :: "response_envelope \<Rightarrow> response_codec" where
  "rv_codec r0 = Abs_response_codec (\<lambda>r. if r = r0 then Inr ''{w}'' else Inl [], \<lambda>s. if s = ''{w}'' then Inr r0 else Inl [])"

lemma rv_codec_maps: "encode_response (rv_codec r0) r0 = Inr ''{w}''" "decode_response (rv_codec r0) ''{w}'' = Inr r0"
proof -
  have "(\<lambda>r. if r = r0 then Inr ''{w}'' else Inl [], \<lambda>s. if s = ''{w}'' then Inr r0 else Inl []) \<in>
      {(enc, dec). json_faithful enc (dec :: string \<Rightarrow> string + response_envelope)}"
    by (simp add: json_faithful_def ends_with_def)
  from Abs_response_codec_inverse [OF this]
  show "encode_response (rv_codec r0) r0 = Inr ''{w}''" "decode_response (rv_codec r0) ''{w}'' = Inr r0"
    by (simp_all add: encode_response_def decode_response_def rv_codec_def)
qed

definition rv_link :: "response_envelope \<Rightarrow> (nat \<Rightarrow> transport_failure option) \<Rightarrow> relay_link" where
  "rv_link r0 lost = \<lparr>lk_host = ''h'', lk_descriptor = sample_host, lk_codec = rv_codec r0, lk_encode_error = ge_message, lk_decode_error = (\<lambda>_. None),
     lk_uuid = Some, lk_max_response_bytes = 100, lk_token = ''t'', lk_header = Some ''Bearer t'', lk_client = None, lk_clock = (\<lambda>n. n),
     lk_checkpoint = (\<lambda>_. None), lk_interrupted = (\<lambda>_. None), lk_request_id = (\<lambda>_. ''r''), lk_request_lost = (\<lambda>_. None),
     lk_permit = (\<lambda>_. True), lk_row = (\<lambda>_. Inr (Some (HostReady, DesiredReady))), lk_forwarding = (\<lambda>_. Forwarded),
     lk_reply_lost = lost, lk_cuts = (\<lambda>_. [1]), lk_broken = (\<lambda>_. None), lk_reply_id = (\<lambda>_. ''g'')\<rparr>"

lemma rv_fields: "lk_codec (rv_link r0 lost) = rv_codec r0" "lk_token (rv_link r0 lost) = ''t''" "lk_header (rv_link r0 lost) = Some ''Bearer t''"
  "lk_request_lost (rv_link r0 lost) n = None" "lk_forwarding (rv_link r0 lost) n = Forwarded" "lk_reply_lost (rv_link r0 lost) n = lost n"
  "lk_cuts (rv_link r0 lost) n = [1]" "lk_broken (rv_link r0 lost) n = None"
  "lk_permit (rv_link r0 lost) n" "lk_row (rv_link r0 lost) n = Inr (Some (HostReady, DesiredReady))"
  by (simp_all add: rv_link_def)

lemma rv_client:
  fixes lost
  defines "g r0 rt pr \<equiv> relayed_gateway (rv_link r0 lost) rt pr"
  shows "gh_host_id (g r0 rt pr) = ''h''" "gh_descriptor (g r0 rt pr) = sample_host"
  "gc_checkpoint (gh_client (g r0 rt pr)) = io_lift (Inr ())" "gc_interrupted (gh_client (g r0 rt pr)) s = None"
  "gc_request_id (gh_client (g r0 rt pr)) s = ''r''" "gc_post (gh_client (g r0 rt pr)) = relay_post (rv_link r0 lost) rt pr"
  "gc_decode (gh_client (g r0 rt pr)) = decode_response (rv_codec r0)" "gc_max_response_bytes (gh_client (g r0 rt pr)) = 100"
  by (simp_all add: g_def relayed_gateway_def rv_link_def io_lift_def fun_eq_iff)

lemma rv_posts:
  assumes "dispatch_request rt pr q (rl_host s) = (Inr r0, h)" and "rq_request_id q = ''r''" and "r0 = response_success ''r'' x"
  shows "client_send (gh_client (relayed_gateway (rv_link r0 lost) rt pr)) ''h'' q s =
     (case lost (rl_calls s) of None \<Rightarrow> Inr x | Some f \<Rightarrow> Inl (Fail (transport_error f)), s\<lparr>rl_calls := rl_calls s + 1, rl_host := h\<rparr>)"
proof -
  have a: "authorize ''t'' (Some ''Bearer t'') now k sc = (Inr (), sc)" for now k sc
    by (simp add: authorize_def strip_prefix_of_def)
  have w: "admit_operation (registered_world (rv_link r0 lost) n) = Some (Inr RegisteredHost)" for n
    by (simp add: admit_operation_def row_for_operation_def registered_world_def found_row_def resumes_on_use_def rv_fields)
  have p: "relay_post (rv_link r0 lost) rt pr ''h'' q s = (http_reply (rv_link r0 lost) (rl_calls s) (Inr r0), s\<lparr>rl_calls := rl_calls s + 1, rl_host := h\<rparr>)"
    using assms(1) a w by (simp add: relay_post_def Let_def execute_operation_def registered_execute_def rv_fields)
  have "accept_response (gh_client (relayed_gateway (rv_link r0 lost) rt pr)) q (http_reply (rv_link r0 lost) n (Inr r0)) =
      (case lost n of None \<Rightarrow> Inr x | Some f \<Rightarrow> Inl (Fail (transport_error f)))" for n
    using assms(2) rv_codec_maps [of r0]
    by (cases "lost n") (simp_all add: accept_response_def http_reply_def reply_chunks_def rv_client rbind_def rv_fields, simp add: assms(3) response_success_def)
  then show ?thesis by (simp add: client_send_def rv_client p)
qed

definition rv_written :: write_file_result where
  "rv_written = \<lparr>written_path = \<lparr>root_id = ''work'', path = ''a/n''\<rparr>, existed = False, written_revision = ''x'' @ [CHR ''x'', LF], bytes_written = 2\<rparr>"

definition rv_reply :: response_envelope where
  "rv_reply = response_success ''r'' (RWriteFile rv_written)"

definition rv_gateway :: "supervisor process_runtime \<Rightarrow> supervisor relay gateway_host" where
  "rv_gateway pr = relayed_gateway (rv_link rv_reply (\<lambda>_. None)) (supervisor_runtime sample_env sample_host sample_ctx) pr"

lemmas rv_gateway_client = rv_client [of _ "\<lambda>_. None", of rv_reply "supervisor_runtime sample_env sample_host sample_ctx", folded rv_gateway_def]

definition rv_tool :: "supervisor process_runtime \<Rightarrow> supervisor relay patch_tool" where
  "rv_tool pr = \<lparr>runtime = gateway_runtime (rv_gateway pr), tool_cwd = sample_wd,
     config = \<lparr>max_patch_bytes = 1000, max_file_bytes = 100, chunk_bytes = 10, max_operations = 9,
               update_file_mode = NormalizeToLf\<rparr>, debug_path = path\<rparr>"

definition rv_start :: "supervisor relay" where
  "rv_start = \<lparr>rl_host = sample_tree, rl_calls = 0, rl_security = security_controls_new 1 1 1\<rparr>"

lemma rv_writes:
  fixes pr :: "supervisor process_runtime"
  defines "rq \<equiv> \<lparr>write_expected_generation = Some ''g'', strategy = InPlace, write_operation_id = ''op:apply_patch:0'',
      write_path = \<lparr>root_id = ''work'', path = ''a/n''\<rparr>, write_data = [CHR ''x'', LF], condition = AnyState,
      create_parents = True, write_follow_symlinks = True\<rparr>"
  shows "\<exists>h. rt_write (gateway_runtime (rv_gateway pr)) rq rv_start = (Inr rv_written, rv_start\<lparr>rl_calls := 1, rl_host := h\<rparr>) \<and>
     sup_files sample_env h \<lparr>root_id = ''work'', path = ''a/n''\<rparr> = Some [CHR ''x'', LF]"
proof -
  let ?h = "\<lparr>sv_fs = [([''w''], NDir), ([''w'', ''a''], NDir), ([''w'', ''a'', ''n''], NFile [CHR ''x'', LF])],
      sv_records = [(''op:apply_patch:0'', \<lparr>fingerprint_of = ''x'' @ [CHR ''x'', LF], mutation_result = MWrite rv_written\<rparr>)], sv_now = 2, sv_uuids = 0\<rparr>"
  have w: "sup_write sample_env sample_ctx rq (sample_tree\<lparr>sv_now := 1\<rparr>) = (Inr rv_written, ?h)"
    unfolding sample_env_def sample_ctx_def sample_tree_def rq_def rv_written_def by code_simp
  have v: "write_file_validate rq = Inr ()" unfolding rq_def by code_simp
  have n: "native_of sample_env \<lparr>root_id = ''work'', path = ''a/n''\<rparr> = Some [''w'', ''a'', ''n'']"
    unfolding sample_env_def by code_simp
  have c: "sup_checkpoint sample_ctx sample_tree = (Inr (), sample_tree\<lparr>sv_now := 1\<rparr>)"
    by (simp add: sup_checkpoint_def checkpoint_def sample_ctx_def sample_tree_def)
  have d: "dispatch_request (supervisor_runtime sample_env sample_host sample_ctx) pr (request_envelope_new ''r'' (FilesystemWrite rq)) (rl_host rv_start) =
      (Inr rv_reply, ?h)"
    using w v c by (simp add: dispatch_request_def request_envelope_new_def dispatch_operation_def io_bind_def io_lift_def io_map_def validated_def
        supervisor_runtime_def rv_start_def rv_reply_def)
  have s: "client_send (gh_client (rv_gateway pr)) ''h'' (request_envelope_new ''r'' (FilesystemWrite rq)) rv_start =
      (Inr (RWriteFile rv_written), rv_start\<lparr>rl_calls := 1, rl_host := ?h\<rparr>)"
    using rv_posts [OF d _ rv_reply_def, of "\<lambda>_. None"] by (simp add: request_envelope_new_def rv_start_def rv_gateway_def)
  have "rt_write (gateway_runtime (rv_gateway pr)) rq rv_start = (Inr rv_written, rv_start\<lparr>rl_calls := 1, rl_host := ?h\<rparr>)"
    using s v by (simp add: gateway_runtime_def calling_def gateway_call_def client_call_def io_bind_def rv_gateway_client io_lift_def validated_def
        within_context_def expect_result_def)
  moreover have "sup_files sample_env ?h \<lparr>root_id = ''work'', path = ''a/n''\<rparr> = Some [CHR ''x'', LF]"
    by (simp add: sup_files_def n node_at_def)
  ultimately show ?thesis by blast
qed

lemma rv_prepares: "prepare (rv_tool pr) sample_add_patch ''op'' rv_start = (Inr sample_prepared, rv_start)"
proof -
  have p: "parse_patch sample_add_patch = Inr \<lparr>patch = sample_add_patch,
      parsed_hunks = [AddFile ''n'' [CHR ''x'', LF]], parsed_environment_id = None\<rparr>" by code_simp
  have r: "resolve_path_normalized sample_host sample_wd ''n'' = Inr \<lparr>root_id = ''work'', path = ''a/n''\<rparr>" by code_simp
  have l: "\<not> 1000 < length sample_add_patch" by code_simp
  show ?thesis
    using p r l
    by (simp add: prepare_def rv_tool_def gateway_runtime_def rv_gateway_client io_bind_def io_lift_def parse_for_tool_def
        tool_resolve_path_def verify_hunk_def count_operations_def checked_add_def u64_small sample_prepared_def) (simp add: sample_host_def)
qed

lemma rv_starts: "start (rv_tool pr) sample_prepared = Inr sample_running"
  by (simp add: start_def validate_prepared_def sample_prepared_def rv_tool_def gateway_runtime_def rv_gateway_client
      sample_host_def sample_running_def operation_count_def hunk_operations_def)

lemma rv_applies:
  "\<exists>out r' s'. apply_loop (rv_tool pr) sample_running rv_start = (Inr out, r', s') \<and>
     sup_files sample_env (rl_host s') \<lparr>root_id = ''work'', path = ''a/n''\<rparr> = Some [CHR ''x'', LF]"
proof -
  have v: "validate_target (rv_tool pr) \<lparr>root_id = ''work'', path = ''a/n''\<rparr> = Inr ()"
  proof -
    have "validate_target sample_sup_tool \<lparr>root_id = ''work'', path = ''a/n''\<rparr> = Inr ()" by code_simp
    then show ?thesis by (simp add: validate_target_def rv_tool_def sample_sup_tool_def gateway_runtime_def rv_gateway_client supervisor_runtime_def)
  qed
  have i: "derived_id ''op'' 0 = Inr ''op:apply_patch:0''" by code_simp
  obtain h where w: "rt_write (gateway_runtime (rv_gateway pr)) \<lparr>write_expected_generation = Some ''g'', strategy = InPlace, write_operation_id = ''op:apply_patch:0'',
      write_path = \<lparr>root_id = ''work'', path = ''a/n''\<rparr>, write_data = [CHR ''x'', LF], condition = AnyState,
      create_parents = True, write_follow_symlinks = True\<rparr> rv_start = (Inr rv_written, rv_start\<lparr>rl_calls := 1, rl_host := h\<rparr>)"
    and f: "sup_files sample_env h \<lparr>root_id = ''work'', path = ''a/n''\<rparr> = Some [CHR ''x'', LF]"
    using rv_writes by blast
  have c: "rt_checkpoint (gateway_runtime (rv_gateway pr)) s = (Inr (), s)" for s
    by (simp add: gateway_runtime_def rv_gateway_client io_lift_def)
  have t: "runtime (rv_tool pr) = gateway_runtime (rv_gateway pr)" by (simp add: rv_tool_def)
  have rd: "rt_descriptor (gateway_runtime (rv_gateway pr)) = sample_host" by (simp add: gateway_runtime_def rv_gateway_client)
  note defs = step_def validate_prepared_def sample_prepared_def sample_host_def
    operation_count_def hunk_operations_def progress_invalid_def is_complete_def advance_def stage_hunk_def
    new_content_def write_operations_def remove_operations_def io_bind_def io_lift_def dispatch_def acknowledge_def
    u64_max_def Let_def
  show ?thesis
    using v i w f
    by (simp add: apply_loop.simps sample_running_def t c rd defs) (simp add: rv_tool_def apply_loop.simps c rd defs rv_written_def)
qed

definition rv_processes :: "supervisor process_runtime" where
  "rv_processes = \<lparr>pr_descriptor = sample_host, pr_checkpoint = io_lift (Inr ()), pr_start = (\<lambda>_. io_lift (Inl (Fail cancelled_error))),
     pr_read = (\<lambda>_. io_lift (Inl (Fail cancelled_error))), pr_write = (\<lambda>_. io_lift (Inl (Fail cancelled_error))),
     pr_resize = (\<lambda>_. io_lift (Inl (Fail cancelled_error))), pr_signal = (\<lambda>_. io_lift (Inl (Fail cancelled_error))),
     pr_terminate = (\<lambda>_. io_lift (Inl (Fail cancelled_error)))\<rparr>"

theorem remote_patch_changes_files_witness:
  "\<exists>s' :: supervisor relay. patch_effect (prep_mode sample_prepared) (prep_hunks sample_prepared) (sup_files sample_env (rl_host rv_start)) =
     Some (sup_files sample_env (rl_host s')) \<and> sup_files sample_env (rl_host s') \<lparr>root_id = ''work'', path = ''a/n''\<rparr> = Some [CHR ''x'', LF]"
proof -
  obtain out r' s' where a: "apply_loop (rv_tool rv_processes) sample_running rv_start = (Inr out, r', s')"
      "sup_files sample_env (rl_host s') \<lparr>root_id = ''work'', path = ''a/n''\<rparr> = Some [CHR ''x'', LF]"
    using rv_applies by blast
  have rt: "runtime (rv_tool rv_processes) = gateway_runtime (relayed_gateway (rv_link rv_reply (\<lambda>_. None)) (supervisor_runtime sample_env sample_host sample_ctx) rv_processes)"
    by (simp add: rv_tool_def rv_gateway_def)
  have ok: "sup_ok sample_env (rl_host rv_start)" by (simp add: rv_start_def sample_tree_ok)
  have u: "\<forall>i. operation_name ''op'' i \<notin> sup_used (rl_host rv_start)" by (simp add: sup_used_def rv_start_def sample_tree_def)
  from remote_patch_changes_files [OF ok rt rv_prepares rv_starts a(1) u] a(2) show ?thesis by blast
qed

section \<open>A command through the gateway\<close>

text \<open>The runtime of a host whose processes are supervised on a timeline.\<close>

definition timeline_files :: "timeline runtime \<Rightarrow> manager_env \<Rightarrow> event_decoder \<Rightarrow> exec_error \<Rightarrow> timeline process_runtime \<Rightarrow> timeline runtime" where
  "timeline_files rt env dec eof_error other = rt\<lparr>rt_checkpoint := pr_checkpoint (supervised_processes env dec eof_error other)\<rparr>"

text \<open>
  C8: the result of a command on a host behind the gateway accounts for everything the command wrote, on a path that loses
  requests and replies. A caller polls the command any number of times; polls fail because the gateway refuses them, the request or its
  reply is lost, or the reply breaks off. If the command is then marked as complete, its result reports the
  journal of the execution at that time and at every later time.
\<close>

theorem remote_command_reports_journal:
  assumes "bash_tool_new (gateway_processes (relayed_gateway lk (timeline_files rt env dec eof_error other) (supervised_processes env dec eof_error other))) wd cfg = Inr tool"
    and "bc_read_bytes cfg \<le> u64_max"
    and "bash_prepare tool inp ids = Inr p" and "timeline_ok env dec (rl_host s0)"
    and "\<forall>n x. map_of (pm_sessions (tl_states (rl_host s0) n)) (execution_id (pb_request p)) = Some x \<longrightarrow> ps_request x = pb_request p"
    and "bash_recover tool p hdl = Inr r0" and "bash_polls tool r0 s0 r s" and "rb_complete r" and "tl_now (rl_host s) \<le> n"
  shows "reports dec (journal_at (tl_states (rl_host s)) (execution_id (pb_request p)) n) p (running_output r)"
proof -
  note t = new_tool_ok [OF assms(1-3)]
  have pr: "timeline_prompt (rl_host s0) (execution_id (pb_request p))" using assms(5) t by (simp add: timeline_prompt_def)
  note r0 = recovered_attached [OF assms(6), of "\<lambda>s. timeline_log dec (rl_host s)" "\<lambda>s. timeline_final (rl_host s)" "\<lambda>s. timeline_status (rl_host s)" s0]
  have "attached (\<lambda>s. timeline_log dec (rl_host s)) (\<lambda>s. timeline_final (rl_host s)) (\<lambda>s. timeline_status (rl_host s)) s r \<and> rb_prepared r = p \<and>
      handle_execution_id (rb_handle r) = execution_id (pb_request p)"
    using rp.remote.polls_attached [OF assms(7,4)] r0 pr t by (auto simp: timeline_files_def)
  moreover from this have "attached (timeline_log dec) timeline_final timeline_status (rl_host s) r" unfolding attached_def by (elim conjE)
  ultimately show ?thesis using completed_reports [OF _ assms(8) _ assms(9), of dec] t by simp
qed

definition rw_files :: "timeline runtime" where
  "rw_files = \<lparr>rt_descriptor = sample_host, rt_checkpoint = supervised_checkpoint,
     rt_stat = (\<lambda>_. io_lift (Inl (Fail cancelled_error))), rt_read = (\<lambda>_. io_lift (Inl (Fail cancelled_error))),
     rt_write = (\<lambda>_. io_lift (Inl (Fail cancelled_error))), rt_remove = (\<lambda>_. io_lift (Inl (Fail cancelled_error))),
     rt_create_directory = (\<lambda>_. io_lift (Inl (Fail cancelled_error))), rt_list = (\<lambda>_. io_lift (Inl (Fail cancelled_error)))\<rparr>"

definition rw_page :: read_execution_result where
  "rw_page = \<lparr>events = map fst sv_codes, next_sequence = 5, result_state = StExited, result_exit_code = Some 0\<rparr>"

definition rw_reply :: response_envelope where
  "rw_reply = response_success ''r'' (RReadExecution rw_page)"

text \<open>The reply to the first call is lost.\<close>

definition rw_lost :: "nat \<Rightarrow> transport_failure option" where
  "rw_lost n = (if n = 0 then Some \<lparr>tf_timeout = True, tf_connect = False\<rparr> else None)"

definition rw_gateway :: "timeline relay gateway_host" where
  "rw_gateway = relayed_gateway (rv_link rw_reply rw_lost) (timeline_files rw_files sv_env sv_dec sv_eof sv_other) (supervised_processes sv_env sv_dec sv_eof sv_other)"

lemmas rw_client = rv_client [of _ rw_lost, of rw_reply "timeline_files rw_files sv_env sv_dec sv_eof sv_other" "supervised_processes sv_env sv_dec sv_eof sv_other", folded rw_gateway_def]

definition rw_tool :: "timeline relay bash_tool" where
  "rw_tool = \<lparr>bt_runtime = gateway_processes rw_gateway, bt_cwd = \<lparr>root_id = ''work'', path = ''.''\<rparr>, bt_config = sv_config\<rparr>"

definition rw_at :: "nat \<Rightarrow> timeline relay" where
  "rw_at n = \<lparr>rl_host = sv_timeline\<lparr>tl_now := 1 + 3 * n\<rparr>, rl_calls = n, rl_security = security_controls_new 1 1 1\<rparr>"

lemma rw_descriptor: "pr_descriptor (gateway_processes rw_gateway) = sample_host"
  by (simp add: gateway_processes_def rw_client)

lemma rw_tool_new: "bash_tool_new (gateway_processes rw_gateway) \<lparr>root_id = ''work'', path = ''.''\<rparr> sv_config = Inr rw_tool"
proof -
  have v: "validate_cwd sample_host \<lparr>root_id = ''work'', path = ''.''\<rparr> = Inr ()" by code_simp
  have e: "environment_validate \<lparr>env_mode = Inherit, env_set = [], env_remove = []\<rparr> = Inr ()" by code_simp
  have l: "max_process_read_bytes (limits sample_host) = None" by (simp add: sample_host_def)
  show ?thesis by (simp add: bash_tool_new_def rw_descriptor v e l sv_config_def validated_def rw_tool_def)
qed

lemma rw_prepare: "bash_prepare rw_tool sv_input sv_ids = Inr sv_prepared"
proof -
  have t: "trim ''echo'' \<noteq> []" by code_simp
  have v: "start_validate sv_request = Inr ()" by (simp add: sv_request_def) code_simp
  have "bash_request rw_tool \<lparr>root_id = ''work'', path = ''.''\<rparr> 9 sv_input sv_ids = sv_request"
    by (simp add: bash_request_def rw_tool_def sv_config_def rw_descriptor sample_host_def sv_input_def
        sv_ids_def sv_request_def shell_command_def Let_def)
  with t v show ?thesis
    by (simp add: bash_prepare_def sv_input_def sv_ids_def rw_tool_def sv_prepared_def MAX_TIMEOUT_MS_def validated_def)
       (simp add: rw_descriptor sample_host_def sv_config_def)
qed

lemma rw_recover: "bash_recover rw_tool sv_prepared (rb_handle sv_running) = Inr sv_running"
  by (simp add: bash_recover_def bash_validate_host_def handle_matches_def rw_tool_def rw_descriptor
      sample_host_def sv_prepared_def sv_running_def sv_request_def)

lemma rw_reads:
  "pr_read (gateway_processes rw_gateway) (bash_read_request rw_tool sv_running) (rw_at n) =
     (if n = 0 then Inl (Fail (transport_error \<lparr>tf_timeout = True, tf_connect = False\<rparr>)) else Inr rw_page, rw_at (Suc n))"
proof -
  let ?rq = "\<lparr>read_execution_id = ''x'', read_generation_id = ''g'', after_sequence = 0, read_max_bytes = 8, wait_ms = Some 1000\<rparr>"
  have q: "bash_read_request rw_tool sv_running = ?rq"
    by (simp add: bash_read_request_def rw_tool_def sv_running_def rw_descriptor sample_host_def sv_config_def u64_max_def)
  have v: "read_execution_validate ?rq = Inr ()" by (simp add: read_execution_validate_def issue_if_def single_def finish_def)
  have j: "journal_at sv_states ''x'' (Suc k) = sv_journal" for k by (simp add: sv_states_def sv_session_def)
  have rd: "supervised_read sv_env sv_dec sv_eof ?rq (rl_host (rw_at n)) = (Inr rw_page, rl_host (rw_at (Suc n)))"
    unfolding supervised_read_def pm_read_def
    by (simp add: rw_at_def sv_timeline_def j sv_states_def session_entry_def sv_session_def journal_read_def sv_read validate_generation_def
        sv_env_def pm_env_def v validated_def Let_def rw_page_def)
  have ck: "supervised_checkpoint (rl_host (rw_at n)) = (Inr (), rl_host (rw_at n))"
    by (simp add: supervised_checkpoint_def rw_at_def sv_timeline_def)
  have d: "dispatch_request (timeline_files rw_files sv_env sv_dec sv_eof sv_other) (supervised_processes sv_env sv_dec sv_eof sv_other)
      (request_envelope_new ''r'' (ProcessRead ?rq)) (rl_host (rw_at n)) = (Inr rw_reply, rl_host (rw_at (Suc n)))"
    using rd v by (simp add: dispatch_request_def request_envelope_new_def dispatch_operation_def io_bind_def io_lift_def io_map_def validated_def
        timeline_files_def supervised_processes_def ck rw_reply_def)
  show ?thesis
    using rv_posts [OF d _ rw_reply_def, of rw_lost] v unfolding q
    by (simp add: gateway_processes_def calling_def gateway_call_def client_call_def io_bind_def rw_client io_lift_def validated_def
        within_context_def expect_result_def request_envelope_new_def rw_gateway_def [symmetric] rw_lost_def) (simp add: rw_at_def)
qed

lemma rw_polls: "\<exists>r. bash_polls rw_tool sv_running (rw_at 0) r (rw_at 2) \<and> rb_complete r"
proof -
  have v: "bash_validate_host rw_tool sv_prepared = Inr ()"
    by (simp add: bash_validate_host_def rw_tool_def rw_descriptor sample_host_def sv_prepared_def)
  have c: "pr_checkpoint (gateway_processes rw_gateway) = io_lift (Inr ())" by (simp add: gateway_processes_def rw_client)
  have s: "rb_prepared sv_running = sv_prepared" "\<not> rb_complete sv_running" "bt_runtime rw_tool = gateway_processes rw_gateway"
    by (simp_all add: sv_running_def rw_tool_def)
  have "bash_poll rw_tool sv_running (rw_at 0) = (Inl (Fail (transport_error \<lparr>tf_timeout = True, tf_connect = False\<rparr>)), rw_at 1)"
    using rw_reads [of 0] v s c by (simp add: bash_poll_def io_bind_def io_lift_def)
  note p1 = bash_polls.failed [OF bash_polls.none this]
  obtain r where r: "accept_reply rw_page sv_running = Inr r" "rb_complete r"
    by (auto simp: accept_reply_def sv_codes_def sv_running_def bash_terminal_def rw_page_def)
  have "bash_poll rw_tool sv_running (rw_at 1) = (Inr (\<lparr>bp_events = events rw_page, bp_complete = rb_complete r\<rparr>, r), rw_at 2)"
    using rw_reads [of 1] v s c r by (simp add: bash_poll_def io_bind_def io_lift_def numeral_2_eq_2)
  from bash_polls.polled [OF p1 this] r(2) show ?thesis by blast
qed

theorem remote_command_reports_journal_witness:
  "\<exists>r. bash_polls rw_tool sv_running (rw_at 0) r (rw_at 2) \<and> rb_complete r \<and> reports sv_dec sv_journal sv_prepared (running_output r)"
proof -
  obtain r where r: "bash_polls rw_tool sv_running (rw_at 0) r (rw_at 2)" "rb_complete r" using rw_polls by blast
  have h: "rl_host (rw_at 0) = sv_timeline" "tl_states (rl_host (rw_at 2)) = sv_states" "tl_now (rl_host (rw_at 2)) \<le> 9"
    by (simp_all add: rw_at_def sv_timeline_def)
  have cfg: "bc_read_bytes sv_config \<le> u64_max" by (simp add: sv_config_def u64_max_def)
  have i: "execution_id (pb_request sv_prepared) = ''x''" by (simp add: sv_prepared_def sv_request_def)
  have "journal_at sv_states ''x'' 9 = sv_journal" by (simp add: eval_nat_numeral sv_states_def sv_session_def)
  with remote_command_reports_journal [OF rw_tool_new [unfolded rw_gateway_def] cfg rw_prepare sv_timeline_ok [folded h(1)]
      sv_started_once [folded h(1)] rw_recover r h(3)] r h(2) i
  show ?thesis by auto
qed

end
