(* ===== verification/Host_Session.thy ===== *)
theory Host_Session
  imports Gateway_Http
begin

text \<open>
  The socket of a registered host: the gateway's side (\<open>run_registered_socket_inner\<close> in
  \<open>execution/apps/execution-gateway/src/http.rs\<close>) and the daemon's side
  (\<open>execution/apps/execution-host-daemon/src/connection.rs\<close>). What the socket, the database and the
  timers do are arguments; what the program does with them is a list of actions. Instants are milliseconds.
\<close>

section \<open>Messages\<close>

definition PROTOCOL_NAME :: string where "PROTOCOL_NAME = ''agent-pane.execution''"

record hello =
  he_protocol_name :: string
  he_protocol_version :: nat
  he_daemon_version :: string
  he_descriptor :: host_descriptor

datatype host_daemon_message = HelloMessage hello | ResponseMessage response_envelope

datatype ws_frame = WsText string | WsBinary | WsPing | WsPong | WsClose

datatype send_result = SendOk | SendJson string | SendSocket string

definition send_gateway_message :: "send_result \<Rightarrow> gateway_http_error + unit" where
  "send_gateway_message res = (case res of
     SendOk \<Rightarrow> Inr ()
   | SendJson m \<Rightarrow> Inl (http_internal m)
   | SendSocket m \<Rightarrow> Inl (http_retryable (http_error_new 502 ''HOST_DISCONNECTED'' m)))"

section \<open>The handshake\<close>

definition validate_daemon_version :: "string \<Rightarrow> gateway_http_error + unit" where
  "validate_daemon_version v =
     (if trim v = [] \<or> trim v \<noteq> v \<or> 100 < length v
      then Inl (http_bad_request ''INVALID_DAEMON_VERSION'' ''daemon_version must be 1 to 100 characters without surrounding whitespace'')
      else Inr ())"

datatype first_frame = FirstTimeout | FirstEnded | FirstError string | FirstFrame ws_frame

definition decode_hello :: "(string \<Rightarrow> string + host_daemon_message) \<Rightarrow> first_frame \<Rightarrow> gateway_http_error + hello" where
  "decode_hello dec f = (case f of
     FirstTimeout \<Rightarrow> Inl (http_bad_request ''HANDSHAKE_TIMEOUT'' ''Host Daemon did not send hello'')
   | FirstEnded \<Rightarrow> Inl (http_bad_request ''HANDSHAKE_ENDED'' ''Host Daemon disconnected before hello'')
   | FirstError m \<Rightarrow> Inl (http_bad_request ''INVALID_HANDSHAKE'' m)
   | FirstFrame (WsText s) \<Rightarrow> (case dec s of
        Inl m \<Rightarrow> Inl (http_bad_request ''INVALID_HANDSHAKE'' m)
      | Inr (HelloMessage h) \<Rightarrow> Inr h
      | Inr (ResponseMessage _) \<Rightarrow> Inl (http_bad_request ''INVALID_HANDSHAKE'' ''the first Host Daemon message must be hello''))
   | FirstFrame _ \<Rightarrow> Inl (http_bad_request ''INVALID_HANDSHAKE'' ''the first WebSocket message must be a JSON hello message''))"

definition accept_hello :: "(validation_error \<Rightarrow> string) \<Rightarrow> string \<Rightarrow> hello \<Rightarrow> gateway_http_error + unit" where
  "accept_hello shown hst h =
     (if he_protocol_name h \<noteq> PROTOCOL_NAME \<or> he_protocol_version h \<noteq> PROTOCOL_VERSION
      then Inl (http_bad_request ''UNSUPPORTED_PROTOCOL'' (''Host Daemon protocol '' @ he_protocol_name h @ ''/'' @ show_nat (he_protocol_version h) @
        '' is incompatible with '' @ PROTOCOL_NAME @ ''/'' @ show_nat PROTOCOL_VERSION))
      else case validate_daemon_version (he_daemon_version h) of
        Inl e \<Rightarrow> Inl e
      | Inr _ \<Rightarrow> (case descriptor_validate (he_descriptor h) of
           Inl issues \<Rightarrow> Inl (http_bad_request ''INVALID_HOST_DESCRIPTOR'' (shown issues))
         | Inr _ \<Rightarrow>
             if host_id (he_descriptor h) \<noteq> hst
             then Inl (http_bad_request ''HOST_ID_MISMATCH'' ''the Host Daemon descriptor belongs to a different execution host'')
             else Inr ()))"

section \<open>The session of the gateway\<close>

text \<open>
  What the session waits for: a queued message and how sending it ends, a frame and whether the database records the activity, or a heartbeat
  and whether the ping is sent.
\<close>

datatype session_event =
    QueuedOutput "gateway_host_message option" send_result
  | SocketFrame "(string + ws_frame) option" bool
  | HeartbeatTick bool

datatype session_action =
    ActRegister | ActUnregister | ActMarkDisconnected | ActQueueWelcome nat
  | ActSend gateway_host_message | ActComplete response_envelope | ActTouch | ActPing

text \<open>The rest of the loop after one event: go on, or end with a result.\<close>

definition socket_text :: "(string \<Rightarrow> string + host_daemon_message) \<Rightarrow> string \<Rightarrow> bool \<Rightarrow> session_action list \<times> (gateway_http_error + unit) option" where
  "socket_text dec s touched = (case dec s of
     Inr (ResponseMessage r) \<Rightarrow> ([ActComplete r, ActTouch], if touched then None else Some (Inl database_error))
   | Inr (HelloMessage _) \<Rightarrow> ([ActSend (DisconnectMessage ''DUPLICATE_HELLO'' ''hello may only be sent once'')], Some (Inr ()))
   | Inl m \<Rightarrow> ([ActSend (DisconnectMessage ''INVALID_MESSAGE'' m)], Some (Inr ())))"

definition session_turn :: "(string \<Rightarrow> string + host_daemon_message) \<Rightarrow> nat \<Rightarrow> nat \<Rightarrow> nat \<Rightarrow> session_event \<Rightarrow>
    session_action list \<times> (gateway_http_error + unit) option" where
  "session_turn dec timeout last_activity now ev = (case ev of
     QueuedOutput None _ \<Rightarrow> ([], Some (Inr ()))
   | QueuedOutput (Some m) res \<Rightarrow> ([ActSend m], case send_gateway_message res of Inl e \<Rightarrow> Some (Inl e) | Inr _ \<Rightarrow> None)
   | SocketFrame None _ \<Rightarrow> ([], Some (Inr ()))
   | SocketFrame (Some (Inl _)) _ \<Rightarrow> ([], Some (Inr ()))
   | SocketFrame (Some (Inr (WsText s))) touched \<Rightarrow> socket_text dec s touched
   | SocketFrame (Some (Inr WsPong)) touched \<Rightarrow> ([ActTouch], if touched then None else Some (Inl database_error))
   | SocketFrame (Some (Inr WsClose)) _ \<Rightarrow> ([], Some (Inr ()))
   | SocketFrame (Some (Inr _)) _ \<Rightarrow> ([], None)
   | HeartbeatTick sent \<Rightarrow>
       if timeout \<le> now - last_activity then ([], Some (Inr ())) else ([ActPing], if sent then None else Some (Inr ())))"

definition activity_after :: "nat \<Rightarrow> nat \<Rightarrow> session_event \<Rightarrow> nat" where
  "activity_after last_activity now ev = (case ev of SocketFrame (Some _) _ \<Rightarrow> now | _ \<Rightarrow> last_activity)"

fun session_loop :: "(string \<Rightarrow> string + host_daemon_message) \<Rightarrow> nat \<Rightarrow> nat \<Rightarrow> (nat \<times> session_event) list \<Rightarrow>
    session_action list \<times> (gateway_http_error + unit) option" where
  "session_loop dec timeout last_activity [] = ([], None)"
| "session_loop dec timeout last_activity ((now, ev) # evs) = (case session_turn dec timeout last_activity now ev of
     (acts, Some r) \<Rightarrow> (acts, Some r)
   | (acts, None) \<Rightarrow> (case session_loop dec timeout (activity_after last_activity now ev) evs of (acts', r) \<Rightarrow> (acts @ acts', r)))"

text \<open>
  What the environment does in one session: the first frame, whether the database has the connection (it may fail, or say that the host is revoked), the events,
  whether the connection was still the active one at the end, and whether the database records the end.
\<close>

record socket_world =
  sw_first :: first_frame
  sw_mark :: "unit + bool"
  sw_started :: nat
  sw_events :: "(nat \<times> session_event) list"
  sw_active :: bool
  sw_unmarked :: bool

definition end_session :: "socket_world \<Rightarrow> gateway_http_error + unit \<Rightarrow> session_action list \<times> (gateway_http_error + unit)" where
  "end_session w r =
     (if \<not> sw_active w then ([ActUnregister], r)
      else ([ActUnregister, ActMarkDisconnected], if sw_unmarked w then r else if isl r then r else Inl database_error))"

definition run_registered_socket :: "(string \<Rightarrow> string + host_daemon_message) \<Rightarrow> (validation_error \<Rightarrow> string) \<Rightarrow> nat \<Rightarrow> string \<Rightarrow> socket_world \<Rightarrow>
    session_action list \<times> (gateway_http_error + unit) option" where
  "run_registered_socket dec shown interval hst w = (case decode_hello dec (sw_first w) of
     Inl e \<Rightarrow> ([], Some (Inl e))
   | Inr h \<Rightarrow> (case accept_hello shown hst h of
        Inl e \<Rightarrow> ([], Some (Inl e))
      | Inr _ \<Rightarrow> (case sw_mark w of
           Inl _ \<Rightarrow> ([ActRegister], Some (Inl database_error))
         | Inr False \<Rightarrow> ([ActRegister, ActUnregister],
             Some (Inl (http_error_new 401 ''HOST_REGISTRATION_REVOKED'' ''the registered host is no longer active'')))
         | Inr True \<Rightarrow> (case session_loop dec (3 * interval) (sw_started w) (sw_events w) of
              (acts, None) \<Rightarrow> ([ActRegister, ActQueueWelcome interval] @ acts, None)
            | (acts, Some r) \<Rightarrow> (case end_session w r of (acts', r') \<Rightarrow>
                ([ActRegister, ActQueueWelcome interval] @ acts @ acts', Some r'))))))"

section \<open>The daemon\<close>

datatype daemon_end = Reconnect | Stop

definition daemon_welcome :: "gateway_host_message \<Rightarrow> string + nat" where
  "daemon_welcome m = (case m of
     WelcomeMessage heartbeat \<Rightarrow> if 0 < heartbeat then Inr heartbeat else Inl ''gateway returned an invalid zero heartbeat interval''
   | DisconnectMessage c t \<Rightarrow> Inl (''gateway rejected connection ('' @ c @ ''): '' @ t)
   | RequestMessage _ \<Rightarrow> Inl ''gateway sent an execution request before welcome'')"

text \<open>A request is dispatched in a task of its own: the loop itself only starts it. \<open>DaemonPing\<close> is a ping frame, with the outcome of its pong.\<close>

datatype daemon_event =
    DaemonDeadline
  | DaemonResponse response_envelope "string option"
  | DaemonFrame "(string + ws_frame) option"
  | DaemonPing bool

datatype daemon_action = StartRequest request_envelope | SendResponse response_envelope | SendPong

definition daemon_message :: "gateway_host_message \<Rightarrow> daemon_action list \<times> (string + daemon_end) option" where
  "daemon_message m = (case m of
     RequestMessage q \<Rightarrow> ([StartRequest q], None)
   | DisconnectMessage c _ \<Rightarrow> ([],
       Some (Inr (if c \<in> {''HOST_REGISTRATION_DELETED'', ''HOST_CREDENTIAL_ROTATED'', ''CONNECTION_REPLACED''} then Stop else Reconnect)))
   | WelcomeMessage _ \<Rightarrow> ([], Some (Inl ''gateway sent a duplicate welcome message'')))"

definition daemon_turn :: "(string \<Rightarrow> string + gateway_host_message) \<Rightarrow> daemon_event \<Rightarrow> daemon_action list \<times> (string + daemon_end) option" where
  "daemon_turn dec ev = (case ev of
     DaemonDeadline \<Rightarrow> ([], Some (Inr Reconnect))
   | DaemonResponse r None \<Rightarrow> ([SendResponse r], None)
   | DaemonResponse r (Some e) \<Rightarrow> ([], Some (Inl e))
   | DaemonFrame None \<Rightarrow> ([], Some (Inr Reconnect))
   | DaemonFrame (Some (Inl _)) \<Rightarrow> ([], Some (Inl ''read gateway WebSocket message''))
   | DaemonFrame (Some (Inr (WsText s))) \<Rightarrow> (case dec s of
        Inl _ \<Rightarrow> ([], Some (Inl ''decode gateway message''))
      | Inr m \<Rightarrow> daemon_message m)
   | DaemonFrame (Some (Inr WsClose)) \<Rightarrow> ([], Some (Inr Reconnect))
   | DaemonFrame (Some (Inr _)) \<Rightarrow> ([], None)
   | DaemonPing sent \<Rightarrow> ([SendPong], if sent then None else Some (Inr Reconnect)))"

fun daemon_loop :: "(string \<Rightarrow> string + gateway_host_message) \<Rightarrow> daemon_event list \<Rightarrow> daemon_action list \<times> (string + daemon_end) option" where
  "daemon_loop dec [] = ([], None)"
| "daemon_loop dec (ev # evs) = (case daemon_turn dec ev of
     (acts, Some r) \<Rightarrow> (acts, Some r)
   | (acts, None) \<Rightarrow> (case daemon_loop dec evs of (acts', r) \<Rightarrow> (acts @ acts', r)))"

text \<open>\<open>run\<close>: the delays, in milliseconds, before each new attempt to connect.\<close>

fun daemon_run :: "nat \<Rightarrow> (string + daemon_end) list \<Rightarrow> nat list" where
  "daemon_run delay [] = []"
| "daemon_run delay (Inr Stop # rs) = []"
| "daemon_run delay (Inr Reconnect # rs) = 1000 # daemon_run (min (1000 * 2) 30000) rs"
| "daemon_run delay (Inl _ # rs) = delay # daemon_run (min (delay * 2) 30000) rs"

section \<open>Properties\<close>

text \<open>
  C40: when the session of a daemon returns, the gateway has taken back its registration, with one exception: if the database fails while it
  records an accepted connection, the connection stays registered though nothing serves it any more.
\<close>

theorem session_leaves_registration:
  assumes "run_registered_socket dec shown interval hst w = (acts, Some r)"
  shows "(ActRegister \<in> set acts \<and> ActUnregister \<notin> set acts) \<longleftrightarrow>
     (\<exists>h. decode_hello dec (sw_first w) = Inr h \<and> accept_hello shown hst h = Inr ()) \<and> sw_mark w = Inl ()"
proof (cases "\<exists>h. decode_hello dec (sw_first w) = Inr h \<and> accept_hello shown hst h = Inr ()")
  case False
  then show ?thesis using assms by (auto simp: run_registered_socket_def split: sum.splits)
next
  case True
  then obtain h where h: "decode_hello dec (sw_first w) = Inr h" "accept_hello shown hst h = Inr ()" by blast
  consider "sw_mark w = Inl ()" | "sw_mark w = Inr False" | "sw_mark w = Inr True" by (cases "sw_mark w") auto
  then show ?thesis
  proof cases
    case 3
    obtain as x where l: "session_loop dec (3 * interval) (sw_started w) (sw_events w) = (as, x)" by fastforce
    then obtain z where z: "x = Some z" using assms h 3 by (cases x) (auto simp: run_registered_socket_def)
    then have "ActUnregister \<in> set acts" using assms h 3 l
      by (auto simp: run_registered_socket_def end_session_def split: if_splits)
    with 3 show ?thesis by simp
  qed (use assms h in \<open>auto simp: run_registered_socket_def\<close>)
qed

definition hs_hello :: hello where
  "hs_hello = \<lparr>he_protocol_name = PROTOCOL_NAME, he_protocol_version = PROTOCOL_VERSION, he_daemon_version = ''1'', he_descriptor = sample_host\<rparr>"

definition hs_world :: "unit + bool \<Rightarrow> socket_world" where
  "hs_world m = \<lparr>sw_first = FirstFrame (WsText ''h''), sw_mark = m, sw_started = 0, sw_events = [(1, HeartbeatTick True), (9, HeartbeatTick True)],
     sw_active = True, sw_unmarked = True\<rparr>"

theorem session_leaves_registration_witness:
  "run_registered_socket (\<lambda>_. Inr (HelloMessage hs_hello)) (\<lambda>_. []) 3 ''h'' (hs_world (Inl ())) = ([ActRegister], Some (Inl database_error)) \<and>
   (\<exists>h. decode_hello (\<lambda>_. Inr (HelloMessage hs_hello)) (sw_first (hs_world (Inl ()))) = Inr h \<and> accept_hello (\<lambda>_. []) ''h'' h = Inr ()) \<and>
   snd (run_registered_socket (\<lambda>_. Inr (HelloMessage hs_hello)) (\<lambda>_. []) 3 ''h'' (hs_world (Inr True))) = Some (Inr ())"
proof -
  have d: "decode_hello (\<lambda>_. Inr (HelloMessage hs_hello)) (sw_first (hs_world m)) = Inr hs_hello" for m
    by (simp add: decode_hello_def hs_world_def)
  have v: "descriptor_validate sample_host = Inr ()" by code_simp
  have t: "trim ''1'' = ''1''" by code_simp
  have a: "accept_hello (\<lambda>_. []) ''h'' hs_hello = Inr ()"
    by (simp add: accept_hello_def hs_hello_def v validate_daemon_version_def t) (simp add: sample_host_def)
  have r: "run_registered_socket (\<lambda>_. Inr (HelloMessage hs_hello)) (\<lambda>_. []) 3 ''h'' (hs_world (Inl ())) = ([ActRegister], Some (Inl database_error))"
    by (simp add: run_registered_socket_def d a) (simp add: hs_world_def)
  moreover have "snd (run_registered_socket (\<lambda>_. Inr (HelloMessage hs_hello)) (\<lambda>_. []) 3 ''h'' (hs_world (Inr True))) = Some (Inr ())"
    by (simp add: run_registered_socket_def d a) (simp add: hs_world_def session_turn_def end_session_def activity_after_def)
  ultimately show ?thesis using session_leaves_registration [OF r] by simp
qed

text \<open>
  A request can reach the daemon before its welcome: the connection is registered, and takes calls, while the database records it, and the
  welcome is queued behind them. The daemon then gives up the connection.
\<close>

theorem request_overtakes_welcome:
  "\<exists>st. registry_run 1 st \<and> cn_outbox (rg_connections st ! 0) = [RequestMessage hv_request, WelcomeMessage 1] \<and>
     daemon_welcome (hd (cn_outbox (rg_connections st ! 0))) = Inl ''gateway sent an execution request before welcome''"
proof -
  let ?st = "queue_welcome 0 1 hv_sent"
  have "registry_run 1 ?st"
    by (rule run_step [OF hv_sent_run registry_step.welcomed]) (simp_all add: hv_sent_def hv_connection_def outbox_capacity_def)
  moreover have "cn_outbox (rg_connections ?st ! 0) = [RequestMessage hv_request, WelcomeMessage 1]"
    by (simp add: queue_welcome_def on_connection_def hv_sent_def hv_connection_def)
  ultimately show ?thesis by (intro exI [of _ ?st]) (simp add: daemon_welcome_def)
qed

text \<open>Reconnecting: every delay is between one and thirty seconds, and after \<open>k\<close> failed attempts in a row it has doubled \<open>k\<close> times or reached the bound.\<close>

lemma daemon_run_bounds: "1000 \<le> delay \<Longrightarrow> delay \<le> 30000 \<Longrightarrow> list_all (\<lambda>d. 1000 \<le> d \<and> d \<le> 30000) (daemon_run delay rs)"
  by (induction delay rs rule: daemon_run.induct) simp_all

lemma daemon_run_doubles:
  "list_all isl rs \<Longrightarrow> k < length rs \<Longrightarrow> daemon_run (min delay 30000) rs ! k = min (delay * 2 ^ k) 30000"
proof (induction rs arbitrary: delay k)
  case (Cons r rs)
  have e: "min (min delay 30000 * 2) 30000 = min (delay * 2) 30000" by simp
  from Cons.prems obtain m where r: "r = Inl m" by (cases r) auto
  show ?case
  proof (cases k)
    case (Suc j)
    then show ?thesis using Cons.IH [of j "delay * 2"] Cons.prems r e by (simp add: mult.assoc)
  qed (simp add: r)
qed simp

end
