(* ===== verification/Spec2Isabelle.thy ===== *)
theory Spec2Isabelle
  imports Patch_Text Journal Unified_Supervisor Process_Launch Remote_Hosts Host_Session
begin

text \<open>
  A verification library for \<open>agent-pane\<close>, a platform in which language-model agents act on
  remote machines. The program has three systems. \<open>execution/\<close> runs a supervisor on a machine
  that serves a root-relative filesystem and supervised processes, and a gateway through which the machines of registered hosts are
  reached; \<open>platform/\<close> holds the tools an agent calls and the harnesses that drive them; \<open>llm/\<close> talks to model
  providers. The library models the path of an agent's action: a tool checks its input, turns it into requests of the \<open>FileSystem\<close> and
  \<open>ProcessRuntime\<close> traits, a client sends them through the gateway to the daemon of a host, and the supervisor of the host carries
  them out below its roots, or runs a process and journals what it writes.

  Theories and sources (paths below \<open>src/\<close>). The base:

  \<^item> \<open>Prelude\<close>: Rust strings as byte strings, saturating and checked \<open>u64\<close> arithmetic, results
    with errors and panics (\<open>failure\<close>), splitting, trimming and joining of strings. \<open>Rust_Text\<close>: UTF-8 and what else the
    tools use of \<open>str\<close>.
  \<^item> \<open>Exec_Core\<close>: \<open>execution/packages/execution-core/src/{validation,error,ids,filesystem,process,
    descriptor,context}.rs\<close>. Requests and results as records, \<open>Validate\<close> implementations as
    functions to lists of issues. The theorems say exactly which paths, host
    descriptors and start requests pass.
  \<^item> \<open>Exec_Runtime\<close>, \<open>Process_Runtime\<close>: the effects (functions from a host state to a result and the next state), the records \<open>runtime\<close>
    and \<open>process_runtime\<close> of the two traits, over which the tools are written, and the contracts of a host as locales: \<open>file_host\<close> and
    its extension \<open>revision_host\<close>, \<open>process_host\<close> and its extension \<open>ending_host\<close>.

  The tools, \<open>platform/packages/tools/\<close>:

  \<^item> \<open>Patch_Parser\<close>, \<open>Patch_Text\<close>: \<open>apply-patch/src/parser.rs\<close>. The line state
    machine never reaches its \<open>unreachable!\<close> arms, accepts only well-formed hunks, and
    reads the textual form of a patch back as the same hunks.
  \<^item> \<open>Patch_Update\<close>: \<open>update.rs\<close>. The four matchers, the computation of replacements with the
    panics of slices, both applications of replacements. An accepted patch cannot panic, the
    search finds the first match of the strongest matcher, the new lines are the old lines with
    every chunk replaced where it was found, and the mode that normalises line ends loses a last blank line.
  \<^item> \<open>Patch_Apply\<close>: \<open>lib.rs\<close>, \<open>prepare.rs\<close>, \<open>apply.rs\<close> and \<open>filesystem.rs\<close> of the tool. Preparation, the
    checkpointed state machine and its loop, proved for every \<open>file_host\<close>.
  \<^item> \<open>Tool_Paths\<close>: \<open>filesystem/src/{lib,normalized}.rs\<close>. A resolved path is
    portable, names a registered root and lies below it.
  \<^item> \<open>Write_Tool\<close>, \<open>Edit_Tool\<close>, \<open>Read_Tool\<close>: \<open>write\<close>, \<open>edit\<close> and \<open>read\<close>. Conditions on the observed revision, exact replacement of text, windows of
    numbered lines.
  \<^item> \<open>Output_Buffers\<close>: the retained tail of \<open>bash-minimal/src/output.rs\<close>, and \<open>unified-exec/src/{buffer,output}.rs\<close>.
  \<^item> \<open>Bash_Tool\<close>: \<open>bash-minimal/src/{lib,shell,output}.rs\<close>. What polling has consumed of a log, for every \<open>process_host\<close>.
  \<^item> \<open>Unified_Exec\<close>, \<open>Unified_Session\<close>: \<open>unified-exec/src/{lib,patch}.rs\<close>. Every call shows the part of the log between two
    cursors, for every \<open>interactive_host\<close> (\<open>process_host\<close> with starting, input, signals and a clock).

  The supervisor, \<open>execution/packages/execution-supervisor-core/src/\<close>:

  \<^item> \<open>Native_Fs\<close>: the tree of files, directories and symbolic links behind \<open>tokio::fs\<close>. Names, link targets and paths are bytes; what becomes
    text goes through \<open>utf8_lossy\<close>.
  \<^item> \<open>Supervisor_Paths\<close>, \<open>Supervisor_Files\<close>: \<open>{path_resolver,config,error,filesystem}.rs\<close>. Resolution of paths with links, and the six
    filesystem operations with idempotency records. Whatever the requests, nothing outside the
    addressed root changes; a repeated mutation returns its recorded outcome; a write that is dropped anywhere after it was admitted
    is never carried out again. An open file may fail while it is filled (\<open>write_fault\<close>): an in-place write then leaves a part of its
    bytes, an atomic one removes its temporary file.
  \<^item> \<open>Journal\<close>: \<open>process/journal.rs\<close>. The journal refines a log of
    events, is closed once, and polling it returns the stream without loss or repetition.
  \<^item> \<open>Process_Manager\<close>: \<open>process/manager.rs\<close> as a step relation on sessions, records and the quota. Looking at the journal and setting the completion flag are two
    steps, for the timer and for a termination, and so are loading the flag and the append it selects the state for, so that a run interleaves them as the tasks of
    the code do. The insertion of a session, its count and its \<open>Started\<close> event are one step, and closing a journal and giving its unit of the quota
    back are one. \<open>Process_Launch\<close>: \<open>process/shell.rs\<close>, \<open>platform.rs\<close> and the construction of commands.
  \<^item> \<open>Patch_Supervisor\<close> and \<open>Edit_Supervisor\<close> interpret \<open>file_host\<close> and \<open>revision_host\<close> on the supervisor;
    \<open>Bash_Supervisor\<close> and \<open>Unified_Supervisor\<close> interpret \<open>ending_host\<close> and \<open>interactive_host\<close> on timelines of the process manager, on which any other
    request and task may run between and during calls. They hold the end-to-end properties of a patch (one that moves a file onto itself deletes it), an edit, a write, a read, a command and an
    interactive session.

  Between a tool and a host:

  \<^item> \<open>Wire_Protocol\<close>: \<open>execution/packages/execution-wire/src\<close> and the connection of \<open>execution/apps/execution-supervisor/src/{server,client}.rs\<close>. Frames read in any pieces
    are the frames written, and a call over a local connection is a dispatch.
  \<^item> \<open>Gateway_Client\<close>: \<open>execution/packages/execution-client/src/{client,error,runtime}.rs\<close>. A connected host as a \<open>runtime\<close> and a \<open>process_runtime\<close>.
  \<^item> \<open>Gateway_Security\<close>, \<open>Gateway_Http\<close>: \<open>execution/apps/execution-gateway/src/{security,error}.rs\<close> and the execution route of \<open>http.rs\<close>. The limiter admits at most
    twice its maximum in any minute.
  \<^item> \<open>Host_Connections\<close>: \<open>host_connections.rs\<close> as a step relation, one step for every access to a lock, a channel or a semaphore. A call
    returns only the response to its own request, and the maps of pending calls and the permits are exact.
  \<^item> \<open>Host_Session\<close>: the socket of a daemon, on the gateway's side (\<open>http.rs\<close>) and the daemon's (\<open>execution-host-daemon/src/connection.rs\<close>).
  \<^item> \<open>Remote_Hosts\<close>: the locale \<open>relayed_host\<close> says what the path through the gateway does to a call: it is not carried out and fails, or is
    carried out once and returns the host's value or fails. In \<open>relayed_files\<close> and \<open>relayed_processes\<close> a host behind the gateway is shown to keep the
    contract of the host, as sublocales of \<open>revision_host\<close> and \<open>process_host\<close>; both are interpreted on the path of client, gateway, daemon and supervisor. A patch that
    succeeds through the gateway changes the files of the host as the patch says, and a command reports the journal of the host, on a path that refuses and
    loses requests and replies.

  Parameters. SHA-256, JSON encoding (\<open>serde_json\<close>), UUIDs, clocks, modification times, the shell grammar, sockets and HTTP exchanges, the rows that the gateway's database
  returns and the outcome of file operations of the journal are arguments of the definitions; a theorem that relies on one states
  the documented behaviour it needs as a hypothesis (a decoder inverts its encoder, two requests
  have different fingerprints), or takes it from the type of the argument (\<open>response_codec\<close>).

  Bounds. Recursions follow the data or have a termination proof. Loops that may run for ever, the waiting loops of the shell tools, are partial
  functions into options, and are shown to return when the execution ends. The loop of \<open>apply\<close> ends because every step finishes a hunk or an
  operation of it. The loops of a connection, of a socket session and of the wait for a resuming host follow the list of what arrives; \<open>handle_connection\<close> takes the number of requests until the
  supervisor shuts down. Other limits are the source's own: \<open>resolve_for_creation\<close> stops after 40 links,
  and the walk of \<open>Native_Fs\<close> after the 40 links that the operating system follows.

  Not modelled. Permission bits, hard links and changes of the tree by other processes; allocation failure; serde derives; the scheduling of asynchronous
  tasks other than as an order of steps (in the supervisor every operation that holds a lock is one transition, but for
  a termination, which waits, and a write, which may be dropped between being admitted and its end). A socket that is registered takes its welcome, because its receiver
  is still in scope, so the failing branch of that send is left out. The path in \<open>Remote_Hosts\<close> takes the outcome of a host connection as an argument; that an
  answer is the response to the request is shown in \<open>Host_Connections\<close>. Of the gateway, the database, the lifecycle of E2B hosts and the control routes; of the other
  components the harnesses, the model providers and the platform services, which are HTTP, SQL and process glue around libraries that are not part of the
  sources; the manifest lists them one by one.
\<close>

end
